(* ===== verification/PyValue.thy ===== *)
theory PyValue
  imports Prelude
begin

text \<open>
  The values that flow through the untyped parts of the program (pipeline state, step
  outputs, YAML payloads, JSON documents): Python's \<open>None\<close>, \<open>bool\<close>, \<open>int\<close>,
  \<open>float\<close>, \<open>str\<close>, \<open>list\<close> and \<open>dict\<close> with string keys. Floats are finite and
  exact. The theory has truth values, \<open>==\<close>, \<open>str()\<close>, \<open>repr()\<close> and
  \<open>json.dumps\<close>; only the decimal text of a float is a parameter (\<open>fstr\<close>).
\<close>

datatype pyval =
    PNone
  | PBool bool
  | PInt int
  | PFloat rat
  | PStr string
  | PList "pyval list"
  | PDict "(string \<times> pyval) list"

type_synonym dict = "(string \<times> pyval) list"

subsection \<open>Type tests and truth\<close>

fun is_str :: "pyval \<Rightarrow> bool" where
  "is_str (PStr _) = True" | "is_str _ = False"

fun is_dict :: "pyval \<Rightarrow> bool" where
  "is_dict (PDict _) = True" | "is_dict _ = False"

fun is_list :: "pyval \<Rightarrow> bool" where
  "is_list (PList _) = True" | "is_list _ = False"

fun type_name :: "pyval \<Rightarrow> string" where
  "type_name PNone = ''NoneType''"
| "type_name (PBool _) = ''bool''"
| "type_name (PInt _) = ''int''"
| "type_name (PFloat _) = ''float''"
| "type_name (PStr _) = ''str''"
| "type_name (PList _) = ''list''"
| "type_name (PDict _) = ''dict''"

fun truthy :: "pyval \<Rightarrow> bool" where
  "truthy PNone = False"
| "truthy (PBool b) = b"
| "truthy (PInt i) = (i \<noteq> 0)"
| "truthy (PFloat r) = (r \<noteq> 0)"
| "truthy (PStr s) = (s \<noteq> [])"
| "truthy (PList xs) = (xs \<noteq> [])"
| "truthy (PDict d) = (d \<noteq> [])"

text \<open>\<open>d.get(k)\<close>: \<open>None\<close> when the key is absent.\<close>

definition dget :: "dict \<Rightarrow> string \<Rightarrow> pyval" where
  "dget d k = (case map_of d k of Some v \<Rightarrow> v | None \<Rightarrow> PNone)"

definition dget_or :: "dict \<Rightarrow> string \<Rightarrow> pyval \<Rightarrow> pyval" where
  "dget_or d k v0 = (case map_of d k of Some v \<Rightarrow> v | None \<Rightarrow> v0)"

abbreviation dset :: "string \<Rightarrow> pyval \<Rightarrow> dict \<Rightarrow> dict" where
  "dset \<equiv> AList.update"

definition has_key :: "dict \<Rightarrow> string \<Rightarrow> bool" where
  "has_key d k = (map_of d k \<noteq> None)"

text \<open>\<open>d.setdefault(k, v)\<close>.\<close>

definition dsetdefault :: "string \<Rightarrow> pyval \<Rightarrow> dict \<Rightarrow> dict" where
  "dsetdefault k v d = (if has_key d k then d else dset k v d)"

lemma dget_update [simp]: "dget (dset k v d) k' = (if k' = k then v else dget d k')"
  by (simp add: dget_def)

lemma dget_or_update [simp]: "dget_or (dset k v d) k' x = (if k' = k then v else dget_or d k' x)"
  by (simp add: dget_or_def)

lemma has_key_update [simp]: "has_key (dset k v d) k' = (k' = k \<or> has_key d k')"
  by (simp add: has_key_def)

subsection \<open>Numbers and equality\<close>

fun num_of :: "pyval \<Rightarrow> rat option" where
  "num_of (PBool b) = Some (if b then 1 else 0)"
| "num_of (PInt i) = Some (of_int i)"
| "num_of (PFloat r) = Some r"
| "num_of _ = None"

function (sequential) py_eq :: "pyval \<Rightarrow> pyval \<Rightarrow> bool" where
  "py_eq PNone PNone = True"
| "py_eq (PStr a) (PStr b) = (a = b)"
| "py_eq (PList xs) (PList ys) = list_all2 py_eq xs ys"
| "py_eq (PDict d) (PDict e) =
     (length d = length e \<and>
      list_all (\<lambda>p. case map_of e (fst p) of None \<Rightarrow> False | Some w \<Rightarrow> py_eq (snd p) w) d)"
| "py_eq a b = (case (num_of a, num_of b) of (Some x, Some y) \<Rightarrow> x = y | _ \<Rightarrow> False)"
  by pat_completeness auto

termination
  by (relation "measure (\<lambda>(v, w). size v)")
    (auto simp: less_Suc_eq_le intro: size_list_estimation' trans_le_add2 le_SucI)

lemma py_eq_scalar [simp]:
  "py_eq (PStr a) v \<longleftrightarrow> v = PStr a"
  "py_eq v (PStr a) \<longleftrightarrow> v = PStr a"
  "py_eq PNone v \<longleftrightarrow> v = PNone"
  "py_eq v PNone \<longleftrightarrow> v = PNone"
  by (cases v; auto)+

subsection \<open>\<open>str()\<close>, \<open>repr()\<close> and \<open>json.dumps\<close>\<close>

definition hex_digit :: "nat \<Rightarrow> char" where
  "hex_digit n = char_of (if n < 10 then 48 + n else 87 + n)"

definition hex2 :: "nat \<Rightarrow> string" where
  "hex2 n = [hex_digit (n div 16), hex_digit (n mod 16)]"

definition repr_char :: "char \<Rightarrow> char \<Rightarrow> string" where
  "repr_char q c = (let n = (of_char c :: nat) in
     if c = CHR 0x5C then [CHR 0x5C, CHR 0x5C]
     else if c = q then [CHR 0x5C, q]
     else if n = 10 then [CHR 0x5C, CHR ''n'']
     else if n = 13 then [CHR 0x5C, CHR ''r'']
     else if n = 9 then [CHR 0x5C, CHR ''t'']
     else if n < 32 \<or> n = 127 then [CHR 0x5C, CHR ''x''] @ hex2 n
     else [c])"

definition repr_string :: "string \<Rightarrow> string" where
  "repr_string s =
     (let q = (if CHR 0x27 \<in> set s \<and> CHR 0x22 \<notin> set s then CHR 0x22 else CHR 0x27)
      in [q] @ concat (map (repr_char q) s) @ [q])"

fun py_repr :: "(rat \<Rightarrow> string) \<Rightarrow> pyval \<Rightarrow> string" where
  "py_repr fstr PNone = ''None''"
| "py_repr fstr (PBool b) = (if b then ''True'' else ''False'')"
| "py_repr fstr (PInt i) = int_str i"
| "py_repr fstr (PFloat r) = fstr r"
| "py_repr fstr (PStr s) = repr_string s"
| "py_repr fstr (PList xs) = ''['' @ join '', '' (map (py_repr fstr) xs) @ '']''"
| "py_repr fstr (PDict d) =
     ''{'' @ join '', '' (map (\<lambda>p. repr_string (fst p) @ '': '' @ py_repr fstr (snd p)) d) @ ''}''"

definition py_str :: "(rat \<Rightarrow> string) \<Rightarrow> pyval \<Rightarrow> string" where
  "py_str fstr v = (case v of PStr s \<Rightarrow> s | _ \<Rightarrow> py_repr fstr v)"

definition json_char :: "char \<Rightarrow> string" where
  "json_char c = (let n = (of_char c :: nat) in
     if c = CHR 0x5C then [CHR 0x5C, CHR 0x5C]
     else if c = CHR 0x22 then [CHR 0x5C, CHR 0x22]
     else if n = 10 then [CHR 0x5C, CHR ''n'']
     else if n = 13 then [CHR 0x5C, CHR ''r'']
     else if n = 9 then [CHR 0x5C, CHR ''t'']
     else if n = 12 then [CHR 0x5C, CHR ''f'']
     else if n = 8 then [CHR 0x5C, CHR ''b'']
     else if n < 32 then [CHR 0x5C, CHR ''u'', CHR ''0'', CHR ''0''] @ hex2 n
     else [c])"

definition json_string :: "string \<Rightarrow> string" where
  "json_string s = [CHR 0x22] @ concat (map json_char s) @ [CHR 0x22]"

text \<open>
  \<open>json.dumps(v, ensure_ascii=False, sort_keys=srt, separators=(isep, ksep))\<close>.
\<close>

fun json_dumps :: "(rat \<Rightarrow> string) \<Rightarrow> bool \<Rightarrow> string \<Rightarrow> string \<Rightarrow> pyval \<Rightarrow> string" where
  "json_dumps fstr srt isep ksep PNone = ''null''"
| "json_dumps fstr srt isep ksep (PBool b) = (if b then ''true'' else ''false'')"
| "json_dumps fstr srt isep ksep (PInt i) = int_str i"
| "json_dumps fstr srt isep ksep (PFloat r) = fstr r"
| "json_dumps fstr srt isep ksep (PStr s) = json_string s"
| "json_dumps fstr srt isep ksep (PList xs) =
     ''['' @ join isep (map (json_dumps fstr srt isep ksep) xs) @ '']''"
| "json_dumps fstr srt isep ksep (PDict d) =
     (let items = map (\<lambda>p. (fst p, json_dumps fstr srt isep ksep (snd p))) d in
      ''{'' @ join isep (map (\<lambda>q. json_string (fst q) @ ksep @ snd q)
                    (if srt then sort_key fst items else items)) @ ''}'')"

text \<open>\<open>str(exc)\<close>: a \<open>KeyError\<close> shows the \<open>repr\<close> of its key.\<close>

fun exn_str :: "exn \<Rightarrow> string" where
  "exn_str (KeyError m) = repr_string m"
| "exn_str e = exn_message e"

subsection \<open>\<open>float()\<close>\<close>

text \<open>
  \<open>float(s)\<close> of a finite decimal literal: an optional sign, digits with single
  underscores between them, a fraction and an exponent, between white space. The texts
  for infinities and not-a-number are not finite and count as not parseable.
\<close>

definition is_digit :: "char \<Rightarrow> bool" where
  "is_digit c = (let n = (of_char c :: nat) in 48 \<le> n \<and> n \<le> 57)"

definition digit_run :: "string \<Rightarrow> bool" where
  "digit_run s = list_all (\<lambda>w. w \<noteq> [] \<and> list_all is_digit w) (split_on CHR ''_'' s)"

definition digits_value :: "string \<Rightarrow> nat" where
  "digits_value s = fold (\<lambda>c n. 10 * n + (of_char c - 48)) (filter is_digit s) 0"

fun split_sign :: "string \<Rightarrow> bool \<times> string" where
  "split_sign (c # s) = (if c = CHR ''-'' then (True, s) else if c = CHR ''+'' then (False, s) else (False, c # s))"
| "split_sign [] = (False, [])"

definition parse_float :: "string \<Rightarrow> rat option" where
  "parse_float s0 =
     (let (neg, s) = split_sign (py_strip s0);
          (mant, ex) = split_once CHR ''e'' (map (\<lambda>c. if c = CHR ''E'' then CHR ''e'' else c) s);
          (ip, fp0) = split_once CHR ''.'' mant;
          fp = (case fp0 of None \<Rightarrow> [] | Some f \<Rightarrow> f);
          (eneg, ed) = (case ex of None \<Rightarrow> (False, ''0'') | Some e \<Rightarrow> split_sign e);
          flen = length (filter is_digit fp);
          mag = (of_nat (digits_value ip) + of_nat (digits_value fp) / 10 ^ flen :: rat);
          scaled = (if eneg then mag / 10 ^ digits_value ed else mag * 10 ^ digits_value ed)
      in if (ip = [] \<or> digit_run ip) \<and> (fp = [] \<or> digit_run fp) \<and> \<not> (ip = [] \<and> fp = []) \<and> digit_run ed
         then Some (if neg then - scaled else scaled) else None)"

fun py_float :: "pyval \<Rightarrow> exn + rat" where
  "py_float (PStr s) = (case parse_float s of
     Some r \<Rightarrow> Inr r | None \<Rightarrow> Inl (ValueError (''could not convert string to float: '' @ repr_string s)))"
| "py_float v = (case num_of v of
     Some r \<Rightarrow> Inr r
   | None \<Rightarrow> Inl (TypeError (''float() argument must be a string or a real number, not '' @ repr_string (type_name v))))"

subsection \<open>\<open>int()\<close>\<close>

text \<open>\<open>int(x)\<close>: a float is cut towards zero, a text is a decimal literal between white space.\<close>

definition parse_int :: "string \<Rightarrow> int option" where
  "parse_int s0 =
     (let (neg, s) = split_sign (py_strip s0) in
      if digit_run s then Some (if neg then - int (digits_value s) else int (digits_value s)) else None)"

fun py_int :: "pyval \<Rightarrow> exn + int" where
  "py_int (PBool b) = Inr (if b then 1 else 0)"
| "py_int (PInt i) = Inr i"
| "py_int (PFloat r) = Inr (if r < 0 then - \<lfloor>- r\<rfloor> else \<lfloor>r\<rfloor>)"
| "py_int (PStr s) = (case parse_int s of
     Some i \<Rightarrow> Inr i
   | None \<Rightarrow> Inl (ValueError (''invalid literal for int() with base 10: '' @ repr_string s)))"
| "py_int v = Inl (TypeError (''int() argument must be a string, a bytes-like object or a real number, not ''
     @ repr_string (type_name v)))"

subsection \<open>Same content, any key order\<close>

text \<open>
  Two values are the same content when they differ only in the insertion order of
  their dictionaries' keys, at any depth. Dictionaries have distinct keys.
\<close>

inductive same_content :: "pyval \<Rightarrow> pyval \<Rightarrow> bool" where
  same_refl: "same_content v v"
| same_list: "list_all2 same_content xs ys \<Longrightarrow> same_content (PList xs) (PList ys)"
| same_dict: "distinct (map fst d) \<Longrightarrow> mset d = mset d' \<Longrightarrow>
     list_all2 (\<lambda>p q. fst p = fst q \<and> same_content (snd p) (snd q)) d' e \<Longrightarrow>
     same_content (PDict d) (PDict e)"
monos list_all2_mono

lemma sort_key_unique:
  assumes "mset xs = mset ys" "distinct (map k xs)"
  shows "sort_key k xs = sort_key k ys"
proof (rule sort_key_inj_key_eq)
  show "mset xs = mset (sort_key k ys)" using assms(1) by simp
  show "inj_on k (set xs)" using assms(2) by (simp add: distinct_map)
  show "sorted (map k (sort_key k ys))" by simp
qed

text \<open>The sorted JSON text depends on the content only.\<close>

lemma map_items_same:
  assumes "list_all2 (\<lambda>p q. fst p = fst q \<and> f (snd p) = f (snd q)) d e"
  shows "map (\<lambda>p. (fst p, f (snd p))) d = map (\<lambda>p. (fst p, f (snd p))) e"
  using assms by (induction rule: list_all2_induct) auto

lemma json_dumps_same_content:
  assumes "same_content v w"
  shows "json_dumps fstr True isep ksep v = json_dumps fstr True isep ksep w"
  using assms
proof (induction rule: same_content.induct)
  case (same_refl v)
  show ?case ..
next
  case (same_list xs ys)
  then have "map (json_dumps fstr True isep ksep) xs = map (json_dumps fstr True isep ksep) ys"
    by (auto simp: list_all2_conv_all_nth intro: nth_equalityI)
  then show ?case by simp
next
  case (same_dict d d' e)
  let ?f = "json_dumps fstr True isep ksep"
  let ?items = "map (\<lambda>p. (fst p, ?f (snd p)))"
  have "sort_key fst (?items d) = sort_key fst (?items d')"
    using same_dict.hyps(1,2) by (intro sort_key_unique) (auto simp: comp_def)
  also have "?items d' = ?items e"
    using same_dict.IH by (intro map_items_same) (auto elim: list_all2_mono)
  finally show ?case by simp
qed

end
