(* ===== verification/Placeholders.thy ===== *)
theory Placeholders
  imports PyValue
begin

text \<open>
  \<open>registry/placeholder_mapping.py\<close>: template placeholders \<open>{{ path }}\<close> in
  pipeline mappings, their root keys and the contracts the known keys stand for. The
  scanner is the regular expression of the source: at each position it tries two braces,
  white space, a non-empty run of word characters and dots, white space, two braces;
  white space and word characters are disjoint, so no backtracking can help a match.
\<close>

definition is_path_char :: "char \<Rightarrow> bool" where
  "is_path_char c = (let n = (of_char c :: nat) in
     48 \<le> n \<and> n \<le> 57 \<or> 65 \<le> n \<and> n \<le> 90 \<or> 97 \<le> n \<and> n \<le> 122 \<or> c = CHR ''_'' \<or> c = CHR ''.'')"

definition match_placeholder :: "string \<Rightarrow> (string \<times> string) option" where
  "match_placeholder s =
     (if starts_with ''{{'' s then
        let r1 = py_lstrip (drop 2 s); w = takeWhile is_path_char r1;
            r2 = py_lstrip (dropWhile is_path_char r1)
        in if w \<noteq> [] \<and> starts_with ''}}'' r2 then Some (w, drop 2 r2) else None
      else None)"

lemma match_placeholder_shorter:
  assumes "match_placeholder s = Some (w, r)"
  shows "length r < length s"
proof -
  have "starts_with ''{{'' s" using assms by (auto simp: match_placeholder_def split: if_splits)
  then have len: "2 \<le> length s" by (auto simp: starts_with_iff)
  obtain r2 where r: "r = drop 2 r2"
    and r2: "r2 = py_lstrip (dropWhile is_path_char (py_lstrip (drop 2 s)))"
    using assms by (auto simp: match_placeholder_def Let_def split: if_splits)
  have "length r2 \<le> length (drop 2 s)"
    unfolding r2 py_lstrip_def by (meson length_dropWhile_le order_trans)
  with r len show ?thesis by auto
qed

function find_placeholders :: "string \<Rightarrow> string list" where
  "find_placeholders [] = []"
| "find_placeholders (c # s) =
     (case match_placeholder (c # s) of
        Some (w, r) \<Rightarrow> w # find_placeholders r
      | None \<Rightarrow> find_placeholders s)"
  by pat_completeness auto
termination
  by (relation "measure length") (auto dest: match_placeholder_shorter)

fun extract_placeholders :: "pyval \<Rightarrow> string list" where
  "extract_placeholders (PStr s) = find_placeholders s"
| "extract_placeholders (PDict d) = concat (map (\<lambda>p. extract_placeholders (snd p)) d)"
| "extract_placeholders (PList xs) = concat (map extract_placeholders xs)"
| "extract_placeholders _ = []"

definition root_key :: "string \<Rightarrow> string" where
  "root_key path = fst (split_once CHR ''.'' (py_strip path))"

definition placeholder_contract_map :: "(string \<times> string) list" where
  "placeholder_contract_map =
     [(''dod'', ''context.dod.v1''), (''specification'', ''context.spec.v1''),
      (''feature_spec'', ''context.spec.v1''), (''tests'', ''context.tests.v1''),
      (''code_patch'', ''context.code_patch.v1''), (''fixed_code_patch'', ''context.code_patch.v1''),
      (''final_code_patch'', ''context.code_patch.v1'')]"

definition resolve_contract_for_key :: "string \<Rightarrow> string option" where
  "resolve_contract_for_key key = map_of placeholder_contract_map key"

definition resolve_contract_for_placeholder :: "string \<Rightarrow> string option" where
  "resolve_contract_for_placeholder p = resolve_contract_for_key (root_key p)"

subsection \<open>Placeholders are found and nothing else\<close>

lemma path_char_not_space: "is_path_char c \<Longrightarrow> \<not> py_isspace c"
  by (auto simp: is_path_char_def py_isspace_def Let_def)

lemma path_char_not_brace: "\<not> is_path_char CHR ''}''" "\<not> is_path_char CHR ''{''"
  by (simp_all add: is_path_char_def)

lemma dropWhile_word: "list_all is_path_char w \<Longrightarrow> w \<noteq> [] \<Longrightarrow> py_lstrip (w @ r) = w @ r"
  by (cases w) (auto simp: py_lstrip_def dest: path_char_not_space)

lemma takeWhile_word:
  assumes "list_all is_path_char w"
  shows "takeWhile is_path_char (w @ CHR ''}'' # r) = w"
    "dropWhile is_path_char (w @ CHR ''}'' # r) = CHR ''}'' # r"
  using assms by (induction w) (auto simp: path_char_not_brace)

lemma match_written_placeholder:
  assumes "list_all is_path_char w" "w \<noteq> []"
  shows "match_placeholder (''{{'' @ w @ ''}}'' @ r) = Some (w, r)"
  using assms dropWhile_word [OF assms, of "''}}'' @ r"] takeWhile_word [OF assms(1), of "CHR ''}'' # r"]
  by (simp add: match_placeholder_def Let_def py_lstrip_def py_isspace_def)

lemma find_written_placeholder:
  assumes "list_all is_path_char w" "w \<noteq> []"
  shows "find_placeholders (''{{'' @ w @ ''}}'' @ r) = w # find_placeholders r"
  using match_written_placeholder [OF assms, of r] by simp

lemma find_no_brace: "CHR ''{'' \<notin> set s \<Longrightarrow> find_placeholders s = []"
  by (induction s) (auto simp: match_placeholder_def)

lemma find_skip_prefix:
  assumes "CHR ''{'' \<notin> set s"
  shows "find_placeholders (s @ t) = find_placeholders t"
  using assms by (induction s) (auto simp: match_placeholder_def)

lemma find_placeholders_words:
  "w \<in> set (find_placeholders s) \<Longrightarrow> w \<noteq> [] \<and> list_all is_path_char w"
proof (induction s rule: find_placeholders.induct)
  case 1
  then show ?case by simp
next
  case (2 c s)
  show ?case
  proof (cases "match_placeholder (c # s)")
    case None
    with 2 show ?thesis by simp
  next
    case (Some p)
    obtain u r where p: "p = (u, r)" by (cases p)
    have "u \<noteq> [] \<and> list_all is_path_char u"
      using Some p
      by (auto simp: match_placeholder_def Let_def list_all_iff dest: set_takeWhileD split: if_splits)
    with 2 Some p show ?thesis by auto
  qed
qed

end
