(* ===== verification/Status.thy ===== *)
theory Status
  imports PyValue
begin

text \<open>
  \<open>orchestrator/status.py\<close>: the step statuses and their transition table;
  \<open>orchestrator/retry.py\<close>: the retry policy; \<open>orchestrator/override.py\<close>: the
  registry of operator overrides.
\<close>

subsection \<open>Step statuses\<close>

datatype step_status =
  PENDING | RUNNING | SUCCESS | FAILED | BLOCKED | SKIPPED | PARTIAL_SUCCESS

fun status_value :: "step_status \<Rightarrow> string" where
  "status_value PENDING = ''PENDING''"
| "status_value RUNNING = ''RUNNING''"
| "status_value SUCCESS = ''SUCCESS''"
| "status_value FAILED = ''FAILED''"
| "status_value BLOCKED = ''BLOCKED''"
| "status_value SKIPPED = ''SKIPPED''"
| "status_value PARTIAL_SUCCESS = ''PARTIAL_SUCCESS''"

definition all_statuses :: "step_status list" where
  "all_statuses = [PENDING, RUNNING, SUCCESS, FAILED, BLOCKED, SKIPPED, PARTIAL_SUCCESS]"

text \<open>\<open>StepStatus(value)\<close>: the member with this value, or \<open>ValueError\<close>.\<close>

definition status_of_value :: "string \<Rightarrow> exn + step_status" where
  "status_of_value s = (case find (\<lambda>st. status_value st = s) all_statuses of
     Some st \<Rightarrow> Inr st
   | None \<Rightarrow> Inl (ValueError (repr_string s @ '' is not a valid StepStatus'')))"

fun valid_transitions :: "step_status \<Rightarrow> step_status list" where
  "valid_transitions PENDING = [RUNNING, SKIPPED, BLOCKED]"
| "valid_transitions RUNNING = [SUCCESS, PARTIAL_SUCCESS, FAILED, BLOCKED, SKIPPED]"
| "valid_transitions SUCCESS = [RUNNING]"
| "valid_transitions PARTIAL_SUCCESS = [RUNNING]"
| "valid_transitions FAILED = [RUNNING, SKIPPED]"
| "valid_transitions BLOCKED = [RUNNING, SKIPPED]"
| "valid_transitions SKIPPED = [RUNNING]"

definition can_transition :: "step_status \<Rightarrow> step_status \<Rightarrow> bool" where
  "can_transition cur nxt = (if cur = nxt then True else nxt \<in> set (valid_transitions cur))"

definition ensure_valid_transition :: "step_status \<Rightarrow> step_status \<Rightarrow> exn + unit" where
  "ensure_valid_transition cur nxt =
     (if \<not> can_transition cur nxt
      then Inl (InvalidStatusTransition (''Invalid step status transition: '' @ status_value cur
                @ '' -> '' @ status_value nxt))
      else Inr ())"

lemma status_value_inject [simp]: "status_value a = status_value b \<longleftrightarrow> a = b"
  by (cases a; cases b) simp_all

lemma status_value_roundtrip [simp]: "status_of_value (status_value s) = Inr s"
  by (cases s) (simp_all add: status_of_value_def all_statuses_def)

lemma all_statuses_complete: "s \<in> set all_statuses"
  by (cases s) (simp_all add: all_statuses_def)

lemma status_of_value_Inr [returns_iff]: "status_of_value v = Inr s \<longleftrightarrow> status_value s = v"
proof
  assume "status_of_value v = Inr s"
  then show "status_value s = v"
    by (auto simp: status_of_value_def find_Some_iff split: option.splits)
next
  assume "status_value s = v"
  then show "status_of_value v = Inr s" by auto
qed

lemma ensure_valid_transition_Inr [returns_iff]:
  "ensure_valid_transition a b = Inr u \<longleftrightarrow> can_transition a b"
  by (cases u) (simp add: ensure_valid_transition_def)

lemma can_transition_refl [simp]: "can_transition s s"
  by (simp add: can_transition_def)

lemma can_transition_RUNNING [simp]: "can_transition s RUNNING"
  by (cases s) (simp_all add: can_transition_def)

lemma can_transition_PENDING: "can_transition s PENDING \<longleftrightarrow> s = PENDING"
  by (cases s) (simp_all add: can_transition_def)

lemma can_transition_from_RUNNING: "can_transition RUNNING s \<longleftrightarrow> s \<noteq> PENDING"
  by (cases s) (simp_all add: can_transition_def)

lemma can_transition_SKIPPED:
  "can_transition s SKIPPED \<longleftrightarrow> s \<noteq> SUCCESS \<and> s \<noteq> PARTIAL_SUCCESS"
  by (cases s) (simp_all add: can_transition_def)

lemma can_transition_to_result:
  "s \<in> {SUCCESS, PARTIAL_SUCCESS, FAILED} \<Longrightarrow> can_transition r s \<longleftrightarrow> r = RUNNING \<or> r = s"
  by (cases r) (auto simp: can_transition_def)

definition finished_status :: "step_status \<Rightarrow> bool" where
  "finished_status s = (s \<in> {SUCCESS, PARTIAL_SUCCESS, FAILED, BLOCKED, SKIPPED})"

lemma finished_status_iff: "finished_status s \<longleftrightarrow> s \<noteq> PENDING \<and> s \<noteq> RUNNING"
  by (cases s) (simp_all add: finished_status_def)

subsection \<open>Retry policy\<close>

record retry_policy =
  rp_retry_limit :: int
  rp_backoff_seconds :: rat

definition mk_retry_policy :: "int \<Rightarrow> rat \<Rightarrow> retry_policy" where
  "mk_retry_policy limit backoff =
     \<lparr>rp_retry_limit = max 0 limit, rp_backoff_seconds = max 0 backoff\<rparr>"

text \<open>A step's own \<open>retry_limit\<close> comes unchecked from the YAML file and may be a float.\<close>

definition should_retry :: "retry_policy \<Rightarrow> int \<Rightarrow> rat option \<Rightarrow> bool" where
  "should_retry p attempt limit =
     (let max_retries = (case limit of None \<Rightarrow> of_int (rp_retry_limit p) | Some l \<Rightarrow> max 0 l)
      in of_int attempt \<le> max_retries)"

definition backoff_duration :: "retry_policy \<Rightarrow> int \<Rightarrow> rat" where
  "backoff_duration p attempt =
     (if attempt \<le> 0 then 0 else rp_backoff_seconds p * 2 ^ nat (attempt - 1))"

lemma backoff_nonneg: "0 \<le> rp_backoff_seconds p \<Longrightarrow> 0 \<le> backoff_duration p n"
  by (simp add: backoff_duration_def)

lemma backoff_doubles:
  "1 \<le> n \<Longrightarrow> backoff_duration p (n + 1) = 2 * backoff_duration p n"
proof -
  assume "1 \<le> n"
  then have "nat n = Suc (nat (n - 1))" by simp
  with \<open>1 \<le> n\<close> show ?thesis by (simp add: backoff_duration_def)
qed

subsection \<open>Operator overrides\<close>

datatype override_action = OvStop | OvRetry | OvResume | OvExplain

record override_request =
  ov_run_id :: string
  ov_action :: override_action
  ov_reason :: string
  ov_requested_at :: string

type_synonym override_registry = "(string \<times> override_request) list"

definition override_set ::
  "string \<Rightarrow> string \<Rightarrow> override_action \<Rightarrow> string \<Rightarrow> override_registry
   \<Rightarrow> override_request \<times> override_registry" where
  "override_set now run_id action reason reg =
     (let request = \<lparr>ov_run_id = run_id, ov_action = action, ov_reason = py_strip reason,
                     ov_requested_at = now\<rparr>
      in (request, AList.update run_id request reg))"

definition override_get :: "string \<Rightarrow> override_registry \<Rightarrow> override_request option" where
  "override_get run_id reg = map_of reg run_id"

definition override_clear :: "string \<Rightarrow> override_registry \<Rightarrow> override_registry" where
  "override_clear run_id reg = dict_pop run_id reg"

end
