(* ===== verification/Loader.thy ===== *)
theory Loader
  imports Placeholders Status
begin

text \<open>
  \<open>orchestrator/loader.py\<close>: pipeline definitions and the parser that builds them from
  the YAML payload. Fields the parser stores unchecked (\<open>description\<close>,
  \<open>on_failure\<close>, \<open>output\<close>, \<open>retry_limit\<close>) stay untyped values. Reading the YAML
  text is outside the model: the parser starts from the loaded payload.
\<close>

subsection \<open>Definitions\<close>

record step_definition =
  sd_name :: string
  sd_agent :: string
  sd_description :: pyval
  sd_on_failure :: pyval
  sd_depends_on :: "string list"
  sd_depends_on_explicit :: bool
  sd_resource_locks :: "string list"
  sd_input_mapping :: dict
  sd_output_mapping :: pyval
  sd_retry_limit :: pyval
  sd_timeout_seconds :: "rat option"
  sd_condition :: "string option"

record loop_definition =
  ld_condition :: string
  ld_steps :: "string list"

record pipeline_definition =
  pd_pipeline_name :: string
  pd_description :: pyval
  pd_triggers :: "string list"
  pd_logging :: dict
  pd_steps :: "step_definition list"
  pd_loops :: "loop_definition list"

definition simple_step :: "string \<Rightarrow> string \<Rightarrow> step_definition" where
  "simple_step name agent = \<lparr>sd_name = name, sd_agent = agent, sd_description = PNone,
     sd_on_failure = PStr ''stop_pipeline'', sd_depends_on = [], sd_depends_on_explicit = False,
     sd_resource_locks = [], sd_input_mapping = [], sd_output_mapping = PNone,
     sd_retry_limit = PNone, sd_timeout_seconds = None, sd_condition = None\<rparr>"

fun opt_float :: "rat option \<Rightarrow> pyval" where
  "opt_float None = PNone" | "opt_float (Some r) = PFloat r"

fun opt_string :: "string option \<Rightarrow> pyval" where
  "opt_string None = PNone" | "opt_string (Some s) = PStr s"

text \<open>\<open>asdict\<close> in field order, then the two mappings renamed, which moves them to the end.\<close>

definition step_definition_to_dict :: "step_definition \<Rightarrow> dict" where
  "step_definition_to_dict s =
     [(''name'', PStr (sd_name s)), (''agent'', PStr (sd_agent s)),
      (''description'', sd_description s), (''on_failure'', sd_on_failure s),
      (''depends_on'', PList (map PStr (sd_depends_on s))),
      (''depends_on_explicit'', PBool (sd_depends_on_explicit s)),
      (''resource_locks'', PList (map PStr (sd_resource_locks s))),
      (''retry_limit'', sd_retry_limit s), (''timeout_seconds'', opt_float (sd_timeout_seconds s)),
      (''condition'', opt_string (sd_condition s)),
      (''input'', PDict (sd_input_mapping s)), (''output'', sd_output_mapping s)]"

definition loop_definition_to_dict :: "loop_definition \<Rightarrow> dict" where
  "loop_definition_to_dict l =
     [(''condition'', PStr (ld_condition l)), (''steps'', PList (map PStr (ld_steps l)))]"

definition pipeline_definition_to_dict :: "pipeline_definition \<Rightarrow> dict" where
  "pipeline_definition_to_dict p =
     [(''pipeline_name'', PStr (pd_pipeline_name p)), (''description'', pd_description p),
      (''triggers'', PList (map PStr (pd_triggers p))), (''logging'', PDict (pd_logging p)),
      (''steps'', PList (map (\<lambda>s. PDict (step_definition_to_dict s)) (pd_steps p))),
      (''loops'', PList (map (\<lambda>l. PDict (loop_definition_to_dict l)) (pd_loops p)))]"

subsection \<open>Field checks\<close>

fun nonblank_str :: "pyval \<Rightarrow> string option" where
  "nonblank_str (PStr s) = (if py_strip s \<noteq> [] then Some s else None)"
| "nonblank_str _ = None"

definition ensure_list_of_strings :: "pyval \<Rightarrow> string \<Rightarrow> bool \<Rightarrow> exn + string list" where
  "ensure_list_of_strings value field allow_scalar =
     (if value = PNone then Inr []
      else let v = (if is_str value \<and> allow_scalar then PList [value] else value);
               bad = Inl (ValueError (''Invalid pipeline format in '' @ field @ '': expected list[str]''))
        in case v of
             PList items \<Rightarrow>
               (if list_all (\<lambda>x. nonblank_str x \<noteq> None) items
                then Inr (map (\<lambda>x. py_strip (the (nonblank_str x))) items) else bad)
           | _ \<Rightarrow> bad)"

definition ensure_dict :: "pyval \<Rightarrow> string \<Rightarrow> exn + dict" where
  "ensure_dict value field =
     (case value of
        PNone \<Rightarrow> Inr []
      | PDict d \<Rightarrow> Inr d
      | _ \<Rightarrow> Inl (ValueError (''Invalid pipeline format in '' @ field @ '': expected object'')))"

definition parse_loop_item :: "pyval \<Rightarrow> string \<Rightarrow> exn + loop_definition" where
  "parse_loop_item loop ctx =
     (case loop of
        PDict d \<Rightarrow>
          (case nonblank_str (dget d ''condition'') of
             None \<Rightarrow> Inl (ValueError (''Invalid pipeline format in '' @ ctx @ '': loop missing condition''))
           | Some cond \<Rightarrow>
               bindE (ensure_list_of_strings (dget d ''steps'') (ctx @ ''.steps'') False) (\<lambda>steps.
                 if steps = [] then
                   Inl (ValueError (''Invalid pipeline format in '' @ ctx @ '': loop missing steps[]''))
                 else Inr \<lparr>ld_condition = cond, ld_steps = steps\<rparr>))
      | _ \<Rightarrow> Inl (ValueError (''Invalid pipeline format in '' @ ctx @ '': loop must be an object'')))"

definition parse_loops_container :: "pyval \<Rightarrow> string \<Rightarrow> exn + loop_definition list" where
  "parse_loops_container raw ctx =
     (let parse_items = \<lambda>items. mapE (\<lambda>(i, item). parse_loop_item item (ctx @ ''['' @ nat_str i @ '']''))
                                (enumerate 1 items)
      in case raw of
           PNone \<Rightarrow> Inr []
         | PDict d \<Rightarrow> parse_items [PDict d]
         | PList items \<Rightarrow> parse_items items
         | _ \<Rightarrow> Inl (ValueError (''Invalid pipeline format in '' @ ctx @ '': loops must be a list'')))"

subsection \<open>Parsing a pipeline\<close>

definition bad_format :: "string \<Rightarrow> string \<Rightarrow> exn + 'a" where
  "bad_format path m = Inl (ValueError (''Invalid pipeline format in '' @ path @ '': '' @ m))"

definition parse_timeout :: "dict \<Rightarrow> exn + rat option" where
  "parse_timeout d = (case dget d ''timeout_seconds'' of
     PNone \<Rightarrow> Inr None | t \<Rightarrow> bindE (py_float t) (\<lambda>r. Inr (Some r)))"

definition parse_condition :: "string \<Rightarrow> string \<Rightarrow> dict \<Rightarrow> exn + string option" where
  "parse_condition path name d = (case dget d ''condition'' of
     PNone \<Rightarrow> Inr None
   | PStr c \<Rightarrow> Inr (if py_strip c \<noteq> [] then Some (py_strip c) else None)
   | _ \<Rightarrow> bad_format path (''step '' @ quoted name @ '' condition must be a string''))"

definition parse_input :: "string \<Rightarrow> string \<Rightarrow> dict \<Rightarrow> exn + dict" where
  "parse_input path name d = (case dget_or d ''input'' (PDict []) of
     PNone \<Rightarrow> Inr [] | PDict m \<Rightarrow> Inr m
   | _ \<Rightarrow> bad_format path (''step '' @ quoted name @ '' input must be an object''))"

definition parse_step :: "string \<Rightarrow> nat \<Rightarrow> pyval \<Rightarrow> exn + step_definition \<times> loop_definition list" where
  "parse_step path index step =
     (case step of
        PDict d \<Rightarrow>
          (case nonblank_str (dget d ''name'') of
             None \<Rightarrow> bad_format path (''step #'' @ nat_str index @ '' missing name'')
           | Some name \<Rightarrow>
          (case nonblank_str (dget d ''agent'') of
             None \<Rightarrow> bad_format path (''step '' @ quoted name @ '' missing agent'')
           | Some agent \<Rightarrow>
          bindE (parse_timeout d) (\<lambda>timeout.
          bindE (parse_condition path name d) (\<lambda>cond.
          bindE (ensure_list_of_strings (dget d ''depends_on'')
                  (path @ '': step '' @ quoted name @ '' depends_on'') False) (\<lambda>depends_on.
          bindE (ensure_list_of_strings (dget d ''resource_locks'')
                  (path @ '': step '' @ quoted name @ '' resource_locks'') False) (\<lambda>locks.
          bindE (parse_input path name d) (\<lambda>input_mapping.
          bindE (parse_loops_container (dget d ''loops'')
                  (path @ '': step '' @ quoted name @ '' loops'')) (\<lambda>loops.
            Inr (\<lparr>sd_name = name, sd_agent = agent, sd_description = dget d ''description'',
                  sd_on_failure = dget_or d ''on_failure'' (PStr ''stop_pipeline''),
                  sd_depends_on = depends_on, sd_depends_on_explicit = has_key d ''depends_on'',
                  sd_resource_locks = locks, sd_input_mapping = input_mapping,
                  sd_output_mapping = dget d ''output'', sd_retry_limit = dget d ''retry_limit'',
                  sd_timeout_seconds = timeout, sd_condition = cond\<rparr>, loops)))))))))
      | _ \<Rightarrow> bad_format path (''step #'' @ nat_str index @ '' must be an object''))"

definition check_loop_steps :: "string \<Rightarrow> string list \<Rightarrow> loop_definition list \<Rightarrow> exn + unit" where
  "check_loop_steps path names loops =
     (case find (\<lambda>n. n \<notin> set names) (concat (map ld_steps loops)) of
        None \<Rightarrow> Inr ()
      | Some n \<Rightarrow> Inl (ValueError (''Invalid pipeline format in '' @ path
                  @ '': loop references unknown step '' @ quoted n)))"

definition parse_pipeline :: "pyval \<Rightarrow> string \<Rightarrow> exn + pipeline_definition" where
  "parse_pipeline payload path =
     (case payload of
        PDict d \<Rightarrow>
          (case nonblank_str (dget d ''pipeline_name'') of
             None \<Rightarrow> bad_format path ''missing pipeline_name''
           | Some pname \<Rightarrow>
          (case dget d ''steps'' of
             PList steps_raw \<Rightarrow>
               bindE (ensure_list_of_strings (dget d ''triggers'') (path @ '': triggers'') True) (\<lambda>triggers.
               bindE (ensure_dict (dget d ''logging'') (path @ '': logging'')) (\<lambda>logging.
               bindE (mapE (\<lambda>(i, s). parse_step path i s) (enumerate 1 steps_raw)) (\<lambda>parsed.
               bindE (parse_loops_container (dget d ''loops'') (path @ '': loops'')) (\<lambda>top_loops.
                 let steps = map fst parsed; loops = concat (map snd parsed) @ top_loops in
                 bindE (check_loop_steps path (map sd_name steps) loops) (\<lambda>_.
                   Inr \<lparr>pd_pipeline_name = pname, pd_description = dget_or d ''description'' (PStr []),
                        pd_triggers = triggers, pd_logging = logging, pd_steps = steps,
                        pd_loops = loops\<rparr>)))))
           | _ \<Rightarrow> bad_format path ''missing steps[]''))
      | _ \<Rightarrow> bad_format path ''payload must be an object'')"

subsection \<open>What the parser guarantees\<close>

definition step_wf :: "step_definition \<Rightarrow> bool" where
  "step_wf s \<longleftrightarrow> py_strip (sd_name s) \<noteq> [] \<and> py_strip (sd_agent s) \<noteq> [] \<and>
     (\<forall>n \<in> set (sd_depends_on s). n \<noteq> [] \<and> py_strip n = n) \<and>
     (\<forall>l \<in> set (sd_resource_locks s). l \<noteq> [] \<and> py_strip l = l) \<and>
     (\<forall>c. sd_condition s = Some c \<longrightarrow> c \<noteq> [] \<and> py_strip c = c) \<and>
     (sd_depends_on s \<noteq> [] \<longrightarrow> sd_depends_on_explicit s)"

definition pipeline_wf :: "pipeline_definition \<Rightarrow> bool" where
  "pipeline_wf p \<longleftrightarrow> py_strip (pd_pipeline_name p) \<noteq> [] \<and>
     (\<forall>s \<in> set (pd_steps p). step_wf s) \<and>
     (\<forall>l \<in> set (pd_loops p). py_strip (ld_condition l) \<noteq> [] \<and> ld_steps l \<noteq> [] \<and>
        set (ld_steps l) \<subseteq> sd_name ` set (pd_steps p))"

lemma nonblank_str_Some: "nonblank_str v = Some s \<longleftrightarrow> v = PStr s \<and> py_strip s \<noteq> []"
  by (cases v) auto

lemma ensure_list_of_strings_Inr:
  assumes "ensure_list_of_strings v f b = Inr xs" "x \<in> set xs"
  shows "x \<noteq> [] \<and> py_strip x = x"
  using assms
  by (fastforce simp: ensure_list_of_strings_def Let_def list_all_iff nonblank_str_Some
      split: if_splits pyval.splits)

lemma ensure_list_of_strings_None: "ensure_list_of_strings PNone f b = Inr []"
  by (simp add: ensure_list_of_strings_def)

lemma parse_loop_item_Inr:
  assumes "parse_loop_item v ctx = Inr l"
  shows "py_strip (ld_condition l) \<noteq> [] \<and> ld_steps l \<noteq> []"
  using assms
  by (auto simp: parse_loop_item_def returns_iff nonblank_str_Some
      split: pyval.splits option.splits if_splits)

lemma mapE_all:
  assumes "mapE f xs = Inr ys" "y \<in> set ys"
  shows "\<exists>x \<in> set xs. f x = Inr y"
  using assms by (auto simp: returns_iff list_all2_conv_all_nth in_set_conv_nth)
    (metis nth_mem)

lemma parse_loops_container_Inr:
  assumes "parse_loops_container v ctx = Inr ls" "l \<in> set ls"
  shows "py_strip (ld_condition l) \<noteq> [] \<and> ld_steps l \<noteq> []"
  using assms
  by (auto simp: parse_loops_container_def Let_def simp del: mapE.simps
      split: pyval.splits dest!: mapE_all parse_loop_item_Inr)

lemma bad_format_Inr [simp]: "bad_format path m \<noteq> Inr x" "(Inr x \<noteq> bad_format path m)"
  by (simp_all add: bad_format_def)

lemma parse_condition_Inr:
  "parse_condition path name d = Inr (Some c) \<Longrightarrow> c \<noteq> [] \<and> py_strip c = c"
  by (auto simp: parse_condition_def split: pyval.splits if_splits)

lemma depends_on_explicit_if:
  "ensure_list_of_strings (dget d k) f b = Inr xs \<Longrightarrow> xs \<noteq> [] \<Longrightarrow> has_key d k"
  by (cases "map_of d k") (auto simp: has_key_def dget_def ensure_list_of_strings_None)

lemma parse_step_Inr:
  assumes "parse_step path i v = Inr (s, ls)"
  shows "step_wf s \<and> (\<forall>l \<in> set ls. py_strip (ld_condition l) \<noteq> [] \<and> ld_steps l \<noteq> [])"
proof -
  obtain d name agent timeout cond deps locks inp where
    v: "v = PDict d" "nonblank_str (dget d ''name'') = Some name"
      "nonblank_str (dget d ''agent'') = Some agent"
    and cond: "parse_condition path name d = Inr cond"
    and deps: "ensure_list_of_strings (dget d ''depends_on'')
        (path @ '': step '' @ quoted name @ '' depends_on'') False = Inr deps"
    and locks: "ensure_list_of_strings (dget d ''resource_locks'')
        (path @ '': step '' @ quoted name @ '' resource_locks'') False = Inr locks"
    and loops: "parse_loops_container (dget d ''loops'')
        (path @ '': step '' @ quoted name @ '' loops'') = Inr ls"
    and s: "s = \<lparr>sd_name = name, sd_agent = agent, sd_description = dget d ''description'',
        sd_on_failure = dget_or d ''on_failure'' (PStr ''stop_pipeline''),
        sd_depends_on = deps, sd_depends_on_explicit = has_key d ''depends_on'',
        sd_resource_locks = locks, sd_input_mapping = inp,
        sd_output_mapping = dget d ''output'', sd_retry_limit = dget d ''retry_limit'',
        sd_timeout_seconds = timeout, sd_condition = cond\<rparr>"
    using assms unfolding parse_step_def
    by (cases v) (auto simp: returns_iff split: option.splits)
  have "step_wf s"
    using v ensure_list_of_strings_Inr [OF deps] ensure_list_of_strings_Inr [OF locks]
      depends_on_explicit_if [OF deps] parse_condition_Inr [of path name d] cond
    by (auto simp: step_wf_def s nonblank_str_Some)
  with parse_loops_container_Inr [OF loops] show ?thesis by blast
qed

lemma check_loop_steps_Inr:
  "check_loop_steps path names loops = Inr u \<Longrightarrow> l \<in> set loops \<Longrightarrow> set (ld_steps l) \<subseteq> set names"
  by (auto simp: check_loop_steps_def find_None_iff split: option.splits)

lemma parsed_pipeline_wf:
  assumes "parse_pipeline payload path = Inr p"
  shows "pipeline_wf p"
proof -
  obtain d pname steps_raw triggers logg parsed top where
    pay: "payload = PDict d" "nonblank_str (dget d ''pipeline_name'') = Some pname"
      "dget d ''steps'' = PList steps_raw"
    and parsed: "mapE (\<lambda>(i, s). parse_step path i s) (enumerate 1 steps_raw) = Inr parsed"
    and top: "parse_loops_container (dget d ''loops'') (path @ '': loops'') = Inr top"
    and chk: "check_loop_steps path (map sd_name (map fst parsed)) (concat (map snd parsed) @ top) = Inr ()"
    and p: "p = \<lparr>pd_pipeline_name = pname, pd_description = dget_or d ''description'' (PStr []),
        pd_triggers = triggers, pd_logging = logg, pd_steps = map fst parsed,
        pd_loops = concat (map snd parsed) @ top\<rparr>"
    using assms unfolding parse_pipeline_def
    by (cases payload) (auto simp: returns_iff Let_def split: option.splits pyval.splits)
  have item: "step_wf s \<and> (\<forall>l \<in> set ls. py_strip (ld_condition l) \<noteq> [] \<and> ld_steps l \<noteq> [])"
    if "(s, ls) \<in> set parsed" for s ls
    using mapE_all [OF parsed that] by (auto dest: parse_step_Inr)
  have "set (ld_steps l) \<subseteq> sd_name ` set (pd_steps p)" if "l \<in> set (pd_loops p)" for l
  proof -
    from that have "l \<in> set (concat (map snd parsed) @ top)" by (simp add: p)
    from check_loop_steps_Inr [OF chk this] show ?thesis by (simp add: p image_image)
  qed
  then show ?thesis
    using pay item parse_loops_container_Inr [OF top]
    by (fastforce simp: pipeline_wf_def p nonblank_str_Some)
qed

text \<open>
  C7: a pipeline the parser accepts is well formed: names and agents are not blank,
  dependency, lock and condition texts are stripped and not empty, a step with
  dependencies says so explicitly, and every loop has a condition and at least one
  step, all of them steps of the pipeline.
\<close>

theorem parse_pipeline_wf:
  assumes "parse_pipeline payload path = Inr p"
  shows "pipeline_wf p"
  using assms by (rule parsed_pipeline_wf)

definition example_payload :: pyval where
  "example_payload = PDict [(''pipeline_name'', PStr ''p''),
     (''steps'', PList [PDict [(''name'', PStr ''a''), (''agent'', PStr ''x'')],
        PDict [(''name'', PStr ''b''), (''agent'', PStr ''y''),
               (''depends_on'', PList [PStr '' a ''])]]),
     (''loops'', PDict [(''condition'', PStr ''{{a}} > 0''), (''steps'', PList [PStr ''b''])])]"

definition example_pipeline :: pipeline_definition where
  "example_pipeline = \<lparr>pd_pipeline_name = ''p'', pd_description = PStr [], pd_triggers = [],
     pd_logging = [],
     pd_steps = [simple_step ''a'' ''x'',
       (simple_step ''b'' ''y'')\<lparr>sd_depends_on := [''a''], sd_depends_on_explicit := True\<rparr>],
     pd_loops = [\<lparr>ld_condition = ''{{a}} > 0'', ld_steps = [''b'']\<rparr>]\<rparr>"

lemma parse_example: "parse_pipeline example_payload ''f'' = Inr example_pipeline"
  by code_simp

theorem parse_pipeline_wf_witness: "pipeline_wf example_pipeline"
  by (rule parse_pipeline_wf [OF parse_example])

end
