(* ===== verification/StateExn.thy ===== *)
theory StateExn
  imports Prelude
begin

text \<open>
  Computations that change a state and may raise: Python code that mutates objects and
  can leave by an exception keeps the mutations made before it. \<open>triple\<close> is the usual
  three-place assertion: from a state in \<open>P\<close>, a normal return satisfies \<open>Q\<close> and an
  exceptional one \<open>R\<close>.
\<close>

type_synonym ('s, 'a) st = "'s \<Rightarrow> (exn + 'a) \<times> 's"

definition returnS :: "'a \<Rightarrow> ('s, 'a) st" where
  "returnS x s = (Inr x, s)"

definition raiseS :: "exn \<Rightarrow> ('s, 'a) st" where
  "raiseS e s = (Inl e, s)"

definition bindS :: "('s, 'a) st \<Rightarrow> ('a \<Rightarrow> ('s, 'b) st) \<Rightarrow> ('s, 'b) st" where
  "bindS m f s = (case m s of (Inl e, s') \<Rightarrow> (Inl e, s') | (Inr x, s') \<Rightarrow> f x s')"

definition seqS :: "('s, 'a) st \<Rightarrow> ('s, 'b) st \<Rightarrow> ('s, 'b) st" where
  "seqS m k = bindS m (\<lambda>_. k)"

definition getS :: "('s \<Rightarrow> 'a) \<Rightarrow> ('s, 'a) st" where
  "getS f s = (Inr (f s), s)"

definition modifyS :: "('s \<Rightarrow> 's) \<Rightarrow> ('s, unit) st" where
  "modifyS f s = (Inr (), f s)"

definition liftE :: "exn + 'a \<Rightarrow> ('s, 'a) st" where
  "liftE m s = (m, s)"

text \<open>A computation on a part of the state that may raise: nothing changes when it does.\<close>

definition updateE :: "('s \<Rightarrow> exn + 's) \<Rightarrow> ('s, unit) st" where
  "updateE f s = (case f s of Inl e \<Rightarrow> (Inl e, s) | Inr s' \<Rightarrow> (Inr (), s'))"

definition catchS :: "('s, 'a) st \<Rightarrow> (exn \<Rightarrow> ('s, 'a) st) \<Rightarrow> ('s, 'a) st" where
  "catchS m h s = (case m s of (Inl e, s') \<Rightarrow> h e s' | (Inr x, s') \<Rightarrow> (Inr x, s'))"

text \<open>A \<open>for\<close> loop whose body returns \<open>True\<close> to break out of it.\<close>

fun anyS :: "('a \<Rightarrow> ('s, bool) st) \<Rightarrow> 'a list \<Rightarrow> ('s, bool) st" where
  "anyS f [] = returnS False"
| "anyS f (x # xs) = bindS (f x) (\<lambda>b. if b then returnS True else anyS f xs)"

text \<open>A \<open>for\<close> loop that only an exception leaves early.\<close>

fun forS :: "('a \<Rightarrow> ('s, unit) st) \<Rightarrow> 'a list \<Rightarrow> ('s, unit) st" where
  "forS f [] = returnS ()"
| "forS f (x # xs) = seqS (f x) (forS f xs)"

subsection \<open>Assertions\<close>

definition triple :: "('s \<Rightarrow> bool) \<Rightarrow> ('s, 'a) st \<Rightarrow> ('a \<Rightarrow> 's \<Rightarrow> bool) \<Rightarrow> (exn \<Rightarrow> 's \<Rightarrow> bool) \<Rightarrow> bool" where
  "triple P m Q R \<longleftrightarrow> (\<forall>s. P s \<longrightarrow> (case m s of (Inl e, s') \<Rightarrow> R e s' | (Inr x, s') \<Rightarrow> Q x s'))"

named_theorems triple_rules \<open>the rule of each construct\<close>

lemma tripleD_Inr: "triple P m Q R \<Longrightarrow> P s \<Longrightarrow> m s = (Inr x, s') \<Longrightarrow> Q x s'"
  by (auto simp: triple_def dest!: spec [of _ s])

lemma tripleD_Inl: "triple P m Q R \<Longrightarrow> P s \<Longrightarrow> m s = (Inl e, s') \<Longrightarrow> R e s'"
  by (auto simp: triple_def dest!: spec [of _ s])

lemma triple_conseq:
  assumes "triple P' m Q' R'" "\<And>s. P s \<Longrightarrow> P' s" "\<And>x s. Q' x s \<Longrightarrow> Q x s" "\<And>e s. R' e s \<Longrightarrow> R e s"
  shows "triple P m Q R"
  unfolding triple_def
proof (intro allI impI)
  fix s assume "P s"
  with assms(1,2) have "case m s of (Inl e, s') \<Rightarrow> R' e s' | (Inr x, s') \<Rightarrow> Q' x s'"
    by (simp add: triple_def)
  with assms(3,4) show "case m s of (Inl e, s') \<Rightarrow> R e s' | (Inr x, s') \<Rightarrow> Q x s'"
    by (auto split: prod.splits sum.splits)
qed

lemma triple_returnS [triple_rules]: "(\<And>s. P s \<Longrightarrow> Q x s) \<Longrightarrow> triple P (returnS x) Q R"
  by (simp add: triple_def returnS_def)

lemma triple_raiseS [triple_rules]: "(\<And>s. P s \<Longrightarrow> R e s) \<Longrightarrow> triple P (raiseS e) Q R"
  by (simp add: triple_def raiseS_def)

lemma triple_bindS [triple_rules]:
  assumes "triple P m S R" "\<And>x. triple (S x) (f x) Q R"
  shows "triple P (bindS m f) Q R"
  unfolding triple_def
proof (intro allI impI)
  fix s assume P: "P s"
  show "case bindS m f s of (Inl e, s') \<Rightarrow> R e s' | (Inr x, s') \<Rightarrow> Q x s'"
  proof (cases "m s")
    case (Pair r s')
    show ?thesis
    proof (cases r)
      case (Inl e)
      with Pair tripleD_Inl [OF assms(1) P] show ?thesis by (simp add: bindS_def)
    next
      case (Inr x)
      with Pair have "S x s'" using tripleD_Inr [OF assms(1) P] by simp
      with assms(2) [of x] Pair Inr show ?thesis by (simp add: bindS_def triple_def)
    qed
  qed
qed

lemma triple_seqS [triple_rules]:
  "triple P m (\<lambda>_. S) R \<Longrightarrow> triple S k Q R \<Longrightarrow> triple P (seqS m k) Q R"
  unfolding seqS_def by (rule triple_bindS)

lemma triple_getS [triple_rules]: "(\<And>s. P s \<Longrightarrow> Q (f s) s) \<Longrightarrow> triple P (getS f) Q R"
  by (simp add: triple_def getS_def)

lemma triple_modifyS [triple_rules]: "(\<And>s. P s \<Longrightarrow> Q () (f s)) \<Longrightarrow> triple P (modifyS f) Q R"
  by (simp add: triple_def modifyS_def)

lemma triple_liftE [triple_rules]:
  "(\<And>s x. P s \<Longrightarrow> m = Inr x \<Longrightarrow> Q x s) \<Longrightarrow> (\<And>s e. P s \<Longrightarrow> m = Inl e \<Longrightarrow> R e s) \<Longrightarrow>
   triple P (liftE m) Q R"
  by (auto simp: triple_def liftE_def split: sum.splits)

lemma triple_updateE [triple_rules]:
  "(\<And>s s'. P s \<Longrightarrow> f s = Inr s' \<Longrightarrow> Q () s') \<Longrightarrow> (\<And>s e. P s \<Longrightarrow> f s = Inl e \<Longrightarrow> R e s) \<Longrightarrow>
   triple P (updateE f) Q R"
  by (auto simp: triple_def updateE_def split: sum.splits)

lemma triple_catchS [triple_rules]:
  assumes "triple P m Q S" "\<And>e. triple (S e) (h e) Q R"
  shows "triple P (catchS m h) Q R"
  unfolding triple_def
proof (intro allI impI)
  fix s assume P: "P s"
  show "case catchS m h s of (Inl e, s') \<Rightarrow> R e s' | (Inr x, s') \<Rightarrow> Q x s'"
  proof (cases "m s")
    case (Pair r s')
    show ?thesis
    proof (cases r)
      case (Inl e)
      with Pair have "S e s'" using tripleD_Inl [OF assms(1) P] by simp
      with assms(2) [of e] Pair Inl show ?thesis by (simp add: catchS_def triple_def)
    next
      case (Inr x)
      with Pair tripleD_Inr [OF assms(1) P] show ?thesis by (simp add: catchS_def)
    qed
  qed
qed

lemma triple_If [triple_rules]:
  "(b \<Longrightarrow> triple P m Q R) \<Longrightarrow> (\<not> b \<Longrightarrow> triple P k Q R) \<Longrightarrow> triple P (if b then m else k) Q R"
  by simp

lemma triple_case_option [triple_rules]:
  "(x = None \<Longrightarrow> triple P m Q R) \<Longrightarrow> (\<And>y. x = Some y \<Longrightarrow> triple P (k y) Q R) \<Longrightarrow>
   triple P (case x of None \<Rightarrow> m | Some y \<Rightarrow> k y) Q R"
  by (cases x) simp_all

lemma triple_conj:
  "triple P m Q R \<Longrightarrow> triple P m Q' R' \<Longrightarrow>
   triple P m (\<lambda>x s. Q x s \<and> Q' x s) (\<lambda>e s. R e s \<and> R' e s)"
  by (fastforce simp: triple_def split: prod.splits sum.splits)

lemma triple_True: "triple P m (\<lambda>_ _. True) (\<lambda>_ _. True)"
  by (auto simp: triple_def split: prod.splits sum.splits)

text \<open>An invariant kept by every outcome.\<close>

abbreviation keeps :: "('s \<Rightarrow> bool) \<Rightarrow> ('s, 'a) st \<Rightarrow> bool" where
  "keeps I m \<equiv> triple I m (\<lambda>_. I) (\<lambda>_. I)"

named_theorems keeps_rules \<open>the rule of each construct for invariants\<close>

lemma keeps_basic [keeps_rules]:
  "keeps I (returnS x)" "keeps I (raiseS e)" "keeps I (getS f)" "keeps I (liftE m)"
  by (rule triple_rules; assumption)+

lemma keeps_compound [keeps_rules]:
  "keeps I m \<Longrightarrow> (\<And>x. keeps I (f x)) \<Longrightarrow> keeps I (bindS m f)"
  "keeps I m \<Longrightarrow> keeps I k' \<Longrightarrow> keeps I (seqS m k')"
  "keeps I m \<Longrightarrow> (\<And>e. keeps I (h e)) \<Longrightarrow> keeps I (catchS m h)"
  "(b \<Longrightarrow> keeps I m) \<Longrightarrow> (\<not> b \<Longrightarrow> keeps I m') \<Longrightarrow> keeps I (if b then m else m')"
  "(x = None \<Longrightarrow> keeps I m) \<Longrightarrow> (\<And>y. x = Some y \<Longrightarrow> keeps I (g y)) \<Longrightarrow>
   keeps I (case x of None \<Rightarrow> m | Some y \<Rightarrow> g y)"
  by (blast intro: triple_bindS triple_seqS triple_catchS triple_If triple_case_option)+

lemma keeps_modifyS [keeps_rules]: "(\<And>s. I s \<Longrightarrow> I (f s)) \<Longrightarrow> keeps I (modifyS f)"
  by (rule triple_modifyS)

lemma keeps_updateE [keeps_rules]: "(\<And>s s'. I s \<Longrightarrow> f s = Inr s' \<Longrightarrow> I s') \<Longrightarrow> keeps I (updateE f)"
  by (rule triple_updateE) auto

lemma keeps_anyS [keeps_rules]:
  "(\<And>x. x \<in> set xs \<Longrightarrow> keeps I (f x)) \<Longrightarrow> keeps I (anyS f xs)"
proof (induction xs)
  case Nil
  show ?case unfolding anyS.simps by (rule keeps_rules)
next
  case (Cons x xs)
  then show ?case unfolding anyS.simps by (intro keeps_rules) auto
qed

lemma bindS_Inr: "bindS m f s = (Inr y, t) \<longleftrightarrow> (\<exists>x s'. m s = (Inr x, s') \<and> f x s' = (Inr y, t))"
  by (auto simp: bindS_def split: prod.splits sum.splits)

lemma bindS_simps:
  "m s = (Inr x, s') \<Longrightarrow> bindS m f s = f x s'"
  "m s = (Inl e, s') \<Longrightarrow> bindS m f s = (Inl e, s')"
  by (simp_all add: bindS_def)

end
