(* ===== verification/Registry.thy ===== *)
theory Registry
  imports Loader StateExn
begin

text \<open>
  The registries of \<open>registry/\<close>: contracts, agents and pipelines, the adapters that give
  the executor its agents (\<open>runtime_adapter.py\<close>, \<open>DynamicRegistryWrapper\<close> of
  \<open>orchestrator/executor.py\<close>) and the loader that serves definitions out of a registry.
  The three registries share one contract, the locale \<open>named_registry\<close>: entries are
  never replaced and each is found under its own name. Directory listings and file
  contents are arguments; the Python type of an agent is its class name.
\<close>

subsection \<open>The contract of a registry\<close>

locale named_registry =
  fixes register :: "'m \<Rightarrow> 'r \<Rightarrow> exn + 'r"
    and lookup :: "string \<Rightarrow> 'r \<Rightarrow> 'm option"
    and members :: "'r \<Rightarrow> 'm list"
    and name_of :: "'m \<Rightarrow> string"
  assumes register_fresh: "register m r = Inr r' \<Longrightarrow> lookup (name_of m) r = None"
    and lookup_register: "register m r = Inr r' \<Longrightarrow>
      lookup k r' = (if k = name_of m then Some m else lookup k r)"
    and members_register: "register m r = Inr r' \<Longrightarrow> members r' = members r @ [m]"
begin

text \<open>Every member is found under its name, and every entry is a member.\<close>

definition faithful :: "'r \<Rightarrow> bool" where
  "faithful r \<longleftrightarrow> distinct (map name_of (members r)) \<and>
     (\<forall>k m. lookup k r = Some m \<longleftrightarrow> m \<in> set (members r) \<and> name_of m = k)"

lemma faithful_register:
  assumes "faithful r" "register m r = Inr r'"
  shows "faithful r'"
proof -
  have d: "distinct (map name_of (members r))"
    and f: "\<And>k x. lookup k r = Some x \<longleftrightarrow> x \<in> set (members r) \<and> name_of x = k"
    using assms(1) by (simp_all add: faithful_def)
  have new: "name_of m \<notin> name_of ` set (members r)"
    using register_fresh [OF assms(2)] f by (metis imageE option.distinct(1))
  have "lookup k r' = Some x \<longleftrightarrow> x \<in> set (members r') \<and> name_of x = k" for k x
    using f [of k x] new lookup_register [OF assms(2), of k] members_register [OF assms(2)]
    by (auto intro: rev_image_eqI)
  with d new show ?thesis by (simp add: faithful_def members_register [OF assms(2)])
qed

lemma faithful_register_all:
  "faithful r \<Longrightarrow> foldE register ms r = Inr r' \<Longrightarrow> faithful r'"
  by (rule foldE_inv [of register ms r r' faithful]) (auto intro: faithful_register)

lemma register_all_members: "foldE register ms r = Inr r' \<Longrightarrow> members r' = members r @ ms"
  by (induction ms arbitrary: r) (auto simp: returns_iff members_register)

text \<open>No registration changes what an earlier one has stored.\<close>

lemma register_all_keeps:
  "lookup k r = Some m \<Longrightarrow> foldE register ms r = Inr r' \<Longrightarrow> lookup k r' = Some m"
proof (induction ms arbitrary: r)
  case (Cons x ms)
  then obtain r1 where r1: "register x r = Inr r1" "foldE register ms r1 = Inr r'"
    by (auto simp: returns_iff)
  have "lookup k r1 = Some m"
    using Cons.prems(1) register_fresh [OF r1(1)] lookup_register [OF r1(1)] by auto
  from Cons.IH [OF this r1(2)] show ?case .
qed simp

end

subsection \<open>Contracts\<close>

record contract_metadata =
  cm_name :: string
  cm_schema_path :: string
  cm_version :: string
  cm_description :: pyval

type_synonym contract_registry = "(string \<times> contract_metadata) list"

definition contract_register :: "contract_metadata \<Rightarrow> contract_registry \<Rightarrow> exn + contract_registry" where
  "contract_register m r =
     (if map_of r (cm_name m) \<noteq> None
      then Inl (ValueError (''Contract '' @ quoted (cm_name m) @ '' is already registered''))
      else Inr (AList.update (cm_name m) m r))"

definition contract_get :: "string \<Rightarrow> contract_registry \<Rightarrow> contract_metadata option" where
  "contract_get name r = map_of r name"

definition contract_list :: "contract_registry \<Rightarrow> contract_metadata list" where
  "contract_list r = map snd r"

definition contract_exists :: "string \<Rightarrow> contract_registry \<Rightarrow> bool" where
  "contract_exists name r \<longleftrightarrow> map_of r name \<noteq> None"

definition json_schema_types :: "string list" where
  "json_schema_types =
     [''object'', ''array'', ''string'', ''number'', ''integer'', ''boolean'', ''null'']"

definition validate_schema_structure :: "pyval \<Rightarrow> string \<Rightarrow> exn + unit" where
  "validate_schema_structure schema path =
     (case schema of
        PDict d \<Rightarrow>
          (let t = dget d ''type'' in
           if t \<noteq> PNone \<and> t \<notin> set (map PStr json_schema_types)
           then Inl (OtherError (''Invalid value of '' @ quoted ''type'' @ '' in schema '' @ path)) else Inr ())
      | _ \<Rightarrow> Inl (OtherError (quoted (type_name schema) @ '' object has no attribute '' @ quoted ''get'')))"

text \<open>\<open>"://" in version\<close>: substring, element or key test; other values are no containers.\<close>

definition url_like :: "pyval \<Rightarrow> exn + bool" where
  "url_like v =
     (case v of
        PStr s \<Rightarrow> Inr (contains ''://'' s)
      | PList xs \<Rightarrow> Inr (PStr ''://'' \<in> set xs)
      | PDict d \<Rightarrow> Inr (has_key d ''://'')
      | _ \<Rightarrow> Inl (TypeError (''argument of type '' @ quoted (type_name v) @ '' is not iterable'')))"

text \<open>One file of \<open>autoload_schemas\<close>: its path, its file name and the outcome of reading it.\<close>

definition autoload_schema ::
  "string \<times> string \<times> (exn + pyval) \<Rightarrow> contract_registry \<Rightarrow> exn + contract_registry" where
  "autoload_schema file r =
     (case file of (path, filename, content) \<Rightarrow>
        let name = remove_suffix ''.schema.json'' filename in
        bindE content (\<lambda>schema.
        bindE (validate_schema_structure schema path) (\<lambda>_.
        case schema of
          PDict d \<Rightarrow>
            bindE (url_like (dget_or d ''$id'' (PStr ''unknown''))) (\<lambda>url.
              contract_register
                \<lparr>cm_name = name, cm_schema_path = path,
                 cm_version = (if url \<or> CHR ''.'' \<in> set name then last (split_on CHR ''.'' name) else ''1.0.0''),
                 cm_description = dget_or d ''description'' (PStr [])\<rparr> r)
        | _ \<Rightarrow> Inr r)))"

definition autoload_schemas ::
  "(string \<times> string \<times> (exn + pyval)) list \<Rightarrow> contract_registry \<Rightarrow> exn + contract_registry" where
  "autoload_schemas files r = foldE autoload_schema files r"

definition validate_contract ::
  "(string \<Rightarrow> exn + pyval) \<Rightarrow> (pyval \<Rightarrow> pyval \<Rightarrow> exn + unit) \<Rightarrow> pyval \<Rightarrow> string \<Rightarrow> contract_registry \<Rightarrow> exn + unit" where
  "validate_contract read_json jsonschema_validate data name r =
     (case contract_get name r of
        None \<Rightarrow> Inl (ValueError (''Contract '' @ quoted name @ '' not found in the registry''))
      | Some m \<Rightarrow> bindE (read_json (cm_schema_path m)) (jsonschema_validate data))"

lemma map_snd_update_fresh: "map_of r k = None \<Longrightarrow> map snd (AList.update k v r) = map snd r @ [v]"
  by (induction r) (auto split: if_splits)

interpretation contracts: named_registry contract_register contract_get contract_list cm_name
  by unfold_locales
    (auto simp: contract_register_def contract_get_def contract_list_def map_snd_update_fresh
      split: if_splits)

subsection \<open>Agents\<close>

record agent_metadata =
  am_name :: string
  am_agent_class :: string
  am_description :: "string option"
  am_input_contract :: "string option"
  am_output_contract :: "string option"
  am_version :: "string option"
  am_author :: "string option"
  am_category :: "string option"

record agent_registry =
  ar_agents :: "(string \<times> agent_metadata) list"
  ar_contracts :: "contract_registry option"

definition unknown_contract :: "string option \<Rightarrow> contract_registry \<Rightarrow> bool" where
  "unknown_contract c cr \<longleftrightarrow> c \<noteq> None \<and> c \<noteq> Some [] \<and> \<not> contract_exists (the c) cr"

definition check_contracts :: "agent_metadata \<Rightarrow> contract_registry option \<Rightarrow> exn + unit" where
  "check_contracts m contracts =
     (case contracts of
        None \<Rightarrow> Inr ()
      | Some cr \<Rightarrow>
          if unknown_contract (am_input_contract m) cr
          then Inl (ValueError (''Input contract '' @ quoted (the (am_input_contract m)) @ '' not found in the contract registry''))
          else if unknown_contract (am_output_contract m) cr
          then Inl (ValueError (''Output contract '' @ quoted (the (am_output_contract m)) @ '' not found in the contract registry''))
          else Inr ())"

definition agent_register ::
  "(string \<Rightarrow> bool) \<Rightarrow> agent_metadata \<Rightarrow> agent_registry \<Rightarrow> exn + agent_registry" where
  "agent_register is_agent_class m r =
     (if map_of (ar_agents r) (am_name m) \<noteq> None
      then Inl (ValueError (''Agent '' @ quoted (am_name m) @ '' is already registered''))
      else if \<not> is_agent_class (am_agent_class m)
      then Inl (TypeError (''agent_class must be a subclass of BaseAgent, got: '' @ am_agent_class m))
      else bindE (check_contracts m (ar_contracts r)) (\<lambda>_.
             Inr (r\<lparr>ar_agents := AList.update (am_name m) m (ar_agents r)\<rparr>)))"

definition agent_get :: "string \<Rightarrow> agent_registry \<Rightarrow> agent_metadata option" where
  "agent_get name r = map_of (ar_agents r) name"

definition agent_list :: "agent_registry \<Rightarrow> agent_metadata list" where
  "agent_list r = map snd (ar_agents r)"

definition agent_exists :: "string \<Rightarrow> agent_registry \<Rightarrow> bool" where
  "agent_exists name r \<longleftrightarrow> map_of (ar_agents r) name \<noteq> None"

interpretation agents: named_registry "agent_register is_agent_class" agent_get agent_list am_name
  for is_agent_class
  by unfold_locales
    (auto simp: agent_register_def agent_get_def agent_list_def map_snd_update_fresh returns_iff
      split: if_splits)

text \<open>The agents of \<open>register_agents\<close>; the descriptions are translations.\<close>

definition mk_agent ::
  "string \<Rightarrow> string \<Rightarrow> string \<Rightarrow> string option \<Rightarrow> string option \<Rightarrow> string option \<Rightarrow> agent_metadata" where
  "mk_agent name cls description ic oc category =
     \<lparr>am_name = name, am_agent_class = cls, am_description = Some description,
      am_input_contract = ic, am_output_contract = oc, am_version = None, am_author = None,
      am_category = category\<rparr>"

definition core_agents :: "agent_metadata list" where
  "core_agents =
    [mk_agent ''dod_extractor'' ''DodExtractor'' ''Extracts the DoD (Definition of Done) from tasks''
       (Some ''context.dod.v1'') (Some ''context.dod.v1'') None,
     mk_agent ''architecture_planner'' ''ArchitecturePlanner'' ''Plans the architecture of the solution''
       (Some ''context.dod.v1'') (Some ''context.spec.v1'') None,
     mk_agent ''specification_writer'' ''SpecificationWriter'' ''Generates the technical specification''
       (Some ''context.dod.v1'') (Some ''context.spec.v1'') None,
     mk_agent ''task_decomposer'' ''TaskDecomposer'' ''Decomposes tasks into subtasks''
       (Some ''context.dod.v1'') (Some ''context.dod.v1'') None,
     mk_agent ''bdd_generator'' ''BDDGenerator'' ''Generates BDD scenarios''
       (Some ''context.spec.v1'') (Some ''context.spec.v1'') None,
     mk_agent ''test_generator'' ''TestGenerator'' ''Generates tests''
       (Some ''context.spec.v1'') (Some ''context.tests.v1'') None,
     mk_agent ''code_generator'' ''CodeGenerator'' ''Generates code''
       (Some ''context.spec.v1'') (Some ''context.spec.v1'') None,
     mk_agent ''fix_agent'' ''FixAgent'' ''Fixes errors in the code''
       (Some ''context.spec.v1'') (Some ''context.spec.v1'') None,
     mk_agent ''review_agent'' ''ReviewAgent'' ''Checks the code against the standards''
       (Some ''context.spec.v1'') (Some ''context.spec.v1'') None,
     mk_agent ''ci_failure_analyzer'' ''CiFailureAnalyzer'' ''Analyses CI errors''
       (Some ''context.spec.v1'') (Some ''context.spec.v1'') None,
     mk_agent ''ci_incident_handoff'' ''CiIncidentHandoff'' ''Creates CI handoff issue with agent:ready label''
       (Some ''context.spec.v1'') (Some ''context.spec.v1'') None,
     mk_agent ''test_runner'' ''TestRunner'' ''Runs tests''
       (Some ''context.spec.v1'') (Some ''context.spec.v1'') None,
     mk_agent ''pr_merge_agent'' ''PrMergeAgent'' ''Merges a pull request''
       (Some ''context.spec.v1'') (Some ''context.spec.v1'') None,
     mk_agent ''issue_closer'' ''IssueCloser'' ''Closes issues''
       (Some ''context.spec.v1'') (Some ''context.spec.v1'') None,
     mk_agent ''architecture_evaluator'' ''ArchitectureEvaluator'' ''Evaluates the architecture''
       None None None,
     mk_agent ''test_analyzer'' ''TestAnalyzer'' ''Analyses tests''
       None None None]"

definition support_agents :: "agent_metadata list" where
  "support_agents =
    [mk_agent ''repo_connector'' ''RepoConnector'' ''Connects to the repository and gets its metadata''
       None None (Some ''infrastructure''),
     mk_agent ''rag_initializer'' ''RagInitializer'' ''Builds a RAG index from the documentation''
       None None (Some ''infrastructure''),
     mk_agent ''memory_agent'' ''MemoryAgent'' ''Creates the initial memory state for downstream agents''
       None None (Some ''infrastructure''),
     mk_agent ''pipeline_initializer'' ''PipelineInitializer'' ''Initialises and configures the pipeline for the task type''
       None None (Some ''orchestration''),
     mk_agent ''issue_scanner'' ''IssueScanner'' ''Scans and classifies GitHub issues''
       None None (Some ''scanning''),
     mk_agent ''issue_pipeline_dispatcher'' ''IssuePipelineDispatcher'' ''Starts the downstream pipeline for agent:ready issues''
       None None (Some ''orchestration''),
     mk_agent ''ci_monitor_agent'' ''CIMonitorAgent'' ''Monitors CI/CD processes and reacts to status changes''
       None None (Some ''monitoring''),
     mk_agent ''dependency_checker_agent'' ''DependencyCheckerAgent'' ''Checks the dependencies of the project for vulnerabilities and outdated components''
       None None (Some ''security'')]"

definition register_agents :: "(string \<Rightarrow> bool) \<Rightarrow> agent_registry \<Rightarrow> exn + agent_registry" where
  "register_agents is_agent_class r =
     foldE (agent_register is_agent_class) (core_agents @ support_agents) r"

subsection \<open>The adapter the executor uses\<close>

definition adapter_has :: "agent_registry \<Rightarrow> string \<Rightarrow> bool" where
  "adapter_has r name = agent_exists name r"

definition adapter_get :: "agent_registry \<Rightarrow> string \<Rightarrow> exn + agent_metadata" where
  "adapter_get r name =
     (case agent_get name r of
        None \<Rightarrow> Inl (KeyError (''Agent '' @ quoted name @ '' is not registered''))
      | Some m \<Rightarrow> Inr m)"

text \<open>\<open>agent_class()\<close> is the argument \<open>new\<close>: calling a class may raise.\<close>

definition adapter_create :: "(string \<Rightarrow> exn + 'a) \<Rightarrow> agent_registry \<Rightarrow> string \<Rightarrow> exn + 'a" where
  "adapter_create new r name = bindE (adapter_get r name) (\<lambda>m. new (am_agent_class m))"

definition adapter_metadata :: "agent_registry \<Rightarrow> string \<Rightarrow> agent_metadata option" where
  "adapter_metadata r name = agent_get name r"

text \<open>
  The wrapper around a registry and an agent factory. A factory is tried whenever a name
  is looked up that is not in the registry; the classes it has produced are remembered,
  but \<open>create\<close> calls it again.
\<close>

type_synonym dynamic_agents = "(string \<times> string) list"

definition dynamic_has ::
  "agent_registry \<Rightarrow> (string \<Rightarrow> exn + 'a) \<Rightarrow> ('a \<Rightarrow> string) \<Rightarrow> string \<Rightarrow> dynamic_agents \<Rightarrow> bool \<times> dynamic_agents" where
  "dynamic_has base factory class_of name dyn =
     (if adapter_has base name then (True, dyn)
      else case factory name of
             Inl _ \<Rightarrow> (False, dyn)
           | Inr a \<Rightarrow> (True, AList.update name (class_of a) dyn))"

definition dynamic_create ::
  "(string \<Rightarrow> exn + 'a) \<Rightarrow> agent_registry \<Rightarrow> (string \<Rightarrow> exn + 'a) \<Rightarrow> string \<Rightarrow> exn + 'a" where
  "dynamic_create new base factory name =
     (if adapter_has base name then adapter_create new base name else factory name)"

definition dynamic_get ::
  "agent_registry \<Rightarrow> (string \<Rightarrow> exn + 'a) \<Rightarrow> ('a \<Rightarrow> string) \<Rightarrow> string \<Rightarrow> dynamic_agents \<Rightarrow>
     (exn + string) \<times> dynamic_agents" where
  "dynamic_get base factory class_of name dyn =
     (if adapter_has base name then (bindE (adapter_get base name) (\<lambda>m. Inr (am_agent_class m)), dyn)
      else case map_of dyn name of
             Some c \<Rightarrow> (Inr c, dyn)
           | None \<Rightarrow>
               (case factory name of
                  Inl _ \<Rightarrow> (Inl (KeyError (''Agent '' @ quoted name @ '' is not registered'')), dyn)
                | Inr a \<Rightarrow> (Inr (class_of a), AList.update name (class_of a) dyn)))"

text \<open>\<open>_get_agent_from_registry\<close> over a registry behind \<open>has\<close> and \<open>create\<close>.\<close>

definition get_agent_from_registry :: "(string \<Rightarrow> bool) \<Rightarrow> (string \<Rightarrow> exn + 'a) \<Rightarrow> string \<Rightarrow> exn + 'a" where
  "get_agent_from_registry has create name =
     (if \<not> has name
      then Inl (LookupError (''Agent '' @ quoted name @ '' is not registered in AgentRegistry''))
      else create name)"

subsection \<open>Pipelines\<close>

record pipeline_metadata =
  pm_name :: string
  pm_path :: string
  pm_description :: "string option"
  pm_version :: "string option"

record pipeline_registry =
  pr_pipelines :: "(string \<times> pipeline_metadata) list"
  pr_loaded :: "(string \<times> pipeline_definition) list"
  pr_versions :: "(string \<times> (string \<times> pipeline_metadata) list) list"

definition empty_pipeline_registry :: pipeline_registry where
  "empty_pipeline_registry = \<lparr>pr_pipelines = [], pr_loaded = [], pr_versions = []\<rparr>"

definition track_version ::
  "pipeline_metadata \<Rightarrow> (string \<times> (string \<times> pipeline_metadata) list) list \<Rightarrow>
     (string \<times> (string \<times> pipeline_metadata) list) list" where
  "track_version m vs =
     (case pm_version m of
        None \<Rightarrow> vs
      | Some v \<Rightarrow>
          let old = (case map_of vs (pm_name m) of None \<Rightarrow> [] | Some d \<Rightarrow> d) in
          AList.update (pm_name m) (AList.update v m old) vs)"

definition pipeline_register :: "pipeline_metadata \<Rightarrow> pipeline_registry \<Rightarrow> exn + pipeline_registry" where
  "pipeline_register m r =
     (if map_of (pr_pipelines r) (pm_name m) \<noteq> None
      then Inl (ValueError (''Pipeline '' @ quoted (pm_name m) @ '' is already registered''))
      else Inr (r\<lparr>pr_pipelines := AList.update (pm_name m) m (pr_pipelines r),
                  pr_versions := track_version m (pr_versions r)\<rparr>))"

definition get_metadata :: "string \<Rightarrow> pipeline_registry \<Rightarrow> pipeline_metadata option" where
  "get_metadata name r = map_of (pr_pipelines r) name"

text \<open>\<open>get_definition\<close> and \<open>get_pipeline_definition\<close> are the same lookup.\<close>

definition get_pipeline_definition :: "string \<Rightarrow> pipeline_registry \<Rightarrow> pipeline_definition option" where
  "get_pipeline_definition name r = map_of (pr_loaded r) name"

definition pipeline_get ::
  "string \<Rightarrow> pipeline_registry \<Rightarrow> (pipeline_definition + pipeline_metadata) option" where
  "pipeline_get name r =
     (case map_of (pr_loaded r) name of
        Some p \<Rightarrow> Some (Inl p)
      | None \<Rightarrow> map_option Inr (map_of (pr_pipelines r) name))"

definition pipeline_list :: "pipeline_registry \<Rightarrow> pipeline_metadata list" where
  "pipeline_list r = map snd (pr_pipelines r)"

definition pipeline_exists :: "string \<Rightarrow> pipeline_registry \<Rightarrow> bool" where
  "pipeline_exists name r \<longleftrightarrow> map_of (pr_pipelines r) name \<noteq> None"

definition get_by_version :: "string \<Rightarrow> string \<Rightarrow> pipeline_registry \<Rightarrow> pipeline_metadata option" where
  "get_by_version name version r =
     (case map_of (pr_versions r) name of None \<Rightarrow> None | Some d \<Rightarrow> map_of d version)"

definition list_versions :: "string \<Rightarrow> pipeline_registry \<Rightarrow> string list" where
  "list_versions name r = (case map_of (pr_versions r) name of None \<Rightarrow> [] | Some d \<Rightarrow> map fst d)"

definition register_pipeline_definition ::
  "string \<Rightarrow> pipeline_definition \<Rightarrow> pipeline_registry \<Rightarrow> pipeline_registry" where
  "register_pipeline_definition name p r = r\<lparr>pr_loaded := AList.update name p (pr_loaded r)\<rparr>"

definition has_pipeline_definition :: "string \<Rightarrow> pipeline_registry \<Rightarrow> bool" where
  "has_pipeline_definition name r \<longleftrightarrow> map_of (pr_loaded r) name \<noteq> None"

text \<open>
  \<open>autoload_pipelines\<close> over the listing of the directory. \<open>os.path.join\<close> puts a slash
  after a directory name that does not end in one.
\<close>

definition path_join :: "string \<Rightarrow> string \<Rightarrow> string" where
  "path_join dir name =
     (if starts_with ''/'' name then name
      else if dir = [] \<or> ends_with ''/'' dir then dir @ name else dir @ ''/'' @ name)"

definition is_pipeline_file :: "string \<Rightarrow> bool" where
  "is_pipeline_file filename \<longleftrightarrow> ends_with ''.yaml'' filename \<or> ends_with ''.yml'' filename"

definition pipeline_file_metadata :: "string \<Rightarrow> string \<Rightarrow> pipeline_metadata" where
  "pipeline_file_metadata dir filename =
     \<lparr>pm_name = (if ends_with ''.yaml'' filename then remove_suffix ''.yaml'' filename
                 else remove_suffix ''.yml'' filename),
      pm_path = path_join dir filename, pm_description = None, pm_version = None\<rparr>"

definition autoload_pipeline :: "string \<Rightarrow> string \<Rightarrow> pipeline_registry \<Rightarrow> exn + pipeline_registry" where
  "autoload_pipeline dir filename r =
     (if is_pipeline_file filename then pipeline_register (pipeline_file_metadata dir filename) r else Inr r)"

definition autoload_pipelines :: "string \<Rightarrow> string list \<Rightarrow> pipeline_registry \<Rightarrow> exn + pipeline_registry" where
  "autoload_pipelines dir listing r = foldE (autoload_pipeline dir) listing r"

interpretation pipelines: named_registry pipeline_register get_metadata pipeline_list pm_name
  by unfold_locales
    (auto simp: pipeline_register_def get_metadata_def pipeline_list_def map_snd_update_fresh
      split: if_splits)

lemma autoload_pipelines_register:
  "autoload_pipelines dir listing r =
     foldE pipeline_register (map (pipeline_file_metadata dir) (filter is_pipeline_file listing)) r"
  unfolding autoload_pipelines_def
  by (induction listing arbitrary: r) (auto simp: autoload_pipeline_def bindE_def split: sum.splits)

subsection \<open>Paths\<close>

text \<open>
  What the loader uses of \<open>pathlib.PurePosixPath\<close>: a path is its root and its
  components, empty ones and \<open>.\<close> dropped; two leading slashes are a root of their own.
\<close>

definition path_parts :: "string \<Rightarrow> string list" where
  "path_parts s = filter (\<lambda>p. p \<noteq> [] \<and> p \<noteq> ''.'') (split_on CHR ''/'' s)"

definition path_root :: "string \<Rightarrow> string" where
  "path_root s = (if starts_with ''//'' s \<and> \<not> starts_with ''///'' s then ''//''
     else if starts_with ''/'' s then ''/'' else [])"

definition path_str :: "string \<Rightarrow> string" where
  "path_str s = (let t = path_root s @ join ''/'' (path_parts s) in if t = [] then ''.'' else t)"

definition path_is_absolute :: "string \<Rightarrow> bool" where
  "path_is_absolute s \<longleftrightarrow> path_root s \<noteq> []"

definition path_name :: "string \<Rightarrow> string" where
  "path_name s = (if path_parts s = [] then [] else last (path_parts s))"

text \<open>The name cut at its last dot, when that is neither its first nor its last character.\<close>

definition name_split :: "string \<Rightarrow> string \<times> string" where
  "name_split n =
     (let ext = takeWhile (\<lambda>c. c \<noteq> CHR ''.'') (rev n);
          stem = rev (drop 1 (dropWhile (\<lambda>c. c \<noteq> CHR ''.'') (rev n))) in
      if CHR ''.'' \<in> set n \<and> ext \<noteq> [] \<and> stem \<noteq> [] then (stem, CHR ''.'' # rev ext) else (n, []))"

definition path_suffix :: "string \<Rightarrow> string" where
  "path_suffix s = snd (name_split (path_name s))"

definition path_stem :: "string \<Rightarrow> string" where
  "path_stem s = fst (name_split (path_name s))"

subsection \<open>Loading definitions\<close>

text \<open>
  \<open>PipelineLoader.load\<close>. The file system is two functions: whether a path exists and
  what reading it as YAML gives. The registry is updated only when the load returns.
\<close>

record file_system =
  fs_exists :: "string \<Rightarrow> bool"
  fs_read_yaml :: "string \<Rightarrow> exn + pyval"

record pipeline_loader =
  pl_dir :: string
  pl_allow_fallback :: bool

definition resolve_pipeline_path :: "pipeline_loader \<Rightarrow> string \<Rightarrow> string" where
  "resolve_pipeline_path l name =
     (if path_suffix name = ''.yaml'' then path_str name else path_str (path_join (pl_dir l) (name @ ''.yaml'')))"

definition read_pipeline :: "file_system \<Rightarrow> string \<Rightarrow> exn + pipeline_definition" where
  "read_pipeline fs path =
     bindE (fs_read_yaml fs path) (\<lambda>v. parse_pipeline (if truthy v then v else PDict []) (path_str path))"

definition is_pipeline_name :: "string \<Rightarrow> bool" where
  "is_pipeline_name s \<longleftrightarrow> path_suffix s \<noteq> ''.yaml'' \<and> \<not> path_is_absolute s"

definition load_from_file ::
  "pipeline_loader \<Rightarrow> file_system \<Rightarrow> string \<Rightarrow> pipeline_registry option \<Rightarrow>
     exn + pipeline_definition \<times> pipeline_registry option" where
  "load_from_file l fs name reg =
     (let path = resolve_pipeline_path l name in
      if \<not> fs_exists fs path then Inl (FileNotFoundError (''Pipeline file not found: '' @ path))
      else bindE (read_pipeline fs path) (\<lambda>p.
        Inr (p, if \<not> path_is_absolute name \<or> path_suffix path = ''.yaml''
                then map_option (register_pipeline_definition (path_stem path) p) reg else reg)))"

definition loader_load ::
  "pipeline_loader \<Rightarrow> file_system \<Rightarrow> string \<Rightarrow> pipeline_registry option \<Rightarrow>
     exn + pipeline_definition \<times> pipeline_registry option" where
  "loader_load l fs name reg =
     (case reg of
        None \<Rightarrow> load_from_file l fs name reg
      | Some r \<Rightarrow>
          if is_pipeline_name name then
            (case get_pipeline_definition name r of
               Some p \<Rightarrow> Inr (p, reg)
             | None \<Rightarrow>
                 (case get_metadata name r of
                    Some m \<Rightarrow>
                      bindE (read_pipeline fs (pm_path m)) (\<lambda>p.
                        Inr (p, Some (register_pipeline_definition name p r)))
                  | None \<Rightarrow>
                      if \<not> pl_allow_fallback l
                      then Inl (KeyError (''Pipeline '' @ quoted name
                        @ '' is not registered and fallback to file system is disabled''))
                      else load_from_file l fs name reg))
          else load_from_file l fs name reg)"

definition read_file_pipeline :: "pipeline_loader \<Rightarrow> file_system \<Rightarrow> string \<Rightarrow> exn + pipeline_definition" where
  "read_file_pipeline l fs name = bindE (loader_load l fs name None) (\<lambda>(p, _). Inr p)"

subsection \<open>What the registries guarantee\<close>

definition is_registered_agent :: "agent_metadata \<Rightarrow> agent_registry \<Rightarrow> bool" where
  "is_registered_agent m r \<longleftrightarrow> agent_get (am_name m) r = Some m"

lemma adapter_has_get: "adapter_has r name \<longleftrightarrow> (\<exists>m. adapter_get r name = Inr m)"
  by (auto simp: adapter_has_def adapter_get_def agent_exists_def agent_get_def split: option.splits)

lemma agent_register_other:
  "agent_register p m r = Inr r' \<Longrightarrow> ar_contracts r' = ar_contracts r"
  by (auto simp: agent_register_def returns_iff split: if_splits)

text \<open>When registering a whole list returns: no name twice, no wrong class, no unknown contract.\<close>

lemma agent_register_returns:
  "(\<exists>r'. agent_register p m r = Inr r') \<longleftrightarrow>
     agent_get (am_name m) r = None \<and> p (am_agent_class m) \<and> check_contracts m (ar_contracts r) = Inr ()"
  by (auto simp: agent_register_def agent_get_def bindE_def split: sum.splits)

lemma agents_register_all_returns:
  "(\<exists>r'. foldE (agent_register p) ms r = Inr r') \<longleftrightarrow>
     distinct (map am_name ms) \<and> (\<forall>m \<in> set ms. agent_get (am_name m) r = None \<and> p (am_agent_class m)
       \<and> check_contracts m (ar_contracts r) = Inr ())"
proof (induction ms arbitrary: r)
  case (Cons m ms)
  show ?case
  proof (cases "agent_register p m r")
    case (Inl e)
    then show ?thesis using agent_register_returns [of p m r] by auto
  next
    case (Inr r1)
    then have "agent_get (am_name m) r = None \<and> p (am_agent_class m) \<and> check_contracts m (ar_contracts r) = Inr ()"
      using agent_register_returns [of p m r] by auto
    with Cons.IH [of r1] Inr show ?thesis
      by (simp add: agents.lookup_register [OF Inr] agent_register_other [OF Inr]) (force simp: image_iff)
  qed
qed simp

subsection \<open>Paths survive normalisation\<close>

lemma split_on_append: "split_on c (xs @ c # ys) = split_on c xs @ split_on c ys"
  by (induction xs) (auto split: list.splits)

lemma split_on_none: "c \<notin> set xs \<Longrightarrow> split_on c xs = [xs]"
  by (induction xs) auto

lemma split_on_parts: "w \<in> set (split_on c xs) \<Longrightarrow> c \<notin> set w"
proof (induction xs arbitrary: w)
  case (Cons x xs)
  then show ?case by (cases "split_on c xs") (auto split: if_splits)
qed simp

lemma split_on_join:
  "ws \<noteq> [] \<Longrightarrow> \<forall>w \<in> set ws. c \<notin> set w \<Longrightarrow> split_on c (join [c] ws) = ws"
  by (induction "[c]" ws rule: join.induct) (auto simp: split_on_none split_on_append)

lemma path_parts_wf: "w \<in> set (path_parts s) \<Longrightarrow> w \<noteq> [] \<and> w \<noteq> ''.'' \<and> CHR ''/'' \<notin> set w"
  by (auto simp: path_parts_def dest: split_on_parts)

lemma path_parts_slash: "path_parts (CHR ''/'' # s) = path_parts s"
  using split_on_append [of "CHR ''/''" "[]" s] by (simp add: path_parts_def)

lemma path_parts_root: "path_parts (path_root s @ t) = path_parts t"
  by (simp add: path_root_def path_parts_slash)

lemma path_parts_str [simp]: "path_parts (path_str s) = path_parts s"
proof (cases "path_parts s = []")
  case True
  then show ?thesis using path_parts_root [of s "[]"] by (auto simp: path_str_def Let_def path_parts_def)
next
  case False
  have j: "path_parts (join ''/'' (path_parts s)) = path_parts s"
    using split_on_join [of "path_parts s" "CHR ''/''"] False path_parts_wf [of _ s]
    by (auto simp: path_parts_def [of "join _ _"] filter_id_conv)
  have "join ''/'' (path_parts s) \<noteq> []"
    using False path_parts_wf [of "hd (path_parts s)" s] by (cases "path_parts s" rule: list.exhaust; cases "tl (path_parts s)") auto
  with j show ?thesis by (simp add: path_str_def Let_def path_parts_root)
qed

lemma path_stem_str [simp]: "path_stem (path_str s) = path_stem s" "path_suffix (path_str s) = path_suffix s"
  by (simp_all add: path_stem_def path_suffix_def path_name_def)

lemma name_split_yaml: "n \<noteq> [] \<Longrightarrow> name_split (n @ ''.yaml'') = (n, ''.yaml'')"
  by (simp add: name_split_def Let_def)

lemma path_parts_join:
  assumes "CHR ''/'' \<notin> set n" "n \<noteq> []" "n \<noteq> ''.''"
  shows "\<exists>ps. path_parts (path_join dir n) = ps @ [n]"
proof -
  have n: "path_parts n = [n]" using assms by (simp add: path_parts_def split_on_none)
  have s: "\<not> starts_with ''/'' n" using assms by (cases n) auto
  consider "dir = []" | d where "dir = d @ ''/''" | "dir \<noteq> []" "\<not> ends_with ''/'' dir"
    by (auto simp: ends_with_def starts_with_iff)
  then show ?thesis
  proof cases
    case 1
    then show ?thesis using s n by (simp add: path_join_def)
  next
    case 2
    then show ?thesis using s n split_on_append [of "CHR ''/''" d n]
      by (simp add: path_join_def ends_with_def starts_with_iff path_parts_def)
  next
    case 3
    then show ?thesis using s n split_on_append [of "CHR ''/''" dir n]
      by (simp add: path_join_def path_parts_def)
  qed
qed

lemma resolved_stem:
  assumes "is_pipeline_name name" "CHR ''/'' \<notin> set name" "name \<noteq> []"
  shows "path_stem (resolve_pipeline_path l name) = name"
proof -
  obtain ps where "path_parts (path_join (pl_dir l) (name @ ''.yaml'')) = ps @ [name @ ''.yaml'']"
    using path_parts_join [of "name @ ''.yaml''" "pl_dir l"] assms by auto
  then show ?thesis using assms name_split_yaml [OF assms(3)]
    by (simp add: resolve_pipeline_path_def is_pipeline_name_def path_stem_def path_name_def)
qed

lemma register_definition_get [simp]:
  "get_pipeline_definition k (register_pipeline_definition n p r) =
     (if k = n then Some p else get_pipeline_definition k r)"
  by (simp add: get_pipeline_definition_def register_pipeline_definition_def)

lemma loaded_definition_known:
  assumes "loader_load l fs name (Some r) = Inr (p, Some r')"
    and "is_pipeline_name name" "CHR ''/'' \<notin> set name" "name \<noteq> []"
  shows "get_pipeline_definition name r' = Some p \<and>
      (\<forall>k. k \<noteq> name \<longrightarrow> get_pipeline_definition k r' = get_pipeline_definition k r) \<and>
      pr_pipelines r' = pr_pipelines r"
  using assms resolved_stem [OF assms(2-4), of l]
  by (auto simp: loader_load_def load_from_file_def Let_def returns_iff is_pipeline_name_def
      register_pipeline_definition_def get_pipeline_definition_def
      split: option.splits if_splits)

text \<open>Loading a pipeline by a plain name makes its definition known: the registry the
  load leaves answers with it from then on, whatever happens to the files, and the
  definitions of all other names are untouched.\<close>

theorem loaded_definition_cached:
  assumes "loader_load l fs name (Some r) = Inr (p, Some r')"
    and "is_pipeline_name name" "CHR ''/'' \<notin> set name" "name \<noteq> []"
  shows "loader_load l fs' name (Some r') = Inr (p, Some r') \<and>
    (\<forall>k. k \<noteq> name \<longrightarrow> get_pipeline_definition k r' = get_pipeline_definition k r) \<and>
    pr_pipelines r' = pr_pipelines r"
  using loaded_definition_known [OF assms] assms(2) by (simp add: loader_load_def)

definition plain_payload :: "string \<Rightarrow> pyval" where
  "plain_payload name = PDict [(''pipeline_name'', PStr name), (''steps'', PList [])]"

definition labelled_fs :: file_system where
  "labelled_fs = \<lparr>fs_exists = (\<lambda>_. True), fs_read_yaml = (\<lambda>path. Inr (plain_payload path))\<rparr>"

definition plain_pipeline :: "string \<Rightarrow> pipeline_definition" where
  "plain_pipeline name = \<lparr>pd_pipeline_name = name, pd_description = PStr [], pd_triggers = [],
     pd_logging = [], pd_steps = [], pd_loops = []\<rparr>"

lemma parse_plain_payload:
  "py_strip name \<noteq> [] \<Longrightarrow> parse_pipeline (plain_payload name) path = Inr (plain_pipeline name)"
  by (simp add: parse_pipeline_def plain_payload_def dget_def dget_or_def enumerate_eq_zip
      ensure_list_of_strings_None ensure_dict_def parse_loops_container_def check_loop_steps_def
      plain_pipeline_def)

definition default_loader :: pipeline_loader where
  "default_loader = \<lparr>pl_dir = ''pipelines'', pl_allow_fallback = True\<rparr>"

lemma labelled_load:
  assumes "py_strip (resolve_pipeline_path default_loader name) \<noteq> []" "is_pipeline_name name"
  shows "loader_load default_loader labelled_fs name (Some empty_pipeline_registry) =
    Inr (plain_pipeline (resolve_pipeline_path default_loader name),
      Some (register_pipeline_definition (path_stem (resolve_pipeline_path default_loader name))
        (plain_pipeline (resolve_pipeline_path default_loader name)) empty_pipeline_registry))"
  using assms parse_plain_payload [OF assms(1)]
  by (simp add: loader_load_def load_from_file_def read_pipeline_def labelled_fs_def Let_def
      empty_pipeline_registry_def get_pipeline_definition_def get_metadata_def default_loader_def
      plain_payload_def is_pipeline_name_def)

theorem loaded_definition_cached_witness:
  "\<exists>p r'. loader_load default_loader labelled_fs ''build'' (Some empty_pipeline_registry) = Inr (p, Some r') \<and>
    loader_load default_loader (labelled_fs\<lparr>fs_exists := \<lambda>_. False\<rparr>) ''build'' (Some r') = Inr (p, Some r')"
proof -
  have n: "is_pipeline_name ''build''" "CHR ''/'' \<notin> set ''build''" "''build'' \<noteq> []"
    and s: "py_strip (resolve_pipeline_path default_loader ''build'') \<noteq> []" by code_simp+
  from loaded_definition_cached [OF labelled_load [OF s n(1)] n] labelled_load [OF s n(1)]
  show ?thesis by blast
qed

text \<open>Loading a pipeline by a name with a directory in it shadows the pipeline of the
  same file name in the loader's own directory: the definition is remembered under the
  bare file name, so the next load of that name gets the other file's pipeline.\<close>

theorem nested_load_shadows:
  assumes "loader_load l fs (d @ ''/'' @ n) (Some r) = Inr (p, Some r')"
    and "is_pipeline_name (d @ ''/'' @ n)" "CHR ''/'' \<notin> set n" "n \<noteq> []" "n \<noteq> ''.''"
    and "get_pipeline_definition (d @ ''/'' @ n) r = None" "get_metadata (d @ ''/'' @ n) r = None"
  shows "loader_load l fs' n (Some r') = Inr (p, Some r')"
proof -
  have parts: "path_parts (x @ ''/'' @ m) = path_parts x @ [m]"
    if "CHR ''/'' \<notin> set m" "m \<noteq> []" "m \<noteq> ''.''" for x m
    using that split_on_append [of "CHR ''/''" x m] by (simp add: path_parts_def split_on_none)
  have pn: "path_parts n = [n]" using assms by (simp add: path_parts_def split_on_none)
  have name: "is_pipeline_name n"
    using assms(2-5) parts [of n d] pn
    by (auto simp: is_pipeline_name_def path_suffix_def path_name_def path_is_absolute_def
        path_root_def starts_with_iff split: if_splits)
  have "path_parts (path_join (pl_dir l) ((d @ ''/'' @ n) @ ''.yaml''))
      = path_parts (path_join (pl_dir l) d) @ [n @ ''.yaml'']"
  proof (cases "d = []")
    case True
    then show ?thesis using assms(2) by (auto simp: is_pipeline_name_def path_is_absolute_def path_root_def split: if_splits)
  next
    case False
    then have "starts_with ''/'' (d @ t) \<longleftrightarrow> starts_with ''/'' d" for t by (cases d) auto
    then have "path_join (pl_dir l) (d @ ''/'' @ n @ ''.yaml'') = path_join (pl_dir l) d @ ''/'' @ n @ ''.yaml''"
      by (simp add: path_join_def)
    then show ?thesis using parts [of "n @ ''.yaml''"] assms(3-5) by simp
  qed
  then have stem: "path_stem (resolve_pipeline_path l (d @ ''/'' @ n)) = n"
    using assms(2) name_split_yaml [OF assms(4)]
    by (simp add: resolve_pipeline_path_def is_pipeline_name_def path_stem_def path_name_def)
  have "get_pipeline_definition n r' = Some p"
    using assms(1, 2, 6, 7) stem
    by (auto simp: loader_load_def load_from_file_def Let_def returns_iff is_pipeline_name_def split: if_splits)
  then show ?thesis using name by (simp add: loader_load_def)
qed

theorem nested_load_shadows_witness:
  "\<exists>p r' q. loader_load default_loader labelled_fs ''team/build'' (Some empty_pipeline_registry) = Inr (p, Some r') \<and>
    loader_load default_loader labelled_fs ''build'' (Some r') = Inr (p, Some r') \<and>
    read_file_pipeline default_loader labelled_fs ''build'' = Inr q \<and> q \<noteq> p"
proof -
  let ?f = "resolve_pipeline_path default_loader"
  have n: "is_pipeline_name (''team'' @ ''/'' @ ''build'')" and s: "py_strip (?f ''team/build'') \<noteq> []"
    and c: "CHR ''/'' \<notin> set ''build''" "''build'' \<noteq> []" "''build'' \<noteq> ''.''"
    and b: "py_strip (?f ''build'') \<noteq> []" and ne: "?f ''build'' \<noteq> ?f ''team/build''" by code_simp+
  have l: "loader_load default_loader labelled_fs (''team'' @ ''/'' @ ''build'') (Some empty_pipeline_registry) =
    Inr (plain_pipeline (?f ''team/build''), Some (register_pipeline_definition (path_stem (?f ''team/build''))
      (plain_pipeline (?f ''team/build'')) empty_pipeline_registry))"
    using labelled_load [OF s] n by simp
  have q: "read_file_pipeline default_loader labelled_fs ''build'' = Inr (plain_pipeline (?f ''build''))"
    using parse_plain_payload [OF b, of "path_str (?f ''build'')"]
    by (simp add: read_file_pipeline_def loader_load_def load_from_file_def read_pipeline_def
        labelled_fs_def Let_def plain_payload_def)
  have "plain_pipeline (?f ''build'') \<noteq> plain_pipeline (?f ''team/build'')"
    using ne by (simp add: plain_pipeline_def)
  with nested_load_shadows [OF l n c, of labelled_fs] l q show ?thesis
    by (auto simp: empty_pipeline_registry_def get_pipeline_definition_def get_metadata_def)
qed

lemma register_agents_members:
  assumes "register_agents is_agent_class \<lparr>ar_agents = [], ar_contracts = cr\<rparr> = Inr r"
  shows "agent_list r = core_agents @ support_agents \<and>
    (\<forall>name m. agent_get name r = Some m \<longleftrightarrow> m \<in> set (core_agents @ support_agents) \<and> am_name m = name)"
proof -
  note f = assms [unfolded register_agents_def]
  have e: "agents.faithful \<lparr>ar_agents = [], ar_contracts = cr\<rparr>"
    by (simp add: agents.faithful_def agent_list_def agent_get_def)
  have "agent_list r = core_agents @ support_agents"
    using agents.register_all_members [OF f] by (simp add: agent_list_def)
  with agents.faithful_register_all [OF e f] show ?thesis by (simp add: agents.faithful_def)
qed

lemma register_agents_exists:
  "register_agents is_agent_class \<lparr>ar_agents = [], ar_contracts = cr\<rparr> = Inr r \<Longrightarrow>
     agent_exists name r \<longleftrightarrow> name \<in> am_name ` set (core_agents @ support_agents)"
  using register_agents_members [of is_agent_class cr r] unfolding agent_exists_def agent_get_def [symmetric]
  by (metis (no_types, lifting) imageE imageI not_None_eq)

text \<open>Registering the built-in agents in a fresh registry succeeds exactly when all
  their classes are agent classes and the contracts they name exist in the contract
  registry, if there is one; afterwards the registry holds these agents, each under its
  own name, and nothing else.\<close>

theorem register_agents_correct:
  "((\<exists>r. register_agents is_agent_class \<lparr>ar_agents = [], ar_contracts = cr\<rparr> = Inr r) \<longleftrightarrow>
      (\<forall>m \<in> set (core_agents @ support_agents). is_agent_class (am_agent_class m)) \<and>
      (cr = None \<or> (\<forall>c \<in> {''context.dod.v1'', ''context.spec.v1'', ''context.tests.v1''}. contract_exists c (the cr)))) \<and>
   (\<forall>r. register_agents is_agent_class \<lparr>ar_agents = [], ar_contracts = cr\<rparr> = Inr r \<longrightarrow>
      agent_list r = core_agents @ support_agents \<and>
      (\<forall>name m. agent_get name r = Some m \<longleftrightarrow> m \<in> set (core_agents @ support_agents) \<and> am_name m = name))"
proof -
  let ?ms = "core_agents @ support_agents" and ?r0 = "\<lparr>ar_agents = [], ar_contracts = cr\<rparr>"
  have d: "distinct (map am_name ?ms)" by (simp add: core_agents_def support_agents_def mk_agent_def)
  have c: "(\<forall>m \<in> set ?ms. check_contracts m cr = Inr ()) \<longleftrightarrow>
      cr = None \<or> (\<forall>c \<in> {''context.dod.v1'', ''context.spec.v1'', ''context.tests.v1''}. contract_exists c (the cr))"
    by (cases cr) (auto simp: core_agents_def support_agents_def mk_agent_def check_contracts_def unknown_contract_def)
  have "(\<exists>r. register_agents is_agent_class ?r0 = Inr r) \<longleftrightarrow>
      (\<forall>m \<in> set ?ms. is_agent_class (am_agent_class m)) \<and> (\<forall>m \<in> set ?ms. check_contracts m cr = Inr ())"
    unfolding register_agents_def agents_register_all_returns using d by (auto simp: agent_get_def)
  then show ?thesis unfolding c using register_agents_members [of is_agent_class cr] by blast
qed

theorem register_agents_correct_witness:
  "\<exists>r. register_agents (\<lambda>_. True) \<lparr>ar_agents = [], ar_contracts = None\<rparr> = Inr r \<and>
     agent_list r = core_agents @ support_agents"
  using register_agents_correct [of "\<lambda>_. True" None] by blast

end
