(* ===== verification/Idempotency.thy ===== *)
theory Idempotency
  imports PyValue
begin

text \<open>
  \<open>scheduler/idempotency.py\<close>: the keys of requests and the store that remembers for a time
  which run answered a key. SHA-256 and the decimal text of floats are parameters. Clock
  readings are arguments; \<open>remember\<close> reads the clock three times, for the removal of old
  entries, for \<open>created_at\<close> and for \<open>expires_at\<close>.
\<close>

definition build_payload_hash :: "(string \<Rightarrow> string) \<Rightarrow> (rat \<Rightarrow> string) \<Rightarrow> dict \<Rightarrow> string" where
  "build_payload_hash sha256 fstr payload = sha256 (json_dumps fstr True '','' '':'' (PDict payload))"

definition build_idempotency_key ::
  "(string \<Rightarrow> string) \<Rightarrow> (rat \<Rightarrow> string) \<Rightarrow> string \<Rightarrow> string \<Rightarrow> dict \<Rightarrow> string" where
  "build_idempotency_key sha256 fstr source pipeline_name payload =
     ''hf:'' @ sha256 (json_dumps fstr True '','' '':''
       (PDict [(''source'', PStr source), (''pipeline_name'', PStr pipeline_name), (''payload'', PDict payload)]))"

record idem_entry =
  ie_run_id :: string
  ie_result :: dict
  ie_created_at :: rat
  ie_expires_at :: rat

record idem_store =
  is_ttl_seconds :: int
  is_mapping :: "(string \<times> idem_entry) list"

definition new_store :: "int \<Rightarrow> idem_store" where
  "new_store ttl = \<lparr>is_ttl_seconds = max 1 ttl, is_mapping = []\<rparr>"

definition prune :: "rat \<Rightarrow> idem_store \<Rightarrow> idem_store" where
  "prune now s =
     s\<lparr>is_mapping := fold dict_pop
         (map fst (filter (\<lambda>(k, e). ie_expires_at e \<le> now) (is_mapping s))) (is_mapping s)\<rparr>"

definition remember ::
  "rat \<times> rat \<times> rat \<Rightarrow> string \<Rightarrow> string \<Rightarrow> dict \<Rightarrow> idem_store \<Rightarrow> idem_store" where
  "remember = (\<lambda>(now, created, expiry) key run_id result s0.
     (let s = prune now s0 in
      s\<lparr>is_mapping := AList.update key
          \<lparr>ie_run_id = run_id, ie_result = result, ie_created_at = created,
           ie_expires_at = expiry + of_int (is_ttl_seconds s)\<rparr> (is_mapping s)\<rparr>))"

definition store_get :: "rat \<Rightarrow> string \<Rightarrow> idem_store \<Rightarrow> idem_entry option \<times> idem_store" where
  "store_get now key s0 = (let s = prune now s0 in (map_of (is_mapping s) key, s))"

definition store_clear :: "idem_store \<Rightarrow> idem_store" where
  "store_clear s = s\<lparr>is_mapping := []\<rparr>"

subsection \<open>What a lookup finds\<close>

datatype idem_op = Remember "rat \<times> rat \<times> rat" string string dict | Lookup rat string | Clear

fun idem_step :: "idem_op \<Rightarrow> idem_store \<Rightarrow> idem_store" where
  "idem_step (Remember t k run res) s = remember t k run res s"
| "idem_step (Lookup t k) s = snd (store_get t k s)"
| "idem_step Clear s = store_clear s"

text \<open>The clock never goes back: every reading of an operation is at most \<open>t\<close>.\<close>

fun op_before :: "rat \<Rightarrow> idem_op \<Rightarrow> bool" where
  "op_before t (Remember (a, b, c) k run res) = (a \<le> t \<and> b \<le> t \<and> c \<le> t)"
| "op_before t (Lookup a k) = (a \<le> t)"
| "op_before t Clear = True"

text \<open>The reference: the last answer remembered for the key since the last \<open>clear()\<close>, while it is
  younger than the time to live; \<open>ops\<close> has the latest operation first.\<close>

fun answer :: "int \<Rightarrow> idem_op list \<Rightarrow> string \<Rightarrow> rat \<Rightarrow> idem_entry option" where
  "answer ttl [] key t = None"
| "answer ttl (Clear # ops) key t = None"
| "answer ttl (Lookup u k # ops) key t = answer ttl ops key t"
| "answer ttl (Remember (a, b, c) k run res # ops) key t =
     (if k = key
      then (if t < c + of_int ttl
            then Some \<lparr>ie_run_id = run, ie_result = res, ie_created_at = b, ie_expires_at = c + of_int ttl\<rparr>
            else None)
      else answer ttl ops key t)"

definition live :: "rat \<Rightarrow> idem_entry option \<Rightarrow> idem_entry option" where
  "live t e = (case e of Some x \<Rightarrow> if t < ie_expires_at x then Some x else None | None \<Rightarrow> None)"

lemma prune_lookup:
  assumes "distinct (map fst (is_mapping s))"
  shows "map_of (is_mapping (prune now s)) k = live now (map_of (is_mapping s) k)"
proof -
  have "k \<in> fst ` {p \<in> set (is_mapping s). ie_expires_at (snd p) \<le> now} \<longleftrightarrow>
      (\<exists>e. map_of (is_mapping s) k = Some e \<and> ie_expires_at e \<le> now)"
    using assms by (force simp: map_of_eq_Some_iff image_iff)
  then show ?thesis
    by (auto simp: prune_def map_of_fold_pop live_def case_prod_unfold split: option.splits)
qed

lemma live_live: "u \<le> t \<Longrightarrow> live t (live u e) = live t e"
  by (auto simp: live_def split: option.splits)

lemma prune_keeps:
  "is_ttl_seconds (prune t s) = is_ttl_seconds s"
  "distinct (map fst (is_mapping s)) \<Longrightarrow> distinct (map fst (is_mapping (prune t s)))"
  by (simp_all add: prune_def distinct_fold_pop)

lemma idem_step_keeps:
  "is_ttl_seconds (idem_step c s) = is_ttl_seconds s"
  "distinct (map fst (is_mapping s)) \<Longrightarrow> distinct (map fst (is_mapping (idem_step c s)))"
  by (cases c; auto simp: remember_def store_get_def store_clear_def Let_def prune_keeps distinct_update)+

lemma foldr_step_keeps:
  "is_ttl_seconds (foldr idem_step ops (new_store ttl)) = max 1 ttl"
  "distinct (map fst (is_mapping (foldr idem_step ops (new_store ttl))))"
proof (induction ops)
  case Nil
  show "is_ttl_seconds (foldr idem_step [] (new_store ttl)) = max 1 ttl"
    "distinct (map fst (is_mapping (foldr idem_step [] (new_store ttl))))"
    by (simp_all add: new_store_def)
qed (simp_all add: idem_step_keeps)

lemma idem_step_live:
  assumes "op_before t c" "distinct (map fst (is_mapping s))"
  shows "live t (map_of (is_mapping (idem_step c s)) key) =
    (case c of
       Clear \<Rightarrow> None
     | Lookup u k \<Rightarrow> live t (map_of (is_mapping s) key)
     | Remember (a, b, x) k run res \<Rightarrow>
         if k = key then live t (Some \<lparr>ie_run_id = run, ie_result = res, ie_created_at = b,
             ie_expires_at = x + of_int (is_ttl_seconds s)\<rparr>)
         else live t (map_of (is_mapping s) key))"
proof (cases c)
  case (Remember q k run res)
  obtain a b x where "q = (a, b, x)" by (cases q)
  with Remember assms show ?thesis
    by (simp add: remember_def Let_def prune_lookup prune_keeps live_live)
next
  case (Lookup u k)
  with assms show ?thesis by (simp add: store_get_def Let_def prune_lookup live_live)
next
  case Clear
  then show ?thesis by (simp add: store_clear_def live_def)
qed

lemma answer_live:
  assumes "\<forall>c \<in> set ops. op_before t c"
  shows "live t (map_of (is_mapping (foldr idem_step ops (new_store ttl))) key) = answer (max 1 ttl) ops key t"
  using assms
proof (induction ops)
  case Nil
  show ?case by (simp add: new_store_def live_def)
next
  case (Cons c ops)
  have "live t (map_of (is_mapping (foldr idem_step ops (new_store ttl))) key) = answer (max 1 ttl) ops key t"
    using Cons by simp
  then show ?case
    using idem_step_live [of t c "foldr idem_step ops (new_store ttl)" key] Cons.prems
    by (cases c) (auto simp: foldr_step_keeps live_def split: prod.splits)
qed

text \<open>C19: Whatever happened before, with a clock that never goes back, the store answers a key
  with the last run remembered for it since the last clearing exactly while that is younger
  than the time to live (at least one second): entries are neither lost nor kept too long.\<close>

theorem idempotency_store_correct:
  assumes "\<forall>c \<in> set ops. op_before t c"
  shows "fst (store_get t key (foldr idem_step ops (new_store ttl))) = answer (max 1 ttl) ops key t"
  using answer_live [OF assms] foldr_step_keeps(2)
  by (simp add: store_get_def Let_def prune_lookup)

theorem idempotency_store_correct_witness:
  "let ops = [Remember (5, 5, 5) ''k'' ''run-2'' [], Remember (1, 1, 2) ''k'' ''run-1'' []];
       s = foldr idem_step ops (new_store 10) in
   map_option ie_run_id (fst (store_get 14 ''k'' s)) = Some ''run-2'' \<and> fst (store_get 15 ''k'' s) = None"
  using idempotency_store_correct [of "[Remember (5, 5, 5) ''k'' ''run-2'' [], Remember (1, 1, 2) ''k'' ''run-1'' []]" 14 "''k''" 10]
    idempotency_store_correct [of "[Remember (5, 5, 5) ''k'' ''run-2'' [], Remember (1, 1, 2) ''k'' ''run-1'' []]" 15 "''k''" 10]
  by simp

text \<open>The key of a request depends on the contents of its payload, not on the order of its keys.\<close>

lemma idempotency_key_same_content:
  assumes "same_content (PDict p) (PDict q)"
  shows "build_idempotency_key h fstr src pl p = build_idempotency_key h fstr src pl q"
    and "build_payload_hash h fstr p = build_payload_hash h fstr q"
  using json_dumps_same_content [OF assms, of fstr "'',''" "'':''"]
  by (simp_all add: build_idempotency_key_def build_payload_hash_def Let_def)

end
