(* ===== verification/Schedule.thy ===== *)
theory Schedule
  imports Registry Idempotency
begin

text \<open>
  \<open>scheduler/schedule_registry.py\<close>, \<open>scheduler/cron_dispatcher.py\<close>,
  \<open>scheduler/idempotency.py\<close> (the keys) and the publishing part of
  \<open>scheduler/cron_runtime.py\<close>. A job's handler works on a world \<open>'w\<close>: its own memory, the
  pipelines it triggers, whatever else. Times are rational seconds; their text (\<open>isot\<close>), the
  hash and the decimal text of floats are parameters. Logging is left out.
\<close>

subsection \<open>Schedules\<close>

record schedule_spec =
  ss_job_name :: string
  ss_cron :: string
  ss_interval_seconds :: int
  ss_pipeline_name :: string
  ss_enabled :: bool
  ss_default_inputs :: dict

type_synonym schedule_registry = "(string \<times> schedule_spec) list"

definition schedule_register :: "schedule_spec \<Rightarrow> schedule_registry \<Rightarrow> exn + schedule_registry" where
  "schedule_register spec r =
     (if py_strip (ss_job_name spec) = [] then Inl (ValueError ''job_name must be non-empty'')
      else if ss_interval_seconds spec \<le> 0 then Inl (ValueError ''interval_seconds must be > 0'')
      else if map_of r (ss_job_name spec) \<noteq> None
      then Inl (ValueError (''Schedule '' @ quoted (ss_job_name spec) @ '' already exists''))
      else Inr (AList.update (ss_job_name spec) spec r))"

definition schedule_get :: "string \<Rightarrow> schedule_registry \<Rightarrow> exn + schedule_spec" where
  "schedule_get name r =
     (case map_of r name of
        None \<Rightarrow> Inl (KeyError (''Schedule '' @ quoted name @ '' is not registered''))
      | Some spec \<Rightarrow> Inr spec)"

definition list_all_schedules :: "schedule_registry \<Rightarrow> schedule_spec list" where
  "list_all_schedules r = map snd r"

definition list_enabled :: "schedule_registry \<Rightarrow> schedule_spec list" where
  "list_enabled r = filter ss_enabled (map snd r)"

definition schedule_set_enabled :: "string \<Rightarrow> bool \<Rightarrow> schedule_registry \<Rightarrow> exn + schedule_registry" where
  "schedule_set_enabled name enabled r =
     bindE (schedule_get name r) (\<lambda>spec. Inr (AList.update name (spec\<lparr>ss_enabled := enabled\<rparr>) r))"

definition default_schedules :: "schedule_spec list" where
  "default_schedules =
    [\<lparr>ss_job_name = ''issue_scanner'', ss_cron = ''*/15 * * * *'', ss_interval_seconds = 900,
      ss_pipeline_name = ''issue_scanner_pipeline'', ss_enabled = True,
      ss_default_inputs = [(''labels'', PList [PStr ''agent:opened'', PStr ''agent:planning'', PStr ''agent:ready'', PStr ''agent:fixed''])]\<rparr>,
     \<lparr>ss_job_name = ''ci_monitor'', ss_cron = ''*/10 * * * *'', ss_interval_seconds = 600,
      ss_pipeline_name = ''ci_monitoring_pipeline'', ss_enabled = True,
      ss_default_inputs = [(''failed_only'', PBool True)]\<rparr>,
     \<lparr>ss_job_name = ''dependency_checker'', ss_cron = ''0 */6 * * *'', ss_interval_seconds = 21600,
      ss_pipeline_name = ''dependency_check_pipeline'', ss_enabled = False,
      ss_default_inputs = [(''critical_only'', PBool True)]\<rparr>,
     \<lparr>ss_job_name = ''backup_runner'', ss_cron = ''0 2 * * *'', ss_interval_seconds = 86400,
      ss_pipeline_name = ''backup_runner'', ss_enabled = False,
      ss_default_inputs = [(''dry_run'', PBool False)]\<rparr>,
     \<lparr>ss_job_name = ''data_retention'', ss_cron = ''30 2 * * *'', ss_interval_seconds = 86400,
      ss_pipeline_name = ''data_retention'', ss_enabled = False,
      ss_default_inputs = [(''dry_run'', PBool False), (''retention_runs_days'', PInt 90),
        (''retention_logs_days'', PInt 30), (''retention_artifacts_days'', PInt 7), (''retention_audit_days'', PInt 365)]\<rparr>]"

definition build_default_schedule_registry :: "exn + schedule_registry" where
  "build_default_schedule_registry = foldE schedule_register default_schedules []"

text \<open>Schedules are a registry like the others: \<open>list_all\<close> has what was registered, in order.\<close>

interpretation schedules: named_registry schedule_register "\<lambda>k r. map_of r k" list_all_schedules ss_job_name
  by unfold_locales
    (auto simp: schedule_register_def list_all_schedules_def map_snd_update_fresh split: if_splits)

lemma default_schedules_registered:
  "build_default_schedule_registry = Inr (map (\<lambda>s. (ss_job_name s, s)) default_schedules)"
  by code_simp

subsection \<open>Jobs\<close>

type_synonym 'w job_handler = "dict \<Rightarrow> 'w \<Rightarrow> (exn + pyval) \<times> 'w"

record 'w cron_job =
  cj_name :: string
  cj_interval_seconds :: int
  cj_handler :: "'w job_handler"
  cj_enabled :: bool
  cj_default_payload :: dict
  cj_last_run_at :: "rat option"

type_synonym 'w dispatcher = "(string \<times> 'w cron_job) list"

definition register_job ::
  "string \<Rightarrow> 'w job_handler \<Rightarrow> int \<Rightarrow> bool \<Rightarrow> dict \<Rightarrow> 'w dispatcher \<Rightarrow> exn + 'w dispatcher" where
  "register_job name handler interval enabled payload d =
     (let normalized = py_strip name in
      if normalized = [] then Inl (ValueError ''job name must be a non-empty string'')
      else if interval \<le> 0 then Inl (ValueError ''interval_seconds must be > 0'')
      else if map_of d normalized \<noteq> None
      then Inl (ValueError (''Job '' @ quoted normalized @ '' is already registered''))
      else Inr (AList.update normalized
        \<lparr>cj_name = normalized, cj_interval_seconds = interval, cj_handler = handler, cj_enabled = enabled,
         cj_default_payload = payload, cj_last_run_at = None\<rparr> d))"

text \<open>A schedule without a handler, or whose job is already there, is passed over.\<close>

definition register_scheduled ::
  "(string \<times> 'w job_handler) list \<Rightarrow> schedule_spec \<Rightarrow> 'w dispatcher \<Rightarrow> exn + 'w dispatcher" where
  "register_scheduled handlers spec d =
     (case map_of handlers (ss_job_name spec) of
        None \<Rightarrow> Inr d
      | Some handler \<Rightarrow>
          if map_of d (ss_job_name spec) \<noteq> None then Inr d
          else register_job (ss_job_name spec) handler (ss_interval_seconds spec) (ss_enabled spec)
                 (ss_default_inputs spec) d)"

definition register_from_schedule_registry ::
  "schedule_registry \<Rightarrow> (string \<times> 'w job_handler) list \<Rightarrow> 'w dispatcher \<Rightarrow> exn + 'w dispatcher" where
  "register_from_schedule_registry r handlers = foldE (register_scheduled handlers) (list_enabled r)"

definition merge_payload :: "'w cron_job \<Rightarrow> pyval \<Rightarrow> dict" where
  "merge_payload job payload =
     (case payload of PDict p \<Rightarrow> dict_update p (cj_default_payload job) | _ \<Rightarrow> cj_default_payload job)"

definition is_due :: "rat \<Rightarrow> 'w cron_job \<Rightarrow> bool" where
  "is_due now job \<longleftrightarrow> cj_enabled job \<and>
     (case cj_last_run_at job of None \<Rightarrow> True | Some t \<Rightarrow> t + of_int (cj_interval_seconds job) \<le> now)"

text \<open>\<open>fin\<close> is the time of the clock after the handler has returned.\<close>

definition job_record ::
  "(rat \<Rightarrow> string) \<Rightarrow> 'w cron_job \<Rightarrow> string \<Rightarrow> rat \<Rightarrow> rat \<Rightarrow> exn + pyval \<Rightarrow> dict" where
  "job_record isot job trigger started fin r =
     [(''job_name'', PStr (cj_name job)), (''trigger'', PStr trigger),
      (''status'', PStr (case r of Inl _ \<Rightarrow> ''FAILED'' | Inr _ \<Rightarrow> ''SUCCESS'')),
      (''started_at'', PStr (isot started)), (''finished_at'', PStr (isot fin)),
      (''error'', case r of Inl e \<Rightarrow> PStr (exn_str e) | Inr _ \<Rightarrow> PNone),
      (''result'', case r of Inr (PDict p) \<Rightarrow> PDict p | _ \<Rightarrow> PDict [])]"

definition run_job ::
  "(rat \<Rightarrow> string) \<Rightarrow> rat \<Rightarrow> rat \<Rightarrow> string \<Rightarrow> pyval \<Rightarrow> 'w cron_job \<Rightarrow> 'w \<Rightarrow> dict \<times> 'w cron_job \<times> 'w" where
  "run_job isot started fin trigger payload job w =
     (let (r, w') = cj_handler job (merge_payload job payload) w in
      (job_record isot job trigger started fin r, job\<lparr>cj_last_run_at := Some started\<rparr>, w'))"

text \<open>The loop over \<open>self.jobs.values()\<close>; \<open>fin\<close> gives the end of each job's run.\<close>

fun run_due_loop ::
  "(rat \<Rightarrow> string) \<Rightarrow> (string \<Rightarrow> rat) \<Rightarrow> rat \<Rightarrow> 'w dispatcher \<Rightarrow> 'w \<Rightarrow> dict list \<times> 'w dispatcher \<times> 'w" where
  "run_due_loop isot fin now [] w = ([], [], w)"
| "run_due_loop isot fin now ((k, job) # d) w =
     (if \<not> is_due now job
      then (let (rs, d', w') = run_due_loop isot fin now d w in (rs, (k, job) # d', w'))
      else (let (r, job', w1) = run_job isot now (fin k) ''schedule'' PNone job w;
                (rs, d', w') = run_due_loop isot fin now d w1
            in (r # rs, (k, job') # d', w')))"

definition run_due_jobs ::
  "(rat \<Rightarrow> string) \<Rightarrow> (string \<Rightarrow> rat) \<Rightarrow> rat \<Rightarrow> 'w dispatcher \<Rightarrow> 'w \<Rightarrow> dict list \<times> 'w dispatcher \<times> 'w" where
  "run_due_jobs isot fin now d w = run_due_loop isot fin now d w"

definition trigger_job ::
  "(rat \<Rightarrow> string) \<Rightarrow> rat \<Rightarrow> rat \<Rightarrow> string \<Rightarrow> dict \<Rightarrow> 'w dispatcher \<Rightarrow> 'w \<Rightarrow> (exn + dict) \<times> 'w dispatcher \<times> 'w" where
  "trigger_job isot now fin name payload d w =
     (case map_of d name of
        None \<Rightarrow> (Inl (KeyError (''Unknown cron job: '' @ name)), d, w)
      | Some job \<Rightarrow>
          (let (r, job', w') = run_job isot now fin ''manual'' (PDict payload) job w
           in (Inr r, AList.update name job' d, w')))"

subsection \<open>What a poll runs\<close>

lemma run_due_records:
  "run_due_loop isot fin now d w = (rs, d', w') \<Longrightarrow>
     map (\<lambda>r. dget r ''job_name'') rs = map (\<lambda>(k, j). PStr (cj_name j)) (filter (\<lambda>(k, j). is_due now j) d) \<and>
     d' = map (\<lambda>(k, j). (k, if is_due now j then j\<lparr>cj_last_run_at := Some now\<rparr> else j)) d"
  by (induction d arbitrary: w rs d')
    (auto simp: run_job_def job_record_def dget_def Let_def split: prod.splits if_splits)

text \<open>The events of a dispatcher's life: a poll, or a manual trigger with its payload. A run is a
  scheduled (\<open>True\<close>) or a manual start of a job, with its time.\<close>

datatype cron_event = Poll rat | Trigger rat string dict

primrec event_time :: "cron_event \<Rightarrow> rat" where
  "event_time (Poll t) = t"
| "event_time (Trigger t n p) = t"

primrec cron_step ::
  "(rat \<Rightarrow> string) \<Rightarrow> (string \<Rightarrow> rat) \<Rightarrow> cron_event \<Rightarrow> 'w dispatcher \<times> 'w \<Rightarrow> 'w dispatcher \<times> 'w" where
  "cron_step isot fin (Poll t) s = snd (run_due_jobs isot fin t (fst s) (snd s))"
| "cron_step isot fin (Trigger t n p) s = snd (trigger_job isot t (fin n) n p (fst s) (snd s))"

definition job_starts :: "string \<Rightarrow> cron_event \<Rightarrow> 'w dispatcher \<Rightarrow> (bool \<times> rat) list" where
  "job_starts name ev d =
     (case map_of d name of
        None \<Rightarrow> []
      | Some job \<Rightarrow>
          (case ev of
             Poll t \<Rightarrow> if is_due t job then [(True, t)] else []
           | Trigger t n p \<Rightarrow> if n = name then [(False, t)] else []))"

fun job_runs ::
  "(rat \<Rightarrow> string) \<Rightarrow> (string \<Rightarrow> rat) \<Rightarrow> string \<Rightarrow> cron_event list \<Rightarrow> 'w dispatcher \<times> 'w \<Rightarrow> (bool \<times> rat) list" where
  "job_runs isot fin name [] s = []"
| "job_runs isot fin name (ev # evs) s = job_starts name ev (fst s) @ job_runs isot fin name evs (cron_step isot fin ev s)"

definition started_job :: "(bool \<times> rat) list \<Rightarrow> 'w cron_job \<Rightarrow> 'w cron_job" where
  "started_job starts job = (case starts of [] \<Rightarrow> job | (_, t) # _ \<Rightarrow> job\<lparr>cj_last_run_at := Some t\<rparr>)"

lemma map_of_map_second: "map_of (map (\<lambda>(k, j). (k, f j)) d) n = map_option f (map_of d n)"
  by (induction d) auto

lemma cron_step_lookup:
  "map_of (fst (cron_step isot fin ev s)) name = map_option (started_job (job_starts name ev (fst s))) (map_of (fst s) name)"
proof (cases ev)
  case (Poll t)
  obtain rs d' w' where r: "run_due_loop isot fin t (fst s) (snd s) = (rs, d', w')" by (cases "run_due_loop isot fin t (fst s) (snd s)") auto
  from run_due_records [OF r] show ?thesis
    by (cases "map_of (fst s) name")
      (simp_all add: Poll run_due_jobs_def r map_of_map_second job_starts_def started_job_def)
next
  case (Trigger t n p)
  then show ?thesis
    by (auto simp: trigger_job_def run_job_def job_starts_def started_job_def Let_def split: option.splits prod.splits)
qed

lemma job_starts_shape: "job_starts name ev d = [] \<or> (\<exists>b. job_starts name ev d = [(b, event_time ev)])"
  by (auto simp: job_starts_def split: option.splits cron_event.splits)

text \<open>Runs of a job with interval \<open>i\<close> are spaced when a scheduled one comes only after \<open>i\<close>.\<close>

definition spaced :: "rat \<Rightarrow> (bool \<times> rat) list \<Rightarrow> bool" where
  "spaced i runs \<longleftrightarrow> sorted_wrt (\<lambda>(_, s) (scheduled, t). s \<le> t \<and> (scheduled \<longrightarrow> s + i \<le> t)) runs"

lemma job_runs_after:
  assumes "map_of (fst s) name = Some job" "sorted (map event_time evs)"
    and "cj_last_run_at job = Some t0" "\<forall>e \<in> set evs. t0 \<le> event_time e" "0 \<le> cj_interval_seconds job"
    and "(b, t) \<in> set (job_runs isot fin name evs s)"
  shows "t0 \<le> t \<and> (b \<longrightarrow> t0 + of_int (cj_interval_seconds job) \<le> t)"
  using assms
proof (induction evs arbitrary: s job t0)
  case (Cons ev evs)
  let ?st = "job_starts name ev (fst s)"
  let ?job = "started_job ?st job"
  let ?t0 = "if ?st = [] then t0 else event_time ev"
  have t0: "t0 \<le> ?t0" using Cons.prems(4) by simp
  show ?case
  proof (cases "(b, t) \<in> set ?st")
    case True
    then show ?thesis using Cons.prems(1, 3, 4)
      by (auto simp: job_starts_def is_due_def split: cron_event.splits if_splits)
  next
    case False
    then have m: "(b, t) \<in> set (job_runs isot fin name evs (cron_step isot fin ev s))" using Cons.prems(6) by simp
    have l: "map_of (fst (cron_step isot fin ev s)) name = Some ?job"
      by (simp add: cron_step_lookup Cons.prems(1))
    have j: "cj_last_run_at ?job = Some ?t0" "cj_interval_seconds ?job = cj_interval_seconds job"
      using job_starts_shape [of name ev "fst s"] Cons.prems(3) by (auto simp: started_job_def)
    have "?t0 \<le> t \<and> (b \<longrightarrow> ?t0 + of_int (cj_interval_seconds ?job) \<le> t)"
      by (rule Cons.IH [OF l _ j(1) _ _ m]) (use Cons.prems(2, 4, 5) j(2) in auto)
    with t0 j(2) show ?thesis by auto
  qed
qed simp

lemma job_runs_spaced:
  assumes "map_of (fst s) name = Some job" "sorted (map event_time evs)" "0 \<le> cj_interval_seconds job"
  shows "spaced (of_int (cj_interval_seconds job)) (job_runs isot fin name evs s)"
  using assms
proof (induction evs arbitrary: s job)
  case (Cons ev evs)
  let ?st = "job_starts name ev (fst s)"
  let ?job = "started_job ?st job"
  have l: "map_of (fst (cron_step isot fin ev s)) name = Some ?job"
    by (simp add: cron_step_lookup Cons.prems(1))
  have j: "cj_interval_seconds ?job = cj_interval_seconds job"
    by (simp add: started_job_def split: list.splits)
  have ih: "spaced (of_int (cj_interval_seconds job)) (job_runs isot fin name evs (cron_step isot fin ev s))"
    using Cons.IH [OF l] Cons.prems(2, 3) j by simp
  consider "?st = []" | b where "?st = [(b, event_time ev)]" using job_starts_shape by blast
  then show ?case
  proof cases
    case 2
    have "cj_last_run_at ?job = Some (event_time ev)" by (simp add: started_job_def 2)
    from job_runs_after [OF l _ this] Cons.prems(2, 3) j
    have "event_time ev \<le> t \<and> (b' \<longrightarrow> event_time ev + of_int (cj_interval_seconds job) \<le> t)"
      if "(b', t) \<in> set (job_runs isot fin name evs (cron_step isot fin ev s))" for b' t
      using that by auto
    with ih show ?thesis by (auto simp: spaced_def 2)
  qed (use ih in simp)
qed (simp add: spaced_def)

text \<open>A poll leaves no enabled job whose interval has passed.\<close>

lemma poll_covers:
  assumes "map_of (fst s) name = Some job" "cj_enabled job" "sorted (map event_time evs)"
    and "Poll t \<in> set evs" "0 \<le> cj_interval_seconds job"
    and "\<forall>t0. cj_last_run_at job = Some t0 \<longrightarrow> (\<forall>e \<in> set evs. t0 \<le> event_time e)"
  shows "(\<exists>u \<in> snd ` set (job_runs isot fin name evs s) \<union> set_option (cj_last_run_at job).
           u \<le> t \<and> t - u < of_int (cj_interval_seconds job)) \<or>
         (True, t) \<in> set (job_runs isot fin name evs s)"
  using assms
proof (induction evs arbitrary: s job)
  case (Cons ev evs)
  let ?st = "job_starts name ev (fst s)"
  let ?job = "started_job ?st job"
  have l: "map_of (fst (cron_step isot fin ev s)) name = Some ?job"
    by (simp add: cron_step_lookup Cons.prems(1))
  have j: "cj_interval_seconds ?job = cj_interval_seconds job" "cj_enabled ?job = cj_enabled job"
    by (simp_all add: started_job_def split: list.splits)
  have last: "set_option (cj_last_run_at ?job) \<subseteq> snd ` set ?st \<union> set_option (cj_last_run_at job)"
    using job_starts_shape [of name ev "fst s"] by (auto simp: started_job_def)
  show ?case
  proof (cases "ev = Poll t")
    case True
    then show ?thesis
      using Cons.prems(1, 2, 6) by (auto simp: job_starts_def is_due_def split: option.splits)
  next
    case False
    have t: "Poll t \<in> set evs" using False Cons.prems(4) by simp
    have "\<forall>t0. cj_last_run_at ?job = Some t0 \<longrightarrow> (\<forall>e \<in> set evs. t0 \<le> event_time e)"
      using job_starts_shape [of name ev "fst s"] Cons.prems(3, 6) by (auto simp: started_job_def)
    from Cons.IH [OF l _ _ t _ this] Cons.prems(2, 3, 5) j
    have "(\<exists>u \<in> snd ` set (job_runs isot fin name evs (cron_step isot fin ev s)) \<union> set_option (cj_last_run_at ?job).
           u \<le> t \<and> t - u < of_int (cj_interval_seconds job)) \<or>
         (True, t) \<in> set (job_runs isot fin name evs (cron_step isot fin ev s))" by simp
    with last show ?thesis by auto
  qed
qed simp


text \<open>C21: Whatever polls and manual triggers reach a dispatcher, at times that never decrease, a
  scheduled run of a job starts at least its interval after every earlier run, and every
  poll either runs an enabled job or finds a run of it younger than the interval.\<close>

theorem scheduled_runs_spaced:
  assumes "map_of d name = Some job" "cj_enabled job" "cj_last_run_at job = None" "0 \<le> cj_interval_seconds job"
    and "sorted (map event_time evs)" "runs = job_runs isot fin name evs (d, w)"
  shows "sorted_wrt (\<lambda>(_, s) (scheduled, t). scheduled \<longrightarrow> s + of_int (cj_interval_seconds job) \<le> t) runs \<and>
    (\<forall>t. Poll t \<in> set evs \<longrightarrow>
       (\<exists>(_, s) \<in> set runs. s = t \<or> s \<le> t \<and> t - s < of_int (cj_interval_seconds job)))"
proof -
  have "spaced (of_int (cj_interval_seconds job)) runs"
    using job_runs_spaced [of "(d, w)" name job evs] assms by simp
  then have "sorted_wrt (\<lambda>(_, s) (scheduled, t). scheduled \<longrightarrow> s + of_int (cj_interval_seconds job) \<le> t) runs"
    unfolding spaced_def by (rule sorted_wrt_mono_rel [rotated]) auto
  moreover have "\<exists>(_, s) \<in> set runs. s = t \<or> s \<le> t \<and> t - s < of_int (cj_interval_seconds job)"
    if "Poll t \<in> set evs" for t
    using poll_covers [of "(d, w)" name job evs t] assms that by force
  ultimately show ?thesis by blast
qed

definition idle_handler :: "unit job_handler" where
  "idle_handler p w = (Inr (PDict p), w)"

definition sample_job :: "unit cron_job" where
  "sample_job = \<lparr>cj_name = ''scan'', cj_interval_seconds = 60, cj_handler = idle_handler, cj_enabled = True,
     cj_default_payload = [], cj_last_run_at = None\<rparr>"

theorem scheduled_runs_spaced_witness:
  "\<exists>s. s \<le> 100 \<and> 100 - s < 60 \<and>
     (False, s) \<in> set (job_runs (\<lambda>_. []) (\<lambda>_. 0) ''scan'' [Poll 0, Trigger 50 ''scan'' [], Poll 100] ([(''scan'', sample_job)], ()))"
proof -
  let ?evs = "[Poll 0, Trigger 50 ''scan'' [], Poll 100]"
  let ?runs = "job_runs (\<lambda>_. []) (\<lambda>_. 0) ''scan'' ?evs ([(''scan'', sample_job)], ())"
  have "?runs = [(True, 0), (False, 50)]"
    by (simp add: job_starts_def is_due_def sample_job_def run_due_jobs_def trigger_job_def run_job_def
        idle_handler_def Let_def)
  moreover have "sorted_wrt (\<lambda>(_, s) (scheduled, t). scheduled \<longrightarrow> s + of_int (cj_interval_seconds sample_job) \<le> t) ?runs \<and>
    (\<forall>t. Poll t \<in> set ?evs \<longrightarrow>
       (\<exists>(_, s) \<in> set ?runs. s = t \<or> s \<le> t \<and> t - s < of_int (cj_interval_seconds sample_job)))"
    by (rule scheduled_runs_spaced) (simp_all add: sample_job_def)
  then have "\<exists>(_, s) \<in> set ?runs. s = 100 \<or> s \<le> 100 \<and> 100 - s < of_int (cj_interval_seconds sample_job)"
    by (elim conjE allE [of _ 100]) simp
  ultimately show ?thesis by (auto simp: sample_job_def)
qed

subsection \<open>Publishing what a job has found\<close>

text \<open>\<open>trigger_pipeline\<close>: pipeline, inputs, source, idempotency key.\<close>

type_synonym 'w trigger_pipeline = "string \<Rightarrow> dict \<Rightarrow> string \<Rightarrow> string \<Rightarrow> 'w \<Rightarrow> (exn + dict) \<times> 'w"

record hash_env =
  he_sha256 :: "string \<Rightarrow> string"
  he_fstr :: "rat \<Rightarrow> string"

definition trigger_inputs :: "dict \<Rightarrow> dict" where
  "trigger_inputs trigger = (case dget trigger ''inputs'' of PDict d \<Rightarrow> d | _ \<Rightarrow> [])"

definition trigger_key :: "hash_env \<Rightarrow> string \<Rightarrow> nat \<Rightarrow> string \<Rightarrow> dict \<Rightarrow> string" where
  "trigger_key h job_name index pipeline_name trigger =
     (let fallback = build_idempotency_key (he_sha256 h) (he_fstr h)
            (''cron:'' @ job_name @ '':'' @ nat_str index) pipeline_name (trigger_inputs trigger)
      in case dget trigger ''idempotency_key'' of
           PStr k \<Rightarrow> if py_strip k = [] then fallback else py_strip k
         | _ \<Rightarrow> fallback)"

fun publish_loop ::
  "hash_env \<Rightarrow> 'w trigger_pipeline \<Rightarrow> string \<Rightarrow> nat \<Rightarrow> dict list \<Rightarrow> 'w \<Rightarrow> (exn + pyval list) \<times> 'w" where
  "publish_loop h trigger_pipeline job_name index [] w = (Inr [], w)"
| "publish_loop h trigger_pipeline job_name index (trigger # triggers) w =
     (let pipeline_name = py_strip (py_str (he_fstr h) (dget_or trigger ''pipeline_name'' (PStr []))) in
      if pipeline_name = [] then publish_loop h trigger_pipeline job_name (Suc index) triggers w
      else
        (let key = trigger_key h job_name index pipeline_name trigger in
         case trigger_pipeline pipeline_name (trigger_inputs trigger) (''cron:'' @ job_name) key w of
           (Inl e, w1) \<Rightarrow> (Inl e, w1)
         | (Inr response, w1) \<Rightarrow>
             (case publish_loop h trigger_pipeline job_name (Suc index) triggers w1 of
                (Inl e, w2) \<Rightarrow> (Inl e, w2)
              | (Inr ps, w2) \<Rightarrow>
                  (Inr (PDict [(''pipeline_name'', PStr pipeline_name), (''idempotency_key'', PStr key),
                               (''response'', PDict response)] # ps), w2))))"

definition publish_triggers ::
  "hash_env \<Rightarrow> 'w trigger_pipeline \<Rightarrow> string \<Rightarrow> dict list \<Rightarrow> 'w \<Rightarrow> (exn + pyval list) \<times> 'w" where
  "publish_triggers h tp job_name triggers = publish_loop h tp job_name 0 triggers"

definition result_triggers :: "dict \<Rightarrow> dict list" where
  "result_triggers result =
     (case dget_or result ''triggers'' (PList []) of
        PList xs \<Rightarrow> concat (map (\<lambda>x. case x of PDict d \<Rightarrow> [d] | _ \<Rightarrow> []) xs)
      | _ \<Rightarrow> [])"

definition build_job_handler ::
  "hash_env \<Rightarrow> 'w trigger_pipeline \<Rightarrow> string \<Rightarrow> (dict \<Rightarrow> 'w \<Rightarrow> (exn + dict) \<times> 'w) \<Rightarrow> 'w job_handler" where
  "build_job_handler h tp job_name run payload w =
     (case run payload w of
        (Inl e, w1) \<Rightarrow> (Inl e, w1)
      | (Inr result, w1) \<Rightarrow>
          (case publish_triggers h tp job_name (result_triggers result) w1 of
             (Inl e, w2) \<Rightarrow> (Inl e, w2)
           | (Inr published, w2) \<Rightarrow>
               (Inr (PDict (dset ''published_count'' (PInt (int (length published)))
                  (dset ''published_triggers'' (PList published) result))), w2)))"

end
