(* ===== verification/ScanJobs.thy ===== *)
theory ScanJobs
  imports Schedule "HOL-Library.Sublist"
begin

text \<open>
  The jobs of \<open>scheduler/jobs\<close> that decide which pipelines to trigger:
  \<open>issue_scanner.py\<close>, \<open>ci_monitor.py\<close> and \<open>dependency_checker.py\<close>. The sets of processed
  identifiers are lists of the numbers in them without duplicates.
\<close>

subsection \<open>Values as the jobs read them\<close>

text \<open>Iterating over a value: the elements of a list, the characters of a text, the keys of a
  dictionary.\<close>

fun py_iter :: "pyval \<Rightarrow> exn + pyval list" where
  "py_iter (PList xs) = Inr xs"
| "py_iter (PStr s) = Inr (map (\<lambda>c. PStr [c]) s)"
| "py_iter (PDict d) = Inr (map (\<lambda>p. PStr (fst p)) d)"
| "py_iter v = Inl (TypeError (repr_string (type_name v) @ '' object is not iterable''))"

text \<open>\<open>set(v)\<close>: lists and dictionaries cannot be elements.\<close>

definition py_set :: "pyval \<Rightarrow> exn + pyval list" where
  "py_set v = bindE (py_iter v) (mapE (\<lambda>x. if is_list x \<or> is_dict x
     then Inl (TypeError (''unhashable type: '' @ repr_string (type_name x))) else Inr x))"

text \<open>\<open>isinstance(v, int)\<close>, which a \<open>bool\<close> satisfies too.\<close>

fun as_int :: "pyval \<Rightarrow> int option" where
  "as_int (PInt i) = Some i"
| "as_int (PBool b) = Some (if b then 1 else 0)"
| "as_int _ = None"

definition as_list :: "pyval \<Rightarrow> pyval list" where
  "as_list v = (case v of PList xs \<Rightarrow> xs | _ \<Rightarrow> [])"

subsection \<open>The issue scanner\<close>

definition label_names :: "(rat \<Rightarrow> string) \<Rightarrow> pyval \<Rightarrow> exn + string list" where
  "label_names fstr labels = bindE (py_iter labels) (\<lambda>items. Inr (concat (map (\<lambda>item.
     case item of PDict d \<Rightarrow> if truthy (dget d ''name'') then [py_strip (py_str fstr (dget d ''name''))] else []
                | _ \<Rightarrow> []) items)))"

definition issue_trigger :: "(rat \<Rightarrow> string) \<Rightarrow> dict \<Rightarrow> dict" where
  "issue_trigger fstr issue =
     [(''pipeline_name'', PStr ''issue_scanner_pipeline''), (''inputs'', PDict [(''issue'', PDict issue)]),
      (''idempotency_key'', PStr (''issue_scanner:'' @ py_str fstr (dget issue ''id'')))]"

text \<open>The body of the loop over the issues: the trigger, if there is one, and the identifiers
  processed so far.\<close>

definition scan_issue ::
  "(rat \<Rightarrow> string) \<Rightarrow> pyval list \<Rightarrow> pyval \<Rightarrow> int list \<Rightarrow> exn + (dict option \<times> int list)" where
  "scan_issue fstr labels_filter issue processed =
     (case issue of
        PDict d \<Rightarrow>
          (case as_int (dget d ''id'') of
             None \<Rightarrow> Inr (None, processed)
           | Some i \<Rightarrow>
               if i \<in> set processed then Inr (None, processed)
               else bindE (label_names fstr (dget_or d ''labels'' (PList []))) (\<lambda>names.
                 if labels_filter \<noteq> [] \<and> list_all (\<lambda>n. PStr n \<notin> set labels_filter) names
                 then Inr (None, processed)
                 else Inr (Some (issue_trigger fstr d), i # processed)))
      | _ \<Rightarrow> Inr (None, processed))"

text \<open>The loop: an exception leaves it with the identifiers added so far.\<close>

fun scan_loop ::
  "('x \<Rightarrow> int list \<Rightarrow> exn + (dict option \<times> int list)) \<Rightarrow> 'x list \<Rightarrow> int list \<Rightarrow> (exn + dict list) \<times> int list" where
  "scan_loop body [] processed = (Inr [], processed)"
| "scan_loop body (x # xs) processed =
     (case body x processed of
        Inl e \<Rightarrow> (Inl e, processed)
      | Inr (t, p1) \<Rightarrow>
          (case scan_loop body xs p1 of
             (Inl e, p2) \<Rightarrow> (Inl e, p2)
           | (Inr ts, p2) \<Rightarrow> (Inr ((case t of None \<Rightarrow> [] | Some d \<Rightarrow> [d]) @ ts), p2)))"

definition default_labels :: pyval where
  "default_labels = PList [PStr ''agent:opened'', PStr ''agent:planning'', PStr ''agent:ready'', PStr ''agent:fixed'']"

definition issue_scanner_run :: "(rat \<Rightarrow> string) \<Rightarrow> dict \<Rightarrow> int list \<Rightarrow> (exn + dict) \<times> int list" where
  "issue_scanner_run fstr payload processed =
     (case py_set (dget_or payload ''labels'' default_labels) of
        Inl e \<Rightarrow> (Inl e, processed)
      | Inr labels_filter \<Rightarrow>
          (let issues = as_list (dget_or payload ''issues'' (PList [])) in
           case scan_loop (scan_issue fstr labels_filter) issues processed of
             (Inl e, p) \<Rightarrow> (Inl e, p)
           | (Inr triggers, p) \<Rightarrow>
               (Inr [(''status'', PStr ''SUCCESS''), (''scanned'', PInt (int (length issues))),
                     (''trigger_count'', PInt (int (length triggers))),
                     (''triggers'', PList (map PDict triggers))], p)))"

subsection \<open>The CI monitor\<close>

definition ci_failed :: "(rat \<Rightarrow> string) \<Rightarrow> dict \<Rightarrow> bool" where
  "ci_failed fstr run =
     (py_lower (py_str fstr (dget_or run ''conclusion'' (PStr []))) \<in> {''failure'', ''cancelled'', ''timed_out''} \<or>
      py_lower (py_str fstr (dget_or run ''status'' (PStr []))) \<in> {''failed'', ''failure''})"

definition ci_trigger :: "(rat \<Rightarrow> string) \<Rightarrow> pyval \<Rightarrow> dict \<Rightarrow> dict" where
  "ci_trigger fstr repository run =
     [(''pipeline_name'', PStr ''ci_scanner_pipeline''),
      (''inputs'', PDict [(''repository'', if is_dict repository then repository else PDict []), (''ci_run'', PDict run)]),
      (''idempotency_key'', PStr (''ci_monitor:'' @ py_str fstr (dget run ''id'')))]"

definition monitor_run :: "(rat \<Rightarrow> string) \<Rightarrow> pyval \<Rightarrow> pyval \<Rightarrow> int list \<Rightarrow> exn + (dict option \<times> int list)" where
  "monitor_run fstr repository run processed =
     (case run of
        PDict d \<Rightarrow>
          (case as_int (dget d ''id'') of
             None \<Rightarrow> Inr (None, processed)
           | Some i \<Rightarrow>
               if i \<in> set processed \<or> \<not> ci_failed fstr d then Inr (None, processed)
               else Inr (Some (ci_trigger fstr repository d), i # processed))
      | _ \<Rightarrow> Inr (None, processed))"

definition ci_monitor_run :: "(rat \<Rightarrow> string) \<Rightarrow> dict \<Rightarrow> int list \<Rightarrow> (exn + dict) \<times> int list" where
  "ci_monitor_run fstr payload processed =
     (let runs = as_list (dget_or payload ''workflow_runs'' (PList []));
          repository = dget_or payload ''repository'' (PDict []) in
      case scan_loop (monitor_run fstr repository) runs processed of
        (Inl e, p) \<Rightarrow> (Inl e, p)
      | (Inr triggers, p) \<Rightarrow>
          (Inr [(''status'', PStr ''SUCCESS''), (''observed'', PInt (int (length runs))),
                (''trigger_count'', PInt (int (length triggers))),
                (''processed_run_ids'', PList (map PInt (sort p))),
                (''triggers'', PList (map PDict triggers))], p))"

subsection \<open>The dependency checker\<close>

definition version_to_tuple :: "string \<Rightarrow> nat list" where
  "version_to_tuple v =
     (let parts = filter (\<lambda>w. w \<noteq> []) (split_on CHR ''.'' (map (\<lambda>c. if c = CHR ''-'' then CHR ''.'' else c) v));
          parsed = map (\<lambda>w. digits_value (filter is_digit w)) parts
      in if parsed = [] then [0] else parsed)"

definition risk_score :: "string \<Rightarrow> int" where
  "risk_score severity = (if severity = ''critical'' then 3 else if severity = ''high'' then 2 else 1)"

definition check_dependency :: "(rat \<Rightarrow> string) \<Rightarrow> bool \<Rightarrow> pyval \<Rightarrow> dict option" where
  "check_dependency fstr critical_only dep =
     (case dep of
        PDict d \<Rightarrow>
          (let name = py_strip (py_str fstr (dget_or d ''name'' (PStr [])));
               current = py_strip (py_str fstr (dget_or d ''current_version'' (PStr [])));
               latest = py_strip (py_str fstr (dget_or d ''latest_version'' (PStr [])));
               severity = py_lower (py_str fstr (dget_or d ''severity'' (PStr ''medium'')))
           in if name = [] \<or> current = [] \<or> latest = [] then None
              else if version_to_tuple latest \<le> version_to_tuple current then None
              else if critical_only \<and> severity \<notin> {''critical'', ''high''} then None
              else Some [(''name'', PStr name), (''current_version'', PStr current),
                (''latest_version'', PStr latest), (''severity'', PStr severity), (''risk_score'', PInt (risk_score severity))])
      | _ \<Rightarrow> None)"

definition dependency_trigger :: "dict \<Rightarrow> dict" where
  "dependency_trigger finding =
     [(''pipeline_name'', PStr ''dependency_check_pipeline''), (''inputs'', PDict [(''dependency'', PDict finding)]),
      (''idempotency_key'', PStr (''dependency_checker:'' @ py_str (\<lambda>_. []) (dget finding ''name'') @ '':''
         @ py_str (\<lambda>_. []) (dget finding ''latest_version'')))]"

definition dependency_checker_run :: "(rat \<Rightarrow> string) \<Rightarrow> dict \<Rightarrow> dict" where
  "dependency_checker_run fstr payload =
     (let deps = as_list (dget_or payload ''dependencies'' (PList []));
          critical_only = truthy (dget_or payload ''critical_only'' (PBool False));
          findings = concat (map (\<lambda>dep. case check_dependency fstr critical_only dep of None \<Rightarrow> [] | Some f \<Rightarrow> [f]) deps)
      in [(''status'', PStr ''SUCCESS''), (''checked'', PInt (int (length deps))),
          (''findings_count'', PInt (int (length findings))), (''findings'', PList (map PDict findings)),
          (''triggers'', PList (map (\<lambda>f. PDict (dependency_trigger f)) findings))])"

subsection \<open>Jobs that process an item once\<close>

text \<open>What the loop of a job relies on: an item is only triggered when its identifier is new,
  which is then recorded; nothing else is recorded.\<close>

locale once_job =
  fixes body :: "'x \<Rightarrow> int list \<Rightarrow> exn + (dict option \<times> int list)"
    and item_id :: "'x \<Rightarrow> int option"
    and trigger_of :: "'x \<Rightarrow> dict"
  assumes skipped: "body x p = Inr (None, p') \<Longrightarrow> p' = p"
    and triggered: "body x p = Inr (Some t, p') \<Longrightarrow>
      \<exists>i. item_id x = Some i \<and> i \<notin> set p \<and> p' = i # p \<and> t = trigger_of x"
    and settled: "body x p = Inr (t', p') \<Longrightarrow> set p' \<subseteq> set q \<Longrightarrow> body x q = Inr (None, q)"
begin

definition ids :: "'x list \<Rightarrow> int list" where
  "ids = map (\<lambda>x. the (item_id x))"

lemma ids_simps [simp]: "ids [] = []" "ids (x # xs) = the (item_id x) # ids xs"
  by (simp_all add: ids_def)

lemma loop_triggers:
  assumes "scan_loop body xs p = (r, p')"
  shows "\<exists>ys. subseq ys xs \<and> p' = rev (ids ys) @ p \<and>
    distinct (ids ys) \<and> set (ids ys) \<inter> set p = {} \<and>
    (\<forall>y \<in> set ys. item_id y \<noteq> None) \<and> (\<forall>ts. r = Inr ts \<longrightarrow> ts = map trigger_of ys)"
  using assms
proof (induction xs arbitrary: p r)
  case (Cons x xs)
  show ?case
  proof (cases "body x p")
    case (Inl e)
    with Cons.prems show ?thesis by (intro exI [of _ "[]"]) auto
  next
    case (Inr q)
    obtain t p1 where q: "q = (t, p1)" by (cases q)
    obtain r1 where r1: "scan_loop body xs p1 = (r1, p')"
      using Cons.prems Inr q by (auto split: prod.splits sum.splits)
    from Cons.IH [OF r1] obtain ys where ys: "subseq ys xs" "p' = rev (ids ys) @ p1"
      "distinct (ids ys)" "set (ids ys) \<inter> set p1 = {}"
      "\<forall>y \<in> set ys. item_id y \<noteq> None" "\<forall>ts. r1 = Inr ts \<longrightarrow> ts = map trigger_of ys" by blast
    show ?thesis
    proof (cases t)
      case None
      then have "p1 = p" using skipped Inr q by blast
      with ys Cons.prems Inr q None r1 show ?thesis
        by (intro exI [of _ ys]) (auto split: sum.splits)
    next
      case (Some d)
      then obtain i where i: "item_id x = Some i" "i \<notin> set p" "p1 = i # p" "d = trigger_of x"
        using triggered Inr q by blast
      with ys Cons.prems Inr q Some r1 show ?thesis
        by (intro exI [of _ "x # ys"]) (auto split: sum.splits)
    qed
  qed
qed auto

text \<open>A loop that has come to its end triggers nothing when it is run again.\<close>

lemma loop_again:
  "scan_loop body xs p = (Inr ts, p') \<Longrightarrow> set p' \<subseteq> set q \<Longrightarrow> scan_loop body xs q = (Inr [], q)"
proof (induction xs arbitrary: p ts)
  case (Cons x xs)
  then obtain t p1 ts' where b: "body x p = Inr (t, p1)" and l: "scan_loop body xs p1 = (Inr ts', p')"
    by (auto split: sum.splits prod.splits)
  have "set p1 \<subseteq> set p'" using loop_triggers [OF l] by auto
  then have "body x q = Inr (None, q)" using settled [OF b] Cons.prems(2) by blast
  with Cons.IH [OF l Cons.prems(2)] show ?case by simp
qed simp

lemma loop_new:
  assumes "scan_loop body xs p = (r, p')"
  shows "set p \<subseteq> set p' \<and> (\<forall>ts. r = Inr ts \<longrightarrow> (\<exists>ys. ts = map trigger_of ys \<and> distinct (ids ys) \<and>
    set (ids ys) \<inter> set p = {} \<and> set (ids ys) \<subseteq> set p' \<and> (\<forall>y \<in> set ys. item_id y \<noteq> None)))"
proof -
  from loop_triggers [OF assms] obtain ys where ys: "p' = rev (ids ys) @ p"
    "distinct (ids ys)" "set (ids ys) \<inter> set p = {}" "\<forall>y \<in> set ys. item_id y \<noteq> None"
    "\<forall>ts. r = Inr ts \<longrightarrow> ts = map trigger_of ys" by blast
  then show ?thesis by (intro conjI allI impI exI [of _ ys]) auto
qed

end

definition issue_id :: "pyval \<Rightarrow> int option" where
  "issue_id x = (case x of PDict d \<Rightarrow> as_int (dget d ''id'') | _ \<Rightarrow> None)"

definition dict_of :: "pyval \<Rightarrow> dict" where
  "dict_of x = (case x of PDict d \<Rightarrow> d | _ \<Rightarrow> [])"

lemma scan_issue_cases:
  assumes "scan_issue fstr labels x p = Inr (t, p')"
  shows "(t = None \<and> p' = p) \<or>
    (\<exists>i. issue_id x = Some i \<and> i \<notin> set p \<and> p' = i # p \<and> t = Some (issue_trigger fstr (dict_of x)))"
  using assms by (auto simp: scan_issue_def issue_id_def dict_of_def returns_iff split: pyval.splits option.splits if_splits)

lemma scan_issue_known: "issue_id x = Some i \<Longrightarrow> i \<in> set q \<Longrightarrow> scan_issue fstr labels x q = Inr (None, q)"
  by (auto simp: scan_issue_def issue_id_def split: pyval.splits option.splits)

lemma scan_issue_skips:
  "scan_issue fstr labels x p = Inr (None, p') \<Longrightarrow> set p \<subseteq> set q \<Longrightarrow> scan_issue fstr labels x q = Inr (None, q)"
  by (auto simp: scan_issue_def returns_iff split: pyval.splits option.splits if_splits)

interpretation scanner: once_job "scan_issue fstr labels" issue_id "\<lambda>x. issue_trigger fstr (dict_of x)" for fstr labels
proof
  fix x p p' q t t'
  show "scan_issue fstr labels x p = Inr (None, p') \<Longrightarrow> p' = p"
    by (auto dest: scan_issue_cases)
  show "scan_issue fstr labels x p = Inr (Some t, p') \<Longrightarrow>
      \<exists>i. issue_id x = Some i \<and> i \<notin> set p \<and> p' = i # p \<and> t = issue_trigger fstr (dict_of x)"
    by (auto dest: scan_issue_cases)
  show "scan_issue fstr labels x q = Inr (None, q)"
    if b: "scan_issue fstr labels x p = Inr (t', p')" and s: "set p' \<subseteq> set q"
    using scan_issue_cases [OF b] b s scan_issue_skips [of fstr labels x p p' q] scan_issue_known by auto
qed

interpretation monitor: once_job "monitor_run fstr repository" issue_id "\<lambda>x. ci_trigger fstr repository (dict_of x)" for fstr repository
  by unfold_locales
    (auto simp: monitor_run_def issue_id_def dict_of_def split: pyval.splits option.splits if_splits)

subsection \<open>The jobs in the dispatcher\<close>

text \<open>The world of a job that scans: its memory and the world of the pipelines.\<close>

definition job_on ::
  "(dict \<Rightarrow> int list \<Rightarrow> (exn + dict) \<times> int list) \<Rightarrow> dict \<Rightarrow> int list \<times> 'v \<Rightarrow> (exn + dict) \<times> int list \<times> 'v" where
  "job_on run payload = (\<lambda>(p, v). let (r, p') = run payload p in (r, (p', v)))"

definition trigger_on :: "'v trigger_pipeline \<Rightarrow> (int list \<times> 'v) trigger_pipeline" where
  "trigger_on tp name inputs source key = (\<lambda>(p, v). let (r, v') = tp name inputs source key v in (r, (p, v')))"

lemma trigger_on_fst: "fst (snd (trigger_on tp name inputs source key w)) = fst w"
  by (simp add: trigger_on_def split: prod.splits)

lemma trigger_on_memory: "fst (snd (publish_loop h (trigger_on tp) job n ts w)) = fst w"
proof (induction ts arbitrary: n w)
  case (Cons t ts)
  let ?name = "py_strip (py_str (he_fstr h) (dget_or t ''pipeline_name'' (PStr [])))"
  let ?key = "trigger_key h job n ?name t"
  obtain x w1 where tr: "trigger_on tp ?name (trigger_inputs t) (''cron:'' @ job) ?key w = (x, w1)" using prod.exhaust by blast
  obtain y w2 where pl: "publish_loop h (trigger_on tp) job (Suc n) ts w1 = (y, w2)" using prod.exhaust by blast
  have "fst w1 = fst w" using trigger_on_fst [of tp ?name "trigger_inputs t" "''cron:'' @ job" ?key w] tr by simp
  moreover have "fst w2 = fst w1" using Cons.IH [of "Suc n" w1] pl by simp
  ultimately show ?case using tr pl Cons.IH [of "Suc n" w]
    by (cases x; cases y) (simp_all add: Let_def)
qed simp

lemma scanner_again:
  assumes "issue_scanner_run fstr payload p = (Inr result, p')"
  shows "\<exists>n. issue_scanner_run fstr payload p' =
    (Inr [(''status'', PStr ''SUCCESS''), (''scanned'', n), (''trigger_count'', PInt 0), (''triggers'', PList [])], p')"
proof -
  obtain labels where l: "py_set (dget_or payload ''labels'' default_labels) = Inr labels"
    using assms by (auto simp: issue_scanner_run_def split: sum.splits)
  obtain ts where "scan_loop (scan_issue fstr labels) (as_list (dget_or payload ''issues'' (PList []))) p = (Inr ts, p')"
    using assms l by (auto simp: issue_scanner_run_def Let_def split: sum.splits prod.splits)
  from scanner.loop_again [OF this order_refl] l show ?thesis by (simp add: issue_scanner_run_def)
qed

text \<open>The issue scanner marks issues as processed before their pipelines are triggered: when a
  trigger fails, the job fails, and its next run over the same issues triggers nothing,
  so the remaining pipelines are never started.\<close>

theorem failed_trigger_loses_issues:
  assumes "issue_scanner_run fstr payload p = (Inr result, p1)"
    and "build_job_handler h (trigger_on tp) ''issue_scanner'' (job_on (issue_scanner_run fstr)) payload (p, v) = (Inl e, w)"
  shows "\<exists>r. build_job_handler h (trigger_on tp) ''issue_scanner'' (job_on (issue_scanner_run fstr)) payload w = (Inr (PDict r), w) \<and>
    dget r ''published_count'' = PInt 0 \<and> dget r ''status'' = PStr ''SUCCESS''"
proof -
  obtain w2 where "publish_triggers h (trigger_on tp) ''issue_scanner'' (result_triggers result) (p1, v) = (Inl e, w)"
    using assms by (auto simp: build_job_handler_def job_on_def split: prod.splits sum.splits)
  then have "fst w = p1"
    using trigger_on_memory [of h tp "''issue_scanner''" 0 "result_triggers result" "(p1, v)"]
    by (simp add: publish_triggers_def)
  moreover obtain n where "issue_scanner_run fstr payload p1 =
      (Inr [(''status'', PStr ''SUCCESS''), (''scanned'', n), (''trigger_count'', PInt 0), (''triggers'', PList [])], p1)"
    using scanner_again [OF assms(1)] by blast
  ultimately show ?thesis
    by (cases w) (simp add: build_job_handler_def job_on_def result_triggers_def dget_or_def publish_triggers_def dget_def)
qed

definition two_issues :: dict where
  "two_issues = [(''labels'', PList []), (''issues'', PList [PDict [(''id'', PInt 1)], PDict [(''id'', PInt 2)]])]"

definition refuse :: "unit trigger_pipeline" where
  "refuse name inputs source key v = (Inl (RuntimeError ''gateway down''), v)"

theorem failed_trigger_loses_issues_witness:
  "\<exists>r. build_job_handler \<lparr>he_sha256 = id, he_fstr = (\<lambda>_. [])\<rparr> (trigger_on refuse) ''issue_scanner''
       (job_on (issue_scanner_run (\<lambda>_. []))) two_issues ([2, 1], ()) = (Inr (PDict r), ([2, 1], ())) \<and>
     dget r ''published_count'' = PInt 0 \<and> dget r ''status'' = PStr ''SUCCESS''"
proof (rule failed_trigger_loses_issues)
  let ?t = "\<lambda>i. issue_trigger (\<lambda>_. []) [(''id'', PInt i)]"
  show r: "issue_scanner_run (\<lambda>_. []) two_issues [] =
      (Inr [(''status'', PStr ''SUCCESS''), (''scanned'', PInt 2), (''trigger_count'', PInt 2),
        (''triggers'', PList [PDict (?t 1), PDict (?t 2)])], [2, 1])"
    by (simp add: issue_scanner_run_def two_issues_def py_set_def as_list_def scan_issue_def label_names_def dget_def dget_or_def)
  show "build_job_handler \<lparr>he_sha256 = id, he_fstr = (\<lambda>_. [])\<rparr> (trigger_on refuse) ''issue_scanner''
      (job_on (issue_scanner_run (\<lambda>_. []))) two_issues ([], ()) = (Inl (RuntimeError ''gateway down''), ([2, 1], ()))"
    by (simp add: build_job_handler_def job_on_def r publish_triggers_def result_triggers_def dget_or_def
        issue_trigger_def trigger_on_def refuse_def Let_def py_str_def py_strip_def py_lstrip_def py_isspace_def)
qed

text \<open>The identifiers a run of a job triggers, read off its triggers' inputs.\<close>

definition triggered_ids :: "string \<Rightarrow> exn + dict \<Rightarrow> int list" where
  "triggered_ids field r =
     (case r of
        Inl e \<Rightarrow> []
      | Inr result \<Rightarrow> map (\<lambda>t. the (issue_id (dget (trigger_inputs t) field))) (result_triggers result))"

fun history ::
  "string \<Rightarrow> (dict \<Rightarrow> int list \<Rightarrow> (exn + dict) \<times> int list) \<Rightarrow> dict list \<Rightarrow> int list \<Rightarrow> int list" where
  "history field run [] p = []"
| "history field run (payload # payloads) p =
     (let (r, p') = run payload p in triggered_ids field r @ history field run payloads p')"

definition new_only :: "string \<Rightarrow> (dict \<Rightarrow> int list \<Rightarrow> (exn + dict) \<times> int list) \<Rightarrow> bool" where
  "new_only field run \<longleftrightarrow> (\<forall>payload p r p'. run payload p = (r, p') \<longrightarrow>
     set p \<subseteq> set p' \<and> distinct (triggered_ids field r) \<and> set (triggered_ids field r) \<inter> set p = {} \<and>
     set (triggered_ids field r) \<subseteq> set p')"

lemma new_onlyD:
  assumes "new_only field run" "run payload p = (r, p')"
  shows "set p \<subseteq> set p'" "distinct (triggered_ids field r)" "set (triggered_ids field r) \<inter> set p = {}"
    "set (triggered_ids field r) \<subseteq> set p'"
  using assms unfolding new_only_def by blast+

lemma history_distinct:
  assumes "new_only field run"
  shows "distinct (history field run payloads p) \<and> set (history field run payloads p) \<inter> set p = {}"
proof (induction payloads arbitrary: p)
  case (Cons payload payloads)
  obtain r p' where r: "run payload p = (r, p')" by fastforce
  show ?case using Cons.IH [of p'] new_onlyD [OF assms r] by (auto simp: r)
qed simp

lemma issue_trigger_id: "dget (trigger_inputs (issue_trigger fstr d)) ''issue'' = PDict d"
  by (simp add: issue_trigger_def trigger_inputs_def dget_def)

lemma ci_trigger_id: "dget (trigger_inputs (ci_trigger fstr repository d)) ''ci_run'' = PDict d"
  by (simp add: ci_trigger_def trigger_inputs_def dget_def)

lemma dict_of_id: "issue_id y \<noteq> None \<Longrightarrow> PDict (dict_of y) = y"
  by (cases y) (simp_all add: issue_id_def dict_of_def)

lemma scanner_new_only: "new_only ''issue'' (issue_scanner_run fstr)"
  unfolding new_only_def
proof (intro allI impI)
  fix payload p r p'
  assume run: "issue_scanner_run fstr payload p = (r, p')"
  show "set p \<subseteq> set p' \<and> distinct (triggered_ids ''issue'' r) \<and> set (triggered_ids ''issue'' r) \<inter> set p = {} \<and>
     set (triggered_ids ''issue'' r) \<subseteq> set p'"
  proof (cases "py_set (dget_or payload ''labels'' default_labels)")
    case (Inr labels)
    obtain q where l: "scan_loop (scan_issue fstr labels) (as_list (dget_or payload ''issues'' (PList []))) p = (q, p')"
      using run Inr by (auto simp: issue_scanner_run_def Let_def split: sum.splits prod.splits)
    note new = scanner.loop_new [OF l]
    show ?thesis
    proof (cases q)
      case (Inl e)
      with new run Inr l show ?thesis by (auto simp: issue_scanner_run_def triggered_ids_def)
    next
      case (Inr ts)
      with new obtain ys where ys: "ts = map (\<lambda>x. issue_trigger fstr (dict_of x)) ys" "distinct (scanner.ids ys)"
        "set (scanner.ids ys) \<inter> set p = {}" "set (scanner.ids ys) \<subseteq> set p'" "\<forall>y \<in> set ys. issue_id y \<noteq> None" by blast
      have "r = Inr [(''status'', PStr ''SUCCESS''), (''scanned'', PInt (int (length (as_list (dget_or payload ''issues'' (PList [])))))),
          (''trigger_count'', PInt (int (length ts))), (''triggers'', PList (map PDict ts))]"
        using run l Inr \<open>py_set _ = Inr labels\<close> by (simp add: issue_scanner_run_def)
      then have "triggered_ids ''issue'' r = scanner.ids ys"
        using ys(1, 5) by (auto simp: triggered_ids_def result_triggers_def dget_or_def comp_def issue_trigger_id
            dict_of_id scanner.ids_def)
      with ys new show ?thesis by simp
    qed
  qed (use run in \<open>auto simp: issue_scanner_run_def triggered_ids_def\<close>)
qed

lemma monitor_new_only: "new_only ''ci_run'' (ci_monitor_run fstr)"
  unfolding new_only_def
proof (intro allI impI)
  fix payload p r p'
  assume run: "ci_monitor_run fstr payload p = (r, p')"
  let ?repo = "dget_or payload ''repository'' (PDict [])"
  obtain q where l: "scan_loop (monitor_run fstr ?repo) (as_list (dget_or payload ''workflow_runs'' (PList []))) p = (q, p')"
    using run by (auto simp: ci_monitor_run_def Let_def split: sum.splits prod.splits)
  note new = monitor.loop_new [OF l]
  show "set p \<subseteq> set p' \<and> distinct (triggered_ids ''ci_run'' r) \<and> set (triggered_ids ''ci_run'' r) \<inter> set p = {} \<and>
     set (triggered_ids ''ci_run'' r) \<subseteq> set p'"
  proof (cases q)
    case (Inl e)
    with new run l show ?thesis by (auto simp: ci_monitor_run_def Let_def triggered_ids_def)
  next
    case (Inr ts)
    with new obtain ys where ys: "ts = map (\<lambda>x. ci_trigger fstr ?repo (dict_of x)) ys" "distinct (monitor.ids ys)"
      "set (monitor.ids ys) \<inter> set p = {}" "set (monitor.ids ys) \<subseteq> set p'" "\<forall>y \<in> set ys. issue_id y \<noteq> None" by blast
    obtain a b c where "r = Inr [(''status'', a), (''observed'', b), (''trigger_count'', c),
        (''processed_run_ids'', PList (map PInt (sort p'))), (''triggers'', PList (map PDict ts))]"
      using run l Inr by (auto simp: ci_monitor_run_def Let_def)
    then have "triggered_ids ''ci_run'' r = monitor.ids ys"
      using ys(1, 5) by (auto simp: triggered_ids_def result_triggers_def dget_or_def comp_def ci_trigger_id
          dict_of_id monitor.ids_def)
    with ys new show ?thesis by simp
  qed
qed

text \<open>Whatever payloads an issue scanner or a CI monitor is run on, one after the other and
  with failing runs among them, no issue and no CI run is ever triggered twice.\<close>

theorem scan_triggers_once:
  "distinct (history ''issue'' (issue_scanner_run fstr) payloads []) \<and>
   distinct (history ''ci_run'' (ci_monitor_run fstr) payloads [])"
  using history_distinct scanner_new_only monitor_new_only by blast

end
