(* ===== verification/Tenants.thy ===== *)
theory Tenants
  imports PyValue
begin

text \<open>
  \<open>scheduler/tenant_registry.py\<close>: which tenant may work on which repositories. The JSON
  text of the mapping is parsed by Python's library: the model starts from the parsed
  value, \<open>None\<close> when the text is not JSON. The fixed regular expressions are written out.
\<close>

subsection \<open>Names\<close>

text \<open>An absent value is \<open>None\<close>; \<open>value or ''\<close> makes it the empty text.\<close>

definition or_empty :: "string option \<Rightarrow> string" where
  "or_empty v = (case v of None \<Rightarrow> [] | Some s \<Rightarrow> s)"

definition normalize_tenant_id :: "string option \<Rightarrow> string \<Rightarrow> string" where
  "normalize_tenant_id v dflt =
     (let n = py_lower (py_strip (or_empty v)) in
      if n \<noteq> [] then n
      else (let d = py_lower (py_strip dflt) in if d \<noteq> [] then d else ''default''))"

definition repo_char :: "char \<Rightarrow> bool" where
  "repo_char c \<longleftrightarrow> is_digit c \<or> (let n = (of_char c :: nat) in 97 \<le> n \<and> n \<le> 122) \<or> c \<in> set ''_.-''"

text \<open>\<open>[a-z0-9_.-]+/[a-z0-9_.-]+\<close>, on the whole text.\<close>

definition repo_name_match :: "string \<Rightarrow> bool" where
  "repo_name_match s \<longleftrightarrow>
     (case split_on CHR ''/'' s of
        [owner, name] \<Rightarrow> owner \<noteq> [] \<and> name \<noteq> [] \<and> list_all repo_char owner \<and> list_all repo_char name
      | _ \<Rightarrow> False)"

definition normalize_repository_full_name :: "string option \<Rightarrow> string option" where
  "normalize_repository_full_name v =
     (let n = remove_suffix ''.git'' (py_lower (py_strip (or_empty v))) in
      if n \<noteq> [] \<and> repo_name_match n then Some n else None)"

text \<open>
  The search for a GitHub URL: a scheme or \<open>git@\<close>, the host, and \<open>owner/name\<close> up to the
  end with at most one slash after it. The name's characters include those of \<open>.git\<close>, so
  the group always takes a final \<open>.git\<close> with it. Upper and lower case are the same.
\<close>

definition after_prefix :: "string \<Rightarrow> string \<Rightarrow> string option" where
  "after_prefix p s = (if starts_with p (py_lower s) then Some (drop (length p) s) else None)"

definition strip_slash :: "string \<Rightarrow> string" where
  "strip_slash s = (if s \<noteq> [] \<and> last s = CHR ''/'' then butlast s else s)"

definition url_rest :: "string \<Rightarrow> string option" where
  "url_rest s = (case after_prefix ''https://github.com'' s of Some r \<Rightarrow> Some r | None \<Rightarrow>
     (case after_prefix ''http://github.com'' s of Some r \<Rightarrow> Some r | None \<Rightarrow> after_prefix ''git@github.com'' s))"

definition url_match_here :: "string \<Rightarrow> string option" where
  "url_match_here s =
     (case url_rest s of
        Some (c # r) \<Rightarrow>
          if (c = CHR '':'' \<or> c = CHR ''/'') \<and> repo_name_match (py_lower (strip_slash r))
          then Some (strip_slash r) else None
      | _ \<Rightarrow> None)"

fun url_search :: "string \<Rightarrow> string option" where
  "url_search [] = None"
| "url_search (c # s) = (case url_match_here (c # s) of Some m \<Rightarrow> Some m | None \<Rightarrow> url_search s)"

definition repo_candidates :: "(rat \<Rightarrow> string) \<Rightarrow> dict \<Rightarrow> string option \<Rightarrow> string option list" where
  "repo_candidates fstr inputs explicit =
     [explicit]
     @ (case dget inputs ''repository'' of
          PDict d \<Rightarrow> [Some (py_strip (py_str fstr (dget_or d ''full_name'' (PStr []))))] | _ \<Rightarrow> [])
     @ [Some (py_strip (py_str fstr (dget_or inputs ''repository_full_name'' (PStr []))))]
     @ (case url_search (py_strip (py_str fstr (dget_or inputs ''repo_url'' (PStr [])))) of
          Some m \<Rightarrow> [Some m] | None \<Rightarrow> [])"

fun first_some :: "('a \<Rightarrow> 'b option) \<Rightarrow> 'a list \<Rightarrow> 'b option" where
  "first_some f [] = None"
| "first_some f (x # xs) = (case f x of Some y \<Rightarrow> Some y | None \<Rightarrow> first_some f xs)"

definition extract_repository_full_name :: "(rat \<Rightarrow> string) \<Rightarrow> dict \<Rightarrow> string option \<Rightarrow> string option" where
  "extract_repository_full_name fstr inputs explicit =
     first_some normalize_repository_full_name (repo_candidates fstr inputs explicit)"

subsection \<open>The registry\<close>

record tenant_registry =
  tr_default_tenant_id :: string
  tr_enforce_boundaries :: bool
  tr_mapping :: "(string \<times> string list) list"

text \<open>The set of a tenant's repositories: an entry is a name or the wildcard.\<close>

definition repo_entry :: "string \<Rightarrow> string option" where
  "repo_entry v = (if v = ''*'' then Some v else normalize_repository_full_name (Some v))"

definition repo_set :: "string list \<Rightarrow> string list" where
  "repo_set vs = remdups (List.map_filter repo_entry vs)"

definition add_tenant ::
  "string \<Rightarrow> string \<times> string list \<Rightarrow> (string \<times> string list) list \<Rightarrow> (string \<times> string list) list" where
  "add_tenant dflt = (\<lambda>(tenant, repos) m.
     (if repo_set repos \<noteq> [] then AList.update (normalize_tenant_id (Some tenant) dflt) (repo_set repos) m else m))"

definition new_tenant_registry :: "(string \<times> string list) list \<Rightarrow> string \<Rightarrow> bool \<Rightarrow> tenant_registry" where
  "new_tenant_registry mapping dflt enforce =
     (let d = normalize_tenant_id (Some dflt) ''default'' in
      \<lparr>tr_default_tenant_id = d, tr_enforce_boundaries = enforce, tr_mapping = fold (add_tenant d) mapping []\<rparr>)"

definition has_mapping :: "tenant_registry \<Rightarrow> bool" where
  "has_mapping r \<longleftrightarrow> tr_mapping r \<noteq> []"

definition json_repos :: "(rat \<Rightarrow> string) \<Rightarrow> pyval \<Rightarrow> string list" where
  "json_repos fstr v =
     (case v of
        PList xs \<Rightarrow> filter (\<lambda>s. s \<noteq> []) (map (\<lambda>x. py_strip (py_str fstr x)) xs)
      | PStr s \<Rightarrow> filter (\<lambda>s. s \<noteq> []) (map py_strip (split_on (CHR '','') s))
      | _ \<Rightarrow> [])"

text \<open>Entries without repositories are passed over; \<open>mapping[tenant_id]\<close> keeps the keys of the
  JSON object, which are distinct.\<close>

definition json_mapping :: "(rat \<Rightarrow> string) \<Rightarrow> pyval option \<Rightarrow> (string \<times> string list) list" where
  "json_mapping fstr payload =
     (case payload of
        Some (PDict d) \<Rightarrow> filter (\<lambda>(t, rs). rs \<noteq> []) (map (\<lambda>(t, v). (t, json_repos fstr v)) d)
      | _ \<Rightarrow> [])"

definition tenants_from_json :: "(rat \<Rightarrow> string) \<Rightarrow> pyval option \<Rightarrow> string \<Rightarrow> bool \<Rightarrow> tenant_registry" where
  "tenants_from_json fstr payload = new_tenant_registry (json_mapping fstr payload)"

definition list_repositories :: "string option \<Rightarrow> tenant_registry \<Rightarrow> string list" where
  "list_repositories tenant r =
     (case map_of (tr_mapping r) (normalize_tenant_id tenant (tr_default_tenant_id r)) of
        None \<Rightarrow> [] | Some rs \<Rightarrow> sort rs)"

record boundary_decision =
  bd_allowed :: bool
  bd_reason :: string
  bd_tenant_id :: string
  bd_repository :: "string option"

definition validate_boundary :: "string option \<Rightarrow> string option \<Rightarrow> tenant_registry \<Rightarrow> boundary_decision" where
  "validate_boundary tenant repository r =
     (let t = normalize_tenant_id tenant (tr_default_tenant_id r);
          repo = normalize_repository_full_name repository;
          decision = (\<lambda>ok reason. \<lparr>bd_allowed = ok, bd_reason = reason, bd_tenant_id = t, bd_repository = repo\<rparr>)
      in if \<not> tr_enforce_boundaries r \<and> \<not> has_mapping r then decision True ''boundary_check_disabled''
         else (case map_of (tr_mapping r) t of
             None \<Rightarrow> decision False ''unknown_tenant''
           | Some allowed \<Rightarrow>
               if ''*'' \<in> set allowed then decision True ''tenant_wildcard_allowed''
               else (case repo of
                   None \<Rightarrow> decision False ''repository_full_name_required''
                 | Some n \<Rightarrow>
                     if n \<in> set allowed then decision True ''repository_allowed''
                     else decision False ''repository_not_allowed'')))"

subsection \<open>Decisions in terms of the configuration\<close>

lemma repo_set_iff: "n \<in> set (repo_set vs) \<longleftrightarrow> (\<exists>v \<in> set vs. repo_entry v = Some n)"
  by (auto simp: repo_set_def map_filter_def image_iff)

lemma repo_set_empty: "repo_set vs = [] \<longleftrightarrow> (\<forall>v \<in> set vs. repo_entry v = None)"
proof -
  have "repo_set vs = [] \<longleftrightarrow> (\<forall>n. n \<notin> set (repo_set vs))" by auto
  also have "\<dots> \<longleftrightarrow> (\<forall>v \<in> set vs. repo_entry v = None)" unfolding repo_set_iff by (metis not_None_eq)
  finally show ?thesis .
qed

text \<open>Which entry of the configuration counts for a tenant: the last one that names it, up to
  case and blanks, and has a usable repository.\<close>

definition effective :: "string \<Rightarrow> string \<Rightarrow> (string \<times> string list) list \<Rightarrow> (string \<times> string list) option" where
  "effective dflt t mapping =
     find (\<lambda>(tenant, repos). normalize_tenant_id (Some tenant) dflt = t \<and> (\<exists>v \<in> set repos. repo_entry v \<noteq> None)) (rev mapping)"

lemma fold_tenants:
  "map_of (fold (add_tenant d) mapping m) t =
     (case effective d t mapping of Some (_, repos) \<Rightarrow> Some (repo_set repos) | None \<Rightarrow> map_of m t)"
proof (induction mapping rule: rev_induct)
  case Nil
  show ?case by (simp add: effective_def)
next
  case (snoc e mapping)
  obtain tenant repos where e: "e = (tenant, repos)" by (cases e)
  show ?case
    using snoc by (auto simp: e add_tenant_def effective_def repo_set_empty)
qed

lemma fold_tenants_empty:
  "fold (add_tenant d) mapping [] = [] \<longleftrightarrow> (\<forall>(_, repos) \<in> set mapping. \<forall>v \<in> set repos. repo_entry v = None)"
proof (induction mapping rule: rev_induct)
  case (snoc e mapping)
  obtain tenant repos where e: "e = (tenant, repos)" by (cases e)
  have "AList.update k v m \<noteq> []" for k :: string and v :: "string list" and m
    by (cases m) auto
  then show ?case using snoc by (auto simp: e add_tenant_def repo_set_empty)
qed simp

text \<open>C22: A registry made from a configuration lets a tenant work on a repository exactly when
  nothing is enforced and the configuration has no usable entry at all, or the last usable
  entry for the tenant, up to case and blanks, has the wildcard or that repository, up to
  case, blanks and a final \<open>.git\<close>. So a configuration of which nothing can be used, a
  misspelt one included, opens every repository to every tenant.\<close>

theorem tenant_boundary_correct:
  assumes "mapping = json_mapping fstr payload"
    and "d = normalize_tenant_id (Some dflt) ''default''" "t = normalize_tenant_id tenant d"
  shows "bd_allowed (validate_boundary tenant repository (tenants_from_json fstr payload dflt enforce)) \<longleftrightarrow>
    (\<not> enforce \<and> (\<forall>(_, repos) \<in> set mapping. \<forall>v \<in> set repos. repo_entry v = None)) \<or>
    (case effective d t mapping of
       None \<Rightarrow> False
     | Some (_, repos) \<Rightarrow> ''*'' \<in> set repos \<or>
         (\<exists>n. normalize_repository_full_name repository = Some n \<and> (\<exists>v \<in> set repos. repo_entry v = Some n)))"
proof -
  have star: "''*'' \<in> set (repo_set repos) \<longleftrightarrow> ''*'' \<in> set repos" for repos
  proof -
    have "normalize_repository_full_name (Some v) \<noteq> Some ''*''" for v
      by (auto simp: normalize_repository_full_name_def repo_name_match_def Let_def)
    then show ?thesis by (auto simp: repo_set_iff repo_entry_def)
  qed
  let ?m = "fold (add_tenant d) mapping []"
  have "bd_allowed (validate_boundary tenant repository (tenants_from_json fstr payload dflt enforce)) \<longleftrightarrow>
      (\<not> enforce \<and> ?m = []) \<or>
      (case map_of ?m t of None \<Rightarrow> False
       | Some rs \<Rightarrow> ''*'' \<in> set rs \<or> (\<exists>n. normalize_repository_full_name repository = Some n \<and> n \<in> set rs))"
    using assms
    by (auto simp: validate_boundary_def tenants_from_json_def new_tenant_registry_def has_mapping_def Let_def
        split: option.splits)
  moreover have "''*'' \<in> set (repo_set b) \<or> (\<exists>n. normalize_repository_full_name repository = Some n \<and> n \<in> set (repo_set b)) \<longleftrightarrow>
      ''*'' \<in> set b \<or> (\<exists>n. normalize_repository_full_name repository = Some n \<and> (\<exists>v \<in> set b. repo_entry v = Some n))" for b
    by (simp only: star) (simp only: repo_set_iff)
  ultimately show ?thesis
    by (cases "effective d t mapping") (simp_all add: fold_tenants fold_tenants_empty case_prod_unfold)
qed

text \<open>Another spelling of the tenant and of the repository; and a configuration without a usable
  entry.\<close>

theorem tenant_boundary_correct_witness:
  "bd_allowed (validate_boundary (Some ''TEAM '') (Some ''Org/App.git'')
     (tenants_from_json (\<lambda>_. []) (Some (PDict [(''team'', PStr ''org/app, org/lib'')])) ''default'' True)) \<and>
   bd_allowed (validate_boundary (Some ''anyone'') (Some ''org/secret'')
     (tenants_from_json (\<lambda>_. []) (Some (PDict [(''team'', PStr ''org-app'')])) ''default'' False))"
proof
  let ?p = "Some (PDict [(''team'', PStr ''org/app, org/lib'')])"
  have "json_mapping (\<lambda>_. []) ?p = [(''team'', [''org/app'', ''org/lib''])]" by code_simp
  moreover have "effective ''default'' ''team'' [(''team'', [''org/app'', ''org/lib''])] = Some (''team'', [''org/app'', ''org/lib''])"
    by code_simp
  moreover have "normalize_repository_full_name (Some ''Org/App.git'') = Some ''org/app''"
    "repo_entry ''org/app'' = Some ''org/app''" "normalize_tenant_id (Some ''default'') ''default'' = ''default''"
    "normalize_tenant_id (Some ''TEAM '') ''default'' = ''team''" by code_simp+
  ultimately show "bd_allowed (validate_boundary (Some ''TEAM '') (Some ''Org/App.git'')
      (tenants_from_json (\<lambda>_. []) ?p ''default'' True))"
    by (subst tenant_boundary_correct [OF refl refl refl]) simp
next
  let ?p = "Some (PDict [(''team'', PStr ''org-app'')])"
  have "json_mapping (\<lambda>_. []) ?p = [(''team'', [''org-app''])]" "repo_entry ''org-app'' = None" by code_simp+
  then show "bd_allowed (validate_boundary (Some ''anyone'') (Some ''org/secret'')
      (tenants_from_json (\<lambda>_. []) ?p ''default'' False))"
    by (subst tenant_boundary_correct [OF refl refl refl]) simp
qed

text \<open>The names that normalisation accepts are in lower case and without blanks, so that the
  spelling of a request cannot get round a boundary.\<close>

lemma normalize_tenant_idem [simp]:
  "normalize_tenant_id (Some (normalize_tenant_id v d)) d = normalize_tenant_id v d"
proof -
  have "py_strip ''default'' = ''default''" "py_lower ''default'' = ''default''" by code_simp+
  then show ?thesis by (auto simp: normalize_tenant_id_def or_empty_def Let_def py_strip_lower)
qed

lemma boundary_spelling:
  assumes "py_lower (py_strip (or_empty tenant)) = py_lower (py_strip (or_empty tenant'))"
    and "py_lower (py_strip (or_empty repository)) = py_lower (py_strip (or_empty repository'))"
  shows "validate_boundary tenant repository r = validate_boundary tenant' repository' r"
  using assms by (simp add: validate_boundary_def normalize_tenant_id_def normalize_repository_full_name_def)

text \<open>The text after a URL's host is found as it stands: a clone URL names its repository.\<close>

lemma url_examples:
  "url_search ''https://github.com/Org/App.git'' = Some ''Org/App.git''"
  "url_search ''git@github.com:org/app'' = Some ''org/app''"
  "url_search ''see http://github.com/org/app/'' = Some ''org/app''"
  "url_search ''https://github.com/org/app/issues'' = None"
  by code_simp+

end
