(* ===== verification/RunStore.thy ===== *)
theory RunStore
  imports Tenants
begin

text \<open>
  \<open>storage/models.py\<close>, the JSON backend of \<open>storage/backends.py\<close> and the repositories of
  \<open>storage/repositories\<close>: runs, step logs and artifacts, each a list of records that is read,
  changed and written back as a whole. The backend is the locale \<open>storage\<close>, the translation
  of a record to JSON the locale \<open>codec\<close>; both are interpreted on the code's own. The files
  are those this program writes: texts, numbers and objects are where they belong. The
  size of a JSON text and the reading of an ISO date are parameters.
\<close>

subsection \<open>Records\<close>

record run_record =
  rr_run_id :: string
  rr_pipeline_name :: string
  rr_status :: string
  rr_source :: string
  rr_correlation_id :: string
  rr_started_at :: string
  rr_tenant_id :: string
  rr_repository :: "string option"
  rr_finished_at :: "string option"
  rr_result :: "dict option"
  rr_error :: "string option"
  rr_inputs :: dict
  rr_idempotency_key :: "string option"
  rr_override_state :: "string option"
  rr_checkpoint :: "dict option"

definition opt_text :: "string option \<Rightarrow> pyval" where
  "opt_text v = (case v of None \<Rightarrow> PNone | Some s \<Rightarrow> PStr s)"

definition opt_dict :: "dict option \<Rightarrow> pyval" where
  "opt_dict v = (case v of None \<Rightarrow> PNone | Some d \<Rightarrow> PDict d)"

definition run_to_dict :: "run_record \<Rightarrow> dict" where
  "run_to_dict r =
     [(''run_id'', PStr (rr_run_id r)), (''pipeline_name'', PStr (rr_pipeline_name r)), (''status'', PStr (rr_status r)),
      (''source'', PStr (rr_source r)), (''correlation_id'', PStr (rr_correlation_id r)),
      (''started_at'', PStr (rr_started_at r)), (''tenant_id'', PStr (rr_tenant_id r)),
      (''repository_full_name'', opt_text (rr_repository r)), (''finished_at'', opt_text (rr_finished_at r)),
      (''result'', opt_dict (rr_result r)), (''error'', opt_text (rr_error r)), (''inputs'', PDict (rr_inputs r)),
      (''idempotency_key'', opt_text (rr_idempotency_key r)), (''override_state'', opt_text (rr_override_state r)),
      (''checkpoint_state'', opt_dict (rr_checkpoint r))]"

text \<open>Reading a field: \<open>d[k]\<close>, \<open>d.get(k, default)\<close> and \<open>d.get(k)\<close>.\<close>

fun text_of :: "pyval \<Rightarrow> string option" where
  "text_of (PStr s) = Some s" | "text_of _ = None"

fun dict_in :: "pyval \<Rightarrow> dict option" where
  "dict_in (PDict d) = Some d" | "dict_in _ = None"

definition need_text :: "dict \<Rightarrow> string \<Rightarrow> exn + string" where
  "need_text d k =
     (case map_of d k of
        None \<Rightarrow> Inl (KeyError k)
      | Some v \<Rightarrow> (case text_of v of Some s \<Rightarrow> Inr s | None \<Rightarrow> Inl (TypeError ''not a text'')))"

definition get_text :: "dict \<Rightarrow> string \<Rightarrow> string \<Rightarrow> string" where
  "get_text d k dflt = (case text_of (dget_or d k (PStr dflt)) of Some s \<Rightarrow> s | None \<Rightarrow> dflt)"

text \<open>\<open>str(d.get("tenant_id", "default")).strip().lower() or "default"\<close>; \<open>str(None)\<close> is the
  text \<open>None\<close>.\<close>

definition norm_text :: "(rat \<Rightarrow> string) \<Rightarrow> pyval \<Rightarrow> string" where
  "norm_text fstr v = py_lower (py_strip (py_str fstr v))"

definition tenant_field :: "(rat \<Rightarrow> string) \<Rightarrow> dict \<Rightarrow> string" where
  "tenant_field fstr d =
     (let t = norm_text fstr (dget_or d ''tenant_id'' (PStr ''default'')) in if t = [] then ''default'' else t)"

definition repository_field :: "(rat \<Rightarrow> string) \<Rightarrow> dict \<Rightarrow> string option" where
  "repository_field fstr d =
     (let r = norm_text fstr (dget_or d ''repository_full_name'' (PStr [])) in if r = [] then None else Some r)"

definition run_from_dict :: "(rat \<Rightarrow> string) \<Rightarrow> dict \<Rightarrow> exn + run_record" where
  "run_from_dict fstr d =
     bindE (need_text d ''run_id'') (\<lambda>run_id.
     bindE (need_text d ''pipeline_name'') (\<lambda>pipeline_name.
     bindE (need_text d ''status'') (\<lambda>status.
       Inr \<lparr>rr_run_id = run_id, rr_pipeline_name = pipeline_name, rr_status = status,
            rr_source = get_text d ''source'' ''unknown'', rr_correlation_id = get_text d ''correlation_id'' [],
            rr_started_at = get_text d ''started_at'' [], rr_tenant_id = tenant_field fstr d,
            rr_repository = repository_field fstr d, rr_finished_at = text_of (dget d ''finished_at''),
            rr_result = dict_in (dget d ''result''), rr_error = text_of (dget d ''error''),
            rr_inputs = (case dict_in (dget d ''inputs'') of Some i \<Rightarrow> i | None \<Rightarrow> []),
            rr_idempotency_key = text_of (dget d ''idempotency_key''),
            rr_override_state = text_of (dget d ''override_state''),
            rr_checkpoint = dict_in (dget d ''checkpoint_state'')\<rparr>)))"

record step_log =
  sl_run_id :: string
  sl_step_name :: string
  sl_status :: string
  sl_tenant_id :: string
  sl_started_at :: "string option"
  sl_finished_at :: "string option"
  sl_error :: "string option"
  sl_retry_count :: int
  sl_input_hash :: "string option"
  sl_artifact_ids :: "string list"

definition step_log_to_dict :: "step_log \<Rightarrow> dict" where
  "step_log_to_dict r =
     [(''run_id'', PStr (sl_run_id r)), (''step_name'', PStr (sl_step_name r)), (''status'', PStr (sl_status r)),
      (''tenant_id'', PStr (sl_tenant_id r)), (''started_at'', opt_text (sl_started_at r)),
      (''finished_at'', opt_text (sl_finished_at r)), (''error'', opt_text (sl_error r)),
      (''retry_count'', PInt (sl_retry_count r)), (''step_input_hash'', opt_text (sl_input_hash r)),
      (''artifact_ids'', PList (map PStr (sl_artifact_ids r)))]"

definition step_log_from_dict :: "(rat \<Rightarrow> string) \<Rightarrow> dict \<Rightarrow> exn + step_log" where
  "step_log_from_dict fstr d =
     bindE (need_text d ''run_id'') (\<lambda>run_id.
     bindE (need_text d ''step_name'') (\<lambda>step_name.
     bindE (py_int (dget_or d ''retry_count'' (PInt 0))) (\<lambda>retries.
       Inr \<lparr>sl_run_id = run_id, sl_step_name = step_name, sl_status = get_text d ''status'' ''UNKNOWN'',
            sl_tenant_id = tenant_field fstr d, sl_started_at = text_of (dget d ''started_at''),
            sl_finished_at = text_of (dget d ''finished_at''), sl_error = text_of (dget d ''error''),
            sl_retry_count = retries,
            sl_input_hash = (case dget d ''step_input_hash'' of PNone \<Rightarrow> None | v \<Rightarrow> Some (py_strip (py_str fstr v))),
            sl_artifact_ids = (case dget d ''artifact_ids'' of PList xs \<Rightarrow> map (py_str fstr) xs | _ \<Rightarrow> [])\<rparr>)))"

record artifact_record =
  ar_run_id :: string
  ar_step_name :: string
  ar_artifact_type :: string
  ar_content :: dict
  ar_size_bytes :: int
  ar_tenant_id :: string

definition artifact_to_dict :: "artifact_record \<Rightarrow> dict" where
  "artifact_to_dict r =
     [(''run_id'', PStr (ar_run_id r)), (''step_name'', PStr (ar_step_name r)), (''artifact_type'', PStr (ar_artifact_type r)),
      (''content'', PDict (ar_content r)), (''size_bytes'', PInt (ar_size_bytes r)), (''tenant_id'', PStr (ar_tenant_id r))]"

definition artifact_from_dict :: "(rat \<Rightarrow> string) \<Rightarrow> dict \<Rightarrow> exn + artifact_record" where
  "artifact_from_dict fstr d =
     bindE (need_text d ''run_id'') (\<lambda>run_id.
     bindE (py_int (dget_or d ''size_bytes'' (PInt 0))) (\<lambda>size.
       Inr \<lparr>ar_run_id = run_id, ar_step_name = get_text d ''step_name'' ''unknown'',
            ar_artifact_type = get_text d ''artifact_type'' ''unknown'',
            ar_content = (case dict_in (dget_or d ''content'' (PDict [])) of Some c \<Rightarrow> c | None \<Rightarrow> []),
            ar_size_bytes = size, ar_tenant_id = tenant_field fstr d\<rparr>))"

subsection \<open>The JSON backend\<close>

text \<open>The file and its numbered parts, in the order of the numbers. A part is only started when
  the next record would make the text longer than the limit.\<close>

record json_files =
  jf_base :: "dict list"
  jf_parts :: "(nat \<times> dict list) list"

fun split_loop :: "(dict list \<Rightarrow> nat) \<Rightarrow> nat \<Rightarrow> dict list \<Rightarrow> dict list list \<Rightarrow> dict list \<Rightarrow> dict list list" where
  "split_loop sz limit current chunks [] = (if current \<noteq> [] then chunks @ [current] else chunks)"
| "split_loop sz limit current chunks (x # xs) =
     (if current \<noteq> [] \<and> limit < sz (current @ [x]) then split_loop sz limit [x] (chunks @ [current]) xs
      else split_loop sz limit (current @ [x]) chunks xs)"

definition split_payload :: "(dict list \<Rightarrow> nat) \<Rightarrow> nat \<Rightarrow> dict list \<Rightarrow> dict list list" where
  "split_payload sz limit payload =
     (if payload = [] then [[]]
      else (let chunks = split_loop sz limit [] [] payload in if chunks = [] then [[]] else chunks))"

definition json_read_all :: "json_files \<Rightarrow> dict list" where
  "json_read_all f = jf_base f @ concat (map snd (sort_key fst (jf_parts f)))"

definition json_write_all :: "(dict list \<Rightarrow> nat) \<Rightarrow> nat \<Rightarrow> dict list \<Rightarrow> json_files \<Rightarrow> json_files" where
  "json_write_all sz limit payload f =
     (let chunks = split_payload sz limit payload in
      \<lparr>jf_base = hd chunks,
       jf_parts = filter (\<lambda>(i, _). 1 \<le> i \<and> i < length chunks)
         (fold (\<lambda>i. AList.update i (chunks ! i)) [1..<length chunks] (jf_parts f))\<rparr>)"

subsection \<open>Repositories\<close>

definition repo_load :: "('f \<Rightarrow> dict list) \<Rightarrow> (dict \<Rightarrow> exn + 'r) \<Rightarrow> 'f \<Rightarrow> 'r list" where
  "repo_load read dec f = concat (map (\<lambda>d. case dec d of Inr r \<Rightarrow> [r] | Inl e \<Rightarrow> []) (read f))"

definition repo_save :: "(dict list \<Rightarrow> 'f \<Rightarrow> 'f) \<Rightarrow> ('r \<Rightarrow> dict) \<Rightarrow> 'r list \<Rightarrow> 'f \<Rightarrow> 'f" where
  "repo_save write enc items f = write (map enc items) f"

text \<open>The operations of the run repository, over the records its backend holds.\<close>

definition norm_tenant :: "string option \<Rightarrow> string" where
  "norm_tenant v = (let t = py_lower (py_strip (or_empty v)) in if t = [] then ''default'' else t)"

definition norm_repository :: "string option \<Rightarrow> string option" where
  "norm_repository v = (let t = py_lower (py_strip (or_empty v)) in if t = [] then None else Some t)"

definition tenant_from_run_id :: "string \<Rightarrow> string option" where
  "tenant_from_run_id run_id =
     (case split_once CHR '':'' run_id of
        (tenant, Some remainder) \<Rightarrow>
          (let t = py_lower (py_strip tenant) in
           if t = [] \<or> py_strip remainder = [] then None else Some (norm_tenant (Some t)))
      | (_, None) \<Rightarrow> None)"

definition resolve_tenant_id :: "string \<Rightarrow> string option \<Rightarrow> string option" where
  "resolve_tenant_id run_id tenant_id =
     (if or_empty tenant_id \<noteq> [] then Some (norm_tenant tenant_id) else tenant_from_run_id run_id)"

definition normalize_record :: "run_record \<Rightarrow> run_record" where
  "normalize_record r =
     r\<lparr>rr_tenant_id := norm_tenant (case tenant_from_run_id (rr_run_id r) of Some t \<Rightarrow> Some t | None \<Rightarrow> Some (rr_tenant_id r)),
       rr_repository := norm_repository (rr_repository r)\<rparr>"

definition same_run :: "run_record \<Rightarrow> run_record \<Rightarrow> bool" where
  "same_run r q \<longleftrightarrow> rr_run_id q = rr_run_id r \<and> rr_tenant_id q = rr_tenant_id r"

definition runs_create :: "run_record \<Rightarrow> run_record list \<Rightarrow> exn + run_record list" where
  "runs_create record items =
     (let r = normalize_record record in
      if list_ex (same_run r) items then Inl (ValueError (''Run '' @ quoted (rr_run_id r) @ '' already exists''))
      else Inr (items @ [r]))"

definition runs_upsert :: "run_record \<Rightarrow> run_record list \<Rightarrow> run_record list" where
  "runs_upsert record items =
     (let r = normalize_record record in
      case find_index (same_run r) items of
        Some i \<Rightarrow> items[i := r]
      | None \<Rightarrow> items @ [r])"

definition runs_get :: "string \<Rightarrow> string option \<Rightarrow> run_record list \<Rightarrow> run_record option" where
  "runs_get run_id0 tenant_id items =
     (let run_id = py_strip run_id0;
          found = filter (\<lambda>r. rr_run_id r = run_id) items
      in case resolve_tenant_id run_id tenant_id of
           None \<Rightarrow> (case found of [r] \<Rightarrow> Some r | _ \<Rightarrow> None)
         | Some t \<Rightarrow> find (\<lambda>r. rr_tenant_id r = t) found)"

definition runs_delete :: "string \<Rightarrow> string option \<Rightarrow> run_record list \<Rightarrow> bool \<times> run_record list" where
  "runs_delete run_id0 tenant_id items =
     (let run_id = py_strip run_id0;
          tenant = resolve_tenant_id run_id tenant_id;
          filtered = filter (\<lambda>r. \<not> (rr_run_id r = run_id \<and> (case tenant of None \<Rightarrow> True | Some t \<Rightarrow> rr_tenant_id r = t))) items
      in if length filtered = length items then (False, items) else (True, filtered))"

text \<open>\<open>parse\<close> reads a date with its zone, \<open>None\<close> if it is not one; a run without a date sorts
  before all others (\<open>oldest\<close>).\<close>

record run_query =
  rq_run_id :: "string option"
  rq_tenant_id :: "string option"
  rq_pipeline_name :: "string option"
  rq_status :: "string option"
  rq_date_from :: "string option"
  rq_date_to :: "string option"

definition wanted :: "string option \<Rightarrow> string \<Rightarrow> bool" where
  "wanted q v \<longleftrightarrow> or_empty q = [] \<or> v = or_empty q"

definition started_time :: "(string \<Rightarrow> rat option) \<Rightarrow> rat \<Rightarrow> run_record \<Rightarrow> rat" where
  "started_time parse oldest r = (case parse (rr_started_at r) of Some t \<Rightarrow> t | None \<Rightarrow> oldest)"

definition filter_date :: "(string \<Rightarrow> rat option) \<Rightarrow> string option \<Rightarrow> rat option" where
  "filter_date parse v = (if or_empty v = [] then None else parse (or_empty v))"

definition filter_runs ::
  "(string \<Rightarrow> rat option) \<Rightarrow> rat \<Rightarrow> string option \<Rightarrow> string option \<Rightarrow> run_query \<Rightarrow> run_record list \<Rightarrow> run_record list" where
  "filter_runs parse oldest run_id tenant q items =
     filter (\<lambda>r. wanted run_id (rr_run_id r) \<and> wanted tenant (rr_tenant_id r) \<and>
         wanted (rq_pipeline_name q) (rr_pipeline_name r) \<and> wanted (rq_status q) (rr_status r) \<and>
         (case filter_date parse (rq_date_from q) of None \<Rightarrow> True | Some t \<Rightarrow> t \<le> started_time parse oldest r) \<and>
         (case filter_date parse (rq_date_to q) of None \<Rightarrow> True | Some t \<Rightarrow> started_time parse oldest r \<le> t)) items"

definition runs_list ::
  "(string \<Rightarrow> rat option) \<Rightarrow> rat \<Rightarrow> run_query \<Rightarrow> int \<Rightarrow> int \<Rightarrow> run_record list \<Rightarrow> run_record list" where
  "runs_list parse oldest q offset limit items =
     (let run_id = (if or_empty (rq_run_id q) = [] then None else Some (py_strip (or_empty (rq_run_id q))));
          tenant = (if or_empty run_id \<noteq> [] then resolve_tenant_id (or_empty run_id) (rq_tenant_id q)
                    else if or_empty (rq_tenant_id q) \<noteq> [] then Some (norm_tenant (rq_tenant_id q)) else None);
          sorted_items = sort_desc (started_time parse oldest) (filter_runs parse oldest run_id tenant q items)
      in take (nat (max 1 (min 200 limit))) (drop (nat (max 0 offset)) sorted_items))"

text \<open>The logs and the artifacts of a run.\<close>

definition step_logs_replace :: "string \<Rightarrow> string option \<Rightarrow> step_log list \<Rightarrow> step_log list \<Rightarrow> step_log list" where
  "step_logs_replace run_id tenant_id records items =
     (let t = norm_tenant tenant_id; r = py_strip run_id in
      filter (\<lambda>l. \<not> (sl_run_id l = r \<and> sl_tenant_id l = t)) items
      @ map (\<lambda>l. l\<lparr>sl_run_id := r, sl_tenant_id := t\<rparr>) records)"

definition step_logs_add :: "step_log list \<Rightarrow> step_log list \<Rightarrow> step_log list" where
  "step_logs_add records items =
     items @ map (\<lambda>l. l\<lparr>sl_run_id := py_strip (sl_run_id l), sl_tenant_id := norm_tenant (Some (sl_tenant_id l))\<rparr>) records"

definition step_logs_by_run ::
  "(string \<Rightarrow> rat option) \<Rightarrow> rat \<Rightarrow> string \<Rightarrow> string option \<Rightarrow> step_log list \<Rightarrow> step_log list" where
  "step_logs_by_run parse oldest run_id tenant_id items =
     (let t = norm_tenant tenant_id; r = py_strip run_id;
          time = (\<lambda>l. if or_empty (sl_started_at l) = [] then oldest
                      else (case parse (or_empty (sl_started_at l)) of Some x \<Rightarrow> x | None \<Rightarrow> oldest))
      in sort_key time (sort_key sl_step_name (filter (\<lambda>l. sl_run_id l = r \<and> sl_tenant_id l = t) items)))"

record artifact_policy =
  ap_max_bytes :: int
  ap_allowed :: "string list option"

definition new_artifact_policy :: "int \<Rightarrow> string list option \<Rightarrow> artifact_policy" where
  "new_artifact_policy max_bytes allowed =
     \<lparr>ap_max_bytes = max 1 max_bytes,
      ap_allowed = (case allowed of None \<Rightarrow> None
        | Some vs \<Rightarrow> (let n = remdups (filter (\<lambda>v. v \<noteq> []) (map py_strip vs)) in if n = [] then None else Some n))\<rparr>"

definition artifact_type_name :: "artifact_record \<Rightarrow> string" where
  "artifact_type_name a = (let t = py_strip (ar_artifact_type a) in if t = [] then ''unknown'' else t)"

text \<open>The bytes of the JSON text; the texts are ASCII.\<close>

definition artifact_bytes :: "(rat \<Rightarrow> string) \<Rightarrow> dict \<Rightarrow> int" where
  "artifact_bytes fstr content = int (length (json_dumps fstr False '', '' '': '' (PDict content)))"

definition artifact_fits :: "(rat \<Rightarrow> string) \<Rightarrow> artifact_policy \<Rightarrow> artifact_record \<Rightarrow> bool" where
  "artifact_fits fstr p a \<longleftrightarrow>
     (case ap_allowed p of None \<Rightarrow> True | Some ts \<Rightarrow> artifact_type_name a \<in> set ts) \<and> artifact_bytes fstr (ar_content a) \<le> ap_max_bytes p"

definition artifacts_replace ::
  "(rat \<Rightarrow> string) \<Rightarrow> artifact_policy \<Rightarrow> string \<Rightarrow> string option \<Rightarrow> artifact_record list \<Rightarrow> artifact_record list \<Rightarrow> artifact_record list" where
  "artifacts_replace fstr p run_id tenant_id records items =
     (let t = norm_tenant tenant_id; r = py_strip run_id in
      filter (\<lambda>a. \<not> (ar_run_id a = r \<and> ar_tenant_id a = t)) items
      @ map (\<lambda>a. \<lparr>ar_run_id = r, ar_step_name = ar_step_name a, ar_artifact_type = artifact_type_name a,
                  ar_content = ar_content a, ar_size_bytes = artifact_bytes fstr (ar_content a), ar_tenant_id = t\<rparr>)
          (filter (artifact_fits fstr p) records))"

definition artifacts_by_run :: "string \<Rightarrow> string option \<Rightarrow> artifact_record list \<Rightarrow> artifact_record list" where
  "artifacts_by_run run_id tenant_id items =
     filter (\<lambda>a. ar_run_id a = py_strip run_id \<and> ar_tenant_id a = norm_tenant tenant_id) items"

definition artifacts_by_type :: "string \<Rightarrow> string option \<Rightarrow> artifact_record list \<Rightarrow> artifact_record list" where
  "artifacts_by_type artifact_type tenant_id items =
     (if py_strip artifact_type = [] then []
      else filter (\<lambda>a. ar_artifact_type a = py_strip artifact_type) (filter (\<lambda>a. ar_tenant_id a = norm_tenant tenant_id) items))"


subsection \<open>What a backend and a record's JSON promise\<close>

locale storage =
  fixes read :: "'f \<Rightarrow> dict list" and "write" :: "dict list \<Rightarrow> 'f \<Rightarrow> 'f" and ok :: "'f \<Rightarrow> bool"
  assumes read_write: "ok f \<Longrightarrow> read (write xs f) = xs"
    and ok_write: "ok f \<Longrightarrow> ok (write xs f)"

locale codec =
  fixes enc :: "'r \<Rightarrow> dict" and dec :: "dict \<Rightarrow> exn + 'r" and stored :: "'r \<Rightarrow> 'r"
  assumes dec_enc: "dec (enc r) = Inr (stored r)"

locale repository = storage + codec
begin

lemma load_save: "ok f \<Longrightarrow> repo_load read dec (repo_save write enc items f) = map stored items"
  by (induction items) (simp_all add: repo_load_def repo_save_def read_write dec_enc)

end

subsection \<open>The backend keeps what it is given\<close>

lemma split_loop_concat: "concat (split_loop sz limit cur chunks xs) = concat chunks @ cur @ xs"
  by (induction sz limit cur chunks xs rule: split_loop.induct) auto

lemma split_concat: "concat (split_payload sz limit xs) = xs"
proof -
  have "concat (split_loop sz limit [] [] xs) = xs" by (simp add: split_loop_concat)
  then show ?thesis by (auto simp: split_payload_def Let_def)
qed

lemma split_nonempty: "split_payload sz limit xs \<noteq> []"
  by (simp add: split_payload_def Let_def)

text \<open>A file is longer than the limit only if it has one record.\<close>

lemma split_loop_bound:
  "\<forall>c \<in> set chunks. sz c \<le> limit \<or> length c = 1 \<Longrightarrow> cur = [] \<or> sz cur \<le> limit \<or> length cur = 1 \<Longrightarrow>
     \<forall>c \<in> set (split_loop sz limit cur chunks xs). sz c \<le> limit \<or> length c = 1"
proof (induction sz limit cur chunks xs rule: split_loop.induct)
  case (2 sz limit cur chunks x xs)
  then show ?case by (cases "cur = []") auto
qed auto

definition files_ok :: "json_files \<Rightarrow> bool" where
  "files_ok f \<longleftrightarrow> distinct (map fst (jf_parts f))"

lemma fold_update_chunks:
  "map_of (fold (\<lambda>i. AList.update i (g i)) is d) k = (if k \<in> set is then Some (g k) else map_of d k)"
  by (induction "is" arbitrary: d) auto

lemma distinct_fold_update:
  "distinct (map fst d) \<Longrightarrow> distinct (map fst (fold (\<lambda>i. AList.update i (g i)) is d))"
  by (induction "is" arbitrary: d) (auto simp: distinct_update)

lemma written_parts:
  assumes "files_ok f" "chunks = split_payload sz limit xs"
  shows "sort_key fst (jf_parts (json_write_all sz limit xs f)) = map (\<lambda>i. (i, chunks ! i)) [1..<length chunks]"
proof -
  let ?p = "fold (\<lambda>i. AList.update i (chunks ! i)) [1..<length chunks] (jf_parts f)"
  let ?q = "filter (\<lambda>(i, _). 1 \<le> i \<and> i < length chunks) ?p"
  have d: "distinct (map fst ?p)" using assms(1) distinct_fold_update unfolding files_ok_def by blast
  then have dq: "distinct (map fst ?q)" by (rule distinct_map_filter)
  have m: "map_of ?p i = (if i \<in> set [1..<length chunks] then Some (chunks ! i) else map_of (jf_parts f) i)" for i
    by (rule fold_update_chunks)
  have "set ?q = set (map (\<lambda>i. (i, chunks ! i)) [1..<length chunks])"
  proof (rule set_eqI)
    fix e :: "nat \<times> dict list"
    obtain i c where e: "e = (i, c)" by (cases e)
    have "(i, c) \<in> set ?p \<longleftrightarrow> map_of ?p i = Some c" by (rule map_of_eq_Some_iff [OF d, symmetric])
    with m [of i] show "e \<in> set ?q \<longleftrightarrow> e \<in> set (map (\<lambda>i. (i, chunks ! i)) [1..<length chunks])" by (auto simp: e)
  qed
  moreover have "distinct ?q" using dq by (simp add: distinct_map)
  moreover have "distinct (map (\<lambda>i. (i, chunks ! i)) [1..<length chunks])"
    by (simp add: distinct_map inj_on_def)
  ultimately have "mset ?q = mset (map (\<lambda>i. (i, chunks ! i)) [1..<length chunks])"
    using set_eq_iff_mset_eq_distinct by blast
  then have "sort_key fst ?q = sort_key fst (map (\<lambda>i. (i, chunks ! i)) [1..<length chunks])"
    using dq by (rule sort_key_unique)
  also have "\<dots> = map (\<lambda>i. (i, chunks ! i)) [1..<length chunks]"
    by (rule sort_key_id_if_sorted) (simp add: comp_def)
  finally show ?thesis using assms(2) by (simp add: json_write_all_def Let_def)
qed

interpretation json: storage json_read_all "json_write_all sz limit" files_ok for sz limit
proof
  fix f xs assume ok: "files_ok f"
  let ?c = "split_payload sz limit xs"
  have "?c = hd ?c # map (\<lambda>i. ?c ! i) [1..<length ?c]"
  proof (cases ?c)
    case (Cons x c)
    have "map (\<lambda>i. (x # c) ! i) [1..<Suc (length c)] = map ((!) c) [0..<length c]"
      unfolding One_nat_def map_Suc_upt [symmetric] by (simp add: comp_def del: map_Suc_upt)
    then show ?thesis by (simp add: Cons map_nth)
  qed (simp add: split_nonempty)
  then have "concat ?c = hd ?c @ concat (map (\<lambda>i. ?c ! i) [1..<length ?c])" by (metis concat.simps(2))
  then show "json_read_all (json_write_all sz limit xs f) = xs"
    unfolding json_read_all_def written_parts [OF ok refl] split_concat
    by (simp add: json_write_all_def Let_def comp_def)
  show "files_ok (json_write_all sz limit xs f)"
    using ok distinct_fold_update [of "jf_parts f"]
    by (simp add: files_ok_def json_write_all_def Let_def distinct_map_filter)
qed


subsection \<open>What comes back of a record\<close>

definition stored_tenant :: "string \<Rightarrow> string" where
  "stored_tenant t = (let n = py_lower (py_strip t) in if n = [] then ''default'' else n)"

definition stored_repository :: "string option \<Rightarrow> string option" where
  "stored_repository v =
     (case v of None \<Rightarrow> Some ''none'' | Some s \<Rightarrow> (let n = py_lower (py_strip s) in if n = [] then None else Some n))"

definition stored_run :: "run_record \<Rightarrow> run_record" where
  "stored_run r = r\<lparr>rr_tenant_id := stored_tenant (rr_tenant_id r), rr_repository := stored_repository (rr_repository r)\<rparr>"

definition stored_step_log :: "step_log \<Rightarrow> step_log" where
  "stored_step_log l = l\<lparr>sl_tenant_id := stored_tenant (sl_tenant_id l), sl_input_hash := map_option py_strip (sl_input_hash l)\<rparr>"

definition stored_artifact :: "artifact_record \<Rightarrow> artifact_record" where
  "stored_artifact a = a\<lparr>ar_tenant_id := stored_tenant (ar_tenant_id a)\<rparr>"

lemma norm_default: "py_lower (py_strip ''default'') = ''default''" "py_lower (py_strip ''None'') = ''none''"
  "py_lower (py_strip ''none'') = ''none''"
  by code_simp+

lemma stored_tenant_idem [simp]: "stored_tenant (stored_tenant t) = stored_tenant t"
  by (auto simp: stored_tenant_def Let_def py_strip_lower norm_default)

lemma tenant_field_stored: "dget_or d ''tenant_id'' (PStr ''default'') = PStr t \<Longrightarrow> tenant_field fstr d = stored_tenant t"
  by (simp add: tenant_field_def norm_text_def stored_tenant_def py_str_def)

lemma repository_field_stored:
  "dget_or d ''repository_full_name'' (PStr []) = opt_text v \<Longrightarrow> repository_field fstr d = stored_repository v"
  by (cases v) (simp_all add: repository_field_def norm_text_def stored_repository_def py_str_def opt_text_def norm_default)

lemma opt_cases [simp]: "text_of (opt_text v) = v" "dict_in (opt_dict w) = w"
  by (cases v; simp add: opt_text_def) (cases w; simp add: opt_dict_def)

interpretation runs: codec run_to_dict "run_from_dict fstr" stored_run for fstr
proof
  fix r
  have "tenant_field fstr (run_to_dict r) = stored_tenant (rr_tenant_id r)"
    by (rule tenant_field_stored) (simp add: run_to_dict_def dget_or_def)
  moreover have "repository_field fstr (run_to_dict r) = stored_repository (rr_repository r)"
    by (rule repository_field_stored) (simp add: run_to_dict_def dget_or_def)
  ultimately show "run_from_dict fstr (run_to_dict r) = Inr (stored_run r)"
    by (simp add: run_from_dict_def stored_run_def) (simp add: run_to_dict_def need_text_def get_text_def dget_def dget_or_def)
qed

interpretation step_logs: codec step_log_to_dict "step_log_from_dict fstr" stored_step_log for fstr
proof
  fix l
  have "tenant_field fstr (step_log_to_dict l) = stored_tenant (sl_tenant_id l)"
    by (rule tenant_field_stored) (simp add: step_log_to_dict_def dget_or_def)
  moreover have "(case opt_text v of PNone \<Rightarrow> None | w \<Rightarrow> Some (py_strip (py_str fstr w))) = map_option py_strip v" for v
    by (cases v) (simp_all add: opt_text_def py_str_def)
  ultimately show "step_log_from_dict fstr (step_log_to_dict l) = Inr (stored_step_log l)"
    by (simp add: step_log_from_dict_def stored_step_log_def)
      (simp add: step_log_to_dict_def need_text_def get_text_def dget_def dget_or_def py_str_def comp_def map_idI)
qed

interpretation artifacts: codec artifact_to_dict "artifact_from_dict fstr" stored_artifact for fstr
proof
  fix a
  have "tenant_field fstr (artifact_to_dict a) = stored_tenant (ar_tenant_id a)"
    by (rule tenant_field_stored) (simp add: artifact_to_dict_def dget_or_def)
  then show "artifact_from_dict fstr (artifact_to_dict a) = Inr (stored_artifact a)"
    by (simp add: artifact_from_dict_def stored_artifact_def) (simp add: artifact_to_dict_def need_text_def get_text_def dget_or_def)
qed

interpretation run_files: repository json_read_all "json_write_all sz limit" files_ok run_to_dict "run_from_dict fstr" stored_run
  for sz limit fstr ..

interpretation step_log_files: repository json_read_all "json_write_all sz limit" files_ok step_log_to_dict "step_log_from_dict fstr" stored_step_log
  for sz limit fstr ..

interpretation artifact_files: repository json_read_all "json_write_all sz limit" files_ok artifact_to_dict "artifact_from_dict fstr" stored_artifact
  for sz limit fstr ..


subsection \<open>The run repository on its files\<close>

definition run_load :: "(rat \<Rightarrow> string) \<Rightarrow> json_files \<Rightarrow> run_record list" where
  "run_load fstr f = repo_load json_read_all (run_from_dict fstr) f"

definition run_save :: "(dict list \<Rightarrow> nat) \<Rightarrow> nat \<Rightarrow> run_record list \<Rightarrow> json_files \<Rightarrow> json_files" where
  "run_save sz limit items f = repo_save (json_write_all sz limit) run_to_dict items f"

definition run_create :: "(dict list \<Rightarrow> nat) \<Rightarrow> nat \<Rightarrow> (rat \<Rightarrow> string) \<Rightarrow> run_record \<Rightarrow> json_files \<Rightarrow> exn + json_files" where
  "run_create sz limit fstr r f = bindE (runs_create r (run_load fstr f)) (\<lambda>items. Inr (run_save sz limit items f))"

definition run_upsert :: "(dict list \<Rightarrow> nat) \<Rightarrow> nat \<Rightarrow> (rat \<Rightarrow> string) \<Rightarrow> run_record \<Rightarrow> json_files \<Rightarrow> json_files" where
  "run_upsert sz limit fstr r f = run_save sz limit (runs_upsert r (run_load fstr f)) f"

definition run_get :: "(rat \<Rightarrow> string) \<Rightarrow> string \<Rightarrow> string option \<Rightarrow> json_files \<Rightarrow> run_record option" where
  "run_get fstr run_id tenant f = runs_get run_id tenant (run_load fstr f)"

definition run_key :: "run_record \<Rightarrow> string \<times> string" where
  "run_key r = (rr_run_id r, rr_tenant_id r)"

lemma same_run_key: "same_run r q \<longleftrightarrow> run_key q = run_key r"
  by (simp add: same_run_def run_key_def)

lemma runs_upsert_Cons:
  "runs_upsert r (q # items) =
     (if same_run (normalize_record r) q then normalize_record r # items else q # runs_upsert r items)"
  by (auto simp: runs_upsert_def Let_def split: option.splits)

lemma find_upsert:
  "find (\<lambda>q. run_key q = x) (runs_upsert r items) =
     (if run_key (normalize_record r) = x then Some (normalize_record r) else find (\<lambda>q. run_key q = x) items)"
proof (induction items)
  case Nil
  show ?case by (simp add: runs_upsert_def)
next
  case (Cons q items)
  then show ?case by (auto simp: runs_upsert_Cons same_run_key)
qed

lemma runs_get_tenant:
  assumes "t \<noteq> []"
  shows "runs_get run_id (Some t) items = find (\<lambda>q. run_key q = (py_strip run_id, norm_tenant (Some t))) items"
  using assms by (induction items) (auto simp: runs_get_def resolve_tenant_id_def or_empty_def Let_def run_key_def)

lemma find_stored:
  "\<forall>q \<in> set items. stored_tenant (rr_tenant_id q) = rr_tenant_id q \<Longrightarrow>
     find (\<lambda>q. run_key q = x) (map stored_run items) = map_option stored_run (find (\<lambda>q. run_key q = x) items)"
  by (induction items) (auto simp: run_key_def stored_run_def)

lemma norm_tenant_stored [simp]: "stored_tenant (norm_tenant v) = norm_tenant v"
  by (auto simp: stored_tenant_def norm_tenant_def Let_def py_strip_lower norm_default)

lemma normalize_tenant_stored [simp]: "stored_tenant (rr_tenant_id (normalize_record r)) = rr_tenant_id (normalize_record r)"
  by (simp add: normalize_record_def)

lemma tenant_field_norm: "stored_tenant (tenant_field fstr d) = tenant_field fstr d"
  by (auto simp: tenant_field_def norm_text_def stored_tenant_def Let_def py_strip_lower norm_default)

lemma run_load_tenants: "\<forall>q \<in> set (run_load fstr f). stored_tenant (rr_tenant_id q) = rr_tenant_id q"
  by (auto simp: run_load_def repo_load_def run_from_dict_def bindE_def tenant_field_norm split: sum.splits)

lemma upsert_tenants:
  "\<forall>q \<in> set items. stored_tenant (rr_tenant_id q) = rr_tenant_id q \<Longrightarrow>
     \<forall>q \<in> set (runs_upsert r items). stored_tenant (rr_tenant_id q) = rr_tenant_id q"
  by (induction items) (auto simp: runs_upsert_Cons, simp add: runs_upsert_def)

lemma run_load_upsert:
  "files_ok f \<Longrightarrow> run_load fstr (run_upsert sz limit fstr r f) = map stored_run (runs_upsert r (run_load fstr f))"
  unfolding run_upsert_def run_save_def run_load_def by (rule run_files.load_save)

lemma run_key_normalized: "run_key (normalize_record r) = (rr_run_id r, rr_tenant_id (normalize_record r))"
  by (simp add: run_key_def normalize_record_def)

lemma run_get_upsert:
  assumes "files_ok f" "t \<noteq> []"
  shows "run_get fstr run_id (Some t) (run_upsert sz limit fstr r f) =
    map_option stored_run (if (rr_run_id r, rr_tenant_id (normalize_record r)) = (py_strip run_id, norm_tenant (Some t))
      then Some (normalize_record r) else run_get fstr run_id (Some t) f)"
  unfolding run_get_def run_load_upsert [OF assms(1)] runs_get_tenant [OF assms(2)]
    find_stored [OF upsert_tenants [OF run_load_tenants]] find_upsert run_key_normalized ..

text \<open>C24: What the repository finds after a run has been put into well-formed files. A lookup in
  a tenant \<open>t\<close> (not the empty name) finds the run, in the form in which it comes back from
  JSON, exactly when the identifier asked for, without outer blanks, is the run's own and
  \<open>t\<close> is the tenant the run is filed under: the one its identifier names before the first
  colon, its own when the identifier names none. Every other lookup finds what it found
  before, up to that form; how the files are split plays no part. So a run whose
  identifier has outer blanks is never found, and a run of a tenant with a colon in its
  name is found under another tenant than its own.\<close>

theorem run_upsert_get:
  assumes "files_ok f" "t \<noteq> []"
  shows "run_get fstr run_id (Some t) (run_upsert sz limit fstr r f) =
    (if py_strip run_id = rr_run_id r \<and> norm_tenant (Some t) = rr_tenant_id (normalize_record r)
     then Some (stored_run (normalize_record r))
     else map_option stored_run (run_get fstr run_id (Some t) f))"
  by (auto simp: run_get_upsert [OF assms])

definition no_files :: json_files where
  "no_files = \<lparr>jf_base = [], jf_parts = []\<rparr>"

definition sample_run :: run_record where
  "sample_run = \<lparr>rr_run_id = ''team:1'', rr_pipeline_name = ''p'', rr_status = ''RUNNING'', rr_source = ''api'',
     rr_correlation_id = ''c'', rr_started_at = ''t'', rr_tenant_id = ''team'', rr_repository = None, rr_finished_at = None,
     rr_result = None, rr_error = None, rr_inputs = [], rr_idempotency_key = None, rr_override_state = None, rr_checkpoint = None\<rparr>"

lemma sample_normalized: "normalize_record sample_run = sample_run"
  by (simp add: normalize_record_def sample_run_def) (code_simp)

theorem run_upsert_get_witness:
  "run_get (\<lambda>_. []) ''team:1'' (Some ''Team'') (run_upsert length 10 (\<lambda>_. []) sample_run no_files) =
     Some (stored_run sample_run)"
proof -
  have "files_ok no_files" by (simp add: files_ok_def no_files_def)
  moreover have "py_strip ''team:1'' = ''team:1''" "norm_tenant (Some ''Team'') = ''team''" by code_simp+
  ultimately show ?thesis
    using run_upsert_get [of no_files "''Team''" "\<lambda>_. []" "''team:1''" length 10 sample_run]
    by (simp add: sample_normalized) (simp add: sample_run_def)
qed

text \<open>A run that has no repository has one when it is read again: the JSON \<open>null\<close> becomes the
  text \<open>none\<close>, which is then taken for a repository's name.\<close>

theorem run_without_repository:
  assumes "files_ok f" "rr_repository r = None" "py_strip (rr_run_id r) = rr_run_id r"
    and "norm_tenant (Some t) = rr_tenant_id (normalize_record r)" "t \<noteq> []"
  shows "\<exists>q. run_get fstr (rr_run_id r) (Some t) (run_upsert sz limit fstr r f) = Some q \<and> rr_repository q = Some ''none''"
proof -
  have "rr_repository (stored_run (normalize_record r)) = Some ''none''"
    using assms(2) by (simp add: stored_run_def normalize_record_def norm_repository_def or_empty_def stored_repository_def)
  with assms(3, 4) show ?thesis by (simp add: run_get_upsert [OF assms(1, 5)])
qed

theorem run_without_repository_witness:
  "\<exists>q. run_get (\<lambda>_. []) ''team:1'' (Some ''team'') (run_upsert length 10 (\<lambda>_. []) sample_run no_files) = Some q \<and>
     rr_repository q = Some ''none''"
proof -
  have "files_ok no_files" by (simp add: files_ok_def no_files_def)
  moreover have "py_strip ''team:1'' = ''team:1''" "norm_tenant (Some ''team'') = ''team''" by code_simp+
  moreover have "rr_run_id sample_run = ''team:1''" "rr_repository sample_run = None" "rr_tenant_id sample_run = ''team''"
    by (simp_all add: sample_run_def)
  ultimately show ?thesis
    using run_without_repository [of no_files sample_run "''team''" "\<lambda>_. []" length 10]
    by (simp add: sample_normalized)
qed

text \<open>A page of runs: only runs of the tenant asked for, at most 200 and at most the limit, the
  latest first.\<close>

lemma runs_list_page:
  assumes "items' = runs_list parse oldest q offset limit items"
  shows "set items' \<subseteq> set items" "length items' \<le> 200"
    "sorted_wrt (\<lambda>x y. started_time parse oldest y \<le> started_time parse oldest x) items'"
    "or_empty (rq_tenant_id q) \<noteq> [] \<Longrightarrow> \<forall>r \<in> set items'. rr_tenant_id r = norm_tenant (rq_tenant_id q)"
proof -
  obtain run_id tenant where f: "items' = take (nat (max 1 (min 200 limit))) (drop (nat (max 0 offset))
      (sort_desc (started_time parse oldest) (filter_runs parse oldest run_id tenant q items)))"
    and t: "or_empty (rq_tenant_id q) \<noteq> [] \<Longrightarrow> tenant = Some (norm_tenant (rq_tenant_id q))"
    using assms by (auto simp: runs_list_def Let_def resolve_tenant_id_def)
  have sub: "set items' \<subseteq> set (filter_runs parse oldest run_id tenant q items)"
    unfolding f by (auto dest!: in_set_takeD in_set_dropD)
  then show "set items' \<subseteq> set items" by (auto simp: filter_runs_def)
  show "length items' \<le> 200" by (simp add: f)
  show "sorted_wrt (\<lambda>x y. started_time parse oldest y \<le> started_time parse oldest x) items'"
    unfolding f by (intro sorted_wrt_take sorted_wrt_drop sorted_sort_desc)
  show "\<forall>r \<in> set items'. rr_tenant_id r = norm_tenant (rq_tenant_id q)" if "or_empty (rq_tenant_id q) \<noteq> []"
  proof -
    have "norm_tenant v \<noteq> []" for v by (simp add: norm_tenant_def Let_def)
    with sub t [OF that] show ?thesis by (auto simp: filter_runs_def wanted_def or_empty_def)
  qed
qed

end
