(* ===== verification/Redaction.thy ===== *)
theory Redaction
  imports PyValue
begin

text \<open>
  \<open>logging_utils.py\<close>: what is taken out of log lines, stored records and responses. The
  regular expressions are written out as matchers: the length of the match at the start
  of a text, if there is one; their character classes make the greedy match the only one.
\<close>

definition REDACTED :: string where
  "REDACTED = ''[REDACTED]''"

definition sensitive_markers :: "string list" where
  "sensitive_markers = [''token'', ''secret'', ''password'', ''api_key'', ''apikey'', ''authorization'', ''private_key'']"

definition is_sensitive_key :: "string option \<Rightarrow> bool" where
  "is_sensitive_key key =
     (case key of None \<Rightarrow> False
      | Some k \<Rightarrow> k \<noteq> [] \<and> list_ex (\<lambda>m. contains m (py_lower k)) sensitive_markers)"

subsection \<open>Patterns\<close>

definition is_alnum :: "char \<Rightarrow> bool" where
  "is_alnum c \<longleftrightarrow> is_digit c \<or> (let n = (of_char c :: nat) in 65 \<le> n \<and> n \<le> 90 \<or> 97 \<le> n \<and> n \<le> 122)"

definition token_char :: "char \<Rightarrow> bool" where
  "token_char c \<longleftrightarrow> is_alnum c \<or> c = CHR ''_''"

definition bearer_char :: "char \<Rightarrow> bool" where
  "bearer_char c \<longleftrightarrow> is_alnum c \<or> c \<in> set ''._+/=-''"

definition span :: "('a \<Rightarrow> bool) \<Rightarrow> 'a list \<Rightarrow> nat" where
  "span P s = length (takeWhile P s)"

definition match_pat :: "string \<Rightarrow> nat option" where
  "match_pat s =
     (if starts_with ''github_pat_'' s \<and> 20 \<le> span token_char (drop 11 s)
      then Some (11 + span token_char (drop 11 s)) else None)"

definition match_gh :: "string \<Rightarrow> nat option" where
  "match_gh s =
     (if list_ex (\<lambda>c. starts_with [CHR ''g'', CHR ''h'', c, CHR ''_''] s) ''pousr'' \<and> 20 \<le> span token_char (drop 4 s)
      then Some (4 + span token_char (drop 4 s)) else None)"

definition match_bearer :: "string \<Rightarrow> nat option" where
  "match_bearer s =
     (let sp = span py_isspace (drop 6 s); n = span bearer_char (drop (6 + sp) s) in
      if starts_with ''bearer'' (py_lower s) \<and> 1 \<le> sp \<and> 8 \<le> n then Some (6 + sp + n) else None)"

text \<open>\<open>pattern.sub(REDACTED, s)\<close>; every match is longer than nothing.\<close>

function sub_redacted :: "(string \<Rightarrow> nat option) \<Rightarrow> string \<Rightarrow> string" where
  "sub_redacted m [] = []"
| "sub_redacted m (c # s) =
     (case m (c # s) of
        Some (Suc n) \<Rightarrow> REDACTED @ sub_redacted m (drop n s)
      | _ \<Rightarrow> c # sub_redacted m s)"
  by pat_completeness auto
termination by (relation "measure (\<lambda>(m, s). length s)") auto

definition redact_string_value :: "string \<Rightarrow> string" where
  "redact_string_value s = sub_redacted match_bearer (sub_redacted match_gh (sub_redacted match_pat s))"

fun redact_sensitive_data :: "string option \<Rightarrow> pyval \<Rightarrow> pyval" where
  "redact_sensitive_data key (PDict d) =
     (if is_sensitive_key key then PStr REDACTED
      else PDict (map (\<lambda>(k, v). (k, redact_sensitive_data (Some k) v)) d))"
| "redact_sensitive_data key (PList xs) =
     (if is_sensitive_key key then PStr REDACTED else PList (map (redact_sensitive_data key) xs))"
| "redact_sensitive_data key (PStr s) =
     (if is_sensitive_key key then PStr REDACTED else PStr (redact_string_value s))"
| "redact_sensitive_data key v = (if is_sensitive_key key then PStr REDACTED else v)"

definition redact_mapping :: "dict \<Rightarrow> dict" where
  "redact_mapping d = map (\<lambda>(k, v). (k, redact_sensitive_data (Some k) v)) d"

subsection \<open>Nothing is left to redact\<close>

text \<open>A matcher that the replacement cannot feed: a match never starts in a \<open>[REDACTED]\<close>, and one
  that begins before a bracket does not need it.\<close>

fun matches :: "(string \<Rightarrow> nat option) \<Rightarrow> string \<Rightarrow> bool" where
  "matches m [] = False"
| "matches m (c # s) = (m (c # s) \<noteq> None \<or> matches m s)"

definition bounded_matcher :: "(string \<Rightarrow> nat option) \<Rightarrow> bool" where
  "bounded_matcher m \<longleftrightarrow>
     (\<forall>s. m s \<noteq> Some 0) \<and>
     (\<forall>p q s. REDACTED = p @ q \<longrightarrow> q \<noteq> [] \<longrightarrow> m (q @ s) = None) \<and>
     (\<forall>u v w. m (u @ CHR ''['' # v) \<noteq> None \<longrightarrow> CHR ''['' \<notin> set u \<longrightarrow> m (u @ w) \<noteq> None)"

lemma sub_hit: "m (c # s) = Some (Suc n) \<Longrightarrow> sub_redacted m (c # s) = REDACTED @ sub_redacted m (drop n s)"
  by simp

lemma sub_miss: "m (c # s) = None \<or> m (c # s) = Some 0 \<Longrightarrow> sub_redacted m (c # s) = c # sub_redacted m s"
  by auto

lemma hit_or_miss:
  obtains n where "m s = Some (Suc n)" | "m s = None \<or> m s = Some 0"
  by (cases "m s") (auto, metis not0_implies_Suc)

declare sub_redacted.simps(2) [simp del]

lemma REDACTED_Cons: "\<exists>r. REDACTED = CHR ''['' # r"
  by (simp add: REDACTED_def)

text \<open>Up to the first bracket the replaced text is the old one.\<close>

lemma sub_prefix:
  "(CHR ''['' \<notin> set (sub_redacted m s) \<longrightarrow> sub_redacted m s = s) \<and>
   (\<exists>w. s = takeWhile (\<lambda>x. x \<noteq> CHR ''['') (sub_redacted m s) @ w)"
proof (induction m s rule: sub_redacted.induct)
  case (2 m c s)
  obtain r where r: "REDACTED = CHR ''['' # r" using REDACTED_Cons by blast
  show ?case
  proof (rule hit_or_miss [of m "c # s"])
    fix n assume "m (c # s) = Some (Suc n)"
    then have "sub_redacted m (c # s) = CHR ''['' # r @ sub_redacted m (drop n s)" by (simp add: sub_hit r)
    then show ?thesis by simp
  next
    assume z: "m (c # s) = None \<or> m (c # s) = Some 0"
    then have "(CHR ''['' \<notin> set (sub_redacted m s) \<longrightarrow> sub_redacted m s = s) \<and>
        (\<exists>w. s = takeWhile (\<lambda>x. x \<noteq> CHR ''['') (sub_redacted m s) @ w)" using 2(1, 2) by blast
    then show ?thesis by (auto simp: sub_miss [of m c s, OF z])
  qed
qed simp

lemma match_before:
  assumes "bounded_matcher m" "m (c # sub_redacted m' s) \<noteq> None"
  shows "m (c # s) \<noteq> None"
proof (cases "CHR ''['' \<in> set (c # sub_redacted m' s)")
  case True
  let ?t = "c # sub_redacted m' s"
  let ?u = "takeWhile (\<lambda>x. x \<noteq> CHR ''['') ?t"
  obtain u v where uv: "?t = u @ CHR ''['' # v" "CHR ''['' \<notin> set u"
    using split_list_first [OF True] by blast
  have u: "u = ?u" using uv by (simp add: takeWhile_append)
  obtain w where w: "c # s = u @ w"
  proof (cases "c = CHR ''[''")
    case True
    with u that [of "c # s"] show ?thesis by simp
  next
    case False
    obtain w where "s = takeWhile (\<lambda>x. x \<noteq> CHR ''['') (sub_redacted m' s) @ w" using sub_prefix by blast
    with False u that [of w] show ?thesis by simp
  qed
  have "m (u @ CHR ''['' # v) \<noteq> None" using assms(2) uv(1) by simp
  with assms(1) uv(2) have "m (u @ w) \<noteq> None" unfolding bounded_matcher_def by blast
  with w show ?thesis by simp
next
  case False
  then have "CHR ''['' \<notin> set (sub_redacted m' s)" by simp
  with sub_prefix [of m' s] have "sub_redacted m' s = s" by blast
  with assms(2) show ?thesis by simp
qed

text \<open>A match of \<open>m\<close> where \<open>m'\<close> has none.\<close>

fun unhit :: "(string \<Rightarrow> nat option) \<Rightarrow> (string \<Rightarrow> nat option) \<Rightarrow> string \<Rightarrow> bool" where
  "unhit m m' [] = False"
| "unhit m m' (c # s) = (m (c # s) \<noteq> None \<and> (m' (c # s) = None \<or> m' (c # s) = Some 0) \<or> unhit m m' s)"

lemma unhit_drop: "unhit m m' (drop n s) \<Longrightarrow> unhit m m' s"
  by (induction s arbitrary: n) (auto simp: drop_Cons' split: if_splits)

lemma matches_skip_REDACTED:
  assumes "bounded_matcher m"
  shows "REDACTED = p @ q \<Longrightarrow> matches m (q @ t) \<Longrightarrow> matches m t"
proof (induction q arbitrary: p)
  case (Cons x q)
  have "m ((x # q) @ t) = None" using assms Cons.prems(1) unfolding bounded_matcher_def by blast
  with Cons.prems(2) have "matches m (q @ t)" by simp
  moreover have "REDACTED = (p @ [x]) @ q" using Cons.prems(1) by simp
  ultimately show ?case by (rule Cons.IH [rotated])
qed simp

lemma sub_matches:
  assumes "bounded_matcher m"
  shows "matches m (sub_redacted m' s) \<Longrightarrow> unhit m m' s"
proof (induction m' s rule: sub_redacted.induct)
  case (2 m' c s)
  show ?case
  proof (rule hit_or_miss [of m' "c # s"])
    fix n assume n: "m' (c # s) = Some (Suc n)"
    have "matches m (REDACTED @ sub_redacted m' (drop n s))" using 2(4) by (simp only: sub_hit [of m' c s n, OF n])
    then have "matches m (sub_redacted m' (drop n s))" using matches_skip_REDACTED [OF assms, of "[]" REDACTED] by simp
    with 2(3) [OF n refl] unhit_drop show ?thesis by auto
  next
    assume z: "m' (c # s) = None \<or> m' (c # s) = Some 0"
    have "m (c # sub_redacted m' s) \<noteq> None \<or> matches m (sub_redacted m' s)"
      using 2(4) by (simp only: sub_miss [of m' c s, OF z] matches.simps)
    then show ?thesis
    proof
      assume "m (c # sub_redacted m' s) \<noteq> None"
      with match_before [OF assms] z show ?thesis by auto
    next
      assume "matches m (sub_redacted m' s)"
      with z 2(1, 2) show ?thesis by auto
    qed
  qed
qed simp

lemma unhit_same: "bounded_matcher m \<Longrightarrow> \<not> unhit m m s"
  by (induction s) (auto simp: bounded_matcher_def)

lemma unhit_matches: "unhit m m' s \<Longrightarrow> matches m s"
  by (induction s) auto

lemma sub_no_match: "bounded_matcher m \<Longrightarrow> \<not> matches m (sub_redacted m s)"
  using sub_matches unhit_same by blast

lemma sub_keeps_no_match: "bounded_matcher m \<Longrightarrow> \<not> matches m s \<Longrightarrow> \<not> matches m (sub_redacted m' s)"
  using sub_matches unhit_matches by blast

lemma sub_no_change: "\<not> matches m s \<Longrightarrow> sub_redacted m s = s"
  by (induction s) (auto simp: sub_miss)

subsection \<open>The three patterns\<close>

lemma span_append_stop: "\<not> P x \<Longrightarrow> span P (u @ x # v) = span P u"
  by (induction u) (auto simp: span_def)

lemma span_append_le: "span P u \<le> span P (u @ w)"
  by (induction u) (auto simp: span_def)

lemma starts_with_stop: "starts_with p (u @ x # v) \<Longrightarrow> x \<notin> set p \<Longrightarrow> \<exists>t. u = p @ t"
  by (induction p u rule: starts_with.induct) auto

lemma not_bracket: "\<not> token_char CHR ''[''" "\<not> bearer_char CHR ''[''" "\<not> py_isspace CHR ''[''" "lower_char CHR ''['' = CHR ''[''"
  by code_simp+

lemma token_matcher:
  assumes "starts_with p (u @ CHR ''['' # v)" "n \<le> span token_char (drop k (u @ CHR ''['' # v))"
    and "CHR ''['' \<notin> set p" "length p = k"
  shows "starts_with p (u @ w)" "n \<le> span token_char (drop k (u @ w))"
proof -
  obtain t where t: "u = p @ t" using starts_with_stop [OF assms(1, 3)] by blast
  with assms(2, 4) have "n \<le> span token_char t" by (simp add: span_append_stop not_bracket)
  with span_append_le [of token_char t w] t assms(4)
  show "starts_with p (u @ w)" "n \<le> span token_char (drop k (u @ w))" by (simp_all add: starts_with_iff)
qed

lemma redacted_suffix:
  "REDACTED = p @ q \<Longrightarrow> q \<noteq> [] \<Longrightarrow> q \<in> set (map (\<lambda>i. drop i REDACTED) [0..<10])"
proof -
  assume a: "REDACTED = p @ q" "q \<noteq> []"
  have l: "length REDACTED = 10" by (simp add: REDACTED_def)
  with a have "length p < 10" by (metis length_append length_greater_0_conv less_add_same_cancel1)
  moreover have "q = drop (length p) REDACTED" unfolding a(1) by simp
  ultimately show ?thesis by auto
qed

lemma bounded_pat: "bounded_matcher match_pat"
  unfolding bounded_matcher_def
proof (intro conjI allI impI)
  fix p q s assume "REDACTED = p @ q" "q \<noteq> []"
  from redacted_suffix [OF this] show "match_pat (q @ s) = None"
    by (auto simp: REDACTED_def match_pat_def upt_rec numeral_nat)
next
  fix u v w assume "match_pat (u @ CHR ''['' # v) \<noteq> None"
  then have "starts_with ''github_pat_'' (u @ CHR ''['' # v)" "20 \<le> span token_char (drop 11 (u @ CHR ''['' # v))"
    by (simp_all add: match_pat_def del: drop_append split: if_splits)
  from token_matcher [OF this] show "match_pat (u @ w) \<noteq> None"
    by (simp add: match_pat_def del: drop_append)
qed (simp add: match_pat_def)

lemma bounded_gh: "bounded_matcher match_gh"
  unfolding bounded_matcher_def
proof (intro conjI allI impI)
  fix p q s assume "REDACTED = p @ q" "q \<noteq> []"
  from redacted_suffix [OF this] show "match_gh (q @ s) = None"
    by (auto simp: REDACTED_def match_gh_def upt_rec numeral_nat)
next
  fix u v w assume "match_gh (u @ CHR ''['' # v) \<noteq> None"
  then obtain c where c: "c \<in> set ''pousr''" and m: "starts_with [CHR ''g'', CHR ''h'', c, CHR ''_''] (u @ CHR ''['' # v)"
      "20 \<le> span token_char (drop 4 (u @ CHR ''['' # v))"
    by (auto simp: match_gh_def list_ex_iff simp del: drop_append split: if_splits)
  from token_matcher [OF m, of w] c show "match_gh (u @ w) \<noteq> None"
    by (auto simp: match_gh_def list_ex_iff simp del: drop_append)
qed (simp add: match_gh_def)


lemma span_le: "span P s \<le> length s"
  by (simp add: span_def length_takeWhile_le)

lemma span_append_inside: "span P s < length s \<Longrightarrow> span P (s @ w) = span P s"
  by (induction s) (auto simp: span_def)

lemma drop_span: "drop (span P s) s = x # r \<Longrightarrow> \<not> P x"
  by (induction s) (auto simp: span_def split: if_splits)

lemma bounded_bearer: "bounded_matcher match_bearer"
  unfolding bounded_matcher_def
proof (intro conjI allI impI)
  fix p q s assume pq: "REDACTED = p @ q" "q \<noteq> []"
  have "py_lower REDACTED = ''[redacted]''" by code_simp
  moreover have "q \<in> set (map (\<lambda>i. drop i REDACTED) [0..<10])" by (rule redacted_suffix [OF pq])
  moreover have "py_lower (drop i REDACTED) = drop i (py_lower REDACTED)" for i
    by (simp add: py_lower_def drop_map)
  ultimately have "py_lower q \<in> set (map (\<lambda>i. drop i ''[redacted]'') [0..<10])"
    by auto
  then have "\<not> starts_with ''bearer'' (py_lower q @ py_lower s)"
    by (auto simp: upt_rec numeral_nat)
  then show "match_bearer (q @ s) = None"
    by (simp add: match_bearer_def Let_def py_lower_def)
next
  fix u v w assume m: "match_bearer (u @ CHR ''['' # v) \<noteq> None"
  let ?s = "u @ CHR ''['' # v"
  have c: "starts_with ''bearer'' (py_lower ?s)" "1 \<le> span py_isspace (drop 6 ?s)"
    "8 \<le> span bearer_char (drop (6 + span py_isspace (drop 6 ?s)) ?s)"
    using m by (simp_all add: match_bearer_def Let_def del: drop_append split: if_splits)
  from c(1) have "starts_with ''bearer'' (py_lower u @ CHR ''['' # py_lower v)"
    by (simp add: py_lower_def not_bracket)
  from starts_with_stop [OF this] obtain t where t: "py_lower u = ''bearer'' @ t" by auto
  then have "length (py_lower u) = 6 + length t" by simp
  then have l: "6 \<le> length u" by (simp add: py_lower_def)
  let ?t = "drop 6 u"
  let ?sp = "span py_isspace ?t"
  have d: "drop 6 (u @ x) = ?t @ x" for x using l by simp
  have sp: "span py_isspace (drop 6 ?s) = ?sp" unfolding d by (rule span_append_stop) (rule not_bracket)
  have dd: "drop (6 + ?sp) (u @ x) = drop ?sp ?t @ x" for x
    using span_le [of py_isspace ?t] l by (simp add: add.commute)
  have n: "8 \<le> span bearer_char (drop ?sp ?t)"
    using c(3) unfolding sp dd by (simp only: span_append_stop not_bracket not_False_eq_True)
  then have "drop ?sp ?t \<noteq> []" by (auto simp: span_def)
  then have "?sp < length ?t" by simp
  then have spw: "span py_isspace (drop 6 (u @ w)) = ?sp" unfolding d by (rule span_append_inside)
  have "8 \<le> span bearer_char (drop (6 + ?sp) (u @ w))"
    using n span_append_le [of bearer_char "drop ?sp ?t" w] unfolding dd by linarith
  moreover have "starts_with ''bearer'' (py_lower (u @ w))"
    using t by (simp add: py_lower_def starts_with_iff)
  ultimately show "match_bearer (u @ w) \<noteq> None"
    using c(2) by (simp add: match_bearer_def Let_def spw sp del: drop_append)
qed (simp add: match_bearer_def Let_def)


subsection \<open>Redacted values\<close>

definition no_secret :: "string \<Rightarrow> bool" where
  "no_secret s \<longleftrightarrow> \<not> matches match_pat s \<and> \<not> matches match_gh s \<and> \<not> matches match_bearer s"

lemma redact_string_no_secret: "no_secret (redact_string_value s)"
  unfolding no_secret_def redact_string_value_def
  by (intro conjI sub_keeps_no_match sub_no_match bounded_pat bounded_gh bounded_bearer)

lemma no_secret_unchanged: "no_secret s \<Longrightarrow> redact_string_value s = s"
  by (simp add: no_secret_def redact_string_value_def sub_no_change)

text \<open>No text in the value has a secret, and what stands under a sensitive key is the marker.\<close>

fun clean :: "string option \<Rightarrow> pyval \<Rightarrow> bool" where
  "clean key (PDict d) \<longleftrightarrow> \<not> is_sensitive_key key \<and> list_all (\<lambda>p. clean (Some (fst p)) (snd p)) d"
| "clean key (PList xs) \<longleftrightarrow> \<not> is_sensitive_key key \<and> list_all (clean key) xs"
| "clean key (PStr s) \<longleftrightarrow> s = REDACTED \<or> \<not> is_sensitive_key key \<and> no_secret s"
| "clean key v \<longleftrightarrow> \<not> is_sensitive_key key"

lemma redact_clean: "clean key (redact_sensitive_data key v)"
proof (induction key v rule: redact_sensitive_data.induct)
  case (1 key d)
  then show ?case by (auto simp: list_all_iff case_prod_unfold)
next
  case (2 key xs)
  then show ?case by (auto simp: list_all_iff)
qed (simp_all add: redact_string_no_secret)

lemma REDACTED_no_secret: "no_secret REDACTED"
  by code_simp

lemma clean_unchanged: "clean key v \<Longrightarrow> redact_sensitive_data key v = v"
proof (induction key v rule: clean.induct)
  case (1 key d)
  then have "map (\<lambda>(k, v). (k, redact_sensitive_data (Some k) v)) d = d"
    by (intro map_idI) (auto simp: list_all_iff)
  with 1 show ?case by simp
next
  case (2 key xs)
  then have "map (redact_sensitive_data key) xs = xs" by (intro map_idI) (auto simp: list_all_iff)
  with 2 show ?case by simp
next
  case (3 key s)
  then show ?case using no_secret_unchanged REDACTED_no_secret by auto
qed simp_all

text \<open>C23: A redacted value has no GitHub or bearer token in any text value at any depth (keys of
  dictionaries are left as they are), shows only the marker under every sensitive key, and is
  left alone by another redaction: replacing one secret never makes another one appear.\<close>

theorem redaction_complete:
  "clean key (redact_sensitive_data key v) \<and>
   redact_sensitive_data key (redact_sensitive_data key v) = redact_sensitive_data key v"
  using redact_clean clean_unchanged by blast

lemma redact_mapping_clean: "clean None (PDict (redact_mapping d))"
  using redact_clean [of None "PDict d"] by (simp add: redact_mapping_def is_sensitive_key_def)

end
