(* ===== verification/TaskQueue.thy ===== *)
theory TaskQueue
  imports PyValue "HOL-Library.Sublist"
begin

text \<open>
  \<open>scheduler/task_queue.py\<close>: queued pipeline requests and the in-memory queue. What a
  queue promises is the locale \<open>fifo_queue\<close>: a queue is refined to the list of pending
  task identifiers (\<open>fifo_serve\<close>); interleaved requests and claims get from it what they get
  from that list. Identifiers and times are arguments; that \<open>uuid4\<close> draws a fresh
  identifier is a hypothesis where it matters. The lock makes every method atomic, so a
  concurrent use is a sequence of calls.
\<close>

subsection \<open>Tasks\<close>

record queue_task_request =
  qr_pipeline_name :: string
  qr_inputs :: dict
  qr_source :: string
  qr_correlation_id :: string
  qr_tenant_id :: string
  qr_repository :: "string option"
  qr_idempotency_key :: "string option"

record queue_task =
  qt_task_id :: string
  qt_pipeline_name :: string
  qt_inputs :: dict
  qt_source :: string
  qt_correlation_id :: string
  qt_tenant_id :: string
  qt_repository :: "string option"
  qt_idempotency_key :: "string option"
  qt_status :: string
  qt_created_at :: string
  qt_started_at :: "string option"
  qt_finished_at :: "string option"
  qt_result :: "dict option"
  qt_error :: "string option"

fun opt_str :: "string option \<Rightarrow> pyval" where
  "opt_str None = PNone" | "opt_str (Some s) = PStr s"

definition queue_task_to_dict :: "queue_task \<Rightarrow> dict" where
  "queue_task_to_dict t =
     [(''task_id'', PStr (qt_task_id t)), (''pipeline_name'', PStr (qt_pipeline_name t)),
      (''inputs'', PDict (qt_inputs t)), (''source'', PStr (qt_source t)),
      (''correlation_id'', PStr (qt_correlation_id t)), (''tenant_id'', PStr (qt_tenant_id t)),
      (''repository_full_name'', opt_str (qt_repository t)),
      (''idempotency_key'', opt_str (qt_idempotency_key t)), (''status'', PStr (qt_status t)),
      (''created_at'', PStr (qt_created_at t)), (''started_at'', opt_str (qt_started_at t)),
      (''finished_at'', opt_str (qt_finished_at t)),
      (''result'', case qt_result t of None \<Rightarrow> PNone | Some r \<Rightarrow> PDict r), (''error'', opt_str (qt_error t))]"

text \<open>The task \<open>enqueue\<close> builds: tenant and repository are stripped and in lower case.\<close>

definition new_task :: "string \<Rightarrow> string \<Rightarrow> queue_task_request \<Rightarrow> queue_task" where
  "new_task task_id now r =
     \<lparr>qt_task_id = task_id, qt_pipeline_name = qr_pipeline_name r, qt_inputs = qr_inputs r,
      qt_source = qr_source r, qt_correlation_id = qr_correlation_id r,
      qt_tenant_id = (let t = py_lower (py_strip (qr_tenant_id r)) in if t = [] then ''default'' else t),
      qt_repository = (case qr_repository r of None \<Rightarrow> None
                       | Some s \<Rightarrow> if s = [] then None else Some (py_lower (py_strip s))),
      qt_idempotency_key = qr_idempotency_key r, qt_status = ''QUEUED'', qt_created_at = now,
      qt_started_at = None, qt_finished_at = None, qt_result = None, qt_error = None\<rparr>"

subsection \<open>The contract of a queue\<close>

text \<open>
  An interleaving of requests (\<open>Inl\<close>) and claims of at most so many tasks, one at least
  (\<open>Inr\<close>), with what each claim gets; and the same on a list of pending identifiers.
\<close>

fun serve ::
  "('r \<Rightarrow> 'q \<Rightarrow> 'q) \<Rightarrow> (int \<Rightarrow> 'q \<Rightarrow> 'i list \<times> 'q) \<Rightarrow> ('r + int) list \<Rightarrow> 'q \<Rightarrow> 'i list list \<times> 'q" where
  "serve put claim [] q = ([], q)"
| "serve put claim (Inl r # es) q = serve put claim es (put r q)"
| "serve put claim (Inr n # es) q =
     (let (is, q1) = claim n q; (out, q2) = serve put claim es q1 in (is # out, q2))"

fun fifo_serve :: "('i + int) list \<Rightarrow> 'i list \<Rightarrow> 'i list list \<times> 'i list" where
  "fifo_serve [] ids = ([], ids)"
| "fifo_serve (Inl i # es) ids = fifo_serve es (ids @ [i])"
| "fifo_serve (Inr n # es) ids =
     (let k = nat (max 1 n); (out, ids') = fifo_serve es (drop k ids) in (take k ids # out, ids'))"

definition requests :: "('r + int) list \<Rightarrow> 'r list" where
  "requests es = List.map_filter (\<lambda>e. case e of Inl r \<Rightarrow> Some r | Inr n \<Rightarrow> None) es"

lemma requests_simps [simp]:
  "requests [] = []" "requests (Inl r # es) = r # requests es" "requests (Inr n # es) = requests es"
  by (simp_all add: requests_def List.map_filter_simps)

text \<open>Whatever is asked for, all that is served and what is left is what was there and was added, in order.\<close>

lemma fifo_serve_order:
  "fifo_serve es ids = (out, ids') \<Longrightarrow> concat out @ ids' = ids @ requests es"
proof (induction es arbitrary: ids out)
  case (Cons e es)
  show ?case
  proof (cases e)
    case (Inl i)
    with Cons.prems have "fifo_serve es (ids @ [i]) = (out, ids')" by simp
    from Cons.IH [OF this] Inl show ?thesis by simp
  next
    case (Inr n)
    with Cons.prems obtain js where "fifo_serve es (drop (nat (max 1 n)) ids) = (js, ids')" "out = take (nat (max 1 n)) ids # js"
      by (auto simp: Let_def split: prod.splits)
    with Cons.IH [OF this(1)] Inr show ?thesis by (simp add: append.assoc [symmetric] del: append.assoc)
  qed
qed simp

lemma requests_map: "requests (map (map_sum f g) es) = map f (requests es)"
proof (induction es)
  case (Cons e es)
  then show ?case by (cases e) simp_all
qed simp

locale fifo_queue =
  fixes pending :: "'q \<Rightarrow> 'i list"
    and known :: "'q \<Rightarrow> 'i set"
    and inv :: "'q \<Rightarrow> bool"
    and id_of :: "'r \<Rightarrow> 'i"
    and put :: "'r \<Rightarrow> 'q \<Rightarrow> 'q"
    and claim :: "int \<Rightarrow> 'q \<Rightarrow> 'i list \<times> 'q"
  assumes put_inv: "inv q \<Longrightarrow> id_of r \<notin> known q \<Longrightarrow> inv (put r q)"
    and put_pending: "inv q \<Longrightarrow> id_of r \<notin> known q \<Longrightarrow> pending (put r q) = pending q @ [id_of r]"
    and put_known: "known (put r q) = insert (id_of r) (known q)"
    and claim_inv: "inv q \<Longrightarrow> claim n q = (is, q') \<Longrightarrow> inv q'"
    and claim_takes: "inv q \<Longrightarrow> claim n q = (is, q') \<Longrightarrow> is = take (nat (max 1 n)) (pending q)"
    and claim_leaves: "inv q \<Longrightarrow> claim n q = (is, q') \<Longrightarrow> pending q' = drop (nat (max 1 n)) (pending q)"
    and claim_known: "inv q \<Longrightarrow> claim n q = (is, q') \<Longrightarrow> known q' = known q"
begin

lemma serve_in_order:
  assumes "inv q" "distinct (map id_of (requests es))" "set (map id_of (requests es)) \<inter> known q = {}"
    and "serve put claim es q = (out, q')"
  shows "inv q' \<and> fifo_serve (map (map_sum id_of (\<lambda>n. n)) es) (pending q) = (out, pending q')"
  using assms
proof (induction es arbitrary: q out)
  case (Cons e es)
  show ?case
  proof (cases e)
    case (Inl r)
    then have "inv (put r q)" "pending (put r q) = pending q @ [id_of r]"
      using Cons.prems put_inv put_pending by auto
    with Cons.IH [of "put r q" out] Cons.prems Inl put_known [of r q] show ?thesis by simp
  next
    case (Inr n)
    obtain "is" q1 where c: "claim n q = (is, q1)" by (cases "claim n q")
    obtain js where s: "serve put claim es q1 = (js, q')" "out = is # js"
      using Cons.prems(4) c Inr by (auto split: prod.splits)
    note k = claim_inv [OF Cons.prems(1) c] claim_takes [OF Cons.prems(1) c] claim_leaves [OF Cons.prems(1) c]
      claim_known [OF Cons.prems(1) c]
    have "inv q' \<and> fifo_serve (map (map_sum id_of (\<lambda>n. n)) es) (pending q1) = (js, pending q')"
      using Cons.IH [OF k(1) _ _ s(1)] Cons.prems(2, 3) Inr k(4) by simp
    with k(2, 3) s(2) Inr show ?thesis by simp
  qed
qed auto

text \<open>A claim large enough serves everything that is pending.\<close>

lemma claim_all: "inv q \<Longrightarrow> claim n q = (is, q') \<Longrightarrow> int (length (pending q)) \<le> n \<Longrightarrow> is = pending q \<and> pending q' = []"
  using claim_takes claim_leaves by fastforce

end

subsection \<open>The in-memory queue\<close>

record memory_queue =
  mq_tasks :: "(string \<times> queue_task) list"
  mq_queue :: "string list"

definition empty_queue :: memory_queue where
  "empty_queue = \<lparr>mq_tasks = [], mq_queue = []\<rparr>"

definition enqueue :: "string \<Rightarrow> string \<Rightarrow> queue_task_request \<Rightarrow> memory_queue \<Rightarrow> queue_task \<times> memory_queue" where
  "enqueue task_id now r q =
     (let task = new_task task_id now r in
      (task, \<lparr>mq_tasks = AList.update (qt_task_id task) task (mq_tasks q), mq_queue = mq_queue q @ [qt_task_id task]\<rparr>))"

text \<open>The loop of \<open>claim_next\<close>; \<open>now i\<close> is the clock at the claim of the \<open>i\<close>-th task.\<close>

fun claim_loop ::
  "(nat \<Rightarrow> string) \<Rightarrow> nat \<Rightarrow> queue_task list \<Rightarrow> (string \<times> queue_task) list \<Rightarrow> string list \<Rightarrow>
     queue_task list \<times> memory_queue" where
  "claim_loop now target claimed tasks [] = (claimed, \<lparr>mq_tasks = tasks, mq_queue = []\<rparr>)"
| "claim_loop now target claimed tasks (i # queue) =
     (if length claimed \<ge> target then (claimed, \<lparr>mq_tasks = tasks, mq_queue = i # queue\<rparr>)
      else case map_of tasks i of
             None \<Rightarrow> claim_loop now target claimed tasks queue
           | Some t \<Rightarrow>
               if qt_status t \<noteq> ''QUEUED'' then claim_loop now target claimed tasks queue
               else let t' = t\<lparr>qt_status := ''RUNNING'', qt_started_at := Some (now (length claimed))\<rparr> in
                 claim_loop now target (claimed @ [t']) (AList.update i t' tasks) queue)"

definition claim_next :: "(nat \<Rightarrow> string) \<Rightarrow> int \<Rightarrow> memory_queue \<Rightarrow> queue_task list \<times> memory_queue" where
  "claim_next now max_items q = claim_loop now (nat (max 1 max_items)) [] (mq_tasks q) (mq_queue q)"

definition task_not_found :: "string \<Rightarrow> exn" where
  "task_not_found task_id = KeyError (''Queue task not found: '' @ task_id)"

definition mark_succeeded ::
  "string \<Rightarrow> string \<Rightarrow> dict \<Rightarrow> memory_queue \<Rightarrow> exn + queue_task \<times> memory_queue" where
  "mark_succeeded now task_id result q =
     (case map_of (mq_tasks q) task_id of
        None \<Rightarrow> Inl (task_not_found task_id)
      | Some t \<Rightarrow>
          let t' = t\<lparr>qt_status := ''SUCCEEDED'', qt_finished_at := Some now, qt_result := Some result, qt_error := None\<rparr>
          in Inr (t', q\<lparr>mq_tasks := AList.update task_id t' (mq_tasks q)\<rparr>))"

definition mark_failed ::
  "string \<Rightarrow> string \<Rightarrow> string \<Rightarrow> memory_queue \<Rightarrow> exn + queue_task \<times> memory_queue" where
  "mark_failed now task_id error q =
     (case map_of (mq_tasks q) task_id of
        None \<Rightarrow> Inl (task_not_found task_id)
      | Some t \<Rightarrow>
          let t' = t\<lparr>qt_status := ''FAILED'', qt_finished_at := Some now, qt_error := Some error\<rparr>
          in Inr (t', q\<lparr>mq_tasks := AList.update task_id t' (mq_tasks q)\<rparr>))"

definition queue_get :: "string \<Rightarrow> memory_queue \<Rightarrow> queue_task option" where
  "queue_get task_id q = map_of (mq_tasks q) task_id"

definition queue_clear :: "memory_queue \<Rightarrow> memory_queue" where
  "queue_clear q = empty_queue"

subsection \<open>The in-memory queue is a FIFO queue of the tasks that are queued\<close>

definition is_queued :: "(string \<times> queue_task) list \<Rightarrow> string \<Rightarrow> bool" where
  "is_queued tasks i \<longleftrightarrow> (case map_of tasks i of None \<Rightarrow> False | Some t \<Rightarrow> qt_status t = ''QUEUED'')"

definition pending_ids :: "memory_queue \<Rightarrow> string list" where
  "pending_ids q = filter (is_queued (mq_tasks q)) (mq_queue q)"

definition known_ids :: "memory_queue \<Rightarrow> string set" where
  "known_ids q = fst ` set (mq_tasks q)"

text \<open>
  The queue holds each identifier once, only of tasks there are, and every task is stored
  under its own identifier.
\<close>

definition queue_inv :: "memory_queue \<Rightarrow> bool" where
  "queue_inv q \<longleftrightarrow> distinct (mq_queue q) \<and> set (mq_queue q) \<subseteq> known_ids q \<and>
     (\<forall>i t. map_of (mq_tasks q) i = Some t \<longrightarrow> qt_task_id t = i)"

lemma is_queued_update:
  "is_queued (AList.update i t tasks) j \<longleftrightarrow> (if j = i then qt_status t = ''QUEUED'' else is_queued tasks j)"
  by (simp add: is_queued_def)

lemma claim_loop_spec:
  assumes "distinct queue" "set queue \<subseteq> fst ` set tasks" "\<forall>i t. map_of tasks i = Some t \<longrightarrow> qt_task_id t = i"
  shows "\<exists>new rest tasks'. claim_loop now target claimed tasks queue = (claimed @ new, \<lparr>mq_tasks = tasks', mq_queue = rest\<rparr>)
    \<and> map qt_task_id new = take (target - length claimed) (filter (is_queued tasks) queue)
    \<and> filter (is_queued tasks') rest = drop (target - length claimed) (filter (is_queued tasks) queue)
    \<and> suffix rest queue \<and> fst ` set tasks' = fst ` set tasks
    \<and> (\<forall>i t. map_of tasks' i = Some t \<longrightarrow> qt_task_id t = i)
    \<and> (\<forall>i. i \<notin> set queue \<longrightarrow> map_of tasks' i = map_of tasks i)
    \<and> (\<forall>t \<in> set new. qt_status t = ''RUNNING'')"
  using assms
proof (induction queue arbitrary: claimed tasks)
  case (Cons i queue)
  show ?case
  proof (cases "length claimed \<ge> target")
    case True
    then show ?thesis using Cons.prems by (intro exI [of _ "[]"] exI [of _ "i # queue"] exI [of _ tasks]) simp
  next
    case False
    obtain t where t: "map_of tasks i = Some t" using Cons.prems(2) by (auto dest: weak_map_of_SomeI)
    show ?thesis
    proof (cases "qt_status t = ''QUEUED''")
      case skip: False
      then have "\<not> is_queued tasks i" using t by (simp add: is_queued_def)
      with Cons.IH [of tasks claimed] Cons.prems False t skip show ?thesis by (auto intro: suffix_ConsI)
    next
      case True
      let ?t = "t\<lparr>qt_status := ''RUNNING'', qt_started_at := Some (now (length claimed))\<rparr>"
      let ?tasks = "AList.update i ?t tasks"
      have q: "is_queued tasks i" using t True by (simp add: is_queued_def)
      have same: "filter (is_queued ?tasks) queue = filter (is_queued tasks) queue"
        using Cons.prems(1) by (intro filter_cong) (auto simp: is_queued_update)
      have id: "qt_task_id t = i" using Cons.prems(3) t by blast
      have w: "\<forall>j u. map_of ?tasks j = Some u \<longrightarrow> qt_task_id u = j" using Cons.prems(3) id by simp
      have k: "fst ` set ?tasks = fst ` set tasks" using Cons.prems(2) by (auto simp: keys_update)
      have "distinct queue" "set queue \<subseteq> fst ` set ?tasks" using Cons.prems(1, 2) k by auto
      from Cons.IH [OF this w, of "claimed @ [?t]"] obtain new rest tasks' where
        r: "claim_loop now target (claimed @ [?t]) ?tasks queue = ((claimed @ [?t]) @ new, \<lparr>mq_tasks = tasks', mq_queue = rest\<rparr>)"
        "map qt_task_id new = take (target - length (claimed @ [?t])) (filter (is_queued ?tasks) queue)"
        "filter (is_queued tasks') rest = drop (target - length (claimed @ [?t])) (filter (is_queued ?tasks) queue)"
        "suffix rest queue" "fst ` set tasks' = fst ` set ?tasks"
        "\<forall>i t. map_of tasks' i = Some t \<longrightarrow> qt_task_id t = i"
        "\<forall>i. i \<notin> set queue \<longrightarrow> map_of tasks' i = map_of ?tasks i" "\<forall>t \<in> set new. qt_status t = ''RUNNING''"
        by (elim exE conjE) blast
      have n: "target - length claimed = Suc (target - length (claimed @ [?t]))" using False by simp
      show ?thesis
        using r False t True q id same n k
        by (intro exI [of _ "?t # new"] exI [of _ rest] exI [of _ tasks']) (auto intro: suffix_ConsI)
    qed
  qed
qed simp

lemma claim_next_spec:
  assumes "queue_inv q" "claim_next now n q = (claimed, q')"
  shows "map qt_task_id claimed = take (nat (max 1 n)) (pending_ids q) \<and>
    pending_ids q' = drop (nat (max 1 n)) (pending_ids q) \<and> queue_inv q' \<and> known_ids q' = known_ids q \<and>
    (\<forall>t \<in> set claimed. qt_status t = ''RUNNING'')"
proof -
  have "distinct (mq_queue q)" "set (mq_queue q) \<subseteq> fst ` set (mq_tasks q)"
    "\<forall>i t. map_of (mq_tasks q) i = Some t \<longrightarrow> qt_task_id t = i"
    using assms(1) by (auto simp: queue_inv_def known_ids_def)
  from claim_loop_spec [OF this, of now "nat (max 1 n)" "[]"] assms(2) obtain rest tasks' where
    q': "q' = \<lparr>mq_tasks = tasks', mq_queue = rest\<rparr>"
    and c: "map qt_task_id claimed = take (nat (max 1 n)) (pending_ids q)" "pending_ids q' = drop (nat (max 1 n)) (pending_ids q)"
    and r: "suffix rest (mq_queue q)" and k: "fst ` set tasks' = fst ` set (mq_tasks q)"
    and i: "\<forall>i t. map_of tasks' i = Some t \<longrightarrow> qt_task_id t = i"
    and s: "\<forall>t \<in> set claimed. qt_status t = ''RUNNING''"
    unfolding claim_next_def pending_ids_def by auto
  have "distinct rest" "set rest \<subseteq> set (mq_queue q)"
    using r assms(1) by (auto simp: suffix_def queue_inv_def)
  then have "queue_inv q'" using assms(1) k i
    unfolding q' queue_inv_def known_ids_def by (metis memory_queue.select_convs subset_trans)
  with c k s show ?thesis by (simp add: q' known_ids_def)
qed

text \<open>A request with the identifier and the time it is given, and a claim with its clock.\<close>

type_synonym timed_request = "string \<times> string \<times> queue_task_request"

definition put_request :: "timed_request \<Rightarrow> memory_queue \<Rightarrow> memory_queue" where
  "put_request r q = snd (enqueue (fst r) (fst (snd r)) (snd (snd r)) q)"

definition claim_ids :: "(nat \<Rightarrow> string) \<Rightarrow> int \<Rightarrow> memory_queue \<Rightarrow> string list \<times> memory_queue" where
  "claim_ids now n q = (let (ts, q') = claim_next now n q in (map qt_task_id ts, q'))"

lemma put_request_sel [simp]:
  "mq_queue (put_request r q) = mq_queue q @ [fst r]"
  "mq_tasks (put_request r q) = AList.update (fst r) (new_task (fst r) (fst (snd r)) (snd (snd r))) (mq_tasks q)"
  by (simp_all add: put_request_def enqueue_def Let_def new_task_def)

interpretation memory_fifo: fifo_queue pending_ids known_ids queue_inv fst put_request "claim_ids now" for now
proof
  fix q :: memory_queue and r :: timed_request
  assume q: "queue_inv q" and r: "fst r \<notin> known_ids q"
  have n: "fst r \<notin> set (mq_queue q)" using q r by (auto simp: queue_inv_def)
  with q show "queue_inv (put_request r q)"
    by (auto simp: queue_inv_def known_ids_def keys_update new_task_def)
  have "filter (is_queued (mq_tasks (put_request r q))) (mq_queue q) = pending_ids q"
    unfolding pending_ids_def using n by (intro filter_cong) (auto simp: is_queued_update)
  then show "pending_ids (put_request r q) = pending_ids q @ [fst r]"
    by (simp add: pending_ids_def is_queued_update new_task_def)
next
  fix q :: memory_queue and r :: timed_request
  show "known_ids (put_request r q) = insert (fst r) (known_ids q)"
    by (simp add: known_ids_def keys_update)
qed (auto simp: claim_ids_def split: prod.splits dest: claim_next_spec)

text \<open>C15: Whatever interleaving of requests and of claims reaches an empty in-memory queue,
  when the identifiers drawn for the requests are distinct, every claim gets exactly what a
  first-in-first-out list of the requested identifiers gives it: the oldest pending ones,
  as many as were asked for, at least one, or all there are. So no task is lost, none is
  handed out twice and none overtakes another.\<close>

theorem memory_queue_serves_in_order:
  assumes "distinct (map fst (requests events))"
    and "serve put_request (claim_ids now) events empty_queue = (claims, q)"
  shows "fifo_serve (map (map_sum fst (\<lambda>n. n)) events) [] = (claims, pending_ids q) \<and>
    concat claims @ pending_ids q = map fst (requests events)"
proof -
  have "queue_inv empty_queue" "known_ids empty_queue = {}" "pending_ids empty_queue = []"
    by (simp_all add: empty_queue_def queue_inv_def known_ids_def pending_ids_def)
  with memory_fifo.serve_in_order [OF _ assms(1) _ assms(2)]
  have "fifo_serve (map (map_sum fst (\<lambda>n. n)) events) [] = (claims, pending_ids q)" by simp
  with fifo_serve_order [OF this] show ?thesis by (simp add: requests_map)
qed

definition sample_request :: queue_task_request where
  "sample_request = \<lparr>qr_pipeline_name = ''p'', qr_inputs = [], qr_source = ''api'', qr_correlation_id = ''c'',
     qr_tenant_id = '' Team '', qr_repository = None, qr_idempotency_key = None\<rparr>"

definition sample_events :: "(timed_request + int) list" where
  "sample_events = [Inl (''1'', ''t'', sample_request), Inl (''2'', ''t'', sample_request), Inr 0,
     Inl (''3'', ''t'', sample_request), Inr 5]"

theorem memory_queue_serves_in_order_witness:
  "fst (serve put_request (claim_ids (\<lambda>_. ''t'')) sample_events empty_queue) = [[''1''], [''2'', ''3'']]"
proof -
  obtain c q where r: "serve put_request (claim_ids (\<lambda>_. ''t'')) sample_events empty_queue = (c, q)" by fastforce
  have "distinct (map fst (requests sample_events))" by (simp add: sample_events_def)
  from memory_queue_serves_in_order [OF this r]
  have "fifo_serve (map (map_sum fst (\<lambda>n. n)) sample_events) [] = (c, pending_ids q)" by blast
  then have "c = [[''1''], [''2'', ''3'']]" by (simp add: sample_events_def)
  with r show ?thesis by simp
qed

subsection \<open>Results of tasks\<close>

text \<open>
  Marking a task finishes exactly this task: it is not handed out any more, and the other
  tasks and their order are untouched. Nothing checks that the task was running.
\<close>

lemma mark_pending:
  assumes "map_of (mq_tasks q) i = Some t" "qt_status t' \<noteq> ''QUEUED''"
  shows "pending_ids (q\<lparr>mq_tasks := AList.update i t' (mq_tasks q)\<rparr>) = filter (\<lambda>j. j \<noteq> i) (pending_ids q)"
  using assms by (auto simp: pending_ids_def is_queued_update intro!: filter_cong split: if_splits)

lemma mark_inv:
  assumes "queue_inv q" "map_of (mq_tasks q) i = Some t" "qt_task_id t' = qt_task_id t"
  shows "queue_inv (q\<lparr>mq_tasks := AList.update i t' (mq_tasks q)\<rparr>)"
  using assms by (auto simp: queue_inv_def known_ids_def keys_update)

text \<open>Any use of the queue: requests, claims, results and clearing, in any order.\<close>

datatype queue_op =
    Request timed_request
  | Claim int
  | Succeed string dict
  | Fail string string
  | Clear

fun queue_step :: "(nat \<Rightarrow> string) \<Rightarrow> queue_op \<Rightarrow> memory_queue \<Rightarrow> string list \<times> memory_queue" where
  "queue_step now (Request r) q = ([], put_request r q)"
| "queue_step now (Claim n) q = claim_ids now n q"
| "queue_step now (Succeed i res) q =
     (case mark_succeeded (now 0) i res q of Inl _ \<Rightarrow> ([], q) | Inr (_, q') \<Rightarrow> ([], q'))"
| "queue_step now (Fail i err) q =
     (case mark_failed (now 0) i err q of Inl _ \<Rightarrow> ([], q) | Inr (_, q') \<Rightarrow> ([], q'))"
| "queue_step now Clear q = ([], queue_clear q)"

fun queue_run :: "(nat \<Rightarrow> string) \<Rightarrow> queue_op list \<Rightarrow> memory_queue \<Rightarrow> string list \<times> memory_queue" where
  "queue_run now [] q = ([], q)"
| "queue_run now (e # es) q =
     (let (is, q1) = queue_step now e q; (js, q2) = queue_run now es q1 in (is @ js, q2))"

fun op_ids :: "queue_op \<Rightarrow> string list" where
  "op_ids (Request r) = [fst r]" | "op_ids _ = []"

lemma mark_step:
  assumes "queue_inv q" "map_of (mq_tasks q) i = Some t" "qt_task_id t' = qt_task_id t" "qt_status t' \<noteq> ''QUEUED''"
    and "q' = q\<lparr>mq_tasks := AList.update i t' (mq_tasks q)\<rparr>"
  shows "queue_inv q' \<and> subseq (pending_ids q') (pending_ids q) \<and> known_ids q' \<subseteq> known_ids q"
proof -
  have "i \<in> fst ` set (mq_tasks q)" using map_of_SomeD [OF assms(2)] by force
  then have "known_ids q' \<subseteq> known_ids q" by (simp add: assms(5) known_ids_def keys_update insert_absorb)
  then show ?thesis
    using mark_inv [OF assms(1-3)] mark_pending [OF assms(2, 4)] by (simp add: assms(5) subseq_filter_left)
qed

lemma queue_step_spec:
  assumes "queue_inv q" "queue_step now e q = (is, q')" "set (op_ids e) \<inter> known_ids q = {}"
  shows "queue_inv q' \<and> subseq (is @ pending_ids q') (pending_ids q @ op_ids e)
    \<and> known_ids q' \<subseteq> known_ids q \<union> set (op_ids e)"
proof (cases e)
  case (Request r)
  then show ?thesis
    using assms memory_fifo.put_inv [OF assms(1), of r] memory_fifo.put_pending [OF assms(1), of r]
      memory_fifo.put_known [of r q] by auto
next
  case (Claim n)
  then have c: "claim_ids now n q = (is, q')" using assms(2) by simp
  note memory_fifo.claim_inv [OF assms(1) c] memory_fifo.claim_takes [OF assms(1) c]
    memory_fifo.claim_leaves [OF assms(1) c] memory_fifo.claim_known [OF assms(1) c]
  then show ?thesis using Claim by simp
next
  case (Succeed i res)
  show ?thesis
  proof (cases "map_of (mq_tasks q) i")
    case None
    then show ?thesis using assms Succeed by (simp add: mark_succeeded_def)
  next
    case (Some t)
    then show ?thesis using assms Succeed
        mark_step [OF assms(1) Some, of "t\<lparr>qt_status := ''SUCCEEDED'', qt_finished_at := Some (now 0), qt_result := Some res, qt_error := None\<rparr>" q']
      by (auto simp: mark_succeeded_def Let_def)
  qed
next
  case (Fail i err)
  show ?thesis
  proof (cases "map_of (mq_tasks q) i")
    case None
    then show ?thesis using assms Fail by (simp add: mark_failed_def)
  next
    case (Some t)
    then show ?thesis using assms Fail
        mark_step [OF assms(1) Some, of "t\<lparr>qt_status := ''FAILED'', qt_finished_at := Some (now 0), qt_error := Some err\<rparr>" q']
      by (auto simp: mark_failed_def Let_def)
  qed
next
  case Clear
  then show ?thesis using assms
    by (auto simp: queue_clear_def empty_queue_def queue_inv_def pending_ids_def known_ids_def)
qed

lemma queue_run_subseq:
  assumes "queue_inv q" "distinct (concat (map op_ids es))" "set (concat (map op_ids es)) \<inter> known_ids q = {}"
    and "queue_run now es q = (out, q')"
  shows "subseq (out @ pending_ids q') (pending_ids q @ concat (map op_ids es))"
  using assms
proof (induction es arbitrary: q out)
  case (Cons e es)
  obtain "is" q1 js where s: "queue_step now e q = (is, q1)" "queue_run now es q1 = (js, q')" "out = is @ js"
    using Cons.prems(4) by (auto split: prod.splits)
  have f: "set (op_ids e) \<inter> known_ids q = {}" using Cons.prems(3) by auto
  note k = queue_step_spec [OF Cons.prems(1) s(1) f]
  have "subseq (js @ pending_ids q') (pending_ids q1 @ concat (map op_ids es))"
    using k Cons.prems(2, 3) by (intro Cons.IH [OF _ _ _ s(2)]) auto
  then have "subseq (is @ js @ pending_ids q') ((is @ pending_ids q1) @ concat (map op_ids es))"
    by (simp add: list_emb_append_mono)
  also have "subseq \<dots> ((pending_ids q @ op_ids e) @ concat (map op_ids es))" 
    by (rule list_emb_append_mono) (use k in \<open>simp_all only: subseq_order.refl\<close>)
  finally show ?case by (simp add: s(3))
qed simp

text \<open>C16: However an empty queue is used, with fresh identifiers for its requests, every task is
  claimed at most once, and tasks are claimed in the order of their requests.\<close>

theorem task_claimed_at_most_once:
  assumes "distinct (concat (map op_ids ops))" "queue_run now ops empty_queue = (claimed, q)"
  shows "distinct claimed \<and> subseq claimed (concat (map op_ids ops))"
proof -
  have "queue_inv empty_queue" "known_ids empty_queue = {}" "pending_ids empty_queue = []"
    by (simp_all add: empty_queue_def queue_inv_def known_ids_def pending_ids_def)
  with queue_run_subseq [OF _ assms(1) _ assms(2)]
  have "subseq (claimed @ pending_ids q) (concat (map op_ids ops))" by simp
  then have "subseq claimed (concat (map op_ids ops))"
    using subseq_order.trans [OF subseq_rev_drop_many [OF subseq_order.refl]] by blast
  then show ?thesis using assms(1) by (auto simp: subseq_conv_nths)
qed

theorem task_claimed_at_most_once_witness:
  "distinct (fst (queue_run (\<lambda>_. ''t'') [Request (''1'', ''t'', sample_request), Request (''2'', ''t'', sample_request),
     Fail ''1'' ''lost'', Claim 3, Claim 1] empty_queue)) \<and>
   fst (queue_run (\<lambda>_. ''t'') [Request (''1'', ''t'', sample_request), Request (''2'', ''t'', sample_request),
     Fail ''1'' ''lost'', Claim 3, Claim 1] empty_queue) = [''2'']"
proof -
  let ?ops = "[Request (''1'', ''t'', sample_request), Request (''2'', ''t'', sample_request),
     Fail ''1'' ''lost'', Claim 3, Claim 1]"
  obtain c q where r: "queue_run (\<lambda>_. ''t'') ?ops empty_queue = (c, q)" by fastforce
  have "distinct (concat (map op_ids ?ops))" by simp
  from task_claimed_at_most_once [OF this r] r
  have "distinct (fst (queue_run (\<lambda>_. ''t'') ?ops empty_queue))" by simp
  moreover have "fst (queue_run (\<lambda>_. ''t'') ?ops empty_queue) = [''2'']" by code_simp
  ultimately show ?thesis by blast
qed

end
