(* ===== verification/Observability.thy ===== *)
theory Observability
  imports PyValue
begin

text \<open>
  \<open>observability/metrics.py\<close>: the counters of runs, and \<open>observability/alerts.py\<close>: alerts
  with a minimum distance in time per key. Sending an alert by mail or to Slack is the
  network's; what is modelled is which alerts are raised.
\<close>

subsection \<open>Runtime metrics\<close>

record runtime_metrics =
  rm_started :: int
  rm_succeeded :: int
  rm_failed :: int
  rm_blocked :: int
  rm_duration_sum :: rat
  rm_duration_count :: int
  rm_retry_sum :: int
  rm_cost_usd :: rat
  rm_input_tokens :: int
  rm_output_tokens :: int

definition new_metrics :: runtime_metrics where
  "new_metrics = \<lparr>rm_started = 0, rm_succeeded = 0, rm_failed = 0, rm_blocked = 0, rm_duration_sum = 0,
     rm_duration_count = 0, rm_retry_sum = 0, rm_cost_usd = 0, rm_input_tokens = 0, rm_output_tokens = 0\<rparr>"

definition mark_run_started :: "runtime_metrics \<Rightarrow> runtime_metrics" where
  "mark_run_started m = m\<lparr>rm_started := rm_started m + 1\<rparr>"

text \<open>\<open>isinstance(v, int)\<close> holds for a \<open>bool\<close> too.\<close>

fun int_of :: "pyval \<Rightarrow> int option" where
  "int_of (PInt i) = Some i"
| "int_of (PBool b) = Some (if b then 1 else 0)"
| "int_of _ = None"

definition count_status :: "string \<Rightarrow> runtime_metrics \<Rightarrow> runtime_metrics" where
  "count_status status m =
     (if status = ''SUCCESS'' \<or> status = ''PARTIAL_SUCCESS'' then m\<lparr>rm_succeeded := rm_succeeded m + 1\<rparr>
      else if status = ''BLOCKED'' then m\<lparr>rm_blocked := rm_blocked m + 1\<rparr>
      else m\<lparr>rm_failed := rm_failed m + 1\<rparr>)"

definition add_retries :: "dict \<Rightarrow> runtime_metrics \<Rightarrow> runtime_metrics" where
  "add_retries summary m =
     (case int_of (dget summary ''total_retries'') of
        None \<Rightarrow> m | Some r \<Rightarrow> m\<lparr>rm_retry_sum := rm_retry_sum m + max 0 r\<rparr>)"

definition add_duration :: "pyval \<Rightarrow> runtime_metrics \<Rightarrow> runtime_metrics" where
  "add_duration v m =
     (case num_of v of
        None \<Rightarrow> m
      | Some d \<Rightarrow> m\<lparr>rm_duration_sum := rm_duration_sum m + max 0 d, rm_duration_count := rm_duration_count m + 1\<rparr>)"

definition add_durations :: "dict \<Rightarrow> runtime_metrics \<Rightarrow> runtime_metrics" where
  "add_durations summary m =
     (case dget summary ''step_durations_seconds'' of PDict ds \<Rightarrow> fold add_duration (map snd ds) m | _ \<Rightarrow> m)"

definition add_costs :: "dict \<Rightarrow> runtime_metrics \<Rightarrow> runtime_metrics" where
  "add_costs summary m =
     (case dget_or summary ''cost'' (PDict []) of
        PDict c \<Rightarrow>
          m\<lparr>rm_cost_usd := rm_cost_usd m + (case num_of (dget c ''total_cost_usd'') of None \<Rightarrow> 0 | Some x \<Rightarrow> max 0 x),
            rm_input_tokens := rm_input_tokens m + (case int_of (dget c ''total_input_tokens'') of None \<Rightarrow> 0 | Some x \<Rightarrow> max 0 x),
            rm_output_tokens := rm_output_tokens m + (case int_of (dget c ''total_output_tokens'') of None \<Rightarrow> 0 | Some x \<Rightarrow> max 0 x)\<rparr>
      | _ \<Rightarrow> m)"

definition observe_run_result :: "(rat \<Rightarrow> string) \<Rightarrow> dict \<Rightarrow> runtime_metrics \<Rightarrow> runtime_metrics" where
  "observe_run_result fstr result m0 =
     (let m = count_status (py_str fstr (dget_or result ''status'' (PStr ''UNKNOWN''))) m0 in
      case dget_or result ''summary'' (PDict []) of
        PDict summary \<Rightarrow> add_costs summary (add_durations summary (add_retries summary m))
      | _ \<Rightarrow> m)"

text \<open>The average of the durations that \<open>render_prometheus\<close> shows.\<close>

definition average_duration :: "runtime_metrics \<Rightarrow> rat" where
  "average_duration m =
     (if rm_duration_count m > 0 then rm_duration_sum m / of_int (rm_duration_count m) else 0)"

definition metric_lines :: "string \<Rightarrow> string \<Rightarrow> string \<Rightarrow> string \<Rightarrow> string list" where
  "metric_lines name help kind value =
     [''# HELP '' @ name @ '' '' @ help, ''# TYPE '' @ name @ '' '' @ kind, name @ '' '' @ value]"

definition render_prometheus :: "(rat \<Rightarrow> string) \<Rightarrow> runtime_metrics \<Rightarrow> string" where
  "render_prometheus fstr m =
     join [CHR 0x0A]
       (metric_lines ''hordeforge_runs_started_total'' ''Total started runs'' ''counter'' (int_str (rm_started m))
        @ metric_lines ''hordeforge_runs_succeeded_total'' ''Total successful runs'' ''counter'' (int_str (rm_succeeded m))
        @ metric_lines ''hordeforge_runs_failed_total'' ''Total failed runs'' ''counter'' (int_str (rm_failed m))
        @ metric_lines ''hordeforge_runs_blocked_total'' ''Total blocked runs'' ''counter'' (int_str (rm_blocked m))
        @ metric_lines ''hordeforge_step_duration_seconds_sum'' ''Cumulative step duration'' ''counter'' (fstr (rm_duration_sum m))
        @ metric_lines ''hordeforge_step_duration_seconds_count'' ''Observed step durations count'' ''counter'' (int_str (rm_duration_count m))
        @ metric_lines ''hordeforge_step_duration_seconds_avg'' ''Average step duration'' ''gauge'' (fstr (average_duration m))
        @ metric_lines ''hordeforge_step_retries_total'' ''Cumulative retry count'' ''counter'' (int_str (rm_retry_sum m))
        @ metric_lines ''hordeforge_total_cost_usd'' ''Cumulative cost in USD'' ''counter'' (fstr (rm_cost_usd m))
        @ metric_lines ''hordeforge_total_input_tokens'' ''Cumulative input tokens'' ''counter'' (int_str (rm_input_tokens m))
        @ metric_lines ''hordeforge_total_output_tokens'' ''Cumulative output tokens'' ''counter'' (int_str (rm_output_tokens m)))
     @ [CHR 0x0A]"

text \<open>Every observed run is in exactly one of the three counters, and no counter ever goes down.\<close>

definition runs_observed :: "runtime_metrics \<Rightarrow> int" where
  "runs_observed m = rm_succeeded m + rm_failed m + rm_blocked m"

definition metrics_le :: "runtime_metrics \<Rightarrow> runtime_metrics \<Rightarrow> bool" where
  "metrics_le m m' \<longleftrightarrow>
     rm_started m \<le> rm_started m' \<and> rm_succeeded m \<le> rm_succeeded m' \<and> rm_failed m \<le> rm_failed m' \<and>
     rm_blocked m \<le> rm_blocked m' \<and> rm_duration_sum m \<le> rm_duration_sum m' \<and>
     rm_duration_count m \<le> rm_duration_count m' \<and> rm_retry_sum m \<le> rm_retry_sum m' \<and>
     rm_cost_usd m \<le> rm_cost_usd m' \<and> rm_input_tokens m \<le> rm_input_tokens m' \<and>
     rm_output_tokens m \<le> rm_output_tokens m'"

lemma metrics_le_refl [simp]: "metrics_le m m"
  by (simp add: metrics_le_def)

lemma metrics_le_trans [trans]: "metrics_le a b \<Longrightarrow> metrics_le b c \<Longrightarrow> metrics_le a c"
  by (simp add: metrics_le_def)

lemma metrics_grow:
  "metrics_le m (count_status s m)" "metrics_le m (add_retries d m)" "metrics_le m (add_duration v m)"
  "metrics_le m (add_costs d m)" "metrics_le m (mark_run_started m)"
  by (auto simp: metrics_le_def count_status_def add_retries_def add_duration_def add_costs_def mark_run_started_def
      split: option.splits pyval.splits)

lemma fold_durations_grow: "metrics_le m (fold add_duration vs m)"
  by (induction vs arbitrary: m) (auto intro: metrics_le_trans metrics_grow(3))

lemma add_durations_grow: "metrics_le m (add_durations d m)"
  by (auto simp: add_durations_def fold_durations_grow split: pyval.splits)

lemma observe_grows: "metrics_le m (observe_run_result fstr r m)"
proof -
  have "metrics_le (count_status s m) (add_costs d (add_durations d (add_retries d (count_status s m))))" for s d
    using metrics_le_trans [OF metrics_le_trans [OF metrics_grow(2) add_durations_grow] metrics_grow(4)] .
  then show ?thesis
    by (auto simp: observe_run_result_def Let_def metrics_grow(1) intro: metrics_le_trans [OF metrics_grow(1)] split: pyval.splits)
qed

lemma fold_durations_observed [simp]:
  "runs_observed (fold add_duration vs m) = runs_observed m" "rm_started (fold add_duration vs m) = rm_started m"
  by (induction vs arbitrary: m) (auto simp: runs_observed_def add_duration_def split: option.splits)

lemma observe_counts [simp]:
  "runs_observed (observe_run_result fstr r m) = runs_observed m + 1"
  "rm_started (observe_run_result fstr r m) = rm_started m"
proof -
  have "runs_observed (add_costs d x) = runs_observed x" "rm_started (add_costs d x) = rm_started x"
    "runs_observed (add_retries d x) = runs_observed x" "rm_started (add_retries d x) = rm_started x"
    "runs_observed (add_durations d x) = runs_observed x" "rm_started (add_durations d x) = rm_started x"
    "runs_observed (count_status s x) = runs_observed x + 1" "rm_started (count_status s x) = rm_started x" for d s x
    by (auto simp: add_costs_def add_retries_def add_durations_def count_status_def split: pyval.splits option.splits)
      (auto simp: runs_observed_def)
  then show "runs_observed (observe_run_result fstr r m) = runs_observed m + 1"
    "rm_started (observe_run_result fstr r m) = rm_started m"
    by (auto simp: observe_run_result_def Let_def split: pyval.splits)
qed

lemma mark_started_counts [simp]:
  "runs_observed (mark_run_started m) = runs_observed m" "rm_started (mark_run_started m) = rm_started m + 1"
  by (simp_all add: mark_run_started_def runs_observed_def)

subsection \<open>Alerts\<close>

record alert_dispatcher =
  ad_throttle_seconds :: int
  ad_last_alert_at :: "(string \<times> rat) list"

definition new_alerts :: "int \<Rightarrow> alert_dispatcher" where
  "new_alerts throttle = \<lparr>ad_throttle_seconds = max 1 throttle, ad_last_alert_at = []\<rparr>"

definition should_alert :: "rat \<Rightarrow> string \<Rightarrow> alert_dispatcher \<Rightarrow> bool \<times> alert_dispatcher" where
  "should_alert now key a =
     (let fresh = a\<lparr>ad_last_alert_at := AList.update key now (ad_last_alert_at a)\<rparr> in
      case map_of (ad_last_alert_at a) key of
        None \<Rightarrow> (True, fresh)
      | Some prev \<Rightarrow> if now - prev < of_int (ad_throttle_seconds a) then (False, a) else (True, fresh))"

text \<open>The alert of a failed run; \<open>None\<close> when none is raised.\<close>

definition alert_run_failure ::
  "rat \<Rightarrow> string \<Rightarrow> string \<Rightarrow> string \<Rightarrow> string \<Rightarrow> string option \<Rightarrow> alert_dispatcher \<Rightarrow> dict option \<times> alert_dispatcher" where
  "alert_run_failure now run_id pipeline_name status0 correlation_id error a =
     (let status = py_upper status0 in
      if status \<noteq> ''FAILED'' \<and> status \<noteq> ''BLOCKED'' then (None, a)
      else (case should_alert now (pipeline_name @ '':'' @ status) a of
              (False, a') \<Rightarrow> (None, a')
            | (True, a') \<Rightarrow>
                (Some [(''event'', PStr ''run_alert''), (''run_id'', PStr run_id), (''pipeline_name'', PStr pipeline_name),
                       (''status'', PStr status), (''correlation_id'', PStr correlation_id),
                       (''error'', case error of None \<Rightarrow> PNone | Some e \<Rightarrow> PStr e)], a')))"

definition alert_budget_exceeded ::
  "rat \<Rightarrow> string \<Rightarrow> string \<Rightarrow> rat \<Rightarrow> rat \<Rightarrow> alert_dispatcher \<Rightarrow> dict option \<times> alert_dispatcher" where
  "alert_budget_exceeded now run_id pipeline_name cost budget a =
     (case should_alert now (''budget_exceeded:'' @ run_id) a of
        (False, a') \<Rightarrow> (None, a')
      | (True, a') \<Rightarrow>
          (Some [(''event'', PStr ''budget_exceeded''), (''run_id'', PStr run_id), (''pipeline_name'', PStr pipeline_name),
                 (''cost_usd'', PFloat cost), (''budget_usd'', PFloat budget)], a'))"

text \<open>\<open>round(x, 1)\<close> is a parameter.\<close>

definition alert_budget_warning ::
  "(rat \<Rightarrow> rat) \<Rightarrow> rat \<Rightarrow> string \<Rightarrow> string \<Rightarrow> rat \<Rightarrow> rat \<Rightarrow> alert_dispatcher \<Rightarrow> dict option \<times> alert_dispatcher" where
  "alert_budget_warning round1 now run_id pipeline_name cost budget a =
     (if budget \<le> 0 \<or> cost / budget < 8 / 10 then (None, a)
      else (case should_alert now (''budget_warning:'' @ run_id) a of
              (False, a') \<Rightarrow> (None, a')
            | (True, a') \<Rightarrow>
                (Some [(''event'', PStr ''budget_warning''), (''run_id'', PStr run_id), (''pipeline_name'', PStr pipeline_name),
                       (''cost_usd'', PFloat cost), (''budget_usd'', PFloat budget),
                       (''budget_usage_percent'', PFloat (round1 (cost / budget * 100)))], a')))"

subsection \<open>Alerts are throttled\<close>

text \<open>Times and keys at which alerts are asked for, the latest first; \<open>raised\<close> has those raised.\<close>

fun alerts_after :: "int \<Rightarrow> (rat \<times> string) list \<Rightarrow> alert_dispatcher" where
  "alerts_after throttle [] = new_alerts throttle"
| "alerts_after throttle ((now, key) # as) = snd (should_alert now key (alerts_after throttle as))"

fun raised :: "int \<Rightarrow> (rat \<times> string) list \<Rightarrow> (rat \<times> string) list" where
  "raised throttle [] = []"
| "raised throttle ((now, key) # as) =
     (if fst (should_alert now key (alerts_after throttle as)) then (now, key) # raised throttle as
      else raised throttle as)"

lemma alerts_after_throttle [simp]: "ad_throttle_seconds (alerts_after throttle as) = max 1 throttle"
  by (induction as) (auto simp: new_alerts_def should_alert_def Let_def split: option.splits)

text \<open>What is remembered of a key is the last alert raised for it.\<close>

lemma alerts_after_last:
  "map_of (ad_last_alert_at (alerts_after throttle as)) key =
     map_option fst (find (\<lambda>(t, k). k = key) (raised throttle as))"
  by (induction as) (auto simp: new_alerts_def should_alert_def Let_def split: option.splits)

lemma find_first:
  "sorted_wrt (\<lambda>(t, _) (u, _). u \<le> t) as \<Longrightarrow> (s, key) \<in> set as \<Longrightarrow>
     \<exists>t. find (\<lambda>(t, k). k = key) as = Some (t, key) \<and> s \<le> (t :: rat)"
proof (induction as)
  case (Cons a as)
  obtain t k where a: "a = (t, k)" by (cases a)
  show ?case
  proof (cases "k = key")
    case True
    with Cons.prems a show ?thesis by auto
  next
    case False
    with Cons a show ?thesis by auto
  qed
qed simp

lemma raised_subset: "set (raised throttle as) \<subseteq> set as"
  by (induction as) (auto split: if_splits)

lemma raised_sorted:
  "sorted_wrt (\<lambda>(t, _) (u, _). u \<le> t) as \<Longrightarrow> sorted_wrt (\<lambda>(t, _) (u, _). u \<le> t) (raised throttle as)"
  using raised_subset by (induction as) (auto, blast)

text \<open>Whatever alerts are asked for, at times that never decrease, two alerts raised under one
  key are at least the throttle time apart, and every request is answered by an alert or
  comes less than that time after one under its key.\<close>

theorem alerts_throttled:
  assumes "sorted_wrt (\<lambda>(t, _) (u, _). u \<le> t) as"
  shows "sorted_wrt (\<lambda>(t, k) (u, l). k = l \<longrightarrow> of_int (max 1 throttle) \<le> t - u) (raised throttle as) \<and>
    (\<forall>(t, k) \<in> set as. \<exists>s. (s, k) \<in> set (raised throttle as) \<and> s \<le> t \<and> t - s < of_int (max 1 throttle))"
  using assms
proof (induction as)
  case (Cons a as)
  obtain t k where a: "a = (t, k)" by (cases a)
  let ?r = "raised throttle as" and ?thr = "of_int (max 1 throttle) :: rat"
  have sorted: "sorted_wrt (\<lambda>(t, _) (u, _). u \<le> t) as" and later: "\<forall>(u, l) \<in> set as. u \<le> t"
    using Cons.prems a by auto
  note IH = Cons.IH [OF sorted]
  have found: "\<exists>prev. map_of (ad_last_alert_at (alerts_after throttle as)) k = Some prev \<and> u \<le> prev"
    if "(u, k) \<in> set ?r" for u
    using find_first [OF raised_sorted [OF sorted] that] by (auto simp: alerts_after_last)
  have seen: "(prev, k) \<in> set ?r" if "map_of (ad_last_alert_at (alerts_after throttle as)) k = Some prev" for prev
    using that by (auto simp: alerts_after_last find_Some_iff) (metis nth_mem)
  show ?case
  proof (cases "fst (should_alert t k (alerts_after throttle as))")
    case True
    have "?thr \<le> t - u" if "(u, k) \<in> set ?r" for u
      using found [OF that] True by (auto simp: should_alert_def Let_def split: if_splits)
    with IH True a show ?thesis by (auto intro: exI [of _ t])
  next
    case False
    then obtain prev where prev: "map_of (ad_last_alert_at (alerts_after throttle as)) k = Some prev" "t - prev < ?thr"
      by (auto simp: should_alert_def Let_def split: option.splits if_splits)
    from seen [OF prev(1)] raised_subset later have "(prev, k) \<in> set ?r" "prev \<le> t" by fastforce+
    with IH False a prev(2) show ?thesis by auto
  qed
qed simp

theorem alerts_throttled_witness:
  "raised 60 [(70, ''p:FAILED''), (30, ''p:BLOCKED''), (20, ''p:FAILED''), (5, ''p:FAILED'')] =
     [(70, ''p:FAILED''), (30, ''p:BLOCKED''), (5, ''p:FAILED'')] \<and>
   sorted_wrt (\<lambda>(t, k) (u, l). k = l \<longrightarrow> of_int (max 1 60) \<le> t - u)
     [(70 :: rat, ''p:FAILED''), (30, ''p:BLOCKED''), (5, ''p:FAILED'')]"
proof
  let ?as = "[(70 :: rat, ''p:FAILED''), (30, ''p:BLOCKED''), (20, ''p:FAILED''), (5, ''p:FAILED'')]"
  show r: "raised 60 ?as = [(70, ''p:FAILED''), (30, ''p:BLOCKED''), (5, ''p:FAILED'')]"
    by (simp add: should_alert_def new_alerts_def)
  have "sorted_wrt (\<lambda>(t, _) (u, _). u \<le> t) ?as" by simp
  from alerts_throttled [OF this, of 60]
  show "sorted_wrt (\<lambda>(t, k) (u, l). k = l \<longrightarrow> of_int (max 1 60) \<le> t - u)
     [(70 :: rat, ''p:FAILED''), (30, ''p:BLOCKED''), (5, ''p:FAILED'')]"
    unfolding r by blast
qed

end
