(* ===== verification/RateLimiter.thy ===== *)
theory RateLimiter
  imports PyValue
begin

text \<open>
  \<open>scheduler/rate_limiter.py\<close> and \<open>scheduler/rate_limiter_middleware.py\<close>. The interface
  \<open>RateLimitBackend\<close> is the locale \<open>rate_backend\<close>, with what the middleware relies on; it is
  interpreted on the in-memory limiter and on the limiter over Redis. Redis is a record of
  operations on a state of its own. Clock readings are arguments: \<open>check_rate_limit\<close> reads
  the clock twice, at \<open>now\<close> and, in the removal of old windows, at \<open>now2\<close>.
\<close>

record rate_config =
  rc_requests_per_minute :: int
  rc_burst_size :: int

definition default_rate_config :: rate_config where
  "default_rate_config = \<lparr>rc_requests_per_minute = 60, rc_burst_size = 10\<rparr>"

definition strict_rate_config :: rate_config where
  "strict_rate_config = \<lparr>rc_requests_per_minute = 10, rc_burst_size = 2\<rparr>"

record check_result =
  cr_allowed :: bool
  cr_current_count :: int
  cr_retry_after :: "int option"
  cr_limit :: int
  cr_remaining :: int

type_synonym clock = "rat \<times> rat"

subsection \<open>The in-memory limiter\<close>

text \<open>\<open>_counters\<close>: a key's count and the start of its window.\<close>

type_synonym counters = "(string \<times> (int \<times> rat)) list"

definition window_size :: rat where
  "window_size = 60"

definition limiter_key :: "string \<Rightarrow> string \<Rightarrow> string" where
  "limiter_key client_id endpoint = client_id @ '':'' @ endpoint"

definition cleanup_old_windows :: "rat \<Rightarrow> string \<Rightarrow> counters \<Rightarrow> counters" where
  "cleanup_old_windows now2 key cs =
     (case map_of cs key of
        None \<Rightarrow> cs
      | Some (_, start) \<Rightarrow> if now2 - start \<ge> window_size then dict_pop key cs else cs)"

text \<open>\<open>int(x)\<close> of a float.\<close>

definition trunc :: "rat \<Rightarrow> int" where
  "trunc x = (if x < 0 then - \<lfloor>- x\<rfloor> else \<lfloor>x\<rfloor>)"

definition current_window :: "rat \<Rightarrow> string \<Rightarrow> counters \<Rightarrow> int \<times> rat" where
  "current_window now key cs = (case map_of cs key of Some e \<Rightarrow> e | None \<Rightarrow> (0, now))"

definition check_key :: "rate_config \<Rightarrow> clock \<Rightarrow> string \<Rightarrow> counters \<Rightarrow> check_result \<times> counters" where
  "check_key cfg = (\<lambda>(now, now2) key cs0.
     (let cs = cleanup_old_windows now2 key cs0;
          (count, start) = current_window now key cs;
          limit = rc_requests_per_minute cfg
      in if count < limit
         then (\<lparr>cr_allowed = True, cr_current_count = count + 1, cr_retry_after = None,
                cr_limit = limit, cr_remaining = limit - count - 1\<rparr>,
               AList.update key (count + 1, start) cs)
         else (\<lparr>cr_allowed = False, cr_current_count = count,
                cr_retry_after = Some (trunc (window_size - (now - start))),
                cr_limit = limit, cr_remaining = 0\<rparr>, cs)))"

definition memory_check_rate_limit ::
  "rate_config \<Rightarrow> clock \<Rightarrow> string \<Rightarrow> string \<Rightarrow> counters \<Rightarrow> check_result \<times> counters" where
  "memory_check_rate_limit cfg t client_id endpoint = check_key cfg t (limiter_key client_id endpoint)"

subsection \<open>The limiter over Redis\<close>

record 'r redis_ops =
  redis_incr :: "string \<Rightarrow> 'r \<Rightarrow> (exn + int) \<times> 'r"
  redis_expire :: "string \<Rightarrow> int \<Rightarrow> 'r \<Rightarrow> (exn + unit) \<times> 'r"
  redis_ttl :: "string \<Rightarrow> 'r \<Rightarrow> (exn + int) \<times> 'r"

definition redis_key :: "string \<Rightarrow> string \<Rightarrow> string" where
  "redis_key client_id endpoint = ''rate_limit:'' @ client_id @ '':'' @ endpoint"

definition fail_open :: "int \<Rightarrow> check_result" where
  "fail_open limit = \<lparr>cr_allowed = True, cr_current_count = 0, cr_retry_after = None,
     cr_limit = limit, cr_remaining = limit\<rparr>"

definition redis_result :: "'r redis_ops \<Rightarrow> int \<Rightarrow> string \<Rightarrow> int \<Rightarrow> 'r \<Rightarrow> (exn + check_result) \<times> 'r" where
  "redis_result ops limit key current r =
     (if current \<le> limit
      then (Inr \<lparr>cr_allowed = True, cr_current_count = current, cr_retry_after = None,
                 cr_limit = limit, cr_remaining = limit - current\<rparr>, r)
      else (case redis_ttl ops key r of
              (Inl e, r') \<Rightarrow> (Inl e, r')
            | (Inr ttl, r') \<Rightarrow>
                (Inr \<lparr>cr_allowed = False, cr_current_count = current,
                      cr_retry_after = Some (if ttl > 0 then ttl else 60),
                      cr_limit = limit, cr_remaining = 0\<rparr>, r')))"

definition redis_body :: "'r redis_ops \<Rightarrow> int \<Rightarrow> string \<Rightarrow> 'r \<Rightarrow> (exn + check_result) \<times> 'r" where
  "redis_body ops limit key r =
     (case redis_incr ops key r of
        (Inl e, r1) \<Rightarrow> (Inl e, r1)
      | (Inr current, r1) \<Rightarrow>
          if current = 1 then
            (case redis_expire ops key 60 r1 of
               (Inl e, r2) \<Rightarrow> (Inl e, r2)
             | (Inr _, r2) \<Rightarrow> redis_result ops limit key current r2)
          else redis_result ops limit key current r1)"

text \<open>Without a client (\<open>None\<close>) every check makes an in-memory limiter of its own; an exception
  of the client lets the request through.\<close>

definition redis_check_rate_limit ::
  "rate_config \<Rightarrow> clock \<Rightarrow> string \<Rightarrow> string \<Rightarrow> 'r redis_ops option \<times> 'r
     \<Rightarrow> check_result \<times> ('r redis_ops option \<times> 'r)" where
  "redis_check_rate_limit cfg t client_id endpoint = (\<lambda>(client, r).
     (case client of
        None \<Rightarrow> (fst (memory_check_rate_limit cfg t client_id endpoint []), (client, r))
      | Some ops \<Rightarrow>
          (case redis_body ops (rc_requests_per_minute cfg) (redis_key client_id endpoint) r of
             (Inr res, r') \<Rightarrow> (res, (client, r'))
           | (Inl e, r') \<Rightarrow> (fail_open (rc_requests_per_minute cfg), (client, r')))))"

subsection \<open>The middleware\<close>

record http_request =
  rq_forwarded_for :: "string option"
  rq_real_ip :: "string option"
  rq_client_host :: "string option"
  rq_path :: string

record http_response =
  rs_status :: nat
  rs_content :: pyval
  rs_headers :: "(string \<times> string) list"

definition default_exclude_paths :: "string list" where
  "default_exclude_paths = [''/health'', ''/ready'', ''/metrics'']"

definition get_client_id :: "http_request \<Rightarrow> string" where
  "get_client_id req =
     (case rq_forwarded_for req of
        Some (c # f) \<Rightarrow> py_strip (hd (split_on (CHR '','') (c # f)))
      | _ \<Rightarrow>
        (case rq_real_ip req of
           Some (c # ip) \<Rightarrow> c # ip
         | _ \<Rightarrow> (case rq_client_host req of Some h \<Rightarrow> h | None \<Rightarrow> ''unknown'')))"

definition should_rate_limit :: "string list \<Rightarrow> http_request \<Rightarrow> bool" where
  "should_rate_limit excluded req = list_all (\<lambda>p. \<not> starts_with p (rq_path req)) excluded"

definition too_many_response :: "check_result \<Rightarrow> http_response" where
  "too_many_response res =
     \<lparr>rs_status = 429,
      rs_content = PDict [(''error'', PStr ''rate_limit_exceeded''),
        (''message'', PStr ''Too many requests. Please try again later.''),
        (''retry_after'', case cr_retry_after res of None \<Rightarrow> PNone | Some r \<Rightarrow> PInt r)],
      rs_headers =
        [(''X-RateLimit-Limit'', int_str (cr_limit res)),
         (''X-RateLimit-Remaining'', int_str (cr_remaining res)),
         (''X-RateLimit-Reset'', int_str (case cr_retry_after res of None \<Rightarrow> 0 | Some r \<Rightarrow> r))]
        @ (case cr_retry_after res of None \<Rightarrow> [] | Some r \<Rightarrow> [(''Retry-After'', int_str r)])\<rparr>"

text \<open>\<open>app\<close> is the rest of the application, \<open>call_next\<close>.\<close>

definition dispatch ::
  "(string \<Rightarrow> string \<Rightarrow> 's \<Rightarrow> check_result \<times> 's) \<Rightarrow> string list \<Rightarrow> (http_request \<Rightarrow> http_response)
     \<Rightarrow> http_request \<Rightarrow> 's \<Rightarrow> http_response \<times> 's" where
  "dispatch check excluded app req s =
     (if \<not> should_rate_limit excluded req then (app req, s)
      else (let (res, s') = check (get_client_id req) (rq_path req) s in
        if cr_allowed res then
          (let response = app req in
           (response\<lparr>rs_headers :=
              AList.update ''X-RateLimit-Remaining'' (int_str (cr_remaining res))
                (AList.update ''X-RateLimit-Limit'' (int_str (cr_limit res)) (rs_headers response))\<rparr>, s'))
        else (too_many_response res, s')))"

subsection \<open>The contract of a backend\<close>

text \<open>\<open>answered\<close> is what a client sees of a check. The locale has what \<open>CheckResult\<close> promises
  to the middleware; \<open>ok\<close> is the backend's own condition on the clock readings of the check.\<close>

definition answered ::
  "int \<Rightarrow> (http_request \<Rightarrow> http_response) \<Rightarrow> http_request \<Rightarrow> check_result \<Rightarrow> http_response \<Rightarrow> bool" where
  "answered limit app req res response \<longleftrightarrow>
     (if cr_allowed res
      then rs_status response = rs_status (app req) \<and> rs_content response = rs_content (app req) \<and>
        map_of (rs_headers response) ''X-RateLimit-Limit'' = Some (int_str limit) \<and>
        (\<exists>n \<ge> 0. map_of (rs_headers response) ''X-RateLimit-Remaining'' = Some (int_str n))
      else rs_status response = 429 \<and>
        (\<exists>r \<ge> 0. map_of (rs_headers response) ''Retry-After'' = Some (int_str r)))"

locale rate_backend =
  fixes check :: "clock \<Rightarrow> string \<Rightarrow> string \<Rightarrow> 's \<Rightarrow> check_result \<times> 's"
    and ok :: "clock \<Rightarrow> 's \<Rightarrow> bool"
    and limit :: int
  assumes limit_reported: "cr_limit (fst (check t c e s)) = limit"
    and allowed_budget: "check t c e s = (res, s') \<Longrightarrow> cr_allowed res \<Longrightarrow>
      cr_current_count res + cr_remaining res = limit \<and> (0 \<le> limit \<longrightarrow> 0 \<le> cr_remaining res) \<and> cr_retry_after res = None"
    and denied_waits: "ok t s \<Longrightarrow> check t c e s = (res, s') \<Longrightarrow> \<not> cr_allowed res \<Longrightarrow>
      cr_remaining res = 0 \<and> limit \<le> cr_current_count res \<and> (\<exists>r \<ge> 0. cr_retry_after res = Some r)"
begin

lemma dispatch_answers:
  assumes "should_rate_limit excluded req" "ok t s" "0 \<le> limit"
    and "check t (get_client_id req) (rq_path req) s = (res, s')"
  shows "answered limit app req res (fst (dispatch (check t) excluded app req s)) \<and>
    snd (dispatch (check t) excluded app req s) = s'"
proof (cases "cr_allowed res")
  case True
  with allowed_budget [OF assms(4)] assms limit_reported [of t "get_client_id req" "rq_path req" s] show ?thesis
    by (auto simp: dispatch_def answered_def Let_def intro!: exI [of _ "cr_remaining res"])
next
  case False
  obtain r where "0 \<le> r" "cr_retry_after res = Some r"
    using denied_waits [OF assms(2, 4) False] by blast
  with assms False show ?thesis
    by (auto simp: dispatch_def answered_def too_many_response_def)
qed

end

text \<open>The clock does not go back between the two readings.\<close>

definition clock_ok :: "clock \<Rightarrow> 's \<Rightarrow> bool" where
  "clock_ok t s \<longleftrightarrow> fst t \<le> snd t"

lemma trunc_nonneg: "0 \<le> x \<Longrightarrow> 0 \<le> trunc x"
  by (simp add: trunc_def)

lemma check_key_cases:
  obtains n start where "current_window now key (cleanup_old_windows now2 key cs) = (n, start)"
    and "now2 - start < window_size \<or> (n, start) = (0, now)"
    and "check_key cfg (now, now2) key cs =
      (if n < rc_requests_per_minute cfg
       then (\<lparr>cr_allowed = True, cr_current_count = n + 1, cr_retry_after = None,
              cr_limit = rc_requests_per_minute cfg, cr_remaining = rc_requests_per_minute cfg - n - 1\<rparr>,
             AList.update key (n + 1, start) (cleanup_old_windows now2 key cs))
       else (\<lparr>cr_allowed = False, cr_current_count = n,
              cr_retry_after = Some (trunc (window_size - (now - start))),
              cr_limit = rc_requests_per_minute cfg, cr_remaining = 0\<rparr>, cleanup_old_windows now2 key cs))"
proof -
  obtain n start where w: "current_window now key (cleanup_old_windows now2 key cs) = (n, start)" by fastforce
  moreover from w have "now2 - start < window_size \<or> (n, start) = (0, now)"
    by (auto simp: current_window_def cleanup_old_windows_def split: option.splits if_splits)
  ultimately show ?thesis by (rule that) (simp add: check_key_def Let_def w)
qed

interpretation memory: rate_backend "memory_check_rate_limit cfg" clock_ok "rc_requests_per_minute cfg" for cfg
proof
  fix t :: clock and c e and s s' :: counters and res
  obtain now now2 where t: "t = (now, now2)" by (cases t)
  show "cr_limit (fst (memory_check_rate_limit cfg t c e s)) = rc_requests_per_minute cfg"
    by (rule check_key_cases [of now "limiter_key c e" now2 s cfg]) (simp add: memory_check_rate_limit_def t)
  show "cr_current_count res + cr_remaining res = rc_requests_per_minute cfg \<and>
      (0 \<le> rc_requests_per_minute cfg \<longrightarrow> 0 \<le> cr_remaining res) \<and> cr_retry_after res = None"
    if "memory_check_rate_limit cfg t c e s = (res, s')" "cr_allowed res"
    using that by (rule_tac check_key_cases [of now "limiter_key c e" now2 s cfg])
      (auto simp: memory_check_rate_limit_def t split: if_splits)
  show "cr_remaining res = 0 \<and> rc_requests_per_minute cfg \<le> cr_current_count res \<and> (\<exists>r \<ge> 0. cr_retry_after res = Some r)"
    if ok: "clock_ok t s" and c: "memory_check_rate_limit cfg t c e s = (res, s')" and d: "\<not> cr_allowed res"
  proof (rule check_key_cases [of now "limiter_key c e" now2 s cfg])
    fix n start
    assume w: "now2 - start < window_size \<or> (n, start) = (0, now)"
      and "check_key cfg (now, now2) (limiter_key c e) s =
        (if n < rc_requests_per_minute cfg
         then (\<lparr>cr_allowed = True, cr_current_count = n + 1, cr_retry_after = None,
                cr_limit = rc_requests_per_minute cfg, cr_remaining = rc_requests_per_minute cfg - n - 1\<rparr>,
               AList.update (limiter_key c e) (n + 1, start) (cleanup_old_windows now2 (limiter_key c e) s))
         else (\<lparr>cr_allowed = False, cr_current_count = n,
                cr_retry_after = Some (trunc (window_size - (now - start))),
                cr_limit = rc_requests_per_minute cfg, cr_remaining = 0\<rparr>, cleanup_old_windows now2 (limiter_key c e) s))"
    with c d have r: "res = \<lparr>cr_allowed = False, cr_current_count = n,
        cr_retry_after = Some (trunc (window_size - (now - start))),
        cr_limit = rc_requests_per_minute cfg, cr_remaining = 0\<rparr>" "rc_requests_per_minute cfg \<le> n"
      by (auto simp: memory_check_rate_limit_def t split: if_splits)
    have "0 \<le> trunc (window_size - (now - start))"
      using w ok by (intro trunc_nonneg) (auto simp: clock_ok_def t window_size_def)
    with r show ?thesis by auto
  qed
qed

lemma redis_body_result:
  "redis_body ops limit key r = (Inr res, r') \<Longrightarrow>
     cr_limit res = limit \<and> (cr_allowed res \<longleftrightarrow> cr_current_count res \<le> limit) \<and>
     (if cr_allowed res then cr_remaining res = limit - cr_current_count res \<and> cr_retry_after res = None
      else cr_remaining res = 0 \<and> (\<exists>n > 0. cr_retry_after res = Some n))"
  by (auto simp: redis_body_def redis_result_def split: prod.splits sum.splits if_splits)

interpretation redis: rate_backend "redis_check_rate_limit cfg" clock_ok "rc_requests_per_minute cfg" for cfg
proof
  fix t :: clock and c e and s s' :: "'r redis_ops option \<times> 'r" and res
  let ?l = "rc_requests_per_minute cfg"
  obtain client r where s: "s = (client, r)" by (cases s)
  note redis_def = redis_check_rate_limit_def fail_open_def
  show "cr_limit (fst (redis_check_rate_limit cfg t c e s)) = ?l"
    using memory.limit_reported [of cfg t c e "[]"]
    by (auto simp: redis_def s dest!: redis_body_result split: option.splits prod.splits sum.splits)
  show "cr_current_count res + cr_remaining res = ?l \<and> (0 \<le> ?l \<longrightarrow> 0 \<le> cr_remaining res) \<and> cr_retry_after res = None"
    if "redis_check_rate_limit cfg t c e s = (res, s')" "cr_allowed res"
    using that memory.allowed_budget [OF surjective_pairing, of cfg t c e "[]"]
    by (auto simp: redis_def s dest!: redis_body_result split: option.splits prod.splits sum.splits)
  show "cr_remaining res = 0 \<and> ?l \<le> cr_current_count res \<and> (\<exists>r \<ge> 0. cr_retry_after res = Some r)"
    if ok: "clock_ok t s" and c: "redis_check_rate_limit cfg t c e s = (res, s')" and d: "\<not> cr_allowed res"
  proof (cases client)
    case None
    then have "memory_check_rate_limit cfg t c e [] = (res, snd (memory_check_rate_limit cfg t c e []))"
      using c by (auto simp: redis_def s)
    from memory.denied_waits [OF _ this d] ok show ?thesis by (simp add: clock_ok_def)
  next
    case (Some ops)
    with c d obtain r' where "redis_body ops ?l (redis_key c e) r = (Inr res, r')"
      by (auto simp: redis_def s split: prod.splits sum.splits)
    from redis_body_result [OF this] d show ?thesis by auto
  qed
qed


subsection \<open>How many requests pass\<close>

text \<open>A request: the clock readings, the client, the endpoint.\<close>

type_synonym timed_check = "clock \<times> string \<times> string"

text \<open>How many requests with the given key are allowed from time \<open>lo\<close> on.\<close>

fun allowed_since :: "rate_config \<Rightarrow> rat \<Rightarrow> string \<Rightarrow> timed_check list \<Rightarrow> counters \<Rightarrow> int" where
  "allowed_since cfg lo key [] cs = 0"
| "allowed_since cfg lo key ((t, c, e) # reqs) cs =
     (let (res, cs') = memory_check_rate_limit cfg t c e cs in
      (if limiter_key c e = key \<and> lo \<le> fst t \<and> cr_allowed res then 1 else 0) + allowed_since cfg lo key reqs cs')"

text \<open>
  What the entry of a key says about the \<open>n\<close> requests allowed since \<open>lo\<close> when windows begin
  at least \<open>p\<close> seconds apart: a window that began before \<open>lo\<close> has counted them and its
  first request; one that began later comes after at most one window that began before
  \<open>lo\<close> and as many as fit between.
\<close>

definition window_inv :: "int \<Rightarrow> rat \<Rightarrow> rat \<Rightarrow> rat \<Rightarrow> int \<Rightarrow> (int \<times> rat) option \<Rightarrow> bool" where
  "window_inv limit p lo hi n entry \<longleftrightarrow>
     (case entry of
        None \<Rightarrow> n = 0
      | Some (used, start) \<Rightarrow> 1 \<le> used \<and> used \<le> limit \<and> start < hi \<and>
          n \<le> (if start < lo then used - 1 else limit - 1 + limit * \<lfloor>(start - lo) / p\<rfloor> + used))"

lemma window_inv_new:
  assumes "window_inv limit p lo hi n entry" "1 \<le> limit" "0 < p" "now < hi" "now < lo \<Longrightarrow> n = 0"
    and "\<And>used start. entry = Some (used, start) \<Longrightarrow> start + p \<le> now"
  shows "window_inv limit p lo hi (n + (if lo \<le> now then 1 else 0)) (Some (1, now))"
proof (cases "lo \<le> now")
  case True
  have f0: "0 \<le> \<lfloor>(now - lo) / p\<rfloor>" using True assms(3) by simp
  then have l0: "0 \<le> limit * \<lfloor>(now - lo) / p\<rfloor>" using assms(2) by simp
  have "n \<le> limit - 1 + limit * \<lfloor>(now - lo) / p\<rfloor>"
  proof (cases entry)
    case None
    with assms(1,2) l0 show ?thesis by (simp add: window_inv_def)
  next
    case (Some e)
    obtain used start where e: "e = (used, start)" by (cases e)
    note w = assms(1) [unfolded Some e window_inv_def option.case prod.case]
    show ?thesis
    proof (cases "start < lo")
      case True
      with w l0 show ?thesis by auto
    next
      case False
      have "(start + p - lo) / p \<le> (now - lo) / p"
        using assms(6) [of used start] Some e assms(3) by (intro divide_right_mono) auto
      moreover have "(start + p - lo) / p = (start - lo) / p + 1"
        using assms(3) by (simp add: diff_divide_distrib add_divide_distrib)
      ultimately have "(start - lo) / p + 1 \<le> (now - lo) / p" by simp
      then have "\<lfloor>(start - lo) / p\<rfloor> + 1 \<le> \<lfloor>(now - lo) / p\<rfloor>" by linarith
      then have "limit * (\<lfloor>(start - lo) / p\<rfloor> + 1) \<le> limit * \<lfloor>(now - lo) / p\<rfloor>"
        using assms(2) by (intro mult_left_mono) auto
      with w False show ?thesis by (auto simp: distrib_left)
    qed
  qed
  with True assms(2,4) show ?thesis by (simp add: window_inv_def)
qed (use assms(2,4,5) in \<open>simp add: window_inv_def\<close>)

lemma window_inv_bound:
  assumes "window_inv limit p lo (lo + of_nat k * p) n entry" "1 \<le> limit" "0 < p"
  shows "n \<le> (int k + 1) * limit - 1"
proof (cases entry)
  case None
  have "1 * 1 \<le> (int k + 1) * limit" using assms(2) by (intro mult_mono) auto
  with None assms(1) show ?thesis by (simp add: window_inv_def)
next
  case (Some e)
  obtain used start where e: "e = (used, start)" by (cases e)
  note w = assms(1) [unfolded Some e window_inv_def option.case prod.case]
  have l: "limit \<le> (int k + 1) * limit" using assms(2) mult_right_mono [of 1 "int k + 1" limit] by simp
  show ?thesis
  proof (cases "start < lo")
    case True
    with w have "n \<le> used - 1" "used \<le> limit" by simp_all
    with l show ?thesis by linarith
  next
    case False
    then have "(start - lo) / p < of_nat k" using w assms(3) by (auto simp: field_simps)
    then have "\<lfloor>(start - lo) / p\<rfloor> + 1 \<le> int k" by linarith
    then have "limit * (\<lfloor>(start - lo) / p\<rfloor> + 1) \<le> limit * int k" using assms(2) by (intro mult_left_mono) auto
    with w False show ?thesis by (auto simp: algebra_simps)
  qed
qed

lemma check_other_key:
  "key' \<noteq> key \<Longrightarrow> map_of (snd (check_key cfg t key cs)) key' = map_of cs key'"
  by (cases t, rule_tac check_key_cases [of "fst t" key "snd t" cs cfg])
    (auto simp: cleanup_old_windows_def split: option.splits)

lemma window_step:
  assumes "1 \<le> rc_requests_per_minute cfg" "window_inv (rc_requests_per_minute cfg) (60 - d) lo hi n (map_of cs key)"
    and "now \<le> now2" "now2 \<le> now + d" "now < hi" "now < lo \<Longrightarrow> n = 0" "d < 60" "0 \<le> n"
    and "check_key cfg (now, now2) key cs = (res, cs')"
  shows "window_inv (rc_requests_per_minute cfg) (60 - d) lo hi
    (n + (if lo \<le> now \<and> cr_allowed res then 1 else 0)) (map_of cs' key)"
proof (cases "map_of (cleanup_old_windows now2 key cs) key")
  case None
  then have "current_window now key (cleanup_old_windows now2 key cs) = (0, now)" by (simp add: current_window_def)
  then have r: "cr_allowed res" "map_of cs' key = Some (1, now)"
    using assms(1, 9) by (auto simp: check_key_def Let_def)
  have "start + (60 - d) \<le> now" if "map_of cs key = Some (used, start)" for used start
  proof -
    have "now2 - start \<ge> 60"
      using None that by (auto simp: cleanup_old_windows_def window_size_def split: if_splits)
    with assms(4) show ?thesis by linarith
  qed
  from window_inv_new [OF assms(2,1) _ assms(5,6) this] r assms(7) show ?thesis by simp
next
  case (Some e)
  obtain used start where e: "e = (used, start)" by (cases e)
  have m: "map_of cs key = Some (used, start)"
    using Some by (auto simp: cleanup_old_windows_def e split: option.splits if_splits)
  have w: "current_window now key (cleanup_old_windows now2 key cs) = (used, start)"
    by (simp add: current_window_def Some e)
  show ?thesis
  proof (cases "used < rc_requests_per_minute cfg")
    case True
    then have r: "cr_allowed res" "map_of cs' key = Some (used + 1, start)"
      using assms(9) w by (auto simp: check_key_def Let_def)
    with True assms(2) m show ?thesis by (auto simp: window_inv_def split: if_splits)
  next
    case False
    then have "\<not> cr_allowed res" "map_of cs' key = Some (used, start)"
      using assms(9) w Some e by (auto simp: check_key_def Let_def)
    with assms(2) m show ?thesis by simp
  qed
qed

lemma allowed_since_bound:
  assumes "1 \<le> rc_requests_per_minute cfg" "d < 60"
    and "window_inv (rc_requests_per_minute cfg) (60 - d) lo (lo + of_nat k * (60 - d)) n (map_of cs key)" "0 \<le> n"
    and "sorted (map (\<lambda>q. fst (fst q)) reqs)"
    and "\<forall>((now, now2), _) \<in> set reqs. now \<le> now2 \<and> now2 \<le> now + d \<and> now < lo + of_nat k * (60 - d)"
    and "\<forall>((now, now2), _) \<in> set reqs. now < lo \<longrightarrow> n = 0"
  shows "n + allowed_since cfg lo key reqs cs \<le> (int k + 1) * rc_requests_per_minute cfg - 1"
  using assms(3-7)
proof (induction reqs arbitrary: n cs)
  case Nil
  then show ?case using window_inv_bound [OF Nil.prems(1) assms(1)] assms(2) by simp
next
  case (Cons q reqs)
  obtain now now2 c e where q: "q = ((now, now2), c, e)" by (cases q) auto
  obtain res cs' where r: "memory_check_rate_limit cfg (now, now2) c e cs = (res, cs')" by fastforce
  then have k: "check_key cfg (now, now2) (limiter_key c e) cs = (res, cs')"
    by (simp add: memory_check_rate_limit_def)
  let ?n = "n + (if limiter_key c e = key \<and> lo \<le> now \<and> cr_allowed res then 1 else 0)"
  have "window_inv (rc_requests_per_minute cfg) (60 - d) lo (lo + of_nat k * (60 - d)) ?n (map_of cs' key)"
  proof (cases "limiter_key c e = key")
    case True
    with window_step [OF assms(1) Cons.prems(1), of now now2 res cs'] Cons.prems assms(2) k q show ?thesis by auto
  next
    case False
    with check_other_key [of key "limiter_key c e" cfg "(now, now2)" cs] k Cons.prems(1) show ?thesis by simp
  qed
  moreover have "now \<le> fst (fst p)" if "p \<in> set reqs" for p
    using Cons.prems(3) that by (fastforce simp: q)
  ultimately have "?n + allowed_since cfg lo key reqs cs' \<le> (int k + 1) * rc_requests_per_minute cfg - 1"
    using Cons.prems by (intro Cons.IH) (force simp: q)+
  then show ?case by (simp add: q r)
qed

lemma none_allowed:
  assumes "rc_requests_per_minute cfg \<le> 0"
  shows "allowed_since cfg lo key reqs [] = 0"
proof -
  have "check_key cfg t k [] = (res, cs') \<Longrightarrow> \<not> cr_allowed res \<and> cs' = []" for t k res cs'
    using assms by (cases t) (auto simp: check_key_def current_window_def cleanup_old_windows_def Let_def)
  then show ?thesis
    by (induction reqs) (auto simp: memory_check_rate_limit_def Let_def split_beta, (metis prod.collapse)+)
qed

text \<open>C20: The in-memory limiter keeps a fixed window per client and endpoint. Let \<open>d\<close> bound the
  time between the two clock readings of a check, less than a minute, and let the clock
  not run backwards. Then windows begin at least \<open>60 - d\<close> seconds apart, and in any
  stretch of at most \<open>k\<close> times as long at most \<open>k + 1\<close> times the limit less one
  requests pass, whatever came before and whatever the limit: with instant checks twice
  the limit less one in any minute, with a delay below half a minute three times the
  limit less one.\<close>

theorem allowed_per_minute:
  assumes "sorted (map (\<lambda>q. fst (fst q)) reqs)" "d < 60"
    and "\<forall>((now, now2), _) \<in> set reqs. now \<le> now2 \<and> now2 \<le> now + d \<and> now < lo + of_nat k * (60 - d)"
  shows "allowed_since cfg lo (limiter_key client endpoint) reqs [] \<le>
    max 0 ((int k + 1) * rc_requests_per_minute cfg - 1)"
proof (cases "1 \<le> rc_requests_per_minute cfg")
  case True
  from allowed_since_bound [OF this assms(2) _ _ assms(1, 3), of 0 "[]" "limiter_key client endpoint"]
  show ?thesis by (simp add: window_inv_def split_beta)
qed (simp add: none_allowed)

text \<open>The bound is reached: with a limit of 3, five requests pass between 59 and 60.\<close>

definition burst :: "timed_check list" where
  "burst = map (\<lambda>t. ((t, t), ''a'', ''/run'')) [0, 59, 59, 60, 60, 60]"

theorem allowed_per_minute_witness:
  "let cfg = \<lparr>rc_requests_per_minute = 3, rc_burst_size = 10\<rparr> in
   allowed_since cfg 59 ''a:/run'' burst [] = 5 \<and>
   allowed_since cfg 59 ''a:/run'' burst [] \<le> max 0 (2 * rc_requests_per_minute cfg - 1)"
  using allowed_per_minute [of burst 0 59 1 "\<lparr>rc_requests_per_minute = 3, rc_burst_size = 10\<rparr>" "''a''" "''/run''"]
  by (simp add: burst_def limiter_key_def memory_check_rate_limit_def check_key_def current_window_def
      cleanup_old_windows_def window_size_def Let_def)

text \<open>A request that either limiter denies is answered with status 429 and a \<open>Retry-After\<close>
  of at least zero seconds and never reaches the application; one that it allows is
  answered by the application, with the remaining budget in its headers.\<close>

theorem middleware_response:
  assumes "should_rate_limit excluded req" "fst t \<le> snd t" "0 \<le> rc_requests_per_minute cfg"
  shows "answered (rc_requests_per_minute cfg) app req
      (fst (memory_check_rate_limit cfg t (get_client_id req) (rq_path req) cs))
      (fst (dispatch (memory_check_rate_limit cfg t) excluded app req cs)) \<and>
    answered (rc_requests_per_minute cfg) app req
      (fst (redis_check_rate_limit cfg t (get_client_id req) (rq_path req) r))
      (fst (dispatch (redis_check_rate_limit cfg t) excluded app req r))"
proof -
  have "clock_ok t cs" "clock_ok t r" using assms(2) by (simp_all add: clock_ok_def)
  with assms(1, 3) show ?thesis
    using memory.dispatch_answers [OF _ _ _ surjective_pairing] redis.dispatch_answers [OF _ _ _ surjective_pairing]
    by blast
qed

theorem middleware_response_witness:
  "rs_status (fst (dispatch (memory_check_rate_limit \<lparr>rc_requests_per_minute = 0, rc_burst_size = 0\<rparr> (1, 1))
     default_exclude_paths (\<lambda>_. \<lparr>rs_status = 200, rs_content = PNone, rs_headers = []\<rparr>)
     \<lparr>rq_forwarded_for = None, rq_real_ip = None, rq_client_host = None, rq_path = ''/run''\<rparr> [])) = 429"
proof -
  let ?app = "\<lambda>_ :: http_request. \<lparr>rs_status = 200, rs_content = PNone, rs_headers = []\<rparr>"
  let ?cfg = "\<lparr>rc_requests_per_minute = 0, rc_burst_size = 0\<rparr>"
  let ?req = "\<lparr>rq_forwarded_for = None, rq_real_ip = None, rq_client_host = None, rq_path = ''/run''\<rparr>"
  have "should_rate_limit default_exclude_paths ?req"
    by (simp add: should_rate_limit_def default_exclude_paths_def)
  from middleware_response [OF this, of "(1, 1)" ?cfg ?app "[]" "(None, ())"]
  have "answered 0 ?app ?req (fst (memory_check_rate_limit ?cfg (1, 1) (get_client_id ?req) ''/run'' []))
     (fst (dispatch (memory_check_rate_limit ?cfg (1, 1)) default_exclude_paths ?app ?req []))" by simp
  moreover have "\<not> cr_allowed (fst (memory_check_rate_limit ?cfg (1, 1) (get_client_id ?req) ''/run'' []))"
    by (simp add: memory_check_rate_limit_def check_key_def current_window_def cleanup_old_windows_def Let_def)
  ultimately show ?thesis by (simp add: answered_def)
qed

text \<open>The limiter without Redis never denies: its fallback forgets every request.\<close>

lemma redis_fallback_allows:
  "1 \<le> rc_requests_per_minute cfg \<Longrightarrow> cr_allowed (fst (redis_check_rate_limit cfg t c e (None, r)))"
  by (cases t) (simp add: redis_check_rate_limit_def memory_check_rate_limit_def check_key_def current_window_def
      cleanup_old_windows_def Let_def)

end
