(* ===== verification/Access.thy ===== *)
theory Access
  imports StateExn RateLimiter
begin

text \<open>
  Who may do what: roles and permissions (\<open>scheduler/auth/rbac.py\<close>), the authorisation of
  manual commands in \<open>scheduler/gateway.py\<close>, tokens (\<open>scheduler/auth/jwt_validator.py\<close>) and the
  authentication of requests (\<open>scheduler/auth/middleware.py\<close>). The package \<open>jwt\<close> is a record of
  two functions; what is used of it, for the validator's own key, algorithm, issuer and
  audience, is the hypothesis \<open>jwt_roundtrip\<close>.
\<close>

subsection \<open>Roles and permissions\<close>

datatype role = ADMIN | OPERATOR | VIEWER

datatype permission =
    PIPELINE_RUN | PIPELINE_READ | PIPELINE_CANCEL | OVERRIDE_EXECUTE | CRON_TRIGGER | CRON_READ
  | QUEUE_DRAIN | QUEUE_READ | RUNS_READ | RUNS_WRITE | METRICS_READ | ADMIN_ACCESS

fun role_value :: "role \<Rightarrow> string" where
  "role_value ADMIN = ''admin''" | "role_value OPERATOR = ''operator''" | "role_value VIEWER = ''viewer''"

text \<open>\<open>Role(v)\<close>; \<open>None\<close> for the \<open>ValueError\<close>.\<close>

definition role_of :: "pyval \<Rightarrow> role option" where
  "role_of v =
     (case v of
        PStr s \<Rightarrow> if s = ''admin'' then Some ADMIN else if s = ''operator'' then Some OPERATOR
                  else if s = ''viewer'' then Some VIEWER else None
      | _ \<Rightarrow> None)"

fun role_permissions :: "role \<Rightarrow> permission list" where
  "role_permissions ADMIN =
     [PIPELINE_RUN, PIPELINE_READ, PIPELINE_CANCEL, OVERRIDE_EXECUTE, CRON_TRIGGER, CRON_READ,
      QUEUE_DRAIN, QUEUE_READ, RUNS_READ, RUNS_WRITE, METRICS_READ, ADMIN_ACCESS]"
| "role_permissions OPERATOR =
     [PIPELINE_RUN, PIPELINE_READ, OVERRIDE_EXECUTE, CRON_TRIGGER, CRON_READ, QUEUE_DRAIN,
      QUEUE_READ, RUNS_READ, METRICS_READ]"
| "role_permissions VIEWER = [PIPELINE_READ, CRON_READ, QUEUE_READ, RUNS_READ, METRICS_READ]"

definition has_role_permission :: "role \<Rightarrow> permission \<Rightarrow> bool" where
  "has_role_permission r p \<longleftrightarrow> p \<in> set (role_permissions r)"

text \<open>Roles are ordered by what they may do.\<close>

fun role_rank :: "role \<Rightarrow> nat" where
  "role_rank VIEWER = 0" | "role_rank OPERATOR = 1" | "role_rank ADMIN = 2"

lemma role_rank_inject [simp]: "role_rank r = role_rank q \<longleftrightarrow> r = q"
  by (cases r; cases q) simp_all

instantiation role :: linorder
begin

definition less_eq_role :: "role \<Rightarrow> role \<Rightarrow> bool" where
  "less_eq_role r q \<longleftrightarrow> role_rank r \<le> role_rank q"

definition less_role :: "role \<Rightarrow> role \<Rightarrow> bool" where
  "less_role r q \<longleftrightarrow> role_rank r < role_rank q"

instance
  by standard (auto simp: less_eq_role_def less_role_def)

end

lemma role_of_value [simp]: "role_of (PStr (role_value r)) = Some r"
  by (cases r) (simp_all add: role_of_def)

lemma permissions_monotone:
  "r \<le> q \<longleftrightarrow> set (role_permissions r) \<subseteq> set (role_permissions q)"
  by (cases r; cases q) (auto simp: less_eq_role_def)

record rbac_user =
  ru_user_id :: pyval
  ru_role :: role
  ru_email :: pyval

definition has_permission :: "rbac_user \<Rightarrow> permission \<Rightarrow> bool" where
  "has_permission u p \<longleftrightarrow> p \<in> set (role_permissions (ru_role u))"

subsection \<open>The gateway's authorisation\<close>

text \<open>\<open>user\<close> is \<open>request.state.user\<close>, when there is one.\<close>

definition get_user_from_request :: "pyval option \<Rightarrow> rbac_user option" where
  "get_user_from_request user =
     (case user of
        Some (PDict d) \<Rightarrow>
          Some \<lparr>ru_user_id = dget_or d ''user_id'' (PStr []),
                ru_role = (case role_of (dget_or d ''role'' (PStr ''viewer'')) of Some r \<Rightarrow> r | None \<Rightarrow> VIEWER),
                ru_email = dget d ''email''\<rparr>
      | _ \<Rightarrow> None)"

definition authorize_jwt_request ::
  "bool \<Rightarrow> pyval option \<Rightarrow> permission \<Rightarrow> bool \<times> string option \<times> rbac_user option" where
  "authorize_jwt_request auth_enabled user p =
     (if \<not> auth_enabled then (True, None, None)
      else (case get_user_from_request user of
              None \<Rightarrow> (False, Some ''unauthenticated'', None)
            | Some u \<Rightarrow> if \<not> has_permission u p then (False, Some ''permission_denied'', Some u)
                        else (True, None, Some u)))"

record operator_config =
  oc_api_key :: string
  oc_allowed_roles :: "string list"
  oc_allowed_sources :: "string list"

record operator_identity =
  oi_role :: string
  oi_source :: string

record operator_headers =
  oh_key :: "string option"
  oh_role :: "string option"
  oh_source :: "string option"

definition normalize_access_field :: "string option \<Rightarrow> string" where
  "normalize_access_field v = py_lower (py_strip (case v of None \<Rightarrow> [] | Some s \<Rightarrow> s))"

definition authorize_manual_command ::
  "operator_config \<Rightarrow> operator_headers \<Rightarrow> permission option \<Rightarrow> bool \<times> string option \<times> operator_identity option" where
  "authorize_manual_command cfg h required =
     (if oh_key h = None \<or> oh_key h = Some [] \<or> oh_key h \<noteq> Some (oc_api_key cfg)
      then (False, Some ''invalid_operator_key'', None)
      else let role = normalize_access_field (oh_role h); source = normalize_access_field (oh_source h);
               who = \<lparr>oi_role = role, oi_source = source\<rparr> in
        if role = [] then (False, Some ''missing_operator_role'', None)
        else if source = [] then (False, Some ''missing_command_source'', None)
        else if role \<notin> set (oc_allowed_roles cfg) then (False, Some ''operator_role_not_allowed'', Some who)
        else if source \<notin> set (oc_allowed_sources cfg) then (False, Some ''command_source_not_allowed'', Some who)
        else (case required of
                None \<Rightarrow> (True, None, Some who)
              | Some p \<Rightarrow>
                  (case role_of (PStr role) of
                     None \<Rightarrow> (False, Some ''invalid_role_for_rbac'', Some who)
                   | Some r \<Rightarrow> if \<not> has_role_permission r p then (False, Some ''permission_denied'', Some who)
                               else (True, None, Some who))))"

text \<open>The two checks at the head of every endpoint for a manual command: \<open>Some\<close> message is the
  answer with status 403.\<close>

definition command_denied ::
  "bool \<Rightarrow> operator_config \<Rightarrow> pyval option \<Rightarrow> operator_headers \<Rightarrow> permission \<Rightarrow> string option" where
  "command_denied auth_enabled cfg user h p =
     (if auth_enabled \<and> \<not> fst (authorize_jwt_request auth_enabled user p) then Some ''Permission denied''
      else if \<not> fst (authorize_manual_command cfg h (Some p)) then Some ''Operator permission denied''
      else None)"

text \<open>C27: A manual command that needs a permission is let through exactly when the key is the
  configured one and not empty, the role and the source, up to case and blanks, are allowed by
  the configuration, and the role is a known one that ranks at least with the lowest role
  that has the permission.\<close>

theorem manual_command_authorized:
  assumes "has_role_permission q p" "\<forall>r. has_role_permission r p \<longrightarrow> q \<le> r"
  shows "fst (authorize_manual_command cfg h (Some p)) \<longleftrightarrow>
    oh_key h = Some (oc_api_key cfg) \<and> oc_api_key cfg \<noteq> [] \<and>
    normalize_access_field (oh_role h) \<in> set (oc_allowed_roles cfg) \<and>
    normalize_access_field (oh_source h) \<in> set (oc_allowed_sources cfg) - {[]} \<and>
    (\<exists>r. normalize_access_field (oh_role h) = role_value r \<and> q \<le> r)"
proof -
  have role: "role_of (PStr s) = Some r \<longleftrightarrow> s = role_value r" for s r
    by (cases r) (auto simp: role_of_def)
  have named: "role_value r \<noteq> []" "[] \<noteq> role_value r" for r by (cases r; simp)+
  have inj: "role_value r = role_value r' \<longleftrightarrow> r = r'" for r r' by (cases r; cases r') simp_all
  have perm: "has_role_permission r p \<longleftrightarrow> q \<le> r" for r
    using assms permissions_monotone unfolding has_role_permission_def by blast
  show ?thesis
    by (auto simp: authorize_manual_command_def Let_def role perm [symmetric] named inj split: option.splits)
qed

theorem manual_command_authorized_witness:
  "fst (authorize_manual_command \<lparr>oc_api_key = ''k'', oc_allowed_roles = [''operator''], oc_allowed_sources = [''api'']\<rparr>
     \<lparr>oh_key = Some ''k'', oh_role = Some '' Operator'', oh_source = Some ''API''\<rparr> (Some QUEUE_DRAIN))"
proof -
  have "has_role_permission OPERATOR QUEUE_DRAIN" by (simp add: has_role_permission_def)
  moreover have "\<forall>r. has_role_permission r QUEUE_DRAIN \<longrightarrow> OPERATOR \<le> r"
  proof
    fix r show "has_role_permission r QUEUE_DRAIN \<longrightarrow> OPERATOR \<le> r"
      by (cases r) (simp_all add: has_role_permission_def less_eq_role_def)
  qed
  moreover have "normalize_access_field (Some '' Operator'') = role_value OPERATOR" "normalize_access_field (Some ''API'') = ''api''"
    by code_simp+
  ultimately show ?thesis
    by (simp add: manual_command_authorized [of OPERATOR QUEUE_DRAIN]) (rule exI [of _ OPERATOR], simp)
qed

subsection \<open>Tokens\<close>

text \<open>A token is a text; nothing but the library looks into it, so its type is a parameter.\<close>

record 't jwt_lib =
  jl_encode :: "dict \<Rightarrow> string \<Rightarrow> string \<Rightarrow> 't"
  jl_decode :: "int \<Rightarrow> 't \<Rightarrow> string \<Rightarrow> string \<Rightarrow> string option \<Rightarrow> string option \<Rightarrow> exn + dict"

record jwt_validator =
  jv_secret_key :: string
  jv_algorithm :: string
  jv_issuer :: "string option"
  jv_audience :: "string option"

record jwt_payload =
  jp_subject :: pyval
  jp_email :: pyval
  jp_roles :: pyval
  jp_expires_at :: pyval
  jp_issued_at :: pyval
  jp_issuer :: pyval
  jp_audience :: pyval
  jp_extra :: "dict option"

text \<open>The claims of a new token; \<open>now\<close> is the time in whole seconds.\<close>

definition token_claims ::
  "jwt_validator \<Rightarrow> int \<Rightarrow> pyval \<Rightarrow> pyval \<Rightarrow> pyval \<Rightarrow> int \<Rightarrow> dict option \<Rightarrow> dict" where
  "token_claims v now subject email roles expires_in extra =
     dict_update (case extra of None \<Rightarrow> [] | Some e \<Rightarrow> e)
       ([(''sub'', subject), (''iat'', PInt now), (''exp'', PInt (now + expires_in))]
        @ (if truthy email then [(''email'', email)] else [])
        @ (if truthy roles then [(''roles'', roles)] else [])
        @ (if jv_issuer v \<in> {None, Some []} then [] else [(''iss'', PStr (the (jv_issuer v)))])
        @ (if jv_audience v \<in> {None, Some []} then [] else [(''aud'', PStr (the (jv_audience v)))]))"

definition create_token ::
  "'t jwt_lib \<Rightarrow> jwt_validator \<Rightarrow> int \<Rightarrow> pyval \<Rightarrow> pyval \<Rightarrow> pyval \<Rightarrow> int \<Rightarrow> dict option \<Rightarrow> 't" where
  "create_token lib v now subject email roles expires_in extra =
     jl_encode lib (token_claims v now subject email roles expires_in extra) (jv_secret_key v) (jv_algorithm v)"

definition reserved_claims :: "string list" where
  "reserved_claims = [''sub'', ''email'', ''roles'', ''exp'', ''iat'', ''iss'', ''aud'']"

definition parse_payload :: "dict \<Rightarrow> jwt_payload" where
  "parse_payload p =
     (let extra = fold dict_pop reserved_claims p in
      \<lparr>jp_subject = dget_or p ''sub'' (PStr []), jp_email = dget p ''email'', jp_roles = dget p ''roles'',
       jp_expires_at = dget p ''exp'', jp_issued_at = dget p ''iat'', jp_issuer = dget p ''iss'',
       jp_audience = dget p ''aud'', jp_extra = (if extra = [] then None else Some extra)\<rparr>)"

definition decode_token :: "'t jwt_lib \<Rightarrow> jwt_validator \<Rightarrow> int \<Rightarrow> 't \<Rightarrow> exn + dict" where
  "decode_token lib v now token =
     jl_decode lib now token (jv_secret_key v) (jv_algorithm v) (jv_issuer v) (jv_audience v)"

text \<open>Every exception of the library makes the token invalid.\<close>

definition validate_token :: "'t jwt_lib \<Rightarrow> jwt_validator \<Rightarrow> int \<Rightarrow> 't \<Rightarrow> jwt_payload option" where
  "validate_token lib v now token =
     (case decode_token lib v now token of Inl e \<Rightarrow> None | Inr p \<Rightarrow> Some (parse_payload p))"

definition refresh_token :: "'t jwt_lib \<Rightarrow> jwt_validator \<Rightarrow> int \<Rightarrow> 't \<Rightarrow> int \<Rightarrow> 't option" where
  "refresh_token lib v now token expires_in =
     (case validate_token lib v now token of
        None \<Rightarrow> None
      | Some p \<Rightarrow> Some (create_token lib v now (jp_subject p) (jp_email p) (jp_roles p) expires_in (jp_extra p)))"

text \<open>
  What is used of \<open>jwt\<close>, for the one key, algorithm, issuer and audience a validator is
  configured with (a symmetric algorithm of the library): a token made of claims decodes
  to them until it expires. The claims have a textual subject, the issuer and the audience
  of the validator where it has them, and none of the claims \<open>nbf\<close> and \<open>jti\<close> that the
  library checks as well.
\<close>

definition jwt_roundtrip :: "'t jwt_lib \<Rightarrow> jwt_validator \<Rightarrow> bool" where
  "jwt_roundtrip lib v \<longleftrightarrow>
     (\<forall>now claims subject issued expiry.
        distinct (map fst claims) \<longrightarrow>
        map_of claims ''sub'' = Some (PStr subject) \<longrightarrow>
        map_of claims ''iat'' = Some (PInt issued) \<longrightarrow> issued \<le> now \<longrightarrow>
        map_of claims ''exp'' = Some (PInt expiry) \<longrightarrow> now < expiry \<longrightarrow>
        map_of claims ''nbf'' = None \<longrightarrow> map_of claims ''jti'' = None \<longrightarrow>
        (\<forall>i. jv_issuer v = Some i \<longrightarrow> map_of claims ''iss'' = Some (PStr i)) \<longrightarrow>
        map_of claims ''aud'' = map_option PStr (jv_audience v) \<longrightarrow>
        jl_decode lib now (jl_encode lib claims (jv_secret_key v) (jv_algorithm v))
          (jv_secret_key v) (jv_algorithm v) (jv_issuer v) (jv_audience v) = Inr claims)"

text \<open>The claims of one's own that a token may carry.\<close>

definition claims_of :: "dict option \<Rightarrow> dict" where
  "claims_of extra = (case extra of None \<Rightarrow> [] | Some e \<Rightarrow> e)"

definition free_claims :: "dict option \<Rightarrow> bool" where
  "free_claims extra \<longleftrightarrow> distinct (map fst (claims_of extra)) \<and>
     list_all (\<lambda>k. k \<notin> set reserved_claims \<and> k \<noteq> ''nbf'' \<and> k \<noteq> ''jti'') (map fst (claims_of extra))"

definition carries :: "jwt_payload \<Rightarrow> string \<Rightarrow> pyval \<Rightarrow> pyval \<Rightarrow> int \<Rightarrow> dict option \<Rightarrow> bool" where
  "carries p subject email roles expiry extra \<longleftrightarrow>
     jp_subject p = PStr subject \<and> jp_email p = (if truthy email then email else PNone) \<and>
     jp_roles p = (if truthy roles then roles else PNone) \<and> jp_expires_at p = PInt expiry \<and>
     free_claims (jp_extra p) \<and> map_of (claims_of (jp_extra p)) = map_of (claims_of extra)"

lemma free_claims_unreserved: "free_claims extra \<Longrightarrow> k \<in> {''nbf'', ''jti''} \<union> set reserved_claims \<Longrightarrow> map_of (claims_of extra) k = None"
  by (fastforce simp: free_claims_def list_all_iff map_of_eq_None_iff)

lemma map_of_claims:
  assumes "free_claims extra"
  shows "map_of (token_claims v now subject email roles expires_in extra) k =
     (if k = ''sub'' then Some subject else if k = ''iat'' then Some (PInt now)
      else if k = ''exp'' then Some (PInt (now + expires_in))
      else if k = ''email'' then (if truthy email then Some email else None)
      else if k = ''roles'' then (if truthy roles then Some roles else None)
      else if k = ''iss'' then (if jv_issuer v \<in> {None, Some []} then None else map_option PStr (jv_issuer v))
      else if k = ''aud'' then (if jv_audience v \<in> {None, Some []} then None else map_option PStr (jv_audience v))
      else map_of (claims_of extra) k)"
proof -
  have d: "distinct (map fst (claims_of extra))" using assms by (simp add: free_claims_def)
  show ?thesis
  proof (cases "k \<in> set reserved_claims")
    case True
    with assms have "map_of (claims_of extra) k = None" by (simp add: free_claims_unreserved)
    with True show ?thesis
      by (auto simp: token_claims_def claims_of_def [symmetric] map_of_dict_update [OF d] reserved_claims_def)
  next
    case False
    then show ?thesis
      by (auto simp: token_claims_def claims_of_def [symmetric] map_of_dict_update [OF d] reserved_claims_def
          split: option.splits)
  qed
qed

lemma distinct_claims: "free_claims extra \<Longrightarrow> distinct (map fst (token_claims v now subject email roles expires_in extra))"
  unfolding token_claims_def by (rule distinct_dict_update) auto

lemma parse_claims:
  assumes "free_claims extra"
  shows "carries (parse_payload (token_claims v now (PStr subject) email roles expires_in extra))
    subject email roles (now + expires_in) extra"
proof -
  let ?c = "token_claims v now (PStr subject) email roles expires_in extra"
  let ?e = "fold dict_pop reserved_claims ?c"
  note m = map_of_claims [OF assms, of v now "PStr subject" email roles expires_in]
  have e: "claims_of (jp_extra (parse_payload ?c)) = ?e"
    by (simp add: parse_payload_def Let_def claims_of_def)
  have mapped: "map_of ?e = map_of (claims_of extra)"
    using free_claims_unreserved [OF assms]
    by (auto simp: fun_eq_iff map_of_fold_pop m reserved_claims_def)
  have "list_all (\<lambda>k. k \<notin> set reserved_claims \<and> k \<noteq> ''nbf'' \<and> k \<noteq> ''jti'') (map fst ?e)"
  proof (rule list_all_iff [THEN iffD2], rule ballI)
    fix k assume "k \<in> set (map fst ?e)"
    then have "map_of ?e k \<noteq> None" by (simp add: map_of_eq_None_iff)
    then show "k \<notin> set reserved_claims \<and> k \<noteq> ''nbf'' \<and> k \<noteq> ''jti''"
      using free_claims_unreserved [OF assms, of k] by (auto simp: mapped)
  qed
  moreover have "distinct (map fst ?e)" by (rule distinct_fold_pop [OF distinct_claims [OF assms]])
  ultimately have "free_claims (jp_extra (parse_payload ?c))" by (simp add: free_claims_def e)
  moreover have "dget_or ?c ''sub'' (PStr []) = PStr subject" "dget ?c ''email'' = (if truthy email then email else PNone)"
    "dget ?c ''roles'' = (if truthy roles then roles else PNone)" "dget ?c ''exp'' = PInt (now + expires_in)"
    by (simp_all add: dget_or_def dget_def m)
  ultimately show ?thesis
    by (simp add: carries_def e mapped) (simp add: parse_payload_def Let_def)
qed

lemma validate_created:
  assumes "jwt_roundtrip lib v" "jv_issuer v \<noteq> Some []" "jv_audience v \<noteq> Some []" "free_claims extra"
    and "now \<le> later" "later < now + expires_in"
  shows "\<exists>p. validate_token lib v later (create_token lib v now (PStr subject) email roles expires_in extra) = Some p \<and>
    carries p subject email roles (now + expires_in) extra"
proof -
  let ?c = "token_claims v now (PStr subject) email roles expires_in extra"
  note m = map_of_claims [OF assms(4), of v now "PStr subject" email roles expires_in]
  have iss: "\<forall>i. jv_issuer v = Some i \<longrightarrow> map_of ?c ''iss'' = Some (PStr i)" using assms(2) by (auto simp: m)
  have aud: "map_of ?c ''aud'' = map_option PStr (jv_audience v)" using assms(3) by (cases "jv_audience v") (simp_all add: m)
  have none: "map_of ?c ''nbf'' = None" "map_of ?c ''jti'' = None"
    using free_claims_unreserved [OF assms(4)] by (simp_all add: m)
  have own: "map_of ?c ''sub'' = Some (PStr subject)" "map_of ?c ''iat'' = Some (PInt now)"
    "map_of ?c ''exp'' = Some (PInt (now + expires_in))" by (simp_all add: m)
  have "jl_decode lib later (jl_encode lib ?c (jv_secret_key v) (jv_algorithm v)) (jv_secret_key v) (jv_algorithm v)
      (jv_issuer v) (jv_audience v) = Inr ?c"
    using assms(1) [unfolded jwt_roundtrip_def] distinct_claims [OF assms(4)] own assms(5,6) none iss aud by blast
  with parse_claims [OF assms(4)] show ?thesis
    by (auto simp: validate_token_def decode_token_def create_token_def)
qed

lemma truthy_PNone [simp]: "\<not> truthy PNone"
  by simp

text \<open>C28: For a validator whose issuer and audience, where it has them, are not the empty text,
  and a token with a textual subject whose additional claims do not collide with the seven
  the validator sets and reads nor with \<open>nbf\<close> and \<open>jti\<close>: while the token has not expired, its
  validation gives what it was made of, and so does the validation of the token it is
  refreshed to, with the new expiry; an empty list of roles or an empty address is left
  out. (An empty issuer or audience is left out of the token but asked for on decoding.)\<close>

theorem token_roundtrip:
  assumes "jwt_roundtrip lib v" "jv_issuer v \<noteq> Some []" "jv_audience v \<noteq> Some []" "free_claims extra"
    and "t0 \<le> t1" "t1 < t0 + ttl0" "t1 \<le> t2" "t2 < t1 + ttl1"
    and "token = create_token lib v t0 (PStr subject) email roles ttl0 extra"
  shows "\<exists>p refreshed q.
    validate_token lib v t1 token = Some p \<and> carries p subject email roles (t0 + ttl0) extra \<and>
    refresh_token lib v t1 token ttl1 = Some refreshed \<and>
    validate_token lib v t2 refreshed = Some q \<and> carries q subject email roles (t1 + ttl1) extra"
proof -
  obtain p where p: "validate_token lib v t1 token = Some p" "carries p subject email roles (t0 + ttl0) extra"
    using validate_created [OF assms(1-6)] assms(9) by blast
  then have "free_claims (jp_extra p)" "jp_subject p = PStr subject" by (simp_all add: carries_def)
  with validate_created [OF assms(1-3) _ assms(7, 8), of "jp_extra p" subject "jp_email p" "jp_roles p"]
  obtain q where q: "validate_token lib v t2 (create_token lib v t1 (jp_subject p) (jp_email p) (jp_roles p) ttl1 (jp_extra p)) = Some q"
    "carries q subject (jp_email p) (jp_roles p) (t1 + ttl1) (jp_extra p)" by auto
  with p(2) have "carries q subject email roles (t1 + ttl1) extra"
    by (auto simp: carries_def)
  with p q(1) show ?thesis by (auto simp: refresh_token_def)
qed

definition open_jwt :: "(dict \<times> string \<times> string) jwt_lib" where
  "open_jwt = \<lparr>jl_encode = (\<lambda>claims key alg. (claims, key, alg)),
     jl_decode = (\<lambda>now token key alg iss aud. if snd token = (key, alg) then Inr (fst token) else Inl (OtherError []))\<rparr>"

theorem token_roundtrip_witness:
  "\<exists>p. validate_token open_jwt \<lparr>jv_secret_key = ''k'', jv_algorithm = ''HS256'', jv_issuer = Some ''hf'', jv_audience = None\<rparr> 20
     (create_token open_jwt \<lparr>jv_secret_key = ''k'', jv_algorithm = ''HS256'', jv_issuer = Some ''hf'', jv_audience = None\<rparr>
        10 (PStr ''ann'') PNone (PList [PStr ''admin'']) 3600 None) = Some p \<and>
   jp_subject p = PStr ''ann'' \<and> jp_email p = PNone \<and> jp_roles p = PList [PStr ''admin''] \<and> jp_expires_at p = PInt 3610"
proof -
  have "jwt_roundtrip open_jwt v" for v by (simp add: jwt_roundtrip_def open_jwt_def)
  moreover have "free_claims None" by (simp add: free_claims_def claims_of_def)
  ultimately show ?thesis
    using token_roundtrip [of open_jwt "\<lparr>jv_secret_key = ''k'', jv_algorithm = ''HS256'', jv_issuer = Some ''hf'', jv_audience = None\<rparr>"
        None 10 20 3600 20 3600 _ "''ann''" PNone "PList [PStr ''admin'']"]
    by (auto simp: carries_def)
qed

subsection \<open>Authentication of requests\<close>

record session_data =
  sd_session_id :: pyval
  sd_user_id :: pyval
  sd_email :: pyval
  sd_roles :: pyval
  sd_created_at :: int
  sd_expires_at :: int
  sd_provider :: pyval

record auth_request =
  aq_path :: string
  aq_authorization :: "string option"
  aq_session_cookie :: "string option"

text \<open>The validators the middleware was made with, if any; validating a session may change the
  store of sessions.\<close>

record 's auth_middleware =
  am_validate_session :: "(string \<Rightarrow> ('s, session_data option) st) option"
  am_validate_token :: "(string \<Rightarrow> jwt_payload option) option"
  am_public_paths :: "string list"
  am_login_url :: string

definition default_public_paths :: "string list" where
  "default_public_paths =
     [''/health'', ''/ready'', ''/metrics'', ''/auth/login'', ''/auth/callback'', ''/docs'', ''/openapi.json'', ''/redoc'']"

definition is_public_path :: "'s auth_middleware \<Rightarrow> string \<Rightarrow> bool" where
  "is_public_path m path \<longleftrightarrow> list_ex (\<lambda>p. starts_with p path) (am_public_paths m)"

definition extract_token :: "auth_request \<Rightarrow> string option" where
  "extract_token req =
     (case aq_authorization req of
        Some h \<Rightarrow> if starts_with ''Bearer '' h then Some (drop 7 h)
                  else (case aq_session_cookie req of Some (c # cs) \<Rightarrow> Some (''session:'' @ c # cs) | _ \<Rightarrow> None)
      | None \<Rightarrow> (case aq_session_cookie req of Some (c # cs) \<Rightarrow> Some (''session:'' @ c # cs) | _ \<Rightarrow> None))"

definition token_user :: "jwt_payload \<Rightarrow> dict" where
  "token_user p = [(''user_id'', jp_subject p), (''email'', jp_email p),
     (''roles'', if truthy (jp_roles p) then jp_roles p else PList [])]"

definition session_user :: "session_data \<Rightarrow> dict" where
  "session_user d = [(''user_id'', sd_user_id d), (''email'', sd_email d), (''roles'', sd_roles d),
     (''session_id'', sd_session_id d)]"

definition user_info :: "'s auth_middleware \<Rightarrow> string \<Rightarrow> ('s, dict option) st" where
  "user_info m token =
     (if starts_with ''session:'' token then
        (case am_validate_session m of
           None \<Rightarrow> returnS None
         | Some validate \<Rightarrow> bindS (validate (drop 8 token)) (\<lambda>d. returnS (map_option session_user d)))
      else
        (case am_validate_token m of
           None \<Rightarrow> returnS None
         | Some validate \<Rightarrow> returnS (map_option token_user (validate token))))"

definition unauthorized :: "'s auth_middleware \<Rightarrow> string \<Rightarrow> string \<Rightarrow> http_response" where
  "unauthorized m path message =
     (if starts_with ''/api'' path
      then \<lparr>rs_status = 401, rs_content = PDict [(''error'', PStr ''unauthorized''), (''message'', PStr message)], rs_headers = []\<rparr>
      else \<lparr>rs_status = 307, rs_content = PNone, rs_headers = [(''location'', am_login_url m)]\<rparr>)"

definition header_text :: "pyval \<Rightarrow> exn + string" where
  "header_text v = (case v of PStr s \<Rightarrow> Inr s | _ \<Rightarrow> Inl (OtherError ''AttributeError: a header must be a text''))"

definition user_headers :: "dict \<Rightarrow> http_response \<Rightarrow> exn + http_response" where
  "user_headers u r =
     bindE (header_text (dget_or u ''user_id'' (PStr []))) (\<lambda>i.
     bindE (if truthy (dget u ''email'') then bindE (header_text (dget u ''email'')) (\<lambda>e. Inr [(''X-User-Email'', e)]) else Inr [])
       (\<lambda>email. Inr (r\<lparr>rs_headers := dict_update ((''X-User-ID'', i) # email) (rs_headers r)\<rparr>)))"

text \<open>\<open>app\<close> is the rest of the application; it gets \<open>request.state.user\<close>.\<close>

definition auth_dispatch ::
  "'s auth_middleware \<Rightarrow> (pyval option \<Rightarrow> ('s, http_response) st) \<Rightarrow> auth_request \<Rightarrow> ('s, http_response) st" where
  "auth_dispatch m app req =
     (if is_public_path m (aq_path req) then app None
      else (case extract_token req of
              None \<Rightarrow> returnS (unauthorized m (aq_path req) ''Authentication required'')
            | Some token \<Rightarrow>
                if token = [] then returnS (unauthorized m (aq_path req) ''Authentication required'')
                else bindS (user_info m token) (\<lambda>u.
                  case u of
                    None \<Rightarrow> returnS (unauthorized m (aq_path req) ''Invalid or expired token'')
                  | Some d \<Rightarrow> bindS (app (Some (PDict d))) (\<lambda>r. liftE (user_headers d r)))))"

text \<open>The body of an error and an endpoint for a manual command behind its two checks.\<close>

definition error_response ::
  "string \<Rightarrow> nat \<Rightarrow> string \<Rightarrow> string \<Rightarrow> string option \<Rightarrow> string option \<Rightarrow> http_response" where
  "error_response now status_code code message run_id correlation_id =
     (let opt = (\<lambda>v. case v of None \<Rightarrow> PNone | Some s \<Rightarrow> PStr s) in
      \<lparr>rs_status = status_code,
       rs_content = PDict [(''error'', PDict [(''code'', PStr code), (''message'', PStr message), (''run_id'', opt run_id),
         (''correlation_id'', opt correlation_id), (''timestamp'', PStr now)])],
       rs_headers = []\<rparr>)"

definition command_endpoint ::
  "string \<Rightarrow> string option \<Rightarrow> operator_config \<Rightarrow> operator_headers \<Rightarrow> permission \<Rightarrow> ('s, http_response) st \<Rightarrow> pyval option \<Rightarrow> ('s, http_response) st" where
  "command_endpoint now run_id cfg h p body user =
     (case command_denied True cfg user h p of
        Some message \<Rightarrow> returnS (error_response now 403 ''FORBIDDEN'' message run_id None)
      | None \<Rightarrow> body)"

lemma authenticated_is_viewer:
  "map_of d ''role'' = None \<Longrightarrow> get_user_from_request (Some (PDict d)) = Some u \<Longrightarrow> ru_role u = VIEWER"
  by (auto simp: get_user_from_request_def dget_or_def role_of_def)

lemma user_info_no_role:
  assumes "user_info m token s = (Inr (Some d), s')"
  shows "map_of d ''role'' = None"
  using assms
  by (auto simp: user_info_def bindS_def returnS_def session_user_def token_user_def
      split: if_splits option.splits prod.splits sum.splits)

text \<open>C29: With authentication switched on no one can give a manual command: the middleware stores a
  user's \<open>roles\<close>, the gateway looks for a \<open>role\<close>, finds none and takes everybody for a viewer,
  so the body of an endpoint that needs more than a viewer's permissions is never run,
  whatever the token, the session, the role in it and the operator's headers are.\<close>

theorem authentication_locks_out:
  assumes "\<not> has_role_permission VIEWER p"
  shows "auth_dispatch m (command_endpoint now run_id cfg h p body) req s =
    auth_dispatch m (command_endpoint now run_id cfg h p body') req s"
proof -
  have denied: "command_denied True cfg user h p = Some ''Permission denied''"
    if "user = None \<or> (\<exists>d. user = Some (PDict d) \<and> map_of d ''role'' = None)" for user
  proof -
    have "\<not> has_permission u p" if "get_user_from_request user = Some u" for u
      using authenticated_is_viewer that assms \<open>user = None \<or> _\<close>
      by (auto simp: has_permission_def has_role_permission_def get_user_from_request_def)
    then show ?thesis
      by (auto simp: command_denied_def authorize_jwt_request_def split: option.splits)
  qed
  have "command_endpoint now run_id cfg h p body None = command_endpoint now run_id cfg h p body' None"
    by (rule ext) (simp add: command_endpoint_def denied)
  moreover have "command_endpoint now run_id cfg h p body (Some (PDict d)) = command_endpoint now run_id cfg h p body' (Some (PDict d))"
    if "user_info m t s = (Inr (Some d), s')" for t d s'
    by (rule ext) (simp add: command_endpoint_def denied user_info_no_role [OF that])
  ultimately show ?thesis
    by (auto simp: auth_dispatch_def bindS_def [of "user_info m _"] split: option.splits prod.splits sum.splits)
qed

theorem authentication_locks_out_witness:
  "rs_status (case fst (auth_dispatch \<lparr>am_validate_session = None, am_validate_token = Some (\<lambda>_. Some (parse_payload
       [(''sub'', PStr ''ann''), (''roles'', PList [PStr ''admin''])])), am_public_paths = default_public_paths, am_login_url = ''/auth/login''\<rparr>
     (command_endpoint ''now'' None \<lparr>oc_api_key = ''k'', oc_allowed_roles = [''operator''], oc_allowed_sources = [''api'']\<rparr>
        \<lparr>oh_key = Some ''k'', oh_role = Some ''operator'', oh_source = Some ''api''\<rparr> QUEUE_DRAIN
        (returnS \<lparr>rs_status = 200, rs_content = PNone, rs_headers = []\<rparr>))
     \<lparr>aq_path = ''/queue/drain'', aq_authorization = Some ''Bearer t'', aq_session_cookie = None\<rparr> ()) of
     Inr r \<Rightarrow> r) = 403"
  (is "rs_status (case fst (auth_dispatch ?m (command_endpoint ''now'' None ?cfg ?h _ ?body) ?req ()) of Inr r \<Rightarrow> r) = _")
proof -
  let ?no = "returnS \<lparr>rs_status = 403, rs_content = PNone, rs_headers = []\<rparr>"
  have "\<not> has_role_permission VIEWER QUEUE_DRAIN" by (simp add: has_role_permission_def)
  from authentication_locks_out [OF this, of ?m "''now''" None ?cfg ?h ?body ?req "()" ?no]
  have "auth_dispatch ?m (command_endpoint ''now'' None ?cfg ?h QUEUE_DRAIN ?body) ?req () =
      auth_dispatch ?m (command_endpoint ''now'' None ?cfg ?h QUEUE_DRAIN ?no) ?req ()" .
  also have "rs_status (case fst \<dots> of Inr r \<Rightarrow> r) = 403"
    by code_simp
  finally show ?thesis .
qed

text \<open>A public path makes every path public that begins with it.\<close>

lemma public_prefix:
  "p \<in> set (am_public_paths m) \<Longrightarrow> auth_dispatch m app \<lparr>aq_path = p @ rest, aq_authorization = a, aq_session_cookie = c\<rparr> = app None"
  by (auto simp: auth_dispatch_def is_public_path_def list_ex_iff starts_with_iff)

end
