(* ===== verification/Sessions.thy ===== *)
theory Sessions
  imports Access
begin

text \<open>
  \<open>scheduler/auth/session_manager.py\<close>: sessions kept in Redis. Redis is a record of
  operations on a state of its own, each at a time; what is used of it is the hypothesis
  \<open>redis_expiring\<close>. A stored JSON text is read back as the object it was made of.
\<close>

record 'r session_redis =
  se_setex :: "rat \<Rightarrow> string \<Rightarrow> int \<Rightarrow> dict \<Rightarrow> 'r \<Rightarrow> 'r"
  se_get :: "rat \<Rightarrow> string \<Rightarrow> 'r \<Rightarrow> dict option"
  se_delete :: "rat \<Rightarrow> string \<Rightarrow> 'r \<Rightarrow> int \<times> 'r"
  se_expire :: "rat \<Rightarrow> string \<Rightarrow> int \<Rightarrow> 'r \<Rightarrow> bool \<times> 'r"
  se_keys :: "rat \<Rightarrow> 'r \<Rightarrow> string list"

record 'r session_manager =
  sm_redis :: "'r session_redis option"
  sm_session_ttl :: int

definition session_key :: "string \<Rightarrow> string" where
  "session_key session_id = ''session:'' @ session_id"

definition new_session ::
  "'r session_manager \<Rightarrow> rat \<Rightarrow> string \<Rightarrow> string \<Rightarrow> string \<Rightarrow> string list \<Rightarrow> string option \<Rightarrow> dict \<Rightarrow> dict" where
  "new_session m now session_id user_id email roles provider extra =
     [(''session_id'', PStr session_id), (''user_id'', PStr user_id), (''email'', PStr email),
      (''roles'', PList (map PStr (if roles = [] then [''user''] else roles))),
      (''provider'', case provider of None \<Rightarrow> PNone | Some p \<Rightarrow> PStr p),
      (''created_at'', PInt \<lfloor>now\<rfloor>), (''expires_at'', PInt (\<lfloor>now\<rfloor> + sm_session_ttl m))]
     @ (if extra = [] then [] else [(''extra'', PDict extra)])"

text \<open>\<open>uuid\<close> is the identifier that is drawn.\<close>

definition create_session ::
  "'r session_manager \<Rightarrow> rat \<Rightarrow> string \<Rightarrow> string \<Rightarrow> string \<Rightarrow> string list \<Rightarrow> string option \<Rightarrow> dict \<Rightarrow> 'r \<Rightarrow> string \<times> 'r" where
  "create_session m now uuid user_id email roles provider extra r =
     (uuid, case sm_redis m of
        None \<Rightarrow> r
      | Some ops \<Rightarrow>
          se_setex ops now (session_key uuid) (sm_session_ttl m) (new_session m now uuid user_id email roles provider extra) r)"

text \<open>\<open>SessionData(**d)\<close>: an unknown name and a missing one raise.\<close>

definition session_fields :: "string list" where
  "session_fields = [''session_id'', ''user_id'', ''email'', ''roles'', ''created_at'', ''expires_at'', ''provider'']"

definition session_from_dict :: "dict \<Rightarrow> exn + session_data" where
  "session_from_dict d =
     (if \<not> set (map fst d) \<subseteq> set session_fields then Inl (TypeError ''unexpected keyword argument'')
      else if \<not> set (butlast session_fields) \<subseteq> set (map fst d) then Inl (TypeError ''missing argument'')
      else (case (dget d ''created_at'', dget d ''expires_at'') of
              (PInt c, PInt e) \<Rightarrow>
                Inr \<lparr>sd_session_id = dget d ''session_id'', sd_user_id = dget d ''user_id'', sd_email = dget d ''email'',
                     sd_roles = dget d ''roles'', sd_created_at = c, sd_expires_at = e, sd_provider = dget d ''provider''\<rparr>
            | _ \<Rightarrow> Inl (TypeError ''times are numbers'')))"

definition get_session :: "'r session_manager \<Rightarrow> rat \<Rightarrow> string \<Rightarrow> 'r \<Rightarrow> exn + session_data option" where
  "get_session m now session_id r =
     (case sm_redis m of
        None \<Rightarrow> Inr None
      | Some ops \<Rightarrow>
          (case se_get ops now (session_key session_id) r of
             None \<Rightarrow> Inr None
           | Some d \<Rightarrow> bindE (session_from_dict d) (\<lambda>s. Inr (Some s))))"

definition delete_session :: "'r session_manager \<Rightarrow> rat \<Rightarrow> string \<Rightarrow> 'r \<Rightarrow> bool \<times> 'r" where
  "delete_session m now session_id r =
     (case sm_redis m of
        None \<Rightarrow> (False, r)
      | Some ops \<Rightarrow> (case se_delete ops now (session_key session_id) r of (n, r') \<Rightarrow> (n > 0, r')))"

definition validate_session :: "'r session_manager \<Rightarrow> rat \<Rightarrow> string \<Rightarrow> ('r, session_data option) st" where
  "validate_session m now session_id =
     bindS (getS (get_session m now session_id)) (\<lambda>got. bindS (liftE got) (\<lambda>s.
       case s of
         None \<Rightarrow> returnS None
       | Some d \<Rightarrow>
           if sd_expires_at d < \<lfloor>now\<rfloor>
           then seqS (modifyS (\<lambda>r. snd (delete_session m now session_id r))) (returnS None)
           else returnS (Some d)))"

definition extend_session :: "'r session_manager \<Rightarrow> rat \<Rightarrow> string \<Rightarrow> int option \<Rightarrow> 'r \<Rightarrow> bool \<times> 'r" where
  "extend_session m now session_id ttl r =
     (let t = (case ttl of Some n \<Rightarrow> if n = 0 then sm_session_ttl m else n | None \<Rightarrow> sm_session_ttl m) in
      case sm_redis m of
        None \<Rightarrow> (False, r)
      | Some ops \<Rightarrow> se_expire ops now (session_key session_id) t r)"

definition create_jwt_from_session ::
  "'t jwt_lib \<Rightarrow> jwt_validator \<Rightarrow> 'r session_manager \<Rightarrow> rat \<Rightarrow> string \<Rightarrow> ('r, 't option) st" where
  "create_jwt_from_session lib v m now session_id =
     bindS (validate_session m now session_id) (\<lambda>s.
       returnS (map_option (\<lambda>d. create_token lib v \<lfloor>now\<rfloor> (sd_user_id d) (sd_email d) (sd_roles d) 3600
         (Some [(''session_id'', sd_session_id d)])) s))"

fun user_sessions_loop ::
  "'r session_redis \<Rightarrow> 'r session_manager \<Rightarrow> rat \<Rightarrow> string \<Rightarrow> session_data list \<Rightarrow> string list \<Rightarrow> ('r, session_data list) st" where
  "user_sessions_loop ops m now user_id found [] = returnS found"
| "user_sessions_loop ops m now user_id found (key # keys) =
     bindS (getS (se_get ops now key)) (\<lambda>data.
       case data of
         None \<Rightarrow> user_sessions_loop ops m now user_id found keys
       | Some d \<Rightarrow>
           if dget d ''user_id'' = PStr user_id then
             bindS (liftE (session_from_dict d)) (\<lambda>s.
             bindS (case sd_session_id s of PStr i \<Rightarrow> validate_session m now i | _ \<Rightarrow> returnS None) (\<lambda>valid.
             user_sessions_loop ops m now user_id (if valid = None then found else found @ [s]) keys))
           else user_sessions_loop ops m now user_id found keys)"

definition list_user_sessions :: "'r session_manager \<Rightarrow> rat \<Rightarrow> string \<Rightarrow> ('r, session_data list) st" where
  "list_user_sessions m now user_id =
     (case sm_redis m of
        None \<Rightarrow> returnS []
      | Some ops \<Rightarrow>
          bindS (getS (se_keys ops now)) (\<lambda>keys.
            user_sessions_loop ops m now user_id [] (filter (starts_with ''session:'') keys)))"

subsection \<open>What is used of Redis\<close>

text \<open>\<open>view\<close> has of each key the value and the time at which it expires.\<close>

definition redis_expiring :: "'r session_redis \<Rightarrow> ('r \<Rightarrow> string \<Rightarrow> (dict \<times> rat) option) \<Rightarrow> bool" where
  "redis_expiring ops view \<longleftrightarrow>
     (\<forall>now k r. se_get ops now k r = (case view r k of None \<Rightarrow> None | Some (d, e) \<Rightarrow> if now < e then Some d else None)) \<and>
     (\<forall>now k ttl d r. 0 < ttl \<longrightarrow> view (se_setex ops now k ttl d r) = (view r)(k \<mapsto> (d, now + of_int ttl))) \<and>
     (\<forall>now k ttl r. 0 < ttl \<longrightarrow> view (snd (se_expire ops now k ttl r)) =
        (case view r k of None \<Rightarrow> view r | Some (d, e) \<Rightarrow> if now < e then (view r)(k \<mapsto> (d, now + of_int ttl)) else view r))"

lemma session_from_new:
  "extra = [] \<Longrightarrow> session_from_dict (new_session m now i u e roles p extra) =
     Inr \<lparr>sd_session_id = PStr i, sd_user_id = PStr u, sd_email = PStr e,
       sd_roles = PList (map PStr (if roles = [] then [''user''] else roles)), sd_created_at = \<lfloor>now\<rfloor>,
       sd_expires_at = \<lfloor>now\<rfloor> + sm_session_ttl m, sd_provider = (case p of None \<Rightarrow> PNone | Some q \<Rightarrow> PStr q)\<rparr>"
  "extra \<noteq> [] \<Longrightarrow> session_from_dict (new_session m now i u e roles p extra) = Inl (TypeError ''unexpected keyword argument'')"
  by (auto simp: session_from_dict_def new_session_def session_fields_def dget_def)

lemma validate_session_result:
  "sm_redis m = Some ops \<Longrightarrow> fst (validate_session m now i r) =
     (case se_get ops now (session_key i) r of
        None \<Rightarrow> Inr None
      | Some d \<Rightarrow> bindE (session_from_dict d) (\<lambda>s. Inr (if sd_expires_at s < \<lfloor>now\<rfloor> then None else Some s)))"
  by (auto simp: validate_session_def get_session_def bindS_def getS_def liftE_def returnS_def seqS_def modifyS_def
      bindE_def split: option.splits sum.splits)

text \<open>A session is valid for its time to live. Extending it does not lengthen it: Redis keeps the
  record longer, but the expiry in the record stays, so that an extended session ends in the
  second it would have ended in anyway.\<close>

theorem session_lifetime:
  assumes "redis_expiring ops view" "sm_redis m = Some ops" "t0 \<le> t1" "t1 < t0 + of_int (sm_session_ttl m)"
    and "create_session m t0 uuid u e roles p [] r = (i, r1)" "extend_session m t1 i (Some ttl) r1 = (b, r2)" "0 < ttl"
  shows "(\<forall>now. (\<exists>d. fst (validate_session m now i r1) = Inr (Some d)) = (now < t0 + of_int (sm_session_ttl m))) \<and>
    (\<forall>now. (\<exists>d. fst (validate_session m now i r2) = Inr (Some d)) =
       (now < t1 + of_int ttl \<and> \<lfloor>now\<rfloor> \<le> \<lfloor>t0\<rfloor> + sm_session_ttl m))"
proof -
  let ?d = "new_session m t0 uuid u e roles p []"
  note laws = assms(1) [unfolded redis_expiring_def]
  have ttl: "0 < sm_session_ttl m" using assms(3, 4) by simp
  have i: "i = uuid" and r1: "view r1 (session_key i) = Some (?d, t0 + of_int (sm_session_ttl m))"
    using assms(2, 5) laws ttl by (auto simp: create_session_def)
  have "se_expire ops t1 (session_key i) ttl r1 = (b, r2)"
    using assms(2, 6, 7) by (simp add: extend_session_def Let_def)
  then have "view r2 = view (snd (se_expire ops t1 (session_key i) ttl r1))" by simp
  also have "\<dots> = (view r1)(session_key i \<mapsto> (?d, t1 + of_int ttl))"
    using laws assms(4, 7) r1 by simp
  finally have r2: "view r2 (session_key i) = Some (?d, t1 + of_int ttl)" by simp
  have early: "\<lfloor>now\<rfloor> \<le> \<lfloor>t0\<rfloor> + sm_session_ttl m" if "now < t0 + of_int (sm_session_ttl m)" for now
    using floor_mono [OF less_imp_le [OF that]] by simp
  have late: "t0 + of_int (sm_session_ttl m) \<le> now" if "\<lfloor>t0\<rfloor> + sm_session_ttl m < \<lfloor>now\<rfloor>" for now
    using early [of now] that by linarith
  show ?thesis
    using r1 r2 early laws
    by (auto simp: validate_session_result [OF assms(2)] session_from_new not_less late)
qed

definition open_redis :: "(string \<Rightarrow> (dict \<times> rat) option) session_redis" where
  "open_redis = \<lparr>se_setex = (\<lambda>now k ttl d r. r(k \<mapsto> (d, now + of_int ttl))),
     se_get = (\<lambda>now k r. case r k of None \<Rightarrow> None | Some (d, e) \<Rightarrow> if now < e then Some d else None),
     se_delete = (\<lambda>now k r. (if r k = None then 0 else 1, r(k := None))),
     se_expire = (\<lambda>now k ttl r. case r k of None \<Rightarrow> (False, r)
       | Some (d, e) \<Rightarrow> if now < e then (True, r(k \<mapsto> (d, now + of_int ttl))) else (False, r)),
     se_keys = (\<lambda>now r. [])\<rparr>"

theorem session_lifetime_witness:
  "case create_session \<lparr>sm_redis = Some open_redis, sm_session_ttl = 60\<rparr> 0 ''s'' ''ann'' ''a@b'' [] None [] Map.empty of (i, r1) \<Rightarrow>
     (case extend_session \<lparr>sm_redis = Some open_redis, sm_session_ttl = 60\<rparr> 50 i (Some 3600) r1 of (b, r2) \<Rightarrow>
        b \<and> \<not> (\<exists>d. fst (validate_session \<lparr>sm_redis = Some open_redis, sm_session_ttl = 60\<rparr> 100 i r2) = Inr (Some d)))"
proof -
  let ?m = "\<lparr>sm_redis = Some open_redis, sm_session_ttl = 60\<rparr>"
  obtain i r1 where c: "create_session ?m 0 ''s'' ''ann'' ''a@b'' [] None [] Map.empty = (i, r1)"
    using prod.exhaust by blast
  obtain b r2 where x: "extend_session ?m 50 i (Some 3600) r1 = (b, r2)" using prod.exhaust by blast
  have "redis_expiring open_redis (\<lambda>r. r)"
    by (auto simp: redis_expiring_def open_redis_def split: option.splits)
  from session_lifetime [OF this _ _ _ c x]
  have "\<not> (\<exists>d. fst (validate_session ?m 100 i r2) = Inr (Some d))" by simp
  moreover have b
    using c x by (auto simp: create_session_def extend_session_def open_redis_def)
  ultimately show ?thesis using c x by simp
qed

text \<open>A session with data of its own can be stored but never read again.\<close>

lemma extra_session_unreadable:
  assumes "redis_expiring ops view" "sm_redis m = Some ops" "t0 \<le> now" "now < t0 + of_int (sm_session_ttl m)" "extra \<noteq> []"
    and "create_session m t0 uuid u e roles p extra r = (i, r1)"
  shows "fst (validate_session m now i r1) = Inl (TypeError ''unexpected keyword argument'')"
proof -
  have "0 < sm_session_ttl m" using assms(3, 4) by simp
  then have "view r1 (session_key i) = Some (new_session m t0 uuid u e roles p extra, t0 + of_int (sm_session_ttl m))"
    using assms(1, 2, 6) by (auto simp: create_session_def redis_expiring_def)
  then show ?thesis
    using assms(1, 4) by (simp add: validate_session_result [OF assms(2)] session_from_new(2) [OF assms(5)] redis_expiring_def)
qed

end
