(* ===== verification/Gateway.thy ===== *)
theory Gateway
  imports RunStore Redaction Schedule TaskQueue Status Observability Sessions
begin

text \<open>
  \<open>scheduler/gateway.py\<close>: a request for a pipeline, from the check of the tenant to the
  stored run; the queue of asynchronous requests; the answers about runs. The state has the
  files of the three repositories and what the module keeps in memory. The record of the
  run that a handler works on is a local variable of the code; here it is the component
  \<open>gw_record\<close>, because the checkpoint callback changes it. Clock, identifiers, hash, sizes of
  JSON texts and the engine are parameters; \<open>gw_calls\<close> notes the calls of the engine.
\<close>

subsection \<open>Environment, state, requests\<close>

record engine_call =
  ek_pipeline_name :: string
  ek_inputs :: dict
  ek_run_id :: string
  ek_source :: string
  ek_correlation_id :: string
  ek_tenant_id :: string
  ek_repository :: "string option"
  ek_resume :: "(dict \<times> dict) option"

text \<open>The engine gives the payloads of its checkpoints, one after the other, and ends with a
  result or an exception. An exception of the callback leaves \<open>run\<close>, at that checkpoint.\<close>

type_synonym engine_fun = "nat \<Rightarrow> engine_call \<Rightarrow> dict list \<times> (exn + dict)"

record gateway_env =
  ge_now :: "nat \<Rightarrow> string"
  ge_time :: "nat \<Rightarrow> rat"
  ge_uuid :: "nat \<Rightarrow> string"
  ge_sha256 :: "string \<Rightarrow> string"
  ge_fstr :: "rat \<Rightarrow> string"
  ge_size :: "dict list \<Rightarrow> nat"
  ge_limit :: nat
  ge_policy :: artifact_policy
  ge_parse :: "string \<Rightarrow> rat option"
  ge_oldest :: rat
  ge_tenants :: tenant_registry
  ge_default_tenant :: string
  ge_auth_enabled :: bool
  ge_operators :: operator_config
  ge_engine :: engine_fun

record gateway =
  gw_runs :: json_files
  gw_step_logs :: json_files
  gw_artifacts :: json_files
  gw_cache :: "(string \<times> dict) list"
  gw_idem :: idem_store
  gw_inputs :: "(string \<times> dict) list"
  gw_metrics :: runtime_metrics
  gw_alerts :: alert_dispatcher
  gw_alert_log :: "dict list"
  gw_queue :: memory_queue
  gw_overrides :: override_registry
  gw_record :: run_record
  gw_calls :: "engine_call list"
  gw_tick :: nat

record pipeline_request =
  pq_pipeline_name :: string
  pq_inputs :: dict
  pq_source :: string
  pq_tenant_id :: "string option"
  pq_repository :: "string option"
  pq_correlation_id :: "string option"
  pq_idempotency_key :: "string option"
  pq_async_mode :: bool

text \<open>What an endpoint returns: an object or a JSON response with its status.\<close>

datatype reply = Body dict | Failure http_response

definition tickG :: "(nat \<Rightarrow> 'a) \<Rightarrow> (gateway, 'a) st" where
  "tickG f s = (Inr (f (gw_tick s)), s\<lparr>gw_tick := gw_tick s + 1\<rparr>)"

definition recordG :: "(run_record \<Rightarrow> run_record) \<Rightarrow> (gateway, unit) st" where
  "recordG f = modifyS (\<lambda>s. s\<lparr>gw_record := f (gw_record s)\<rparr>)"

definition failG ::
  "gateway_env \<Rightarrow> nat \<Rightarrow> string \<Rightarrow> string \<Rightarrow> string option \<Rightarrow> string option \<Rightarrow> (gateway, reply) st" where
  "failG env status code message run_id correlation_id =
     bindS (tickG (ge_now env)) (\<lambda>now. returnS (Failure (error_response now status code message run_id correlation_id)))"

definition sanitize_run_result :: "dict option \<Rightarrow> dict" where
  "sanitize_run_result r = (case r of None \<Rightarrow> [] | Some d \<Rightarrow> redact_mapping d)"

definition resolve_runtime_inputs :: "run_record \<Rightarrow> gateway \<Rightarrow> dict" where
  "resolve_runtime_inputs r s = (case map_of (gw_inputs s) (rr_run_id r) of Some d \<Rightarrow> d | None \<Rightarrow> rr_inputs r)"

definition resolve_tenant_repository ::
  "gateway_env \<Rightarrow> pipeline_request \<Rightarrow> string \<times> string option \<times> string option" where
  "resolve_tenant_repository env req =
     (let repo = extract_repository_full_name (ge_fstr env) (pq_inputs req) (pq_repository req);
          d = validate_boundary (pq_tenant_id req) repo (ge_tenants env)
      in (bd_tenant_id d, bd_repository d, if bd_allowed d then None else Some (bd_reason d)))"

definition build_run_id :: "string \<Rightarrow> string \<Rightarrow> string" where
  "build_run_id tenant_id uuid = tenant_id @ '':'' @ uuid"

definition scope_idempotency_key :: "string \<Rightarrow> string \<Rightarrow> string" where
  "scope_idempotency_key tenant_id key = tenant_id @ '':'' @ key"

subsection \<open>Storing a run, its steps and its artifacts\<close>

definition save_run :: "gateway_env \<Rightarrow> (gateway, unit) st" where
  "save_run env = modifyS (\<lambda>s. s\<lparr>gw_runs := run_upsert (ge_size env) (ge_limit env) (ge_fstr env) (gw_record s) (gw_runs s)\<rparr>)"

definition cache_run :: "string \<Rightarrow> (gateway, unit) st" where
  "cache_run run_id = modifyS (\<lambda>s. s\<lparr>gw_cache := AList.update run_id (run_to_dict (gw_record s)) (gw_cache s)\<rparr>)"

text \<open>The states of the steps in a result, by name; the last one with a name counts.\<close>

definition run_state_steps :: "dict \<Rightarrow> (string \<times> dict) list" where
  "run_state_steps result =
     (case dget_or result ''run_state'' (PDict []) of
        PDict rs \<Rightarrow>
          (case dget rs ''steps'' of
             PList items \<Rightarrow>
               fold (\<lambda>i d. case i of
                   PDict st \<Rightarrow> (case dget st ''name'' of PStr n \<Rightarrow> AList.update n st d | _ \<Rightarrow> d)
                 | _ \<Rightarrow> d) items []
           | _ \<Rightarrow> [])
      | _ \<Rightarrow> [])"

definition result_artifacts :: "dict \<Rightarrow> dict list" where
  "result_artifacts step_result =
     (case dget_or step_result ''artifacts'' (PList []) of
        PList xs \<Rightarrow> List.map_filter (\<lambda>a. case a of PDict d \<Rightarrow> Some d | _ \<Rightarrow> None) xs | _ \<Rightarrow> [])"

definition artifact_id_of :: "dict \<Rightarrow> string option" where
  "artifact_id_of a =
     (case dget a ''metadata'' of
        PDict m \<Rightarrow> (case dget m ''artifact_id'' of PStr i \<Rightarrow> Some i | _ \<Rightarrow> None) | _ \<Rightarrow> None)"

definition time_field :: "dict \<Rightarrow> string \<Rightarrow> string option \<Rightarrow> string option" where
  "time_field d k dflt = (case map_of d k of None \<Rightarrow> dflt | Some v \<Rightarrow> text_of v)"

definition step_log_of ::
  "(rat \<Rightarrow> string) \<Rightarrow> run_record \<Rightarrow> dict \<Rightarrow> string \<Rightarrow> dict \<Rightarrow> exn + step_log" where
  "step_log_of fstr r state name res =
     (let status = py_str fstr (dget_or res ''status'' (PStr ''UNKNOWN''));
          message = (case dget res ''logs'' of PList (l # ls) \<Rightarrow> Some (py_str fstr l) | _ \<Rightarrow> None);
          error = (case dget state ''error'' of PStr (c # e) \<Rightarrow> Some (c # e)
                   | _ \<Rightarrow> if status = ''FAILED'' \<or> status = ''BLOCKED'' then message else None)
      in bindE (py_int (dget_or state ''attempts'' (PInt 1))) (\<lambda>attempts. Inr
           \<lparr>sl_run_id = rr_run_id r, sl_step_name = name, sl_status = status, sl_tenant_id = rr_tenant_id r,
            sl_started_at = time_field state ''started_at'' (Some (rr_started_at r)),
            sl_finished_at = time_field state ''finished_at'' (rr_finished_at r),
            sl_error = error, sl_retry_count = max 0 (attempts - 1),
            sl_input_hash = (case dget state ''input_hash'' of PNone \<Rightarrow> None | v \<Rightarrow> Some (py_strip (py_str fstr v))),
            sl_artifact_ids = List.map_filter artifact_id_of (result_artifacts res)\<rparr>))"

definition step_artifacts :: "(rat \<Rightarrow> string) \<Rightarrow> run_record \<Rightarrow> string \<Rightarrow> dict \<Rightarrow> artifact_record list" where
  "step_artifacts fstr r name res =
     List.map_filter (\<lambda>a. case dget a ''content'' of
         PDict c \<Rightarrow>
           (let t = py_strip (py_str fstr (dget_or a ''type'' (PStr ''unknown''))) in
            Some \<lparr>ar_run_id = rr_run_id r, ar_step_name = name, ar_artifact_type = (if t = [] then ''unknown'' else t),
                  ar_content = c, ar_size_bytes = 0, ar_tenant_id = rr_tenant_id r\<rparr>)
       | _ \<Rightarrow> None) (result_artifacts res)"

text \<open>The results of steps that are objects.\<close>

definition result_steps :: "dict \<Rightarrow> (string \<times> dict) list option" where
  "result_steps result =
     (case dget_or result ''steps'' (PDict []) of
        PDict d \<Rightarrow> Some (List.map_filter (\<lambda>(n, v). case v of PDict x \<Rightarrow> Some (n, x) | _ \<Rightarrow> None) d)
      | _ \<Rightarrow> None)"

definition step_state_of :: "dict \<Rightarrow> string \<Rightarrow> dict" where
  "step_state_of result name = (case map_of (run_state_steps result) name of Some d \<Rightarrow> d | None \<Rightarrow> [])"

definition step_logs_load :: "gateway_env \<Rightarrow> json_files \<Rightarrow> step_log list" where
  "step_logs_load env f = repo_load json_read_all (step_log_from_dict (ge_fstr env)) f"

definition artifacts_load :: "gateway_env \<Rightarrow> json_files \<Rightarrow> artifact_record list" where
  "artifacts_load env f = repo_load json_read_all (artifact_from_dict (ge_fstr env)) f"

definition store_logs :: "gateway_env \<Rightarrow> run_record \<Rightarrow> step_log list \<Rightarrow> artifact_record list \<Rightarrow> gateway \<Rightarrow> gateway" where
  "store_logs env r logs arts s =
     s\<lparr>gw_step_logs := repo_save (json_write_all (ge_size env) (ge_limit env)) step_log_to_dict
         (step_logs_replace (rr_run_id r) (Some (rr_tenant_id r)) logs (step_logs_load env (gw_step_logs s))) (gw_step_logs s),
       gw_artifacts := repo_save (json_write_all (ge_size env) (ge_limit env)) artifact_to_dict
         (artifacts_replace (ge_fstr env) (ge_policy env) (rr_run_id r) (Some (rr_tenant_id r)) arts
            (artifacts_load env (gw_artifacts s))) (gw_artifacts s)\<rparr>"

definition persist_step_and_artifact_logs :: "gateway_env \<Rightarrow> (gateway, unit) st" where
  "persist_step_and_artifact_logs env =
     bindS (getS gw_record) (\<lambda>r.
       case rr_result r of
         None \<Rightarrow> returnS ()
       | Some result \<Rightarrow>
           (case result_steps result of
              None \<Rightarrow> returnS ()
            | Some steps \<Rightarrow>
                bindS (liftE (mapE (\<lambda>(n, res). step_log_of (ge_fstr env) r (step_state_of result n) n res) steps)) (\<lambda>logs.
                modifyS (store_logs env r logs (concat (map (\<lambda>(n, res). step_artifacts (ge_fstr env) r n res) steps))))))"

subsection \<open>Calling the engine\<close>

text \<open>\<open>str(payload.get("status") or "RUNNING")\<close>.\<close>

definition checkpoint_status :: "(rat \<Rightarrow> string) \<Rightarrow> dict \<Rightarrow> string" where
  "checkpoint_status fstr payload =
     (let v = dget payload ''status'' in if truthy v then py_str fstr v else ''RUNNING'')"

definition on_checkpoint :: "gateway_env \<Rightarrow> dict \<Rightarrow> (gateway, unit) st" where
  "on_checkpoint env payload =
     seqS (recordG (\<lambda>r. r\<lparr>rr_result := Some (sanitize_run_result (Some payload)),
             rr_checkpoint := dict_in (dget payload ''checkpoint''),
             rr_status := checkpoint_status (ge_fstr env) payload\<rparr>))
     (seqS (save_run env) (persist_step_and_artifact_logs env))"

definition call_engine :: "gateway_env \<Rightarrow> engine_call \<Rightarrow> (gateway, dict) st" where
  "call_engine env call =
     seqS (modifyS (\<lambda>s. s\<lparr>gw_calls := gw_calls s @ [call]\<rparr>))
     (bindS (tickG (\<lambda>n. ge_engine env n call)) (\<lambda>(checkpoints, outcome).
      seqS (forS (on_checkpoint env) checkpoints) (liftE outcome)))"

definition alert_failure :: "gateway_env \<Rightarrow> (gateway, unit) st" where
  "alert_failure env =
     bindS (tickG (ge_time env)) (\<lambda>now. modifyS (\<lambda>s.
       let r = gw_record s;
           (raised, alerts) = alert_run_failure now (rr_run_id r) (rr_pipeline_name r) (rr_status r)
             (rr_correlation_id r) (rr_error r) (gw_alerts s)
       in s\<lparr>gw_alerts := alerts,
            gw_alert_log := (case raised of None \<Rightarrow> gw_alert_log s | Some a \<Rightarrow> gw_alert_log s @ [a])\<rparr>))"

definition observeG :: "gateway_env \<Rightarrow> dict \<Rightarrow> (gateway, unit) st" where
  "observeG env result = modifyS (\<lambda>s. s\<lparr>gw_metrics := observe_run_result (ge_fstr env) result (gw_metrics s)\<rparr>)"

definition forget_inputs :: "string \<Rightarrow> (gateway, unit) st" where
  "forget_inputs run_id = modifyS (\<lambda>s. s\<lparr>gw_inputs := dict_pop run_id (gw_inputs s)\<rparr>)"

definition halted_status :: "string \<Rightarrow> bool" where
  "halted_status status \<longleftrightarrow> status = ''FAILED'' \<or> status = ''BLOCKED''"

text \<open>What follows the return of the engine, and what follows its exception. The status of a
  result is a text.\<close>

definition complete_run :: "gateway_env \<Rightarrow> string \<Rightarrow> dict \<Rightarrow> (gateway, unit) st" where
  "complete_run env run_id result =
     (let safe = sanitize_run_result (Some result) in
      bindS (tickG (ge_now env)) (\<lambda>now.
      seqS (recordG (\<lambda>r. r\<lparr>rr_result := Some safe, rr_status := get_text safe ''status'' ''UNKNOWN'',
              rr_finished_at := Some now\<rparr>))
      (seqS (save_run env)
      (seqS (persist_step_and_artifact_logs env)
      (seqS (observeG env safe)
      (bindS (getS (\<lambda>s. rr_status (gw_record s))) (\<lambda>status.
        if halted_status status then alert_failure env else forget_inputs run_id)))))))"

definition fail_run :: "gateway_env \<Rightarrow> exn \<Rightarrow> (gateway, unit) st" where
  "fail_run env e =
     bindS (tickG (ge_now env)) (\<lambda>now.
     seqS (recordG (\<lambda>r. r\<lparr>rr_status := ''FAILED'', rr_error := Some (exn_str e), rr_finished_at := Some now\<rparr>))
     (seqS (save_run env)
     (seqS (observeG env [(''status'', PStr ''FAILED''), (''summary'', PDict [])])
     (alert_failure env))))"

text \<open>The subclasses of \<open>ValueError\<close> among the exceptions of the program.\<close>

fun is_value_error :: "exn \<Rightarrow> bool" where
  "is_value_error (ValueError _) = True"
| "is_value_error (InvalidStatusTransition _) = True"
| "is_value_error (SchemaValidationError _) = True"
| "is_value_error (RulePackValidationError _) = True"
| "is_value_error _ = False"

fun failure_answer :: "exn \<Rightarrow> nat \<times> string \<times> string" where
  "failure_answer (FileNotFoundError m) = (404, ''PIPELINE_NOT_FOUND'', exn_str (FileNotFoundError m))"
| "failure_answer e =
     (if is_value_error e then (400, ''INVALID_PIPELINE_PAYLOAD'', exn_str e)
      else (500, ''PIPELINE_EXECUTION_FAILED'', ''Pipeline execution failed''))"

subsection \<open>A request for a pipeline\<close>

definition request_key :: "gateway_env \<Rightarrow> string \<Rightarrow> string option \<Rightarrow> pipeline_request \<Rightarrow> string" where
  "request_key env tenant_id repo req =
     (case pq_idempotency_key req of
        Some (c # k) \<Rightarrow> c # k
      | _ \<Rightarrow> build_idempotency_key (ge_sha256 env) (ge_fstr env) (pq_source req) (pq_pipeline_name req)
               [(''tenant_id'', PStr tenant_id), (''repository_full_name'', opt_text repo), (''inputs'', PDict (pq_inputs req))])"

definition enqueue_request ::
  "gateway_env \<Rightarrow> pipeline_request \<Rightarrow> string \<Rightarrow> string \<Rightarrow> string option \<Rightarrow> (gateway, reply) st" where
  "enqueue_request env req correlation_id tenant_id repo =
     bindS (tickG (\<lambda>n. (ge_uuid env n, ge_now env n))) (\<lambda>(uuid, now).
     bindS (getS (\<lambda>s. enqueue uuid now
         \<lparr>qr_pipeline_name = pq_pipeline_name req, qr_inputs = pq_inputs req, qr_source = pq_source req,
          qr_correlation_id = correlation_id, qr_tenant_id = tenant_id, qr_repository = repo,
          qr_idempotency_key = pq_idempotency_key req\<rparr> (gw_queue s))) (\<lambda>(task, queue).
     seqS (modifyS (\<lambda>s. s\<lparr>gw_queue := queue\<rparr>))
     (returnS (Body [(''status'', PStr ''queued''), (''task_id'', PStr (qt_task_id task)),
       (''pipeline'', PStr (pq_pipeline_name req)), (''source'', PStr (pq_source req)),
       (''correlation_id'', PStr correlation_id), (''idempotency_key'', opt_text (pq_idempotency_key req)),
       (''tenant_id'', PStr tenant_id), (''repository_full_name'', opt_text repo)]))))"

text \<open>The run that has answered the key, if it is still stored.\<close>

definition find_duplicate :: "gateway_env \<Rightarrow> string \<Rightarrow> string \<Rightarrow> (gateway, run_record option) st" where
  "find_duplicate env tenant_id scoped_key =
     bindS (tickG (ge_time env)) (\<lambda>now s.
       let (existing, idem) = store_get now scoped_key (gw_idem s) in
       (Inr (case existing of
               None \<Rightarrow> None
             | Some e \<Rightarrow> run_get (ge_fstr env) (ie_run_id e) (Some tenant_id) (gw_runs s)), s\<lparr>gw_idem := idem\<rparr>))"

definition answer_duplicate :: "string \<Rightarrow> string \<Rightarrow> run_record \<Rightarrow> (gateway, reply) st" where
  "answer_duplicate key tenant_id r =
     (let safe = sanitize_run_result (rr_result r) in
      seqS (modifyS (\<lambda>s. s\<lparr>gw_cache := AList.update (rr_run_id r) (run_to_dict (r\<lparr>rr_result := Some safe\<rparr>)) (gw_cache s)\<rparr>))
      (returnS (Body [(''status'', PStr ''duplicate''), (''run_id'', PStr (rr_run_id r)),
        (''pipeline'', PStr (rr_pipeline_name r)), (''source'', PStr (rr_source r)),
        (''correlation_id'', PStr (rr_correlation_id r)), (''idempotency_key'', PStr key),
        (''tenant_id'', PStr tenant_id), (''repository_full_name'', opt_text (rr_repository r)), (''result'', PDict safe)])))"

definition runtime_inputs :: "pipeline_request \<Rightarrow> string \<Rightarrow> string option \<Rightarrow> dict" where
  "runtime_inputs req tenant_id repo =
     (let d = dsetdefault ''tenant_id'' (PStr tenant_id) (pq_inputs req) in
      case repo of
        Some (c # r) \<Rightarrow> dsetdefault ''repository_full_name'' (PStr (c # r)) d
      | _ \<Rightarrow> d)"

definition new_run_record ::
  "pipeline_request \<Rightarrow> string \<Rightarrow> string \<Rightarrow> string \<Rightarrow> string \<Rightarrow> string option \<Rightarrow> string \<Rightarrow> run_record" where
  "new_run_record req run_id started_at correlation_id tenant_id repo key =
     \<lparr>rr_run_id = run_id, rr_pipeline_name = pq_pipeline_name req, rr_status = ''RUNNING'', rr_source = pq_source req,
      rr_correlation_id = correlation_id, rr_started_at = started_at, rr_tenant_id = tenant_id, rr_repository = repo,
      rr_finished_at = None, rr_result = None, rr_error = None, rr_inputs = redact_mapping (pq_inputs req),
      rr_idempotency_key = Some key, rr_override_state = None, rr_checkpoint = None\<rparr>"

text \<open>
  \<open>create\<close> first normalises the handler's own record, in place: the repository, and the
  tenant, which it takes from the part of the run's identifier before the first colon. Later
  \<open>upsert\<close>s of the same record find it normalised.
\<close>

definition start_run ::
  "gateway_env \<Rightarrow> pipeline_request \<Rightarrow> string \<Rightarrow> string \<Rightarrow> string option \<Rightarrow> string \<Rightarrow> (gateway, string) st" where
  "start_run env req correlation_id tenant_id repo key =
     bindS (tickG (\<lambda>n. build_run_id tenant_id (ge_uuid env n))) (\<lambda>run_id.
     seqS (modifyS (\<lambda>s. s\<lparr>gw_inputs := AList.update run_id (runtime_inputs req tenant_id repo) (gw_inputs s),
                          gw_metrics := mark_run_started (gw_metrics s)\<rparr>))
     (bindS (tickG (ge_now env)) (\<lambda>now.
     seqS (recordG (\<lambda>_. normalize_record (new_run_record req run_id now correlation_id tenant_id repo key)))
     (seqS (bindS (getS (\<lambda>s. run_create (ge_size env) (ge_limit env) (ge_fstr env) (gw_record s) (gw_runs s))) (\<lambda>r.
        bindS (liftE r) (\<lambda>files. modifyS (\<lambda>s. s\<lparr>gw_runs := files\<rparr>))))
     (seqS (cache_run run_id) (returnS run_id))))))"

definition execute_run ::
  "gateway_env \<Rightarrow> pipeline_request \<Rightarrow> string \<Rightarrow> string \<Rightarrow> string \<Rightarrow> string option \<Rightarrow> (gateway, reply option) st" where
  "execute_run env req run_id correlation_id tenant_id repo =
     catchS
       (bindS (call_engine env
           \<lparr>ek_pipeline_name = pq_pipeline_name req, ek_inputs = runtime_inputs req tenant_id repo, ek_run_id = run_id,
            ek_source = pq_source req, ek_correlation_id = correlation_id, ek_tenant_id = tenant_id, ek_repository = repo,
            ek_resume = None\<rparr>) (\<lambda>result.
        seqS (complete_run env run_id result) (returnS None)))
       (\<lambda>e. seqS (forget_inputs run_id) (seqS (fail_run env e)
          (case failure_answer e of (status, code, message) \<Rightarrow>
            bindS (failG env status code message (Some run_id) (Some correlation_id)) (\<lambda>r. returnS (Some r)))))"

definition remember_run :: "gateway_env \<Rightarrow> string \<Rightarrow> string \<Rightarrow> (gateway, unit) st" where
  "remember_run env scoped_key run_id =
     bindS (tickG (ge_time env)) (\<lambda>t0. bindS (tickG (ge_time env)) (\<lambda>t1. bindS (tickG (ge_time env)) (\<lambda>t2.
       modifyS (\<lambda>s. s\<lparr>gw_idem := remember (t0, t1, t2) scoped_key run_id
         (case rr_result (gw_record s) of None \<Rightarrow> [] | Some d \<Rightarrow> d) (gw_idem s)\<rparr>))))"

definition run_request_now ::
  "gateway_env \<Rightarrow> pipeline_request \<Rightarrow> string \<Rightarrow> string \<Rightarrow> string option \<Rightarrow> (gateway, reply) st" where
  "run_request_now env req correlation_id tenant_id repo =
     (let key = request_key env tenant_id repo req; scoped = scope_idempotency_key tenant_id key in
      bindS (find_duplicate env tenant_id scoped) (\<lambda>existing.
        case existing of
          Some r \<Rightarrow> answer_duplicate key tenant_id r
        | None \<Rightarrow>
            bindS (start_run env req correlation_id tenant_id repo key) (\<lambda>run_id.
            bindS (execute_run env req run_id correlation_id tenant_id repo) (\<lambda>failed.
              case failed of
                Some r \<Rightarrow> returnS r
              | None \<Rightarrow>
                  seqS (remember_run env scoped run_id) (seqS (cache_run run_id)
                  (bindS (getS (\<lambda>s. rr_result (gw_record s))) (\<lambda>result.
                   returnS (Body [(''status'', PStr ''started''), (''run_id'', PStr run_id),
                     (''pipeline'', PStr (pq_pipeline_name req)), (''source'', PStr (pq_source req)),
                     (''correlation_id'', PStr correlation_id), (''idempotency_key'', PStr key),
                     (''tenant_id'', PStr tenant_id), (''repository_full_name'', opt_text repo),
                     (''result'', opt_dict result)]))))))))"

definition run_pipeline_request :: "gateway_env \<Rightarrow> pipeline_request \<Rightarrow> (gateway, reply) st" where
  "run_pipeline_request env req =
     bindS (case pq_correlation_id req of Some (c # i) \<Rightarrow> returnS (c # i) | _ \<Rightarrow> tickG (ge_uuid env)) (\<lambda>correlation_id.
       case resolve_tenant_repository env req of (tenant_id, repo, rejected) \<Rightarrow>
         (case rejected of
            Some reason \<Rightarrow> failG env 403 ''TENANT_BOUNDARY_VIOLATION'' (''Tenant boundary rejected: '' @ reason) None (Some correlation_id)
          | None \<Rightarrow>
              if pq_async_mode req then enqueue_request env req correlation_id tenant_id repo
              else run_request_now env req correlation_id tenant_id repo))"

end
