(* ===== verification/ModelOutput.thy ===== *)
theory ModelOutput
  imports ScanJobs Gateway
begin

text \<open>
  \<open>agents/llm_wrapper.py\<close>: reading the JSON objects out of what a model answers (reviews,
  specifications, code), and asking again when an answer cannot be read. The parameters are
  the JSON parser (\<open>loads\<close>, \<open>raw_decode\<close>: the error's text or the value), the library
  \<open>jsonschema\<close> and the model. Logging is left out.
\<close>

type_synonym json_reader = "string \<Rightarrow> string + pyval"

subsection \<open>Shared steps\<close>

definition fence :: string where
  "fence = ''```''"

definition is_fenced :: "string \<Rightarrow> bool" where
  "is_fenced s = starts_with fence s"

definition py_rstrip :: "string \<Rightarrow> string" where
  "py_rstrip s = rev (py_lstrip (rev s))"

text \<open>\<open>re.sub(r"^```(?:json)?\s*", "", s, flags=re.IGNORECASE)\<close> and, on texts that do not end with
  white space, \<open>re.sub(r"\s*```$", "", s)\<close>.\<close>

definition drop_opening :: "string \<Rightarrow> string" where
  "drop_opening s =
     (if is_fenced s
      then let r = drop 3 s in py_lstrip (if py_lower (take 4 r) = ''json'' then drop 4 r else r)
      else s)"

definition drop_closing :: "string \<Rightarrow> string" where
  "drop_closing s = (if ends_with fence s then py_rstrip (take (length s - 3) s) else s)"

text \<open>The suffixes of a text that begin with a brace.\<close>

fun from_braces :: "string \<Rightarrow> string list" where
  "from_braces [] = []"
| "from_braces (c # s) = (if c = CHR 0x7B then (c # s) # from_braces s else from_braces s)"

text \<open>One of the checks over the entries of a list in an answer.\<close>

definition check_entries :: "(nat \<Rightarrow> pyval \<Rightarrow> exn + unit) \<Rightarrow> pyval \<Rightarrow> exn + unit" where
  "check_entries check v =
     bindE (py_iter v) (\<lambda>xs. foldE (\<lambda>(i, x) _. check i x) (enumerate 0 xs) ())"

fun require_fields :: "string list \<Rightarrow> dict \<Rightarrow> exn + unit" where
  "require_fields [] d = Inr ()"
| "require_fields (f # fs) d =
     (if has_key d f then require_fields fs d else Inl (ValueError (''Missing required field: '' @ f)))"

text \<open>An entry that has to be an object with some keys.\<close>

definition check_keys :: "string \<Rightarrow> string list \<Rightarrow> nat \<Rightarrow> pyval \<Rightarrow> exn + unit" where
  "check_keys name keys i v =
     (case v of
        PDict d \<Rightarrow>
          (case find (\<lambda>k. \<not> has_key d k) keys of
             None \<Rightarrow> Inr ()
           | Some k \<Rightarrow> Inl (ValueError (name @ '' '' @ nat_str i @ '' missing '' @ quoted k)))
      | _ \<Rightarrow> Inl (ValueError (name @ '' '' @ nat_str i @ '' is not an object'')))"

subsection \<open>Reviews\<close>

text \<open>The lengths at which the braces opened at the beginning are closed: the depth is counted
  from there on and a candidate ends where it comes back to zero.\<close>

fun brace_ends :: "int \<Rightarrow> nat \<Rightarrow> string \<Rightarrow> nat list" where
  "brace_ends depth n [] = []"
| "brace_ends depth n (c # s) =
     (if c = CHR 0x7B then brace_ends (depth + 1) (Suc n) s
      else if c = CHR 0x7D
      then (if depth - 1 = 0 then Suc n # brace_ends (depth - 1) (Suc n) s else brace_ends (depth - 1) (Suc n) s)
      else brace_ends depth (Suc n) s)"

definition object_candidates :: "string \<Rightarrow> string list" where
  "object_candidates s = concat (map (\<lambda>t. map (\<lambda>n. take n t) (brace_ends 0 0 t)) (from_braces s))"

text \<open>\<open>_try_parse\<close> on one candidate after the other, with the last error so far.\<close>

fun try_parse :: "json_reader \<Rightarrow> string list \<Rightarrow> string option \<Rightarrow> string option + dict" where
  "try_parse loads [] err = Inl err"
| "try_parse loads (c # cs) err =
     (case loads c of
        Inl e \<Rightarrow> try_parse loads cs (Some e)
      | Inr (PDict d) \<Rightarrow> Inr d
      | Inr _ \<Rightarrow> try_parse loads cs err)"

definition review_text :: "(rat \<Rightarrow> string) \<Rightarrow> pyval \<Rightarrow> string" where
  "review_text fstr v =
     (case v of
        PDict _ \<Rightarrow> json_dumps fstr False '', '' '': '' v
      | PList _ \<Rightarrow> json_dumps fstr False '', '' '': '' v
      | _ \<Rightarrow> py_strip (if truthy v then py_str fstr v else []))"

definition decision_aliases :: "string list" where
  "decision_aliases = [''decision'', ''overallDecision'', ''final_decision'', ''finalDecision'', ''review_decision'']"

definition with_decision :: "dict \<Rightarrow> dict" where
  "with_decision d =
     (if has_key d ''overall_decision'' then d
      else dset ''overall_decision''
        (case find (has_key d) decision_aliases of Some k \<Rightarrow> dget d k | None \<Rightarrow> PStr ''request_changes'') d)"

definition review_defaults :: "dict \<Rightarrow> dict" where
  "review_defaults d =
     fold (\<lambda>(k, v). dsetdefault k v)
       [(''summary'', PStr []), (''findings'', PList []), (''strengths'', PList []), (''recommendations'', PList []),
        (''confidence'', PFloat (7 / 10))] (with_decision d)"

definition review_fields :: "string list" where
  "review_fields = [''overall_decision'', ''summary'', ''findings'', ''strengths'', ''recommendations'', ''confidence'']"

definition parse_review_output :: "(rat \<Rightarrow> string) \<Rightarrow> json_reader \<Rightarrow> pyval \<Rightarrow> exn + dict" where
  "parse_review_output fstr loads out =
     (let s = review_text fstr out in
      if s = [] then Inl (ValueError ''Empty LLM output'')
      else let cleaned = drop_closing (drop_opening s) in
        case try_parse loads (cleaned # object_candidates cleaned) None of
          Inl err \<Rightarrow> Inl (ValueError (''Invalid JSON in LLM output: ''
            @ (case err of None \<Rightarrow> ''No JSON object found'' | Some e \<Rightarrow> e)))
        | Inr d0 \<Rightarrow>
            let d = review_defaults d0 in
            bindE (require_fields review_fields d) (\<lambda>_.
            bindE (check_entries (check_keys ''Finding'' [''type'', ''severity'', ''description'']) (dget_or d ''findings'' (PList []))) (\<lambda>_.
              Inr d)))"

subsection \<open>Specifications\<close>

text \<open>\<open>re.search(r"\{[\s\S]*\}", s)\<close>: from the first opening to the last closing brace.\<close>

definition brace_span :: "string \<Rightarrow> string option" where
  "brace_span s =
     (let t = rev (dropWhile (\<lambda>c. c \<noteq> CHR 0x7D) (rev (dropWhile (\<lambda>c. c \<noteq> CHR 0x7B) s))) in
      if t = [] then None else Some t)"

definition parse_spec_output :: "json_reader \<Rightarrow> (dict \<Rightarrow> string option) \<Rightarrow> bool \<Rightarrow> string \<Rightarrow> exn + dict" where
  "parse_spec_output loads schema_error validate_schema out =
     (case brace_span out of
        None \<Rightarrow> Inl (ValueError ''No JSON found in LLM output'')
      | Some json \<Rightarrow>
          (case loads json of
             Inl e \<Rightarrow> Inl (ValueError (''Invalid JSON in LLM output: '' @ e))
           | Inr (PDict d) \<Rightarrow>
               bindE (require_fields [''summary'', ''requirements'', ''technical_notes'', ''file_changes''] d) (\<lambda>_.
               bindE (check_entries (check_keys ''Requirement'' [''description'', ''test_criteria'']) (dget_or d ''requirements'' (PList []))) (\<lambda>_.
               bindE (check_entries (check_keys ''File change'' [''path'', ''change_type'']) (dget_or d ''file_changes'' (PList []))) (\<lambda>_.
                 if validate_schema
                 then (case schema_error d of None \<Rightarrow> Inr d | Some e \<Rightarrow> Inl (ValueError (''Schema validation failed: '' @ e)))
                 else Inr d)))
           | Inr v \<Rightarrow> Inl (TypeError (''argument of type '' @ quoted (type_name v) @ '' is not iterable''))))"

subsection \<open>Code\<close>

text \<open>The first object with a field \<open>files\<close> that starts at a brace, or the last error.\<close>

fun first_code_object :: "json_reader \<Rightarrow> string list \<Rightarrow> string option \<Rightarrow> string option + dict" where
  "first_code_object raw_decode [] err = Inl err"
| "first_code_object raw_decode (c # cs) err =
     (case raw_decode c of
        Inl e \<Rightarrow> first_code_object raw_decode cs (Some e)
      | Inr (PDict d) \<Rightarrow> if has_key d ''files'' then Inr d else first_code_object raw_decode cs err
      | Inr _ \<Rightarrow> first_code_object raw_decode cs err)"

definition code_cleaned :: "string \<Rightarrow> string" where
  "code_cleaned out =
     (let s = py_strip out in if is_fenced s then py_strip (drop_closing (drop_opening s)) else s)"

definition has_text :: "pyval \<Rightarrow> bool" where
  "has_text v = (case v of PStr s \<Rightarrow> py_strip s \<noteq> [] | _ \<Rightarrow> False)"

definition check_file_entry :: "string \<Rightarrow> nat \<Rightarrow> pyval \<Rightarrow> exn + unit" where
  "check_file_entry name i v =
     (case v of
        PDict d \<Rightarrow>
          if \<not> has_text (dget d ''path'') then Inl (ValueError (name @ '' '' @ nat_str i @ '' missing valid '' @ quoted ''path''))
          else if \<not> is_str (dget d ''change_type'') then Inl (ValueError (name @ '' '' @ nat_str i @ '' missing '' @ quoted ''change_type''))
          else if \<not> is_str (dget d ''content'') then Inl (ValueError (name @ '' '' @ nat_str i @ '' missing '' @ quoted ''content''))
          else Inr ()
      | _ \<Rightarrow> Inl (ValueError (name @ '' '' @ nat_str i @ '' is not an object'')))"

definition parse_code_output :: "json_reader \<Rightarrow> string \<Rightarrow> exn + dict" where
  "parse_code_output raw_decode out =
     (if py_strip out = [] then Inl (ValueError ''Empty LLM output'')
      else case first_code_object raw_decode (from_braces (code_cleaned out)) None of
        Inl err \<Rightarrow> Inl (ValueError (''No valid JSON object with '' @ quoted ''files'' @ '' found in LLM output: ''
          @ (case err of None \<Rightarrow> ''None'' | Some e \<Rightarrow> e)))
      | Inr r \<Rightarrow>
          if \<not> is_list (dget r ''files'') \<or> \<not> truthy (dget r ''files'')
          then Inl (ValueError (''Field '' @ quoted ''files'' @ '' must be a non-empty list''))
          else let d = dsetdefault ''test_changes'' (PList []) (dsetdefault ''decisions'' (PList []) r) in
            bindE (check_entries (check_file_entry ''File'') (dget_or d ''files'' (PList []))) (\<lambda>_.
            bindE (check_entries (check_file_entry ''Test change'') (dget_or d ''test_changes'' (PList []))) (\<lambda>_.
              Inr d)))"

subsection \<open>The prompt for a specification\<close>

abbreviation newline :: string where
  "newline \<equiv> [CHR 0x0A]"

definition api_spec_template :: string where
  "api_spec_template = join newline
     [''## API Specification Template'',
      [],
      ''For each endpoint, specify:'',
      ''- HTTP method and path'',
      ''- Request parameters (path, query, body)'',
      ''- Response format and status codes'',
      ''- Authentication requirements'',
      ''- Error handling'',
      [],
      ''Provide OpenAPI-style definitions.'']"

definition ui_spec_template :: string where
  "ui_spec_template = join newline
     [''## UI Specification Template'',
      [],
      ''For each component, specify:'',
      ''- Component hierarchy and relationships'',
      ''- User interactions and flows'',
      ''- State management approach'',
      ''- Responsive behavior'',
      ''- Accessibility requirements'',
      [],
      ''Include wireframe descriptions where relevant.'']"

definition backend_spec_template :: string where
  "backend_spec_template = join newline
     [''## Backend Specification Template'',
      [],
      ''For each service/module, specify:'',
      ''- Public interfaces and contracts'',
      ''- Data models and schemas'',
      ''- Business logic overview'',
      ''- External dependencies'',
      ''- Performance considerations'',
      [],
      ''Include database schema changes if applicable.'']"

definition data_spec_template :: string where
  "data_spec_template = join newline
     [''## Data Specification Template'',
      [],
      ''For data transformations, specify:'',
      ''- Input data format and sources'',
      ''- Output data format and destinations'',
      ''- Transformation logic'',
      ''- Data quality requirements'',
      ''- Schema evolution strategy'',
      [],
      ''Include data flow diagrams where relevant.'']"

definition spec_type_template :: "string \<Rightarrow> string" where
  "spec_type_template t =
     (if t = ''api'' then api_spec_template else if t = ''ui'' then ui_spec_template
      else if t = ''data'' then data_spec_template else backend_spec_template)"

definition keyword_score :: "string list \<Rightarrow> string \<Rightarrow> nat" where
  "keyword_score keywords content = length (filter (\<lambda>k. contains k content) keywords)"

definition detect_spec_type :: "string \<Rightarrow> string \<Rightarrow> string" where
  "detect_spec_type title body =
     (let content = py_lower (title @ '' '' @ body);
          scores = [(''api'', keyword_score [''api'', ''endpoint'', ''rest'', ''http'', ''request'', ''response'', ''crud''] content),
                    (''ui'', keyword_score [''ui'', ''interface'', ''frontend'', ''button'', ''modal'', ''page'', ''view'', ''component''] content),
                    (''data'', keyword_score [''data'', ''transform'', ''etl'', ''migration'', ''schema'', ''export'', ''import''] content)]
      in case sort_desc snd scores of
           (t, n) # _ \<Rightarrow> if n > 0 then t else ''backend''
         | [] \<Rightarrow> ''backend'')"

definition build_spec_prompt :: "(rat \<Rightarrow> string) \<Rightarrow> string \<Rightarrow> string list \<Rightarrow> dict \<Rightarrow> string option \<Rightarrow> string" where
  "build_spec_prompt fstr summary requirements context spec_type =
     (let t = (case spec_type of Some t \<Rightarrow> t | None \<Rightarrow> detect_spec_type summary (join newline requirements)) in
      join newline
     [''You are a senior software architect. Generate a detailed technical specification.'',
      [],
      ''## Task Type'',
      ''This is a **'' @ py_upper t @ ''** feature.'',
      [],
      ''## Feature Summary'',
      summary,
      [],
      ''## Requirements (Definition of Done)'',
      join newline (map (\<lambda>r. ''- '' @ r) requirements),
      [],
      ''## Repository Context'',
      join newline (map (\<lambda>(k, v). ''- '' @ k @ '': '' @ py_str fstr v) context),
      [],
      ''## Type-Specific Guidance'',
      spec_type_template t,
      [],
      ''## Output Format - STRICT JSON'',
      ''Generate a JSON object with EXACTLY these fields:'',
      [],
      ''{'',
      ''    \"summary\": \"Brief 1-2 sentence description of the feature\",'',
      ''    \"requirements\": ['',
      ''        {'',
      ''            \"id\": \"REQ-001\",'',
      ''            \"description\": \"Specific, testable requirement\",'',
      ''            \"test_criteria\": \"How to verify this requirement passes\",'',
      ''            \"priority\": \"must|should|could\"'',
      ''        }'',
      ''    ],'',
      ''    \"technical_notes\": ['',
      ''        \"Implementation consideration 1\",'',
      ''        \"Implementation consideration 2\"'',
      ''    ],'',
      ''    \"file_changes\": ['',
      ''        {'',
      ''            \"path\": \"relative/path/to/file.py\",'',
      ''            \"change_type\": \"create|modify|delete\",'',
      ''            \"description\": \"What this file change accomplishes\"'',
      ''        }'',
      ''    ]'',
      ''}'',
      [],
      ''## Critical Requirements:'',
      ''1. Each requirement MUST have test_criteria that describes HOW to verify it'',
      ''2. Requirements must be specific enough to write tests against'',
      ''3. File changes must have concrete paths relative to project root'',
      ''4. Response must be valid JSON only - no markdown code blocks, no explanations'',
      [],
      ''Respond with valid JSON only.'',
      []])"

subsection \<open>Asking again\<close>

text \<open>The loops of \<open>generate_spec_with_retry\<close> and \<open>generate_code_with_retry\<close>: \<open>n\<close> attempts are left. An
  error that is no \<open>ValueError\<close> leaves the loop at once, and after the last attempt the last
  error is reported.\<close>

type_synonym 's model = "string \<Rightarrow> ('s, string) st"

definition last_error_text :: "exn option \<Rightarrow> string" where
  "last_error_text prev = (case prev of None \<Rightarrow> ''None'' | Some e \<Rightarrow> exn_str e)"

definition spec_attempt ::
  "(rat \<Rightarrow> string) \<Rightarrow> json_reader \<Rightarrow> (dict \<Rightarrow> string option) \<Rightarrow> 's model \<Rightarrow> string \<Rightarrow> string list \<Rightarrow> string option \<Rightarrow> dict \<Rightarrow> ('s, dict) st" where
  "spec_attempt fstr loads schema_error llm summary requirements spec_type context =
     bindS (llm (build_spec_prompt fstr summary requirements context spec_type))
       (\<lambda>out. liftE (parse_spec_output loads schema_error True out))"

definition with_hint :: "exn \<Rightarrow> dict \<Rightarrow> dict" where
  "with_hint e context =
     dset ''_retry_hint'' (PStr (''Previous attempt failed: '' @ exn_str e @ ''. Ensure valid JSON output.'')) context"

fun spec_attempts :: "(dict \<Rightarrow> ('s, dict) st) \<Rightarrow> int \<Rightarrow> nat \<Rightarrow> exn option \<Rightarrow> dict \<Rightarrow> ('s, dict) st" where
  "spec_attempts attempt max_retries 0 prev context =
     raiseS (ValueError (''Spec generation failed after '' @ int_str max_retries @ '' attempts: '' @ last_error_text prev))"
| "spec_attempts attempt max_retries (Suc n) prev context =
     catchS (attempt context) (\<lambda>e.
       if is_value_error e
       then spec_attempts attempt max_retries n (Some e) (if n = 0 then context else with_hint e context)
       else raiseS e)"

definition generate_spec_with_retry ::
  "(rat \<Rightarrow> string) \<Rightarrow> json_reader \<Rightarrow> (dict \<Rightarrow> string option) \<Rightarrow> 's model \<Rightarrow> string \<Rightarrow> string list \<Rightarrow> dict \<Rightarrow>
     string option \<Rightarrow> int \<Rightarrow> ('s, dict) st" where
  "generate_spec_with_retry fstr loads schema_error llm summary requirements context spec_type max_retries =
     spec_attempts (spec_attempt fstr loads schema_error llm summary requirements spec_type) max_retries
       (nat max_retries) None context"

text \<open>The prompt for code is what \<open>build_code_prompt\<close> makes of the arguments, the same in every
  attempt; it is an argument here, with the error it may end in.\<close>

definition code_attempt :: "json_reader \<Rightarrow> 's model \<Rightarrow> exn + string \<Rightarrow> ('s, dict) st" where
  "code_attempt raw_decode llm prompt =
     bindS (liftE prompt) (\<lambda>p. bindS (llm p) (\<lambda>out. liftE (parse_code_output raw_decode out)))"

fun code_attempts :: "('s, dict) st \<Rightarrow> int \<Rightarrow> nat \<Rightarrow> exn option \<Rightarrow> ('s, dict) st" where
  "code_attempts attempt max_retries 0 prev =
     raiseS (ValueError (''Code generation failed after '' @ int_str max_retries @ '' attempts: '' @ last_error_text prev))"
| "code_attempts attempt max_retries (Suc n) prev =
     catchS attempt (\<lambda>e. if is_value_error e then code_attempts attempt max_retries n (Some e) else raiseS e)"

definition generate_code_with_retry :: "json_reader \<Rightarrow> 's model \<Rightarrow> exn + string \<Rightarrow> int \<Rightarrow> ('s, dict) st" where
  "generate_code_with_retry raw_decode llm prompt max_retries =
     code_attempts (code_attempt raw_decode llm prompt) max_retries (nat max_retries) None"

subsection \<open>What an accepted answer has\<close>

definition code_entry :: "pyval \<Rightarrow> bool" where
  "code_entry v = (case v of
     PDict d \<Rightarrow> has_text (dget d ''path'') \<and> is_str (dget d ''change_type'') \<and> is_str (dget d ''content'')
   | _ \<Rightarrow> False)"

lemma check_entries_Inr:
  "check_entries check v = Inr u \<longleftrightarrow> (\<exists>xs. py_iter v = Inr xs \<and> (\<forall>i < length xs. check i (xs ! i) = Inr ()))"
proof -
  have "foldE (\<lambda>(i, x) _. check i x) (enumerate k xs) () = Inr u \<longleftrightarrow> (\<forall>i < length xs. check (k + i) (xs ! i) = Inr ())" for k xs
    by (induction xs arbitrary: k) (auto simp: returns_iff All_less_Suc2)
  from this [of 0] show ?thesis by (simp add: check_entries_def returns_iff)
qed

lemma check_file_entry_Inr: "check_file_entry name i v = Inr u \<longleftrightarrow> code_entry v"
  by (cases v) (auto simp: check_file_entry_def code_entry_def)

lemma check_keys_Inr: "check_keys name keys i v = Inr u \<longleftrightarrow> (\<exists>d. v = PDict d \<and> (\<forall>k \<in> set keys. has_key d k))"
  by (cases v) (auto simp: check_keys_def find_None_iff find_Some_iff split: option.splits)

lemma check_files: "check_entries (check_file_entry name) v = Inr u \<longleftrightarrow> (\<exists>xs. py_iter v = Inr xs \<and> list_all code_entry xs)"
  by (simp add: check_entries_Inr check_file_entry_Inr list_all_length)

lemma require_fields_Inr: "require_fields fs d = Inr u \<longleftrightarrow> (\<forall>f \<in> set fs. has_key d f)"
  by (induction fs) auto

definition code_ok :: "dict \<Rightarrow> bool" where
  "code_ok d \<longleftrightarrow> has_key d ''decisions'' \<and>
     (case dget d ''files'' of PList fs \<Rightarrow> fs \<noteq> [] \<and> list_all code_entry fs | _ \<Rightarrow> False) \<and>
     (case py_iter (dget d ''test_changes'') of Inr ts \<Rightarrow> list_all code_entry ts | Inl _ \<Rightarrow> False)"

lemma parse_code_ok:
  assumes "parse_code_output raw_decode out = Inr d"
  shows "code_ok d"
proof -
  obtain r where r: "is_list (dget r ''files'')" "truthy (dget r ''files'')"
    and d: "d = dsetdefault ''test_changes'' (PList []) (dsetdefault ''decisions'' (PList []) r)"
    and f: "check_entries (check_file_entry ''File'') (dget_or d ''files'' (PList [])) = Inr ()"
    and t: "check_entries (check_file_entry ''Test change'') (dget_or d ''test_changes'' (PList [])) = Inr ()"
    using assms by (auto simp: parse_code_output_def Let_def returns_iff split: if_splits sum.splits)
  have keys: "has_key d ''decisions''" "has_key d ''test_changes''" "has_key d ''files''" "dget d ''files'' = dget r ''files''"
    using r(1) unfolding d by (auto simp: dsetdefault_def has_key_def dget_def split: option.splits)
  then have "dget_or d ''files'' (PList []) = dget r ''files''" "dget_or d ''test_changes'' (PList []) = dget d ''test_changes''"
    by (auto simp: dget_or_def dget_def has_key_def)
  with r f t keys show ?thesis
    by (cases "dget r ''files''") (auto simp: code_ok_def check_files)
qed

subsection \<open>The loops of attempts\<close>

definition value_error :: "exn + 'a \<Rightarrow> bool" where
  "value_error r = (case r of Inl e \<Rightarrow> is_value_error e | Inr _ \<Rightarrow> False)"

text \<open>The state after \<open>k\<close> attempts.\<close>

definition after :: "('s, 'a) st \<Rightarrow> nat \<Rightarrow> 's \<Rightarrow> 's" where
  "after attempt k = ((\<lambda>s. snd (attempt s)) ^^ k)"

lemma after_simps [simp]: "after attempt 0 s = s" "after attempt (Suc k) s = after attempt k (snd (attempt s))"
  by (simp_all add: after_def funpow_Suc_right del: funpow.simps(2))

lemma code_attempts_outcome:
  "\<exists>k. k \<le> n \<and> list_all (\<lambda>j. value_error (fst (attempt (after attempt j s)))) [0..<k] \<and>
     (if k = n then snd (code_attempts attempt max_retries n prev s) = after attempt k s \<and>
        (\<exists>m. fst (code_attempts attempt max_retries n prev s) = Inl (ValueError m))
      else code_attempts attempt max_retries n prev s = attempt (after attempt k s) \<and>
        \<not> value_error (fst (attempt (after attempt k s))))"
proof (induction n arbitrary: prev s)
  case 0
  then show ?case by (simp add: raiseS_def)
next
  case (Suc n)
  obtain r s' where a: "attempt s = (r, s')" by fastforce
  show ?case
  proof (cases "value_error r")
    case False
    then have "code_attempts attempt max_retries (Suc n) prev s = attempt s"
      using a by (auto simp: value_error_def catchS_def raiseS_def split: sum.splits)
    with False a show ?thesis by (intro exI [of _ 0]) simp
  next
    case True
    then obtain e where e: "r = Inl e" "is_value_error e" by (auto simp: value_error_def split: sum.splits)
    then have next_attempt: "code_attempts attempt max_retries (Suc n) prev s = code_attempts attempt max_retries n (Some e) s'"
      using a by (simp add: catchS_def)
    obtain k where k: "k \<le> n" "list_all (\<lambda>j. value_error (fst (attempt (after attempt j s')))) [0..<k]"
      "if k = n then snd (code_attempts attempt max_retries n (Some e) s') = after attempt k s' \<and>
         (\<exists>m. fst (code_attempts attempt max_retries n (Some e) s') = Inl (ValueError m))
       else code_attempts attempt max_retries n (Some e) s' = attempt (after attempt k s') \<and>
         \<not> value_error (fst (attempt (after attempt k s')))"
      using Suc.IH [of s' "Some e"] by blast
    have "list_all (\<lambda>j. value_error (fst (attempt (after attempt j s)))) [0..<Suc k]"
      using k(2) True a by (auto simp: list_all_iff less_Suc_eq_0_disj simp del: upt.simps)
    with k(1, 3) show ?thesis unfolding next_attempt
      by (intro exI [of _ "Suc k"]) (use a in \<open>simp split: if_splits\<close>)
  qed
qed

text \<open>Code is asked for until an attempt does anything but fail with a \<open>ValueError\<close>, at most
  \<open>max_retries\<close> times: that attempt decides the outcome, and when there is none, the call ends with
  a \<open>ValueError\<close> after exactly as many attempts as allowed. What is returned has at least one
  file, and every file and test change in it has a path, a kind of change and a content.\<close>

theorem code_retry_correct:
  "let attempt = code_attempt raw_decode llm prompt; (r, s') = generate_code_with_retry raw_decode llm prompt max_retries s in
     (\<exists>k. k \<le> nat max_retries \<and> list_all (\<lambda>j. value_error (fst (attempt (after attempt j s)))) [0..<k] \<and>
        (if k = nat max_retries then s' = after attempt k s \<and> (\<exists>m. r = Inl (ValueError m))
         else (r, s') = attempt (after attempt k s) \<and> \<not> value_error r)) \<and>
     (case r of Inr d \<Rightarrow> code_ok d | Inl _ \<Rightarrow> True)"
proof -
  let ?a = "code_attempt raw_decode llm prompt"
  obtain r s' where run: "generate_code_with_retry raw_decode llm prompt max_retries s = (r, s')" by fastforce
  obtain k where k: "k \<le> nat max_retries" "list_all (\<lambda>j. value_error (fst (?a (after ?a j s)))) [0..<k]"
    and o: "if k = nat max_retries then s' = after ?a k s \<and> (\<exists>m. r = Inl (ValueError m))
      else (r, s') = ?a (after ?a k s) \<and> \<not> value_error (fst (?a (after ?a k s)))"
    using code_attempts_outcome [of "nat max_retries" ?a s max_retries None, folded generate_code_with_retry_def, unfolded run]
    by (metis fst_conv snd_conv)
  have ok: "code_ok d" if "r = Inr d" for d
  proof -
    from that o have "fst (?a (after ?a k s)) = Inr d" by (auto split: if_splits) (metis fst_conv)
    then show ?thesis
      by (auto simp: code_attempt_def bindS_def liftE_def dest: parse_code_ok split: prod.splits sum.splits)
  qed
  have "if k = nat max_retries then s' = after ?a k s \<and> (\<exists>m. r = Inl (ValueError m))
      else (r, s') = ?a (after ?a k s) \<and> \<not> value_error r"
    using o by (cases "k = nat max_retries") (simp, metis fst_conv)
  moreover have "case r of Inr d \<Rightarrow> code_ok d | Inl _ \<Rightarrow> True" using ok by (simp split: sum.split)
  ultimately show ?thesis unfolding run Let_def prod.case by (intro conjI exI [of _ k] k)
qed

subsection \<open>Where a review is found\<close>

primrec net_depth :: "string \<Rightarrow> int" where
  "net_depth [] = 0"
| "net_depth (c # s) = (if c = CHR 0x7B then 1 else if c = CHR 0x7D then - 1 else 0) + net_depth s"

text \<open>A text in braces with as many closing as opening ones. Braces in the texts of an object count.\<close>

definition balanced_object :: "string \<Rightarrow> bool" where
  "balanced_object t \<longleftrightarrow> t \<noteq> [] \<and> hd t = CHR 0x7B \<and> last t = CHR 0x7D \<and> net_depth t = 0"

lemma set_brace_ends:
  "m \<in> set (brace_ends depth n s) \<longleftrightarrow>
    (\<exists>k < length s. m = n + Suc k \<and> s ! k = CHR 0x7D \<and> depth + net_depth (take (Suc k) s) = 0)"
proof (induction s arbitrary: depth n)
  case (Cons c s)
  have "m \<in> set (brace_ends depth n (c # s)) \<longleftrightarrow> (c = CHR 0x7D \<and> depth - 1 = 0 \<and> m = Suc n) \<or>
      m \<in> set (brace_ends (depth + net_depth [c]) (Suc n) s)"
    by auto
  also have "\<dots> \<longleftrightarrow> (\<exists>k < length (c # s). m = n + Suc k \<and> (c # s) ! k = CHR 0x7D \<and> depth + net_depth (take (Suc k) (c # s)) = 0)"
    unfolding Cons.IH by (auto simp: Ex_less_Suc2 algebra_simps)
  finally show ?case .
qed simp

lemma set_from_braces: "t \<in> set (from_braces s) \<longleftrightarrow> suffix t s \<and> t \<noteq> [] \<and> hd t = CHR 0x7B"
  by (induction s) (auto simp: suffix_Cons)

lemma set_object_candidates: "t \<in> set (object_candidates s) \<longleftrightarrow> balanced_object t \<and> sublist t s"
proof
  assume "t \<in> set (object_candidates s)"
  then obtain u k where u: "suffix u s" "u \<noteq> []" "hd u = CHR 0x7B" and k: "k < length u" "u ! k = CHR 0x7D"
    "net_depth (take (Suc k) u) = 0" "t = take (Suc k) u"
    by (auto simp: object_candidates_def set_from_braces set_brace_ends)
  then have "last t = CHR 0x7D" "t \<noteq> []" by (simp_all add: take_Suc_conv_app_nth)
  moreover have "hd t = CHR 0x7B" using u k(4) by (cases u) simp_all
  moreover have "sublist t s"
    using u(1) k(4) unfolding suffix_def sublist_def by (metis append_assoc append_take_drop_id)
  ultimately show "balanced_object t \<and> sublist t s" using k(3, 4) by (simp add: balanced_object_def)
next
  assume a: "balanced_object t \<and> sublist t s"
  then obtain u v where s: "s = u @ t @ v" by (auto simp: sublist_def)
  have t: "t \<noteq> []" "hd t = CHR 0x7B" "last t = CHR 0x7D" "net_depth t = 0" using a by (auto simp: balanced_object_def)
  have "t @ v \<in> set (from_braces s)" using t(1, 2) by (simp add: set_from_braces s suffix_def)
  moreover have "length t - 1 < length t" using t(1) by simp
  with t have "length t \<in> set (brace_ends 0 0 (t @ v))"
    unfolding set_brace_ends by (intro exI [of _ "length t - 1"]) (simp add: nth_append last_conv_nth trans_less_add1)
  ultimately show "t \<in> set (object_candidates s)"
    unfolding object_candidates_def by (force intro: rev_image_eqI)
qed

lemma try_parse_result:
  "case try_parse loads cs err of
     Inr d \<Rightarrow> \<exists>t \<in> set cs. loads t = Inr (PDict d)
   | Inl _ \<Rightarrow> \<not> (\<exists>t \<in> set cs. \<exists>d. loads t = Inr (PDict d))"
proof (induction cs arbitrary: err)
  case (Cons c cs)
  consider e where "loads c = Inl e" | d where "loads c = Inr (PDict d)"
    | v where "loads c = Inr v" "\<And>d. v \<noteq> PDict d"
    using sum.exhaust [of "loads c"] by metis
  then show ?case
  proof cases
    case 1
    then show ?thesis using Cons.IH [of "Some e"] by (simp split: sum.splits)
  next
    case 3
    then have "try_parse loads (c # cs) err = try_parse loads cs err" by (cases v) auto
    then show ?thesis using Cons.IH [of err] 3 by (auto split: sum.splits)
  qed simp
qed simp

definition object_with :: "string list \<Rightarrow> pyval \<Rightarrow> bool" where
  "object_with keys v = (case v of PDict d \<Rightarrow> list_all (has_key d) keys | _ \<Rightarrow> False)"

lemma check_keys_ok: "check_keys name keys i v = Inr u \<longleftrightarrow> object_with keys v"
  by (cases v) (auto simp: check_keys_Inr object_with_def list_all_iff)

definition review_ok :: "dict \<Rightarrow> bool" where
  "review_ok d \<longleftrightarrow> list_all (has_key d) review_fields \<and>
     (case py_iter (dget d ''findings'') of
        Inr fs \<Rightarrow> list_all (object_with [''type'', ''severity'', ''description'']) fs
      | Inl _ \<Rightarrow> False)"

definition review_source :: "string \<Rightarrow> string \<Rightarrow> bool" where
  "review_source cleaned t \<longleftrightarrow> t = cleaned \<or> balanced_object t \<and> sublist t cleaned"

lemma review_checks:
  "bindE (require_fields review_fields d) (\<lambda>_.
     bindE (check_entries (check_keys ''Finding'' [''type'', ''severity'', ''description'']) (dget_or d ''findings'' (PList []))) (\<lambda>_. Inr d))
   = Inr d' \<longleftrightarrow> d' = d \<and> review_ok d"
proof -
  have "dget_or d ''findings'' (PList []) = dget d ''findings''" if "list_all (has_key d) review_fields"
    using that by (auto simp: review_fields_def has_key_def dget_or_def dget_def)
  moreover have "(\<exists>u. check_entries (check_keys ''Finding'' [''type'', ''severity'', ''description'']) v = Inr u) \<longleftrightarrow>
      (case py_iter v of Inr fs \<Rightarrow> list_all (object_with [''type'', ''severity'', ''description'']) fs
       | Inl _ \<Rightarrow> False)" for v
    by (cases "py_iter v") (simp_all add: check_entries_Inr check_keys_ok list_all_length)
  ultimately show ?thesis
    by (auto simp: returns_iff require_fields_Inr review_ok_def list_all_iff)
qed

text \<open>A review is read off the whole answer without its fence, or off a part of it in balanced
  braces: what is returned is such an object with the defaults filled in, and has all fields and
  well-formed findings. A refusal means that the answer is empty, that no such text is an object,
  or that one has malformed findings.\<close>

theorem review_found_in_braces:
  "let cleaned = drop_closing (drop_opening (review_text fstr out)) in
   case parse_review_output fstr loads out of
     Inr d \<Rightarrow> \<exists>t d0. review_source cleaned t \<and> loads t = Inr (PDict d0) \<and> d = review_defaults d0 \<and> review_ok d
   | Inl e \<Rightarrow> (if review_text fstr out \<noteq> [] \<and> (\<exists>t d0. review_source cleaned t \<and> loads t = Inr (PDict d0))
       then \<exists>t d0. review_source cleaned t \<and> loads t = Inr (PDict d0) \<and> \<not> review_ok (review_defaults d0) else True)"
proof (cases "review_text fstr out = []")
  case True
  then show ?thesis by (simp add: parse_review_output_def Let_def)
next
  case False
  let ?c = "drop_closing (drop_opening (review_text fstr out))"
  define cs where "cs = ?c # object_candidates ?c"
  have parse: "parse_review_output fstr loads out = (case try_parse loads cs None of
      Inl err \<Rightarrow> Inl (ValueError (''Invalid JSON in LLM output: '' @ (case err of None \<Rightarrow> ''No JSON object found'' | Some e \<Rightarrow> e)))
    | Inr d0 \<Rightarrow> bindE (require_fields review_fields (review_defaults d0)) (\<lambda>_.
          bindE (check_entries (check_keys ''Finding'' [''type'', ''severity'', ''description''])
            (dget_or (review_defaults d0) ''findings'' (PList []))) (\<lambda>_. Inr (review_defaults d0))))"
    using False by (simp add: parse_review_output_def Let_def cs_def del: try_parse.simps cong: sum.case_cong)
  have source: "t \<in> set cs \<longleftrightarrow> review_source ?c t" for t
    by (simp add: cs_def review_source_def set_object_candidates)
  note t = try_parse_result [where loads = loads and cs = cs and err = None]
  show ?thesis
  proof (cases "try_parse loads cs None")
    case (Inl err)
    then have "\<not> (\<exists>t d. review_source ?c t \<and> loads t = Inr (PDict d))" using t source by auto
    then have "\<not> (review_text fstr out \<noteq> [] \<and> (\<exists>t d0. review_source ?c t \<and> loads t = Inr (PDict d0)))" by blast
    then show ?thesis unfolding Let_def parse Inl sum.case by (simp only: if_False)
  next
    case (Inr d0)
    then obtain u where u: "review_source ?c u" "loads u = Inr (PDict d0)" using t source by auto
    have returns: "parse_review_output fstr loads out = Inr d \<longleftrightarrow> d = review_defaults d0 \<and> review_ok (review_defaults d0)" for d
      unfolding parse Inr sum.case by (rule review_checks)
    show ?thesis
    proof (cases "parse_review_output fstr loads out")
      case (Inl e)
      then have "\<not> review_ok (review_defaults d0)" using returns by simp
      with u show ?thesis unfolding Let_def Inl sum.case by (auto intro!: exI [of _ u] exI [of _ d0])
    next
      case (Inr d)
      then have "d = review_defaults d0" "review_ok d" using returns [of d] by simp_all
      with u show ?thesis unfolding Let_def Inr sum.case by (intro exI [of _ u] exI [of _ d0] conjI)
    qed
  qed
qed

subsection \<open>Answers with the wrong kind of list\<close>

text \<open>An answer whose requirements are null is no specification, but \<open>parse_spec_output\<close> reports it
  as a \<open>TypeError\<close>: the caller that retries on \<open>ValueError\<close> does not ask again, and the error
  leaves it after the first answer, however many attempts are allowed.\<close>

theorem null_requirements_not_retried:
  assumes "llm (build_spec_prompt fstr summary requirements context spec_type) s = (Inr out, s')"
    and "brace_span out = Some j" "loads j = Inr (PDict d)" "0 < max_retries" "dget d ''requirements'' = PNone"
    and "list_all (has_key d) [''summary'', ''requirements'', ''technical_notes'', ''file_changes'']"
  shows "generate_spec_with_retry fstr loads schema_error llm summary requirements context spec_type max_retries s =
    (Inl (TypeError (repr_string ''NoneType'' @ '' object is not iterable'')), s')"
proof -
  have "dget_or d ''requirements'' (PList []) = PNone" using assms(5, 6) by (auto simp: dget_or_def dget_def has_key_def)
  then have "parse_spec_output loads schema_error True out = Inl (TypeError (repr_string ''NoneType'' @ '' object is not iterable''))"
    using assms(2, 3, 6) by (simp add: parse_spec_output_def check_entries_def)
  moreover obtain n where "nat max_retries = Suc n" using assms(4) by (metis not0_implies_Suc zero_less_nat_eq not_gr_zero)
  ultimately show ?thesis using assms(1)
    by (simp add: generate_spec_with_retry_def spec_attempt_def catchS_def bindS_def liftE_def raiseS_def)
qed

definition null_spec :: dict where
  "null_spec = [(''summary'', PStr ''x''), (''requirements'', PNone), (''technical_notes'', PList []), (''file_changes'', PList [])]"

lemma null_requirements_not_retried_witness:
  "generate_spec_with_retry (\<lambda>_. []) (\<lambda>_. Inr (PDict null_spec)) (\<lambda>_. None) (\<lambda>_ n. (Inr ''{}'', Suc n)) ''x'' [] [] None 3 0 =
     (Inl (TypeError (repr_string ''NoneType'' @ '' object is not iterable'')), Suc 0)"
  by (rule null_requirements_not_retried [where out = "''{}''" and j = "''{}''" and d = null_spec])
    (simp_all add: brace_span_def null_spec_def dget_def has_key_def)

end
