(* ===== verification/ModelCalls.thy ===== *)
theory ModelCalls
  imports ModelOutput
begin

text \<open>
  \<open>agents/llm_wrapper.py\<close>: choosing a wrapper by provider and profile, the router of tasks, the
  fallback over profiles, and the attempts of the wrapper for Qwen Code. Parameters are the
  stores of profiles and secrets, the network behind a wrapper, the token manager, the clock and
  the jitter; \<open>'s\<close> is what they work on and \<open>'w\<close> a wrapper. Logging is left out.
\<close>

subsection \<open>Profiles\<close>

definition text_value :: "pyval \<Rightarrow> string option" where
  "text_value v = (case v of PStr s \<Rightarrow> if py_strip s = [] then None else Some s | _ \<Rightarrow> None)"

text \<open>A candidate: the name of the profile and what is known of its model.\<close>

record profile =
  pr_name :: string
  pr_provider :: string
  pr_model :: "string option"
  pr_api_key :: "string option"
  pr_api_key_ref :: "string option"
  pr_base_url :: "string option"

text \<open>The listed profiles by their stripped names, and the first one marked as the default.\<close>

definition name_profile :: "pyval \<Rightarrow> (string \<times> dict) list \<times> string option \<Rightarrow> (string \<times> dict) list \<times> string option" where
  "name_profile item = (\<lambda>(by_name, default_name).
     case item of
       PDict d \<Rightarrow>
         (case text_value (dget d ''profile_name'') of
            None \<Rightarrow> (by_name, default_name)
          | Some name \<Rightarrow>
              (AList.update (py_strip name) d by_name,
               if truthy (dget d ''is_default'') \<and> default_name = None then Some (py_strip name) else default_name))
     | _ \<Rightarrow> (by_name, default_name))"

definition candidate_of :: "(rat \<Rightarrow> string) \<Rightarrow> (string \<Rightarrow> string option) \<Rightarrow> string \<Rightarrow> pyval \<Rightarrow> profile option" where
  "candidate_of fstr secret name v =
     (case v of
        PDict d \<Rightarrow>
          let provider = py_lower (py_strip (py_str fstr (dget_or d ''provider'' (PStr []))));
              ref = map_option py_strip (text_value (dget d ''api_key_ref'')) in
          if provider = [] then None
          else Some \<lparr>pr_name = name, pr_provider = provider, pr_model = text_value (dget d ''model''),
            pr_api_key = (case ref of None \<Rightarrow> None | Some r \<Rightarrow>
              (case secret r of None \<Rightarrow> None | Some k \<Rightarrow> text_value (PStr k))),
            pr_api_key_ref = ref, pr_base_url = text_value (dget d ''base_url'')\<rparr>
      | _ \<Rightarrow> None)"

definition profile_order :: "string option \<Rightarrow> pyval list \<Rightarrow> string list" where
  "profile_order profile_name listed =
     (let (by_name, default_name) = fold name_profile listed ([], None);
          names = map fst by_name;
          preferred = (case profile_name of None \<Rightarrow> None | Some n \<Rightarrow> if py_strip n = [] then None else Some (py_strip n));
          first = (case preferred of
              Some n \<Rightarrow> if n \<in> set names then Some n else default_name
            | None \<Rightarrow> default_name)
      in case names of
           [] \<Rightarrow> []
         | _ \<Rightarrow> (let f = (case first of Some n \<Rightarrow> n | None \<Rightarrow> hd (sort names)) in f # filter (\<lambda>n. n \<noteq> f) names))"

definition load_profile_candidates ::
  "(rat \<Rightarrow> string) \<Rightarrow> pyval list \<Rightarrow> (string \<Rightarrow> pyval) \<Rightarrow> (string \<Rightarrow> string option) \<Rightarrow> string option \<Rightarrow> profile list" where
  "load_profile_candidates fstr listed get_profile secret profile_name =
     concat (map (\<lambda>n. case candidate_of fstr secret n (get_profile n) of None \<Rightarrow> [] | Some p \<Rightarrow> [p]) (profile_order profile_name listed))"

subsection \<open>The factory of wrappers\<close>

record wrapper_args =
  wa_model :: "string option"
  wa_api_key :: "string option"
  wa_api_key_ref :: "string option"
  wa_base_url :: "string option"
  wa_timeout :: int
  wa_max_retries :: int

text \<open>What is constructed; the constructors only store their arguments. \<open>CustomOpenAI\<close> has the base URL
  of Qwen and reads another variable of the environment.\<close>

datatype wrapper =
    OpenAIWrapper wrapper_args
  | CustomOpenAIWrapper wrapper_args
  | AnthropicWrapper wrapper_args
  | GoogleGenAIWrapper wrapper_args
  | QwenCodeWrapper string string "string option"
  | ProfileFallbackLLMWrapper "profile list" int int

text \<open>Python refuses a keyword that the constructor does not have.\<close>

definition unexpected :: "string \<Rightarrow> string \<Rightarrow> exn" where
  "unexpected cls keyword = TypeError (cls @ ''.__init__() got an unexpected keyword argument '' @ quoted keyword)"

definition without_keywords :: "string \<Rightarrow> string list \<Rightarrow> wrapper_args \<Rightarrow> wrapper \<Rightarrow> exn + wrapper" where
  "without_keywords cls keywords a w =
     (if ''api_key_ref'' \<in> set keywords \<and> wa_api_key_ref a \<noteq> None then Inl (unexpected cls ''api_key_ref'')
      else if ''base_url'' \<in> set keywords \<and> wa_base_url a \<noteq> None then Inl (unexpected cls ''base_url'')
      else Inr w)"

definition qwen_base_url :: string where
  "qwen_base_url = ''https://dashscope.aliyuncs.com/compatible-mode/v1''"

definition or_else :: "string option \<Rightarrow> string option \<Rightarrow> string option" where
  "or_else a b = (case a of Some (c # cs) \<Rightarrow> a | _ \<Rightarrow> (case b of Some (c # cs) \<Rightarrow> b | _ \<Rightarrow> a))"

definition with_profile :: "profile \<Rightarrow> wrapper_args \<Rightarrow> wrapper_args" where
  "with_profile p a =
     a\<lparr>wa_model := or_else (wa_model a) (pr_model p), wa_api_key := or_else (wa_api_key a) (pr_api_key p),
       wa_api_key_ref := or_else (wa_api_key_ref a) (pr_api_key_ref p), wa_base_url := or_else (wa_base_url a) (pr_base_url p)\<rparr>"

definition construct :: "string \<Rightarrow> wrapper_args \<Rightarrow> exn + wrapper" where
  "construct provider a =
     (if provider = ''openai'' then without_keywords ''OpenAIWrapper'' [''api_key_ref''] a (OpenAIWrapper a)
      else if provider = ''anthropic'' then without_keywords ''AnthropicWrapper'' [''api_key_ref'', ''base_url''] a (AnthropicWrapper a)
      else if provider = ''google'' then without_keywords ''GoogleGenAIWrapper'' [''api_key_ref'', ''base_url''] a (GoogleGenAIWrapper a)
      else if provider = ''qwen''
      then without_keywords ''OpenAIWrapper'' [''api_key_ref''] a (CustomOpenAIWrapper (a\<lparr>wa_base_url := or_else (wa_base_url a) (Some qwen_base_url)\<rparr>))
      else if provider = ''qwen-code''
      then (case wa_api_key a of
          None \<Rightarrow> Inl (RuntimeError ''Qwen Code profile is missing OAuth credentials in secret store.'')
        | Some k \<Rightarrow>
            if py_strip k = [] then Inl (RuntimeError ''Qwen Code profile is missing OAuth credentials in secret store.'')
            else Inr (QwenCodeWrapper k (case wa_model a of None \<Rightarrow> ''qwen3-coder-plus'' | Some m \<Rightarrow> m) (wa_api_key_ref a)))
      else Inl (ValueError (''Unknown LLM provider: '' @ provider)))"

text \<open>The candidates and the defaults are what the stores have at the time of the call.\<close>

definition get_llm_wrapper :: "profile list \<Rightarrow> profile option \<Rightarrow> string \<Rightarrow> wrapper_args \<Rightarrow> exn + wrapper option" where
  "get_llm_wrapper candidates defaults provider a =
     (let resolved = py_lower (py_strip provider) in
      if resolved \<noteq> [] then bindE (construct resolved a) (\<lambda>w. Inr (Some w))
      else case candidates of
        _ # _ # _ \<Rightarrow> Inr (Some (ProfileFallbackLLMWrapper candidates (wa_timeout a) (wa_max_retries a)))
      | [p] \<Rightarrow> bindE (construct (pr_provider p) (with_profile p a)) (\<lambda>w. Inr (Some w))
      | [] \<Rightarrow>
          (case defaults of
             None \<Rightarrow> Inr None
           | Some p \<Rightarrow> bindE (construct (pr_provider p) (with_profile p a)) (\<lambda>w. Inr (Some w))))"

subsection \<open>The router\<close>

record route =
  ro_provider :: string
  ro_model :: string
  ro_description :: string

definition model_routing :: "(string \<times> route) list" where
  "model_routing =
     [(''spec'', \<lparr>ro_provider = ''google'', ro_model = ''gemini-2.0-flash'', ro_description = ''Fast spec generation''\<rparr>),
      (''code'', \<lparr>ro_provider = ''openai'', ro_model = ''gpt-4o'', ro_description = ''Strong code generation''\<rparr>),
      (''analysis'', \<lparr>ro_provider = ''anthropic'', ro_model = ''claude-sonnet-4-20250514'', ro_description = ''Deep analysis''\<rparr>),
      (''refactor'', \<lparr>ro_provider = ''google'', ro_model = ''gemini-2.0-flash'', ro_description = ''Fast refactoring''\<rparr>),
      (''review'', \<lparr>ro_provider = ''anthropic'', ro_model = ''claude-sonnet-4-20250514'', ro_description = ''Thorough review''\<rparr>)]"

definition model_routing_fallbacks :: "(string \<times> string) list" where
  "model_routing_fallbacks =
     [(''spec'', ''code''), (''code'', ''analysis''), (''analysis'', ''code''), (''refactor'', ''code''), (''review'', ''analysis'')]"

record router =
  lr_routing :: "(string \<times> route) list"
  lr_fallbacks :: "(string \<times> string) list"
  lr_timeout :: int
  lr_max_retries :: int
  lr_cache :: "(string \<times> wrapper) list"

definition new_router :: "(string \<times> route) list option \<Rightarrow> int \<Rightarrow> int \<Rightarrow> router" where
  "new_router custom_routing timeout max_retries =
     \<lparr>lr_routing = (case custom_routing of Some (r # rs) \<Rightarrow> r # rs | _ \<Rightarrow> model_routing),
      lr_fallbacks = model_routing_fallbacks, lr_timeout = timeout, lr_max_retries = max_retries, lr_cache = []\<rparr>"

definition route_args :: "router \<Rightarrow> string \<Rightarrow> wrapper_args" where
  "route_args r model =
     \<lparr>wa_model = Some model, wa_api_key = None, wa_api_key_ref = None, wa_base_url = None,
      wa_timeout = lr_timeout r, wa_max_retries = lr_max_retries r\<rparr>"

type_synonym wrapper_factory = "string \<Rightarrow> wrapper_args \<Rightarrow> exn + wrapper option"

text \<open>\<open>for_task\<close> calls itself with the fallback of the task; \<open>None\<close> is a call that never returns (in
  Python, a \<open>RecursionError\<close> once the stack is full).\<close>

partial_function (option) for_task :: "wrapper_factory \<Rightarrow> string \<Rightarrow> router \<Rightarrow> ((exn + wrapper) \<times> router) option" where
  "for_task get_wrapper task r =
     (case map_of (lr_routing r) task of
        None \<Rightarrow> Some (Inl (ValueError (''Unknown task: '' @ task @ ''. Available: ['' @ join '', '' (map (repr_string o fst) (lr_routing r)) @ '']'')), r)
      | Some c \<Rightarrow>
          (case map_of (lr_cache r) task of
             Some w \<Rightarrow> Some (Inr w, r)
           | None \<Rightarrow>
               (case get_wrapper (ro_provider c) (route_args r (ro_model c)) of
                  Inl e \<Rightarrow> Some (Inl e, r)
                | Inr (Some w) \<Rightarrow> Some (Inr w, r\<lparr>lr_cache := AList.update task w (lr_cache r)\<rparr>)
                | Inr None \<Rightarrow>
                    (case map_of (lr_fallbacks r) task of
                       None \<Rightarrow> Some (Inl (RuntimeError (''No LLM provider available for task: '' @ task)), r)
                     | Some fallback \<Rightarrow>
                         if fallback = [] then Some (Inl (RuntimeError (''No LLM provider available for task: '' @ task)), r)
                         else for_task get_wrapper fallback r))))"

definition for_model :: "wrapper_factory \<Rightarrow> string \<Rightarrow> string \<Rightarrow> router \<Rightarrow> (exn + wrapper) \<times> router" where
  "for_model get_wrapper provider model r =
     (let key = provider @ '':'' @ model in
      case map_of (lr_cache r) key of
        Some w \<Rightarrow> (Inr w, r)
      | None \<Rightarrow>
          (case get_wrapper provider (route_args r model) of
             Inl e \<Rightarrow> (Inl e, r)
           | Inr None \<Rightarrow> (Inl (RuntimeError (''Failed to create wrapper for '' @ provider @ ''/'' @ model)), r)
           | Inr (Some w) \<Rightarrow> (Inr w, r\<lparr>lr_cache := AList.update key w (lr_cache r)\<rparr>)))"

definition set_custom_route :: "string \<Rightarrow> string \<Rightarrow> string \<Rightarrow> string \<Rightarrow> router \<Rightarrow> router" where
  "set_custom_route task provider model description r =
     r\<lparr>lr_routing := AList.update task
         \<lparr>ro_provider = provider, ro_model = model,
          ro_description = (if description = [] then ''Custom: '' @ provider @ ''/'' @ model else description)\<rparr> (lr_routing r),
       lr_cache := dict_pop task (lr_cache r)\<rparr>"

definition close_all :: "router \<Rightarrow> router" where
  "close_all r = r\<lparr>lr_cache := []\<rparr>"

subsection \<open>The fallback over profiles\<close>

text \<open>The network behind the wrappers: \<open>fe_refresh\<close> is \<open>_try_refresh_qwen_oauth\<close>, which never raises,
  \<open>fe_stream\<close> gives the pieces that a stream yields and the error it ends with, if it does.\<close>

record 's fallback_env =
  fe_candidates :: "profile list"
  fe_defaults :: "profile option"
  fe_timeout :: int
  fe_max_retries :: int
  fe_refresh :: "wrapper \<Rightarrow> 's \<Rightarrow> 's"
  fe_complete :: "wrapper \<Rightarrow> string \<Rightarrow> ('s, string) st"
  fe_stream :: "wrapper \<Rightarrow> string \<Rightarrow> 's \<Rightarrow> (string list \<times> exn option) \<times> 's"
  fe_close :: "wrapper \<Rightarrow> 's \<Rightarrow> 's"

definition profile_args :: "'s fallback_env \<Rightarrow> profile \<Rightarrow> wrapper_args" where
  "profile_args env p =
     \<lparr>wa_model = map_option py_strip (pr_model p), wa_api_key = pr_api_key p,
      wa_api_key_ref = (if pr_provider p = ''qwen-code'' then pr_api_key_ref p else None),
      wa_base_url = map_option py_strip (pr_base_url p), wa_timeout = fe_timeout env, wa_max_retries = fe_max_retries env\<rparr>"

definition build_wrapper_for_profile :: "'s fallback_env \<Rightarrow> profile \<Rightarrow> ('s, wrapper) st" where
  "build_wrapper_for_profile env p =
     (if pr_provider p = [] then raiseS (RuntimeError ''LLM profile has no provider'')
      else bindS (liftE (get_llm_wrapper (fe_candidates env) (fe_defaults env) (pr_provider p) (profile_args env p))) (\<lambda>w.
        case w of
          None \<Rightarrow> raiseS (RuntimeError (''LLM wrapper unavailable for provider '' @ quoted (pr_provider p)))
        | Some w \<Rightarrow> seqS (modifyS (fe_refresh env w)) (returnS w)))"

definition profile_name :: "profile \<Rightarrow> string" where
  "profile_name p = (if py_strip (pr_name p) = [] then pr_provider p else py_strip (pr_name p))"

definition profile_error :: "profile \<Rightarrow> exn \<Rightarrow> string" where
  "profile_error p e = profile_name p @ '': '' @ take 220 (exn_str e)"

text \<open>The call of one profile: a wrapper that was built is closed whatever the call does.\<close>

definition profile_call :: "'s fallback_env \<Rightarrow> string \<Rightarrow> profile \<Rightarrow> ('s, string) st" where
  "profile_call env prompt p =
     bindS (build_wrapper_for_profile env p) (\<lambda>w s.
       case fe_complete env w prompt s of (r, s') \<Rightarrow> (r, fe_close env w s'))"

definition all_failed :: "string \<Rightarrow> string list \<Rightarrow> exn" where
  "all_failed head errors =
     RuntimeError (head @ (if errors = [] then ''No profile candidates available.'' else join '' | '' errors))"

fun complete_profiles :: "'s fallback_env \<Rightarrow> string \<Rightarrow> profile list \<Rightarrow> string list \<Rightarrow> ('s, string) st" where
  "complete_profiles env prompt [] errors = raiseS (all_failed ''All configured LLM profiles failed. '' errors)"
| "complete_profiles env prompt (p # ps) errors =
     catchS (profile_call env prompt p) (\<lambda>e. complete_profiles env prompt ps (errors @ [profile_error p e]))"

definition fallback_complete :: "'s fallback_env \<Rightarrow> string \<Rightarrow> ('s, string) st" where
  "fallback_complete env prompt = complete_profiles env prompt (fe_candidates env) []"

definition profile_stream :: "'s fallback_env \<Rightarrow> string \<Rightarrow> profile \<Rightarrow> 's \<Rightarrow> (string list \<times> exn option) \<times> 's" where
  "profile_stream env prompt p s =
     (case build_wrapper_for_profile env p s of
        (Inl e, s') \<Rightarrow> (([], Some e), s')
      | (Inr w, s') \<Rightarrow> (case fe_stream env w prompt s' of (r, s2) \<Rightarrow> (r, fe_close env w s2)))"

text \<open>What the generator yields: the pieces of every profile tried, in order.\<close>

fun stream_profiles ::
  "'s fallback_env \<Rightarrow> string \<Rightarrow> profile list \<Rightarrow> string list \<Rightarrow> 's \<Rightarrow> (string list \<times> exn option) \<times> 's" where
  "stream_profiles env prompt [] errors s =
     (([], Some (all_failed ''All configured LLM profiles failed in stream mode. '' errors)), s)"
| "stream_profiles env prompt (p # ps) errors s =
     (case profile_stream env prompt p s of
        ((chunks, None), s') \<Rightarrow> ((chunks, None), s')
      | ((chunks, Some e), s') \<Rightarrow>
          (case stream_profiles env prompt ps (errors @ [profile_error p e]) s' of
             ((pieces, ending), s2) \<Rightarrow> ((chunks @ pieces, ending), s2)))"

definition fallback_stream :: "'s fallback_env \<Rightarrow> string \<Rightarrow> 's \<Rightarrow> (string list \<times> exn option) \<times> 's" where
  "fallback_stream env prompt = stream_profiles env prompt (fe_candidates env) []"

subsection \<open>Attempts of Qwen Code\<close>

text \<open>What a call does that can be seen from outside, in order: it asks the provider for an answer
  at once or for a stream, or it sleeps.\<close>

datatype qwen_event = Ask | AskStream | Sleep rat

record 's qwen =
  qw_tick :: nat
  qw_failure_until :: "(string \<times> rat) list"
  qw_trace :: "qwen_event list"
  qw_world :: 's

text \<open>The credentials are those of the token manager, \<open>qe_valid\<close> being its \<open>get_valid_credentials\<close>; a
  request without a stream gives the text of the first choice, if there is one, one with a stream
  the pieces that are not empty. \<open>qe_status\<close> is the integer status code of an error, if it has
  one, and \<open>qe_uniform\<close> a number from 0 to 1.\<close>

record 's qwen_env =
  qe_time :: "nat \<Rightarrow> rat"
  qe_uniform :: "nat \<Rightarrow> rat"
  qe_credentials :: "'s \<Rightarrow> dict"
  qe_valid :: "('s, dict) st"
  qe_create :: "string \<Rightarrow> string \<Rightarrow> string \<Rightarrow> ('s, string option) st"
  qe_stream :: "string \<Rightarrow> string \<Rightarrow> string \<Rightarrow> ('s, string list) st"
  qe_status :: "exn \<Rightarrow> int option"
  qe_connection_error :: "exn \<Rightarrow> bool"
  qe_fstr :: "rat \<Rightarrow> string"
  qe_model :: string

definition tail8 :: "'s qwen_env \<Rightarrow> pyval \<Rightarrow> string" where
  "tail8 env v = (if truthy v then let t = py_str (qe_fstr env) v in drop (length t - 8) t else [])"

definition auth_failure_fingerprint :: "'s qwen_env \<Rightarrow> 's qwen \<Rightarrow> string" where
  "auth_failure_fingerprint env q =
     (let d = qe_credentials env (qw_world q) in
      tail8 env (dget d ''refresh_token'') @ '':'' @ tail8 env (dget d ''access_token''))"

definition is_auth_error_message :: "string \<Rightarrow> bool" where
  "is_auth_error_message message \<longleftrightarrow>
     list_ex (\<lambda>k. contains k (py_lower message))
       [''invalid_api_key'', ''authenticationerror'', ''access token expired'', ''status code: 401'', ''error code: 401'']"

definition read_time :: "'s qwen_env \<Rightarrow> ('s qwen, rat) st" where
  "read_time env q = (Inr (qe_time env (qw_tick q)), q\<lparr>qw_tick := Suc (qw_tick q)\<rparr>)"

definition mark_auth_failure :: "'s qwen_env \<Rightarrow> ('s qwen, unit) st" where
  "mark_auth_failure env =
     bindS (read_time env) (\<lambda>now. modifyS (\<lambda>q.
       q\<lparr>qw_failure_until := AList.update (auth_failure_fingerprint env q) (now + 300) (qw_failure_until q)\<rparr>))"

definition raise_if_auth_cooldown :: "'s qwen_env \<Rightarrow> ('s qwen, unit) st" where
  "raise_if_auth_cooldown env =
     bindS (getS (\<lambda>q. case map_of (qw_failure_until q) (auth_failure_fingerprint env q) of None \<Rightarrow> 0 | Some t \<Rightarrow> t)) (\<lambda>until.
     bindS (read_time env) (\<lambda>now.
       if until > now
       then raiseS (RuntimeError (''Qwen Code auth cooldown active ('' @ int_str \<lfloor>until - now\<rfloor>
         @ ''s remaining). Update llm.qwen-code.api_key secret.''))
       else returnS ()))"

definition worldS :: "('s, 'a) st \<Rightarrow> ('s qwen, 'a) st" where
  "worldS m q = (case m (qw_world q) of (r, s') \<Rightarrow> (r, q\<lparr>qw_world := s'\<rparr>))"

definition askS :: "qwen_event \<Rightarrow> ('s, 'a) st \<Rightarrow> ('s qwen, 'a) st" where
  "askS ev m = seqS (modifyS (\<lambda>q. q\<lparr>qw_trace := qw_trace q @ [ev]\<rparr>)) (worldS m)"

definition nonempty_text :: "pyval \<Rightarrow> bool" where
  "nonempty_text v = (case v of PStr (c # cs) \<Rightarrow> True | _ \<Rightarrow> False)"

text \<open>The client is its access token: an error of the refresh is forgiven when there is a token.\<close>

definition qwen_client :: "'s qwen_env \<Rightarrow> ('s qwen, string) st" where
  "qwen_client env =
     bindS (catchS (worldS (qe_valid env)) (\<lambda>e.
         case e of
           RuntimeError m \<Rightarrow>
             bindS (getS (\<lambda>q. qe_credentials env (qw_world q))) (\<lambda>d.
               if nonempty_text (dget d ''access_token'') then returnS d else raiseS e)
         | _ \<Rightarrow> raiseS e)) (\<lambda>d.
       case dget d ''access_token'' of
         PStr (c # cs) \<Rightarrow> returnS (c # cs)
       | _ \<Rightarrow> raiseS (RuntimeError ''Qwen OAuth access_token is missing''))"

definition complete_streamed :: "'s qwen_env \<Rightarrow> string \<Rightarrow> string \<Rightarrow> exn option \<Rightarrow> ('s qwen, string) st" where
  "complete_streamed env client prompt err =
     bindS (askS AskStream (qe_stream env client (qe_model env) prompt)) (\<lambda>chunks.
       let t = py_strip (concat chunks) in
       if t \<noteq> [] then returnS t
       else raiseS (case err of Some e \<Rightarrow> e | None \<Rightarrow> RuntimeError ''Empty response body from Qwen Code API''))"

definition complete_once :: "'s qwen_env \<Rightarrow> string \<Rightarrow> string \<Rightarrow> ('s qwen, string) st" where
  "complete_once env client prompt q =
     (case askS Ask (qe_create env client (qe_model env) prompt) q of
        (Inl e, q') \<Rightarrow> complete_streamed env client prompt (Some e) q'
      | (Inr content, q') \<Rightarrow>
          (let t = (case content of None \<Rightarrow> [] | Some c \<Rightarrow> py_strip c) in
           if t \<noteq> [] then (Inr t, q') else complete_streamed env client prompt None q'))"

definition is_non_retryable_status :: "int option \<Rightarrow> bool" where
  "is_non_retryable_status c \<longleftrightarrow> c \<in> {Some 400, Some 401, Some 403}"

definition is_retryable_status :: "int option \<Rightarrow> bool" where
  "is_retryable_status c = (case c of None \<Rightarrow> False | Some n \<Rightarrow> n = 429 \<or> n \<ge> 500)"

definition is_retryable_exception :: "'s qwen_env \<Rightarrow> exn \<Rightarrow> bool" where
  "is_retryable_exception env e \<longleftrightarrow>
     (case e of TimeoutError _ \<Rightarrow> True | _ \<Rightarrow> False) \<or> qe_connection_error env e \<or>
     list_ex (\<lambda>k. contains k (py_lower (exn_str e))) [''timeout'', ''timed out'', ''connection reset'', ''connection aborted'']"

definition retryable :: "'s qwen_env \<Rightarrow> exn \<Rightarrow> bool" where
  "retryable env e \<longleftrightarrow>
     \<not> is_non_retryable_status (qe_status env e) \<and>
     (contains ''empty response body'' (py_lower (exn_str e)) \<or> is_retryable_status (qe_status env e) \<or> is_retryable_exception env e)"

definition backoff_with_jitter :: "'s qwen_env \<Rightarrow> nat \<Rightarrow> nat \<Rightarrow> rat" where
  "backoff_with_jitter env tick attempt =
     (let base = min 8 (2 ^ (attempt - 1)) in min 30 (base + qe_uniform env tick * (base * (3 / 10))))"

definition sleep_before_retry :: "'s qwen_env \<Rightarrow> nat \<Rightarrow> ('s qwen, unit) st" where
  "sleep_before_retry env attempt =
     modifyS (\<lambda>q. q\<lparr>qw_tick := Suc (qw_tick q), qw_trace := qw_trace q @ [Sleep (backoff_with_jitter env (qw_tick q) attempt)]\<rparr>)"

definition call_failed :: "exn \<Rightarrow> exn" where
  "call_failed e = RuntimeError (''Qwen Code API call failed: '' @ exn_str e)"

text \<open>The attempts from number \<open>i\<close> on, \<open>n\<close> more after this one.\<close>

fun qwen_attempts :: "'s qwen_env \<Rightarrow> string \<Rightarrow> string \<Rightarrow> nat \<Rightarrow> nat \<Rightarrow> ('s qwen, string) st" where
  "qwen_attempts env client prompt i n =
     catchS (complete_once env client prompt) (\<lambda>e.
       if is_auth_error_message (exn_str e)
       then seqS (mark_auth_failure env) (raiseS (RuntimeError (''Qwen Code authentication failed: '' @ exn_str e)))
       else if \<not> retryable env e then raiseS (call_failed e)
       else (case n of
               0 \<Rightarrow> raiseS (call_failed e)
             | Suc m \<Rightarrow> seqS (sleep_before_retry env i) (qwen_attempts env client prompt (Suc i) m)))"

declare qwen_attempts.simps [simp del]

definition qwen_complete :: "'s qwen_env \<Rightarrow> int \<Rightarrow> string \<Rightarrow> ('s qwen, string) st" where
  "qwen_complete env max_retries prompt =
     seqS (raise_if_auth_cooldown env)
       (bindS (qwen_client env) (\<lambda>client. qwen_attempts env client prompt 1 (nat (max 1 max_retries) - 1)))"

subsection \<open>Named providers and the fallback of the router\<close>

lemma for_task_known:
  assumes "map_of (lr_routing r) task = Some c" "map_of (lr_cache r) task = None"
  shows "for_task get_wrapper task r =
    (case get_wrapper (ro_provider c) (route_args r (ro_model c)) of
       Inl e \<Rightarrow> Some (Inl e, r)
     | Inr (Some w) \<Rightarrow> Some (Inr w, r\<lparr>lr_cache := AList.update task w (lr_cache r)\<rparr>)
     | Inr None \<Rightarrow>
         (case map_of (lr_fallbacks r) task of
            None \<Rightarrow> Some (Inl (RuntimeError (''No LLM provider available for task: '' @ task)), r)
          | Some fallback \<Rightarrow>
              if fallback = [] then Some (Inl (RuntimeError (''No LLM provider available for task: '' @ task)), r)
              else for_task get_wrapper fallback r))"
  using assms by (subst for_task.simps) simp

text \<open>The factory only finds no wrapper when no provider is named, so a route that names one is never
  replaced by its fallback: an error of its construction is the answer.\<close>

lemma named_provider_no_fallback:
  assumes "map_of (lr_routing r) task = Some c" "map_of (lr_cache r) task = None" "py_strip (ro_provider c) \<noteq> []"
  shows "for_task (get_llm_wrapper candidates defaults) task r =
    (case construct (py_lower (py_strip (ro_provider c))) (route_args r (ro_model c)) of
       Inl e \<Rightarrow> Some (Inl e, r)
     | Inr w \<Rightarrow> Some (Inr w, r\<lparr>lr_cache := AList.update task w (lr_cache r)\<rparr>))"
  using assms(3) unfolding for_task_known [OF assms(1, 2)]
  by (simp add: get_llm_wrapper_def Let_def bindE_def split: sum.splits)

text \<open>A single profile with a reference to its key is refused by every provider but Qwen Code.\<close>

lemma single_profile_with_ref:
  assumes "pr_provider p \<in> {''openai'', ''anthropic'', ''google'', ''qwen''}" "pr_api_key_ref p = Some (c # cs)"
    and "py_strip provider = []"
  shows "\<exists>m. get_llm_wrapper [p] defaults provider a = Inl (TypeError m)"
proof -
  let ?a = "with_profile p a"
  have "wa_api_key_ref ?a \<noteq> None"
    using assms(2) by (simp add: with_profile_def or_else_def split: option.splits list.splits)
  then have refused: "\<exists>m. without_keywords cls (''api_key_ref'' # ks) ?a w = Inl (TypeError m)" for cls ks w
    by (simp add: without_keywords_def unexpected_def)
  have "\<exists>m. construct (pr_provider p) ?a = Inl (TypeError m)"
    using assms(1) refused unfolding construct_def by (elim insertE emptyE) simp_all
  then show ?thesis using assms(3) by (auto simp: get_llm_wrapper_def Let_def)
qed

definition no_provider :: "wrapper_factory \<Rightarrow> router \<Rightarrow> bool" where
  "no_provider get_wrapper r \<longleftrightarrow> lr_fallbacks r = model_routing_fallbacks \<and>
     list_all (\<lambda>t. map_of (lr_cache r) t = None \<and>
       (case map_of (lr_routing r) t of
          Some c \<Rightarrow> get_wrapper (ro_provider c) (route_args r (ro_model c)) = Inr None
        | None \<Rightarrow> False)) [''code'', ''analysis'']"

lemma no_provider_fallback:
  assumes "no_provider get_wrapper r" "task = ''code'' \<or> task = ''analysis''"
  obtains c f where "map_of (lr_routing r) task = Some c" "map_of (lr_cache r) task = None"
    "get_wrapper (ro_provider c) (route_args r (ro_model c)) = Inr None"
    "map_of (lr_fallbacks r) task = Some f" "f \<noteq> []" "f = ''code'' \<or> f = ''analysis''"
  using assms by (auto simp: no_provider_def model_routing_fallbacks_def split: option.splits)

lemma for_task_returns:
  assumes "for_task get_wrapper task r = Some y"
  shows "\<not> (no_provider get_wrapper r \<and> (task = ''code'' \<or> task = ''analysis''))"
proof (rule for_task.raw_induct [OF _ assms, where P = "\<lambda>g t r y. \<not> (no_provider g r \<and> (t = ''code'' \<or> t = ''analysis''))"],
    intro notI, elim conjE, goal_cases)
  case (1 call get_wrapper task r y)
  obtain c f where c: "map_of (lr_routing r) task = Some c" "map_of (lr_cache r) task = None"
    "get_wrapper (ro_provider c) (route_args r (ro_model c)) = Inr None" "map_of (lr_fallbacks r) task = Some f" "f \<noteq> []"
    and f: "f = ''code'' \<or> f = ''analysis''"
    using 1(3, 4) by (rule no_provider_fallback)
  have "call get_wrapper f r = Some y" using 1(2) unfolding c option.case sum.case if_not_P [OF c(5)] by assumption
  then have "\<not> (no_provider get_wrapper r \<and> (f = ''code'' \<or> f = ''analysis''))" by (rule 1(1))
  with 1(3) f show False by blast
qed

text \<open>When neither the route of code nor that of analysis leads to a wrapper, asking the router for
  either never returns: each is the other's fallback, and the error for a task without a provider
  is not reached.\<close>

theorem router_never_gives_up:
  assumes "no_provider get_wrapper r" "task = ''code'' \<or> task = ''analysis''"
  shows "for_task get_wrapper task r = None"
  using for_task_returns [of get_wrapper task r] assms by (cases "for_task get_wrapper task r") blast+

lemma router_never_gives_up_witness:
  "for_task (get_llm_wrapper [] None) ''code''
     (set_custom_route ''code'' [] ''m'' [] (set_custom_route ''analysis'' [] ''m'' [] (new_router None 60 3))) = None"
  by (rule router_never_gives_up)
    (simp_all add: no_provider_def set_custom_route_def new_router_def model_routing_def get_llm_wrapper_def dict_pop_def)

subsection \<open>What a failing stream leaves behind\<close>

text \<open>When the first profile's stream breaks off and the second one's ends well, the caller gets the
  pieces of both.\<close>

lemma stream_fallback_repeats:
  assumes "fe_candidates env = p # p2 # ps" "profile_stream env prompt p s = ((chunks, Some e), s1)"
    and "profile_stream env prompt p2 s1 = ((chunks2, None), s2)"
  shows "fallback_stream env prompt s = ((chunks @ chunks2, None), s2)"
  using assms by (simp add: fallback_stream_def)

subsection \<open>The attempts of Qwen Code\<close>

lemma worldS_frame:
  assumes "worldS m q = (r, q')"
  shows "qw_tick q' = qw_tick q" "qw_trace q' = qw_trace q" "qw_failure_until q' = qw_failure_until q"
  using assms by (auto simp: worldS_def split: prod.splits)

lemma askS_frame:
  assumes "askS ev m q = (r, q')"
  shows "qw_tick q' = qw_tick q \<and> qw_trace q' = qw_trace q @ [ev] \<and> qw_failure_until q' = qw_failure_until q"
proof -
  have "worldS m (q\<lparr>qw_trace := qw_trace q @ [ev]\<rparr>) = (r, q')"
    using assms by (simp add: askS_def seqS_def bindS_def modifyS_def)
  from worldS_frame [OF this] show ?thesis by simp
qed

lemma complete_streamed_frame:
  assumes "complete_streamed env client prompt err q = (r, q')"
  shows "qw_tick q' = qw_tick q \<and> qw_trace q' = qw_trace q @ [AskStream] \<and> qw_failure_until q' = qw_failure_until q \<and> r \<noteq> Inr []"
proof -
  obtain r1 q1 where 1: "askS AskStream (qe_stream env client (qe_model env) prompt) q = (r1, q1)" by fastforce
  with assms askS_frame [OF 1] show ?thesis
    by (auto simp: complete_streamed_def bindS_def returnS_def raiseS_def Let_def split: sum.splits if_splits)
qed

text \<open>An attempt that fails has asked for an answer and then for a stream.\<close>

lemma complete_once_frame:
  assumes "complete_once env client prompt q = (r, q')"
  shows "qw_tick q' = qw_tick q \<and> qw_failure_until q' = qw_failure_until q \<and> r \<noteq> Inr [] \<and>
    (qw_trace q' = qw_trace q @ [Ask, AskStream] \<or> (\<exists>t. r = Inr t) \<and> qw_trace q' = qw_trace q @ [Ask])"
proof -
  obtain r1 q1 where 1: "askS Ask (qe_create env client (qe_model env) prompt) q = (r1, q1)" by fastforce
  note f = askS_frame [OF 1]
  consider (given) t where "r = Inr t" "t \<noteq> []" "q' = q1" | (stream) err where "complete_streamed env client prompt err q1 = (r, q')"
    using assms 1 by (auto simp: complete_once_def Let_def split: sum.splits if_splits)
  then show ?thesis
  proof cases
    case given
    with f show ?thesis by simp
  next
    case stream
    from complete_streamed_frame [OF this] f show ?thesis by simp
  qed
qed

lemma mark_auth_failure_run:
  "mark_auth_failure env q = (Inr (), q\<lparr>qw_tick := Suc (qw_tick q),
     qw_failure_until := AList.update (auth_failure_fingerprint env q) (qe_time env (qw_tick q) + 300) (qw_failure_until q)\<rparr>)"
  by (simp add: mark_auth_failure_def bindS_def read_time_def modifyS_def auth_failure_fingerprint_def)

lemma sleep_before_retry_run:
  "sleep_before_retry env i q =
     (Inr (), q\<lparr>qw_tick := Suc (qw_tick q), qw_trace := qw_trace q @ [Sleep (backoff_with_jitter env (qw_tick q) i)]\<rparr>)"
  by (simp add: sleep_before_retry_def modifyS_def)

text \<open>The four ways an attempt can go.\<close>

lemma qwen_attempt_cases:
  assumes "qwen_attempts env client prompt i n q = (r, q')"
  obtains (answer) t where "complete_once env client prompt q = (Inr t, q')" "r = Inr t"
  | (auth) e q1 where "complete_once env client prompt q = (Inl e, q1)"
      "r = Inl (RuntimeError (''Qwen Code authentication failed: '' @ exn_str e))"
      "q' = q1\<lparr>qw_tick := Suc (qw_tick q1),
         qw_failure_until := AList.update (auth_failure_fingerprint env q1) (qe_time env (qw_tick q1) + 300) (qw_failure_until q1)\<rparr>"
  | (failed) e where "complete_once env client prompt q = (Inl e, q')" "r = Inl (call_failed e)"
  | (again) e q1 m where "complete_once env client prompt q = (Inl e, q1)" "n = Suc m"
      "qwen_attempts env client prompt (Suc i) m
         (q1\<lparr>qw_tick := Suc (qw_tick q1), qw_trace := qw_trace q1 @ [Sleep (backoff_with_jitter env (qw_tick q1) i)]\<rparr>) = (r, q')"
proof -
  obtain r1 q1 where once: "complete_once env client prompt q = (r1, q1)" by fastforce
  show thesis
  proof (cases r1)
    case (Inr t)
    then have "r = Inr t" "q1 = q'" using once assms by (simp_all add: qwen_attempts.simps [of env client prompt i n] catchS_def)
    with once Inr show thesis by (intro answer [of t]) simp_all
  next
    case (Inl e)
    note step = assms [unfolded qwen_attempts.simps [of env client prompt i n] catchS_def once Inl prod.case sum.case]
    show thesis
    proof (cases "is_auth_error_message (exn_str e)")
      case True
      with step once Inl auth show thesis by (simp add: seqS_def bindS_def mark_auth_failure_run raiseS_def)
    next
      case no_auth: False
      show thesis
      proof (cases "retryable env e \<and> n \<noteq> 0")
        case True
        then obtain m where "n = Suc m" by (cases n) auto
        with True no_auth step once Inl again show thesis by (simp add: seqS_def bindS_def sleep_before_retry_run)
      next
        case False
        with no_auth step once Inl failed show thesis by (cases n) (auto simp: raiseS_def split: if_splits)
      qed
    qed
  qed
qed

text \<open>The events of some attempts that fail, each followed by its wait, and of a last one.\<close>

definition attempts_events :: "rat list \<Rightarrow> bool \<Rightarrow> qwen_event list" where
  "attempts_events ws streamed = concat (map (\<lambda>w. [Ask, AskStream, Sleep w]) ws) @ (if streamed then [Ask, AskStream] else [Ask])"

lemma qwen_attempts_events:
  assumes "qwen_attempts env client prompt i n q = (r, q')"
  shows "\<exists>ws streamed. qw_trace q' = qw_trace q @ attempts_events ws streamed \<and> length ws \<le> n \<and> r \<noteq> Inr [] \<and>
    (streamed \<or> (\<exists>t. r = Inr t)) \<and> (\<forall>k < length ws. \<exists>tick. ws ! k = backoff_with_jitter env tick (i + k))"
  using assms
proof (induction n arbitrary: i q)
  case 0
  then show ?case
  proof (cases rule: qwen_attempt_cases)
    case (answer t)
    from complete_once_frame [OF answer(1)] answer(2) show ?thesis
      by (intro exI [of _ "[]"]) (auto simp: attempts_events_def)
  next
    case (auth e q1)
    from complete_once_frame [OF auth(1)] auth(2,3) show ?thesis
      by (intro exI [of _ "[]"] exI [of _ True]) (auto simp: attempts_events_def)
  next
    case (failed e)
    from complete_once_frame [OF failed(1)] failed(2) show ?thesis
      by (intro exI [of _ "[]"] exI [of _ True]) (auto simp: attempts_events_def)
  qed auto
next
  case (Suc n)
  from Suc.prems show ?case
  proof (cases rule: qwen_attempt_cases)
    case (answer t)
    from complete_once_frame [OF answer(1)] answer(2) show ?thesis
      by (intro exI [of _ "[]"]) (auto simp: attempts_events_def)
  next
    case (auth e q1)
    from complete_once_frame [OF auth(1)] auth(2,3) show ?thesis
      by (intro exI [of _ "[]"] exI [of _ True]) (auto simp: attempts_events_def)
  next
    case (failed e)
    from complete_once_frame [OF failed(1)] failed(2) show ?thesis
      by (intro exI [of _ "[]"] exI [of _ True]) (auto simp: attempts_events_def)
  next
    case (again e q1 m)
    then have "m = n" by simp
    let ?w = "backoff_with_jitter env (qw_tick q1) i"
    from Suc.IH [OF again(3) [unfolded \<open>m = n\<close>]] obtain ws streamed where
      ws: "qw_trace q' = (qw_trace q1 @ [Sleep ?w]) @ attempts_events ws streamed" "length ws \<le> n" "r \<noteq> Inr []"
      "streamed \<or> (\<exists>t. r = Inr t)" "\<forall>k < length ws. \<exists>tick. ws ! k = backoff_with_jitter env tick (Suc i + k)"
      by auto
    have "qw_trace q1 = qw_trace q @ [Ask, AskStream]" using complete_once_frame [OF again(1)] by auto
    then have "qw_trace q' = qw_trace q @ attempts_events (?w # ws) streamed" using ws(1) by (simp add: attempts_events_def)
    with ws(2-5) show ?thesis
      by (intro exI [of _ "?w # ws"] exI [of _ streamed]) (auto simp: All_less_Suc2)
  qed
qed

lemma backoff_bounds:
  assumes "0 \<le> qe_uniform env tick" "qe_uniform env tick \<le> 1"
  shows "min 8 (2 ^ (i - 1)) \<le> backoff_with_jitter env tick i \<and> backoff_with_jitter env tick i \<le> 13 / 10 * min 8 (2 ^ (i - 1))"
proof -
  define b :: rat where "b = min 8 (2 ^ (i - 1))"
  have b: "0 \<le> b" "b \<le> 8" by (simp_all add: b_def)
  define c where "c = qe_uniform env tick * (b * (3 / 10))"
  have c: "0 \<le> c" "c \<le> b * (3 / 10)"
    using assms b(1) mult_right_mono [OF assms(2), of "b * (3 / 10)"] by (simp_all add: c_def)
  show ?thesis using b c unfolding backoff_with_jitter_def Let_def b_def [symmetric] c_def [symmetric] by (simp add: min_def)
qed


text \<open>A connection that fails whatever is asked; the state behind it counts the requests.\<close>

definition failing_env :: "(exn \<Rightarrow> int option) \<Rightarrow> string \<Rightarrow> nat qwen_env" where
  "failing_env status message =
     \<lparr>qe_time = rat_of_nat, qe_uniform = (\<lambda>_. 1 / 2), qe_credentials = (\<lambda>_. [(''access_token'', PStr ''t'')]),
      qe_valid = returnS [(''access_token'', PStr ''t'')], qe_create = (\<lambda>_ _ _ n. (Inl (RuntimeError message), Suc n)),
      qe_stream = (\<lambda>_ _ _ n. (Inl (RuntimeError message), Suc n)), qe_status = status,
      qe_connection_error = (\<lambda>_. False), qe_fstr = (\<lambda>_. []), qe_model = ''m''\<rparr>"

definition new_qwen :: "nat qwen" where
  "new_qwen = \<lparr>qw_tick = 0, qw_failure_until = [], qw_trace = [], qw_world = 0\<rparr>"

lemma failing_complete_once:
  "complete_once (failing_env status message) client prompt q =
     (Inl (RuntimeError message), q\<lparr>qw_trace := qw_trace q @ [Ask, AskStream], qw_world := Suc (Suc (qw_world q))\<rparr>)"
  by (simp add: complete_once_def complete_streamed_def askS_def seqS_def modifyS_def worldS_def failing_env_def bindS_def)


lemma qwen_auth_failure:
  assumes "qwen_attempts env client prompt i n q = (Inl (RuntimeError (''Qwen Code authentication failed: '' @ m)), q')"
  shows "map_of (qw_failure_until q') (auth_failure_fingerprint env q') = Some (qe_time env (qw_tick q' - 1) + 300)"
  using assms
proof (induction n arbitrary: i q)
  case (Suc n)
  from Suc.prems show ?case
  proof (cases rule: qwen_attempt_cases)
    case (auth e q1)
    then show ?thesis by (simp add: auth_failure_fingerprint_def)
  next
    case (again e q1 k)
    then have "k = n" by simp
    from Suc.IH [OF again(3) [unfolded this]] show ?thesis .
  qed (auto simp: call_failed_def)
next
  case 0
  then show ?case
  proof (cases rule: qwen_attempt_cases)
    case (auth e q1)
    then show ?thesis by (simp add: auth_failure_fingerprint_def)
  qed (auto simp: call_failed_def)
qed

text \<open>C39: The provider has refused the credentials of an attempt of \<open>complete\<close>. In every later state in
  which the credentials and what is remembered of refusals are the same, for 300 seconds
  after the refusal has been recorded, every call of \<open>complete\<close> ends with an error before a
  client is made, and changes nothing but that it reads the clock. (\<open>complete_stream\<close> makes
  its client without this check.)\<close>

theorem auth_failure_cools_down:
  assumes "qwen_attempts env client prompt i n q = (Inl (RuntimeError (''Qwen Code authentication failed: '' @ m)), q1)"
    and "qw_failure_until q2 = qw_failure_until q1" "auth_failure_fingerprint env q2 = auth_failure_fingerprint env q1"
    and "qe_time env (qw_tick q2) < qe_time env (qw_tick q1 - 1) + 300"
  shows "\<exists>message. qwen_complete env max_retries prompt2 q2 = (Inl (RuntimeError message), q2\<lparr>qw_tick := Suc (qw_tick q2)\<rparr>)"
  using qwen_auth_failure [OF assms(1)] assms(2-4)
  by (simp add: qwen_complete_def raise_if_auth_cooldown_def seqS_def bindS_def getS_def read_time_def raiseS_def)

lemma auth_failure_cools_down_witness:
  "\<exists>q1 message. qwen_attempts (failing_env (\<lambda>_. Some 401) ''invalid_api_key'') ''t'' ''p'' 1 2 new_qwen =
       (Inl (RuntimeError (''Qwen Code authentication failed: '' @ ''invalid_api_key'')), q1) \<and>
     qwen_complete (failing_env (\<lambda>_. Some 401) ''invalid_api_key'') 3 ''p'' q1 =
       (Inl (RuntimeError message), q1\<lparr>qw_tick := Suc (qw_tick q1)\<rparr>)"
proof -
  let ?env = "failing_env (\<lambda>_. Some 401) ''invalid_api_key''"
  have auth: "is_auth_error_message (exn_str (RuntimeError ''invalid_api_key''))" by code_simp
  obtain q1 where run: "qwen_attempts ?env ''t'' ''p'' 1 2 new_qwen =
      (Inl (RuntimeError (''Qwen Code authentication failed: '' @ ''invalid_api_key'')), q1)" and "qw_tick q1 = 1"
    using auth by (simp add: qwen_attempts.simps [of ?env _ _ "Suc 0"] catchS_def failing_complete_once seqS_def bindS_def
        mark_auth_failure_run raiseS_def new_qwen_def)
  then have "qe_time ?env (qw_tick q1) < qe_time ?env (qw_tick q1 - 1) + 300" by (simp add: failing_env_def)
  then show ?thesis using auth_failure_cools_down [OF run refl refl] run by blast
qed

end
