(* ===== verification/TaskGraph.thy ===== *)
theory TaskGraph
  imports PyValue "HOL-Library.While_Combinator" "HOL-Library.Sublist"
begin

text \<open>
  \<open>agents/task_decomposer.py\<close>: how a title is put into a category and a priority, the
  dependencies between the subtasks and the groups of tasks that may run in parallel. The
  loop over the groups is a \<open>while_option\<close>: that it ends is a theorem.
\<close>

subsection \<open>Categories and priorities\<close>

datatype task_category = BACKEND | FRONTEND | TESTS | DOCS
datatype task_priority = P0 | P1 | P2

fun category_value :: "task_category \<Rightarrow> string" where
  "category_value BACKEND = ''backend''"
| "category_value FRONTEND = ''frontend''"
| "category_value TESTS = ''tests''"
| "category_value DOCS = ''docs''"

fun priority_value :: "task_priority \<Rightarrow> string" where
  "priority_value P0 = ''P0''" | "priority_value P1 = ''P1''" | "priority_value P2 = ''P2''"

record subtask =
  sub_id :: string
  sub_title :: string
  sub_category :: task_category
  sub_priority :: task_priority
  sub_depends_on :: "string list"
  sub_description :: string

definition normalize_text :: "(rat \<Rightarrow> string) \<Rightarrow> pyval \<Rightarrow> string" where
  "normalize_text fstr v = py_strip (if truthy v then py_str fstr v else [])"

text \<open>\<open>casefold\<close> is \<open>lower\<close> on the characters of the model.\<close>

definition coerce_texts :: "(rat \<Rightarrow> string) \<Rightarrow> pyval \<Rightarrow> string list" where
  "coerce_texts fstr values =
     (case values of
        PList items \<Rightarrow>
          fst (fold (\<lambda>item (result, seen).
            let text = normalize_text fstr item; key = py_lower text in
            if text = [] \<or> key \<in> set seen then (result, seen) else (result @ [text], key # seen)) items ([], []))
      | _ \<Rightarrow> [])"

definition has_any :: "string list \<Rightarrow> string \<Rightarrow> bool" where
  "has_any keywords text \<longleftrightarrow> list_ex (\<lambda>k. contains k text) keywords"

definition categorize_task :: "string \<Rightarrow> task_category" where
  "categorize_task title =
     (let t = py_lower title in
      if has_any [''test'', ''testing'', ''unit test'', ''integration test'', ''e2e'', ''spec'', ''coverage'', ''mock'', ''stub'',
           ''assert'', ''verify'', ''validate'', ''rerun''] t then TESTS
      else if has_any [''doc'', ''documentation'', ''readme'', ''guide'', ''tutorial'', ''manual'', ''wiki'', ''comment'',
           ''example'', ''sample'', ''usage'', ''api doc''] t then DOCS
      else if has_any [''ui'', ''user interface'', ''form'', ''component'', ''page'', ''screen'', ''frontend'', ''client'', ''html'',
           ''css'', ''javascript'', ''react'', ''vue'', ''angular'', ''template'', ''style'', ''layout'', ''responsive'', ''mobile'',
           ''desktop'', ''button'', ''input'', ''field'', ''modal'', ''dialog''] t then FRONTEND
      else BACKEND)"

definition assign_priority :: "string \<Rightarrow> string list \<Rightarrow> task_priority" where
  "assign_priority title labels =
     (let t = py_lower title; joined = join '' '' (map py_lower labels) in
      if has_any [''p0'', ''critical'', ''high''] joined then P0
      else if has_any [''p2'', ''low''] joined then P2
      else if has_any [''security'', ''vulnerability'', ''critical'', ''urgent'', ''emergency'', ''crash'', ''down'', ''fail'',
           ''regression'', ''blocker'', ''broken''] t then P0
      else if has_any [''improve'', ''enhance'', ''nice to have'', ''refactor'', ''cleanup'', ''polish'', ''optimize''] t then P2
      else P1)"

definition detect_mode :: "string \<Rightarrow> string \<Rightarrow> string list \<Rightarrow> string" where
  "detect_mode title body labels =
     (let combined = py_lower (title @ '' '' @ body @ '' '' @ join '' '' labels) in
      if has_any [''ci incident'', ''kind:ci-incident'', ''source:ci_scanner_pipeline''] combined then ''ci_incident''
      else if has_any [''bug'', ''fix'', ''regression'', ''failure'', ''error''] combined then ''bugfix''
      else if has_any [''infra'', ''config'', ''docker'', ''workflow'', ''pipeline''] combined then ''infra''
      else if has_any [''docs'', ''documentation'', ''readme'', ''guide''] combined then ''docs''
      else ''feature'')"

definition criterion_task :: "string \<Rightarrow> string \<times> task_category" where
  "criterion_task criterion =
     (let lowered = py_lower criterion;
          prefix = (if has_any [''test'', ''verify'', ''validate''] lowered then ''Add tests for''
                    else if has_any [''document'', ''readme'', ''guide''] lowered then ''Document'' else ''Implement'');
          text = rev (dropWhile (\<lambda>c. c = CHR ''.'') (rev criterion))
      in (py_strip (prefix @ '' '' @ text), categorize_task criterion))"

definition build_tasks_from_acceptance_criteria :: "string list \<Rightarrow> (string \<times> task_category) list" where
  "build_tasks_from_acceptance_criteria = map criterion_task"

subsection \<open>The dependencies between subtasks\<close>

fun category_order :: "task_category \<Rightarrow> nat" where
  "category_order BACKEND = 0" | "category_order FRONTEND = 1" | "category_order TESTS = 2" | "category_order DOCS = 3"

text \<open>The inner loop, for the task at \<open>index\<close>; \<open>others\<close> are the tasks with their positions.\<close>

definition add_dependency :: "nat \<Rightarrow> subtask \<Rightarrow> nat \<times> subtask \<Rightarrow> string list \<Rightarrow> string list" where
  "add_dependency index current = (\<lambda>(other_index, other) deps.
     if sub_id current = sub_id other then deps
     else if category_order (sub_category current) > category_order (sub_category other)
     then (if sub_id other \<in> set deps then deps else deps @ [sub_id other])
     else if sub_category current = sub_category other \<and> index > other_index
     then (if sub_id other \<in> set deps then deps else deps @ [sub_id other])
     else deps)"

definition dependencies_of :: "subtask list \<Rightarrow> nat \<Rightarrow> subtask \<Rightarrow> string list" where
  "dependencies_of tasks index current = fold (add_dependency index current) (enumerate 0 tasks) (sub_depends_on current)"

definition generate_dependency_graph :: "subtask list \<Rightarrow> subtask list" where
  "generate_dependency_graph subtasks =
     (let tasks = sort_key (\<lambda>t. category_order (sub_category t)) subtasks in
      map (\<lambda>(i, t). t\<lparr>sub_depends_on := dependencies_of tasks i t\<rparr>) (enumerate 0 tasks))"

subsection \<open>Groups of tasks\<close>

definition ready_group :: "subtask list \<Rightarrow> string list \<Rightarrow> string list" where
  "ready_group tasks completed =
     map sub_id (filter (\<lambda>t. sub_id t \<notin> set completed \<and> set (sub_depends_on t) \<subseteq> set completed) tasks)"

text \<open>The state of the loop: the completed tasks, the groups, and whether a \<open>break\<close> has left it.
  The set of completed tasks is a list without repetitions.\<close>

definition group_step :: "subtask list \<Rightarrow> string list \<times> string list list \<times> bool \<Rightarrow> string list \<times> string list list \<times> bool" where
  "group_step tasks = (\<lambda>(completed, groups, stop).
     let grp = ready_group tasks completed in
     if grp = [] then (completed, groups, True) else (remdups (completed @ grp), groups @ [grp], False))"

definition group_loop :: "subtask list \<Rightarrow> (string list \<times> string list list \<times> bool) option" where
  "group_loop tasks =
     while_option (\<lambda>(completed, groups, stop). \<not> stop \<and> length completed < length tasks) (group_step tasks) ([], [], False)"

definition find_parallelizable_tasks :: "subtask list \<Rightarrow> string list list option" where
  "find_parallelizable_tasks tasks = map_option (\<lambda>(completed, groups, stop). groups) (group_loop tasks)"

subsection \<open>The dependencies are those on the tasks before\<close>

text \<open>After the stable sort the category of an earlier task is not above that of a later one, so
  every task depends on every task before it with another identifier.\<close>

definition comes_before :: "nat \<Rightarrow> subtask \<Rightarrow> nat \<times> subtask \<Rightarrow> bool" where
  "comes_before i t = (\<lambda>(j, u). sub_id u \<noteq> sub_id t \<and>
     (category_order (sub_category u) < category_order (sub_category t) \<or> sub_category u = sub_category t \<and> j < i))"

lemma set_add_dependency:
  "set (add_dependency i t p deps) = set deps \<union> (if comes_before i t p then {sub_id (snd p)} else {})"
  by (cases p) (auto simp: add_dependency_def comes_before_def)

lemma fold_add_dependency:
  "set (fold (add_dependency i t) xs deps) = set deps \<union> (\<lambda>p. sub_id (snd p)) ` {p \<in> set xs. comes_before i t p}"
  by (induction xs arbitrary: deps) (auto simp: set_add_dependency)

lemma category_order_inj: "category_order c = category_order d \<longleftrightarrow> c = d"
  by (cases c; cases d) simp_all

lemma dependencies_before:
  assumes "sorted (map (\<lambda>t. category_order (sub_category t)) ts)" "i < length ts"
  shows "set (dependencies_of ts i (ts ! i)) =
    set (sub_depends_on (ts ! i)) \<union> (sub_id ` set (take i ts) - {sub_id (ts ! i)})"
proof -
  have before: "comes_before i (ts ! i) (j, ts ! j) \<longleftrightarrow> j < i \<and> sub_id (ts ! j) \<noteq> sub_id (ts ! i)" if j: "j < length ts" for j
  proof (cases "j < i")
    case True
    then have "category_order (sub_category (ts ! j)) \<le> category_order (sub_category (ts ! i))"
      using sorted_nth_mono [OF assms(1), of j i] assms(2) by simp
    with True show ?thesis by (auto simp: comes_before_def le_less category_order_inj)
  next
    case False
    then have "category_order (sub_category (ts ! i)) \<le> category_order (sub_category (ts ! j))"
      using sorted_nth_mono [OF assms(1), of i j] j by simp
    with False show ?thesis by (auto simp: comes_before_def)
  qed
  have "{p \<in> set (enumerate 0 ts). comes_before i (ts ! i) p} = {(j, ts ! j) | j. j < i \<and> sub_id (ts ! j) \<noteq> sub_id (ts ! i)}"
    using before assms(2) by (auto simp: in_set_enumerate_eq)
  moreover have "set (take i ts) = {ts ! j | j. j < i}" using assms(2) nth_image [of i ts] by force
  ultimately show ?thesis
    unfolding dependencies_of_def fold_add_dependency by (auto simp: image_def)
qed

subsection \<open>The loop over the groups ends\<close>

definition open_ids :: "subtask list \<Rightarrow> string list \<Rightarrow> string set" where
  "open_ids tasks completed = sub_id ` set tasks - set completed"

text \<open>A group after the tasks \<open>earlier\<close>: of new tasks that depend on these only.\<close>

definition group_ok :: "subtask list \<Rightarrow> string list \<Rightarrow> string list \<Rightarrow> bool" where
  "group_ok tasks earlier grp \<longleftrightarrow> grp \<noteq> [] \<and>
     (\<forall>i \<in> set grp. i \<notin> set earlier \<and> (\<exists>u \<in> set tasks. sub_id u = i \<and> set (sub_depends_on u) \<subseteq> set earlier))"

definition groups_ok :: "subtask list \<Rightarrow> string list list \<Rightarrow> bool" where
  "groups_ok tasks groups \<longleftrightarrow> (\<forall>k < length groups. group_ok tasks (concat (take k groups)) (groups ! k))"

lemma groups_ok_snoc: "groups_ok tasks groups \<Longrightarrow> group_ok tasks (concat groups) g \<Longrightarrow> groups_ok tasks (groups @ [g])"
  by (auto simp: groups_ok_def nth_append less_Suc_eq)

lemma ready_group_ok:
  assumes "ready_group tasks completed \<noteq> []" "set completed = set earlier"
  shows "group_ok tasks earlier (ready_group tasks completed)"
  using assms by (auto simp: group_ok_def ready_group_def)

lemma ready_group_open: "set (ready_group tasks completed) \<subseteq> open_ids tasks completed"
  by (auto simp: ready_group_def open_ids_def)

definition groups_wf :: "subtask list \<Rightarrow> string list \<times> string list list \<times> bool \<Rightarrow> bool" where
  "groups_wf tasks s \<longleftrightarrow> set (fst s) = set (concat (fst (snd s))) \<and> groups_ok tasks (fst (snd s)) \<and>
     distinct (fst s) \<and> set (fst s) \<subseteq> sub_id ` set tasks \<and> (snd (snd s) \<longrightarrow> ready_group tasks (fst s) = [])"

lemma group_step_wf: "groups_wf tasks s \<Longrightarrow> groups_wf tasks (group_step tasks s)"
  using ready_group_ok [of tasks "fst s" "concat (fst (snd s))"] ready_group_open [of tasks "fst s"]
  by (auto simp: groups_wf_def group_step_def Let_def case_prod_unfold open_ids_def intro: groups_ok_snoc)

text \<open>When the loop is left, no task is ready: it has found none, or it has placed them all.\<close>

lemma groups_complete:
  assumes "groups_wf tasks s" "snd (snd s) \<or> length tasks \<le> length (fst s)"
  shows "ready_group tasks (fst s) = []"
proof (cases "snd (snd s)")
  case False
  have "card (sub_id ` set tasks) \<le> length tasks" using card_length [of "map sub_id tasks"] by simp
  also have "\<dots> \<le> card (set (fst s))" using assms False distinct_card [of "fst s"] by (simp add: groups_wf_def del: set_concat)
  finally have "set (fst s) = sub_id ` set tasks"
    using assms(1) card_seteq [of "sub_id ` set tasks" "set (fst s)"] unfolding groups_wf_def by blast
  then show ?thesis by (auto simp: ready_group_def filter_empty_conv)
qed (use assms in \<open>simp add: groups_wf_def\<close>)

definition groups_left :: "subtask list \<Rightarrow> string list \<times> string list list \<times> bool \<Rightarrow> nat" where
  "groups_left tasks s = card (open_ids tasks (fst s)) + (if snd (snd s) then 0 else 1)"

lemma group_step_decreases:
  assumes "\<not> snd (snd s)"
  shows "groups_left tasks (group_step tasks s) < groups_left tasks s"
proof (cases "ready_group tasks (fst s) = []")
  case False
  let ?r = "ready_group tasks (fst s)"
  obtain i where i: "i \<in> set ?r" using False by (cases ?r) auto
  have step: "group_step tasks s = (remdups (fst s @ ?r), fst (snd s) @ [?r], False)"
    using False by (simp add: group_step_def Let_def case_prod_unfold)
  have "open_ids tasks (remdups (fst s @ ?r)) = open_ids tasks (fst s) - set ?r"
    by (auto simp: open_ids_def)
  then have "open_ids tasks (remdups (fst s @ ?r)) \<subset> open_ids tasks (fst s)"
    using i ready_group_open by blast
  then have "card (open_ids tasks (remdups (fst s @ ?r))) < card (open_ids tasks (fst s))"
    by (intro psubset_card_mono) (simp_all add: open_ids_def)
  then show ?thesis using assms by (simp add: step groups_left_def)
qed (use assms in \<open>simp add: group_step_def groups_left_def case_prod_unfold\<close>)

lemma group_loop_ends: "\<exists>s. group_loop tasks = Some s \<and> groups_wf tasks s \<and> ready_group tasks (fst s) = []"
proof -
  let ?more = "\<lambda>(completed, groups, stop). \<not> stop \<and> length completed < length tasks"
  have "\<exists>s. while_option ?more (group_step tasks) ([], [], False) = Some s"
    by (rule measure_while_option_Some [of "\<lambda>_. True" _ _ "groups_left tasks"])
      (simp_all add: case_prod_unfold group_step_decreases)
  then obtain s where s: "while_option ?more (group_step tasks) ([], [], False) = Some s" by blast
  have "groups_wf tasks s"
    by (rule while_option_rule [OF _ s, of "groups_wf tasks"], rule group_step_wf, assumption)
      (simp add: groups_wf_def groups_ok_def)
  moreover have "snd (snd s) \<or> length tasks \<le> length (fst s)"
    using while_option_stop [OF s] by (auto simp: case_prod_unfold)
  ultimately show ?thesis using s groups_complete by (auto simp: group_loop_def)
qed

text \<open>C33: Finding the groups ends for every list of tasks, with cyclic dependencies, unknown ones and
  repeated identifiers too. No group is empty, and every identifier in a group is of a task
  that depends on tasks of earlier groups only, and is in none of those itself. A task that is
  in no group depends on one that is in no group either.\<close>

theorem groups_found:
  "\<exists>groups. find_parallelizable_tasks tasks = Some groups \<and>
     list_all (\<lambda>k. group_ok tasks (concat (take k groups)) (groups ! k)) [0..<length groups] \<and>
     list_all (\<lambda>t. \<not> set (sub_depends_on t) \<subseteq> set (concat groups)) (filter (\<lambda>t. sub_id t \<notin> set (concat groups)) tasks)"
proof -
  obtain s where s: "group_loop tasks = Some s" "groups_wf tasks s" "ready_group tasks (fst s) = []"
    using group_loop_ends by blast
  then have c: "set (fst s) = set (concat (fst (snd s)))" by (simp add: groups_wf_def)
  show ?thesis using s
    by (intro exI [of _ "fst (snd s)"])
      (auto simp: find_parallelizable_tasks_def case_prod_unfold list_all_iff groups_wf_def groups_ok_def
         ready_group_def filter_empty_conv c simp del: set_concat)
qed

subsection \<open>The groups of a decomposed task\<close>

lemma filter_upt_single: "k < n \<Longrightarrow> filter (\<lambda>i. i = k) [0..<n] = [k]"
proof (induction n)
  case (Suc n)
  then show ?case by (cases "k = n") (auto simp: filter_empty_conv)
qed simp

lemma nth_in_take:
  assumes "distinct xs" "i < length xs"
  shows "xs ! i \<in> set (take k xs) \<longleftrightarrow> i < k"
proof
  assume "xs ! i \<in> set (take k xs)"
  then obtain j where "j < k" "j < length xs" "xs ! j = xs ! i" by (auto simp: in_set_conv_nth)
  then show "i < k" using assms nth_eq_iff_index_eq by blast
next
  assume "i < k"
  then show "xs ! i \<in> set (take k xs)" using assms(2) by (auto simp: in_set_conv_nth intro!: exI [of _ i])
qed

text \<open>The tasks of a decomposition are never found to be parallel: every subtask is made to
  depend on all subtasks before it, so that each group has one task, in the order of the
  categories.\<close>

theorem groups_are_single:
  assumes "distinct (map sub_id ts)" "\<forall>t \<in> set ts. sub_depends_on t = []"
  shows "find_parallelizable_tasks (generate_dependency_graph ts) =
    Some (map (\<lambda>t. [sub_id t]) (sort_key (\<lambda>t. category_order (sub_category t)) ts))"
proof -
  let ?ts = "sort_key (\<lambda>t. category_order (sub_category t)) ts"
  let ?ids = "map sub_id ?ts" and ?g = "generate_dependency_graph ts"
  let ?more = "\<lambda>(completed, groups, stop). \<not> stop \<and> length completed < length ?g"
  define state where "state k = (take k ?ids, map (\<lambda>i. [i]) (take k ?ids), False)" for k
  have d: "distinct ?ids" using assms(1) by (metis distinct_map distinct_sort set_sort)
  have len: "length ?g = length ?ids" by (simp add: generate_dependency_graph_def Let_def)
  have nth: "sub_id (?g ! i) = ?ids ! i" "set (sub_depends_on (?g ! i)) = set (take i ?ids)" if i: "i < length ?ids" for i
  proof -
    have g: "?g ! i = (?ts ! i)\<lparr>sub_depends_on := dependencies_of ?ts i (?ts ! i)\<rparr>"
      using i by (simp add: generate_dependency_graph_def Let_def nth_enumerate_eq)
    then show "sub_id (?g ! i) = ?ids ! i" using i by simp
    have "?ids ! i \<notin> set (take i ?ids)" using nth_in_take [OF d i, of i] by simp
    moreover have "sub_depends_on (?ts ! i) = []" using assms(2) i by (metis length_map nth_mem set_sort)
    ultimately show "set (sub_depends_on (?g ! i)) = set (take i ?ids)"
      using dependencies_before [of ?ts i] i by (simp add: g take_map)
  qed
  have ready: "ready_group ?g (take k ?ids) = [?ids ! k]" if k: "k < length ?ids" for k
  proof -
    have "ready_group ?g (take k ?ids) = map (\<lambda>i. sub_id (?g ! i))
        (filter (\<lambda>i. sub_id (?g ! i) \<notin> set (take k ?ids) \<and> set (sub_depends_on (?g ! i)) \<subseteq> set (take k ?ids)) [0..<length ?ids])"
      unfolding ready_group_def by (subst map_nth [symmetric, of ?g]) (simp only: filter_map map_map comp_def len)
    also have "\<dots> = map (\<lambda>i. sub_id (?g ! i)) (filter (\<lambda>i. i = k) [0..<length ?ids])"
    proof (intro arg_cong [where f = "map _"] filter_cong refl)
      fix i assume "i \<in> set [0..<length ?ids]"
      then have i: "i < length ?ids" by simp
      have "?ids ! i \<in> set (take k ?ids) \<longleftrightarrow> i < k" using nth_in_take [OF d i] by simp
      moreover have "set (take i ?ids) \<subseteq> set (take k ?ids) \<longleftrightarrow> i \<le> k"
      proof
        assume sub: "set (take i ?ids) \<subseteq> set (take k ?ids)"
        show "i \<le> k"
        proof (rule ccontr)
          assume "\<not> i \<le> k"
          then have "?ids ! k \<in> set (take i ?ids)" using nth_in_take [OF d k, of i] by linarith
          then have "?ids ! k \<in> set (take k ?ids)" using sub by blast
          then show False using nth_in_take [OF d k] by simp
        qed
      qed (rule set_take_subset_set_take)
      ultimately show "(sub_id (?g ! i) \<notin> set (take k ?ids) \<and> set (sub_depends_on (?g ! i)) \<subseteq> set (take k ?ids)) = (i = k)"
        unfolding nth [OF i] by auto
    qed
    also have "filter (\<lambda>i. i = k) [0..<length ?ids] = [k]" using k by (rule filter_upt_single)
    finally show ?thesis using nth(1) [OF k] by simp
  qed
  have step: "group_step ?g (state k) = state (Suc k)" if "k < length ?ids" for k
  proof -
    have "take (Suc k) ?ids = take k ?ids @ [?ids ! k]" using that by (rule take_Suc_conv_app_nth)
    moreover have "remdups (take (Suc k) ?ids) = take (Suc k) ?ids" using d by (intro distinct_remdups_id distinct_take)
    ultimately show ?thesis using ready [OF that] by (simp add: state_def group_step_def Let_def)
  qed
  obtain s where s: "while_option ?more (group_step ?g) ([], [], False) = Some s"
    using group_loop_ends [of ?g] by (auto simp: group_loop_def)
  have "\<exists>k \<le> length ?ids. s = state k"
  proof (rule while_option_rule [OF _ s, of "\<lambda>s. \<exists>k \<le> length ?ids. s = state k"])
    fix t assume t: "\<exists>k \<le> length ?ids. t = state k" and more: "?more t"
    then obtain k where "k \<le> length ?ids" "t = state k" by blast
    with more have "k < length ?ids" "group_step ?g t = state (Suc k)" using step len by (auto simp: state_def)
    then show "\<exists>k \<le> length ?ids. group_step ?g t = state k" by (intro exI [of _ "Suc k"]) simp
  qed (simp add: state_def exI [of _ 0])
  then obtain k where k: "k \<le> length ?ids" "s = state k" by blast
  moreover have "\<not> ?more s" by (rule while_option_stop [OF s])
  ultimately have "s = state (length ?ids)" using len by (auto simp: state_def)
  then show ?thesis
    using s by (simp add: find_parallelizable_tasks_def group_loop_def state_def comp_def)
qed

lemma groups_are_single_witness:
  "find_parallelizable_tasks (generate_dependency_graph
     [\<lparr>sub_id = ''task_1'', sub_title = ''write docs'', sub_category = DOCS, sub_priority = P1, sub_depends_on = [], sub_description = []\<rparr>,
      \<lparr>sub_id = ''task_2'', sub_title = ''add button'', sub_category = FRONTEND, sub_priority = P1, sub_depends_on = [], sub_description = []\<rparr>]) =
   Some [[''task_2''], [''task_1'']]"
  by (subst groups_are_single) simp_all

end
