(* ===== verification/Regex.thy ===== *)
theory Regex
  imports PyValue
begin

text \<open>
  The part of Python's \<open>re\<close> the sources use, as a backtracking matcher: \<open>rx_match\<close> lists the
  ways in which an expression matches from a position on, in the order in which the
  backtracking tries them. Texts are ASCII where \<open>\d\<close>, \<open>\w\<close> and \<open>\s\<close> are concerned.
\<close>

datatype rx =
    Eps
  | Chr "char \<Rightarrow> bool"
  | Seq rx rx
  | Alt rx rx
  | Rep bool rx
  | Grp nat rx
  | LineStart
  | LineEnd
  | TextEnd
  | Ahead rx

text \<open>A position: the text before it, reversed, the text after it, and the groups so far.\<close>

type_synonym rx_state = "string \<times> string \<times> (nat \<times> string) list"

text \<open>The iterations of a \<open>*\<close> (greedy) or \<open>*?\<close>; each one consumes something, so that the length
  of the rest bounds their number.\<close>

fun rep_states :: "bool \<Rightarrow> (rx_state \<Rightarrow> rx_state list) \<Rightarrow> nat \<Rightarrow> rx_state \<Rightarrow> rx_state list" where
  "rep_states greedy m 0 s = [s]"
| "rep_states greedy m (Suc n) s =
     (let more = concat (map (rep_states greedy m n) (filter (\<lambda>t. length (fst (snd t)) < length (fst (snd s))) (m s)))
      in if greedy then more @ [s] else s # more)"

primrec rx_match :: "rx \<Rightarrow> rx_state \<Rightarrow> rx_state list" where
  "rx_match Eps s = [s]"
| "rx_match (Chr p) s =
     (case s of (before, c # rest, caps) \<Rightarrow> if p c then [(c # before, rest, caps)] else [] | _ \<Rightarrow> [])"
| "rx_match (Seq r q) s = concat (map (rx_match q) (rx_match r s))"
| "rx_match (Alt r q) s = rx_match r s @ rx_match q s"
| "rx_match (Rep greedy r) s = rep_states greedy (rx_match r) (length (fst (snd s))) s"
| "rx_match (Grp n r) s =
     map (\<lambda>(before, rest, caps). (before, rest, AList.update n (take (length (fst (snd s)) - length rest) (fst (snd s))) caps)) (rx_match r s)"
| "rx_match LineStart s = (case s of ([], _, _) \<Rightarrow> [s] | (c # _, _, _) \<Rightarrow> if c = CHR 0x0A then [s] else [])"
| "rx_match LineEnd s = (case s of (_, [], _) \<Rightarrow> [s] | (_, c # _, _) \<Rightarrow> if c = CHR 0x0A then [s] else [])"
| "rx_match TextEnd s = (case s of (_, rest, _) \<Rightarrow> if rest = [] \<or> rest = [CHR 0x0A] then [s] else [])"
| "rx_match (Ahead r) s = (if rx_match r s = [] then [] else [s])"

primrec rx_text :: "string \<Rightarrow> rx" where
  "rx_text [] = Eps"
| "rx_text (c # cs) = Seq (Chr (\<lambda>x. x = c)) (rx_text cs)"

definition rx_plus :: "bool \<Rightarrow> rx \<Rightarrow> rx" where
  "rx_plus greedy r = Seq r (Rep greedy r)"

definition rx_opt :: "rx \<Rightarrow> rx" where
  "rx_opt r = Alt r Eps"

definition is_word_char :: "char \<Rightarrow> bool" where
  "is_word_char c = (let n = (of_char c :: nat) in
     48 \<le> n \<and> n \<le> 57 \<or> 65 \<le> n \<and> n \<le> 90 \<or> 97 \<le> n \<and> n \<le> 122 \<or> n = 95)"

text \<open>\<open>re.search\<close> and \<open>re.findall\<close>: the text that is matched and the groups. An empty match moves
  on by a character; the length of the text bounds the number of matches.\<close>

fun search_from :: "rx \<Rightarrow> string \<Rightarrow> string \<Rightarrow> (string \<times> rx_state) option" where
  "search_from r before [] = (case rx_match r (before, [], []) of [] \<Rightarrow> None | s # _ \<Rightarrow> Some ([], s))"
| "search_from r before (c # rest) =
     (case rx_match r (before, c # rest, []) of
        s # _ \<Rightarrow> Some (take (length (c # rest) - length (fst (snd s))) (c # rest), s)
      | [] \<Rightarrow> search_from r (c # before) rest)"

definition rx_search :: "rx \<Rightarrow> string \<Rightarrow> (string \<times> (nat \<times> string) list) option" where
  "rx_search r text = map_option (\<lambda>(m, _, _, caps). (m, caps)) (search_from r [] text)"

fun find_from :: "rx \<Rightarrow> nat \<Rightarrow> string \<Rightarrow> string \<Rightarrow> (string \<times> (nat \<times> string) list) list" where
  "find_from r 0 before rest = []"
| "find_from r (Suc n) before rest =
     (case search_from r before rest of
        None \<Rightarrow> []
      | Some (m, before', rest', caps) \<Rightarrow>
          (m, caps) # (if m = [] then (case rest' of [] \<Rightarrow> [] | c # cs \<Rightarrow> find_from r n (c # before') cs)
                       else find_from r n before' rest'))"

definition rx_findall :: "rx \<Rightarrow> string \<Rightarrow> (string \<times> (nat \<times> string) list) list" where
  "rx_findall r text = find_from r (Suc (length text)) [] text"

definition cap :: "nat \<Rightarrow> (nat \<times> string) list \<Rightarrow> string" where
  "cap n caps = (case map_of caps n of None \<Rightarrow> [] | Some s \<Rightarrow> s)"

subsection \<open>Facts about the matcher\<close>

text \<open>Every match ends at a later position of the same text.\<close>

definition later :: "rx_state \<Rightarrow> rx_state \<Rightarrow> bool" where
  "later s t \<longleftrightarrow> (\<exists>w. fst (snd s) = w @ fst (snd t) \<and> fst t = rev w @ fst s)"

lemma later_refl [simp]: "later s s"
  by (simp add: later_def)

lemma later_trans: "later s t \<Longrightarrow> later t u \<Longrightarrow> later s u"
  by (auto simp: later_def)

lemma later_rep:
  assumes "\<And>s t. t \<in> set (m s) \<Longrightarrow> later s t"
  shows "t \<in> set (rep_states g m n s) \<Longrightarrow> later s t"
proof (induction n arbitrary: s)
  case (Suc n)
  then consider "t = s" | u where "u \<in> set (m s)" "t \<in> set (rep_states g m n u)"
    by (auto simp only: rep_states.simps Let_def set_append set_concat set_map set_filter list.set split: if_splits)
  then show ?case
  proof cases
    case 2
    then show ?thesis using later_trans assms Suc.IH by blast
  qed simp
qed simp

lemma rx_match_later: "t \<in> set (rx_match r s) \<Longrightarrow> later s t"
proof (induction r arbitrary: s t)
  case (Seq r1 r2)
  then obtain u where "u \<in> set (rx_match r1 s)" "t \<in> set (rx_match r2 u)"
    by (auto simp only: rx_match.simps set_concat set_map)
  then show ?case using Seq.IH later_trans by blast
next
  case (Rep g r)
  then show ?case using later_rep [of "rx_match r"] by auto
next
  case (Grp n r)
  from Grp.prems obtain u where "u \<in> set (rx_match r s)" "fst t = fst u" "fst (snd t) = fst (snd u)"
    by (auto simp: case_prod_unfold)
  with Grp.IH show ?case by (simp add: later_def)
next
  case LineStart
  then show ?case by (auto simp: case_prod_unfold split: list.splits if_splits)
next
  case LineEnd
  then show ?case by (auto simp: case_prod_unfold split: list.splits if_splits)
qed (auto simp: later_def split: prod.splits list.splits if_splits)

text \<open>An expression that begins with a class of characters finds nothing in a text without them.\<close>

lemma search_needs:
  assumes "\<And>before rest caps. rest = [] \<or> \<not> p (hd rest) \<Longrightarrow> rx_match r (before, rest, caps) = []" "\<not> list_ex p w"
  shows "search_from r before w = None"
  using assms(2)
proof (induction w arbitrary: before)
  case Nil
  then show ?case using assms(1) [of "[]" before "[]"] by simp
next
  case (Cons c w)
  then show ?case using assms(1) [of "c # w" before "[]"] by simp
qed

end
