(* ===== verification/Decompose.thy ===== *)
theory Decompose
  imports TaskGraph Regex
begin

text \<open>
  \<open>agents/task_decomposer.py\<close>: how an issue is cut into tasks, and the agent that does it, with the
  results of \<open>agents/context_utils.py\<close>. What TaskGraph shows of the dependencies and groups carries
  over to the agent's answer.
\<close>

subsection \<open>From an issue to tasks\<close>

definition ci_incident_tasks :: "(string \<times> task_category) list" where
  "ci_incident_tasks =
     [(''Reproduce the failing CI job locally or in isolated test mode'', TESTS),
      (''Identify the failing workflow step and affected component'', BACKEND),
      (''Implement a targeted fix for the failing path'', BACKEND),
      (''Rerun affected checks and confirm regression coverage'', TESTS),
      (''Document root cause and fix rationale'', DOCS)]"

definition bugfix_tasks :: "(string \<times> task_category) list" where
  "bugfix_tasks =
     [(''Confirm expected vs actual behaviour for the failing scenario'', TESTS),
      (''Implement targeted code fix'', BACKEND),
      (''Add or update regression tests'', TESTS),
      (''Document behavioural constraints and edge cases'', DOCS)]"

text \<open>\<open>[,\sand]+\<close>: commas, blanks and the letters of the word; and \<open>[^,.]+\<close> in a group.\<close>

definition rx_separator :: rx where
  "rx_separator = rx_plus True (Chr (\<lambda>c. c \<in> set '',and'' \<or> py_isspace c))"

definition rx_item :: "nat \<Rightarrow> string \<Rightarrow> rx" where
  "rx_item n excluded = Grp n (rx_plus True (Chr (\<lambda>c. c \<notin> set excluded)))"

definition rx_three :: "string \<Rightarrow> rx" where
  "rx_three excluded =
     Seq (rx_item 1 excluded) (Seq rx_separator (Seq (rx_item 2 excluded) (Seq rx_separator (rx_item 3 excluded))))"

definition rx_after :: "string \<Rightarrow> rx" where
  "rx_after word = Seq (rx_text word) (Seq (rx_plus True (Chr py_isspace)) (rx_three '',.''))"

definition task_patterns :: "rx list" where
  "task_patterns =
     [rx_after ''implement'', rx_after ''add'',
      Seq (rx_three ''.!?'') (Seq (rx_plus True (Chr py_isspace)) (rx_text ''functionality''))]"

definition pattern_tasks :: "string \<Rightarrow> rx \<Rightarrow> (string \<times> task_category) list" where
  "pattern_tasks text pattern =
     concat (map (\<lambda>(_, caps). concat (map (\<lambda>n.
       let clean = py_strip (cap n caps) in
       if length clean > 2 then [(''Implement '' @ clean, categorize_task clean)] else []) [1, 2, 3]))
       (rx_findall pattern text))"

text \<open>\<open>s.splitlines()\<close>.\<close>

definition line_break :: "char \<Rightarrow> bool" where
  "line_break c = (let n = (of_char c :: nat) in 10 \<le> n \<and> n \<le> 13 \<or> 28 \<le> n \<and> n \<le> 30)"

fun split_lines :: "string \<Rightarrow> string \<Rightarrow> string list" where
  "split_lines cur [] = (if cur = [] then [] else [rev cur])"
| "split_lines cur (c # s) =
     (if c = CHR 0x0D then (case s of
          [] \<Rightarrow> [rev cur]
        | d # ds \<Rightarrow> if d = CHR 0x0A then rev cur # split_lines [] ds else rev cur # split_lines [] s)
      else if line_break c then rev cur # split_lines [] s else split_lines (c # cur) s)"

definition criteria_lines :: "string \<Rightarrow> string list" where
  "criteria_lines body =
     map (\<lambda>l. py_strip (dropWhile (\<lambda>c. c \<in> {CHR ''-'', CHR ''*'', CHR 0x09, CHR '' ''}) l))
       (filter (\<lambda>l. starts_with ''-'' (py_strip l) \<or> starts_with ''*'' (py_strip l)) (split_lines [] body))"

definition decompose_task :: "string \<Rightarrow> string \<Rightarrow> string list \<Rightarrow> (string \<times> task_category) list" where
  "decompose_task title body labels =
     (let mode = detect_mode title body labels in
      if mode = ''ci_incident'' then ci_incident_tasks
      else if mode = ''bugfix'' then bugfix_tasks
      else let found = concat (map (pattern_tasks (py_lower (title @ '' '' @ body))) task_patterns) in
        if found \<noteq> [] then found
        else let criteria = (if contains ''acceptance criteria'' (py_lower body)
            then build_tasks_from_acceptance_criteria (coerce_texts (\<lambda>_. []) (PList (map PStr (criteria_lines body)))) else []) in
          if criteria \<noteq> [] then criteria else [(title, categorize_task title)])"

lemma decompose_nonempty: "decompose_task title body labels \<noteq> []"
  by (simp add: decompose_task_def Let_def ci_incident_tasks_def bugfix_tasks_def)

text \<open>The single letters of the word between two items separate them too, so a title is cut inside its words.\<close>

lemma titles_cut_inside_words: "decompose_task ''Add dark mode'' [] [] = [(''Implement dark'', BACKEND)]"
  by code_simp

subsection \<open>The agent\<close>

definition text_list :: "string list \<Rightarrow> pyval" where
  "text_list xs = PList (map PStr xs)"

definition build_agent_result :: "string \<Rightarrow> string \<Rightarrow> dict \<Rightarrow> string \<Rightarrow> rat \<Rightarrow> string list \<Rightarrow> string list \<Rightarrow> dict" where
  "build_agent_result status artifact_type content reason confidence logs next_actions =
     [(''status'', PStr status),
      (''artifacts'', PList [PDict [(''type'', PStr artifact_type), (''content'', PDict content)]]),
      (''decisions'', PList [PDict [(''reason'', PStr reason), (''confidence'', PFloat confidence)]]),
      (''logs'', text_list logs), (''next_actions'', text_list next_actions)]"

definition dict_at :: "dict \<Rightarrow> string \<Rightarrow> dict" where
  "dict_at d k = (case dget d k of PDict e \<Rightarrow> e | _ \<Rightarrow> [])"

text \<open>Subtasks that are there already are passed on.\<close>

definition nonempty_list :: "pyval \<Rightarrow> bool" where
  "nonempty_list v = (is_list v \<and> truthy v)"

definition list_length :: "pyval \<Rightarrow> int" where
  "list_length v = (case v of PList xs \<Rightarrow> int (length xs) | PDict d \<Rightarrow> int (length d) | PStr s \<Rightarrow> int (length s) | _ \<Rightarrow> 0)"

definition passthrough :: "dict \<Rightarrow> dict \<Rightarrow> dict" where
  "passthrough context subtasks =
     build_agent_result ''SUCCESS'' ''subtasks''
       (dsetdefault ''plan_provenance''
          (PDict [(''source'', dget_or context ''plan_source'' (PStr ''upstream_pipeline'')), (''passthrough'', PBool True),
             (''rebuilt'', PBool False)])
          (dsetdefault ''quality_signals''
             (PDict [(''items_count'', PInt (list_length (dget_or subtasks ''items'' (dget_or subtasks ''subtasks'' (PList []))))),
                (''decomposition_completeness'', PStr ''high'')]) subtasks))
       ''Subtasks passed through from upstream pipeline.'' (95 / 100)
       [''Subtasks reused from upstream pipeline (passthrough mode).''] [''bdd_generator'', ''test_generator'']"

definition or_value :: "pyval \<Rightarrow> pyval \<Rightarrow> pyval" where
  "or_value v w = (if truthy v then v else w)"

definition issue_labels :: "(rat \<Rightarrow> string) \<Rightarrow> dict \<Rightarrow> string list" where
  "issue_labels fstr issue =
     (case dget issue ''labels'' of
        PList ls \<Rightarrow> map (\<lambda>l. normalize_text fstr (case l of PDict d \<Rightarrow> dget d ''name'' | _ \<Rightarrow> l)) ls
      | _ \<Rightarrow> [])"

definition issue_texts :: "(rat \<Rightarrow> string) \<Rightarrow> dict \<Rightarrow> string \<times> string" where
  "issue_texts fstr context =
     (let issue = dict_at context ''issue''; spec = dict_at context ''spec'';
          title = normalize_text fstr (dget issue ''title'');
          body = normalize_text fstr (or_value (dget issue ''body'') (dget issue ''description''))
      in if title \<noteq> [] then (title, body)
         else (normalize_text fstr (or_value (or_value (dget spec ''summary'') (dget spec ''feature_description'')) (dget spec ''user_story'')),
               if body \<noteq> [] then body else join [CHR 0x0A] (coerce_texts fstr (dget spec ''acceptance_criteria''))))"

definition make_subtasks :: "string \<Rightarrow> string list \<Rightarrow> (string \<times> task_category) list \<Rightarrow> subtask list" where
  "make_subtasks title labels tasks =
     map (\<lambda>(i, t, c). \<lparr>sub_id = ''task_'' @ nat_str (i + 1), sub_title = t, sub_category = c,
         sub_priority = assign_priority (py_strip t) labels, sub_depends_on = [], sub_description = ''Subtask of: '' @ title\<rparr>)
       (enumerate 0 tasks)"

definition graph_task :: "subtask \<Rightarrow> pyval" where
  "graph_task t =
     PDict [(''id'', PStr (sub_id t)), (''name'', PStr (sub_title t)), (''category'', PStr (category_value (sub_category t))),
       (''priority'', PStr (priority_value (sub_priority t))), (''depends_on'', text_list (sub_depends_on t)),
       (''description'', PStr (sub_description t))]"

definition plan_item :: "subtask \<Rightarrow> pyval" where
  "plan_item t =
     PDict [(''id'', PStr (sub_id t)), (''title'', PStr (sub_title t)), (''category'', PStr (category_value (sub_category t))),
       (''priority'', PStr (priority_value (sub_priority t))), (''estimate_hours'', PInt 4),
       (''depends_on'', text_list (sub_depends_on t)), (''description'', PStr (sub_description t))]"

definition category_count :: "task_category \<Rightarrow> subtask list \<Rightarrow> pyval" where
  "category_count c ts = PInt (int (length (filter (\<lambda>t. sub_category t = c) ts)))"

definition decomposition :: "dict \<Rightarrow> string \<Rightarrow> string \<Rightarrow> subtask list \<Rightarrow> string list list \<Rightarrow> dict" where
  "decomposition context title mode graph groups =
     [(''schema_version'', PStr ''1.0''), (''original_issue'', PStr title), (''items'', PList (map plan_item graph)),
      (''subtasks'', PList (map graph_task graph)), (''dependency_graph'', PDict [(''tasks'', PList (map graph_task graph))]),
      (''parallelizable_groups'', PList (map text_list groups)), (''total_subtasks'', PInt (int (length graph))),
      (''generation_context'', PDict [(''mode'', PStr mode)]),
      (''quality_signals'', PDict [(''items_count'', PInt (int (length graph))), (''parallel_group_count'', PInt (int (length groups))),
         (''decomposition_completeness'', PStr (if length graph \<ge> 3 then ''high'' else ''medium''))]),
      (''plan_provenance'', PDict [(''source'', dget_or context ''plan_source'' (PStr ''generated'')), (''passthrough'', PBool False),
         (''rebuilt'', PBool False)]),
      (''categories_count'', PDict [(''backend'', category_count BACKEND graph), (''frontend'', category_count FRONTEND graph),
         (''tests'', category_count TESTS graph), (''docs'', category_count DOCS graph)])]"

text \<open>The agent's answer; \<open>None\<close> would be a search for groups that does not end.\<close>

definition run_task_decomposer :: "(rat \<Rightarrow> string) \<Rightarrow> dict \<Rightarrow> dict option" where
  "run_task_decomposer fstr context =
     (let existing = dict_at context ''subtasks'' in
      if nonempty_list (dget existing ''items'') \<or> nonempty_list (dget existing ''subtasks'') then Some (passthrough context existing)
      else let (title, body) = issue_texts fstr context; labels = issue_labels fstr (dict_at context ''issue'') in
        if title = []
        then Some (build_agent_result ''FAILED'' ''task_decomposition'' [] ''No issue title provided in context.'' 1
          [''No issue title found in issue or specification context.''] [''specification_writer'', ''request_human_input''])
        else let graph = generate_dependency_graph (make_subtasks title labels (decompose_task title body labels));
                 mode = detect_mode title body labels;
                 artifact_type = (if has_key context ''specification_writer'' then ''subtasks'' else ''task_decomposition'') in
          case find_parallelizable_tasks graph of
            None \<Rightarrow> None
          | Some groups \<Rightarrow>
              let content = decomposition context title mode graph groups in
              Some (build_agent_result ''SUCCESS'' artifact_type content ''Task decomposition completed successfully.'' (9 / 10)
                  [''Decomposed issue into '' @ nat_str (length graph) @ '' subtasks'', ''mode='' @ mode,
                   ''parallelizable_groups='' @ nat_str (length groups)] [''bdd_generator'', ''test_generator'']
                @ [(''artifact_type'', PStr artifact_type), (''artifact_content'', PDict content)]))"

lemma nat_str_value: "digits_value (nat_str n) = n"
proof (induction n rule: nat_str.induct)
  case (1 n)
  have digit: "is_digit (char_of (48 + k)) \<and> (of_char (char_of (48 + k) :: char) :: nat) - 48 = k" if "k < 10" for k :: nat
    using that by (simp add: is_digit_def of_char_char_of_small)
  show ?case
  proof (cases "n < 10")
    case True
    with digit [of n] show ?thesis by (simp add: nat_str.simps [of n] digits_value_def)
  next
    case False
    with 1 digit [of "n mod 10"] show ?thesis by (simp add: nat_str.simps [of n] digits_value_def)
  qed
qed

lemma subtask_ids: "distinct (map sub_id (make_subtasks title labels tasks))"
proof -
  have "map sub_id (make_subtasks title labels tasks) = map (\<lambda>i. ''task_'' @ nat_str (i + 1)) (map fst (enumerate 0 tasks))"
    by (simp add: make_subtasks_def case_prod_unfold comp_def del: map_fst_enumerate)
  moreover have "inj_on (\<lambda>i. ''task_'' @ nat_str (i + 1)) A" for A
    by (rule inj_onI) (metis add_right_cancel nat_str_value same_append_eq)
  ultimately show ?thesis by (simp add: distinct_map)
qed

text \<open>For an issue with a title and without subtasks the agent answers with success: its plan has at least
  one task, and no two tasks in one group.\<close>

lemma task_decomposer_plans:
  assumes "issue_texts fstr context = (title, body)" "title \<noteq> []"
    and "\<not> nonempty_list (dget (dict_at context ''subtasks'') ''items'')" "\<not> nonempty_list (dget (dict_at context ''subtasks'') ''subtasks'')"
  shows "\<exists>r content graph. run_task_decomposer fstr context = Some r \<and> dget r ''status'' = PStr ''SUCCESS'' \<and>
    dget r ''artifact_content'' = PDict content \<and> graph \<noteq> [] \<and>
    dget content ''items'' = PList (map plan_item graph) \<and>
    dget content ''parallelizable_groups'' = PList (map (\<lambda>t. text_list [sub_id t]) graph)"
proof -
  define tasks where "tasks = make_subtasks title (issue_labels fstr (dict_at context ''issue''))
    (decompose_task title body (issue_labels fstr (dict_at context ''issue'')))"
  let ?graph = "generate_dependency_graph tasks"
  have "\<forall>t \<in> set tasks. sub_depends_on t = []" by (auto simp: tasks_def make_subtasks_def)
  with subtask_ids have "find_parallelizable_tasks ?graph =
      Some (map (\<lambda>t. [sub_id t]) (sort_key (\<lambda>t. category_order (sub_category t)) tasks))"
    unfolding tasks_def by (intro groups_are_single)
  moreover have "map (\<lambda>t. [sub_id t]) ?graph = map (\<lambda>t. [sub_id t]) (sort_key (\<lambda>t. category_order (sub_category t)) tasks)"
  proof -
    have "map sub_id ?graph = map sub_id (map snd (enumerate 0 (sort_key (\<lambda>t. category_order (sub_category t)) tasks)))"
      by (simp add: generate_dependency_graph_def Let_def case_prod_unfold del: map_snd_enumerate)
    then have "map sub_id ?graph = map sub_id (sort_key (\<lambda>t. category_order (sub_category t)) tasks)" by simp
    then have "map (\<lambda>i. [i]) (map sub_id ?graph) = map (\<lambda>i. [i]) (map sub_id (sort_key (\<lambda>t. category_order (sub_category t)) tasks))" by simp
    then show ?thesis by (simp add: comp_def)
  qed
  ultimately have groups: "find_parallelizable_tasks ?graph = Some (map (\<lambda>t. [sub_id t]) ?graph)" by simp
  have "length ?graph = length tasks" by (simp add: generate_dependency_graph_def Let_def)
  moreover have "tasks \<noteq> []"
    using decompose_nonempty [of title body "issue_labels fstr (dict_at context ''issue'')"]
    by (simp add: tasks_def make_subtasks_def enumerate_eq_zip)
  ultimately have nonempty: "?graph \<noteq> []" by (metis length_0_conv)
  define labels where "labels = issue_labels fstr (dict_at context ''issue'')"
  define kind where "kind = (if has_key context ''specification_writer'' then ''subtasks'' else ''task_decomposition'')"
  define content where "content = decomposition context title (detect_mode title body labels) ?graph (map (\<lambda>t. [sub_id t]) ?graph)"
  define r where "r = build_agent_result ''SUCCESS'' kind content ''Task decomposition completed successfully.'' (9 / 10)
      [''Decomposed issue into '' @ nat_str (length ?graph) @ '' subtasks'', ''mode='' @ detect_mode title body labels,
       ''parallelizable_groups='' @ nat_str (length ?graph)] [''bdd_generator'', ''test_generator'']
    @ [(''artifact_type'', PStr kind), (''artifact_content'', PDict content)]"
  have "run_task_decomposer fstr context = Some r"
    using assms groups unfolding tasks_def r_def content_def kind_def labels_def by (simp add: run_task_decomposer_def Let_def)
  moreover have "dget r ''status'' = PStr ''SUCCESS''" "dget r ''artifact_content'' = PDict content"
    by (simp_all add: r_def build_agent_result_def dget_def)
  moreover have "dget content ''items'' = PList (map plan_item ?graph)"
    "dget content ''parallelizable_groups'' = PList (map (\<lambda>t. text_list [sub_id t]) ?graph)"
    by (simp_all add: content_def decomposition_def dget_def comp_def)
  ultimately show ?thesis using nonempty by blast
qed

end
