(* ===== verification/KeywordSearch.thy ===== *)
theory KeywordSearch
  imports Regex "HOL-Library.Sublist"
begin

text \<open>
  \<open>rag/keyword_index.py\<close>, \<open>rag/deduplicator.py\<close>, \<open>rag/context_compressor.py\<close> and the merging of results in
  \<open>rag/hybrid_retriever.py\<close>: the inverted index of words, the removal of duplicates, and the cutting
  of texts to a size. The results of the vector store are an argument. A set of document
  identifiers is a list without duplicates; the order in which Python iterates over it is the
  parameter \<open>perm\<close>.
\<close>

subsection \<open>The index\<close>

record document =
  dc_content :: string
  dc_metadata :: dict

record keyword_index =
  ki_inverted_index :: "(string \<times> string list) list"
  ki_documents :: "(string \<times> document) list"

definition new_keyword_index :: keyword_index where
  "new_keyword_index = \<lparr>ki_inverted_index = [], ki_documents = []\<rparr>"

text \<open>The longest runs of characters that satisfy \<open>p\<close>.\<close>

fun runs :: "(char \<Rightarrow> bool) \<Rightarrow> string \<Rightarrow> string \<Rightarrow> string list" where
  "runs p cur [] = (if cur = [] then [] else [rev cur])"
| "runs p cur (c # s) =
     (if p c then runs p (c # cur) s else if cur = [] then runs p [] s else rev cur # runs p [] s)"

text \<open>\<open>re.findall(r"\b\w+\b", text.lower())\<close>.\<close>

definition tokenize :: "string \<Rightarrow> string list" where
  "tokenize text = runs is_word_char [] (py_lower text)"

definition postings :: "(string \<times> string list) list \<Rightarrow> string \<Rightarrow> string list" where
  "postings entries token = (case map_of entries token of None \<Rightarrow> [] | Some ds \<Rightarrow> ds)"

definition post :: "string \<Rightarrow> string \<Rightarrow> (string \<times> string list) list \<Rightarrow> (string \<times> string list) list" where
  "post doc_id token entries = AList.update token (List.insert doc_id (postings entries token)) entries"

definition add_document :: "string \<Rightarrow> string \<Rightarrow> dict \<Rightarrow> keyword_index \<Rightarrow> keyword_index" where
  "add_document doc_id content metadata ix =
     ix\<lparr>ki_documents := AList.update doc_id \<lparr>dc_content = content, dc_metadata = metadata\<rparr> (ki_documents ix),
        ki_inverted_index := fold (post doc_id) (tokenize content) (ki_inverted_index ix)\<rparr>"

definition unpost :: "string \<Rightarrow> string \<Rightarrow> (string \<times> string list) list \<Rightarrow> (string \<times> string list) list" where
  "unpost doc_id token entries =
     (case map_of entries token of
        None \<Rightarrow> entries
      | Some ds \<Rightarrow>
          let rest = filter (\<lambda>d. d \<noteq> doc_id) ds in
          if rest = [] then dict_pop token entries else AList.update token rest entries)"

definition remove_document :: "string \<Rightarrow> keyword_index \<Rightarrow> keyword_index" where
  "remove_document doc_id ix =
     (case map_of (ki_documents ix) doc_id of
        None \<Rightarrow> ix
      | Some doc \<Rightarrow>
          ix\<lparr>ki_inverted_index := fold (unpost doc_id) (tokenize (dc_content doc)) (ki_inverted_index ix),
             ki_documents := dict_pop doc_id (ki_documents ix)\<rparr>)"

record search_result =
  sr_id :: string
  sr_score :: nat
  sr_content :: string
  sr_metadata :: dict

definition score_of :: "(string \<times> nat) list \<Rightarrow> string \<Rightarrow> nat" where
  "score_of m d = (case map_of m d of None \<Rightarrow> 0 | Some n \<Rightarrow> n)"

definition count_match :: "string \<Rightarrow> (string \<times> nat) list \<Rightarrow> (string \<times> nat) list" where
  "count_match d m = AList.update d (Suc (score_of m d)) m"

definition match_token :: "(string list \<Rightarrow> string list) \<Rightarrow> keyword_index \<Rightarrow> string \<Rightarrow> (string \<times> nat) list \<Rightarrow> (string \<times> nat) list" where
  "match_token perm ix token m =
     (case map_of (ki_inverted_index ix) token of None \<Rightarrow> m | Some ds \<Rightarrow> fold count_match (perm ds) m)"

definition found_document :: "keyword_index \<Rightarrow> string \<times> nat \<Rightarrow> exn + search_result" where
  "found_document ix = (\<lambda>(d, n).
     case map_of (ki_documents ix) d of
       None \<Rightarrow> Inl (KeyError d)
     | Some doc \<Rightarrow> Inr \<lparr>sr_id = d, sr_score = n, sr_content = dc_content doc, sr_metadata = dc_metadata doc\<rparr>)"

text \<open>\<open>xs[:limit]\<close>.\<close>

definition slice_to :: "int \<Rightarrow> 'a list \<Rightarrow> 'a list" where
  "slice_to limit xs = take (nat (if limit < 0 then int (length xs) + limit else limit)) xs"

definition ranked_matches :: "(string list \<Rightarrow> string list) \<Rightarrow> keyword_index \<Rightarrow> string \<Rightarrow> (string \<times> nat) list" where
  "ranked_matches perm ix query = sort_desc snd (fold (match_token perm ix) (tokenize query) [])"

definition search_index :: "(string list \<Rightarrow> string list) \<Rightarrow> keyword_index \<Rightarrow> string \<Rightarrow> int \<Rightarrow> exn + search_result list" where
  "search_index perm ix query limit =
     (if tokenize query = [] then Inr [] else mapE (found_document ix) (slice_to limit (ranked_matches perm ix query)))"

subsection \<open>The index holds the words of its documents\<close>

definition index_ok :: "keyword_index \<Rightarrow> bool" where
  "index_ok ix \<longleftrightarrow> (\<forall>token. distinct (postings (ki_inverted_index ix) token) \<and>
     set (postings (ki_inverted_index ix) token) =
       {d. \<exists>doc. map_of (ki_documents ix) d = Some doc \<and> token \<in> set (tokenize (dc_content doc))})"

lemma postings_post: "postings (fold (post d) tokens entries) t = (if t \<in> set tokens then List.insert d (postings entries t) else postings entries t)"
  by (induction tokens arbitrary: entries) (auto simp: post_def postings_def)

lemma postings_unpost:
  "postings (fold (unpost d) tokens entries) t = (if t \<in> set tokens then filter (\<lambda>x. x \<noteq> d) (postings entries t) else postings entries t)"
proof (induction tokens arbitrary: entries)
  case (Cons a tokens)
  have "postings (unpost d a entries) t = (if t = a then filter (\<lambda>x. x \<noteq> d) (postings entries t) else postings entries t)"
    by (auto simp: unpost_def postings_def Let_def split: option.splits)
  with Cons.IH show ?case by auto
qed simp

lemma index_ok_new: "index_ok new_keyword_index"
  by (simp add: index_ok_def new_keyword_index_def postings_def)

lemma index_ok_add:
  assumes "index_ok ix" "map_of (ki_documents ix) d = None"
  shows "index_ok (add_document d content metadata ix)"
  using assms by (auto simp: index_ok_def add_document_def postings_post)

lemma index_ok_remove: "index_ok ix \<Longrightarrow> index_ok (remove_document d ix)"
  by (auto simp: index_ok_def remove_document_def postings_unpost split: option.splits)

text \<open>The indexes that come about when a document is only added while its identifier is free.\<close>

inductive built_index :: "keyword_index \<Rightarrow> bool" where
  built_new: "built_index new_keyword_index"
| built_add: "built_index ix \<Longrightarrow> map_of (ki_documents ix) d = None \<Longrightarrow> built_index (add_document d content metadata ix)"
| built_remove: "built_index ix \<Longrightarrow> built_index (remove_document d ix)"

lemma built_index_ok: "built_index ix \<Longrightarrow> index_ok ix"
  by (induction rule: built_index.induct) (simp_all add: index_ok_new index_ok_add index_ok_remove)

subsection \<open>The scores\<close>

lemma count_matches_score:
  "distinct ds \<Longrightarrow> score_of (fold count_match ds m) d = score_of m d + (if d \<in> set ds then 1 else 0)"
  by (induction ds arbitrary: m) (auto simp: count_match_def score_of_def)

lemma count_match_keys:
  "fst ` set (fold count_match ds m) = set ds \<union> fst ` set m"
  "distinct (map fst m) \<Longrightarrow> distinct (map fst (fold count_match ds m))"
  by (induction ds arbitrary: m) (auto simp: count_match_def keys_update distinct_update)

definition iteration_order :: "(string list \<Rightarrow> string list) \<Rightarrow> bool" where
  "iteration_order perm \<longleftrightarrow> (\<forall>ds. distinct ds \<longrightarrow> distinct (perm ds) \<and> set (perm ds) = set ds)"

text \<open>How many words of the query, counted as often as they occur in it, the document has.\<close>

definition hits :: "string \<Rightarrow> string \<Rightarrow> nat" where
  "hits query content = length (filter (\<lambda>t. t \<in> set (tokenize content)) (tokenize query))"

definition doc_hits :: "keyword_index \<Rightarrow> string \<Rightarrow> string \<Rightarrow> nat" where
  "doc_hits ix query d = (case map_of (ki_documents ix) d of None \<Rightarrow> 0 | Some doc \<Rightarrow> hits query (dc_content doc))"

lemma count_match_pos:
  assumes "\<forall>(d, n) \<in> set m. 0 < n"
  shows "\<forall>(d, n) \<in> set (count_match a m). 0 < n"
proof -
  have "set (AList.update a (Suc k) m) \<subseteq> insert (a, Suc k) (set m)" for k
    by (induction m) (auto split: if_splits)
  with assms show ?thesis by (fastforce simp: count_match_def)
qed

lemma count_matches_pos: "\<forall>(d, n) \<in> set m. 0 < n \<Longrightarrow> \<forall>(d, n) \<in> set (fold count_match ds m). 0 < n"
proof (induction ds arbitrary: m)
  case (Cons a ds)
  show ?case unfolding fold_simps by (rule Cons.IH [OF count_match_pos [OF Cons.prems]])
qed simp

lemma match_tokens:
  assumes "index_ok ix" "iteration_order perm" "distinct (map fst m)" "\<forall>(d, n) \<in> set m. 0 < n"
  shows "distinct (map fst (fold (match_token perm ix) tokens m)) \<and> (\<forall>(d, n) \<in> set (fold (match_token perm ix) tokens m). 0 < n) \<and>
    score_of (fold (match_token perm ix) tokens m) d = score_of m d +
      (case map_of (ki_documents ix) d of None \<Rightarrow> 0 | Some doc \<Rightarrow> length (filter (\<lambda>t. t \<in> set (tokenize (dc_content doc))) tokens))"
  using assms(3, 4)
proof (induction tokens arbitrary: m)
  case (Cons t tokens)
  let ?ds = "perm (postings (ki_inverted_index ix) t)"
  have perm: "perm [] = []" using assms(2) by (auto simp: iteration_order_def dest: spec [of _ "[]"])
  have step: "match_token perm ix t m = fold count_match ?ds m"
    by (simp add: match_token_def postings_def perm split: option.splits)
  have ds: "distinct ?ds" "set ?ds = {d. \<exists>doc. map_of (ki_documents ix) d = Some doc \<and> t \<in> set (tokenize (dc_content doc))}"
    using assms(1, 2) by (auto simp: index_ok_def iteration_order_def)
  have "score_of (match_token perm ix t m) d = score_of m d + (if d \<in> set ?ds then 1 else 0)"
    unfolding step using count_matches_score [OF ds(1)] by simp
  moreover have "distinct (map fst (match_token perm ix t m))" "\<forall>(d, n) \<in> set (match_token perm ix t m). 0 < n"
    unfolding step using count_match_keys(2) [OF Cons.prems(1)] count_matches_pos [OF Cons.prems(2)] by simp_all
  ultimately show ?case using Cons.IH [of "match_token perm ix t m"] ds(2) by (auto split: option.splits)
qed (simp split: option.split)

text \<open>What is ranked are the documents with a word of the query, each with the number of its hits.\<close>

lemma set_ranked_matches:
  assumes "index_ok ix" "iteration_order perm"
  shows "set (ranked_matches perm ix query) = {(d, doc_hits ix query d) | d. 0 < doc_hits ix query d}"
    and "distinct (map fst (ranked_matches perm ix query))"
proof -
  let ?m = "fold (match_token perm ix) (tokenize query) []"
  have m: "distinct (map fst ?m)" "\<forall>(d, n) \<in> set ?m. 0 < n" "score_of ?m d = doc_hits ix query d" for d
    using match_tokens [OF assms, of "[]" "tokenize query" d]
    by (simp_all add: doc_hits_def hits_def score_of_def cong: option.case_cong)
  have "(d, n) \<in> set ?m \<longleftrightarrow> map_of ?m d = Some n" for d n using m(1) by simp
  moreover have "map_of ?m d = Some n \<longleftrightarrow> n = doc_hits ix query d \<and> 0 < n" for d n
    using m(2) m(3) [of d] by (auto simp: score_of_def split: option.splits dest: map_of_SomeD)
  ultimately show "set (ranked_matches perm ix query) = {(d, doc_hits ix query d) | d. 0 < doc_hits ix query d}"
    by (auto simp: ranked_matches_def)
  have "mset (map fst (ranked_matches perm ix query)) = mset (map fst ?m)"
    by (simp add: ranked_matches_def sort_desc_def)
  with m(1) show "distinct (map fst (ranked_matches perm ix query))" by (metis mset_eq_imp_distinct_iff)
qed

text \<open>C40: However documents are added, each under a free identifier, and removed, a search never fails:
  it returns documents of the index with a word of the query, with their contents, none twice and
  ranked by the number of hits; as many as the limit allows, and none that is left out has more
  hits than one that is returned.\<close>

theorem search_correct:
  assumes "built_index ix" "iteration_order perm" "0 \<le> limit"
  shows "\<exists>rs. search_index perm ix query limit = Inr rs \<and> distinct (map sr_id rs) \<and>
    list_all (\<lambda>r. map_of (ki_documents ix) (sr_id r) = Some \<lparr>dc_content = sr_content r, dc_metadata = sr_metadata r\<rparr> \<and>
      sr_score r = hits query (sr_content r) \<and> 0 < sr_score r) rs \<and>
    sorted_wrt (\<lambda>r s. sr_score s \<le> sr_score r) rs \<and>
    length rs = min (nat limit) (card {d. 0 < doc_hits ix query d}) \<and>
    (\<forall>d. d \<notin> sr_id ` set rs \<longrightarrow> list_all (\<lambda>r. doc_hits ix query d \<le> sr_score r) rs)"
proof -
  let ?ms = "ranked_matches perm ix query"
  note ok = built_index_ok [OF assms(1)]
  note ms = set_ranked_matches [OF ok assms(2), of query]
  have sorted: "sorted_wrt (\<lambda>p q. snd q \<le> snd p) ?ms"
    unfolding ranked_matches_def by (rule sorted_sort_desc)
  define result where "result = (\<lambda>(d, n). case map_of (ki_documents ix) d of
      Some doc \<Rightarrow> \<lparr>sr_id = d, sr_score = n, sr_content = dc_content doc, sr_metadata = dc_metadata doc\<rparr>
    | None \<Rightarrow> \<lparr>sr_id = d, sr_score = n, sr_content = [], sr_metadata = []\<rparr>)"
  have result: "sr_id (result p) = fst p" "sr_score (result p) = snd p" for p
    by (simp_all add: result_def case_prod_unfold split: option.split)
  have found: "\<exists>doc. map_of (ki_documents ix) d = Some doc \<and> n = hits query (dc_content doc) \<and> 0 < n" if "(d, n) \<in> set ?ms" for d n
    using that unfolding ms(1) by (auto simp: doc_hits_def split: option.splits)
  let ?top = "take (nat limit) ?ms"
  have top: "set ?top \<subseteq> set ?ms" by (rule set_take_subset)
  have "mapE (found_document ix) ?top = Inr (map result ?top)"
    unfolding mapE_Inr_iff list_all2_map2 list_all2_same [symmetric]
    using top found by (force simp: list_all2_same found_document_def result_def)
  moreover have "?ms = []" if "tokenize query = []" using that by (simp add: ranked_matches_def sort_desc_def)
  ultimately have run: "search_index perm ix query limit = Inr (map result ?top)"
    using assms(3) by (auto simp: search_index_def slice_to_def)
  have "fst ` set ?ms = {d. 0 < doc_hits ix query d}" unfolding ms(1) by force
  then have "card {d. 0 < doc_hits ix query d} = length ?ms"
    using distinct_card [OF ms(2)] by simp
  then have len: "length (map result ?top) = min (nat limit) (card {d. 0 < doc_hits ix query d})" by (simp add: min.commute)
  have others: "doc_hits ix query d \<le> snd p" if d: "d \<notin> fst ` set ?top" and p: "p \<in> set ?top" for d p
  proof (cases "0 < doc_hits ix query d")
    case True
    then have "(d, doc_hits ix query d) \<in> set ?ms" unfolding ms(1) by blast
    then have "(d, doc_hits ix query d) \<in> set ?top \<union> set (drop (nat limit) ?ms)" by (metis append_take_drop_id set_append)
    with d have "(d, doc_hits ix query d) \<in> set (drop (nat limit) ?ms)" by force
    moreover have "sorted_wrt (\<lambda>p q. snd q \<le> snd p) (?top @ drop (nat limit) ?ms)" using sorted by simp
    ultimately show ?thesis using p unfolding sorted_wrt_append by fastforce
  qed simp
  have ids: "map sr_id (map result ?top) = map fst ?top" by (simp add: result comp_def)
  have "distinct (map sr_id (map result ?top))"
    unfolding ids using ms(2) distinct_take [of "map fst ?ms"] by (simp add: take_map)
  moreover have "list_all (\<lambda>r. map_of (ki_documents ix) (sr_id r) = Some \<lparr>dc_content = sr_content r, dc_metadata = sr_metadata r\<rparr> \<and>
      sr_score r = hits query (sr_content r) \<and> 0 < sr_score r) (map result ?top)"
    unfolding list_all_iff set_map
  proof (intro ballI, elim imageE)
    fix r p assume r: "r = result p" "p \<in> set ?top"
    then have "(fst p, snd p) \<in> set ?ms" using top by auto
    from found [OF this] obtain doc where
      "map_of (ki_documents ix) (fst p) = Some doc" "snd p = hits query (dc_content doc)" "0 < snd p" by blast
    with r show "map_of (ki_documents ix) (sr_id r) = Some \<lparr>dc_content = sr_content r, dc_metadata = sr_metadata r\<rparr> \<and>
        sr_score r = hits query (sr_content r) \<and> 0 < sr_score r"
      by (simp add: result_def case_prod_unfold)
  qed
  moreover have "sorted_wrt (\<lambda>r s. sr_score s \<le> sr_score r) (map result ?top)"
    using sorted_wrt_take [OF sorted] by (simp add: sorted_wrt_map result)
  moreover have "list_all (\<lambda>r. doc_hits ix query d \<le> sr_score r) (map result ?top)" if "d \<notin> sr_id ` set (map result ?top)" for d
    using that others by (simp add: list_all_iff image_image result)
  ultimately show ?thesis using run len by (intro exI [of _ "map result ?top"] conjI allI impI)
qed

definition sample_index :: keyword_index where
  "sample_index = add_document ''b'' ''y z'' [] (add_document ''a'' ''x y'' [] new_keyword_index)"

lemma search_correct_witness:
  "\<exists>rs. search_index (\<lambda>ds. ds) sample_index ''x y'' 10 = Inr rs \<and> distinct (map sr_id rs) \<and>
     sorted_wrt (\<lambda>r s. sr_score s \<le> sr_score r) rs \<and> length rs = min 10 (card {d. 0 < doc_hits sample_index ''x y'' d})"
proof -
  have "built_index sample_index" unfolding sample_index_def
    by (intro built_index.intros) (simp_all add: new_keyword_index_def add_document_def)
  moreover have "iteration_order (\<lambda>ds. ds)" by (simp add: iteration_order_def)
  ultimately show ?thesis using search_correct [of sample_index "\<lambda>ds. ds" 10 "''x y''"] by auto
qed

text \<open>A document that is added again under its identifier leaves its old words behind: once it is
  removed, a search for one of them fails.\<close>

lemma readded_document_breaks:
  "search_index (\<lambda>ds. ds)
     (remove_document ''a'' (add_document ''a'' ''y'' [] (add_document ''a'' ''x'' [] new_keyword_index))) ''x'' 10 =
   Inl (KeyError ''a'')"
  by code_simp

subsection \<open>Duplicates\<close>

fun dedup :: "'a list \<Rightarrow> 'a list \<Rightarrow> 'a list" where
  "dedup seen [] = []"
| "dedup seen (x # xs) = (if x \<in> set seen then dedup seen xs else x # dedup (x # seen) xs)"

definition deduplicate_list :: "'a list \<Rightarrow> 'a list" where
  "deduplicate_list xs = dedup [] xs"

lemma set_dedup: "set (dedup seen xs) = set xs - set seen"
  by (induction xs arbitrary: seen) auto

lemma distinct_dedup: "distinct (dedup seen xs)"
  by (induction xs arbitrary: seen) (auto simp: set_dedup)

lemma subseq_dedup: "subseq (dedup seen xs) xs"
  by (induction xs arbitrary: seen) auto

text \<open>Chunks are told apart by the hash of their content, a parameter; lists and dictionaries have none.\<close>

definition hash_key :: "(pyval \<Rightarrow> int) \<Rightarrow> pyval \<Rightarrow> exn + int" where
  "hash_key py_hash v =
     (if is_list v \<or> is_dict v then Inl (TypeError (''unhashable type: '' @ repr_string (type_name v))) else Inr (py_hash v))"

fun dedup_chunks :: "(pyval \<Rightarrow> int) \<Rightarrow> int list \<Rightarrow> dict list \<Rightarrow> exn + dict list" where
  "dedup_chunks py_hash seen [] = Inr []"
| "dedup_chunks py_hash seen (c # cs) =
     bindE (hash_key py_hash (dget_or c ''content'' (PStr []))) (\<lambda>h.
       if h \<in> set seen then dedup_chunks py_hash seen cs
       else bindE (dedup_chunks py_hash (h # seen) cs) (\<lambda>rest. Inr (c # rest)))"

definition deduplicate_chunks :: "(pyval \<Rightarrow> int) \<Rightarrow> dict list \<Rightarrow> exn + dict list" where
  "deduplicate_chunks py_hash chunks = dedup_chunks py_hash [] chunks"

subsection \<open>Cutting a context\<close>

text \<open>\<open>s.split()\<close>.\<close>

definition py_words :: "string \<Rightarrow> string list" where
  "py_words s = runs (\<lambda>c. \<not> py_isspace c) [] s"

fun compress_lines :: "rat \<Rightarrow> nat \<Rightarrow> string list \<Rightarrow> string list" where
  "compress_lines estimated_words n [] = []"
| "compress_lines estimated_words n (l # ls) =
     (let k = length (py_words l) in
      if of_nat (n + k) \<le> estimated_words then l # compress_lines estimated_words (n + k) ls
      else let r = \<lfloor>estimated_words - of_nat n\<rfloor> in
        if r > 0 then [join '' '' (take (nat r) (py_words l))] else [])"

definition compress_context :: "string \<Rightarrow> int \<Rightarrow> string" where
  "compress_context text max_tokens =
     join [CHR 0x0A] (compress_lines (3 / 4 * of_int max_tokens) 0 (deduplicate_list (split_on CHR 0x0A text)))"

text \<open>\<open>n\<close> is the length of the text gathered so far. The chunk that does not fit is cut, and the rest
  left out.\<close>

fun compress_chunk_list :: "int \<Rightarrow> int \<Rightarrow> dict list \<Rightarrow> exn + dict list" where
  "compress_chunk_list max_tokens n [] = Inr []"
| "compress_chunk_list max_tokens n (c # cs) =
     (case dget_or c ''content'' (PStr []) of
        PStr s \<Rightarrow>
          if n + int (length s) < max_tokens * 4
          then bindE (compress_chunk_list max_tokens (n + int (length s) + 1) cs) (\<lambda>rest. Inr (c # rest))
          else (let space = max_tokens * 4 - n in
            if space > 0 then Inr [dset ''content'' (PStr (take (nat \<lfloor>4 / 5 * rat_of_int space\<rfloor>) s)) c] else Inr [])
      | v \<Rightarrow> Inl (TypeError (''object of type '' @ quoted (type_name v) @ '' has no len()'')))"

definition compress_chunks :: "(pyval \<Rightarrow> int) \<Rightarrow> dict list \<Rightarrow> int \<Rightarrow> exn + dict list" where
  "compress_chunks py_hash chunks max_tokens = bindE (deduplicate_chunks py_hash chunks) (compress_chunk_list max_tokens 0)"

lemma runs_split: "\<not> p c \<Longrightarrow> runs p cur (a @ c # b) = runs p cur a @ runs p [] b"
  by (induction a arbitrary: cur) auto

lemma runs_all: "list_all p w \<Longrightarrow> runs p cur w = (if rev w @ cur = [] then [] else [rev cur @ w])"
  by (induction w arbitrary: cur) auto

lemma runs_words: "list_all p cur \<Longrightarrow> w \<in> set (runs p cur s) \<Longrightarrow> w \<noteq> [] \<and> list_all p w"
  by (induction p cur s rule: runs.induct) (auto split: if_splits)

lemma py_words_join: "py_isspace c \<Longrightarrow> py_words (join [c] ls) = concat (map py_words ls)"
  by (induction "[c]" ls rule: join.induct) (simp_all add: py_words_def runs_split)

lemma py_words_words: "list_all (\<lambda>w. w \<noteq> [] \<and> list_all (\<lambda>c. \<not> py_isspace c) w) ws \<Longrightarrow> py_words (join '' '' ws) = ws"
proof -
  assume "list_all (\<lambda>w. w \<noteq> [] \<and> list_all (\<lambda>c. \<not> py_isspace c) w) ws"
  then have "concat (map py_words ws) = ws" by (induction ws) (simp_all add: py_words_def runs_all)
  moreover have "py_isspace (CHR '' '')" by (simp add: py_isspace_def)
  ultimately show ?thesis by (simp add: py_words_join)
qed

lemma take_words: "py_words (join '' '' (take r (py_words l))) = take r (py_words l)"
  by (rule py_words_words) (auto simp: list_all_iff py_words_def dest!: in_set_takeD runs_words [rotated])

lemma compress_lines_words:
  "of_nat n \<le> e \<Longrightarrow> of_nat (n + length (concat (map py_words (compress_lines e n ls)))) \<le> e"
proof (induction ls arbitrary: n)
  case (Cons l ls)
  show ?case
  proof (cases "of_nat (n + length (py_words l)) \<le> e")
    case True
    then show ?thesis using Cons.IH [OF True] by (simp add: add.assoc)
  next
    case False
    let ?r = "\<lfloor>e - of_nat n\<rfloor>"
    have "of_nat (n + min (nat ?r) (length (py_words l))) \<le> e" if "0 < ?r"
    proof -
      have "of_nat (min (nat ?r) (length (py_words l))) \<le> (of_int ?r :: rat)"
        using that by (metis min.cobounded1 of_nat_le_iff of_int_of_nat_eq nat_0_le less_imp_le)
      also have "\<dots> \<le> e - of_nat n" by (rule of_int_floor_le)
      finally show ?thesis by simp
    qed
    with False Cons.prems show ?thesis by (simp add: Let_def take_words min.commute)
  qed
qed simp

text \<open>A compressed context has at most three words for four tokens.\<close>

lemma compress_context_bounded: "of_nat (length (py_words (compress_context text max_tokens))) \<le> max 0 (3 / 4 * rat_of_int max_tokens)"
proof (cases "0 \<le> max_tokens")
  case True
  have "py_isspace (CHR 0x0A)" by (simp add: py_isspace_def)
  then show ?thesis
    using compress_lines_words [of 0 "3 / 4 * rat_of_int max_tokens" "deduplicate_list (split_on CHR 0x0A text)"] True
    by (simp add: compress_context_def py_words_join)
next
  case False
  then have "3 / 4 * rat_of_int max_tokens < 0" by simp
  then have "compress_lines (3 / 4 * rat_of_int max_tokens) 0 ls = []" for ls
    by (cases ls) (auto simp: Let_def not_le less_trans [OF _ of_nat_0_le_iff [THEN le_less_trans]])
  then show ?thesis by (simp add: compress_context_def py_words_def)
qed

text \<open>Compressed chunks have at most four characters for a token.\<close>

definition content_length :: "dict \<Rightarrow> nat" where
  "content_length c = (case dget_or c ''content'' (PStr []) of PStr s \<Rightarrow> length s | _ \<Rightarrow> 0)"

lemma compress_chunk_list_bounded:
  "compress_chunk_list m n cs = Inr ds \<Longrightarrow> n + int (sum_list (map content_length ds)) \<le> max n (m * 4)"
proof (induction cs arbitrary: n ds)
  case (Cons c cs)
  from Cons.prems obtain s where s: "dget_or c ''content'' (PStr []) = PStr s" by (auto split: pyval.splits)
  show ?case
  proof (cases "n + int (length s) < m * 4")
    case True
    with Cons.prems s obtain rest where "compress_chunk_list m (n + int (length s) + 1) cs = Inr rest" "ds = c # rest"
      by (auto simp: returns_iff)
    with Cons.IH [of "n + int (length s) + 1" rest] True s show ?thesis by (simp add: content_length_def)
  next
    case False
    let ?space = "m * 4 - n"
    have "int (nat \<lfloor>4 / 5 * rat_of_int x\<rfloor>) \<le> x" if "0 < x" for x
    proof -
      have "\<lfloor>4 / 5 * rat_of_int x\<rfloor> \<le> \<lfloor>rat_of_int x\<rfloor>" using that by (intro floor_mono) simp
      with that show ?thesis by simp
    qed
    from this [of ?space] False Cons.prems s show ?thesis
      by (auto simp: Let_def content_length_def split: if_splits)
  qed
qed simp

subsection \<open>Merging vector and keyword results\<close>

record vector_result =
  vr_id :: string
  vr_score :: rat
  vr_payload :: dict

record merged_result =
  mr_id :: string
  mr_score :: rat
  mr_content :: pyval
  mr_metadata :: dict

text \<open>The positions from one on; of two results with one identifier the later counts.\<close>

definition rank_map :: "string list \<Rightarrow> (string \<times> nat) list" where
  "rank_map ids = fold (\<lambda>(i, d). AList.update d (Suc i)) (enumerate 0 ids) []"

definition combined_score :: "rat \<Rightarrow> vector_result list \<Rightarrow> search_result list \<Rightarrow> string \<Rightarrow> rat" where
  "combined_score alpha vs ks d =
     (case find (\<lambda>v. vr_id v = d) vs of None \<Rightarrow> 0 | Some v \<Rightarrow> alpha * vr_score v) +
     (case map_of (rank_map (map sr_id ks)) d of None \<Rightarrow> 0 | Some r \<Rightarrow> (1 - alpha) * (1 / of_nat (60 + r)))"

definition merged_document :: "rat \<Rightarrow> vector_result list \<Rightarrow> search_result list \<Rightarrow> string \<Rightarrow> merged_result" where
  "merged_document alpha vs ks d =
     (let r = \<lparr>mr_id = d, mr_score = combined_score alpha vs ks d, mr_content = PNone, mr_metadata = []\<rparr> in
      case find (\<lambda>v. vr_id v = d) vs of
        Some v \<Rightarrow> r\<lparr>mr_content := dget_or (vr_payload v) ''content'' (PStr []), mr_metadata := vr_payload v\<rparr>
      | None \<Rightarrow>
          (case find (\<lambda>k. sr_id k = d) ks of
             Some k \<Rightarrow> r\<lparr>mr_content := PStr (sr_content k), mr_metadata := sr_metadata k\<rparr>
           | None \<Rightarrow> r))"

definition merge_results ::
  "(string list \<Rightarrow> string list) \<Rightarrow> vector_result list \<Rightarrow> search_result list \<Rightarrow> rat \<Rightarrow> int \<Rightarrow> merged_result list" where
  "merge_results perm vs ks alpha limit =
     slice_to limit (sort_desc mr_score (map (merged_document alpha vs ks) (perm (remdups (map vr_id vs @ map sr_id ks)))))"

text \<open>The merged results are the first of the results' documents, each once, in the order of the combined
  score.\<close>

lemma merge_results_ranked:
  assumes "iteration_order perm"
  shows "sorted_wrt (\<lambda>r s. mr_score s \<le> mr_score r) (merge_results perm vs ks alpha limit)"
    and "distinct (map mr_id (merge_results perm vs ks alpha limit))"
    and "mr_id ` set (merge_results perm vs ks alpha limit) \<subseteq> vr_id ` set vs \<union> sr_id ` set ks"
proof -
  let ?ids = "perm (remdups (map vr_id vs @ map sr_id ks))"
  let ?all = "sort_desc mr_score (map (merged_document alpha vs ks) ?ids)"
  have ids: "distinct ?ids" "set ?ids = vr_id ` set vs \<union> sr_id ` set ks" using assms by (simp_all add: iteration_order_def)
  have mr: "mr_id (merged_document alpha vs ks d) = d" for d by (simp add: merged_document_def Let_def split: option.splits)
  have "mset (map mr_id ?all) = mset ?ids" by (simp add: sort_desc_def image_mset.compositionality comp_def mr)
  then have all: "distinct (map mr_id ?all)" "mr_id ` set ?all = set ?ids"
    using ids(1) by (metis mset_eq_imp_distinct_iff, simp add: image_image mr)
  show "sorted_wrt (\<lambda>r s. mr_score s \<le> mr_score r) (merge_results perm vs ks alpha limit)"
    unfolding merge_results_def slice_to_def by (intro sorted_wrt_take sorted_sort_desc)
  show "distinct (map mr_id (merge_results perm vs ks alpha limit))"
    unfolding merge_results_def slice_to_def take_map [symmetric] by (intro distinct_take all(1))
  show "mr_id ` set (merge_results perm vs ks alpha limit) \<subseteq> vr_id ` set vs \<union> sr_id ` set ks"
    unfolding ids(2) [symmetric] all(2) [symmetric] merge_results_def slice_to_def by (intro image_mono set_take_subset)
qed

end
