(* ===== verification/MemoryPolicy.thy ===== *)
theory MemoryPolicy
  imports StateExn PyValue
begin

text \<open>
  \<open>orchestrator/memory_policy.py\<close> and, of \<open>orchestrator/hooks.py\<close>, the promotion of short-term
  entries at the end of a run. The memory store is the parameter \<open>add\<close>, which may raise. How a step
  makes an entry is not modelled: the list of agents is shared between the entries.
\<close>

subsection \<open>The policy\<close>

record promotion_policy =
  pp_allowed_run_statuses :: "string list"
  pp_blocked_step_statuses :: "string list"
  pp_allowed_entry_types :: "string list"

definition new_promotion_policy :: "string list option \<Rightarrow> string list option \<Rightarrow> string list option \<Rightarrow> promotion_policy" where
  "new_promotion_policy runs steps types =
     \<lparr>pp_allowed_run_statuses = (case runs of None \<Rightarrow> [''SUCCESS'', ''PARTIAL_SUCCESS''] | Some xs \<Rightarrow> xs),
      pp_blocked_step_statuses = (case steps of None \<Rightarrow> [''FAILED'', ''BLOCKED''] | Some xs \<Rightarrow> xs),
      pp_allowed_entry_types = (case types of None \<Rightarrow> [''task'', ''patch''] | Some xs \<Rightarrow> xs)\<rparr>"

text \<open>\<open>str(d.get(k, "")).strip()\<close> and \<open>str(d.get(k) or "").strip()\<close>.\<close>

definition stripped_at :: "(rat \<Rightarrow> string) \<Rightarrow> dict \<Rightarrow> string \<Rightarrow> string" where
  "stripped_at fstr d k = py_strip (py_str fstr (dget_or d k (PStr [])))"

definition text_or_empty :: "(rat \<Rightarrow> string) \<Rightarrow> pyval \<Rightarrow> string" where
  "text_or_empty fstr v = py_strip (if truthy v then py_str fstr v else [])"

definition from_fallback :: "(rat \<Rightarrow> string) \<Rightarrow> pyval \<Rightarrow> bool" where
  "from_fallback fstr artifact =
     (case artifact of
        PDict a \<Rightarrow>
          (case dget a ''content'' of
             PDict c \<Rightarrow> stripped_at fstr c ''source'' = ''memory_agent_fallback'' \<or> stripped_at fstr c ''note'' = ''fallback_empty_patch''
           | _ \<Rightarrow> False)
      | _ \<Rightarrow> False)"

definition is_unstable :: "(rat \<Rightarrow> string) \<Rightarrow> dict \<Rightarrow> dict \<Rightarrow> bool" where
  "is_unstable fstr step_result payload \<longleftrightarrow>
     truthy (dget step_result ''fallback_generated'') \<or>
     (case dget step_result ''result'' of PDict r \<Rightarrow> stripped_at fstr r ''source'' = ''memory_agent_fallback'' | _ \<Rightarrow> False) \<or>
     stripped_at fstr payload ''note'' = ''fallback_empty_patch'' \<or>
     (case dget_or step_result ''artifacts'' (PList []) of PList xs \<Rightarrow> list_ex (from_fallback fstr) xs | _ \<Rightarrow> False)"

definition should_promote :: "(rat \<Rightarrow> string) \<Rightarrow> promotion_policy \<Rightarrow> string \<Rightarrow> dict \<Rightarrow> dict \<Rightarrow> bool" where
  "should_promote fstr p run_status step_result payload \<longleftrightarrow>
     py_upper (py_strip run_status) \<in> set (pp_allowed_run_statuses p) \<and>
     py_upper (text_or_empty fstr (dget step_result ''status'')) \<notin> set (pp_blocked_step_statuses p) \<and>
     \<not> is_unstable fstr step_result payload \<and>
     (let t = py_lower (text_or_empty fstr (dget payload ''type'')) in t = [] \<or> t \<in> set (pp_allowed_entry_types p))"

subsection \<open>Promotion\<close>

text \<open>What an entry is promoted as: its description and its payload, if it may be promoted.\<close>

definition promotable :: "(rat \<Rightarrow> string) \<Rightarrow> promotion_policy \<Rightarrow> string \<Rightarrow> pyval \<Rightarrow> (string \<times> dict) option" where
  "promotable fstr p run_status item =
     (case item of
        PDict d \<Rightarrow>
          (case (dget d ''step_result'', dget d ''entry'') of
             (PDict step_result, PDict payload) \<Rightarrow>
               let task = text_or_empty fstr (dget d ''task_description'') in
               if task \<noteq> [] \<and> should_promote fstr p run_status step_result payload then Some (task, payload) else None
           | _ \<Rightarrow> None)
      | _ \<Rightarrow> None)"

fun promote_items :: "(string \<Rightarrow> dict \<Rightarrow> ('s, unit) st) \<Rightarrow> (rat \<Rightarrow> string) \<Rightarrow> promotion_policy \<Rightarrow> string \<Rightarrow> pyval list \<Rightarrow> nat \<Rightarrow> 's \<Rightarrow> nat \<times> 's" where
  "promote_items add fstr p run_status [] promoted s = (promoted, s)"
| "promote_items add fstr p run_status (item # items) promoted s =
     (case promotable fstr p run_status item of
        None \<Rightarrow> promote_items add fstr p run_status items promoted s
      | Some (task, payload) \<Rightarrow>
          (case add task payload s of
             (Inr _, s') \<Rightarrow> promote_items add fstr p run_status items (Suc promoted) s'
           | (Inl _, s') \<Rightarrow> promote_items add fstr p run_status items promoted s'))"

definition short_term_key :: string where
  "short_term_key = ''__short_term_memory_entries''"

definition promote_short_term ::
  "(string \<Rightarrow> dict \<Rightarrow> ('s, unit) st) \<Rightarrow> (rat \<Rightarrow> string) \<Rightarrow> promotion_policy \<Rightarrow> string \<Rightarrow> dict \<Rightarrow> 's \<Rightarrow> nat \<times> dict \<times> 's" where
  "promote_short_term add fstr p run_status context s =
     (case dget context short_term_key of
        PList (item # items) \<Rightarrow>
          (case promote_items add fstr p run_status (item # items) 0 s of
             (n, s') \<Rightarrow> (n, dset short_term_key (PList []) context, s'))
      | _ \<Rightarrow> (0, context, s))"

subsection \<open>What is promoted\<close>

text \<open>The store sees the promotable entries, in order, and nothing else; an error of the store affects
  its entry only, which is not counted.\<close>

definition store_all :: "(string \<Rightarrow> dict \<Rightarrow> ('s, unit) st) \<Rightarrow> (string \<times> dict) list \<Rightarrow> 's \<Rightarrow> 's" where
  "store_all add = fold (\<lambda>(task, payload) s. snd (add task payload s))"

lemma promote_items_store:
  "snd (promote_items add fstr p run_status items n s) = store_all add (List.map_filter (promotable fstr p run_status) items) s \<and>
   n \<le> fst (promote_items add fstr p run_status items n s) \<and>
   fst (promote_items add fstr p run_status items n s) \<le> n + length (List.map_filter (promotable fstr p run_status) items)"
proof (induction items arbitrary: n s)
  case (Cons item items)
  show ?case
  proof (cases "promotable fstr p run_status item")
    case None
    then show ?thesis using Cons.IH by (simp add: map_filter_simps)
  next
    case (Some tp)
    obtain task payload r s' where c: "tp = (task, payload)" "add task payload s = (r, s')" by (metis surj_pair)
    then show ?thesis using Some Cons.IH [of n s'] Cons.IH [of "Suc n" s']
      by (cases r) (simp_all add: map_filter_simps store_all_def)
  qed
qed (simp add: store_all_def map_filter_simps)

text \<open>A run that ends in a status the policy does not allow promotes nothing and forgets its entries, and
  a second promotion does nothing.\<close>

lemma refused_run_promotes_nothing:
  assumes "py_upper (py_strip run_status) \<notin> set (pp_allowed_run_statuses p)"
  shows "\<exists>context'. promote_short_term add fstr p run_status context s = (0, context', s)"
proof -
  have "promotable fstr p run_status item = None" for item
    using assms by (auto simp: promotable_def should_promote_def Let_def split: pyval.splits)
  then have "promote_items add fstr p run_status items n s = (n, s)" for items n by (induction items) simp_all
  then show ?thesis by (auto simp: promote_short_term_def simp del: promote_items.simps split: pyval.splits list.splits)
qed

lemma promoted_once:
  assumes "promote_short_term add fstr p run_status context s = (n, context', s')" "n \<noteq> 0"
  shows "promote_short_term add fstr p run_status2 context' s2 = (0, context', s2)"
  using assms by (auto simp: promote_short_term_def simp del: promote_items.simps split: pyval.splits list.splits prod.splits)

end
