(* ===== verification/GatewayProps.thy ===== *)
theory GatewayProps
  imports Gateway
begin

text \<open>
  What a request for a pipeline promises: a request outside its tenant's boundary changes
  nothing; every run that is started is stored, finished and counted, whatever the engine
  does; and a request that repeats the key of an answered one runs nothing, as long as the
  key is remembered and whatever is requested in between (\<open>holds_key\<close>).
\<close>

subsection \<open>What a running handler leaves alone\<close>

text \<open>While the engine runs, the handler changes its record, the files and the clock.\<close>

definition identity :: "run_record \<Rightarrow> string \<times> string" where
  "identity r = (rr_run_id r, rr_tenant_id r)"

definition handler_frame :: "gateway \<Rightarrow> gateway \<Rightarrow> bool" where
  "handler_frame s0 s \<longleftrightarrow>
     gw_calls s = gw_calls s0 \<and> gw_idem s = gw_idem s0 \<and> gw_queue s = gw_queue s0 \<and>
     gw_overrides s = gw_overrides s0 \<and> identity (gw_record s) = identity (gw_record s0) \<and>
     rr_idempotency_key (gw_record s) = rr_idempotency_key (gw_record s0) \<and>
     gw_tick s0 \<le> gw_tick s \<and> rm_started (gw_metrics s) = rm_started (gw_metrics s0) \<and>
     (files_ok (gw_runs s0) \<longrightarrow> files_ok (gw_runs s))"

definition running :: "gateway \<Rightarrow> gateway \<Rightarrow> bool" where
  "running s0 s \<longleftrightarrow> handler_frame s0 s \<and> runs_observed (gw_metrics s) = runs_observed (gw_metrics s0)"

lemma handler_frame_refl [simp]: "handler_frame s s"
  by (simp add: handler_frame_def)

lemma running_refl [simp]: "running s s"
  by (simp add: running_def)

lemma handler_frame_trans: "handler_frame a b \<Longrightarrow> handler_frame b c \<Longrightarrow> handler_frame a c"
  by (simp add: handler_frame_def)

lemma files_ok_upsert [simp]: "files_ok f \<Longrightarrow> files_ok (run_upsert sz limit fstr r f)"
  by (simp add: run_upsert_def run_save_def repo_save_def json.ok_write)

lemma triple_tickG: "(\<And>s. P s \<Longrightarrow> Q (f (gw_tick s)) (s\<lparr>gw_tick := gw_tick s + 1\<rparr>)) \<Longrightarrow> triple P (tickG f) Q R"
  by (simp add: triple_def tickG_def)

lemma keeps_tickG [keeps_rules]: "(\<And>s. I s \<Longrightarrow> I (s\<lparr>gw_tick := gw_tick s + 1\<rparr>)) \<Longrightarrow> keeps I (tickG f)"
  by (rule triple_tickG)

lemma keeps_forS [keeps_rules]: "(\<And>x. keeps I (f x)) \<Longrightarrow> keeps I (forS f xs)"
  by (induction xs) (auto intro: keeps_rules)

lemma keeps_persist:
  assumes "\<And>r logs arts s. I s \<Longrightarrow> I (store_logs env r logs arts s)"
  shows "keeps I (persist_step_and_artifact_logs env)"
  unfolding persist_step_and_artifact_logs_def by (intro keeps_rules assms)

lemma running_tick: "running s0 s \<Longrightarrow> running s0 (s\<lparr>gw_tick := gw_tick s + 1\<rparr>)"
  by (auto simp: running_def handler_frame_def)

lemma running_tick_then:
  assumes "\<And>x. triple (running s0) (f x) Q R"
  shows "triple (running s0) (bindS (tickG g) f) Q R"
proof (rule triple_bindS)
  show "triple (running s0) (tickG g) (\<lambda>_. running s0) R" by (rule triple_tickG) (rule running_tick)
qed (rule assms)

lemma running_store_logs [simp]: "running s0 (store_logs env r logs arts s) = running s0 s"
  by (simp add: running_def handler_frame_def store_logs_def)

lemma running_persist: "keeps (running s0) (persist_step_and_artifact_logs env)"
  by (rule keeps_persist) simp

lemma running_save: "keeps (running s0) (save_run env)"
  unfolding save_run_def by (rule keeps_rules) (auto simp: running_def handler_frame_def)

lemma running_checkpoint: "keeps (running s0) (on_checkpoint env payload)"
  unfolding on_checkpoint_def recordG_def
  by (intro keeps_rules running_save running_persist) (simp add: running_def handler_frame_def identity_def)

text \<open>The engine is called once, and its checkpoints keep to the frame.\<close>

lemma call_engine_running:
  "triple (running s0) (call_engine env call)
     (\<lambda>_. running (s0\<lparr>gw_calls := gw_calls s0 @ [call]\<rparr>)) (\<lambda>_. running (s0\<lparr>gw_calls := gw_calls s0 @ [call]\<rparr>))"
  unfolding call_engine_def
proof (rule triple_seqS)
  let ?s1 = "s0\<lparr>gw_calls := gw_calls s0 @ [call]\<rparr>"
  show "triple (running s0) (modifyS (\<lambda>s. s\<lparr>gw_calls := gw_calls s @ [call]\<rparr>)) (\<lambda>_. running ?s1) (\<lambda>_. running ?s1)"
    by (rule triple_modifyS) (auto simp: running_def handler_frame_def)
  show "keeps (running ?s1) (bindS (tickG (\<lambda>n. ge_engine env n call)) (\<lambda>(checkpoints, outcome).
      seqS (forS (on_checkpoint env) checkpoints) (liftE outcome)))"
    unfolding case_prod_unfold by (intro keeps_rules running_checkpoint) (simp add: running_def handler_frame_def)
qed

subsection \<open>The end of a run\<close>

definition run_stored :: "gateway_env \<Rightarrow> gateway \<Rightarrow> bool" where
  "run_stored env s \<longleftrightarrow>
     run_get (ge_fstr env) (rr_run_id (gw_record s)) (Some (rr_tenant_id (gw_record s))) (gw_runs s) =
       Some (stored_run (normalize_record (gw_record s)))"

definition run_closed :: "gateway_env \<Rightarrow> gateway \<Rightarrow> gateway \<Rightarrow> bool" where
  "run_closed env s0 s \<longleftrightarrow> handler_frame s0 s \<and> runs_observed (gw_metrics s) = runs_observed (gw_metrics s0) + 1 \<and>
     run_stored env s \<and> rr_finished_at (gw_record s) \<noteq> None"

text \<open>The identifier and the tenant of a run fit together.\<close>

definition run_named :: "run_record \<Rightarrow> bool" where
  "run_named r \<longleftrightarrow> py_strip (rr_run_id r) = rr_run_id r \<and> rr_tenant_id r \<noteq> [] \<and>
     norm_tenant (Some (rr_tenant_id r)) = rr_tenant_id r \<and> tenant_from_run_id (rr_run_id r) = Some (rr_tenant_id r)"

lemma run_named_identity: "identity r = identity q \<Longrightarrow> run_named r = run_named q"
  by (simp add: identity_def run_named_def)

lemma saved_run_stored:
  assumes "files_ok (gw_runs s)" "run_named (gw_record s)"
  shows "run_stored env (s\<lparr>gw_runs := run_upsert (ge_size env) (ge_limit env) (ge_fstr env) (gw_record s) (gw_runs s)\<rparr>)"
  using assms by (simp add: run_stored_def run_get_upsert run_named_def normalize_record_def)

lemma running_saved:
  "triple (\<lambda>s. running s0 s \<and> run_named (gw_record s0) \<and> files_ok (gw_runs s0) \<and> A (gw_record s)) (save_run env)
     (\<lambda>_ s. running s0 s \<and> run_stored env s \<and> A (gw_record s)) R"
proof (unfold save_run_def, rule triple_modifyS, elim conjE, intro conjI)
  let ?save = "\<lambda>s. s\<lparr>gw_runs := run_upsert (ge_size env) (ge_limit env) (ge_fstr env) (gw_record s) (gw_runs s)\<rparr>"
  fix s assume s: "running s0 s" "run_named (gw_record s0)" "files_ok (gw_runs s0)" "A (gw_record s)"
  then have "run_named (gw_record s)" "files_ok (gw_runs s)"
    using run_named_identity [of "gw_record s" "gw_record s0"] by (auto simp: running_def handler_frame_def)
  then show "run_stored env (?save s)" by (rule saved_run_stored [rotated])
  show "running s0 (?save s)" "A (gw_record (?save s))" using s by (auto simp: running_def handler_frame_def)
qed

lemma stored_store_logs [simp]: "run_stored env (store_logs env' r logs arts s) = run_stored env s"
  "gw_record (store_logs env' r logs arts s) = gw_record s"
  by (simp_all add: run_stored_def store_logs_def)

lemma observe_closes:
  "triple (\<lambda>s. running s0 s \<and> run_stored env s \<and> rr_finished_at (gw_record s) \<noteq> None \<and> A (gw_record s)) (observeG env result)
     (\<lambda>_ s. run_closed env s0 s \<and> A (gw_record s)) R"
  unfolding observeG_def
  by (rule triple_modifyS) (simp add: running_def run_closed_def handler_frame_def run_stored_def)

lemma closed_alert:
  "triple (\<lambda>s. run_closed env s0 s \<and> A (gw_record s)) (alert_failure env) (\<lambda>_ s. run_closed env s0 s \<and> A (gw_record s)) R"
  unfolding alert_failure_def
  by (rule triple_bindS [OF triple_tickG triple_modifyS])
    (auto simp: run_closed_def handler_frame_def run_stored_def Let_def split: prod.splits)

lemma closed_forget:
  "triple (\<lambda>s. run_closed env s0 s \<and> A (gw_record s)) (forget_inputs run_id) (\<lambda>_ s. run_closed env s0 s \<and> A (gw_record s)) R"
  unfolding forget_inputs_def
  by (rule triple_modifyS) (auto simp: run_closed_def handler_frame_def run_stored_def)

definition start_ok :: "gateway \<Rightarrow> bool" where
  "start_ok s \<longleftrightarrow> run_named (gw_record s) \<and> files_ok (gw_runs s)"

lemma complete_run_closes:
  assumes "start_ok s0"
  shows "triple (running s0) (complete_run env run_id result)
    (\<lambda>_ s. run_closed env s0 s \<and> rr_result (gw_record s) = Some (redact_mapping result) \<and>
       rr_status (gw_record s) = get_text (redact_mapping result) ''status'' ''UNKNOWN'') (\<lambda>_. running s0)"
proof -
  let ?safe = "redact_mapping result"
  let ?A = "\<lambda>r. rr_finished_at r \<noteq> None \<and> rr_result r = Some ?safe \<and> rr_status r = get_text ?safe ''status'' ''UNKNOWN''"
  let ?B = "\<lambda>s. running s0 s \<and> run_stored env s \<and> ?A (gw_record s)"
  let ?C = "\<lambda>s. run_closed env s0 s \<and> ?A (gw_record s)"
  have noted: "triple (running s0) (recordG (\<lambda>r. r\<lparr>rr_result := Some ?safe, rr_status := get_text ?safe ''status'' ''UNKNOWN'',
        rr_finished_at := Some now\<rparr>)) (\<lambda>_ s. running s0 s \<and> run_named (gw_record s0) \<and> files_ok (gw_runs s0) \<and> ?A (gw_record s)) R" for now R
    unfolding recordG_def using assms
    by (intro triple_modifyS) (simp add: running_def handler_frame_def identity_def start_ok_def)
  have persist: "triple ?B (persist_step_and_artifact_logs env) (\<lambda>_. ?B) (\<lambda>_. running s0)"
    by (rule triple_conseq [OF keeps_persist [of ?B]]) auto
  have observe: "triple ?B (observeG env ?safe) (\<lambda>_. ?C) R" for R
    by (rule triple_conseq [OF observe_closes [of s0 env ?A]]) auto
  have rest: "triple ?C (bindS (getS (\<lambda>s. rr_status (gw_record s))) (\<lambda>status.
      if halted_status status then alert_failure env else forget_inputs run_id)) (\<lambda>_. ?C) R" for R
    by (rule triple_bindS [where S = "\<lambda>_. ?C"], rule triple_getS, assumption)
      (intro triple_If closed_alert [of env s0 ?A] closed_forget [of env s0 ?A])
  have "triple (running s0) (complete_run env run_id result) (\<lambda>_. ?C) (\<lambda>_. running s0)"
    unfolding complete_run_def Let_def sanitize_run_result_def option.case
    by (rule running_tick_then, rule triple_seqS, rule noted,
        rule triple_seqS, rule running_saved [of s0 ?A], rule triple_seqS, rule persist, rule triple_seqS, rule observe, rule rest)
  then show ?thesis by (rule triple_conseq) auto
qed

lemma fail_run_closes:
  assumes "start_ok s0"
  shows "triple (running s0) (fail_run env e) (\<lambda>_ s. run_closed env s0 s \<and> rr_status (gw_record s) = ''FAILED'') R"
proof -
  let ?A = "\<lambda>r. rr_finished_at r \<noteq> None \<and> rr_status r = ''FAILED''"
  have noted: "triple (running s0) (recordG (\<lambda>r. r\<lparr>rr_status := ''FAILED'', rr_error := Some (exn_str e), rr_finished_at := Some now\<rparr>))
      (\<lambda>_ s. running s0 s \<and> run_named (gw_record s0) \<and> files_ok (gw_runs s0) \<and> ?A (gw_record s)) R" for now
    unfolding recordG_def using assms
    by (intro triple_modifyS) (simp add: running_def handler_frame_def identity_def start_ok_def)
  have observe: "triple (\<lambda>s. running s0 s \<and> run_stored env s \<and> ?A (gw_record s)) (observeG env res)
      (\<lambda>_ s. run_closed env s0 s \<and> ?A (gw_record s)) R" for res
    by (rule triple_conseq [OF observe_closes [of s0 env ?A]]) auto
  have "triple (running s0) (fail_run env e) (\<lambda>_ s. run_closed env s0 s \<and> ?A (gw_record s)) R"
    unfolding fail_run_def
    by (rule running_tick_then, rule triple_seqS, rule noted,
        rule triple_seqS, rule running_saved [of s0 ?A], rule triple_seqS, rule observe, rule closed_alert [of env s0 ?A])
  then show ?thesis by (rule triple_conseq) auto
qed

subsection \<open>Starting and executing a run\<close>

lemma py_strip_ends: "py_strip s \<noteq> [] \<Longrightarrow> \<not> py_isspace (hd (py_strip s)) \<and> \<not> py_isspace (last (py_strip s))"
proof -
  let ?w = "dropWhile py_isspace s" and ?z = "dropWhile py_isspace (rev (dropWhile py_isspace s))"
  assume n: "py_strip s \<noteq> []"
  then have z: "?z \<noteq> []" "py_strip s = rev ?z" by (simp_all add: py_strip_def py_lstrip_def)
  have "?w = rev ?z @ rev (takeWhile py_isspace (rev ?w))"
    by (metis rev_append rev_rev_ident takeWhile_dropWhile_id)
  then have "hd ?w = hd (rev ?z)" using z(1) by (metis hd_append rev_is_Nil_conv)
  moreover have "?w \<noteq> []" using z(1) by (cases "?w = []") simp_all
  ultimately show ?thesis using z hd_dropWhile [of py_isspace s] hd_dropWhile [OF z(1)] by (simp add: last_rev)
qed

lemma py_strip_same:
  "py_strip s = s \<longleftrightarrow> s = [] \<or> \<not> py_isspace (hd s) \<and> \<not> py_isspace (last s)"
proof
  show "s = [] \<or> \<not> py_isspace (hd s) \<and> \<not> py_isspace (last s)" if "py_strip s = s"
    using py_strip_ends [of s] that by auto
  show "py_strip s = s" if "s = [] \<or> \<not> py_isspace (hd s) \<and> \<not> py_isspace (last s)"
  proof (cases "s = []")
    case False
    with that have "dropWhile py_isspace s = s" "dropWhile py_isspace (rev s) = rev s"
      by (simp_all add: dropWhile_eq_self_iff hd_rev)
    then show ?thesis by (simp add: py_strip_def py_lstrip_def)
  qed simp
qed

lemma split_once_first: "c \<notin> set xs \<Longrightarrow> split_once c (xs @ c # ys) = (xs, Some ys)"
  by (induction xs) auto

definition tenant_name :: "string \<Rightarrow> bool" where
  "tenant_name t \<longleftrightarrow> t \<noteq> [] \<and> py_lower (py_strip t) = t \<and> CHR '':'' \<notin> set t"

lemma tenant_name_norm: "tenant_name t \<Longrightarrow> norm_tenant (Some t) = t"
  by (simp add: tenant_name_def norm_tenant_def or_empty_def)

lemma tenant_name_strip: "tenant_name t \<Longrightarrow> py_strip t = t"
  by (metis py_strip_idem py_strip_lower tenant_name_def)

lemma run_id_named:
  assumes "tenant_name t" "py_strip u = u" "u \<noteq> []"
  shows "py_strip (build_run_id t u) = build_run_id t u" "tenant_from_run_id (build_run_id t u) = Some t"
proof -
  show "py_strip (build_run_id t u) = build_run_id t u"
    using tenant_name_strip [OF assms(1)] assms unfolding py_strip_same build_run_id_def
    by (auto simp: tenant_name_def)
  show "tenant_from_run_id (build_run_id t u) = Some t"
    using assms tenant_name_norm [OF assms(1)]
    by (auto simp: tenant_from_run_id_def build_run_id_def split_once_first tenant_name_def Let_def)
qed

text \<open>A new run is stored under an identifier that no stored run has.\<close>

definition fresh_ids :: "gateway_env \<Rightarrow> string \<Rightarrow> gateway \<Rightarrow> bool" where
  "fresh_ids env t s \<longleftrightarrow>
     (\<forall>n \<ge> gw_tick s. py_strip (ge_uuid env n) = ge_uuid env n \<and> ge_uuid env n \<noteq> [] \<and>
        build_run_id t (ge_uuid env n) \<notin> rr_run_id ` set (run_load (ge_fstr env) (gw_runs s)))"

definition started :: "gateway_env \<Rightarrow> string \<Rightarrow> gateway \<Rightarrow> string \<Rightarrow> gateway \<Rightarrow> bool" where
  "started env key s0 run_id s \<longleftrightarrow> start_ok s \<and> rr_run_id (gw_record s) = run_id \<and>
     rr_idempotency_key (gw_record s) = Some key \<and>
     gw_calls s = gw_calls s0 \<and> gw_idem s = gw_idem s0 \<and> gw_queue s = gw_queue s0 \<and> gw_overrides s = gw_overrides s0 \<and>
     gw_tick s0 \<le> gw_tick s \<and> rm_started (gw_metrics s) = rm_started (gw_metrics s0) + 1 \<and>
     runs_observed (gw_metrics s) = runs_observed (gw_metrics s0)"

lemma new_run_record_sel [simp]:
  "rr_run_id (new_run_record req i now cid t repo key) = i" "rr_tenant_id (new_run_record req i now cid t repo key) = t"
  "rr_idempotency_key (new_run_record req i now cid t repo key) = Some key"
  by (simp_all add: new_run_record_def)

lemma start_run_starts:
  assumes "files_ok (gw_runs s0)" "tenant_name t" "fresh_ids env t s0"
  shows "\<exists>run_id s. start_run env req cid t repo key s0 = (Inr run_id, s) \<and> started env key s0 run_id s \<and> rr_tenant_id (gw_record s) = t"
proof -
  let ?u = "ge_uuid env (gw_tick s0)" and ?now = "ge_now env (Suc (gw_tick s0))"
  let ?id = "build_run_id t ?u"
  let ?r = "normalize_record (new_run_record req ?id ?now cid t repo key)"
  let ?files = "run_save (ge_size env) (ge_limit env) (run_load (ge_fstr env) (gw_runs s0) @ [normalize_record ?r]) (gw_runs s0)"
  let ?s = "s0\<lparr>gw_inputs := AList.update ?id (runtime_inputs req t repo) (gw_inputs s0),
      gw_metrics := mark_run_started (gw_metrics s0), gw_record := ?r, gw_runs := ?files,
      gw_cache := AList.update ?id (run_to_dict ?r) (gw_cache s0), gw_tick := Suc (Suc (gw_tick s0))\<rparr>"
  have u: "py_strip ?u = ?u" "?u \<noteq> []" "?id \<notin> rr_run_id ` set (run_load (ge_fstr env) (gw_runs s0))"
    using assms(3) by (simp_all add: fresh_ids_def)
  have id: "rr_run_id ?r = ?id" "rr_idempotency_key ?r = Some key" by (simp_all add: normalize_record_def)
  have tenant: "rr_tenant_id ?r = t"
    using run_id_named(2) [OF assms(2) u(1, 2)] tenant_name_norm [OF assms(2)] by (simp add: normalize_record_def)
  have "\<not> list_ex (same_run (normalize_record ?r)) (run_load (ge_fstr env) (gw_runs s0))"
    using u(3) by (auto simp: list_ex_iff same_run_def normalize_record_def new_run_record_def image_iff)
  then have "run_create (ge_size env) (ge_limit env) (ge_fstr env) ?r (gw_runs s0) = Inr ?files"
    by (simp add: run_create_def runs_create_def Let_def)
  then have "start_run env req cid t repo key s0 = (Inr ?id, ?s)"
    by (simp add: start_run_def bindS_def seqS_def tickG_def modifyS_def recordG_def getS_def liftE_def cache_run_def returnS_def)
  moreover have "files_ok ?files" using assms(1) by (simp add: run_save_def repo_save_def json.ok_write)
  moreover have "run_named ?r"
    using run_id_named [OF assms(2) u(1, 2)] assms(2) tenant_name_norm [OF assms(2)]
    by (simp add: run_named_def tenant_name_def id tenant)
  ultimately show ?thesis
    using id tenant by (intro exI [of _ ?id] exI [of _ ?s]) (simp add: started_def start_ok_def)
qed

text \<open>How an execution ends: with what the engine has returned, or as a failure.\<close>

definition executed :: "gateway_env \<Rightarrow> engine_call \<Rightarrow> reply option \<Rightarrow> run_record \<Rightarrow> bool" where
  "executed env call reply r \<longleftrightarrow>
     (case reply of
        None \<Rightarrow> \<exists>n result. snd (ge_engine env n call) = Inr result \<and> rr_result r = Some (redact_mapping result) \<and>
          rr_status r = get_text (redact_mapping result) ''status'' ''UNKNOWN''
      | Some ans \<Rightarrow> rr_status r = ''FAILED'' \<and> (\<exists>resp. ans = Failure resp \<and> rs_status resp \<in> {400, 404, 500}))"

lemma call_engine_result:
  "triple P (call_engine env call) (\<lambda>result _. \<exists>n. snd (ge_engine env n call) = Inr result) (\<lambda>_ _. True)"
  unfolding triple_def call_engine_def
  by (auto simp: bindS_def seqS_def modifyS_def tickG_def liftE_def split: prod.splits sum.splits) (metis snd_conv)

lemma closed_fail:
  "triple (\<lambda>s. run_closed env s0 s \<and> A (gw_record s)) (failG env' st code msg i c)
     (\<lambda>reply s. (run_closed env s0 s \<and> A (gw_record s)) \<and> (\<exists>resp. reply = Failure resp \<and> rs_status resp = st)) R"
  unfolding failG_def
  by (rule triple_bindS [OF triple_tickG triple_returnS])
    (auto simp: run_closed_def handler_frame_def run_stored_def error_response_def Let_def)

lemma failure_answer_status: "failure_answer e = (st, code, msg) \<Longrightarrow> st \<in> {400, 404, 500}"
  by (cases e) (auto split: if_splits)

lemma running_forget: "triple (running s0) (forget_inputs run_id) (\<lambda>_. running s0) R"
  unfolding forget_inputs_def by (rule triple_modifyS) (simp add: running_def handler_frame_def)

lemma handle_failure:
  assumes "start_ok s0"
  shows "triple (running s0) (seqS (forget_inputs run_id) (seqS (fail_run env e)
      (case failure_answer e of (status, code, message) \<Rightarrow>
         bindS (failG env status code message i c) (\<lambda>r. returnS (Some r)))))
    (\<lambda>reply s. run_closed env s0 s \<and> reply \<noteq> None \<and> executed env call reply (gw_record s)) R"
proof -
  let ?A = "\<lambda>r. rr_status r = ''FAILED''"
  obtain st code msg where a: "failure_answer e = (st, code, msg)" using prod.exhaust by metis
  have answer: "triple (\<lambda>s. run_closed env s0 s \<and> ?A (gw_record s))
      (case failure_answer e of (status, code, message) \<Rightarrow> bindS (failG env status code message i c) (\<lambda>r. returnS (Some r)))
      (\<lambda>reply s. run_closed env s0 s \<and> reply \<noteq> None \<and> executed env call reply (gw_record s)) R"
    unfolding a prod.case
    by (rule triple_bindS [OF closed_fail [of env s0 ?A] triple_returnS])
      (use failure_answer_status [OF a] in \<open>auto simp: executed_def\<close>)
  show ?thesis
    by (rule triple_seqS, rule running_forget, rule triple_seqS, rule fail_run_closes [OF assms], rule answer)
qed

text \<open>A call of the engine whose exceptions are handled closes the run.\<close>

lemma engine_closes:
  fixes h :: "exn \<Rightarrow> (gateway, reply option) st"
  assumes "start_ok s0" "s1 \<equiv> s0\<lparr>gw_calls := gw_calls s0 @ [call]\<rparr>"
    and "\<And>e. triple (running s1) (h e) (\<lambda>reply s. run_closed env s1 s \<and> executed env call reply (gw_record s)) R"
  shows "triple (running s0) (catchS (bindS (call_engine env call) (\<lambda>result. seqS (complete_run env run_id result) (returnS None))) h)
    (\<lambda>reply s. run_closed env s1 s \<and> executed env call reply (gw_record s)) R"
proof -
  let ?P = "\<lambda>result s. running s1 s \<and> (\<exists>n. snd (ge_engine env n call) = Inr result)"
  have s1: "start_ok s1" using assms(1) by (simp add: start_ok_def assms(2))
  have call: "triple (running s0) (call_engine env call) ?P (\<lambda>_. running s1)"
    by (rule triple_conseq [OF triple_conj [OF call_engine_running call_engine_result]]) (auto simp: assms(2))
  have complete: "triple (?P result) (seqS (complete_run env run_id result) (returnS None))
      (\<lambda>reply s. run_closed env s1 s \<and> executed env call reply (gw_record s)) (\<lambda>_. running s1)" for result
  proof (cases "\<exists>n. snd (ge_engine env n call) = Inr result")
    case True
    show ?thesis
      by (rule triple_conseq [OF triple_seqS [OF complete_run_closes [OF s1] triple_returnS]])
        (use True in \<open>auto simp: executed_def\<close>)
  next
    case False
    then show ?thesis by (auto simp: triple_def)
  qed
  show ?thesis by (rule triple_catchS, rule triple_bindS, rule call, rule complete, rule assms(3))
qed

lemma execute_run_closes:
  assumes "start_ok s0" "call = \<lparr>ek_pipeline_name = pq_pipeline_name req, ek_inputs = runtime_inputs req t repo,
      ek_run_id = run_id, ek_source = pq_source req, ek_correlation_id = cid, ek_tenant_id = t, ek_repository = repo, ek_resume = None\<rparr>"
  shows "triple (running s0) (execute_run env req run_id cid t repo)
    (\<lambda>reply s. run_closed env (s0\<lparr>gw_calls := gw_calls s0 @ [call]\<rparr>) s \<and> executed env call reply (gw_record s)) R"
proof -
  have s1: "start_ok (s0\<lparr>gw_calls := gw_calls s0 @ [call]\<rparr>)" using assms(1) by (simp add: start_ok_def)
  show ?thesis
    unfolding execute_run_def assms(2) [symmetric]
    by (rule engine_closes [OF assms(1) reflexive])
      (rule triple_conseq [OF handle_failure [OF s1, of run_id env _ "Some run_id" "Some cid" call R]], auto)
qed

subsection \<open>The answers to a request\<close>

text \<open>A run that was started by the request: the engine was called once, the run is finished,
  stored as the handler left it, and counted once as started and once as ended.\<close>

definition run_accounted :: "gateway_env \<Rightarrow> string \<Rightarrow> gateway \<Rightarrow> engine_call \<Rightarrow> gateway \<Rightarrow> bool" where
  "run_accounted env t s0 call s \<longleftrightarrow>
     gw_calls s = gw_calls s0 @ [call] \<and> ek_run_id call = rr_run_id (gw_record s) \<and>
     ek_tenant_id call = t \<and> rr_tenant_id (gw_record s) = t \<and> run_stored env s \<and> rr_finished_at (gw_record s) \<noteq> None \<and>
     rm_started (gw_metrics s) = rm_started (gw_metrics s0) + 1 \<and>
     runs_observed (gw_metrics s) = runs_observed (gw_metrics s0) + 1 \<and>
     gw_queue s = gw_queue s0 \<and> files_ok (gw_runs s) \<and> gw_tick s0 \<le> gw_tick s"

definition nothing_run :: "gateway \<Rightarrow> gateway \<Rightarrow> bool" where
  "nothing_run s0 s \<longleftrightarrow> gw_calls s = gw_calls s0 \<and> gw_metrics s = gw_metrics s0 \<and> gw_runs s = gw_runs s0 \<and>
     gw_step_logs s = gw_step_logs s0 \<and> gw_artifacts s = gw_artifacts s0 \<and> gw_queue s = gw_queue s0 \<and>
     gw_inputs s = gw_inputs s0 \<and> gw_overrides s = gw_overrides s0 \<and> gw_tick s0 \<le> gw_tick s"

lemma find_duplicate_cases:
  "\<exists>found s. find_duplicate env t key s0 = (Inr found, s) \<and> nothing_run s0 s \<and> gw_tick s = Suc (gw_tick s0) \<and>
     gw_idem s = snd (store_get (ge_time env (gw_tick s0)) key (gw_idem s0)) \<and>
     found = (case fst (store_get (ge_time env (gw_tick s0)) key (gw_idem s0)) of
       None \<Rightarrow> None | Some e \<Rightarrow> run_get (ge_fstr env) (ie_run_id e) (Some t) (gw_runs s0))"
  by (auto simp: find_duplicate_def bindS_def tickG_def nothing_run_def case_prod_unfold Let_def split: option.split)

lemma remember_run_eval:
  "remember_run env key i s = (Inr (), s\<lparr>gw_tick := gw_tick s + 3, gw_idem := remember
     (ge_time env (gw_tick s), ge_time env (gw_tick s + 1), ge_time env (gw_tick s + 2)) key i
     (case rr_result (gw_record s) of None \<Rightarrow> [] | Some d \<Rightarrow> d) (gw_idem s)\<rparr>)"
  by (simp add: remember_run_def bindS_def tickG_def modifyS_def eval_nat_numeral)

text \<open>The stored run that has answered the key, when the clock is read for the \<open>n\<close>-th time.\<close>

definition remembered_run :: "gateway_env \<Rightarrow> string \<Rightarrow> string \<Rightarrow> nat \<Rightarrow> gateway \<Rightarrow> run_record option" where
  "remembered_run env t scoped n s =
     (case fst (store_get (ge_time env n) scoped (gw_idem s)) of
        None \<Rightarrow> None
      | Some e \<Rightarrow> run_get (ge_fstr env) (ie_run_id e) (Some t) (gw_runs s))"

text \<open>The answer that repeats a run: its identifier and its result without secrets.\<close>

definition repeats_run :: "run_record \<Rightarrow> reply \<Rightarrow> bool" where
  "repeats_run r reply \<longleftrightarrow> (\<exists>b. reply = Body b \<and> dget b ''status'' = PStr ''duplicate'' \<and>
     dget b ''run_id'' = PStr (rr_run_id r) \<and> dget b ''result'' = PDict (sanitize_run_result (rr_result r)))"

lemma answer_duplicate_runs_nothing:
  "\<exists>b s'. answer_duplicate key t r s = (Inr (Body b), s') \<and> nothing_run s s' \<and> gw_idem s' = gw_idem s \<and>
     repeats_run r (Body b)"
  by (auto simp: repeats_run_def answer_duplicate_def seqS_def bindS_def modifyS_def returnS_def Let_def nothing_run_def dget_def)

text \<open>The key of a started run is remembered, with readings of the clock made on the way.\<close>

definition key_remembered :: "gateway_env \<Rightarrow> string \<Rightarrow> gateway \<Rightarrow> gateway \<Rightarrow> bool" where
  "key_remembered env scoped s0 s \<longleftrightarrow>
     (\<exists>i j k res. gw_tick s0 \<le> k \<and>
        gw_idem s = remember (ge_time env i, ge_time env j, ge_time env k) scoped (rr_run_id (gw_record s)) res
          (snd (store_get (ge_time env (gw_tick s0)) scoped (gw_idem s0))))"

definition request_outcome ::
  "gateway_env \<Rightarrow> string \<Rightarrow> string \<Rightarrow> gateway \<Rightarrow> reply \<Rightarrow> gateway \<Rightarrow> bool" where
  "request_outcome env t scoped s0 reply s \<longleftrightarrow>
     (case remembered_run env t scoped (gw_tick s0) s0 of
        Some r \<Rightarrow> nothing_run s0 s \<and> repeats_run r reply
      | None \<Rightarrow> \<exists>call. run_accounted env t s0 call s \<and>
        (case reply of
           Failure resp \<Rightarrow> executed env call (Some reply) (gw_record s)
         | Body b \<Rightarrow> executed env call None (gw_record s) \<and> dget b ''status'' = PStr ''started'' \<and>
             dget b ''run_id'' = PStr (rr_run_id (gw_record s)) \<and> key_remembered env scoped s0 s))"

lemma closed_accounted:
  assumes "started env key s1 i s2" "nothing_run s0 s1" "identity (gw_record s2) = (i, t)"
    and "run_closed env (s2\<lparr>gw_calls := gw_calls s2 @ [call]\<rparr>) s3" "ek_run_id call = i" "ek_tenant_id call = t"
  shows "run_accounted env t s0 call s3"
  using assms by (auto simp: started_def nothing_run_def run_closed_def handler_frame_def run_accounted_def identity_def start_ok_def)

lemma run_request_now_spec:
  assumes "files_ok (gw_runs s0)" "tenant_name t" "fresh_ids env t s0"
  shows "\<exists>reply s. run_request_now env req cid t repo s0 = (Inr reply, s) \<and>
    request_outcome env t (scope_idempotency_key t (request_key env t repo req)) s0 reply s"
proof -
  let ?key = "request_key env t repo req" and ?scoped = "scope_idempotency_key t (request_key env t repo req)"
  obtain found s1 where f: "find_duplicate env t ?scoped s0 = (Inr found, s1)" "nothing_run s0 s1"
    "gw_tick s1 = Suc (gw_tick s0)" "gw_idem s1 = snd (store_get (ge_time env (gw_tick s0)) ?scoped (gw_idem s0))"
    "found = remembered_run env t ?scoped (gw_tick s0) s0"
    unfolding remembered_run_def using find_duplicate_cases by metis
  have found: "bindS (find_duplicate env t ?scoped) g s0 = g found s1" for g :: "_ \<Rightarrow> (gateway, reply) st"
    by (simp add: bindS_def f(1))
  show ?thesis
  proof (cases found)
    case (Some r)
    obtain b s where "answer_duplicate ?key t r s1 = (Inr (Body b), s)" "nothing_run s1 s" "repeats_run r (Body b)"
      using answer_duplicate_runs_nothing by blast
    moreover from this f(2) have "nothing_run s0 s" by (simp add: nothing_run_def)
    moreover have "remembered_run env t ?scoped (gw_tick s0) s0 = Some r" using f(5) Some by simp
    ultimately show ?thesis using Some
      by (simp add: run_request_now_def Let_def found request_outcome_def)
  next
    case None
    have rem: "remembered_run env t ?scoped (gw_tick s0) s0 = None" using f(5) None by simp
    have "files_ok (gw_runs s1)" "fresh_ids env t s1"
      using assms f(2) by (auto simp: nothing_run_def fresh_ids_def)
    from start_run_starts [OF this(1) assms(2) this(2)]
    obtain i s2 where st: "start_run env req cid t repo ?key s1 = (Inr i, s2)" "started env ?key s1 i s2" "rr_tenant_id (gw_record s2) = t"
      by blast
    let ?call = "\<lparr>ek_pipeline_name = pq_pipeline_name req, ek_inputs = runtime_inputs req t repo,
      ek_run_id = i, ek_source = pq_source req, ek_correlation_id = cid, ek_tenant_id = t, ek_repository = repo, ek_resume = None\<rparr>"
    have ok: "start_ok s2" using st(2) by (simp add: started_def)
    obtain r s3 where ex: "execute_run env req i cid t repo s2 = (r, s3)" using prod.exhaust by metis
    have tr: "triple (running s2) (execute_run env req i cid t repo)
      (\<lambda>reply s. run_closed env (s2\<lparr>gw_calls := gw_calls s2 @ [?call]\<rparr>) s \<and> executed env ?call reply (gw_record s)) (\<lambda>_ _. False)"
      by (rule execute_run_closes [OF ok refl])
    obtain failed where r: "r = Inr failed" using tripleD_Inl [OF tr running_refl] ex by (cases r) auto
    have closed: "run_closed env (s2\<lparr>gw_calls := gw_calls s2 @ [?call]\<rparr>) s3" "executed env ?call failed (gw_record s3)"
      using tripleD_Inr [OF tr running_refl] ex r by auto
    have acc: "run_accounted env t s0 ?call s3"
      by (rule closed_accounted [OF st(2) f(2) _ closed(1)]) (use st in \<open>simp_all add: identity_def started_def\<close>)
    have run: "run_request_now env req cid t repo s0 =
       (case failed of Some rep \<Rightarrow> returnS rep
        | None \<Rightarrow> seqS (remember_run env ?scoped i) (seqS (cache_run i)
           (bindS (getS (\<lambda>s. rr_result (gw_record s))) (\<lambda>result. returnS (Body [(''status'', PStr ''started''), (''run_id'', PStr i),
             (''pipeline'', PStr (pq_pipeline_name req)), (''source'', PStr (pq_source req)),
             (''correlation_id'', PStr cid), (''idempotency_key'', PStr ?key), (''tenant_id'', PStr t),
             (''repository_full_name'', opt_text repo), (''result'', opt_dict result)]))))) s3"
      using None st(1) ex r by (simp add: run_request_now_def Let_def found) (simp add: bindS_def)
    show ?thesis
    proof (cases failed)
      case (Some rep)
      then obtain resp where "rep = Failure resp" using closed(2) by (auto simp: executed_def)
      with Some acc closed(2) show ?thesis
        by (auto simp: run returnS_def request_outcome_def rem)
    next
      case None
      let ?s4 = "snd (remember_run env ?scoped i s3)"
      have i: "rr_run_id (gw_record s3) = i" using acc by (simp add: run_accounted_def)
      have idem: "gw_idem s3 = gw_idem s1" and tick: "gw_tick s1 \<le> gw_tick s3"
        using closed(1) st(2) by (simp_all add: run_closed_def handler_frame_def started_def)
      have "key_remembered env ?scoped s0 ?s4"
        unfolding key_remembered_def remember_run_eval using idem f(3, 4) tick i
        by (intro exI [of _ "gw_tick s3"] exI [of _ "gw_tick s3 + 1"] exI [of _ "gw_tick s3 + 2"] exI) auto
      moreover have "run_accounted env t s0 ?call ?s4" "executed env ?call None (gw_record ?s4)"
        using acc closed(2) None by (auto simp: run_accounted_def remember_run_eval run_stored_def)
      ultimately have "run_accounted env t s0 ?call (snd (cache_run i ?s4))" "executed env ?call None (gw_record (snd (cache_run i ?s4)))"
        "key_remembered env ?scoped s0 (snd (cache_run i ?s4))" "rr_run_id (gw_record (snd (cache_run i ?s4))) = i"
        using i by (auto simp: cache_run_def modifyS_def run_accounted_def run_stored_def key_remembered_def remember_run_eval)
      with None show ?thesis
        by (auto simp: run seqS_def bindS_def remember_run_eval cache_run_def modifyS_def getS_def returnS_def
            request_outcome_def rem dget_def)
    qed
  qed
qed

lemma resolved_tenant:
  assumes "resolve_tenant_repository env req = (t, repo, rejected)"
  shows "t \<noteq> []" "py_lower (py_strip t) = t"
proof -
  have t: "t = normalize_tenant_id (pq_tenant_id req) (tr_default_tenant_id (ge_tenants env))"
    using assms by (auto simp: resolve_tenant_repository_def validate_boundary_def Let_def split: option.splits if_splits)
  have d: "py_strip ''default'' = ''default''" "py_lower ''default'' = ''default''" by code_simp+
  show "t \<noteq> []" "py_lower (py_strip t) = t"
    unfolding t by (auto simp: normalize_tenant_id_def Let_def d py_strip_lower)
qed

text \<open>The clock is read for the key after an identifier has been drawn, if one has to be.\<close>

definition lookup_tick :: "pipeline_request \<Rightarrow> gateway \<Rightarrow> nat" where
  "lookup_tick req s = gw_tick s + (case pq_correlation_id req of Some (c # i) \<Rightarrow> 0 | _ \<Rightarrow> 1)"

lemma correlation_drawn:
  "\<exists>cid. (case pq_correlation_id req of Some (c # i) \<Rightarrow> returnS (c # i) | _ \<Rightarrow> tickG (ge_uuid env)) s =
     (Inr cid, s\<lparr>gw_tick := lookup_tick req s\<rparr>)"
  by (auto simp: lookup_tick_def returnS_def tickG_def split: option.splits list.splits)

lemma lookup_tick_bounds: "gw_tick s \<le> lookup_tick req s" "lookup_tick req s \<le> gw_tick s + 1"
  by (auto simp: lookup_tick_def split: option.splits list.splits)

lemma remembered_run_tick [simp]: "remembered_run env t scoped n (s\<lparr>gw_tick := m\<rparr>) = remembered_run env t scoped n s"
  by (simp add: remembered_run_def split: option.split)

lemma accepted_request:
  assumes "resolve_tenant_repository env req = (t, repo, None)" "\<not> pq_async_mode req" "files_ok (gw_runs s)"
    and "CHR '':'' \<notin> set t" "fresh_ids env t s"
  shows "\<exists>reply s'. run_pipeline_request env req s = (Inr reply, s') \<and>
    request_outcome env t (scope_idempotency_key t (request_key env t repo req)) (s\<lparr>gw_tick := lookup_tick req s\<rparr>) reply s'"
proof -
  obtain cid where c: "(case pq_correlation_id req of Some (c # i) \<Rightarrow> returnS (c # i) | _ \<Rightarrow> tickG (ge_uuid env)) s =
     (Inr cid, s\<lparr>gw_tick := lookup_tick req s\<rparr>)"
    using correlation_drawn by blast
  let ?s = "s\<lparr>gw_tick := lookup_tick req s\<rparr>"
  have "tenant_name t" using assms(4) resolved_tenant [OF assms(1)] by (simp add: tenant_name_def)
  moreover have "files_ok (gw_runs ?s)" "fresh_ids env t ?s"
    using assms(3, 5) lookup_tick_bounds(1) [of s req] by (auto simp: fresh_ids_def)
  ultimately obtain reply s' where "run_request_now env req cid t repo ?s = (Inr reply, s')"
    "request_outcome env t (scope_idempotency_key t (request_key env t repo req)) ?s reply s'"
    using run_request_now_spec by blast
  with c assms(1, 2) show ?thesis
    by (intro exI [of _ reply] exI [of _ s']) (simp add: run_pipeline_request_def bindS_def)
qed

text \<open>C25: A request that its tenant's boundary rejects is answered with status 403, and nothing is
  enqueued, run, stored, counted or remembered.\<close>

theorem boundary_rejection:
  assumes "resolve_tenant_repository env req = (t, repo, Some reason)"
  shows "\<exists>resp s'. run_pipeline_request env req s = (Inr (Failure resp), s') \<and> rs_status resp = 403 \<and>
    s' = s\<lparr>gw_tick := gw_tick s'\<rparr>"
proof -
  obtain cid where c: "(case pq_correlation_id req of Some (c # i) \<Rightarrow> returnS (c # i) | _ \<Rightarrow> tickG (ge_uuid env)) s =
     (Inr cid, s\<lparr>gw_tick := lookup_tick req s\<rparr>)"
    using correlation_drawn by blast
  with assms show ?thesis
    by (auto simp: run_pipeline_request_def bindS_def failG_def tickG_def returnS_def error_response_def Let_def)
qed

text \<open>The status of a result of the engine is a text.\<close>

definition text_status :: "gateway_env \<Rightarrow> bool" where
  "text_status env \<longleftrightarrow> (\<forall>n call result. snd (ge_engine env n call) = Inr result \<longrightarrow> (\<exists>x. dget result ''status'' = PStr x))"

text \<open>C26: An accepted synchronous request of a tenant without a colon in its name, drawing fresh
  identifiers, on well-formed files and with an engine whose results have a text as status,
  is always answered, whatever the engine returns or raises and whatever checkpoints it
  emits. When its key is remembered for a run that is still stored, the answer repeats
  that run and its result and nothing is run, stored or counted. Otherwise the engine is
  called once, and the run is then finished, stored as its handler left it, and counted
  once as started and once as ended, with the engine's status, or as failed when the
  answer is an error.\<close>

theorem every_run_accounted:
  assumes "resolve_tenant_repository env req = (t, repo, None)" "\<not> pq_async_mode req" "files_ok (gw_runs s)"
    and "CHR '':'' \<notin> set t" "fresh_ids env t s" "text_status env"
  shows "\<exists>reply s'. run_pipeline_request env req s = (Inr reply, s') \<and>
    (case remembered_run env t (scope_idempotency_key t (request_key env t repo req)) (lookup_tick req s) s of
       Some r \<Rightarrow> nothing_run s s' \<and> repeats_run r reply
     | None \<Rightarrow> \<exists>call. run_accounted env t s call s' \<and>
         executed env call (case reply of Failure _ \<Rightarrow> Some reply | Body _ \<Rightarrow> None) (gw_record s') \<and>
         (case reply of Failure _ \<Rightarrow> True | Body b \<Rightarrow> dget b ''status'' = PStr ''started'' \<and>
            dget b ''run_id'' = PStr (rr_run_id (gw_record s'))))"
proof -
  obtain reply s' where r: "run_pipeline_request env req s = (Inr reply, s')"
    and o: "request_outcome env t (scope_idempotency_key t (request_key env t repo req)) (s\<lparr>gw_tick := lookup_tick req s\<rparr>) reply s'"
    using accepted_request [OF assms(1-5)] by blast
  have "nothing_run (s\<lparr>gw_tick := lookup_tick req s\<rparr>) s' \<Longrightarrow> nothing_run s s'"
    and "run_accounted env t (s\<lparr>gw_tick := lookup_tick req s\<rparr>) call s' \<Longrightarrow> run_accounted env t s call s'" for call
    using lookup_tick_bounds(1) [of s req] by (auto simp: nothing_run_def run_accounted_def)
  with o show ?thesis
    by (intro exI [of _ reply] exI [of _ s'] conjI r)
      (fastforce simp: request_outcome_def split: option.splits reply.splits)
qed

subsection \<open>While a key is remembered\<close>

text \<open>
  A run is stored, and until a time its key is remembered for it. Only the files, the
  remembered keys and the clock matter for that.
\<close>

definition holds_key :: "gateway_env \<Rightarrow> string \<Rightarrow> string \<Rightarrow> string \<Rightarrow> rat \<Rightarrow> gateway \<Rightarrow> bool" where
  "holds_key env t scoped i until s \<longleftrightarrow>
     files_ok (gw_runs s) \<and> distinct (map fst (is_mapping (gw_idem s))) \<and>
     (\<exists>r. run_get (ge_fstr env) i (Some t) (gw_runs s) = Some r \<and> rr_run_id r = i) \<and>
     (ge_time env (gw_tick s) < until \<longrightarrow>
        (\<exists>e. map_of (is_mapping (gw_idem s)) scoped = Some e \<and> ie_run_id e = i \<and> until \<le> ie_expires_at e))"

definition expired_key :: "gateway_env \<Rightarrow> string \<Rightarrow> string \<Rightarrow> string \<Rightarrow> rat \<Rightarrow> gateway \<Rightarrow> bool" where
  "expired_key env t scoped i until s \<longleftrightarrow> holds_key env t scoped i until s \<and> until \<le> ge_time env (gw_tick s)"

text \<open>What all parts of a handler keep that do not touch the keys.\<close>

definition gate_closed :: "gateway_env \<Rightarrow> (gateway \<Rightarrow> bool) \<Rightarrow> bool" where
  "gate_closed env J \<longleftrightarrow>
     (\<forall>s s'. J s \<longrightarrow> gw_runs s' = gw_runs s \<longrightarrow> gw_idem s' = gw_idem s \<longrightarrow> gw_tick s \<le> gw_tick s' \<longrightarrow> J s') \<and>
     (\<forall>s r. J s \<longrightarrow> J (s\<lparr>gw_runs := run_upsert (ge_size env) (ge_limit env) (ge_fstr env) r (gw_runs s)\<rparr>)) \<and>
     (\<forall>s r f. J s \<longrightarrow> run_create (ge_size env) (ge_limit env) (ge_fstr env) r (gw_runs s) = Inr f \<longrightarrow> J (s\<lparr>gw_runs := f\<rparr>))"

lemma gate_frame:
  "gate_closed env J \<Longrightarrow> J s \<Longrightarrow> gw_runs s' = gw_runs s \<Longrightarrow> gw_idem s' = gw_idem s \<Longrightarrow> gw_tick s \<le> gw_tick s' \<Longrightarrow> J s'"
  by (simp add: gate_closed_def)

lemma gate_modify:
  assumes "gate_closed env J" "\<And>s. gw_runs (f s) = gw_runs s" "\<And>s. gw_idem (f s) = gw_idem s" "\<And>s. gw_tick s \<le> gw_tick (f s)"
  shows "keeps J (modifyS f)"
  by (rule triple_modifyS) (rule gate_frame [OF assms(1)], use assms(2-4) in auto)

lemma gate_tick:
  assumes "gate_closed env J" shows "keeps J (tickG f)"
  by (rule triple_tickG) (rule gate_frame [OF assms], auto)

lemma gate_record: "gate_closed env J \<Longrightarrow> keeps J (recordG f)"
  unfolding recordG_def by (rule gate_modify) auto

lemma gate_save: "gate_closed env J \<Longrightarrow> keeps J (save_run env)"
  unfolding save_run_def by (rule triple_modifyS) (simp add: gate_closed_def)

lemma gate_persist: "gate_closed env J \<Longrightarrow> keeps J (persist_step_and_artifact_logs env)"
  by (rule keeps_persist) (erule gate_frame, auto simp: store_logs_def)

lemma gate_checkpoint: "gate_closed env J \<Longrightarrow> keeps J (on_checkpoint env payload)"
  unfolding on_checkpoint_def by (intro keeps_rules gate_record gate_save gate_persist)

lemma gate_simple:
  assumes "gate_closed env J"
  shows "keeps J (forget_inputs i)" "keeps J (cache_run i)" "keeps J (observeG env d)" "keeps J (failG env n c m r x)"
    "keeps J (alert_failure env)"
  unfolding forget_inputs_def cache_run_def observeG_def failG_def alert_failure_def
  by (intro keeps_rules gate_tick [OF assms] gate_modify [OF assms]; simp add: Let_def split: prod.split)+

lemma gate_create:
  assumes "gate_closed env J"
  shows "keeps J (bindS (getS (\<lambda>s. run_create (ge_size env) (ge_limit env) (ge_fstr env) (gw_record s) (gw_runs s))) (\<lambda>r.
        bindS (liftE r) (\<lambda>files. modifyS (\<lambda>s. s\<lparr>gw_runs := files\<rparr>))))"
proof -
  have "J (s\<lparr>gw_runs := f\<rparr>)" if "J s" "run_create (ge_size env) (ge_limit env) (ge_fstr env) r (gw_runs s) = Inr f" for s r f
    using assms that by (simp add: gate_closed_def)
  then show ?thesis
    by (auto simp: triple_def bindS_def getS_def liftE_def modifyS_def split: sum.splits)
qed

lemma gate_run:
  assumes "gate_closed env J"
  shows "keeps J (call_engine env call)" "keeps J (complete_run env i result)" "keeps J (fail_run env e)"
    "keeps J (start_run env req cid t repo key)"
  unfolding call_engine_def complete_run_def fail_run_def start_run_def Let_def case_prod_unfold
  by (intro keeps_rules gate_tick [OF assms] gate_record [OF assms] gate_save [OF assms] gate_persist [OF assms]
      gate_simple [OF assms] gate_checkpoint [OF assms] gate_create [OF assms] gate_modify [OF assms]; simp)+

lemma gate_execute:
  assumes "gate_closed env J"
  shows "keeps J (execute_run env req i cid t repo)"
  unfolding execute_run_def case_prod_unfold
  by (intro keeps_rules gate_run [OF assms] gate_simple [OF assms])

lemma gate_enqueue: "gate_closed env J \<Longrightarrow> keeps J (enqueue_request env req cid t repo)"
  unfolding enqueue_request_def case_prod_unfold by (intro keeps_rules gate_tick gate_modify; simp)

lemma gate_duplicate: "gate_closed env J \<Longrightarrow> keeps J (answer_duplicate key t r)"
  unfolding answer_duplicate_def Let_def by (intro keeps_rules gate_modify; simp)

text \<open>A run that is stored stays stored, whatever is put into the files.\<close>

lemma run_get_id: "t \<noteq> [] \<Longrightarrow> run_get fstr i (Some t) f = Some r \<Longrightarrow> rr_run_id r = py_strip i"
  unfolding run_get_def runs_get_tenant by (auto simp: find_Some_iff run_key_def)

lemma stored_run_id [simp]: "rr_run_id (stored_run r) = rr_run_id r" "rr_run_id (normalize_record r) = rr_run_id r"
  by (simp_all add: stored_run_def normalize_record_def)

lemma find_append: "find P xs = Some x \<Longrightarrow> find P (xs @ ys) = Some x"
  by (induction xs) (auto split: if_splits)

lemma run_stays:
  assumes "files_ok f" "t \<noteq> []" "run_get fstr i (Some t) f = Some r" "rr_run_id r = i"
  shows "\<exists>r. run_get fstr i (Some t) (run_upsert sz limit fstr q f) = Some r \<and> rr_run_id r = i"
    and "run_create sz limit fstr q f = Inr f' \<Longrightarrow> files_ok f' \<and> (\<exists>r. run_get fstr i (Some t) f' = Some r \<and> rr_run_id r = i)"
proof -
  show "\<exists>r. run_get fstr i (Some t) (run_upsert sz limit fstr q f) = Some r \<and> rr_run_id r = i"
    using assms run_get_id [OF assms(2,3)] by (simp add: run_get_upsert [OF assms(1,2)])
  assume c: "run_create sz limit fstr q f = Inr f'"
  have "run_load fstr (run_save sz limit (run_load fstr f @ [normalize_record q]) f) =
      map stored_run (run_load fstr f @ [normalize_record q])"
    unfolding run_save_def run_load_def by (rule run_files.load_save [OF assms(1)])
  moreover have "f' = run_save sz limit (run_load fstr f @ [normalize_record q]) f"
    using c by (auto simp: run_create_def runs_create_def Let_def bindE_Inr_iff split: if_splits)
  moreover have "\<forall>x \<in> set (run_load fstr f @ [normalize_record q]). stored_tenant (rr_tenant_id x) = rr_tenant_id x"
    using run_load_tenants by auto
  ultimately show "files_ok f' \<and> (\<exists>r. run_get fstr i (Some t) f' = Some r \<and> rr_run_id r = i)"
    using assms(1,3,4) unfolding run_get_def runs_get_tenant [OF assms(2)]
    by (simp add: run_save_def repo_save_def json.ok_write find_stored find_append)
qed

lemma holds_key_closed:
  assumes "mono (ge_time env)" "t \<noteq> []"
  shows "gate_closed env (holds_key env t scoped i until)" "gate_closed env (expired_key env t scoped i until)"
proof -
  have later: "until \<le> ge_time env n'" if "until \<le> ge_time env n" "n \<le> n'" for n n'
    using that monoD [OF assms(1)] order_trans by blast
  have frame: "holds_key env t scoped i until s'"
    if "holds_key env t scoped i until s" "gw_runs s' = gw_runs s" "gw_idem s' = gw_idem s" "gw_tick s \<le> gw_tick s'" for s s'
    using that later [of "gw_tick s" "gw_tick s'"] unfolding holds_key_def by (metis linorder_not_less)
  have up: "holds_key env t scoped i until (s\<lparr>gw_runs := run_upsert (ge_size env) (ge_limit env) (ge_fstr env) r (gw_runs s)\<rparr>)"
    if "holds_key env t scoped i until s" for s r
    using that run_stays(1) [OF _ assms(2)] by (auto simp: holds_key_def)
  have new: "holds_key env t scoped i until (s\<lparr>gw_runs := f\<rparr>)"
    if "holds_key env t scoped i until s" "run_create (ge_size env) (ge_limit env) (ge_fstr env) r (gw_runs s) = Inr f" for s r f
    using that(1) run_stays(2) [OF _ assms(2) _ _ that(2)] by (auto simp: holds_key_def)
  show "gate_closed env (holds_key env t scoped i until)"
    unfolding gate_closed_def using frame up new by blast
  show "gate_closed env (expired_key env t scoped i until)"
    unfolding gate_closed_def expired_key_def using frame up new later by (auto; blast)
qed
lemma find_duplicate_holds:
  assumes "mono (ge_time env)"
  shows "triple (holds_key env t scoped i until) (find_duplicate env t' k)
    (\<lambda>found s. holds_key env t scoped i until s \<and> (found = None \<and> t' = t \<and> k = scoped \<longrightarrow> until \<le> ge_time env (gw_tick s))) R"
  unfolding triple_def
proof (intro allI impI)
  fix s0 assume h: "holds_key env t scoped i until s0"
  let ?now = "ge_time env (gw_tick s0)"
  obtain found s where f: "find_duplicate env t' k s0 = (Inr found, s)" "nothing_run s0 s" "gw_tick s = Suc (gw_tick s0)"
    "gw_idem s = snd (store_get ?now k (gw_idem s0))"
    "found = (case fst (store_get ?now k (gw_idem s0)) of None \<Rightarrow> None | Some e \<Rightarrow> run_get (ge_fstr env) (ie_run_id e) (Some t') (gw_runs s0))"
    using find_duplicate_cases by metis
  have d: "distinct (map fst (is_mapping (gw_idem s0)))" using h by (simp add: holds_key_def)
  obtain r where r: "run_get (ge_fstr env) i (Some t) (gw_runs s0) = Some r" "rr_run_id r = i"
    using h by (auto simp: holds_key_def)
  have entry: "\<exists>e. map_of (is_mapping (prune ?now (gw_idem s0))) scoped = Some e \<and> ie_run_id e = i \<and> until \<le> ie_expires_at e"
    if "\<not> until \<le> ge_time env (gw_tick s)"
  proof -
    have "?now < until" using that monoD [OF assms, of "gw_tick s0" "gw_tick s"] f(3) by simp
    with h obtain e where e: "map_of (is_mapping (gw_idem s0)) scoped = Some e" "ie_run_id e = i" "until \<le> ie_expires_at e"
      by (auto simp: holds_key_def)
    with \<open>?now < until\<close> show ?thesis unfolding prune_lookup [OF d] by (simp add: live_def)
  qed
  have "holds_key env t scoped i until s"
    using h f(2,4) entry r prune_keeps(2) [OF d, of ?now]
    by (auto simp: holds_key_def nothing_run_def store_get_def Let_def linorder_not_le)
  moreover have "until \<le> ge_time env (gw_tick s)" if "found = None" "t' = t" "k = scoped"
  proof (rule ccontr)
    assume "\<not> until \<le> ge_time env (gw_tick s)"
    from entry [OF this] that r show False unfolding f(5) by (auto simp: store_get_def Let_def)
  qed
  ultimately show "case find_duplicate env t' k s0 of (Inl e, s') \<Rightarrow> R e s'
    | (Inr found, s) \<Rightarrow> holds_key env t scoped i until s \<and> (found = None \<and> t' = t \<and> k = scoped \<longrightarrow> until \<le> ge_time env (gw_tick s))"
    by (simp add: f(1))
qed

lemma remember_holds:
  assumes "mono (ge_time env)" "holds_key env t scoped i until s" "k \<noteq> scoped \<or> until \<le> ge_time env (gw_tick s)"
  shows "holds_key env t scoped i until (snd (remember_run env k j s))"
    "ge_time env (gw_tick s) \<le> ge_time env (gw_tick (snd (remember_run env k j s)))"
proof -
  let ?now = "ge_time env (gw_tick s)"
  have d: "distinct (map fst (is_mapping (gw_idem s)))" using assms(2) by (simp add: holds_key_def)
  show later: "?now \<le> ge_time env (gw_tick (snd (remember_run env k j s)))"
    unfolding remember_run_eval using monoD [OF assms(1), of "gw_tick s" "gw_tick s + 3"] by simp
  have "\<exists>e. map_of (is_mapping (gw_idem (snd (remember_run env k j s)))) scoped = Some e \<and> ie_run_id e = i \<and> until \<le> ie_expires_at e"
    if "ge_time env (gw_tick (snd (remember_run env k j s))) < until"
  proof -
    have now: "?now < until" using later that by simp
    with assms(2) obtain e where e: "map_of (is_mapping (gw_idem s)) scoped = Some e" "ie_run_id e = i" "until \<le> ie_expires_at e"
      by (auto simp: holds_key_def)
    then have "map_of (is_mapping (prune ?now (gw_idem s))) scoped = Some e"
      unfolding prune_lookup [OF d] using now by (simp add: live_def)
    with e now assms(3) show ?thesis by (auto simp: remember_run_eval remember_def Let_def update_conv')
  qed
  then show "holds_key env t scoped i until (snd (remember_run env k j s))"
    using assms(2) prune_keeps(2) [OF d, of ?now]
    by (auto simp: holds_key_def remember_run_eval remember_def Let_def distinct_update)
qed

lemma remember_keeps:
  assumes "mono (ge_time env)"
  shows "k \<noteq> scoped \<Longrightarrow> keeps (holds_key env t scoped i until) (remember_run env k j)"
    and "keeps (expired_key env t scoped i until) (remember_run env k j)"
proof -
  have eval: "keeps J (remember_run env k j)" if "\<And>s. J s \<Longrightarrow> J (snd (remember_run env k j s))" for J
    unfolding triple_def
  proof (intro allI impI)
    fix s assume "J s"
    obtain s' where "remember_run env k j s = (Inr (), s')" by (simp add: remember_run_eval)
    with that [OF \<open>J s\<close>] show "case remember_run env k j s of (Inl e, s') \<Rightarrow> J s' | (Inr x, s') \<Rightarrow> J s'" by simp
  qed
  show "keeps (holds_key env t scoped i until) (remember_run env k j)" if "k \<noteq> scoped"
    by (rule eval) (rule remember_holds(1) [OF assms], use that in auto)
  show "keeps (expired_key env t scoped i until) (remember_run env k j)"
  proof (rule eval)
    fix s assume "expired_key env t scoped i until s"
    then have h: "holds_key env t scoped i until s" "until \<le> ge_time env (gw_tick s)" by (simp_all add: expired_key_def)
    show "expired_key env t scoped i until (snd (remember_run env k j s))"
      unfolding expired_key_def
      by (intro conjI remember_holds(1) [OF assms h(1) disjI2 [OF h(2)]]
          order_trans [OF h(2) remember_holds(2) [OF assms h(1) disjI2 [OF h(2)]]])
  qed
qed

lemma scoped_tenant:
  assumes "scope_idempotency_key t k = scope_idempotency_key t' k'" "CHR '':'' \<notin> set t" "CHR '':'' \<notin> set t'"
  shows "t = t'"
  using arg_cong [OF assms(1), of "split_once CHR '':''"] assms(2,3)
  by (simp add: scope_idempotency_key_def split_once_first)

lemma request_now_holds:
  assumes "mono (ge_time env)" "t \<noteq> []" "CHR '':'' \<notin> set t" "CHR '':'' \<notin> set t'" "scoped = scope_idempotency_key t key"
  shows "keeps (holds_key env t scoped i until) (run_request_now env req cid t' repo)"
proof -
  let ?H = "holds_key env t scoped i until" and ?E = "expired_key env t scoped i until"
  let ?scoped = "scope_idempotency_key t' (request_key env t' repo req)"
  define rest where "rest = bindS (start_run env req cid t' repo (request_key env t' repo req)) (\<lambda>run_id.
            bindS (execute_run env req run_id cid t' repo) (\<lambda>failed.
              case failed of
                Some r \<Rightarrow> returnS r
              | None \<Rightarrow>
                  seqS (remember_run env ?scoped run_id) (seqS (cache_run run_id)
                  (bindS (getS (\<lambda>s. rr_result (gw_record s))) (\<lambda>result.
                   returnS (Body [(''status'', PStr ''started''), (''run_id'', PStr run_id),
                     (''pipeline'', PStr (pq_pipeline_name req)), (''source'', PStr (pq_source req)),
                     (''correlation_id'', PStr cid), (''idempotency_key'', PStr (request_key env t' repo req)),
                     (''tenant_id'', PStr t'), (''repository_full_name'', opt_text repo),
                     (''result'', opt_dict result)]))))))"
  note closed = holds_key_closed [OF assms(1,2), of scoped i until]
  have rest: "keeps J rest" if "gate_closed env J" "\<And>j. keeps J (remember_run env ?scoped j)" for J
    unfolding rest_def by (intro keeps_rules gate_run [OF that(1)] gate_execute [OF that(1)] that(2) gate_simple [OF that(1)])
  have none: "triple (\<lambda>s. ?H s \<and> (t' = t \<and> ?scoped = scoped \<longrightarrow> until \<le> ge_time env (gw_tick s))) rest (\<lambda>_. ?H) (\<lambda>_. ?H)"
  proof (cases "?scoped = scoped")
    case True
    then have "t' = t" using scoped_tenant assms(3-5) by metis
    with True have "keeps ?E rest" by (intro rest [OF closed(2)] remember_keeps(2) [OF assms(1)])
    from triple_conseq [OF this] show ?thesis using True \<open>t' = t\<close> by (auto simp: expired_key_def)
  next
    case False
    have "keeps ?H rest" by (intro rest [OF closed(1)] remember_keeps(1) [OF assms(1) False])
    then show ?thesis by (rule triple_conseq) auto
  qed
  show ?thesis
    unfolding run_request_now_def Let_def rest_def [symmetric]
  proof (rule triple_bindS [OF find_duplicate_holds [OF assms(1)]], rule triple_case_option)
    fix found :: "run_record option"
    show "triple (\<lambda>s. ?H s \<and> (found = None \<and> t' = t \<and> ?scoped = scoped \<longrightarrow> until \<le> ge_time env (gw_tick s))) rest (\<lambda>_. ?H) (\<lambda>_. ?H)"
      if "found = None" using none that by (rule_tac triple_conseq [OF none]) auto
    show "triple (\<lambda>s. ?H s \<and> (found = None \<and> t' = t \<and> ?scoped = scoped \<longrightarrow> until \<le> ge_time env (gw_tick s)))
        (answer_duplicate (request_key env t' repo req) t' r) (\<lambda>_. ?H) (\<lambda>_. ?H)" for r
      by (rule triple_conseq [OF gate_duplicate [OF closed(1)]]) auto
  qed
qed

text \<open>Whatever is requested next, for tenants without a colon, the run stays stored and its key
  remembered until its time.\<close>

lemma request_holds:
  assumes "mono (ge_time env)" "t \<noteq> []" "CHR '':'' \<notin> set t" "scoped = scope_idempotency_key t key"
    and "CHR '':'' \<notin> set (fst (resolve_tenant_repository env req))"
  shows "keeps (holds_key env t scoped i until) (run_pipeline_request env req)"
proof -
  let ?H = "holds_key env t scoped i until"
  note closed = holds_key_closed(1) [OF assms(1,2), of scoped i until]
  obtain t' repo rejected where r: "resolve_tenant_repository env req = (t', repo, rejected)" by (metis prod.exhaust)
  have draw: "keeps ?H (case pq_correlation_id req of Some (c # i) \<Rightarrow> returnS (c # i) | _ \<Rightarrow> tickG (ge_uuid env))"
    by (auto split: option.split list.split intro: gate_tick [OF closed] keeps_rules)
  show ?thesis
    unfolding run_pipeline_request_def r prod.case
    by (intro keeps_compound(1) [OF draw] keeps_rules gate_simple [OF closed] gate_enqueue [OF closed]
        request_now_holds [OF assms(1-3) _ assms(4)]) (use assms(5) r in simp)
qed

lemma started_holds:
  assumes "run_pipeline_request env req s = (Inr (Body b), s1)" "dget b ''status'' = PStr ''started''"
    and "resolve_tenant_repository env req = (t, repo, None)" "\<not> pq_async_mode req" "files_ok (gw_runs s)"
    and "CHR '':'' \<notin> set t" "fresh_ids env t s" "distinct (map fst (is_mapping (gw_idem s)))" "mono (ge_time env)"
  shows "\<exists>i. dget b ''run_id'' = PStr i \<and> holds_key env t (scope_idempotency_key t (request_key env t repo req)) i
    (ge_time env (gw_tick s) + of_int (is_ttl_seconds (gw_idem s))) s1"
proof -
  let ?scoped = "scope_idempotency_key t (request_key env t repo req)" and ?n = "lookup_tick req s"
  let ?until = "ge_time env (gw_tick s) + of_int (is_ttl_seconds (gw_idem s))"
  have "request_outcome env t ?scoped (s\<lparr>gw_tick := ?n\<rparr>) (Body b) s1"
    using accepted_request [OF assms(3-7)] assms(1) by auto
  with assms(2) obtain call where o: "run_accounted env t (s\<lparr>gw_tick := ?n\<rparr>) call s1"
    "dget b ''run_id'' = PStr (rr_run_id (gw_record s1))" "key_remembered env ?scoped (s\<lparr>gw_tick := ?n\<rparr>) s1"
    by (auto simp: request_outcome_def repeats_run_def split: option.splits)
  let ?i = "rr_run_id (gw_record s1)"
  obtain a c k res where k: "?n \<le> k" "gw_idem s1 = remember (ge_time env a, ge_time env c, ge_time env k) ?scoped ?i res
      (snd (store_get (ge_time env ?n) ?scoped (gw_idem s)))"
    using o(3) by (auto simp: key_remembered_def)
  have "?until \<le> ge_time env k + of_int (is_ttl_seconds (gw_idem s))"
    using lookup_tick_bounds(1) [of s req] k(1) monoD [OF assms(9), of "gw_tick s" k] by simp
  then have "\<exists>e. map_of (is_mapping (gw_idem s1)) ?scoped = Some e \<and> ie_run_id e = ?i \<and> ?until \<le> ie_expires_at e"
    unfolding k(2) by (simp add: remember_def Let_def store_get_def prune_keeps)
  moreover have "distinct (map fst (is_mapping (gw_idem s1)))"
    using assms(8) unfolding k(2) by (simp add: remember_def Let_def store_get_def prune_keeps distinct_update)
  moreover have "files_ok (gw_runs s1)" using o(1) by (simp add: run_accounted_def)
  moreover have "\<exists>r. run_get (ge_fstr env) ?i (Some t) (gw_runs s1) = Some r \<and> rr_run_id r = ?i"
    using o(1) unfolding run_accounted_def run_stored_def by (metis stored_run_id)
  ultimately show ?thesis using o(2) unfolding holds_key_def by blast
qed

lemma held_request:
  assumes "holds_key env t scoped i until s" "mono (ge_time env)"
    and "resolve_tenant_repository env req = (t, repo, None)" "\<not> pq_async_mode req"
    and "scope_idempotency_key t (request_key env t repo req) = scoped" "ge_time env (lookup_tick req s) < until"
  shows "\<exists>b s'. run_pipeline_request env req s = (Inr (Body b), s') \<and> dget b ''status'' = PStr ''duplicate'' \<and>
    dget b ''run_id'' = PStr i \<and> nothing_run s s'"
proof -
  let ?n = "lookup_tick req s" and ?key = "request_key env t repo req"
  let ?s = "s\<lparr>gw_tick := ?n\<rparr>"
  obtain cid where c: "(case pq_correlation_id req of Some (c # i) \<Rightarrow> returnS (c # i) | _ \<Rightarrow> tickG (ge_uuid env)) s = (Inr cid, ?s)"
    using correlation_drawn by blast
  have "ge_time env (gw_tick s) < until"
    using assms(6) monoD [OF assms(2) lookup_tick_bounds(1) [of s req]] by simp
  then obtain e r where e: "map_of (is_mapping (gw_idem s)) scoped = Some e" "ie_run_id e = i" "until \<le> ie_expires_at e"
    and r: "run_get (ge_fstr env) i (Some t) (gw_runs s) = Some r" "rr_run_id r = i"
    and d: "distinct (map fst (is_mapping (gw_idem s)))"
    using assms(1) by (auto simp: holds_key_def)
  have "fst (store_get (ge_time env ?n) scoped (gw_idem s)) = Some e"
    using e(1,3) assms(6) by (simp add: store_get_def Let_def prune_lookup [OF d] live_def)
  then obtain s2 where s2: "find_duplicate env t scoped ?s = (Inr (Some r), s2)" "nothing_run ?s s2"
    using find_duplicate_cases [of env t scoped ?s] e(2) r(1) by auto
  obtain b s3 where s3: "answer_duplicate ?key t r s2 = (Inr (Body b), s3)" "nothing_run s2 s3" "repeats_run r (Body b)"
    using answer_duplicate_runs_nothing by blast
  have "run_pipeline_request env req s = (Inr (Body b), s3)"
    using c assms(3-5) s2(1) s3(1)
    by (simp add: run_pipeline_request_def run_request_now_def Let_def) (simp add: bindS_def)
  moreover have "nothing_run s s3" using s2(2) s3(2) lookup_tick_bounds(1) [of s req] by (simp add: nothing_run_def)
  ultimately show ?thesis using s3(3) r(2) by (auto simp: repeats_run_def)
qed

text \<open>After a request has been answered by a run, another request of the tenant with its key,
  while the key is remembered, is answered with the same run and runs nothing.\<close>

theorem answered_once:
  assumes "run_pipeline_request env req s = (Inr (Body b), s1)" "dget b ''status'' = PStr ''started''"
    and "resolve_tenant_repository env req = (t, repo, None)" "\<not> pq_async_mode req" "files_ok (gw_runs s)"
    and "CHR '':'' \<notin> set t" "fresh_ids env t s" "distinct (map fst (is_mapping (gw_idem s)))"
    and "resolve_tenant_repository env req2 = (t, repo2, None)" "\<not> pq_async_mode req2"
    and "request_key env t repo2 req2 = request_key env t repo req"
    and "mono (ge_time env)" "ge_time env (gw_tick s1 + 1) < ge_time env (gw_tick s) + of_int (is_ttl_seconds (gw_idem s))"
  shows "\<exists>b2 s2. run_pipeline_request env req2 s1 = (Inr (Body b2), s2) \<and> dget b2 ''status'' = PStr ''duplicate'' \<and>
    dget b2 ''run_id'' = dget b ''run_id'' \<and> nothing_run s1 s2"
proof -
  have t: "t \<noteq> []" using resolved_tenant(1) [OF assms(3)] .
  from started_holds [OF assms(1-8,12)] obtain i where i: "dget b ''run_id'' = PStr i"
    "holds_key env t (scope_idempotency_key t (request_key env t repo req)) i
       (ge_time env (gw_tick s) + of_int (is_ttl_seconds (gw_idem s))) s1" by blast
  have "ge_time env (lookup_tick req2 s1) < ge_time env (gw_tick s) + of_int (is_ttl_seconds (gw_idem s))"
    using assms(13) monoD [OF assms(12) lookup_tick_bounds(2) [of req2 s1]] by simp
  from held_request [OF i(2) assms(12,9,10) _ this] assms(11) i(1) show ?thesis by auto
qed

subsection \<open>A gateway to try\<close>

definition sample_env :: "(string \<times> string list) list \<Rightarrow> gateway_env" where
  "sample_env mapping =
     \<lparr>ge_now = (\<lambda>_. ''now''), ge_time = (\<lambda>_. 0), ge_uuid = (\<lambda>_. ''u''), ge_sha256 = id, ge_fstr = (\<lambda>_. []),
      ge_size = length, ge_limit = 10, ge_policy = new_artifact_policy 1000 None, ge_parse = (\<lambda>_. None), ge_oldest = 0,
      ge_tenants = new_tenant_registry mapping ''default'' (mapping \<noteq> []), ge_default_tenant = ''default'', ge_auth_enabled = False,
      ge_operators = \<lparr>oc_api_key = ''k'', oc_allowed_roles = [''operator''], oc_allowed_sources = [''api'']\<rparr>,
      ge_engine = (\<lambda>_ _. ([], Inr [(''status'', PStr ''SUCCESS'')]))\<rparr>"

definition sample_call :: pipeline_request where
  "sample_call = \<lparr>pq_pipeline_name = ''p'', pq_inputs = [], pq_source = ''api'', pq_tenant_id = Some ''Team'',
     pq_repository = None, pq_correlation_id = None, pq_idempotency_key = Some ''key'', pq_async_mode = False\<rparr>"

definition empty_gateway :: gateway where
  "empty_gateway = \<lparr>gw_runs = no_files, gw_step_logs = no_files, gw_artifacts = no_files, gw_cache = [],
     gw_idem = new_store 3600, gw_inputs = [], gw_metrics = new_metrics, gw_alerts = new_alerts 60, gw_alert_log = [],
     gw_queue = empty_queue, gw_overrides = [], gw_record = sample_run, gw_calls = [], gw_tick = 0\<rparr>"

lemma sample_tenant: "resolve_tenant_repository (sample_env []) sample_call = (''team'', None, None)"
  by code_simp

lemma sample_files: "files_ok (gw_runs empty_gateway)"
  by (simp add: empty_gateway_def files_ok_def no_files_def)

lemma sample_sel [simp]:
  "gw_runs empty_gateway = no_files" "is_mapping (gw_idem empty_gateway) = []" "is_ttl_seconds (gw_idem empty_gateway) = 3600"
  "gw_tick empty_gateway = 0" "ge_time (sample_env m) = (\<lambda>_. 0)"
  by (simp_all add: empty_gateway_def new_store_def sample_env_def)

lemma sample_strip: "py_strip ''u'' = ''u''"
  by code_simp

lemma sample_runs: "run_load (\<lambda>_. []) no_files = []"
  by code_simp

lemma sample_fresh: "gw_runs s = no_files \<Longrightarrow> fresh_ids (sample_env []) t s"
  by (simp add: fresh_ids_def sample_env_def sample_strip sample_runs)

text \<open>A result without steps leaves no log: the handler cannot fail.\<close>

lemma completes_quietly:
  assumes "result_steps (redact_mapping result) = Some []"
  shows "\<exists>s'. complete_run env run_id result s = (Inr (), s')"
proof -
  have quiet: "persist_step_and_artifact_logs env s \<noteq> (Inl e, s')"
    if "rr_result (gw_record s) = Some (redact_mapping result)" for s e s'
    using assms that by (simp add: persist_step_and_artifact_logs_def bindS_def getS_def liftE_def modifyS_def)
  show ?thesis
    unfolding complete_run_def Let_def sanitize_run_result_def option.case save_run_def recordG_def observeG_def forget_inputs_def alert_failure_def
    by (auto simp: bindS_def seqS_def tickG_def modifyS_def getS_def Let_def quiet split: sum.splits prod.splits)
qed

lemma sample_starts:
  assumes "resolve_tenant_repository (sample_env []) req = (t, repo, None)" "\<not> pq_async_mode req" "CHR '':'' \<notin> set t"
  shows "\<exists>b s1. run_pipeline_request (sample_env []) req empty_gateway = (Inr (Body b), s1) \<and> dget b ''status'' = PStr ''started''"
proof -
  let ?env = "sample_env []"
  have t: "tenant_name t" using resolved_tenant [OF assms(1)] assms(3) by (simp add: tenant_name_def)
  obtain cid n where c: "(case pq_correlation_id req of Some (c # i) \<Rightarrow> returnS (c # i) | _ \<Rightarrow> tickG (ge_uuid ?env)) empty_gateway =
      (Inr cid, empty_gateway\<lparr>gw_tick := n\<rparr>)"
    using correlation_drawn by blast
  let ?s = "empty_gateway\<lparr>gw_tick := n\<rparr>"
  have none: "find_duplicate ?env t k ?s = (Inr None, ?s\<lparr>gw_tick := Suc n\<rparr>)" for k
    by (simp add: find_duplicate_def bindS_def tickG_def store_get_def empty_gateway_def new_store_def sample_env_def Let_def prune_def)
  have s2: "files_ok (gw_runs (?s\<lparr>gw_tick := Suc n\<rparr>))" "fresh_ids ?env t (?s\<lparr>gw_tick := Suc n\<rparr>)"
    using sample_files by (simp_all add: sample_fresh empty_gateway_def)
  from start_run_starts [OF s2(1) t s2(2), of req cid repo "request_key ?env t repo req"] obtain i s2 where
    st: "start_run ?env req cid t repo (request_key ?env t repo req) (?s\<lparr>gw_tick := Suc n\<rparr>) = (Inr i, s2)" by blast
  let ?result = "[(''status'', PStr ''SUCCESS'')]"
  have "result_steps (redact_mapping ?result) = Some []" by code_simp
  note quiet = completes_quietly [OF this, of ?env i]
  have engine: "ge_engine ?env = (\<lambda>_ _. ([], Inr ?result))" by (simp add: sample_env_def)
  define s3 where "s3 c = snd (call_engine ?env c s2)" for c
  have call: "call_engine ?env c s2 = (Inr ?result, s3 c)" for c
    by (simp add: s3_def call_engine_def engine bindS_def seqS_def modifyS_def tickG_def liftE_def returnS_def)
  define s5 where "s5 c = snd (complete_run ?env i ?result (s3 c))" for c
  have complete: "complete_run ?env i ?result (s3 c) = (Inr (), s5 c)" for c
    using quiet [of "s3 c"] by (auto simp: s5_def)
  have "\<exists>s4. execute_run ?env req i cid t repo s2 = (Inr None, s4)"
    using call complete by (simp add: execute_run_def catchS_def bindS_def seqS_def returnS_def)
  then obtain s4 where "execute_run ?env req i cid t repo s2 = (Inr None, s4)" by blast
  with none st have "\<exists>b s1. run_request_now ?env req cid t repo ?s = (Inr (Body b), s1) \<and> dget b ''status'' = PStr ''started''"
    by (simp add: run_request_now_def bindS_def seqS_def
        remember_run_eval cache_run_def modifyS_def getS_def returnS_def Let_def dget_def)
  with c assms(1, 2) show ?thesis by (simp add: run_pipeline_request_def bindS_def)
qed

lemma sample_started:
  "\<exists>b s1. run_pipeline_request (sample_env []) sample_call empty_gateway = (Inr (Body b), s1) \<and> dget b ''status'' = PStr ''started''"
  by (rule sample_starts [OF sample_tenant]) (simp_all add: sample_call_def)

lemma every_run_accounted_witness:
  "\<exists>reply s' call. run_pipeline_request (sample_env []) sample_call empty_gateway = (Inr reply, s') \<and>
     run_accounted (sample_env []) ''team'' empty_gateway call s'"
proof -
  have "text_status (sample_env [])" by (simp add: text_status_def sample_env_def dget_def)
  moreover have "remembered_run (sample_env []) t k n empty_gateway = None" for t k n
    by (simp add: remembered_run_def store_get_def Let_def prune_def)
  ultimately show ?thesis
    using every_run_accounted [OF sample_tenant _ sample_files _ sample_fresh] by (auto simp: sample_call_def)
qed

lemma boundary_rejection_witness:
  "\<exists>resp s'. run_pipeline_request (sample_env [(''a'', [''o/r''])]) sample_call empty_gateway = (Inr (Failure resp), s') \<and>
    rs_status resp = 403 \<and> s' = empty_gateway\<lparr>gw_tick := gw_tick s'\<rparr>"
proof -
  have "case resolve_tenant_repository (sample_env [(''a'', [''o/r''])]) sample_call of (t, r, Some e) \<Rightarrow> True | _ \<Rightarrow> False"
    by code_simp
  then show ?thesis
    using boundary_rejection [of "sample_env [(''a'', [''o/r''])]" sample_call _ _ _ empty_gateway]
    by (auto split: prod.splits option.splits)
qed

lemma answered_once_witness:
  "\<exists>b s1 b2 s2. run_pipeline_request (sample_env []) sample_call empty_gateway = (Inr (Body b), s1) \<and>
     run_pipeline_request (sample_env []) sample_call s1 = (Inr (Body b2), s2) \<and> dget b2 ''status'' = PStr ''duplicate'' \<and>
     dget b2 ''run_id'' = dget b ''run_id'' \<and> nothing_run s1 s2"
proof -
  obtain b s1 where b: "run_pipeline_request (sample_env []) sample_call empty_gateway = (Inr (Body b), s1)"
    "dget b ''status'' = PStr ''started''"
    using sample_started by blast
  have "mono (ge_time (sample_env []))" by (simp add: sample_env_def mono_def)
  from answered_once [OF b sample_tenant _ sample_files _ sample_fresh _ sample_tenant _ refl this]
  show ?thesis using b(1) by (simp add: sample_call_def sample_env_def empty_gateway_def new_store_def)
qed

end
