(* ===== verification/GatewayCommands.thy ===== *)
theory GatewayCommands
  imports GatewayProps ScanJobs
begin

text \<open>
  \<open>scheduler/gateway.py\<close>: what the gateway does with what it has stored. Draining the queue,
  the answers about runs and tasks, an operator's overrides, and the cron endpoints. As in
  \<open>Gateway\<close>, the record a handler works on is \<open>gw_record\<close>. Audit entries are logging and left
  out.
\<close>

subsection \<open>Behind the two checks of a manual command\<close>

definition command_reply ::
  "gateway_env \<Rightarrow> string option \<Rightarrow> pyval option \<Rightarrow> operator_headers \<Rightarrow> permission \<Rightarrow> (gateway, reply) st \<Rightarrow> (gateway, reply) st" where
  "command_reply env run_id user h p body =
     (case command_denied (ge_auth_enabled env) (ge_operators env) user h p of
        Some message \<Rightarrow> failG env 403 ''FORBIDDEN'' message run_id None
      | None \<Rightarrow> body)"

subsection \<open>Draining the queue\<close>

fun mapS :: "('a \<Rightarrow> ('s, 'b) st) \<Rightarrow> 'a list \<Rightarrow> ('s, 'b list) st" where
  "mapS f [] = returnS []"
| "mapS f (x # xs) = bindS (f x) (\<lambda>y. bindS (mapS f xs) (\<lambda>ys. returnS (y # ys)))"

text \<open>The clock is read once for every task that is claimed.\<close>

definition claimG :: "gateway_env \<Rightarrow> int \<Rightarrow> (gateway, queue_task list) st" where
  "claimG env max_items s =
     (let (tasks, queue) = claim_next (\<lambda>i. ge_now env (gw_tick s + i)) max_items (gw_queue s) in
      (Inr tasks, s\<lparr>gw_queue := queue, gw_tick := gw_tick s + length tasks\<rparr>))"

text \<open>The request of a task; it was validated when it came in.\<close>

definition task_request :: "queue_task \<Rightarrow> pipeline_request" where
  "task_request t =
     \<lparr>pq_pipeline_name = qt_pipeline_name t, pq_inputs = qt_inputs t, pq_source = qt_source t,
      pq_tenant_id = Some (qt_tenant_id t), pq_repository = qt_repository t,
      pq_correlation_id = Some (qt_correlation_id t), pq_idempotency_key = qt_idempotency_key t, pq_async_mode = False\<rparr>"

definition markG ::
  "gateway_env \<Rightarrow> (string \<Rightarrow> memory_queue \<Rightarrow> exn + queue_task \<times> memory_queue) \<Rightarrow> (gateway, queue_task) st" where
  "markG env mark =
     bindS (tickG (ge_now env)) (\<lambda>now. bindS (getS (\<lambda>s. mark now (gw_queue s))) (\<lambda>r.
     bindS (liftE r) (\<lambda>(t, queue). seqS (modifyS (\<lambda>s. s\<lparr>gw_queue := queue\<rparr>)) (returnS t))))"

definition failure_message :: "(rat \<Rightarrow> string) \<Rightarrow> http_response \<Rightarrow> exn + string" where
  "failure_message fstr resp =
     (let payload = (case rs_content resp of PDict d \<Rightarrow> d | _ \<Rightarrow> []) in
      case dget_or payload ''error'' (PDict []) of
        PDict e \<Rightarrow> Inr (py_str fstr (dget_or e ''message'' (PStr ''Queue task failed'')))
      | v \<Rightarrow> Inl (OtherError (repr_string (type_name v) @ '' object has no attribute get'')))"

definition drain_task :: "gateway_env \<Rightarrow> queue_task \<Rightarrow> (gateway, dict) st" where
  "drain_task env t =
     bindS (catchS
       (bindS (run_pipeline_request env (task_request t)) (\<lambda>reply.
          case reply of
            Failure resp \<Rightarrow>
              bindS (liftE (failure_message (ge_fstr env) resp)) (\<lambda>m. markG env (\<lambda>now. mark_failed now (qt_task_id t) m))
          | Body b \<Rightarrow> markG env (\<lambda>now. mark_succeeded now (qt_task_id t) b)))
       (\<lambda>e. markG env (\<lambda>now. mark_failed now (qt_task_id t) (exn_str e))))
     (\<lambda>completed. returnS (queue_task_to_dict completed))"

definition drain_queue_once :: "gateway_env \<Rightarrow> int \<Rightarrow> (gateway, dict list) st" where
  "drain_queue_once env max_items = bindS (claimG env max_items) (mapS (drain_task env))"

definition drain_queue :: "gateway_env \<Rightarrow> pyval option \<Rightarrow> operator_headers \<Rightarrow> int \<Rightarrow> (gateway, reply) st" where
  "drain_queue env user h max_items =
     command_reply env None user h QUEUE_DRAIN
       (bindS (drain_queue_once env max_items) (\<lambda>records.
          returnS (Body [(''status'', PStr ''ok''), (''processed_count'', PInt (int (length records))),
            (''records'', PList (map PDict records))])))"

definition get_queue_task :: "gateway_env \<Rightarrow> string \<Rightarrow> (gateway, reply) st" where
  "get_queue_task env task_id =
     bindS (getS (\<lambda>s. queue_get task_id (gw_queue s))) (\<lambda>t.
       case t of
         None \<Rightarrow> failG env 404 ''QUEUE_TASK_NOT_FOUND'' (''Queue task not found: '' @ task_id) None None
       | Some task \<Rightarrow> returnS (Body (queue_task_to_dict task)))"

text \<open>The batch size and the waiting times of the worker that drains the queue: the texts of the
  environment, read as numbers (\<open>None\<close> when they are none).\<close>

definition queue_autodrain_enabled :: "string option \<Rightarrow> bool" where
  "queue_autodrain_enabled v =
     (py_lower (py_strip (case v of None \<Rightarrow> ''true'' | Some s \<Rightarrow> s)) \<in> {''1'', ''true'', ''yes'', ''on''})"

definition queue_autodrain_interval_seconds :: "rat option \<Rightarrow> rat" where
  "queue_autodrain_interval_seconds v = max (1 / 10) (case v of None \<Rightarrow> 1 | Some x \<Rightarrow> x)"

definition queue_autodrain_batch_size :: "int option \<Rightarrow> int" where
  "queue_autodrain_batch_size v = max 1 (min 200 (case v of None \<Rightarrow> 10 | Some n \<Rightarrow> n))"

definition queue_autodrain_shutdown_timeout_seconds :: "rat option \<Rightarrow> rat" where
  "queue_autodrain_shutdown_timeout_seconds v = max 1 (min 300 (case v of None \<Rightarrow> 15 | Some x \<Rightarrow> x))"

subsection \<open>Answers about runs\<close>

definition count_text :: "string \<Rightarrow> (string \<times> int) list \<Rightarrow> (string \<times> int) list" where
  "count_text k d = AList.update k ((case map_of d k of None \<Rightarrow> 0 | Some n \<Rightarrow> n) + 1) d"

definition build_step_summary :: "step_log list \<Rightarrow> dict" where
  "build_step_summary logs =
     (let statuses = map (\<lambda>l. py_upper (sl_status l)) logs in
      [(''step_count'', PInt (int (length logs))),
       (''status_counts'', PDict (map (\<lambda>(k, n). (k, PInt n)) (fold count_text statuses []))),
       (''failed_steps'', PList (map (\<lambda>l. PStr (sl_step_name l))
          (filter (\<lambda>l. py_upper (sl_status l) \<in> {''FAILED'', ''BLOCKED''}) logs))),
       (''retry_count_sum'', PInt (sum_list (map (\<lambda>l. max 0 (sl_retry_count l)) logs)))])"

definition run_payload :: "gateway_env \<Rightarrow> run_record \<Rightarrow> gateway \<Rightarrow> dict" where
  "run_payload env r s =
     (let logs = step_logs_by_run (ge_parse env) (ge_oldest env) (rr_run_id r) (Some (rr_tenant_id r))
                   (step_logs_load env (gw_step_logs s));
          arts = artifacts_by_run (rr_run_id r) (Some (rr_tenant_id r)) (artifacts_load env (gw_artifacts s))
      in dset ''step_summary'' (PDict (build_step_summary logs))
        (dset ''artifacts'' (PList (map (\<lambda>a. redact_sensitive_data None (PDict (artifact_to_dict a))) arts))
        (dset ''step_logs'' (PList (map (\<lambda>l. PDict (step_log_to_dict l)) logs))
        (dset ''result'' (PDict (sanitize_run_result (rr_result r)))
        (dset ''inputs'' (PDict (redact_mapping (rr_inputs r))) (run_to_dict r))))))"

definition query_tenant :: "gateway_env \<Rightarrow> string option \<Rightarrow> string option" where
  "query_tenant env tenant_id =
     (case tenant_id of None \<Rightarrow> None | Some t \<Rightarrow> Some (normalize_tenant_id (Some t) (ge_default_tenant env)))"

definition list_runs :: "gateway_env \<Rightarrow> run_query \<Rightarrow> int \<Rightarrow> int \<Rightarrow> (gateway, reply) st" where
  "list_runs env q offset limit =
     bindS (getS (\<lambda>s. (runs_list (ge_parse env) (ge_oldest env) (q\<lparr>rq_tenant_id := query_tenant env (rq_tenant_id q)\<rparr>)
         offset limit (run_load (ge_fstr env) (gw_runs s)), s))) (\<lambda>(runs, s).
     returnS (Body [(''items'', PList (map (\<lambda>r. PDict (run_payload env r s)) runs)), (''offset'', PInt offset),
       (''limit'', PInt limit), (''count'', PInt (int (length runs)))]))"

definition run_not_found :: "gateway_env \<Rightarrow> string \<Rightarrow> (gateway, reply) st" where
  "run_not_found env run_id = failG env 404 ''RUN_NOT_FOUND'' (''Run not found: '' @ run_id) (Some run_id) None"

text \<open>The runs in memory are looked at when the repository has none.\<close>

definition get_run :: "gateway_env \<Rightarrow> string \<Rightarrow> string option \<Rightarrow> (gateway, reply) st" where
  "get_run env run_id tenant_id =
     (let tenant = query_tenant env tenant_id in
      bindS (getS (\<lambda>s. (run_get (ge_fstr env) run_id tenant (gw_runs s), s))) (\<lambda>(found, s).
        case found of
          Some r \<Rightarrow>
            (let payload = run_payload env r s in
             seqS (modifyS (\<lambda>s. s\<lparr>gw_cache := AList.update run_id payload (gw_cache s)\<rparr>)) (returnS (Body payload)))
        | None \<Rightarrow>
            (case map_of (gw_cache s) run_id of
               Some (c # cs) \<Rightarrow>
                 if tenant \<noteq> None \<and>
                    normalize_tenant_id (case dget (c # cs) ''tenant_id'' of PStr t \<Rightarrow> Some t | _ \<Rightarrow> None)
                      (ge_default_tenant env) \<noteq> the tenant
                 then run_not_found env run_id
                 else returnS (Body (redact_mapping (c # cs)))
             | _ \<Rightarrow> run_not_found env run_id)))"

subsection \<open>An operator's overrides\<close>

record override_command =
  oc_action :: string
  oc_reason :: string

text \<open>What a run was when it stopped: its run state and the results of its steps.\<close>

definition rerun_context :: "run_record \<Rightarrow> (dict \<times> dict) option" where
  "rerun_context r =
     (let result = (case rr_result r of None \<Rightarrow> [] | Some d \<Rightarrow> d) in
      case (dget result ''run_state'', dget result ''steps'') of
        (PDict rs, PDict steps) \<Rightarrow> Some (rs, steps)
      | _ \<Rightarrow> None)"

definition explain_run :: "run_record \<Rightarrow> string \<Rightarrow> reply" where
  "explain_run r run_id =
     Body [(''run_id'', PStr run_id), (''status'', PStr (rr_status r)), (''override_state'', opt_text (rr_override_state r)),
       (''allowed_actions'', PList [PStr ''stop'', PStr ''retry'', PStr ''resume'', PStr ''explain'']),
       (''summary'', case rr_result r of None \<Rightarrow> PNone | Some d \<Rightarrow> dget d ''summary'')]"

definition invalid_override :: "gateway_env \<Rightarrow> nat \<Rightarrow> string \<Rightarrow> string \<Rightarrow> (gateway, reply) st" where
  "invalid_override env status message run_id = failG env status ''INVALID_OVERRIDE_STATE'' message (Some run_id) None"

definition stop_run :: "gateway_env \<Rightarrow> string \<Rightarrow> string \<Rightarrow> (gateway, reply) st" where
  "stop_run env run_id reason =
     bindS (tickG (ge_now env)) (\<lambda>t0.
     seqS (modifyS (\<lambda>s. s\<lparr>gw_overrides := snd (override_set t0 run_id OvStop reason (gw_overrides s))\<rparr>))
     (bindS (tickG (ge_now env)) (\<lambda>t1.
     seqS (recordG (\<lambda>r. r\<lparr>rr_override_state := Some ''STOPPED'', rr_status := ''BLOCKED'',
             rr_error := Some (if reason = [] then ''Stopped by operator.'' else reason), rr_finished_at := Some t1\<rparr>))
     (seqS (save_run env)
     (seqS (cache_run run_id)
     (returnS (Body [(''status'', PStr ''accepted''), (''run_id'', PStr run_id), (''action'', PStr ''stop''),
        (''override_state'', PStr ''STOPPED'')])))))))"

text \<open>A retry and a resumption differ only in the state they note.\<close>

definition rerun_call :: "run_record \<Rightarrow> dict \<Rightarrow> dict \<times> dict \<Rightarrow> engine_call" where
  "rerun_call r inputs ctx =
     \<lparr>ek_pipeline_name = rr_pipeline_name r, ek_inputs = inputs, ek_run_id = rr_run_id r, ek_source = ''override'',
      ek_correlation_id = rr_correlation_id r, ek_tenant_id = rr_tenant_id r, ek_repository = rr_repository r,
      ek_resume = Some ctx\<rparr>"

definition rerun_failed :: "gateway_env \<Rightarrow> string \<Rightarrow> exn \<Rightarrow> (gateway, reply option) st" where
  "rerun_failed env run_id e =
     seqS (fail_run env e)
     (bindS (if is_value_error e then invalid_override env 400 (exn_str e) run_id
             else failG env 500 ''PIPELINE_EXECUTION_FAILED'' ''Pipeline execution failed'' (Some run_id) None)
        (\<lambda>r. returnS (Some r)))"

definition rerun_execute :: "gateway_env \<Rightarrow> string \<Rightarrow> engine_call \<Rightarrow> (gateway, reply option) st" where
  "rerun_execute env run_id call =
     catchS (bindS (call_engine env call) (\<lambda>result. seqS (complete_run env run_id result) (returnS None)))
       (rerun_failed env run_id)"

definition rerun_start :: "gateway_env \<Rightarrow> string \<Rightarrow> string \<Rightarrow> (gateway, dict) st" where
  "rerun_start env run_id action =
     seqS (modifyS (\<lambda>s. s\<lparr>gw_overrides := override_clear run_id (gw_overrides s)\<rparr>))
     (seqS (recordG (\<lambda>r. r\<lparr>rr_override_state := Some (if action = ''resume'' then ''RESUMED'' else ''RETRYING''),
             rr_status := ''RUNNING'', rr_error := None, rr_finished_at := None\<rparr>))
     (seqS (save_run env)
     (bindS (getS (\<lambda>s. resolve_runtime_inputs (gw_record s) s)) (\<lambda>inputs.
      bindS (tickG (ge_uuid env)) (\<lambda>correlation_id.
      seqS (recordG (\<lambda>r. r\<lparr>rr_correlation_id := correlation_id\<rparr>))
      (seqS (modifyS (\<lambda>s. s\<lparr>gw_metrics := mark_run_started (gw_metrics s)\<rparr>))
      (returnS inputs)))))))"

definition rerun :: "gateway_env \<Rightarrow> string \<Rightarrow> string \<Rightarrow> dict \<times> dict \<Rightarrow> (gateway, reply) st" where
  "rerun env run_id action ctx =
     bindS (rerun_start env run_id action) (\<lambda>inputs. bindS (getS gw_record) (\<lambda>r.
     bindS (rerun_execute env run_id (rerun_call r inputs ctx)) (\<lambda>failed.
       case failed of
         Some reply \<Rightarrow> returnS reply
       | None \<Rightarrow> seqS (cache_run run_id) (bindS (getS gw_record) (\<lambda>r.
           returnS (Body [(''status'', PStr ''accepted''), (''run_id'', PStr run_id), (''action'', PStr action),
             (''override_state'', opt_text (rr_override_state r)), (''final_status'', PStr (rr_status r)),
             (''result'', opt_dict (rr_result r))]))))))"

definition override_found :: "gateway_env \<Rightarrow> string \<Rightarrow> string \<Rightarrow> string \<Rightarrow> (gateway, reply) st" where
  "override_found env run_id action reason =
     bindS (getS gw_record) (\<lambda>r.
       if action = ''explain'' then returnS (explain_run r run_id)
       else if action = ''stop'' then
         (if rr_status r \<noteq> ''RUNNING'' then invalid_override env 409 ''Stop is allowed only for RUNNING runs.'' run_id
          else stop_run env run_id reason)
       else if action = ''retry'' \<or> action = ''resume'' then
         (if action = ''retry'' \<and> \<not> halted_status (rr_status r)
          then invalid_override env 400 ''Retry is allowed only for FAILED/BLOCKED runs.'' run_id
          else if action = ''resume'' \<and> rr_status r \<noteq> ''BLOCKED''
          then invalid_override env 400 ''Resume is allowed only for BLOCKED runs.'' run_id
          else (case rerun_context r of
                  None \<Rightarrow> invalid_override env 409
                    ''Run cannot be resumed/retried because persisted step state is unavailable.'' run_id
                | Some ctx \<Rightarrow> rerun env run_id action ctx))
       else failG env 400 ''INVALID_OVERRIDE_ACTION'' (''Unsupported action: '' @ action) (Some run_id) None)"

definition override_run ::
  "gateway_env \<Rightarrow> pyval option \<Rightarrow> operator_headers \<Rightarrow> string \<Rightarrow> override_command \<Rightarrow> (gateway, reply) st" where
  "override_run env user h run_id command =
     (let action = py_lower (py_strip (oc_action command)); reason = py_strip (oc_reason command) in
      command_reply env (Some run_id) user h OVERRIDE_EXECUTE
        (bindS (getS (\<lambda>s. run_get (ge_fstr env) run_id None (gw_runs s))) (\<lambda>found.
          case found of
            None \<Rightarrow> run_not_found env run_id
          | Some r \<Rightarrow> seqS (recordG (\<lambda>_. r)) (override_found env run_id action reason))))"

subsection \<open>The cron endpoints\<close>

text \<open>The response to a request is decoded again when it is an error.\<close>

definition trigger_pipeline_from_cron :: "gateway_env \<Rightarrow> gateway trigger_pipeline" where
  "trigger_pipeline_from_cron env name inputs source key s =
     (let (uuid, s1) = (ge_uuid env (gw_tick s), s\<lparr>gw_tick := gw_tick s + 1\<rparr>) in
      case run_pipeline_request env
         \<lparr>pq_pipeline_name = name, pq_inputs = inputs, pq_source = source,
          pq_tenant_id = Some (normalize_tenant_id None (ge_default_tenant env)), pq_repository = None,
          pq_correlation_id = Some uuid, pq_idempotency_key = Some key, pq_async_mode = False\<rparr> s1 of
        (Inl e, s2) \<Rightarrow> (Inl e, s2)
      | (Inr (Body b), s2) \<Rightarrow> (Inr b, s2)
      | (Inr (Failure resp), s2) \<Rightarrow>
          (let payload = (case rs_content resp of PDict d \<Rightarrow> d | _ \<Rightarrow> []) in
           (Inr [(''status'', PStr ''error''), (''status_code'', PInt (int (rs_status resp))),
             (''error'', dget_or payload ''error'' (PDict payload))], s2)))"

text \<open>The dispatcher's jobs work on a world of their own and the gateway.\<close>

record 'w cron_gateway =
  cg_world :: 'w
  cg_jobs :: "'w dispatcher"

definition list_cron_jobs :: "(rat \<Rightarrow> string) \<Rightarrow> 'w dispatcher \<Rightarrow> reply" where
  "list_cron_jobs isot jobs =
     Body [(''items'', PList (map (\<lambda>(_, j).
              PDict [(''name'', PStr (cj_name j)), (''interval_seconds'', PInt (cj_interval_seconds j)),
                (''enabled'', PBool (cj_enabled j)), (''default_payload'', PDict (cj_default_payload j)),
                (''last_run_at'', case cj_last_run_at j of None \<Rightarrow> PNone | Some t \<Rightarrow> PStr (isot t))]) jobs)),
           (''count'', PInt (int (length jobs)))]"

definition cron_denied :: "gateway_env \<Rightarrow> string \<Rightarrow> pyval option \<Rightarrow> operator_headers \<Rightarrow> reply option" where
  "cron_denied env now user h =
     map_option (\<lambda>message. Failure (error_response now 403 ''FORBIDDEN'' message None None))
       (command_denied (ge_auth_enabled env) (ge_operators env) user h CRON_TRIGGER)"

definition run_due_cron_jobs ::
  "gateway_env \<Rightarrow> string \<Rightarrow> (rat \<Rightarrow> string) \<Rightarrow> (string \<Rightarrow> rat) \<Rightarrow> rat \<Rightarrow> pyval option \<Rightarrow> operator_headers
     \<Rightarrow> 'w cron_gateway \<Rightarrow> reply \<times> 'w cron_gateway" where
  "run_due_cron_jobs env text_now isot fin now user h g =
     (case cron_denied env text_now user h of
        Some reply \<Rightarrow> (reply, g)
      | None \<Rightarrow>
          (let (records, jobs, w) = run_due_jobs isot fin now (cg_jobs g) (cg_world g) in
           (Body [(''status'', PStr ''ok''), (''triggered_count'', PInt (int (length records))),
              (''records'', PList (map PDict records))], \<lparr>cg_world = w, cg_jobs = jobs\<rparr>)))"

definition trigger_cron_job ::
  "gateway_env \<Rightarrow> string \<Rightarrow> (rat \<Rightarrow> string) \<Rightarrow> rat \<Rightarrow> rat \<Rightarrow> pyval option \<Rightarrow> operator_headers \<Rightarrow> string \<Rightarrow> dict
     \<Rightarrow> 'w cron_gateway \<Rightarrow> reply \<times> 'w cron_gateway" where
  "trigger_cron_job env text_now isot now fin user h name payload g =
     (case cron_denied env text_now user h of
        Some reply \<Rightarrow> (reply, g)
      | None \<Rightarrow>
          (case trigger_job isot now fin name payload (cg_jobs g) (cg_world g) of
             (Inl _, jobs, w) \<Rightarrow>
               (Failure (error_response text_now 404 ''CRON_JOB_NOT_FOUND'' (''Unknown cron job: '' @ name) None None),
                \<lparr>cg_world = w, cg_jobs = jobs\<rparr>)
           | (Inr r, jobs, w) \<Rightarrow>
               (Body [(''status'', PStr ''triggered''), (''record'', PDict r)], \<lparr>cg_world = w, cg_jobs = jobs\<rparr>)))"

end
