(* ===== verification/CommandProps.thy ===== *)
theory CommandProps
  imports GatewayCommands
begin

text \<open>
  What an operator's commands and the draining of the queue promise: a command that is not
  allowed changes nothing, the engine is called only for a run that may be run again, such a
  run ends like a new one, and every task that is taken from the queue is settled.
\<close>

subsection \<open>What a request leaves alone\<close>

lemma keeps_queue_persist [keeps_rules]: "keeps (\<lambda>s. gw_queue s = q) (persist_step_and_artifact_logs env)"
  by (rule keeps_persist) (simp add: store_logs_def)

lemma keeps_case_reply [keeps_rules]:
  "(\<And>b. keeps I (f b)) \<Longrightarrow> (\<And>r. keeps I (g r)) \<Longrightarrow> keeps I (case reply of Body b \<Rightarrow> f b | Failure r \<Rightarrow> g r)"
  by (cases reply) auto

lemma keeps_case_prod [keeps_rules]: "(\<And>a b. keeps I (f a b)) \<Longrightarrow> keeps I (case p of (a, b) \<Rightarrow> f a b)"
  by (cases p) auto

lemma request_keeps_queue:
  assumes "\<not> pq_async_mode req"
  shows "keeps (\<lambda>s. gw_queue s = q) (run_pipeline_request env req)"
proof -
  have correlation: "keeps (\<lambda>s. gw_queue s = q) (case pq_correlation_id req of Some (c # i) \<Rightarrow> returnS (c # i) | _ \<Rightarrow> tickG (ge_uuid env))"
    by (auto intro!: keeps_rules split: option.splits list.splits)
  have find: "keeps (\<lambda>s. gw_queue s = q) (find_duplicate env t k)" for t k
    by (auto simp: find_duplicate_def triple_def bindS_def tickG_def case_prod_unfold Let_def)
  show ?thesis
    unfolding run_pipeline_request_def run_request_now_def start_run_def execute_run_def remember_run_def
      call_engine_def complete_run_def fail_run_def forget_inputs_def observeG_def alert_failure_def on_checkpoint_def
      save_run_def cache_run_def recordG_def failG_def answer_duplicate_def Let_def if_not_P [OF assms]
    by (intro keeps_rules correlation find) (simp_all add: case_prod_unfold Let_def)
qed

subsection \<open>Every task taken from the queue is settled\<close>

definition settled :: "queue_task \<Rightarrow> bool" where
  "settled v \<longleftrightarrow> qt_status v \<in> {''SUCCEEDED'', ''FAILED''} \<and> qt_finished_at v \<noteq> None"

text \<open>The result of a queue operation on the task of an identifier.\<close>

definition settles :: "string \<Rightarrow> memory_queue \<Rightarrow> queue_task \<Rightarrow> memory_queue \<Rightarrow> bool" where
  "settles i q v q' \<longleftrightarrow> settled v \<and> qt_task_id v = i \<and> q' = q\<lparr>mq_tasks := AList.update i v (mq_tasks q)\<rparr>"

lemma mark_settles:
  assumes "queue_inv q" "i \<in> known_ids q"
  shows "\<exists>v q'. mark_succeeded now i b q = Inr (v, q') \<and> settles i q v q'"
    "\<exists>v q'. mark_failed now i m q = Inr (v, q') \<and> settles i q v q'"
proof -
  obtain t where "map_of (mq_tasks q) i = Some t" using assms(2) by (auto simp: known_ids_def dest: weak_map_of_SomeI)
  moreover from this have "qt_task_id t = i" using assms(1) by (auto simp: queue_inv_def)
  ultimately show "\<exists>v q'. mark_succeeded now i b q = Inr (v, q') \<and> settles i q v q'"
    "\<exists>v q'. mark_failed now i m q = Inr (v, q') \<and> settles i q v q'"
    by (simp_all add: mark_succeeded_def mark_failed_def settles_def settled_def Let_def)
qed

lemma markG_settles:
  assumes "\<And>now. \<exists>v q'. mark now (gw_queue s) = Inr (v, q') \<and> settles i (gw_queue s) v q'"
  shows "\<exists>v s'. markG env mark s = (Inr v, s') \<and> settles i (gw_queue s) v (gw_queue s')"
proof -
  obtain v q' where "mark (ge_now env (gw_tick s)) (gw_queue s) = Inr (v, q')" "settles i (gw_queue s) v q'"
    using assms by blast
  then show ?thesis
    by (simp add: markG_def bindS_def seqS_def tickG_def getS_def liftE_def modifyS_def returnS_def)
qed

lemma drain_task_settles:
  assumes "queue_inv (gw_queue s)" "qt_task_id t \<in> known_ids (gw_queue s)"
  shows "\<exists>v s'. drain_task env t s = (Inr (queue_task_to_dict v), s') \<and> settles (qt_task_id t) (gw_queue s) v (gw_queue s')"
proof -
  let ?i = "qt_task_id t"
  obtain r s1 where run: "run_pipeline_request env (task_request t) s = (r, s1)" using prod.exhaust by metis
  have q: "gw_queue s1 = gw_queue s"
    using request_keeps_queue [of "task_request t" "gw_queue s" env] run
    by (auto simp: triple_def task_request_def split: sum.splits)
  have mark: "\<exists>v s'. markG env (\<lambda>now. mark_succeeded now ?i b) s1 = (Inr v, s') \<and> settles ?i (gw_queue s) v (gw_queue s')"
    "\<exists>v s'. markG env (\<lambda>now. mark_failed now ?i m) s1 = (Inr v, s') \<and> settles ?i (gw_queue s) v (gw_queue s')" for b m
    by (rule markG_settles [of _ s1 ?i env, unfolded q], rule mark_settles [OF assms])+
  show ?thesis
  proof (cases r)
    case (Inl e)
    then show ?thesis using mark(2) [of "exn_str e"] run
      by (auto simp: drain_task_def bindS_def catchS_def returnS_def)
  next
    case (Inr reply)
    show ?thesis
    proof (cases reply)
      case (Body b)
      then show ?thesis using mark(1) [of b] run Inr
        by (auto simp: drain_task_def bindS_def catchS_def returnS_def)
    next
      case (Failure resp)
      show ?thesis
      proof (cases "failure_message (ge_fstr env) resp")
        case (Inl e)
        then show ?thesis using mark(2) [of "exn_str e"] run Inr Failure
          by (auto simp: drain_task_def bindS_def catchS_def returnS_def liftE_def)
      next
        case (Inr m)
        then show ?thesis using mark(2) [of m] run \<open>r = Inr reply\<close> Failure
          by (auto simp: drain_task_def bindS_def catchS_def returnS_def liftE_def)
      qed
    qed
  qed
qed

lemma settles_queue:
  assumes "settles i q v q'" "queue_inv q" "i \<in> known_ids q"
  shows "queue_inv q'" "known_ids q' = known_ids q" "pending_ids q' = filter (\<lambda>j. j \<noteq> i) (pending_ids q)"
    "queue_get j q' = (if j = i then Some v else queue_get j q)"
proof -
  obtain t where t: "map_of (mq_tasks q) i = Some t" using assms(3) by (auto simp: known_ids_def dest: weak_map_of_SomeI)
  have "qt_task_id v = qt_task_id t" "qt_status v \<noteq> ''QUEUED''"
    using assms(1, 2) t by (auto simp: settles_def settled_def queue_inv_def)
  with t show "queue_inv q'" "pending_ids q' = filter (\<lambda>j. j \<noteq> i) (pending_ids q)"
    using mark_inv [OF assms(2) t] mark_pending [OF t] assms(1) by (simp_all add: settles_def)
  show "known_ids q' = known_ids q" "queue_get j q' = (if j = i then Some v else queue_get j q)"
    using assms(1, 3) by (auto simp: settles_def known_ids_def keys_update queue_get_def insert_absorb)
qed

lemma drain_tasks_settle:
  assumes "queue_inv (gw_queue s)" "\<forall>t \<in> set ts. qt_task_id t \<in> known_ids (gw_queue s)"
  shows "\<exists>vs s'. mapS (drain_task env) ts s = (Inr (map queue_task_to_dict vs), s') \<and>
    map qt_task_id vs = map qt_task_id ts \<and> queue_inv (gw_queue s') \<and>
    pending_ids (gw_queue s') = filter (\<lambda>j. j \<notin> qt_task_id ` set ts) (pending_ids (gw_queue s)) \<and>
    (\<forall>j. j \<notin> qt_task_id ` set ts \<longrightarrow> queue_get j (gw_queue s') = queue_get j (gw_queue s)) \<and>
    (\<forall>j \<in> qt_task_id ` set ts. \<exists>v. queue_get j (gw_queue s') = Some v \<and> settled v)"
  using assms
proof (induction ts arbitrary: s)
  case (Cons t ts)
  let ?i = "qt_task_id t"
  obtain v s1 where v: "drain_task env t s = (Inr (queue_task_to_dict v), s1)" "settles ?i (gw_queue s) v (gw_queue s1)"
    using drain_task_settles [OF Cons.prems(1)] Cons.prems(2) by (meson list.set_intros(1))
  have i: "?i \<in> known_ids (gw_queue s)" using Cons.prems(2) by simp
  note q = settles_queue [OF v(2) Cons.prems(1) i]
  from Cons.IH [OF q(1)] Cons.prems(2) q(2) obtain vs s' where
    r: "mapS (drain_task env) ts s1 = (Inr (map queue_task_to_dict vs), s')" "map qt_task_id vs = map qt_task_id ts"
      "queue_inv (gw_queue s')" "pending_ids (gw_queue s') = filter (\<lambda>j. j \<notin> qt_task_id ` set ts) (pending_ids (gw_queue s1))"
      "\<forall>j. j \<notin> qt_task_id ` set ts \<longrightarrow> queue_get j (gw_queue s') = queue_get j (gw_queue s1)"
      "\<forall>j \<in> qt_task_id ` set ts. \<exists>v. queue_get j (gw_queue s') = Some v \<and> settled v"
    by auto
  have id: "qt_task_id v = ?i" "settled v" using v(2) by (simp_all add: settles_def)
  have "mapS (drain_task env) (t # ts) s = (Inr (map queue_task_to_dict (v # vs)), s')"
    using v(1) r(1) by (simp add: bindS_def returnS_def)
  then show ?case
    using r(2-6) q(3, 4) id
    by (intro exI [of _ "v # vs"] exI [of _ s'] conjI; cases "?i \<in> qt_task_id ` set ts") (auto intro!: filter_cong)
qed (simp add: returnS_def)

lemma claim_loop_others:
  assumes "claim_loop now n c tasks queue = (c', q')" "\<forall>i t. map_of tasks i = Some t \<longrightarrow> qt_task_id t = i"
  shows "set c \<subseteq> set c' \<and> (\<forall>j. j \<notin> qt_task_id ` set c' \<longrightarrow> map_of (mq_tasks q') j = map_of tasks j)"
  using assms
proof (induction queue arbitrary: c tasks)
  case (Cons i queue)
  show ?case
  proof (cases "length c \<ge> n \<or> map_of tasks i = None")
    case True
    then show ?thesis using Cons.IH [of c tasks] Cons.prems by (auto split: if_splits)
  next
    case False
    then obtain t where t: "map_of tasks i = Some t" and l: "\<not> length c \<ge> n" by auto
    show ?thesis
    proof (cases "qt_status t = ''QUEUED''")
      case True
      let ?t = "t\<lparr>qt_status := ''RUNNING'', qt_started_at := Some (now (length c))\<rparr>"
      have id: "qt_task_id t = i" using Cons.prems(2) t by blast
      have "claim_loop now n (c @ [?t]) (AList.update i ?t tasks) queue = (c', q')"
        using Cons.prems(1) l t True by (simp add: Let_def)
      moreover have "\<forall>j u. map_of (AList.update i ?t tasks) j = Some u \<longrightarrow> qt_task_id u = j" using Cons.prems(2) id by simp
      ultimately have r: "set (c @ [?t]) \<subseteq> set c' \<and>
          (\<forall>j. j \<notin> qt_task_id ` set c' \<longrightarrow> map_of (mq_tasks q') j = map_of (AList.update i ?t tasks) j)"
        by (rule Cons.IH)
      have "i \<in> qt_task_id ` set c'" using r id by (intro image_eqI [of _ _ ?t]) auto
      with r show ?thesis by auto
    next
      case skip: False
      then show ?thesis using Cons l t by simp
    qed
  qed
qed auto

text \<open>C30: Draining the queue never fails. It takes the oldest pending tasks, as many as asked for and
  one at least, in their order; every one of them is marked as succeeded or as failed,
  whatever its request does; all other tasks stay as they were.\<close>

theorem drained_tasks_settled:
  assumes "queue_inv (gw_queue s)" "taken = take (nat (max 1 n)) (pending_ids (gw_queue s))"
  shows "\<exists>records s'. drain_queue_once env n s = (Inr records, s') \<and> queue_inv (gw_queue s') \<and>
    map (\<lambda>r. dget r ''task_id'') records = map PStr taken \<and>
    pending_ids (gw_queue s') = drop (nat (max 1 n)) (pending_ids (gw_queue s)) \<and>
    (\<forall>i \<in> set taken. \<exists>t. queue_get i (gw_queue s') = Some t \<and> settled t) \<and>
    (\<forall>i. i \<notin> set taken \<longrightarrow> queue_get i (gw_queue s') = queue_get i (gw_queue s))"
proof -
  let ?n = "nat (max 1 n)" and ?now = "\<lambda>i. ge_now env (gw_tick s + i)"
  obtain ts q where c: "claim_next ?now n (gw_queue s) = (ts, q)" using prod.exhaust by metis
  let ?s = "s\<lparr>gw_queue := q, gw_tick := gw_tick s + length ts\<rparr>"
  note k = claim_next_spec [OF assms(1) c]
  have ids: "qt_task_id ` set ts = set taken" using k assms(2) by (metis set_map)
  have known: "\<forall>t \<in> set ts. qt_task_id t \<in> known_ids (gw_queue ?s)"
  proof
    fix t assume "t \<in> set ts"
    then have "qt_task_id t \<in> set (pending_ids (gw_queue s))" using ids assms(2) by (metis image_eqI in_set_takeD)
    then show "qt_task_id t \<in> known_ids (gw_queue ?s)"
      using assms(1) k by (auto simp: pending_ids_def queue_inv_def)
  qed
  have "queue_inv (gw_queue ?s)" using k by simp
  from drain_tasks_settle [OF this known, of env] obtain vs s' where
    d: "mapS (drain_task env) ts ?s = (Inr (map queue_task_to_dict vs), s')" "map qt_task_id vs = map qt_task_id ts"
      "queue_inv (gw_queue s')" "pending_ids (gw_queue s') = filter (\<lambda>j. j \<notin> set taken) (pending_ids q)"
      "\<forall>j. j \<notin> set taken \<longrightarrow> queue_get j (gw_queue s') = queue_get j q"
      "\<forall>j \<in> set taken. \<exists>v. queue_get j (gw_queue s') = Some v \<and> settled v"
    unfolding ids by auto
  have "drain_queue_once env n s = (Inr (map queue_task_to_dict vs), s')"
    using d(1) c by (simp add: drain_queue_once_def bindS_def claimG_def)
  moreover have "map (\<lambda>r. dget r ''task_id'') (map queue_task_to_dict vs) = map PStr (map qt_task_id vs)"
    by (simp add: queue_task_to_dict_def dget_def)
  moreover have "filter (\<lambda>j. j \<notin> set taken) (pending_ids q) = pending_ids q"
  proof -
    have "distinct (pending_ids (gw_queue s))" using assms(1) by (simp add: pending_ids_def queue_inv_def)
    then have "set taken \<inter> set (pending_ids q) = {}"
      using k assms(2) by (simp add: set_take_disj_set_drop_if_distinct)
    then show ?thesis by (auto simp: filter_id_conv)
  qed
  moreover have "queue_get j q = queue_get j (gw_queue s)" if "j \<notin> set taken" for j
    using claim_loop_others [OF c [unfolded claim_next_def]] assms(1) ids that
    by (auto simp: queue_get_def queue_inv_def)
  ultimately show ?thesis
    using d k assms(2) by (intro exI [of _ "map queue_task_to_dict vs"] exI [of _ s']) auto
qed

definition queued_gateway :: gateway where
  "queued_gateway = empty_gateway\<lparr>gw_queue := put_request (''1'', ''t'', TaskQueue.sample_request) empty_queue\<rparr>"

lemma drained_tasks_settled_witness:
  "\<exists>records s'. drain_queue_once (sample_env []) 5 queued_gateway = (Inr records, s') \<and>
     map (\<lambda>r. dget r ''task_id'') records = [PStr ''1''] \<and> pending_ids (gw_queue s') = [] \<and>
     (\<exists>t. queue_get ''1'' (gw_queue s') = Some t \<and> settled t)"
proof -
  have q: "queue_inv (gw_queue queued_gateway)"
    by (simp add: queued_gateway_def queue_inv_def known_ids_def empty_queue_def new_task_def)
  have "[''1''] = take (nat (max 1 5)) (pending_ids (gw_queue queued_gateway))" "drop (nat (max 1 5)) (pending_ids (gw_queue queued_gateway)) = []"
    by (simp_all add: queued_gateway_def pending_ids_def is_queued_def empty_queue_def new_task_def)
  from drained_tasks_settled [OF q this(1), of "sample_env []"] this(2) show ?thesis by auto
qed

subsection \<open>Commands that are let through\<close>

text \<open>What a command keeps when it is refused: everything but the clock and, of the handler's own
  variables, the record it has looked at.\<close>

definition unchanged :: "gateway \<Rightarrow> gateway \<Rightarrow> bool" where
  "unchanged s0 s \<longleftrightarrow> s = s0\<lparr>gw_record := gw_record s, gw_tick := gw_tick s\<rparr>"

lemma unchanged_tick: "unchanged s (s\<lparr>gw_tick := n\<rparr>)" "unchanged s (s\<lparr>gw_record := r, gw_tick := n\<rparr>)"
  by (cases s, simp add: unchanged_def)+

lemma unchanged_record: "unchanged s (s\<lparr>gw_record := r\<rparr>)"
  by (cases s) (simp add: unchanged_def)

lemma fail_unchanged: "\<exists>resp. failG env st code msg i c s = (Inr (Failure resp), s\<lparr>gw_tick := Suc (gw_tick s)\<rparr>) \<and> rs_status resp = st"
  by (simp add: failG_def bindS_def tickG_def returnS_def error_response_def Let_def)

text \<open>When a run may be stopped, and when it may be run again.\<close>

definition override_allowed :: "string \<Rightarrow> run_record \<Rightarrow> bool" where
  "override_allowed action r \<longleftrightarrow>
     (action = ''stop'' \<and> rr_status r = ''RUNNING'') \<or>
     (action = ''retry'' \<and> rr_status r \<in> {''FAILED'', ''BLOCKED''} \<and> rerun_context r \<noteq> None) \<or>
     (action = ''resume'' \<and> rr_status r = ''BLOCKED'' \<and> rerun_context r \<noteq> None)"

definition command_action :: "override_command \<Rightarrow> string" where
  "command_action command = py_lower (py_strip (oc_action command))"

lemma override_found_refused:
  assumes "gw_record s = r" "\<not> override_allowed action r"
  shows "(action = ''explain'' \<and> override_found env i action reason s = (Inr (explain_run r i), s)) \<or>
    (\<exists>st code msg. st \<in> {400, 409} \<and> override_found env i action reason s = failG env st code msg (Some i) None s)"
proof -
  have found: "override_found env i action reason s = m s"
    if "override_found env i action reason = bindS (getS gw_record) f" "f r = m" for f m
    using that assms(1) by (simp add: bindS_def getS_def)
  consider "action = ''explain''" | "action = ''stop''" "rr_status r \<noteq> ''RUNNING''" | "action = ''retry''" "\<not> halted_status (rr_status r)"
    | "action = ''resume''" "rr_status r \<noteq> ''BLOCKED''" | "action = ''retry'' \<or> action = ''resume''" "rerun_context r = None"
    | "action \<notin> {''explain'', ''stop'', ''retry'', ''resume''}"
    using assms(2) unfolding override_allowed_def halted_status_def insert_iff empty_iff by argo
  then show ?thesis
  proof cases
    case 1
    then have "override_found env i action reason s = (Inr (explain_run r i), s)"
      unfolding found [OF override_found_def refl] by (simp add: returnS_def)
    with 1 show ?thesis by blast
  next
    case 2
    then have "override_found env i action reason s = invalid_override env 409 ''Stop is allowed only for RUNNING runs.'' i s"
      unfolding found [OF override_found_def refl] by simp
    then show ?thesis unfolding invalid_override_def by blast
  next
    case 3
    then have "override_found env i action reason s = invalid_override env 400 ''Retry is allowed only for FAILED/BLOCKED runs.'' i s"
      unfolding found [OF override_found_def refl] by simp
    then show ?thesis unfolding invalid_override_def by blast
  next
    case 4
    then have "override_found env i action reason s = invalid_override env 400 ''Resume is allowed only for BLOCKED runs.'' i s"
      unfolding found [OF override_found_def refl] by simp
    then show ?thesis unfolding invalid_override_def by blast
  next
    case 5
    then have "\<exists>st msg. st \<in> {400, 409} \<and> override_found env i action reason s = invalid_override env st msg i s"
      unfolding found [OF override_found_def refl] by auto
    then show ?thesis unfolding invalid_override_def by blast
  next
    case 6
    then have "override_found env i action reason s =
        failG env 400 ''INVALID_OVERRIDE_ACTION'' (''Unsupported action: '' @ action) (Some i) None s"
      unfolding found [OF override_found_def refl] by simp
    then show ?thesis by blast
  qed
qed

text \<open>C31: An override that is not allowed, because of who asks, of the run, of its status or of what
  is stored of its steps, changes no run, calls no engine and is answered all the same.\<close>

theorem override_refused:
  assumes "command_denied (ge_auth_enabled env) (ge_operators env) user h OVERRIDE_EXECUTE \<noteq> None \<or>
      (\<forall>r. run_get (ge_fstr env) run_id None (gw_runs s) = Some r \<longrightarrow> \<not> override_allowed (command_action command) r)"
  shows "\<exists>reply s'. override_run env user h run_id command s = (Inr reply, s') \<and> unchanged s s' \<and>
    ((\<exists>resp. reply = Failure resp \<and> rs_status resp \<in> {400, 403, 404, 409}) \<or> command_action command = ''explain'')"
proof -
  let ?body = "bindS (getS (\<lambda>s. run_get (ge_fstr env) run_id None (gw_runs s))) (\<lambda>found.
    case found of None \<Rightarrow> run_not_found env run_id
    | Some r \<Rightarrow> seqS (recordG (\<lambda>_. r)) (override_found env run_id (command_action command) (py_strip (oc_reason command))))"
  have run: "override_run env user h run_id command = command_reply env (Some run_id) user h OVERRIDE_EXECUTE ?body"
    unfolding override_run_def command_action_def Let_def by (rule refl)
  show ?thesis
  proof (cases "command_denied (ge_auth_enabled env) (ge_operators env) user h OVERRIDE_EXECUTE")
    case (Some m)
    then show ?thesis using fail_unchanged [of env 403 "''FORBIDDEN''" m "Some run_id" None s]
      by (auto simp: run command_reply_def unchanged_tick)
  next
    case None
    show ?thesis
    proof (cases "run_get (ge_fstr env) run_id None (gw_runs s)")
      case missing: None
      then show ?thesis using None fail_unchanged [of env 404 _ _ "Some run_id" None s]
        by (fastforce simp: run command_reply_def unchanged_tick run_not_found_def bindS_def getS_def)
    next
      case (Some r)
      let ?s = "s\<lparr>gw_record := r\<rparr>"
      have no: "\<not> override_allowed (command_action command) r" using assms None Some by simp
      consider "command_action command = ''explain''" "override_found env run_id (command_action command) (py_strip (oc_reason command)) ?s = (Inr (explain_run r run_id), ?s)"
        | st code msg where "st \<in> {400, 409}"
          "override_found env run_id (command_action command) (py_strip (oc_reason command)) ?s = failG env st code msg (Some run_id) None ?s"
        using override_found_refused [of ?s r "command_action command" env run_id "py_strip (oc_reason command)"] no by auto
      then show ?thesis
      proof cases
        case 1
        then show ?thesis using None Some
          by (simp add: run command_reply_def unchanged_record bindS_def seqS_def getS_def recordG_def modifyS_def)
      next
        case 2
        then show ?thesis using None Some fail_unchanged [of env st code msg "Some run_id" None ?s]
          by (auto simp: run command_reply_def unchanged_tick bindS_def seqS_def getS_def recordG_def modifyS_def)
      qed
    qed
  qed
qed

definition retry_command :: override_command where
  "retry_command = \<lparr>oc_action = '' Retry'', oc_reason = []\<rparr>"

definition operator_header :: operator_headers where
  "operator_header = \<lparr>oh_key = Some ''k'', oh_role = Some ''operator'', oh_source = Some ''API''\<rparr>"

lemma override_refused_witness:
  "\<exists>reply s'. override_run (sample_env []) None operator_header ''x'' retry_command empty_gateway = (Inr reply, s') \<and>
     unchanged empty_gateway s' \<and>
     ((\<exists>resp. reply = Failure resp \<and> rs_status resp \<in> {400, 403, 404, 409}) \<or> command_action retry_command = ''explain'')"
proof (rule override_refused)
  have "run_get (ge_fstr (sample_env [])) ''x'' None (gw_runs empty_gateway) = None" by code_simp
  then show "command_denied (ge_auth_enabled (sample_env [])) (ge_operators (sample_env [])) None operator_header OVERRIDE_EXECUTE \<noteq> None \<or>
      (\<forall>r. run_get (ge_fstr (sample_env [])) ''x'' None (gw_runs empty_gateway) = Some r \<longrightarrow>
         \<not> override_allowed (command_action retry_command) r)" by simp
qed

subsection \<open>Running a run again\<close>

lemma rerun_failed_closes:
  assumes "start_ok s1"
  shows "triple (running s1) (rerun_failed env i e) (\<lambda>reply s. run_closed env s1 s \<and> executed env call reply (gw_record s)) R"
proof -
  let ?A = "\<lambda>r. rr_status r = ''FAILED''"
  have answer: "triple (\<lambda>s. run_closed env s1 s \<and> ?A (gw_record s))
      (bindS (if is_value_error e then invalid_override env 400 (exn_str e) i
              else failG env 500 ''PIPELINE_EXECUTION_FAILED'' ''Pipeline execution failed'' (Some i) None) (\<lambda>r. returnS (Some r)))
      (\<lambda>reply s. run_closed env s1 s \<and> executed env call reply (gw_record s)) R"
    unfolding invalid_override_def
    by (cases "is_value_error e"; simp; rule triple_bindS [OF closed_fail [of env s1 ?A] triple_returnS])
      (auto simp: executed_def)
  show ?thesis
    unfolding rerun_failed_def by (rule triple_seqS, rule fail_run_closes [OF assms], rule answer)
qed

definition rerun_begun :: "gateway \<Rightarrow> run_record \<Rightarrow> gateway \<Rightarrow> bool" where
  "rerun_begun s0 r s \<longleftrightarrow> start_ok s \<and> identity (gw_record s) = identity r \<and>
     gw_calls s = gw_calls s0 \<and> gw_idem s = gw_idem s0 \<and> gw_queue s = gw_queue s0 \<and>
     rm_started (gw_metrics s) = rm_started (gw_metrics s0) + 1 \<and> runs_observed (gw_metrics s) = runs_observed (gw_metrics s0)"

lemma rerun_start_begins:
  assumes "gw_record s = r" "run_named r" "files_ok (gw_runs s)"
  shows "\<exists>s1. rerun_start env i action s = (Inr (resolve_runtime_inputs r s), s1) \<and> rerun_begun s r s1"
proof -
  have "run_named (r\<lparr>rr_override_state := a, rr_status := b, rr_error := c, rr_finished_at := d, rr_correlation_id := e\<rparr>)" for a b c d e
    using assms(2) by (simp add: run_named_def)
  with assms show ?thesis
    by (simp add: rerun_start_def bindS_def seqS_def modifyS_def recordG_def save_run_def getS_def tickG_def returnS_def
        rerun_begun_def identity_def start_ok_def resolve_runtime_inputs_def runs_observed_def mark_run_started_def cong: option.case_cong)
qed

text \<open>A run that is run again: the engine gets what was stored, the run ends finished, stored as
  its handler left it, and counted once more.\<close>

definition rerun_accounted :: "gateway_env \<Rightarrow> gateway \<Rightarrow> run_record \<Rightarrow> engine_call \<Rightarrow> gateway \<Rightarrow> bool" where
  "rerun_accounted env s0 r call s \<longleftrightarrow>
     gw_calls s = gw_calls s0 @ [call] \<and> ek_run_id call = rr_run_id r \<and> ek_resume call = rerun_context r \<and>
     ek_inputs call = resolve_runtime_inputs r s0 \<and> identity (gw_record s) = identity r \<and>
     run_stored env s \<and> rr_finished_at (gw_record s) \<noteq> None \<and>
     rm_started (gw_metrics s) = rm_started (gw_metrics s0) + 1 \<and>
     runs_observed (gw_metrics s) = runs_observed (gw_metrics s0) + 1 \<and>
     gw_queue s = gw_queue s0 \<and> gw_idem s = gw_idem s0 \<and> files_ok (gw_runs s)"

lemma rerun_ends:
  assumes "gw_record s = r" "run_named r" "files_ok (gw_runs s)" "rerun_context r = Some ctx"
  shows "\<exists>reply s' call. rerun env i action ctx s = (Inr reply, s') \<and> rerun_accounted env s r call s' \<and>
    executed env call (case reply of Failure _ \<Rightarrow> Some reply | Body _ \<Rightarrow> None) (gw_record s')"
proof -
  obtain s1 where s1: "rerun_start env i action s = (Inr (resolve_runtime_inputs r s), s1)" "rerun_begun s r s1"
    using rerun_start_begins [OF assms(1-3)] by blast
  let ?call = "rerun_call (gw_record s1) (resolve_runtime_inputs r s) ctx"
  let ?s2 = "s1\<lparr>gw_calls := gw_calls s1 @ [?call]\<rparr>"
  have ok: "start_ok s1" "start_ok ?s2" using s1(2) by (simp_all add: rerun_begun_def start_ok_def)
  have tr: "triple (running s1) (rerun_execute env i ?call)
      (\<lambda>reply s. run_closed env ?s2 s \<and> executed env ?call reply (gw_record s)) (\<lambda>_ _. False)"
    unfolding rerun_execute_def by (rule engine_closes [OF ok(1) reflexive rerun_failed_closes [OF ok(2)]])
  obtain x s3 where ex: "rerun_execute env i ?call s1 = (x, s3)" using prod.exhaust by metis
  obtain failed where x: "x = Inr failed" using tripleD_Inl [OF tr running_refl] ex by (cases x) auto
  have c: "run_closed env ?s2 s3" "executed env ?call failed (gw_record s3)"
    using tripleD_Inr [OF tr running_refl] ex x by auto
  have acc: "rerun_accounted env s r ?call s3"
    using c(1) s1(2) assms(4)
    by (auto simp: rerun_accounted_def run_closed_def handler_frame_def rerun_begun_def rerun_call_def identity_def start_ok_def)
  show ?thesis
  proof (cases failed)
    case (Some rep)
    then obtain resp where "rep = Failure resp" using c(2) by (auto simp: executed_def)
    with Some acc c(2) s1(1) ex x show ?thesis
      by (intro exI [of _ rep] exI [of _ s3] exI [of _ ?call]) (simp add: rerun_def bindS_def getS_def returnS_def)
  next
    case None
    let ?s4 = "snd (cache_run i s3)"
    have "rerun_accounted env s r ?call ?s4" "gw_record ?s4 = gw_record s3"
      using acc by (auto simp: cache_run_def modifyS_def rerun_accounted_def run_stored_def)
    moreover have "\<exists>b. rerun env i action ctx s = (Inr (Body b), ?s4)"
      using None s1(1) ex x by (simp add: rerun_def bindS_def getS_def seqS_def returnS_def cache_run_def modifyS_def)
    ultimately show ?thesis using None c(2) by auto
  qed
qed

text \<open>C32: A retry or a resumption that is allowed is always answered, whatever the engine returns,
  raises or emits. The engine is called once, with the inputs the run still has and the step
  states and results stored of it; the run is then finished, stored as its handler left it,
  and counted once more as started and as ended, with the engine's status, or as failed when
  the answer is an error.\<close>

theorem allowed_rerun_accounted:
  assumes "command_denied (ge_auth_enabled env) (ge_operators env) user h OVERRIDE_EXECUTE = None"
    and "run_get (ge_fstr env) run_id None (gw_runs s) = Some r" "command_action command \<in> {''retry'', ''resume''}"
    and "override_allowed (command_action command) r" "run_named r" "files_ok (gw_runs s)"
  shows "\<exists>reply s' call. override_run env user h run_id command s = (Inr reply, s') \<and> rerun_accounted env s r call s' \<and>
    executed env call (case reply of Failure _ \<Rightarrow> Some reply | Body _ \<Rightarrow> None) (gw_record s')"
proof -
  let ?s = "s\<lparr>gw_record := r\<rparr>"
  obtain ctx where ctx: "rerun_context r = Some ctx" using assms(3, 4) by (auto simp: override_allowed_def)
  obtain reply s' call where r: "rerun env run_id (command_action command) ctx ?s = (Inr reply, s')"
    "rerun_accounted env ?s r call s'" "executed env call (case reply of Failure _ \<Rightarrow> Some reply | Body _ \<Rightarrow> None) (gw_record s')"
    using rerun_ends [of ?s r ctx env run_id "command_action command"] assms(5, 6) ctx by auto
  have "override_run env user h run_id command s = (Inr reply, s')"
    using assms(1-4) ctx r(1)
    by (auto simp: override_run_def command_action_def [symmetric] Let_def command_reply_def override_found_def override_allowed_def
        halted_status_def bindS_def seqS_def getS_def recordG_def modifyS_def)
  moreover have "rerun_accounted env s r call s'"
    using r(2) by (simp add: rerun_accounted_def resolve_runtime_inputs_def)
  ultimately show ?thesis using r(3) by blast
qed

definition blocked_gateway :: gateway where
  "blocked_gateway = empty_gateway\<lparr>gw_runs := run_upsert length 10 (\<lambda>_. [])
     (sample_run\<lparr>rr_status := ''BLOCKED'', rr_result := Some [(''run_state'', PDict []), (''steps'', PDict [])]\<rparr>) no_files\<rparr>"

lemma allowed_rerun_accounted_witness:
  "\<exists>r reply s' call. run_get (\<lambda>_. []) ''team:1'' None (gw_runs blocked_gateway) = Some r \<and>
     override_run (sample_env []) None operator_header ''team:1'' retry_command blocked_gateway = (Inr reply, s') \<and>
     rerun_accounted (sample_env []) blocked_gateway r call s'"
proof -
  have "case run_get (\<lambda>_. []) ''team:1'' None (gw_runs blocked_gateway) of
      Some r \<Rightarrow> override_allowed ''retry'' r \<and> run_named r | None \<Rightarrow> False" by code_simp
  then obtain r where r: "run_get (\<lambda>_. []) ''team:1'' None (gw_runs blocked_gateway) = Some r" "override_allowed ''retry'' r" "run_named r"
    by (auto split: option.splits)
  have e: "ge_fstr (sample_env []) = (\<lambda>_. [])" "command_action retry_command = ''retry''"
    "command_denied (ge_auth_enabled (sample_env [])) (ge_operators (sample_env [])) None operator_header OVERRIDE_EXECUTE = None"
    by (simp add: sample_env_def) code_simp+
  have "files_ok (gw_runs blocked_gateway)"
    using sample_files by (simp add: blocked_gateway_def empty_gateway_def)
  from allowed_rerun_accounted [OF e(3) _ _ _ r(3) this, of "''team:1''" retry_command] r e show ?thesis by auto
qed

subsection \<open>What a failure forgets\<close>

text \<open>A run whose engine raises loses its inputs: a retry works on what is stored of them, where
  every secret is redacted. A run that ends as failed without an exception keeps them.\<close>

lemma forgets_inputs: "keeps (\<lambda>s. map_of (gw_inputs s) i = None) (fail_run env e)"
  unfolding fail_run_def recordG_def save_run_def observeG_def alert_failure_def
  by (intro keeps_rules) (simp_all add: case_prod_unfold Let_def)

lemma exception_redacts_inputs:
  assumes "execute_run env req i cid t repo s = (Inr (Some rep), s')" "rr_run_id r = i"
  shows "resolve_runtime_inputs r s' = rr_inputs r"
proof -
  let ?I = "\<lambda>s. map_of (gw_inputs s) i = None"
  have handler: "triple (\<lambda>_. True) (seqS (forget_inputs i) (seqS (fail_run env e)
      (case failure_answer e of (status, code, message) \<Rightarrow>
         bindS (failG env status code message (Some i) (Some cid)) (\<lambda>r. returnS (Some r))))) (\<lambda>_. ?I) (\<lambda>_. ?I)" for e
  proof (rule triple_seqS)
    show "triple (\<lambda>_. True) (forget_inputs i) (\<lambda>_. ?I) (\<lambda>_. ?I)"
      unfolding forget_inputs_def by (rule triple_modifyS) simp
    show "keeps ?I (seqS (fail_run env e) (case failure_answer e of (status, code, message) \<Rightarrow>
         bindS (failG env status code message (Some i) (Some cid)) (\<lambda>r. returnS (Some r))))"
      unfolding failG_def by (intro keeps_rules forgets_inputs) simp
  qed
  have "triple (\<lambda>_. True) (execute_run env req i cid t repo) (\<lambda>reply s. reply \<noteq> None \<longrightarrow> ?I s) (\<lambda>_ _. True)"
    unfolding execute_run_def
  proof (rule triple_catchS)
    show "triple (\<lambda>_. True) (bindS (call_engine env c) (\<lambda>result. seqS (complete_run env i result) (returnS None)))
        (\<lambda>reply s. reply \<noteq> None \<longrightarrow> ?I s) (\<lambda>_ _. True)" for c
      by (rule triple_bindS [OF triple_True], rule triple_seqS [OF triple_True], rule triple_returnS) simp
  qed (rule triple_conseq [OF handler], auto)
  then have "case execute_run env req i cid t repo s of (Inl _, _) \<Rightarrow> True | (Inr x, s') \<Rightarrow> x \<noteq> None \<longrightarrow> ?I s'"
    by (simp only: triple_def)
  with assms(1) have "?I s'" by simp
  then show ?thesis using assms(2) by (simp add: resolve_runtime_inputs_def)
qed

end
