(* ===== verification/Webhook.thy ===== *)
theory Webhook
  imports CommandProps
begin

text \<open>
  \<open>api/event_router.py\<close>, \<open>api/security.py\<close> and \<open>api/main.py\<close>: the GitHub webhook, in front
  of the gateway. The HMAC, the decoding of the body and the JSON parser are parameters;
  \<open>wh_decode\<close> gives \<open>None\<close> where the body is not UTF-8, \<open>wh_loads\<close> where a text is no JSON.
\<close>

subsection \<open>Which event runs which pipeline\<close>

record route_decision =
  rd_pipeline_name :: "string option"
  rd_inputs :: dict
  rd_ignored :: bool
  rd_reason :: string

definition route_ignored :: "string \<Rightarrow> route_decision" where
  "route_ignored reason = \<lparr>rd_pipeline_name = None, rd_inputs = [], rd_ignored = True, rd_reason = reason\<rparr>"

definition supported_issue_actions :: "string list" where
  "supported_issue_actions = [''opened'', ''edited'', ''reopened'']"

definition failed_workflow_conclusions :: "string list" where
  "failed_workflow_conclusions = [''failure'', ''timed_out'', ''cancelled'']"

definition or_unknown :: "string \<Rightarrow> string" where
  "or_unknown s = (if s = [] then ''unknown'' else s)"

definition text_at :: "(rat \<Rightarrow> string) \<Rightarrow> dict \<Rightarrow> string \<Rightarrow> string" where
  "text_at fstr d k = py_lower (py_strip (py_str fstr (dget_or d k (PStr []))))"

definition route_issues :: "(rat \<Rightarrow> string) \<Rightarrow> dict \<Rightarrow> route_decision" where
  "route_issues fstr payload =
     (let action = text_at fstr payload ''action'' in
      if action \<notin> set supported_issue_actions then route_ignored (''unsupported_issue_action:'' @ or_unknown action)
      else (case (dget payload ''issue'', dget payload ''repository'') of
              (PDict issue, PDict repo) \<Rightarrow>
                \<lparr>rd_pipeline_name = Some ''feature_pipeline'',
                 rd_inputs = [(''issue'', PDict issue), (''repository'', PDict repo)], rd_ignored = False,
                 rd_reason = ''mapped:issues->feature_pipeline''\<rparr>
            | _ \<Rightarrow> route_ignored ''invalid_issues_payload''))"

definition dict_or_empty :: "pyval \<Rightarrow> pyval" where
  "dict_or_empty v = (if is_dict v then v else PDict [])"

definition route_workflow_run :: "(rat \<Rightarrow> string) \<Rightarrow> dict \<Rightarrow> route_decision" where
  "route_workflow_run fstr payload =
     (case dget payload ''workflow_run'' of
        PDict run \<Rightarrow>
          (let status = text_at fstr run ''status''; conclusion = text_at fstr run ''conclusion'' in
           if conclusion \<notin> set failed_workflow_conclusions \<and> status \<notin> {''failed'', ''failure''}
           then route_ignored (''workflow_run_not_failed:'' @ (if conclusion = [] then or_unknown status else conclusion))
           else \<lparr>rd_pipeline_name = Some ''ci_scanner_pipeline'',
                 rd_inputs = [(''repository'', dict_or_empty (dget payload ''repository'')), (''ci_run'', PDict run),
                   (''original_issue'', dict_or_empty (dget payload ''issue''))], rd_ignored = False,
                 rd_reason = ''mapped:workflow_run->ci_scanner_pipeline''\<rparr>)
      | _ \<Rightarrow> route_ignored ''invalid_workflow_run_payload'')"

definition route_github_event :: "(rat \<Rightarrow> string) \<Rightarrow> string \<Rightarrow> dict \<Rightarrow> route_decision" where
  "route_github_event fstr event_type payload =
     (let event = py_lower (py_strip event_type) in
      if event = ''issues'' then route_issues fstr payload
      else if event = ''workflow_run'' then route_workflow_run fstr payload
      else route_ignored (''unsupported_event_type:'' @ or_unknown event))"

lemma route_pipeline_name:
  "rd_pipeline_name (route_github_event fstr event payload) =
     (if rd_ignored (route_github_event fstr event payload) then None
      else Some (if py_lower (py_strip event) = ''issues'' then ''feature_pipeline'' else ''ci_scanner_pipeline''))"
  by (auto simp: route_github_event_def route_issues_def route_workflow_run_def route_ignored_def Let_def split: pyval.splits)

subsection \<open>The signature\<close>

record webhook_env =
  wh_secret :: string
  wh_hmac :: "string \<Rightarrow> string \<Rightarrow> string"
  wh_decode :: "string \<Rightarrow> string option"
  wh_loads :: "string \<Rightarrow> pyval option"

definition compute_github_signature :: "webhook_env \<Rightarrow> string \<Rightarrow> string" where
  "compute_github_signature hook body = ''sha256='' @ wh_hmac hook (wh_secret hook) body"

definition verify_github_signature :: "webhook_env \<Rightarrow> string \<Rightarrow> string \<Rightarrow> bool" where
  "verify_github_signature hook header body \<longleftrightarrow>
     wh_secret hook \<noteq> [] \<and> header \<noteq> [] \<and> compute_github_signature hook body = py_strip header"

subsection \<open>The endpoint\<close>

record webhook_request =
  wq_body :: string
  wq_signature :: string
  wq_event :: string
  wq_delivery :: "string option"

definition webhook_payload :: "webhook_env \<Rightarrow> string \<Rightarrow> exn + dict" where
  "webhook_payload hook body =
     (case wh_decode hook body of
        None \<Rightarrow> Inl (OtherError ''UnicodeDecodeError'')
      | Some text \<Rightarrow>
          (case wh_loads hook (if text = [] then ''{}'' else text) of
             None \<Rightarrow> Inl (HTTPException 400 ''Invalid JSON body'')
           | Some (PDict d) \<Rightarrow> Inr d
           | Some _ \<Rightarrow> Inl (HTTPException 400 ''Webhook JSON body must be an object'')))"

definition webhook_pipeline_request :: "gateway_env \<Rightarrow> webhook_request \<Rightarrow> string \<Rightarrow> route_decision \<Rightarrow> pipeline_request" where
  "webhook_pipeline_request env req correlation_id d =
     (let name = (case rd_pipeline_name d of None \<Rightarrow> ''None'' | Some n \<Rightarrow> n) in
      \<lparr>pq_pipeline_name = name, pq_inputs = rd_inputs d, pq_source = ''webhook'', pq_tenant_id = None, pq_repository = None,
       pq_correlation_id = Some correlation_id,
       pq_idempotency_key = Some (build_idempotency_key (ge_sha256 env) (ge_fstr env)
         (''webhook:'' @ wq_event req @ '':'' @ correlation_id) name (rd_inputs d)),
       pq_async_mode = False\<rparr>)"

definition delivery_id :: "gateway_env \<Rightarrow> webhook_request \<Rightarrow> (gateway, string) st" where
  "delivery_id env req = (case wq_delivery req of Some (c # i) \<Rightarrow> returnS (c # i) | _ \<Rightarrow> tickG (ge_uuid env))"

definition webhook_answer :: "webhook_request \<Rightarrow> string \<Rightarrow> route_decision \<Rightarrow> reply \<Rightarrow> reply" where
  "webhook_answer req correlation_id d trigger =
     (case trigger of
        Failure resp \<Rightarrow> Failure resp
      | Body b \<Rightarrow> Body [(''status'', PStr ''accepted''), (''event_type'', PStr (wq_event req)),
          (''pipeline_name'', opt_text (rd_pipeline_name d)), (''correlation_id'', PStr correlation_id),
          (''trigger_result'', PDict b)])"

definition github_webhook :: "gateway_env \<Rightarrow> webhook_env \<Rightarrow> webhook_request \<Rightarrow> (gateway, reply) st" where
  "github_webhook env hook req =
     bindS (delivery_id env req) (\<lambda>correlation_id.
       if \<not> verify_github_signature hook (wq_signature req) (wq_body req)
       then raiseS (HTTPException 401 ''Invalid webhook signature'')
       else bindS (liftE (webhook_payload hook (wq_body req))) (\<lambda>payload.
         let d = route_github_event (ge_fstr env) (wq_event req) payload in
         if rd_ignored d
         then returnS (Body [(''status'', PStr ''ignored''), (''event_type'', PStr (wq_event req)),
           (''correlation_id'', PStr correlation_id), (''reason'', PStr (rd_reason d))])
         else bindS (run_pipeline_request env (webhook_pipeline_request env req correlation_id d))
           (\<lambda>trigger. returnS (webhook_answer req correlation_id d trigger))))"

subsection \<open>What the webhook promises\<close>

text \<open>A webhook whose signature is not the one of its body under the configured secret, or that
  comes while no secret is configured, is answered with status 401, and nothing else happens.\<close>

theorem unsigned_webhook_rejected:
  assumes "\<not> verify_github_signature hook (wq_signature req) (wq_body req)"
  shows "\<exists>n. github_webhook env hook req s = (Inl (HTTPException 401 ''Invalid webhook signature''), s\<lparr>gw_tick := n\<rparr>)"
  using assms
  by (auto simp: github_webhook_def delivery_id_def bindS_def raiseS_def returnS_def tickG_def
      split: option.splits list.splits intro: exI [of _ "gw_tick s"])

definition sample_hook :: webhook_env where
  "sample_hook = \<lparr>wh_secret = ''s'', wh_hmac = (\<lambda>k b. k @ b), wh_decode = Some,
     wh_loads = (\<lambda>_. Some (PDict [(''action'', PStr ''opened''), (''issue'', PDict []), (''repository'', PDict [])]))\<rparr>"

definition sample_delivery :: "string \<Rightarrow> webhook_request" where
  "sample_delivery signature = \<lparr>wq_body = ''b'', wq_signature = signature, wq_event = ''issues'', wq_delivery = Some ''d''\<rparr>"

lemma unsigned_webhook_rejected_witness:
  "\<exists>n. github_webhook (sample_env []) sample_hook (sample_delivery ''sha256=x'') empty_gateway =
     (Inl (HTTPException 401 ''Invalid webhook signature''), empty_gateway\<lparr>gw_tick := n\<rparr>)"
proof (rule unsigned_webhook_rejected)
  show "\<not> verify_github_signature sample_hook (wq_signature (sample_delivery ''sha256=x'')) (wq_body (sample_delivery ''sha256=x''))"
    by code_simp
qed

lemma signed_webhook:
  assumes "verify_github_signature hook (wq_signature req) (wq_body req)" "webhook_payload hook (wq_body req) = Inr payload"
    and "d = route_github_event (ge_fstr env) (wq_event req) payload" "\<not> rd_ignored d" "wq_delivery req = Some (c # i)"
  shows "github_webhook env hook req s =
    bindS (run_pipeline_request env (webhook_pipeline_request env req (c # i) d)) (\<lambda>t. returnS (webhook_answer req (c # i) d t)) s"
  using assms(1, 2, 4, 5) unfolding assms(3)
  by (simp add: github_webhook_def delivery_id_def bindS_def returnS_def liftE_def Let_def)

text \<open>
  What may come between two deliveries: other deliveries and requests for pipelines, in
  any number and order, with any outcome.
\<close>

type_synonym gate_event = "webhook_request + pipeline_request"

definition gate_event :: "gateway_env \<Rightarrow> webhook_env \<Rightarrow> gate_event \<Rightarrow> gateway \<Rightarrow> gateway" where
  "gate_event env hook e s =
     (case e of Inl w \<Rightarrow> snd (github_webhook env hook w s) | Inr q \<Rightarrow> snd (run_pipeline_request env q s))"

definition gate_events :: "gateway_env \<Rightarrow> webhook_env \<Rightarrow> gate_event list \<Rightarrow> gateway \<Rightarrow> gateway" where
  "gate_events env hook = fold (gate_event env hook)"

definition plain_tenant :: "gateway_env \<Rightarrow> gate_event \<Rightarrow> bool" where
  "plain_tenant env e = (case e of Inl w \<Rightarrow> True | Inr q \<Rightarrow> CHR '':'' \<notin> set (fst (resolve_tenant_repository env q)))"

lemma webhook_tenant:
  "fst (resolve_tenant_repository env (webhook_pipeline_request env w c d)) =
     normalize_tenant_id None (tr_default_tenant_id (ge_tenants env))"
  by (auto simp: webhook_pipeline_request_def resolve_tenant_repository_def validate_boundary_def Let_def
      split: option.splits if_splits)

lemma keeps_snd: "keeps I m \<Longrightarrow> I s \<Longrightarrow> I (snd (m s))"
  by (cases "m s") (auto simp: triple_def dest!: spec [of _ s] split: sum.splits)

lemma webhook_holds:
  assumes "mono (ge_time env)" "t \<noteq> []" "CHR '':'' \<notin> set t" "scoped = scope_idempotency_key t key"
    and "t = normalize_tenant_id None (tr_default_tenant_id (ge_tenants env))"
  shows "keeps (holds_key env t scoped i until) (github_webhook env hook w)"
proof -
  let ?H = "holds_key env t scoped i until"
  note closed = holds_key_closed(1) [OF assms(1,2), of scoped i until]
  have draw: "keeps ?H (delivery_id env w)"
    unfolding delivery_id_def by (auto split: option.split list.split intro: gate_tick [OF closed] keeps_rules)
  have run: "keeps ?H (run_pipeline_request env (webhook_pipeline_request env w c d))" for c d
    by (rule request_holds [OF assms(1-4)]) (use assms(3,5) in \<open>simp add: webhook_tenant\<close>)
  show ?thesis unfolding github_webhook_def Let_def by (intro keeps_compound(1) [OF draw] keeps_rules run)
qed

lemma events_hold:
  assumes "mono (ge_time env)" "t \<noteq> []" "CHR '':'' \<notin> set t" "scoped = scope_idempotency_key t key"
    and "t = normalize_tenant_id None (tr_default_tenant_id (ge_tenants env))" "list_all (plain_tenant env) events"
    and "holds_key env t scoped i until s"
  shows "holds_key env t scoped i until (gate_events env hook events s)"
  using assms(6,7)
proof (induction events arbitrary: s)
  case (Cons e es)
  have "holds_key env t scoped i until (gate_event env hook e s)"
  proof (cases e)
    case (Inl w)
    have "holds_key env t scoped i until (snd (github_webhook env hook w s))"
      by (rule keeps_snd [OF webhook_holds [OF assms(1-5)] Cons.prems(2)])
    then show ?thesis by (simp add: gate_event_def Inl)
  next
    case (Inr q)
    then have "CHR '':'' \<notin> set (fst (resolve_tenant_repository env q))" using Cons.prems(1) by (simp add: plain_tenant_def)
    from keeps_snd [OF request_holds [OF assms(1-4) this] Cons.prems(2)] show ?thesis by (simp add: gate_event_def Inr)
  qed
  with Cons show ?case by (simp add: gate_events_def)
qed (simp add: gate_events_def)

text \<open>C34: A delivery that GitHub sends again is accepted with the run its first arrival has started
  and runs nothing, whatever deliveries and requests for pipelines the gateway has served in
  between, as long as the time to live of a key has not passed since the first arrival.
  The clock does not run backwards, and the tenants that take part have no colon in their
  names.\<close>

theorem redelivery_runs_nothing:
  assumes "verify_github_signature hook (wq_signature req) (wq_body req)" "webhook_payload hook (wq_body req) = Inr payload"
    and "d = route_github_event (ge_fstr env) (wq_event req) payload" "\<not> rd_ignored d" "wq_delivery req = Some (c # i)"
    and "github_webhook env hook req s = (Inr (Body b), s1)" "dget b ''trigger_result'' = PDict r" "dget r ''status'' = PStr ''started''"
    and "resolve_tenant_repository env (webhook_pipeline_request env req (c # i) d) = (t, repo, None)" "files_ok (gw_runs s)"
    and "CHR '':'' \<notin> set t" "fresh_ids env t s" "distinct (map fst (is_mapping (gw_idem s)))"
    and "mono (ge_time env)" "list_all (plain_tenant env) events" "s2 = gate_events env hook events s1"
    and "ge_time env (gw_tick s2) < ge_time env (gw_tick s) + of_int (is_ttl_seconds (gw_idem s))"
  shows "\<exists>b2 r2 s3. github_webhook env hook req s2 = (Inr (Body b2), s3) \<and> dget b2 ''status'' = PStr ''accepted'' \<and>
    dget b2 ''trigger_result'' = PDict r2 \<and> dget r2 ''status'' = PStr ''duplicate'' \<and>
    dget r2 ''run_id'' = dget r ''run_id'' \<and> nothing_run s2 s3"
proof -
  let ?req = "webhook_pipeline_request env req (c # i) d"
  let ?until = "ge_time env (gw_tick s) + of_int (is_ttl_seconds (gw_idem s))"
  note run = signed_webhook [OF assms(1-5)]
  have now: "\<not> pq_async_mode ?req" by (simp add: webhook_pipeline_request_def Let_def)
  have "run_pipeline_request env ?req s = (Inr (Body r), s1)"
    using assms(6, 7) unfolding run
    by (auto simp: bindS_def returnS_def webhook_answer_def dget_def split: prod.splits sum.splits reply.splits)
  from started_holds [OF this assms(8, 9) now assms(10-14)] obtain j where j: "dget r ''run_id'' = PStr j"
    "holds_key env t (scope_idempotency_key t (request_key env t repo ?req)) j ?until s1" by blast
  have t: "t \<noteq> []" "t = normalize_tenant_id None (tr_default_tenant_id (ge_tenants env))"
    using resolved_tenant(1) [OF assms(9)] webhook_tenant [of env req "c # i" d] assms(9) by simp_all
  have held: "holds_key env t (scope_idempotency_key t (request_key env t repo ?req)) j ?until s2"
    unfolding assms(16) by (rule events_hold [OF assms(14) t(1) assms(11) refl t(2) assms(15) j(2)])
  have "lookup_tick ?req s2 = gw_tick s2" by (simp add: lookup_tick_def webhook_pipeline_request_def Let_def)
  with held_request [OF held assms(14, 9) now refl] assms(17)
  obtain r2 s3 where "run_pipeline_request env ?req s2 = (Inr (Body r2), s3)" "dget r2 ''status'' = PStr ''duplicate''"
    "dget r2 ''run_id'' = dget r ''run_id''" "nothing_run s2 s3" using j(1) by auto
  then show ?thesis unfolding run
    by (simp add: bindS_def returnS_def webhook_answer_def dget_def)
qed

lemma redelivery_runs_nothing_witness:
  "\<exists>b r s1 s2 b2 r2 s3. github_webhook (sample_env []) sample_hook (sample_delivery ''sha256=sb'') empty_gateway = (Inr (Body b), s1) \<and>
     s2 = gate_events (sample_env []) sample_hook [Inl (sample_delivery ''sha256=x''), Inr sample_call] s1 \<and>
     github_webhook (sample_env []) sample_hook (sample_delivery ''sha256=sb'') s2 = (Inr (Body b2), s3) \<and>
     dget b ''trigger_result'' = PDict r \<and> dget b2 ''trigger_result'' = PDict r2 \<and> dget r2 ''status'' = PStr ''duplicate'' \<and>
     dget r2 ''run_id'' = dget r ''run_id'' \<and> nothing_run s2 s3"
proof -
  let ?env = "sample_env []" and ?hook = sample_hook and ?req = "sample_delivery ''sha256=sb''"
  let ?payload = "[(''action'', PStr ''opened''), (''issue'', PDict []), (''repository'', PDict [])]"
  let ?d = "route_github_event (ge_fstr ?env) (wq_event ?req) ?payload"
  have v: "verify_github_signature ?hook (wq_signature ?req) (wq_body ?req)" by code_simp
  have p: "webhook_payload ?hook (wq_body ?req) = Inr ?payload" by code_simp
  have n: "\<not> rd_ignored ?d" "wq_delivery ?req = Some (CHR ''d'' # [])" by code_simp (simp add: sample_delivery_def)
  let ?call = "webhook_pipeline_request ?env ?req (CHR ''d'' # []) ?d"
  have t: "resolve_tenant_repository ?env ?call = (''default'', None, None)" by code_simp
  have now: "\<not> pq_async_mode ?call" by (simp add: webhook_pipeline_request_def Let_def)
  obtain r s1 where r: "run_pipeline_request ?env ?call empty_gateway = (Inr (Body r), s1)" "dget r ''status'' = PStr ''started''"
    using sample_starts [OF t now] by auto
  then obtain b where b: "github_webhook ?env ?hook ?req empty_gateway = (Inr (Body b), s1)" "dget b ''trigger_result'' = PDict r"
    unfolding signed_webhook [OF v p refl n] by (simp add: bindS_def returnS_def webhook_answer_def dget_def)
  have m: "mono (ge_time ?env)" by (simp add: sample_env_def mono_def)
  have e: "list_all (plain_tenant ?env) [Inl (sample_delivery ''sha256=x''), Inr sample_call]"
    using sample_tenant by (simp add: plain_tenant_def)
  show ?thesis
    using redelivery_runs_nothing [OF v p refl n b r(2) t sample_files _ sample_fresh _ m e refl] b by simp blast
qed

end
