(* ===== verification/CostTracker.thy ===== *)
theory CostTracker
  imports PyValue
begin

text \<open>
  \<open>observability/cost_tracker.py\<close>: the costs of model calls. Prices and costs are exact
  rationals; \<open>rnd\<close> stands for \<open>round(x, 6)\<close>. Only for sums of floating-point costs does the
  code differ from it, by rounding.
\<close>

type_synonym model_prices = "(string \<times> rat) list"
type_synonym pricing = "(string \<times> (string \<times> model_prices) list) list"

definition default_pricing :: pricing where
  "default_pricing =
     [(''openai'',
        [(''gpt-4o'', [(''input'', 5 / 2), (''output'', 10)]),
         (''gpt-4o-mini'', [(''input'', 15 / 100), (''output'', 6 / 10)]),
         (''gpt-4-turbo'', [(''input'', 10), (''output'', 30)]),
         (''gpt-3.5-turbo'', [(''input'', 1 / 2), (''output'', 3 / 2)])]),
      (''anthropic'',
        [(''claude-3-5-sonnet'', [(''input'', 3), (''output'', 15)]),
         (''claude-3-opus'', [(''input'', 15), (''output'', 75)]),
         (''claude-3-haiku'', [(''input'', 1 / 4), (''output'', 5 / 4)])]),
      (''google'',
        [(''gemini-1.5-pro'', [(''input'', 5 / 4), (''output'', 5)]),
         (''gemini-1.5-flash'', [(''input'', 75 / 1000), (''output'', 3 / 10)])]),
      (''generic'', [(''default'', [(''input'', 1), (''output'', 2)])])]"

record cost_record =
  co_run_id :: string
  co_step_name :: string
  co_provider :: string
  co_model :: string
  co_input_tokens :: int
  co_output_tokens :: int
  co_latency_seconds :: rat
  co_timestamp :: string
  co_cost_usd :: rat

definition lookup_or :: "('k \<times> 'v) list \<Rightarrow> 'k \<Rightarrow> 'v \<Rightarrow> 'v" where
  "lookup_or d k v = (case map_of d k of None \<Rightarrow> v | Some w \<Rightarrow> w)"

text \<open>An empty table of prices counts as none.\<close>

definition record_cost :: "(rat \<Rightarrow> rat) \<Rightarrow> pricing option \<Rightarrow> cost_record \<Rightarrow> rat" where
  "record_cost rnd prices r =
     (let effective = (case prices of Some (p # ps) \<Rightarrow> p # ps | _ \<Rightarrow> default_pricing);
          provider = lookup_or effective (co_provider r) (lookup_or effective ''generic'' []);
          model = lookup_or provider (co_model r) (lookup_or provider ''default'' [])
      in rnd (of_int (co_input_tokens r) / 1000000 * lookup_or model ''input'' 1 +
              of_int (co_output_tokens r) / 1000000 * lookup_or model ''output'' 2))"

record cost_tracker =
  ct_records :: "cost_record list"
  ct_budget_limit_usd :: "rat option"
  ct_pricing :: pricing

definition new_cost_tracker :: "rat option \<Rightarrow> pricing option \<Rightarrow> cost_tracker" where
  "new_cost_tracker budget prices =
     \<lparr>ct_records = [], ct_budget_limit_usd = (case budget of Some b \<Rightarrow> if b > 0 then Some b else None | None \<Rightarrow> None),
      ct_pricing = (case prices of Some (p # ps) \<Rightarrow> p # ps | _ \<Rightarrow> default_pricing)\<rparr>"

definition record_call ::
  "(rat \<Rightarrow> rat) \<Rightarrow> string \<Rightarrow> string \<Rightarrow> string \<Rightarrow> string \<Rightarrow> string \<Rightarrow> int \<Rightarrow> int \<Rightarrow> rat \<Rightarrow> cost_tracker \<Rightarrow> cost_record \<times> cost_tracker" where
  "record_call rnd now run_id step provider model input output latency t =
     (let r = \<lparr>co_run_id = run_id, co_step_name = step, co_provider = py_lower provider, co_model = py_lower model,
                co_input_tokens = max 0 input, co_output_tokens = max 0 output, co_latency_seconds = max 0 latency,
                co_timestamp = now, co_cost_usd = 0\<rparr>;
          priced = r\<lparr>co_cost_usd := record_cost rnd (Some (ct_pricing t)) r\<rparr>
      in (priced, t\<lparr>ct_records := ct_records t @ [priced]\<rparr>))"

record usage_sum =
  us_calls :: nat
  us_input_tokens :: int
  us_output_tokens :: int
  us_cost_usd :: rat

definition no_usage :: usage_sum where
  "no_usage = \<lparr>us_calls = 0, us_input_tokens = 0, us_output_tokens = 0, us_cost_usd = 0\<rparr>"

definition add_call_usage :: "cost_record \<Rightarrow> usage_sum \<Rightarrow> usage_sum" where
  "add_call_usage r u =
     \<lparr>us_calls = us_calls u + 1, us_input_tokens = us_input_tokens u + co_input_tokens r,
      us_output_tokens = us_output_tokens u + co_output_tokens r, us_cost_usd = us_cost_usd u + co_cost_usd r\<rparr>"

text \<open>The usage by a key of the records, in the order in which the keys are met.\<close>

definition usage_by :: "(cost_record \<Rightarrow> string) \<Rightarrow> cost_record list \<Rightarrow> (string \<times> usage_sum) list" where
  "usage_by key rs = fold (\<lambda>r d. AList.update (key r) (add_call_usage r (lookup_or d (key r) no_usage)) d) rs []"

record cost_summary =
  cs_run_id :: string
  cs_total_cost_usd :: rat
  cs_total_input_tokens :: int
  cs_total_output_tokens :: int
  cs_total_calls :: nat
  cs_by_model :: "(string \<times> usage_sum) list"
  cs_by_step :: "(string \<times> usage_sum) list"

definition model_key :: "cost_record \<Rightarrow> string" where
  "model_key r = co_provider r @ ''/'' @ co_model r"

definition get_records :: "string option \<Rightarrow> cost_tracker \<Rightarrow> cost_record list" where
  "get_records run_id t =
     (case run_id of None \<Rightarrow> ct_records t | Some i \<Rightarrow> filter (\<lambda>r. co_run_id r = i) (ct_records t))"

definition get_summary :: "(rat \<Rightarrow> rat) \<Rightarrow> string \<Rightarrow> cost_tracker \<Rightarrow> cost_summary" where
  "get_summary rnd run_id t =
     (let rs = get_records (Some run_id) t in
      if rs = [] then
        \<lparr>cs_run_id = run_id, cs_total_cost_usd = 0, cs_total_input_tokens = 0, cs_total_output_tokens = 0,
         cs_total_calls = 0, cs_by_model = [], cs_by_step = []\<rparr>
      else
        \<lparr>cs_run_id = run_id, cs_total_cost_usd = rnd (sum_list (map co_cost_usd rs)),
         cs_total_input_tokens = sum_list (map co_input_tokens rs), cs_total_output_tokens = sum_list (map co_output_tokens rs),
         cs_total_calls = length rs, cs_by_model = usage_by model_key rs, cs_by_step = usage_by co_step_name rs\<rparr>)"

definition check_budget :: "(rat \<Rightarrow> rat) \<Rightarrow> string \<Rightarrow> cost_tracker \<Rightarrow> bool \<times> rat" where
  "check_budget rnd run_id t =
     (case ct_budget_limit_usd t of
        None \<Rightarrow> (True, 0)
      | Some limit \<Rightarrow> (let remaining = limit - cs_total_cost_usd (get_summary rnd run_id t) in (0 \<le> remaining, remaining)))"

definition get_total_cost :: "cost_tracker \<Rightarrow> rat" where
  "get_total_cost t = sum_list (map co_cost_usd (ct_records t))"

definition clear_costs :: "cost_tracker \<Rightarrow> cost_tracker" where
  "clear_costs t = t\<lparr>ct_records := []\<rparr>"

subsection \<open>A summary adds up\<close>

text \<open>The sum of one component of the usages.\<close>

definition total_of :: "(usage_sum \<Rightarrow> 'a::comm_monoid_add) \<Rightarrow> (string \<times> usage_sum) list \<Rightarrow> 'a" where
  "total_of f d = sum_list (map (\<lambda>p. f (snd p)) d)"

lemma total_of_update:
  fixes f :: "usage_sum \<Rightarrow> 'a::ab_group_add"
  assumes "distinct (map fst d)"
  shows "total_of f (AList.update k u d) = total_of f d - (case map_of d k of None \<Rightarrow> 0 | Some v \<Rightarrow> f v) + f u"
  using assms by (induction d) (auto simp: total_of_def algebra_simps split: option.splits dest: map_of_SomeD)

text \<open>A component that a record adds to.\<close>

lemma usage_by_total:
  fixes f :: "usage_sum \<Rightarrow> 'a::ab_group_add"
  assumes "\<And>r u. f (add_call_usage r u) = f u + g r" "f no_usage = 0"
  shows "distinct (map fst (usage_by key rs)) \<and> total_of f (usage_by key rs) = sum_list (map g rs)"
proof (induction rs rule: rev_induct)
  case (snoc r rs)
  let ?d = "usage_by key rs"
  have "usage_by key (rs @ [r]) = AList.update (key r) (add_call_usage r (lookup_or ?d (key r) no_usage)) ?d"
    by (simp add: usage_by_def)
  with snoc show ?case
    by (simp add: distinct_update total_of_update assms lookup_or_def split: option.splits)
qed (simp add: usage_by_def total_of_def)

lemma usage_by_sums:
  "total_of (\<lambda>u. int (us_calls u)) (usage_by key rs) = int (length rs)"
  "total_of us_input_tokens (usage_by key rs) = sum_list (map co_input_tokens rs)"
  "total_of us_output_tokens (usage_by key rs) = sum_list (map co_output_tokens rs)"
  "total_of us_cost_usd (usage_by key rs) = sum_list (map co_cost_usd rs)"
  using usage_by_total [of "\<lambda>u. int (us_calls u)" "\<lambda>_. 1" key rs] usage_by_total [of us_input_tokens co_input_tokens key rs]
    usage_by_total [of us_output_tokens co_output_tokens key rs] usage_by_total [of us_cost_usd co_cost_usd key rs]
  by (simp_all add: add_call_usage_def no_usage_def sum_list_triv)

lemma usage_by_distinct: "distinct (map fst (usage_by key rs))"
  using usage_by_total [of us_cost_usd co_cost_usd key rs] by (simp add: add_call_usage_def no_usage_def)

text \<open>The calls of a run after a sequence of calls: run, step, provider, model, tokens, latency.\<close>

type_synonym model_call = "string \<times> string \<times> string \<times> string \<times> int \<times> int \<times> rat"

definition make_call :: "(rat \<Rightarrow> rat) \<Rightarrow> string \<Rightarrow> model_call \<Rightarrow> cost_tracker \<Rightarrow> cost_tracker" where
  "make_call rnd now = (\<lambda>(run, step, provider, model, i, n, l) t. snd (record_call rnd now run step provider model i n l t))"

definition call_tokens :: "string \<Rightarrow> model_call \<Rightarrow> int \<times> int" where
  "call_tokens run_id = (\<lambda>(run, step, provider, model, i, n, l). if run = run_id then (max 0 i, max 0 n) else (0, 0))"

lemma calls_tokens:
  "sum_list (map co_input_tokens (get_records (Some run) (fold (make_call rnd now) calls t))) =
     sum_list (map co_input_tokens (get_records (Some run) t)) + sum_list (map (\<lambda>c. fst (call_tokens run c)) calls)"
  "sum_list (map co_output_tokens (get_records (Some run) (fold (make_call rnd now) calls t))) =
     sum_list (map co_output_tokens (get_records (Some run) t)) + sum_list (map (\<lambda>c. snd (call_tokens run c)) calls)"
  by (induction calls arbitrary: t)
    (auto simp: make_call_def record_call_def get_records_def call_tokens_def Let_def split: prod.splits)

text \<open>Whatever calls are recorded, the summary of a run adds up: the tokens are those of the
  run's calls, negative ones taken as none, and the usage by model and the usage by step both
  add up to the summary's calls, tokens and costs, each key occurring once; the budget check
  passes exactly when the summary's cost is within the limit, if there is a positive one.\<close>

theorem cost_summary_adds_up:
  assumes "t = fold (make_call rnd now) calls (new_cost_tracker budget prices)" "s = get_summary rnd run t" "rnd 0 = 0"
  shows "cs_total_input_tokens s = sum_list (map (\<lambda>c. fst (call_tokens run c)) calls) \<and>
    cs_total_output_tokens s = sum_list (map (\<lambda>c. snd (call_tokens run c)) calls) \<and>
    list_all (\<lambda>d. distinct (map fst d) \<and> total_of (\<lambda>u. int (us_calls u)) d = int (cs_total_calls s) \<and>
      total_of us_input_tokens d = cs_total_input_tokens s \<and> total_of us_output_tokens d = cs_total_output_tokens s \<and>
      rnd (total_of us_cost_usd d) = cs_total_cost_usd s) [cs_by_model s, cs_by_step s] \<and>
    fst (check_budget rnd run t) = (case budget of None \<Rightarrow> True | Some limit \<Rightarrow> limit \<le> 0 \<or> cs_total_cost_usd s \<le> limit)"
proof -
  let ?rs = "get_records (Some run) t"
  have tokens: "sum_list (map co_input_tokens ?rs) = sum_list (map (\<lambda>c. fst (call_tokens run c)) calls)"
    "sum_list (map co_output_tokens ?rs) = sum_list (map (\<lambda>c. snd (call_tokens run c)) calls)"
    using calls_tokens [where t = "new_cost_tracker budget prices"]
    by (simp_all add: assms(1) get_records_def new_cost_tracker_def)
  have limit: "ct_budget_limit_usd (fold (make_call rnd now) cs t0) = ct_budget_limit_usd t0" for cs t0
    by (induction cs arbitrary: t0) (auto simp: make_call_def record_call_def Let_def split: prod.splits)
  have budget: "fst (check_budget rnd run t) = (case budget of None \<Rightarrow> True | Some limit \<Rightarrow> limit \<le> 0 \<or> cs_total_cost_usd s \<le> limit)"
    using limit [of calls "new_cost_tracker budget prices"]
    by (auto simp: check_budget_def assms(1, 2) new_cost_tracker_def Let_def split: option.splits)
  show ?thesis
  proof (cases "?rs = []")
    case True
    then show ?thesis using tokens budget assms(3) by (simp add: assms(2) get_summary_def total_of_def)
  next
    case False
    then show ?thesis using tokens budget
      by (simp add: assms(2) get_summary_def usage_by_sums usage_by_distinct Let_def)
  qed
qed

lemma cost_summary_adds_up_witness:
  "cs_total_input_tokens (get_summary id ''r'' (fold (make_call id ''now'')
     [(''r'', ''s'', ''OpenAI'', ''gpt-4o'', 10, 1, 0), (''q'', ''s'', ''x'', ''y'', 5, 5, 0), (''r'', ''u'', ''x'', ''y'', -3, 2, 0)]
     (new_cost_tracker (Some 1) None))) = 10"
  using cost_summary_adds_up [OF refl refl, where rnd = id and now = "''now''" and run = "''r''" and budget = "Some 1" and prices = None
    and calls = "[(''r'', ''s'', ''OpenAI'', ''gpt-4o'', 10, 1, 0), (''q'', ''s'', ''x'', ''y'', 5, 5, 0), (''r'', ''u'', ''x'', ''y'', -3, 2, 0)]"]
  by (simp add: call_tokens_def)

end
