(* ===== verification/FixLoop.thy ===== *)
theory FixLoop
  imports StateExn Regex
begin

text \<open>
  \<open>agents/fix_loop.py\<close>: the results of test runs read off their output, and the loop that asks
  the model for fixes. The call of the model (\<open>generate_code_with_retry\<close> of
  \<open>agents/llm_wrapper.py\<close>) is the parameter \<open>llm\<close>: it gets the specification and the context,
  and returns code or raises; \<open>'s\<close> is what it works on. Logging is left out.
\<close>

subsection \<open>Results of test runs\<close>

record test_result_data =
  td_passed :: bool
  td_total_tests :: nat
  td_passed_tests :: nat
  td_failed_tests :: nat
  td_error_messages :: "string list"
  td_failure_messages :: "string list"
  td_raw_output :: string

definition new_test_result :: "bool \<Rightarrow> string \<Rightarrow> test_result_data" where
  "new_test_result passed output =
     \<lparr>td_passed = passed, td_total_tests = 0, td_passed_tests = 0, td_failed_tests = 0, td_error_messages = [],
      td_failure_messages = [], td_raw_output = output\<rparr>"

definition run_github_actions_workflow :: "exn + unit \<Rightarrow> test_result_data" where
  "run_github_actions_workflow dispatched =
     (case dispatched of
        Inr _ \<Rightarrow> new_test_result True []
      | Inl e \<Rightarrow> (new_test_result False [])\<lparr>td_error_messages := [''Workflow execution failed: '' @ exn_str e]\<rparr>)"

text \<open>The number in front of a word: \<open>(\d+) passed\<close> and the like.\<close>

definition rx_number :: "string \<Rightarrow> rx" where
  "rx_number word = Seq (Grp 1 (rx_plus True (Chr is_digit))) (rx_text (CHR '' '' # word))"

definition number_before :: "string \<Rightarrow> string \<Rightarrow> string option" where
  "number_before word output = map_option (\<lambda>(_, caps). cap 1 caps) (rx_search (rx_number word) output)"

text \<open>The lines from one that reports a failure to the next section or empty line.\<close>

definition rx_rule :: rx where
  "rx_rule = Seq (rx_plus True (Chr (\<lambda>c. c = CHR ''=''))) (rx_text '' '')"

definition rx_failure_section :: rx where
  "rx_failure_section =
     Seq LineStart (Seq (rx_opt (Grp 1 rx_rule)) (Seq (rx_text ''FAILED'')
       (Seq (Rep False (Chr (\<lambda>_. True))) (Ahead (Alt (Seq LineStart rx_rule) (Seq LineStart LineEnd))))))"

definition number_of :: "string option \<Rightarrow> nat" where
  "number_of v = (case v of None \<Rightarrow> 0 | Some d \<Rightarrow> digits_value d)"

definition parse_pytest_output :: "string \<Rightarrow> test_result_data" where
  "parse_pytest_output output =
     (let passed = number_of (number_before ''passed'' output); failed = number_of (number_before ''failed'' output);
          errors = (case number_before ''error'' output of None \<Rightarrow> [] | Some d \<Rightarrow> [d @ '' errors''])
      in (new_test_result (failed = 0 \<and> errors = []) output)
           \<lparr>td_total_tests := passed + failed, td_passed_tests := passed, td_failed_tests := failed, td_error_messages := errors,
            td_failure_messages := (case rx_search rx_failure_section output of None \<Rightarrow> [] | Some (m, _) \<Rightarrow> [m])\<rparr>)"

definition rx_jest_summary :: rx where
  "rx_jest_summary =
     Seq (rx_text ''Tests:'') (Seq (rx_plus True (Chr py_isspace))
       (Seq (Grp 1 (rx_plus False (Chr (\<lambda>c. c \<noteq> CHR 0x0A)))) (Alt (Chr (\<lambda>c. c = CHR 0x0A)) TextEnd)))"

definition parse_jest_output :: "string \<Rightarrow> test_result_data" where
  "parse_jest_output output =
     (let (passed, failed) =
        (case rx_search rx_jest_summary output of
           None \<Rightarrow> (0, 0)
         | Some (_, caps) \<Rightarrow> (number_of (number_before ''passed'' (cap 1 caps)), number_of (number_before ''failed'' (cap 1 caps))))
      in (new_test_result (failed = 0) output)
           \<lparr>td_total_tests := passed + failed, td_passed_tests := passed, td_failed_tests := failed\<rparr>)"

definition count_matches :: "string \<Rightarrow> string \<Rightarrow> nat" where
  "count_matches prefix output = length (rx_findall (Seq (rx_text prefix) (Grp 1 (rx_plus True (Chr is_word_char)))) output)"

definition parse_go_test_output :: "string \<Rightarrow> test_result_data" where
  "parse_go_test_output output =
     (let failed = count_matches ''--- FAIL: '' output; passed = count_matches ''--- PASS: '' output
      in (new_test_result (failed = 0) output)
           \<lparr>td_total_tests := failed + passed, td_passed_tests := passed, td_failed_tests := failed\<rparr>)"

definition parse_test_output :: "string \<Rightarrow> string \<Rightarrow> test_result_data" where
  "parse_test_output output framework =
     (if framework = ''jest'' then parse_jest_output output
      else if framework = ''go'' then parse_go_test_output output else parse_pytest_output output)"

subsection \<open>The loop\<close>

record fix_iteration =
  fi_iteration :: nat
  fi_test_result :: test_result_data
  fi_generated_fix :: "dict option"
  fi_applied :: bool
  fi_error :: "string option"

record fix_result =
  fr_success :: bool
  fr_iterations :: "fix_iteration list"
  fr_final_test_result :: "test_result_data option"
  fr_error :: "string option"
  fr_max_iterations_reached :: bool

text \<open>The first 2000 characters of the first file.\<close>

definition no_attribute :: "pyval \<Rightarrow> exn" where
  "no_attribute v = OtherError (repr_string (type_name v) @ '' object has no attribute '' @ repr_string ''get'')"

definition first_item :: "pyval \<Rightarrow> exn + pyval" where
  "first_item v =
     (case v of
        PList (x # _) \<Rightarrow> Inr x
      | PStr (c # _) \<Rightarrow> Inr (PStr [c])
      | PDict _ \<Rightarrow> Inl (KeyError ''0'')
      | _ \<Rightarrow> Inl (TypeError (repr_string (type_name v) @ '' object is not subscriptable'')))"

definition first_2000 :: "pyval \<Rightarrow> exn + pyval" where
  "first_2000 v =
     (case v of
        PStr s \<Rightarrow> Inr (PStr (take 2000 s))
      | PList xs \<Rightarrow> Inr (PList (take 2000 xs))
      | PDict _ \<Rightarrow> Inl (TypeError ''unhashable type'')
      | _ \<Rightarrow> Inl (TypeError (repr_string (type_name v) @ '' object is not subscriptable'')))"

definition extract_code_context :: "dict \<Rightarrow> exn + pyval" where
  "extract_code_context code_result =
     (let files = dget_or code_result ''files'' (PList []) in
      if \<not> truthy files then Inr (PStr [])
      else bindE (first_item files) (\<lambda>f. case f of
             PDict d \<Rightarrow> first_2000 (dget_or d ''content'' (PStr []))
           | _ \<Rightarrow> Inl (no_attribute f)))"

definition message_list :: "string list \<Rightarrow> pyval" where
  "message_list xs = PList (map PStr xs)"

definition fix_context :: "test_result_data \<Rightarrow> string \<Rightarrow> pyval \<Rightarrow> dict" where
  "fix_context t language code =
     [(''language'', PStr language), (''failed_tests'', PInt (int (td_failed_tests t))),
      (''failure_messages'', message_list (td_failure_messages t)), (''error_messages'', message_list (td_error_messages t)),
      (''current_code'', code)]"

definition fix_spec :: "test_result_data \<Rightarrow> dict" where
  "fix_spec t =
     [(''summary'', PStr ''Fix test failures''),
      (''requirements'', PList [PDict [(''id'', PStr ''FIX-001''), (''description'', PStr ''Fix the failing tests''),
         (''test_criteria'', PStr ''All tests pass''), (''priority'', PStr ''must'')]]),
      (''technical_notes'', PList [PStr (''Failed tests: '' @ nat_str (td_failed_tests t)),
         PStr (''Errors: '' @ py_repr (\<lambda>_. []) (message_list (td_error_messages t)))]),
      (''file_changes'', PList [])]"

type_synonym 's code_llm = "dict \<Rightarrow> dict \<Rightarrow> string \<Rightarrow> ('s, dict) st"

definition generate_fix :: "'s code_llm \<Rightarrow> dict \<Rightarrow> test_result_data \<Rightarrow> string \<Rightarrow> ('s, dict) st" where
  "generate_fix llm code_result t language =
     bindS (liftE (extract_code_context code_result)) (\<lambda>code.
       catchS (llm (fix_spec t) (fix_context t language code) language) (\<lambda>_. returnS code_result))"

definition run_iteration :: "'s code_llm \<Rightarrow> dict \<Rightarrow> test_result_data \<Rightarrow> nat \<Rightarrow> string \<Rightarrow> ('s, fix_iteration) st" where
  "run_iteration llm code_result t i language =
     catchS (bindS (generate_fix llm code_result t language) (\<lambda>fix.
         returnS \<lparr>fi_iteration = i, fi_test_result = t, fi_generated_fix = Some fix, fi_applied = False, fi_error = None\<rparr>))
       (\<lambda>e. returnS \<lparr>fi_iteration = i, fi_test_result = t, fi_generated_fix = None, fi_applied = False, fi_error = Some (exn_str e)\<rparr>)"

text \<open>The \<open>for\<close> loop over the iterations from \<open>i\<close> on, \<open>n\<close> of them. Texts and dictionaries that are
  empty count as absent, as in the code's conditions.\<close>

fun fix_iterations ::
  "'s code_llm \<Rightarrow> string \<Rightarrow> nat \<Rightarrow> nat \<Rightarrow> dict \<Rightarrow> test_result_data \<Rightarrow> fix_result \<Rightarrow> ('s, fix_result) st" where
  "fix_iterations llm language i 0 code t r = returnS r"
| "fix_iterations llm language i (Suc n) code t r =
     bindS (run_iteration llm code t i language) (\<lambda>it.
       let r = r\<lparr>fr_iterations := fr_iterations r @ [it]\<rparr> in
       if fi_error it \<noteq> None \<and> fi_error it \<noteq> Some [] then returnS (r\<lparr>fr_error := fi_error it\<rparr>)
       else if td_passed (fi_test_result it)
       then returnS (r\<lparr>fr_success := True, fr_final_test_result := Some (fi_test_result it)\<rparr>)
       else fix_iterations llm language (Suc i) n
              (case fi_generated_fix it of Some (f # fs) \<Rightarrow> f # fs | _ \<Rightarrow> code) (fi_test_result it) r)"

definition finish_fix_loop :: "int \<Rightarrow> fix_result \<Rightarrow> fix_result" where
  "finish_fix_loop max_iterations r =
     (if \<not> fr_success r \<and> (fr_error r = None \<or> fr_error r = Some [])
      then r\<lparr>fr_max_iterations_reached := True,
             fr_error := Some (''Max iterations ('' @ int_str max_iterations @ '') reached without success'')\<rparr>
      else r)"

definition execute_fix_loop :: "'s code_llm \<Rightarrow> int \<Rightarrow> dict \<Rightarrow> string \<Rightarrow> string \<Rightarrow> string \<Rightarrow> ('s, fix_result) st" where
  "execute_fix_loop llm max_iterations code_result test_output framework language =
     (let t = parse_test_output test_output framework;
          r = \<lparr>fr_success = False,
               fr_iterations = [\<lparr>fi_iteration = 0, fi_test_result = t, fi_generated_fix = None, fi_applied = False, fi_error = None\<rparr>],
               fr_final_test_result = None, fr_error = None, fr_max_iterations_reached = False\<rparr>
      in if td_passed t then returnS (r\<lparr>fr_success := True, fr_final_test_result := Some t\<rparr>)
         else bindS (fix_iterations llm language 1 (nat max_iterations) code_result t r)
                (\<lambda>r. returnS (finish_fix_loop max_iterations r)))"

text \<open>\<open>run_fix_loop\<close> builds the executor, whose state is the model and the bound, and runs it.\<close>

definition run_fix_loop :: "'s code_llm \<Rightarrow> dict \<Rightarrow> string \<Rightarrow> string \<Rightarrow> string \<Rightarrow> int \<Rightarrow> ('s, fix_result) st" where
  "run_fix_loop llm code_result test_output framework language max_iterations =
     execute_fix_loop llm max_iterations code_result test_output framework language"

subsection \<open>Outputs without a summary\<close>

lemma number_before_none:
  assumes "\<not> list_ex is_digit output"
  shows "number_before word output = None"
proof -
  have "rx_match (rx_number word) (before, rest, caps) = []" if "rest = [] \<or> \<not> is_digit (hd rest)" for before rest caps
    using that by (cases rest) (auto simp: rx_number_def rx_plus_def)
  then have "search_from (rx_number word) [] output = None" using assms by (intro search_needs [where p = is_digit]) auto
  then show ?thesis by (simp add: number_before_def rx_search_def)
qed

text \<open>An output of pytest (or of a framework the loop does not know) in which no number occurs
  counts as a run that has passed, so a run that crashes before it counts its tests ends the fix
  loop with success at once: no model is asked, and the state is as before.\<close>

theorem crashed_run_passes:
  assumes "\<not> list_ex is_digit output" "framework \<noteq> ''jest''" "framework \<noteq> ''go''"
  shows "td_total_tests (parse_test_output output framework) = 0 \<and>
    (\<exists>r. run_fix_loop llm code output framework language n s = (Inr r, s) \<and> fr_success r \<and>
      fr_final_test_result r = Some (parse_test_output output framework))"
proof -
  have p: "td_passed (parse_test_output output framework)" "td_total_tests (parse_test_output output framework) = 0"
    using assms by (simp_all add: parse_test_output_def parse_pytest_output_def Let_def number_before_none number_of_def new_test_result_def)
  then show ?thesis by (simp add: run_fix_loop_def execute_fix_loop_def Let_def returnS_def)
qed

theorem crashed_run_passes_witness:
  "td_total_tests (parse_test_output ''ImportError: no module named app'' ''pytest'') = 0 \<and>
   (\<exists>r. run_fix_loop (\<lambda>_ _ _. returnS []) [] ''ImportError: no module named app'' ''pytest'' ''python'' 5 () = (Inr r, ()) \<and>
      fr_success r \<and> fr_final_test_result r = Some (parse_test_output ''ImportError: no module named app'' ''pytest''))"
  by (rule crashed_run_passes) (simp_all add: is_digit_def)

subsection \<open>The loop never sees a new test result\<close>

lemma run_iteration_result:
  "\<exists>fx err s'. run_iteration llm code t i language s = (Inr \<lparr>fi_iteration = i, fi_test_result = t, fi_generated_fix = fx, fi_applied = False, fi_error = err\<rparr>, s')"
  by (auto simp: run_iteration_def catchS_def bindS_def returnS_def split: prod.splits sum.splits)

lemma fix_iterations_fail:
  assumes "\<not> td_passed t" "\<not> fr_success r" "\<forall>it \<in> set (fr_iterations r). fi_test_result it = t"
  shows "\<exists>r' s'. fix_iterations llm language i n code t r s = (Inr r', s') \<and> \<not> fr_success r' \<and>
    (\<forall>it \<in> set (fr_iterations r'). fi_test_result it = t) \<and>
    length (fr_iterations r') \<le> length (fr_iterations r) + n \<and>
    fr_max_iterations_reached r' = fr_max_iterations_reached r \<and>
    (fr_error r' = None \<or> fr_error r' = Some [] \<longrightarrow> length (fr_iterations r') = length (fr_iterations r) + n)"
  using assms
proof (induction n arbitrary: i code r s)
  case (Suc n)
  obtain fx err s' where it: "run_iteration llm code t i language s =
      (Inr \<lparr>fi_iteration = i, fi_test_result = t, fi_generated_fix = fx, fi_applied = False, fi_error = err\<rparr>, s')"
    using run_iteration_result [of llm code t i language s] by (elim exE) (rule that)
  let ?it = "\<lparr>fi_iteration = i, fi_test_result = t, fi_generated_fix = fx, fi_applied = False, fi_error = err\<rparr>"
  let ?r = "r\<lparr>fr_iterations := fr_iterations r @ [?it]\<rparr>"
  show ?case
  proof (cases "err = None \<or> err = Some []")
    case False
    then show ?thesis using it Suc.prems by (auto simp: bindS_def returnS_def Let_def)
  next
    case True
    let ?code = "case fx of Some (f # fs) \<Rightarrow> f # fs | _ \<Rightarrow> code"
    have "\<not> fr_success ?r" "\<forall>it \<in> set (fr_iterations ?r). fi_test_result it = t" using Suc.prems by auto
    from Suc.IH [OF Suc.prems(1) this, of "Suc i" ?code s'] obtain r' s2 where
      "fix_iterations llm language (Suc i) n ?code t ?r s' = (Inr r', s2)" "\<not> fr_success r'"
      "\<forall>it \<in> set (fr_iterations r'). fi_test_result it = t" "length (fr_iterations r') \<le> length (fr_iterations r) + Suc n"
      "fr_max_iterations_reached r' = fr_max_iterations_reached r"
      "fr_error r' = None \<or> fr_error r' = Some [] \<longrightarrow> length (fr_iterations r') = length (fr_iterations r) + Suc n"
      by auto
    then show ?thesis using it True Suc.prems(1) by (auto simp: bindS_def Let_def)
  qed
qed (simp add: returnS_def)

text \<open>C35: The loop always ends, and succeeds exactly when the output it is given has passed already:
  no test is run after a fix. Otherwise every iteration repeats the first result, whatever
  the model returns, and the loop ends with an error, after as many iterations as allowed
  when none of them fails.\<close>

theorem fix_loop_never_recovers:
  "\<exists>r s'. execute_fix_loop llm max_iterations code output framework language s = (Inr r, s') \<and>
     (fr_success r \<longleftrightarrow> td_passed (parse_test_output output framework)) \<and>
     list_all (\<lambda>it. fi_test_result it = parse_test_output output framework) (fr_iterations r) \<and>
     (if fr_success r then length (fr_iterations r) = 1 \<and> s' = s
      else fr_error r \<noteq> None \<and>
        (if fr_max_iterations_reached r then length (fr_iterations r) = 1 + nat max_iterations
         else length (fr_iterations r) \<le> 1 + nat max_iterations))"
proof (cases "td_passed (parse_test_output output framework)")
  case True
  then show ?thesis by (simp add: execute_fix_loop_def Let_def returnS_def)
next
  case False
  let ?t = "parse_test_output output framework"
  let ?r = "\<lparr>fr_success = False,
    fr_iterations = [\<lparr>fi_iteration = 0, fi_test_result = ?t, fi_generated_fix = None, fi_applied = False, fi_error = None\<rparr>],
    fr_final_test_result = None, fr_error = None, fr_max_iterations_reached = False\<rparr>"
  obtain r s' where loop: "fix_iterations llm language 1 (nat max_iterations) code ?t ?r s = (Inr r, s')"
    and r: "\<not> fr_success r" "\<forall>it \<in> set (fr_iterations r). fi_test_result it = ?t"
      "length (fr_iterations r) \<le> 1 + nat max_iterations" "\<not> fr_max_iterations_reached r"
      "fr_error r = None \<or> fr_error r = Some [] \<longrightarrow> length (fr_iterations r) = 1 + nat max_iterations"
    using fix_iterations_fail [of ?t ?r llm language 1 "nat max_iterations" code s] False by auto
  have "execute_fix_loop llm max_iterations code output framework language s = (Inr (finish_fix_loop max_iterations r), s')"
    using loop False by (simp add: execute_fix_loop_def Let_def bindS_def returnS_def)
  with r False show ?thesis by (auto simp: finish_fix_loop_def list_all_iff)
qed

end
