(* ===== verification/Cycles.thy ===== *)
theory Cycles
  imports Prelude
begin

text \<open>
  The two cycle searches of the program: the depth-first search of
  \<open>orchestrator/pipeline_validator.py\<close> and Kahn's algorithm of
  \<open>registry/pipelines.py\<close>. A graph is the insertion-ordered dictionary of the code, from a
  node to the list of its neighbours; a set of neighbours is a list in some order. Each
  search is shown to answer exactly when the graph has no cycle.
\<close>

subsection \<open>Graphs\<close>

type_synonym 'a graph = "('a \<times> 'a list) list"

definition neighbours :: "'a graph \<Rightarrow> 'a \<Rightarrow> 'a list" where
  "neighbours g n = (case map_of g n of Some ms \<Rightarrow> ms | None \<Rightarrow> [])"

definition edges :: "'a graph \<Rightarrow> ('a \<times> 'a) set" where
  "edges g = {(n, m). m \<in> set (neighbours g n)}"

definition graph_nodes :: "'a graph \<Rightarrow> 'a set" where
  "graph_nodes g = fst ` set g \<union> \<Union> (set ` snd ` set g)"

lemma finite_graph_nodes [simp]: "finite (graph_nodes g)"
  by (simp add: graph_nodes_def)

lemma neighbours_pair: "m \<in> set (neighbours g n) \<Longrightarrow> \<exists>ms. (n, ms) \<in> set g \<and> m \<in> set ms"
  by (cases "map_of g n") (auto simp: neighbours_def dest: map_of_SomeD)

lemma neighbours_in_nodes: "m \<in> set (neighbours g n) \<Longrightarrow> m \<in> graph_nodes g"
  by (frule neighbours_pair) (force simp: graph_nodes_def)

lemma neighbours_source: "m \<in> set (neighbours g n) \<Longrightarrow> n \<in> fst ` set g"
  by (frule neighbours_pair) force

lemma finite_edges [simp]: "finite (edges g)"
proof (rule finite_subset)
  show "edges g \<subseteq> fst ` set g \<times> graph_nodes g"
    by (auto simp: edges_def neighbours_in_nodes dest: neighbours_source)
qed simp

text \<open>A walk along the edges that ends where it starts.\<close>

definition cycle_of :: "'a graph \<Rightarrow> 'a list \<Rightarrow> bool" where
  "cycle_of g c \<longleftrightarrow> length c \<ge> 2 \<and> hd c = last c \<and> successively (\<lambda>n m. (n, m) \<in> edges g) c"

lemma walk_trancl:
  "successively (\<lambda>n m. (n, m) \<in> r) (n # c) \<Longrightarrow> c \<noteq> [] \<Longrightarrow> (n, last c) \<in> r\<^sup>+"
proof (induction c arbitrary: n)
  case (Cons m c)
  then show ?case by (cases c) (auto intro: trancl_into_trancl2)
qed simp

lemma cycle_of_not_acyclic: "cycle_of g c \<Longrightarrow> \<not> acyclic (edges g)"
proof
  assume "cycle_of g c" "acyclic (edges g)"
  then obtain n m ms where "c = n # m # ms" "n = last (m # ms)" "successively (\<lambda>n m. (n, m) \<in> edges g) c"
    by (auto simp: cycle_of_def Suc_le_length_iff numeral_2_eq_2)
  with walk_trancl [of "edges g" n "m # ms"] \<open>acyclic (edges g)\<close> show False
    by (auto simp: acyclic_def)
qed

text \<open>
  A ranking of a relation: the successors of each element come later in the list. A
  relation whose domain is ranked has no cycle.
\<close>

primrec ranked :: "('a \<times> 'a) set \<Rightarrow> 'a list \<Rightarrow> bool" where
  "ranked r [] \<longleftrightarrow> True"
| "ranked r (n # ns) \<longleftrightarrow> n \<notin> set ns \<and> (\<forall>m. (n, m) \<in> r \<longrightarrow> m \<in> set ns) \<and> ranked r ns"

lemma ranked_closed: "ranked r ns \<Longrightarrow> n \<in> set ns \<Longrightarrow> (n, m) \<in> r \<Longrightarrow> m \<in> set ns"
  by (induction ns) auto

lemma ranked_edge:
  "ranked r ns \<Longrightarrow> n \<in> set ns \<Longrightarrow> (n, m) \<in> r \<Longrightarrow>
     length (dropWhile (\<lambda>k. k \<noteq> m) ns) < length (dropWhile (\<lambda>k. k \<noteq> n) ns)"
  by (induction ns) (auto simp: less_Suc_eq_le length_dropWhile_le dest: ranked_closed)

lemma ranked_acyclic:
  assumes "ranked r ns" "Domain r \<subseteq> set ns"
  shows "acyclic r"
  by (rule acyclicI_order [of _ "\<lambda>n. length (dropWhile (\<lambda>k. k \<noteq> n) ns)"])
    (use assms in \<open>blast intro: ranked_edge\<close>)

subsection \<open>Depth-first search\<close>

text \<open>
  The recursion of \<open>dfs\<close>, with its call stack written out: a frame is a node and the
  neighbours its \<open>for\<close> loop has still to visit, the innermost call first. \<open>path\<close> and
  \<open>rec_stack\<close> of the code are the nodes of the frames, outermost first.
\<close>

type_synonym 'a frame = "'a \<times> 'a list"

definition frame_path :: "'a frame list \<Rightarrow> 'a list" where
  "frame_path fs = rev (map fst fs)"

text \<open>\<open>path[path.index(neighbor):] + [neighbor]\<close>.\<close>

definition found_cycle :: "'a frame list \<Rightarrow> 'a \<Rightarrow> 'a list" where
  "found_cycle fs m = dropWhile (\<lambda>n. n \<noteq> m) (frame_path fs) @ [m]"

definition todo_nodes :: "'a frame list \<Rightarrow> 'a set" where
  "todo_nodes fs = \<Union> (set ` snd ` set fs)"

definition todo_size :: "'a frame list \<Rightarrow> nat" where
  "todo_size fs = length fs + sum_list (map (length \<circ> snd) fs)"

function dfs_run :: "'a graph \<Rightarrow> 'a frame list \<Rightarrow> 'a list \<Rightarrow> 'a list list \<Rightarrow> 'a list \<times> 'a list list" where
  "dfs_run g [] visited cycles = (visited, cycles)"
| "dfs_run g ((n, []) # fs) visited cycles = dfs_run g fs visited cycles"
| "dfs_run g ((n, m # ms) # fs) visited cycles =
     (if m \<notin> set visited then dfs_run g ((m, neighbours g m) # (n, ms) # fs) (m # visited) cycles
      else if m \<in> fst ` set ((n, ms) # fs) then
        dfs_run g ((n, ms) # fs) visited (cycles @ [found_cycle ((n, ms) # fs) m])
      else dfs_run g ((n, ms) # fs) visited cycles)"
  by pat_completeness auto
termination
proof (relation "measures [\<lambda>(g, fs, visited, cycles). card ((graph_nodes g \<union> todo_nodes fs) - set visited),
    \<lambda>(g, fs, visited, cycles). todo_size fs]", goal_cases)
  case (2 g n fs visited cycles)
  show ?case by (auto simp: todo_nodes_def todo_size_def)
next
  case (3 g n m ms fs visited cycles)
  have "(graph_nodes g \<union> todo_nodes ((m, neighbours g m) # (n, ms) # fs)) - set (m # visited)
      \<subset> (graph_nodes g \<union> todo_nodes ((n, m # ms) # fs)) - set visited"
    using 3 by (auto simp: todo_nodes_def dest: neighbours_in_nodes)
  then have "card ((graph_nodes g \<union> todo_nodes ((m, neighbours g m) # (n, ms) # fs)) - set (m # visited))
      < card ((graph_nodes g \<union> todo_nodes ((n, m # ms) # fs)) - set visited)"
    by (intro psubset_card_mono) (auto simp: todo_nodes_def)
  then show ?case by simp
next
  case (4 g n m ms fs visited cycles)
  then have "(graph_nodes g \<union> todo_nodes ((n, m # ms) # fs)) - set visited
      = (graph_nodes g \<union> todo_nodes ((n, ms) # fs)) - set visited" by (auto simp: todo_nodes_def)
  then show ?case by (simp add: todo_size_def)
next
  case (5 g n m ms fs visited cycles)
  then have "(graph_nodes g \<union> todo_nodes ((n, m # ms) # fs)) - set visited
      = (graph_nodes g \<union> todo_nodes ((n, ms) # fs)) - set visited" by (auto simp: todo_nodes_def)
  then show ?case by (simp add: todo_size_def)
qed auto

declare dfs_run.simps [simp del]

definition dfs :: "'a graph \<Rightarrow> 'a \<Rightarrow> 'a list \<times> 'a list list \<Rightarrow> 'a list \<times> 'a list list" where
  "dfs g n st = dfs_run g [(n, neighbours g n)] (n # fst st) (snd st)"

subsubsection \<open>Every reported list is a cycle\<close>

definition frames_chained :: "'a graph \<Rightarrow> 'a frame list \<Rightarrow> bool" where
  "frames_chained g fs \<longleftrightarrow> successively (\<lambda>n p. (p, n) \<in> edges g) (map fst fs)
     \<and> (\<forall>(n, ms) \<in> set fs. set ms \<subseteq> set (neighbours g n))"

lemma successively_dropWhile: "successively R xs \<Longrightarrow> successively R (dropWhile P xs)"
  by (induction xs) (auto simp: successively_Cons)

lemma last_dropWhile: "dropWhile P xs \<noteq> [] \<Longrightarrow> last (dropWhile P xs) = last xs"
  by (induction xs) (auto split: if_splits)

lemma found_cycle_is_cycle:
  assumes "frames_chained g ((n, ms) # fs)" "m \<in> fst ` set ((n, ms) # fs)" "(n, m) \<in> edges g"
  shows "cycle_of g (found_cycle ((n, ms) # fs) m)"
proof -
  let ?p = "frame_path ((n, ms) # fs)" and ?R = "\<lambda>n m. (n, m) \<in> edges g"
  have "m \<in> set ?p" using assms(2) by (auto simp: frame_path_def)
  then have d: "dropWhile (\<lambda>n. n \<noteq> m) ?p \<noteq> []" "hd (dropWhile (\<lambda>n. n \<noteq> m) ?p) = m"
    using hd_dropWhile [of "\<lambda>n. n \<noteq> m" ?p] by (auto simp: dropWhile_eq_Nil_conv)
  have l: "last (dropWhile (\<lambda>n. n \<noteq> m) ?p) = n"
    using last_dropWhile [OF d(1)] by (simp add: frame_path_def)
  have "successively ?R ?p"
    using assms(1) by (simp only: frames_chained_def frame_path_def successively_rev)
  then have w: "successively ?R (dropWhile (\<lambda>n. n \<noteq> m) ?p)" by (rule successively_dropWhile)
  show ?thesis
    unfolding cycle_of_def found_cycle_def successively_append_iff
    using d l w assms(3) by (cases "dropWhile (\<lambda>n. n \<noteq> m) ?p") auto
qed

lemma dfs_run_sound:
  assumes "frames_chained g fs" "\<forall>c \<in> set cycles. cycle_of g c"
  shows "\<forall>c \<in> set (snd (dfs_run g fs visited cycles)). cycle_of g c"
  using assms
proof (induction g fs visited cycles rule: dfs_run.induct)
  case (2 g n fs visited cycles)
  then show ?case by (auto simp: dfs_run.simps frames_chained_def successively_Cons)
next
  case (3 g n m ms fs visited cycles)
  have e: "(n, m) \<in> edges g" "set ms \<subseteq> set (neighbours g n)"
    using "3.prems"(1) by (auto simp: frames_chained_def edges_def)
  have c: "frames_chained g ((n, ms) # fs)" using "3.prems"(1) by (auto simp: frames_chained_def)
  have p: "frames_chained g ((m, neighbours g m) # (n, ms) # fs)"
    using c e(1) by (auto simp: frames_chained_def)
  show ?case
  proof (cases "m \<in> set visited")
    case False
    then show ?thesis using "3.IH"(1) [OF False p "3.prems"(2)] by (simp add: dfs_run.simps)
  next
    case v: True
    show ?thesis
    proof (cases "m \<in> fst ` set ((n, ms) # fs)")
      case True
      then have "cycle_of g (found_cycle ((n, ms) # fs) m)" using found_cycle_is_cycle [OF c] e by blast
      with "3.prems"(2) have "\<forall>c \<in> set (cycles @ [found_cycle ((n, ms) # fs) m]). cycle_of g c" by auto
      from "3.IH"(2) [OF _ True c this] v True show ?thesis by (simp add: dfs_run.simps)
    next
      case False
      then show ?thesis using "3.IH"(3) [OF _ False c "3.prems"(2)] v by (simp add: dfs_run.simps)
    qed
  qed
qed (simp add: dfs_run.simps)

lemma dfs_sound:
  "\<forall>c \<in> set (snd st). cycle_of g c \<Longrightarrow> \<forall>c \<in> set (snd (dfs g n st)). cycle_of g c"
  unfolding dfs_def by (rule dfs_run_sound) (auto simp: frames_chained_def)

subsubsection \<open>No report only when there is no cycle\<close>

primrec frames_done :: "'a graph \<Rightarrow> 'a set \<Rightarrow> 'a set \<Rightarrow> 'a frame list \<Rightarrow> bool" where
  "frames_done g F child [] \<longleftrightarrow> True"
| "frames_done g F child (f # fs) \<longleftrightarrow>
     set (neighbours g (fst f)) \<subseteq> set (snd f) \<union> F \<union> child \<and> frames_done g F {fst f} fs"

lemma frames_done_mono: "frames_done g F c fs \<Longrightarrow> F \<subseteq> F' \<Longrightarrow> c \<subseteq> F' \<union> c' \<Longrightarrow> frames_done g F' c' fs"
proof (induction fs arbitrary: c c')
  case (Cons f fs)
  have "frames_done g F' {fst f} fs" using Cons.prems by (intro Cons.IH [of "{fst f}"]) auto
  then show ?case using Cons.prems by auto
qed simp

definition dfs_inv :: "'a graph \<Rightarrow> 'a frame list \<Rightarrow> 'a list \<Rightarrow> bool" where
  "dfs_inv g fs visited \<longleftrightarrow> distinct (map fst fs) \<and> fst ` set fs \<subseteq> set visited
     \<and> (\<exists>ns. ranked (edges g) ns \<and> set ns = set visited - fst ` set fs)
     \<and> frames_done g (set visited - fst ` set fs) {} fs"

lemma dfs_run_cycles_kept: "cycles \<noteq> [] \<Longrightarrow> snd (dfs_run g fs visited cycles) \<noteq> []"
  by (induction g fs visited cycles rule: dfs_run.induct) (auto simp: dfs_run.simps)

lemma dfs_inv_pop:
  assumes "dfs_inv g ((n, []) # fs) visited"
  shows "dfs_inv g fs visited"
proof -
  from assms obtain ns where ns: "ranked (edges g) ns" "set ns = set visited - insert n (fst ` set fs)"
    and d: "n \<notin> fst ` set fs" "distinct (map fst fs)" "insert n (fst ` set fs) \<subseteq> set visited"
    and f: "set (neighbours g n) \<subseteq> set visited - insert n (fst ` set fs)"
      "frames_done g (set visited - insert n (fst ` set fs)) {n} fs"
    by (auto simp: dfs_inv_def)
  have "ranked (edges g) (n # ns) \<and> set (n # ns) = set visited - fst ` set fs" using ns d f by (auto simp: edges_def)
  moreover have "frames_done g (set visited - fst ` set fs) {} fs"
    by (rule frames_done_mono [OF f(2)]) (use d in auto)
  ultimately show ?thesis using d unfolding dfs_inv_def by blast
qed

lemma dfs_inv_push:
  assumes "dfs_inv g ((n, m # ms) # fs) visited" "m \<notin> set visited"
  shows "dfs_inv g ((m, neighbours g m) # (n, ms) # fs) (m # visited)"
proof -
  have "set (m # visited) - fst ` set ((m, neighbours g m) # (n, ms) # fs)
      = set visited - fst ` set ((n, m # ms) # fs)" using assms(2) by auto
  with assms show ?thesis by (auto simp: dfs_inv_def)
qed

lemma dfs_inv_skip:
  "dfs_inv g ((n, m # ms) # fs) visited \<Longrightarrow> m \<in> set visited \<Longrightarrow> m \<notin> fst ` set ((n, ms) # fs) \<Longrightarrow>
     dfs_inv g ((n, ms) # fs) visited"
  by (auto simp: dfs_inv_def)

lemma dfs_run_complete:
  "dfs_inv g fs visited \<Longrightarrow> dfs_run g fs visited cycles = (visited', []) \<Longrightarrow>
     dfs_inv g [] visited' \<and> set visited \<subseteq> set visited'"
proof (induction g fs visited cycles rule: dfs_run.induct)
  case (3 g n m ms fs visited cycles)
  show ?case
  proof (cases "m \<in> set visited")
    case False
    then show ?thesis using "3.IH"(1) [OF False dfs_inv_push [OF "3.prems"(1) False]] "3.prems"(2)
      by (simp add: dfs_run.simps)
  next
    case True
    moreover have "m \<notin> fst ` set ((n, ms) # fs)"
      using "3.prems"(2) True
        dfs_run_cycles_kept [of "cycles @ [found_cycle ((n, ms) # fs) m]" g "(n, ms) # fs" visited]
      by (auto simp: dfs_run.simps split: if_splits)
    ultimately show ?thesis using "3.IH"(3) dfs_inv_skip [OF "3.prems"(1)] "3.prems"(2)
      by (simp add: dfs_run.simps)
  qed
qed (auto simp: dfs_run.simps dest: dfs_inv_pop)

lemma dfs_complete:
  assumes "dfs_inv g [] (fst st)" "n \<notin> set (fst st)" "snd (dfs g n st) = []"
  shows "snd st = [] \<and> dfs_inv g [] (fst (dfs g n st)) \<and> insert n (set (fst st)) \<subseteq> set (fst (dfs g n st))"
proof -
  have "dfs_inv g [(n, neighbours g n)] (n # fst st)" using assms(1, 2) by (auto simp: dfs_inv_def)
  with dfs_run_complete [OF this, of "snd st" "fst (dfs g n st)"] assms(3)
    dfs_run_cycles_kept [of "snd st" g "[(n, neighbours g n)]" "n # fst st"]
  show ?thesis unfolding dfs_def by (metis insert_subset list.simps(15) prod.collapse)
qed

subsubsection \<open>The search over all nodes\<close>

definition visit :: "'a graph \<Rightarrow> 'a \<Rightarrow> 'a list \<times> 'a list list \<Rightarrow> 'a list \<times> 'a list list" where
  "visit g n st = (if n \<in> set (fst st) then st else dfs g n st)"

lemma visits_sound:
  "\<forall>c \<in> set (snd st). cycle_of g c \<Longrightarrow> \<forall>c \<in> set (snd (fold (visit g) ns st)). cycle_of g c"
proof (induction ns arbitrary: st)
  case (Cons n ns)
  have "\<forall>c \<in> set (snd (visit g n st)). cycle_of g c"
    using Cons.prems dfs_sound [OF Cons.prems] by (simp only: visit_def split: if_split) blast
  from Cons.IH [OF this] show ?case by (simp only: fold_simps)
qed (simp only: fold_simps)

lemma visits_cycles_kept: "snd st \<noteq> [] \<Longrightarrow> snd (fold (visit g) ns st) \<noteq> []"
proof (induction ns arbitrary: st)
  case (Cons n ns)
  have "snd (visit g n st) \<noteq> []" using Cons.prems by (simp add: visit_def dfs_def dfs_run_cycles_kept)
  then show ?case using Cons.IH by simp
qed simp

lemma visits_complete:
  "dfs_inv g [] (fst st) \<Longrightarrow> snd (fold (visit g) ns st) = [] \<Longrightarrow>
     dfs_inv g [] (fst (fold (visit g) ns st))
     \<and> set ns \<union> set (fst st) \<subseteq> set (fst (fold (visit g) ns st))"
proof (induction ns arbitrary: st)
  case (Cons n ns)
  have "snd (visit g n st) = []"
    using Cons.prems(2) visits_cycles_kept [of "visit g n st" g ns] by (auto simp only: fold_simps)
  then have v: "dfs_inv g [] (fst (visit g n st))" "insert n (set (fst st)) \<subseteq> set (fst (visit g n st))"
    using Cons.prems(1) dfs_complete [of g st n] by (auto simp: visit_def)
  have "snd (fold (visit g) ns (visit g n st)) = []" using Cons.prems(2) by simp
  from Cons.IH [OF v(1) this] v(2) show ?case by (auto simp only: fold_simps list.set)
qed simp

definition detect_cycles :: "'a graph \<Rightarrow> 'a list list" where
  "detect_cycles g = snd (fold (visit g) (map fst g) ([], []))"

theorem detect_cycles_correct:
  "(detect_cycles g = [] \<longleftrightarrow> acyclic (edges g)) \<and> (\<forall>c \<in> set (detect_cycles g). cycle_of g c)"
proof -
  have s: "\<forall>c \<in> set (detect_cycles g). cycle_of g c"
    unfolding detect_cycles_def by (rule visits_sound) simp
  moreover have "acyclic (edges g)" if "detect_cycles g = []"
  proof -
    have "dfs_inv g [] (fst ([], []))" by (simp add: dfs_inv_def)
    from visits_complete [OF this, of "map fst g"] that
    obtain ns where "ranked (edges g) ns" "fst ` set g \<subseteq> set ns"
      by (auto simp: detect_cycles_def dfs_inv_def)
    moreover have "Domain (edges g) \<subseteq> fst ` set g" by (auto simp: edges_def dest: neighbours_source)
    ultimately show ?thesis by (meson ranked_acyclic order_trans)
  qed
  ultimately show ?thesis using cycle_of_not_acyclic by (cases "detect_cycles g") auto
qed

subsection \<open>Kahn's algorithm\<close>

text \<open>
  The loop of \<open>_validate_dag\<close>: the in-degrees of the neighbours of the node taken from
  the queue are decremented, and those that reach zero join the queue. Looking up a name
  that is no node is a \<open>KeyError\<close>.
\<close>

fun relax :: "string list \<Rightarrow> (string \<times> int) list \<Rightarrow> string list \<Rightarrow> exn + (string \<times> int) list \<times> string list" where
  "relax [] ind queue = Inr (ind, queue)"
| "relax (m # ms) ind queue =
     (case map_of ind m of
        None \<Rightarrow> Inl (KeyError m)
      | Some d \<Rightarrow> relax ms (AList.update m (d - 1) ind) (if d - 1 = 0 then queue @ [m] else queue))"

definition potential :: "(string \<times> int) list \<Rightarrow> string list \<Rightarrow> nat" where
  "potential ind queue = 2 * sum_list (map (\<lambda>p. nat (snd p)) ind) + length queue"

lemma sum_list_decrement:
  "map_of ind m = Some d \<Longrightarrow>
     sum_list (map (\<lambda>p. nat (snd p)) (AList.update m (d - 1) ind)) + (if 0 < d then 1 else 0)
       = sum_list (map (\<lambda>p. nat (snd p)) ind)"
  by (induction ind) (auto split: if_splits)

lemma relax_potential: "relax ms ind queue = Inr (ind', queue') \<Longrightarrow> potential ind' queue' \<le> potential ind queue"
proof (induction ms ind queue rule: relax.induct)
  case (2 m ms ind queue)
  then obtain d where d: "map_of ind m = Some d" by (auto split: option.splits)
  have "potential ind' queue' \<le> potential (AList.update m (d - 1) ind) (if d - 1 = 0 then queue @ [m] else queue)"
    using 2 d by simp
  also have "\<dots> \<le> potential ind queue"
    using sum_list_decrement [OF d] by (auto simp: potential_def split: if_splits)
  finally show ?case .
qed simp

function kahn_run :: "string graph \<Rightarrow> (string \<times> int) list \<Rightarrow> string list \<Rightarrow> nat \<Rightarrow> exn + nat" where
  "kahn_run g ind [] visited = Inr visited"
| "kahn_run g ind (n # queue) visited =
     (case map_of g n of
        None \<Rightarrow> Inl (KeyError n)
      | Some ms \<Rightarrow>
          (case relax ms ind queue of
             Inl e \<Rightarrow> Inl e
           | Inr (ind', queue') \<Rightarrow> kahn_run g ind' queue' (Suc visited)))"
  by pat_completeness auto
termination
  by (relation "measure (\<lambda>(g, ind, queue, visited). potential ind queue)")
    (auto dest: relax_potential simp: potential_def)

declare kahn_run.simps [simp del]

text \<open>How often the nodes outside \<open>D\<close> name \<open>n\<close> as a neighbour.\<close>

definition in_count :: "string graph \<Rightarrow> string set \<Rightarrow> string \<Rightarrow> nat" where
  "in_count g D n = sum_list (map (\<lambda>(p, ms). if p \<in> D then 0 else count_list ms n) g)"

lemma in_count_zero_iff:
  "distinct (map fst g) \<Longrightarrow>
     in_count g D n = 0 \<longleftrightarrow> (\<forall>p. (p, n) \<in> edges g \<longrightarrow> p \<in> D)"
proof -
  assume dist: "distinct (map fst g)"
  have "(p, n) \<in> edges g \<longleftrightarrow> (\<exists>ms. (p, ms) \<in> set g \<and> n \<in> set ms)" for p
    unfolding map_of_eq_Some_iff [OF dist, symmetric]
    by (cases "map_of g p") (simp_all add: edges_def neighbours_def)
  moreover have "in_count g D n = 0 \<longleftrightarrow> (\<forall>(p, ms) \<in> set g. p \<notin> D \<longrightarrow> n \<notin> set ms)"
    unfolding in_count_def by (induction g) (auto simp: count_list_0_iff)
  ultimately show ?thesis by blast
qed

lemma in_count_insert:
  "distinct (map fst g) \<Longrightarrow> map_of g p = Some ms \<Longrightarrow> p \<notin> D \<Longrightarrow>
     in_count g D n = in_count g (insert p D) n + count_list ms n"
proof (induction g)
  case (Cons q g)
  have "in_count g (insert p D) n = in_count g D n" if "p \<notin> fst ` set g"
    unfolding in_count_def using that
    by (intro arg_cong [where f = sum_list] map_cong) force+
  with Cons show ?case by (cases q) (auto simp: in_count_def split: if_splits)
qed simp

lemma relax_effect:
  assumes "\<And>n. n \<in> set ms \<Longrightarrow> \<exists>d. map_of ind n = Some d \<and> int (count_list ms n) \<le> d"
  shows "\<exists>ind' new. relax ms ind queue = Inr (ind', queue @ new) \<and> distinct new
     \<and> set new = {n \<in> set ms. map_of ind n = Some (int (count_list ms n))}
     \<and> map fst ind' = map fst ind
     \<and> (\<forall>n. map_of ind' n = map_option (\<lambda>d. d - int (count_list ms n)) (map_of ind n))"
  using assms
proof (induction ms arbitrary: ind queue)
  case Nil
  then show ?case by (simp add: option.map_ident)
next
  case (Cons m ms)
  obtain d where d: "map_of ind m = Some d" "int (count_list (m # ms) m) \<le> d"
    using Cons.prems [of m] by auto
  let ?ind = "AList.update m (d - 1) ind" and ?q = "if d - 1 = 0 then queue @ [m] else queue"
  have p: "\<exists>d'. map_of ?ind n = Some d' \<and> int (count_list ms n) \<le> d'" if "n \<in> set ms" for n
    using Cons.prems [of n] that d by (auto split: if_splits)
  obtain ind' new where r: "relax ms ?ind ?q = Inr (ind', ?q @ new)" "distinct new"
    "set new = {n \<in> set ms. map_of ?ind n = Some (int (count_list ms n))}"
    "map fst ind' = map fst ?ind"
    "\<forall>n. map_of ind' n = map_option (\<lambda>d. d - int (count_list ms n)) (map_of ?ind n)"
    using Cons.IH [of ?ind ?q, OF p] by blast
  have k: "map fst ?ind = map fst ind" 
    using map_of_SomeD [OF d(1)] by (intro update_same_keys) force
  have v: "\<forall>n. map_of ind' n = map_option (\<lambda>d. d - int (count_list (m # ms) n)) (map_of ind n)"
    using r(5) d(1) by auto
  show ?case
  proof (cases "d = 1")
    case True
    then have "m \<notin> set ms" using d(2) by (auto simp: count_list_0_iff)
    then have c: "count_list ms m = 0" by (simp add: count_list_0_iff)
    have "set new = {n \<in> set ms. map_of ind n = Some (int (count_list ms n))}"
      unfolding r(3) using \<open>m \<notin> set ms\<close> by (intro Collect_cong conj_cong) auto
    then have "set (m # new) = {n \<in> set (m # ms). map_of ind n = Some (int (count_list (m # ms) n))}"
      using d(1) True c by auto
    moreover have "distinct (m # new)" using r(2, 3) \<open>m \<notin> set ms\<close> by simp
    ultimately show ?thesis using r v k d(1) True by (intro exI [of _ ind'] exI [of _ "m # new"]) simp
  next
    case False
    have e: "map_of ?ind n = Some (int (count_list ms n)) \<longleftrightarrow> map_of ind n = Some (int (count_list (m # ms) n))" for n
      using d(1) by auto
    have "m \<in> set ms" if "map_of ind m = Some (int (count_list (m # ms) m))"
      using that d(1) False by (cases "m \<in> set ms") (simp_all add: count_list_0_iff)
    then have "set new = {n \<in> set (m # ms). map_of ind n = Some (int (count_list (m # ms) n))}"
      unfolding r(3) e by auto
    with r v k d(1) False show ?thesis by (intro exI [of _ ind'] exI [of _ new]) simp
  qed
qed

definition kahn_inv :: "string graph \<Rightarrow> (string \<times> int) list \<Rightarrow> string list \<Rightarrow> string list \<Rightarrow> bool" where
  "kahn_inv g ind queue D \<longleftrightarrow> map fst ind = map fst g \<and> distinct (D @ queue)
     \<and> set (D @ queue) \<subseteq> fst ` set g
     \<and> (\<forall>n \<in> fst ` set g. map_of ind n = Some (int (in_count g (set D) n)))
     \<and> (\<forall>n \<in> fst ` set g. n \<in> set (D @ queue) \<longleftrightarrow> in_count g (set D) n = 0)
     \<and> ranked ((edges g)\<inverse>) D"

definition closed_graph :: "string graph \<Rightarrow> bool" where
  "closed_graph g \<longleftrightarrow> distinct (map fst g) \<and> (\<forall>(p, ms) \<in> set g. set ms \<subseteq> fst ` set g)"

lemma kahn_step:
  assumes g: "closed_graph g" and inv: "kahn_inv g ind (n # queue) D"
  obtains ms ind' new where "map_of g n = Some ms" "relax ms ind queue = Inr (ind', queue @ new)"
    "kahn_inv g ind' (queue @ new) (n # D)"
proof -
  note inv = inv [unfolded kahn_inv_def]
  have old: "\<forall>m \<in> fst ` set g. m \<in> set (D @ n # queue) \<longleftrightarrow> in_count g (set D) m = 0"
    and ind0: "\<forall>m \<in> fst ` set g. map_of ind m = Some (int (in_count g (set D) m))"
    using inv by - (elim conjE, assumption)+
  have dist: "distinct (map fst g)" using g by (simp add: closed_graph_def)
  obtain ms where ms: "map_of g n = Some ms" using inv by (auto dest: weak_map_of_SomeI)
  then have msub: "set ms \<subseteq> fst ` set g" using g by (auto simp: closed_graph_def dest: map_of_SomeD)
  have n: "n \<notin> set D" "n \<notin> set queue" using inv by auto
  have cnt: "in_count g (set D) m = in_count g (set (n # D)) m + count_list ms m" for m
    using in_count_insert [OF dist ms n(1)] by simp
  have ind: "map_of ind m = Some (int (in_count g (set (n # D)) m + count_list ms m))"
    if "m \<in> fst ` set g" for m
  proof -
    have "map_of ind m = Some (int (in_count g (set D) m))" by (rule bspec [OF ind0 that])
    then show ?thesis by (simp only: cnt)
  qed
  have "\<exists>d. map_of ind m = Some d \<and> int (count_list ms m) \<le> d" if "m \<in> set ms" for m
    using ind [of m] that msub by (simp add: subset_iff)
  then obtain ind' new where r: "relax ms ind queue = Inr (ind', queue @ new)" "distinct new"
    "set new = {m \<in> set ms. map_of ind m = Some (int (count_list ms m))}"
    "map fst ind' = map fst ind"
    "\<forall>m. map_of ind' m = map_option (\<lambda>d. d - int (count_list ms m)) (map_of ind m)"
    using relax_effect [of ms ind queue] by blast
  have new: "m \<in> set new \<longleftrightarrow> m \<in> set ms \<and> in_count g (set (n # D)) m = 0" for m
    using r(3) ind msub by (auto simp: subset_iff)
  have notold: "m \<notin> set (D @ n # queue)" if "m \<in> set new" for m
  proof -
    have "m \<in> set ms" using that new by simp
    then have c: "count_list ms m \<noteq> 0" and f: "m \<in> fst ` set g"
      using msub by (simp add: count_list_0_iff, blast)
    have "in_count g (set D) m \<noteq> 0" using c cnt [of m] by linarith
    moreover note bspec [OF old f]
    ultimately show ?thesis by simp
  qed
  have zero: "m \<in> set (n # D @ queue @ new) \<longleftrightarrow> in_count g (set (n # D)) m = 0"
    if m: "m \<in> fst ` set g" for m
  proof (cases "m \<in> set ms")
    case True
    then have "in_count g (set D) m \<noteq> 0" using cnt [of m] by (simp add: count_list_0_iff)
    then have "m \<notin> set (D @ n # queue)" by (simp only: bspec [OF old m]) simp
    with True new show ?thesis by auto
  next
    case False
    then have "in_count g (set D) m = in_count g (set (n # D)) m" using cnt [of m] by (simp add: count_list_0_iff)
    moreover note bspec [OF old m]
    ultimately show ?thesis using False new by auto
  qed
  have "in_count g (set D) n = 0" using inv by auto
  then have "ranked ((edges g)\<inverse>) (n # D)"
    using in_count_zero_iff [OF dist, of "set D" n] n inv by auto
  moreover have "map_of ind' m = Some (int (in_count g (set (n # D)) m))" if "m \<in> fst ` set g" for m
    using r(5) ind [OF that] by simp
  moreover have "distinct (n # D @ queue @ new)" using inv r(2) notold by auto
  moreover have "set new \<subseteq> fst ` set g" using new msub by auto
  ultimately have "kahn_inv g ind' (queue @ new) (n # D)"
    using inv r(4) zero unfolding kahn_inv_def by auto
  with ms r(1) that show thesis by blast
qed

lemma kahn_run_returns:
  "closed_graph g \<Longrightarrow> kahn_inv g ind queue D \<Longrightarrow>
     \<exists>ind' D'. kahn_run g ind queue (length D) = Inr (length D') \<and> kahn_inv g ind' [] D'"
proof (induction g ind queue "length D" arbitrary: D rule: kahn_run.induct)
  case (1 g ind)
  then show ?case by (auto simp: kahn_run.simps)
next
  case (2 g ind n queue)
  obtain ms ind' new where s: "map_of g n = Some ms" "relax ms ind queue = Inr (ind', queue @ new)"
    "kahn_inv g ind' (queue @ new) (n # D)" using kahn_step [OF "2.prems"] .
  from "2.hyps" [OF s(1, 2) refl, of "n # D"] "2.prems"(1) s show ?case
    by (simp add: kahn_run.simps)
qed

lemma kahn_run_correct:
  assumes g: "closed_graph g" and k: "map fst ind = map fst g"
    and i: "\<And>n. n \<in> fst ` set g \<Longrightarrow> map_of ind n = Some (int (in_count g {} n))"
    and q: "distinct queue" "set queue = {n \<in> fst ` set g. map_of ind n = Some 0}"
  shows "\<exists>v. kahn_run g ind queue 0 = Inr v \<and> (v = length g \<longleftrightarrow> acyclic (edges g))"
proof -
  have dist: "distinct (map fst g)" using g by (simp add: closed_graph_def)
  have "kahn_inv g ind queue []" using k i q by (auto simp: kahn_inv_def)
  from kahn_run_returns [OF g this] obtain ind' D
    where r: "kahn_run g ind queue 0 = Inr (length D)" and inv: "kahn_inv g ind' [] D" by auto
  note inv = inv [unfolded kahn_inv_def]
  have len: "length D = card (set D)" "length g = card (fst ` set g)"
    using inv dist distinct_card [OF dist] by (simp_all add: distinct_card)
  have sub: "set D \<subseteq> fst ` set g" using inv by simp
  have "length D = length g \<longleftrightarrow> acyclic (edges g)"
  proof
    assume "length D = length g"
    then have "set D = fst ` set g" using card_subset_eq [OF _ sub] len by simp
    then have "Domain ((edges g)\<inverse>) \<subseteq> set D"
      using g by (fastforce simp: closed_graph_def edges_def dest: neighbours_pair)
    with inv have "acyclic ((edges g)\<inverse>)" by (intro ranked_acyclic) auto
    then show "acyclic (edges g)" by simp
  next
    assume "acyclic (edges g)"
    then have wf: "wf (edges g)" by (simp add: finite_acyclic_wf)
    have "fst ` set g - set D = {}"
    proof (rule ccontr)
      assume "fst ` set g - set D \<noteq> {}"
      then obtain n where n: "n \<in> fst ` set g - set D"
        and m: "\<And>p. (p, n) \<in> edges g \<Longrightarrow> p \<notin> fst ` set g - set D"
        using wfE_min [OF wf, of _ "fst ` set g - set D"] by (metis ex_in_conv)
      have "in_count g (set D) n \<noteq> 0" using inv n by auto
      then obtain p where "(p, n) \<in> edges g" "p \<notin> set D" 
        using in_count_zero_iff [OF dist, of "set D" n] by metis
      moreover from this have "p \<in> fst ` set g" by (auto simp: edges_def dest: neighbours_source)
      ultimately show False using m by blast
    qed
    with sub have "set D = fst ` set g" by auto
    with len show "length D = length g" by simp
  qed
  with r show ?thesis by blast
qed

end
