(* ===== verification/PipelineCheck.thy ===== *)
theory PipelineCheck
  imports Registry Cycles
begin

text \<open>
  The two validators of pipeline definitions: \<open>PipelineValidator\<close> of
  \<open>orchestrator/pipeline_validator.py\<close>, which collects messages, and
  \<open>PipelineRegistry.load_and_validate_pipeline\<close> of \<open>registry/pipelines.py\<close>, which raises at
  the first fault and caches what it accepts; and the start-up of the registries
  (\<open>registry/bootstrap.py\<close>), which runs the second on every pipeline.
\<close>

subsection \<open>Common parts\<close>

text \<open>The loop over the output mapping: the last step to write a key is its producer.\<close>

definition produced_keys :: "pyval \<Rightarrow> string list" where
  "produced_keys v = (if v = PNone then [] else filter (\<lambda>k. k \<noteq> []) (map root_key (extract_placeholders v)))"

definition add_producer :: "step_definition \<Rightarrow> (string \<times> string) list \<Rightarrow> (string \<times> string) list" where
  "add_producer s prods =
     fold (\<lambda>k. AList.update k (sd_name s)) (produced_keys (sd_output_mapping s))
       (if map_of prods (sd_name s) \<noteq> None then prods else AList.update (sd_name s) (sd_name s) prods)"

definition producer_by_key :: "step_definition list \<Rightarrow> (string \<times> string) list" where
  "producer_by_key steps = fold add_producer steps []"

text \<open>The non-empty root keys of a value's placeholders, in order.\<close>

definition read_keys :: "pyval \<Rightarrow> string list" where
  "read_keys v = filter (\<lambda>k. k \<noteq> []) (map root_key (extract_placeholders v))"

text \<open>Two contracts clash when both are known and differ.\<close>

definition contract_clash :: "string \<Rightarrow> string \<Rightarrow> (string \<times> string) option" where
  "contract_clash input_name placeholder =
     (case (resolve_contract_for_key (root_key input_name), resolve_contract_for_placeholder placeholder) of
        (Some e, Some a) \<Rightarrow> if e \<noteq> [] \<and> a \<noteq> [] \<and> e \<noteq> a then Some (e, a) else None
      | _ \<Rightarrow> None)"

subsection \<open>\<open>PipelineValidator\<close>\<close>

definition count_name :: "step_definition \<Rightarrow> (string \<times> nat) list \<Rightarrow> (string \<times> nat) list" where
  "count_name s seen =
     AList.update (sd_name s) (case map_of seen (sd_name s) of None \<Rightarrow> 1 | Some n \<Rightarrow> n + 1) seen"

definition count_names :: "step_definition list \<Rightarrow> (string \<times> nat) list" where
  "count_names steps = fold count_name steps []"

definition validate_step_uniqueness :: "pipeline_definition \<Rightarrow> string list" where
  "validate_step_uniqueness p =
     map (\<lambda>(n, c). ''Duplicate step name '' @ quoted n @ '' appears '' @ nat_str c
            @ '' times in pipeline '' @ quoted (pd_pipeline_name p))
       (filter (\<lambda>(n, c). c > 1) (count_names (pd_steps p)))"

definition validate_agent_existence :: "(string \<Rightarrow> bool) \<Rightarrow> pipeline_definition \<Rightarrow> string list" where
  "validate_agent_existence has_agent p =
     map (\<lambda>s. ''Step '' @ quoted (sd_name s) @ '' references non-existent agent '' @ quoted (sd_agent s))
       (filter (\<lambda>s. \<not> has_agent (sd_agent s)) (pd_steps p))"

text \<open>
  \<open>_build_dependency_graph\<close>. A set of dependencies is a list without repetitions; the
  order in which Python would iterate it is not specified and the model takes the order
  of insertion.
\<close>

definition explicit_deps :: "string list \<Rightarrow> step_definition \<Rightarrow> string list" where
  "explicit_deps names s = filter (\<lambda>d. d \<in> set names \<and> d \<noteq> sd_name s) (sd_depends_on s)"

definition implicit_deps :: "(string \<times> string) list \<Rightarrow> step_definition \<Rightarrow> string list" where
  "implicit_deps prods s =
     filter (\<lambda>d. d \<noteq> sd_name s)
       (List.map_filter (map_of prods) (read_keys (PDict (sd_input_mapping s))))"

definition add_deps :: "string \<Rightarrow> string list \<Rightarrow> string graph \<Rightarrow> string graph" where
  "add_deps n ds g = AList.update n (fold List.insert ds (neighbours g n)) g"

definition build_dependency_graph :: "pipeline_definition \<Rightarrow> string graph" where
  "build_dependency_graph p =
     (let steps = pd_steps p; names = map sd_name steps; prods = producer_by_key steps in
      fold (\<lambda>s. add_deps (sd_name s) (explicit_deps names s @ implicit_deps prods s)) steps
        (fold (\<lambda>s. AList.update (sd_name s) []) steps []))"

definition validate_dag_structure :: "pipeline_definition \<Rightarrow> string list" where
  "validate_dag_structure p =
     map (\<lambda>s. ''Step '' @ quoted (sd_name s) @ '' has self-reference in depends_on'')
       (filter (\<lambda>s. sd_name s \<in> set (sd_depends_on s)) (pd_steps p))
     @ map (\<lambda>c. ''Cyclic dependency detected: '' @ join '' -> '' c)
         (detect_cycles (build_dependency_graph p))"

definition external_inputs :: "string list" where
  "external_inputs =
     [''repo_url'', ''github_token'', ''repository'', ''mock_mode'', ''token'', ''issue'', ''dependency'',
      ''issue_body'', ''issue_title'', ''pr_title'', ''pr_body'', ''base_branch'', ''head_branch'',
      ''test_coverage_report'', ''ci_run'', ''original_issue'', ''commit_sha'', ''tag_name'',
      ''release_body'', ''rules'', ''rag_context'', ''dod'', ''specification'', ''feature_spec'',
      ''subtasks'', ''bdd_scenarios'', ''tests'', ''code_patch'', ''test_results'', ''fixed_code_patch'',
      ''review_result'', ''merge_status'', ''ci_issue'', ''pipeline_status'']"

definition check_placeholder :: "(string \<times> string) list \<Rightarrow> string \<Rightarrow> string \<Rightarrow> string \<Rightarrow> string list" where
  "check_placeholder prods step input_name placeholder =
     (let key = root_key placeholder in
      if key = [] then []
      else (case contract_clash input_name placeholder of
              None \<Rightarrow> []
            | Some (e, a) \<Rightarrow> [''Contract mismatch in step '' @ quoted step @ '' for input '' @ quoted input_name
                @ '': expected '' @ quoted e @ '' but placeholder '' @ quoted key @ '' provides '' @ quoted a])
         @ (if key \<in> set external_inputs then []
            else if map_of prods key = None
            then [''Step '' @ quoted step @ '' expects input '' @ quoted key
                    @ '' which is not produced by any preceding step'']
            else []))"

definition validate_contract_compatibility :: "pipeline_definition \<Rightarrow> string list" where
  "validate_contract_compatibility p =
     (let prods = producer_by_key (pd_steps p) in
      concat (map (\<lambda>s. concat (map (\<lambda>(input_name, v).
          concat (map (check_placeholder prods (sd_name s) input_name) (extract_placeholders v)))
        (sd_input_mapping s))) (pd_steps p)))"

definition validation_messages :: "(string \<Rightarrow> bool) \<Rightarrow> pipeline_definition \<Rightarrow> string list" where
  "validation_messages has_agent p =
     validate_step_uniqueness p @ validate_agent_existence has_agent p
     @ validate_dag_structure p @ validate_contract_compatibility p"

text \<open>\<open>validate\<close>: any message is raised, so the list returned is empty.\<close>

definition pipeline_validate :: "(string \<Rightarrow> bool) \<Rightarrow> pipeline_definition \<Rightarrow> exn + string list" where
  "pipeline_validate has_agent p =
     (let errors = validation_messages has_agent p in
      if errors \<noteq> [] then Inl (PipelineValidationError (join ''; '' errors)) else Inr errors)"

subsection \<open>\<open>load_and_validate_pipeline\<close>\<close>

text \<open>\<open>duplicates\<close> lists a set; the model lists it in the order of the steps.\<close>

definition validate_unique_steps :: "pipeline_definition \<Rightarrow> exn + unit" where
  "validate_unique_steps p =
     (let names = map sd_name (pd_steps p) in
      if distinct names then Inr ()
      else Inl (ValueError (''Duplicate step names detected in pipeline '' @ quoted (pd_pipeline_name p)
        @ '': ['' @ join '', '' (map quoted (filter (\<lambda>n. count_list names n > 1) (remdups names))) @ '']'')))"

definition validate_agents_exist :: "agent_registry \<Rightarrow> pipeline_definition \<Rightarrow> exn + unit" where
  "validate_agents_exist ar p =
     (case find (\<lambda>s. \<not> agent_exists (sd_agent s) ar) (pd_steps p) of
        None \<Rightarrow> Inr ()
      | Some s \<Rightarrow> Inl (ValueError (''Agent '' @ quoted (sd_agent s) @ '' used in pipeline ''
          @ quoted (pd_pipeline_name p) @ '' does not exist in AgentRegistry'')))"

definition index_steps :: "pipeline_definition \<Rightarrow> (string \<times> step_definition) list" where
  "index_steps p = fold (\<lambda>s. AList.update (sd_name s) s) (pd_steps p) []"

definition validate_dependencies_exist ::
  "(string \<times> step_definition) list \<Rightarrow> pipeline_definition \<Rightarrow> exn + unit" where
  "validate_dependencies_exist by_name p =
     (case find (\<lambda>(s, d). map_of by_name d = None)
             (concat (map (\<lambda>s. map (\<lambda>d. (s, d)) (sd_depends_on s)) (pd_steps p))) of
        None \<Rightarrow> Inr ()
      | Some (s, d) \<Rightarrow> Inl (ValueError (''Dependency '' @ quoted d @ '' referenced in step '' @ quoted (sd_name s)
          @ '' does not exist in pipeline '' @ quoted (pd_pipeline_name p))))"

text \<open>\<open>graph[dep].append(step.name)\<close> and \<open>indegree[step.name] += 1\<close>.\<close>

definition add_edge ::
  "string \<Rightarrow> string \<Rightarrow> string graph \<times> (string \<times> int) list \<Rightarrow> exn + string graph \<times> (string \<times> int) list" where
  "add_edge n d st =
     (case map_of (fst st) d of
        None \<Rightarrow> Inl (KeyError d)
      | Some ms \<Rightarrow>
          (case map_of (snd st) n of
             None \<Rightarrow> Inl (KeyError n)
           | Some i \<Rightarrow> Inr (AList.update d (ms @ [n]) (fst st), AList.update n (i + 1) (snd st))))"

definition start_node :: "step_definition \<Rightarrow> string graph \<times> (string \<times> int) list \<Rightarrow> string graph \<times> (string \<times> int) list" where
  "start_node s st = (AList.update (sd_name s) [] (fst st), AList.update (sd_name s) 0 (snd st))"

definition build_graph :: "pipeline_definition \<Rightarrow> exn + string graph \<times> (string \<times> int) list" where
  "build_graph p =
     foldE (\<lambda>s. foldE (add_edge (sd_name s)) (sd_depends_on s)) (pd_steps p)
       (fold start_node (pd_steps p) ([], []))"

definition validate_dag ::
  "string graph \<Rightarrow> (string \<times> int) list \<Rightarrow> pipeline_definition \<Rightarrow> exn + unit" where
  "validate_dag g ind p =
     bindE (kahn_run g ind (map fst (filter (\<lambda>q. snd q = 0) ind)) 0) (\<lambda>visited.
       if visited \<noteq> length ind
       then Inl (ValueError (''Circular dependency detected in pipeline '' @ quoted (pd_pipeline_name p)))
       else Inr ())"

text \<open>\<open>if step_input_contract and dep_output_contract != step_input_contract\<close>.\<close>

definition contract_differs :: "string option \<Rightarrow> string option \<Rightarrow> bool" where
  "contract_differs wanted given \<longleftrightarrow> wanted \<noteq> None \<and> wanted \<noteq> Some [] \<and> given \<noteq> wanted"

definition opt_text :: "string option \<Rightarrow> string" where
  "opt_text c = (case c of None \<Rightarrow> ''None'' | Some t \<Rightarrow> t)"

definition check_dep_contract ::
  "agent_registry \<Rightarrow> (string \<times> step_definition) list \<Rightarrow> pipeline_definition \<Rightarrow> step_definition \<Rightarrow> string \<Rightarrow> exn + unit" where
  "check_dep_contract ar by_name p s d =
     (case map_of by_name d of
        None \<Rightarrow> Inl (KeyError d)
      | Some ds \<Rightarrow>
          let input = (case agent_get (sd_agent s) ar of None \<Rightarrow> None | Some m \<Rightarrow> am_input_contract m);
              out = (case agent_get (sd_agent ds) ar of None \<Rightarrow> None | Some m \<Rightarrow> am_output_contract m)
          in if contract_differs input out
             then Inl (ValueError (''Contract mismatch between steps '' @ quoted (sd_name ds) @ '' and '' @ quoted (sd_name s)
               @ '' in pipeline '' @ quoted (pd_pipeline_name p) @ '': output contract '' @ quoted (opt_text out)
               @ '' does not match input contract '' @ quoted (opt_text input)))
             else Inr ())"

definition check_input_contract :: "pipeline_definition \<Rightarrow> step_definition \<Rightarrow> string \<Rightarrow> string \<Rightarrow> exn + unit" where
  "check_input_contract p s input_name placeholder =
     (case contract_clash input_name placeholder of
        None \<Rightarrow> Inr ()
      | Some (e, a) \<Rightarrow>
          Inl (ValueError (''Contract mismatch in pipeline '' @ quoted (pd_pipeline_name p) @ '' for step ''
            @ quoted (sd_name s) @ '': input '' @ quoted input_name @ '' expects contract '' @ quoted e
            @ '' but placeholder '' @ quoted (root_key placeholder) @ '' uses '' @ quoted a)))"

definition eachE :: "('a \<Rightarrow> exn + unit) \<Rightarrow> 'a list \<Rightarrow> exn + unit" where
  "eachE f xs = foldE (\<lambda>x _. f x) xs ()"

definition validate_step_contracts ::
  "agent_registry \<Rightarrow> (string \<times> step_definition) list \<Rightarrow> pipeline_definition \<Rightarrow> step_definition \<Rightarrow> exn + unit" where
  "validate_step_contracts ar by_name p s =
     (if sd_depends_on_explicit s then Inr ()
      else bindE (eachE (check_dep_contract ar by_name p s) (sd_depends_on s)) (\<lambda>_.
        eachE (\<lambda>(input_name, v). eachE (check_input_contract p s input_name) (extract_placeholders v))
          (sd_input_mapping s)))"

definition validate_contracts ::
  "agent_registry \<Rightarrow> (string \<times> step_definition) list \<Rightarrow> pipeline_definition \<Rightarrow> exn + unit" where
  "validate_contracts ar by_name p = eachE (validate_step_contracts ar by_name p) (pd_steps p)"

text \<open>The checks of a loaded definition, in order.\<close>

definition check_definition :: "agent_registry \<Rightarrow> pipeline_definition \<Rightarrow> exn + unit" where
  "check_definition ar p =
     bindE (validate_unique_steps p) (\<lambda>_.
     bindE (validate_agents_exist ar p) (\<lambda>_.
     let by_name = index_steps p in
     bindE (validate_dependencies_exist by_name p) (\<lambda>_.
     bindE (build_graph p) (\<lambda>(g, ind).
     bindE (validate_dag g ind p) (\<lambda>_.
     validate_contracts ar by_name p)))))"

text \<open>
  A name that is not cached is not loaded, so \<open>self.get\<close> returns metadata. The loader is
  a fresh \<open>PipelineLoader()\<close> without registry.
\<close>

definition load_and_validate_pipeline ::
  "file_system \<Rightarrow> string \<Rightarrow> agent_registry \<Rightarrow> pipeline_registry \<Rightarrow> exn + pipeline_definition \<times> pipeline_registry" where
  "load_and_validate_pipeline fs name ar r =
     (case get_pipeline_definition name r of
        Some p \<Rightarrow> Inr (p, r)
      | None \<Rightarrow>
          (case get_metadata name r of
             None \<Rightarrow> Inl (ValueError (''Pipeline '' @ quoted name @ '' not found in registry''))
           | Some m \<Rightarrow>
               bindE (read_file_pipeline default_loader fs (pm_path m)) (\<lambda>p.
               bindE (check_definition ar p) (\<lambda>_.
                 Inr (p, register_pipeline_definition name p r)))))"

subsection \<open>\<open>init_registries\<close>\<close>

text \<open>
  The registries that are not passed in are created; the schema files and the pipeline
  listing are arguments. An exception of a pipeline's validation is raised again as a
  \<open>ValueError\<close> that names the pipeline.
\<close>

definition validate_registered ::
  "file_system \<Rightarrow> agent_registry \<Rightarrow> string \<Rightarrow> pipeline_registry \<Rightarrow> exn + pipeline_registry" where
  "validate_registered fs ar name r =
     (case load_and_validate_pipeline fs name ar r of
        Inl e \<Rightarrow> Inl (ValueError (''Validation error of pipeline '' @ quoted name @ '': '' @ exn_str e))
      | Inr (_, r') \<Rightarrow> Inr r')"

definition init_registries ::
  "(string \<Rightarrow> bool) \<Rightarrow> (string \<times> string \<times> (exn + pyval)) list \<Rightarrow> file_system \<Rightarrow> string \<Rightarrow> string list \<Rightarrow>
     contract_registry option \<Rightarrow> agent_registry option \<Rightarrow> pipeline_registry option \<Rightarrow>
     exn + contract_registry \<times> agent_registry \<times> pipeline_registry" where
  "init_registries is_agent_class schemas fs dir listing cr0 ar0 pr0 =
     bindE (autoload_schemas schemas (case cr0 of None \<Rightarrow> [] | Some c \<Rightarrow> c)) (\<lambda>cr.
     bindE (register_agents is_agent_class
             (case ar0 of None \<Rightarrow> \<lparr>ar_agents = [], ar_contracts = Some cr\<rparr> | Some a \<Rightarrow> a)) (\<lambda>ar.
     bindE (autoload_pipelines dir listing (case pr0 of None \<Rightarrow> empty_pipeline_registry | Some q \<Rightarrow> q)) (\<lambda>pr.
     bindE (foldE (validate_registered fs ar) (map pm_name (pipeline_list pr)) pr) (\<lambda>pr'.
       Inr (cr, ar, pr')))))"

subsection \<open>The graphs the validators build\<close>

lemma set_map_filter_option: "set (List.map_filter f xs) = {y. \<exists>x \<in> set xs. f x = Some y}"
  by (induction xs) (auto simp: List.map_filter_simps split: option.splits)

lemma set_fold_insert: "set (fold List.insert ds xs) = set xs \<union> set ds"
  by (induction ds arbitrary: xs) auto

lemma neighbours_update: "neighbours (AList.update n ms g) k = (if k = n then ms else neighbours g k)"
  by (simp add: neighbours_def)

lemma neighbours_init:
  "neighbours (fold (\<lambda>s. AList.update (sd_name s) []) steps g) k \<in> {neighbours g k, []}"
proof (induction steps arbitrary: g)
  case (Cons s steps)
  then show ?case using Cons.IH [of "AList.update (sd_name s) [] g"]
    by (auto simp: neighbours_update split: if_splits)
qed simp

lemma neighbours_add_deps:
  "set (neighbours (fold (\<lambda>s. add_deps (sd_name s) (f s)) steps g) k)
     = set (neighbours g k) \<union> \<Union> (set ` f ` {s \<in> set steps. sd_name s = k})"
  by (induction steps arbitrary: g) (auto simp: add_deps_def neighbours_update set_fold_insert)

text \<open>What the validator takes for the dependencies of a step.\<close>

definition needs_step :: "pipeline_definition \<Rightarrow> step_definition \<Rightarrow> string \<Rightarrow> bool" where
  "needs_step p s d \<longleftrightarrow> d \<noteq> sd_name s \<and>
     (d \<in> set (sd_depends_on s) \<and> d \<in> sd_name ` set (pd_steps p) \<or>
      (\<exists>k \<in> set (read_keys (PDict (sd_input_mapping s))). map_of (producer_by_key (pd_steps p)) k = Some d))"

definition validator_deps :: "pipeline_definition \<Rightarrow> (string \<times> string) set" where
  "validator_deps p = {(n, d). \<exists>s \<in> set (pd_steps p). sd_name s = n \<and> needs_step p s d}"

lemma edges_build_dependency_graph: "edges (build_dependency_graph p) = validator_deps p"
proof -
  have "neighbours (fold (\<lambda>s. AList.update (sd_name s) []) (pd_steps p) []) k = []" for k
    using neighbours_init [of "pd_steps p" "[]" k] by (simp add: neighbours_def)
  then have "(n, d) \<in> edges (build_dependency_graph p) \<longleftrightarrow>
      (\<exists>s \<in> set (pd_steps p). sd_name s = n \<and>
         d \<in> set (explicit_deps (map sd_name (pd_steps p)) s @ implicit_deps (producer_by_key (pd_steps p)) s))" for n d
    by (simp add: edges_def build_dependency_graph_def Let_def neighbours_add_deps) blast
  moreover have "d \<in> set (explicit_deps names s @ implicit_deps prods s) \<longleftrightarrow> d \<noteq> sd_name s \<and>
      (d \<in> set (sd_depends_on s) \<and> d \<in> set names \<or>
       (\<exists>k \<in> set (read_keys (PDict (sd_input_mapping s))). map_of prods k = Some d))" for d s names prods
    by (auto simp: explicit_deps_def implicit_deps_def set_map_filter_option)
  ultimately show ?thesis by (simp only: validator_deps_def needs_step_def set_map set_eq_iff split_paired_all) simp
qed

lemma eachE_iff: "eachE f xs = Inr () \<longleftrightarrow> (\<forall>x \<in> set xs. f x = Inr ())"
  unfolding eachE_def by (induction xs) (auto simp: bindE_def split: sum.splits)

lemma eachE_cong: "(\<And>x. x \<in> set xs \<Longrightarrow> f x = g x) \<Longrightarrow> eachE f xs = eachE g xs"
  unfolding eachE_def by (induction xs) (auto simp: bindE_def split: sum.split)

text \<open>The counters of Kahn's algorithm while the graph is built.\<close>

definition graph_ok :: "string graph \<times> (string \<times> int) list \<Rightarrow> bool" where
  "graph_ok st \<longleftrightarrow> closed_graph (fst st) \<and> map fst (snd st) = map fst (fst st) \<and>
     (\<forall>n \<in> fst ` set (fst st). map_of (snd st) n = Some (int (in_count (fst st) {} n)))"

lemma in_count_add:
  "map_of g d = Some ms \<Longrightarrow> in_count (AList.update d (ms @ [n]) g) {} k = in_count g {} k + (if k = n then 1 else 0)"
  by (induction g) (auto simp: in_count_def)

lemma closed_graph_add:
  assumes "closed_graph g" "map_of g d = Some ms" "n \<in> fst ` set g"
  shows "closed_graph (AList.update d (ms @ [n]) g)"
proof -
  have ms: "set (ms @ [n]) \<subseteq> fst ` set g" "d \<in> fst ` set g"
    using assms map_of_SomeD [OF assms(2)] by (auto simp: closed_graph_def intro: rev_image_eqI)
  have "set ks \<subseteq> insert d (fst ` set g)" if "(q, ks) \<in> set (AList.update d (ms @ [n]) g)" for q ks
  proof -
    have "set (AList.update d (ms @ [n]) g) \<subseteq> insert (d, ms @ [n]) (set g)" by (induction g) auto
    with that assms(1) ms show ?thesis unfolding closed_graph_def by blast
  qed
  then show ?thesis using assms(1) unfolding closed_graph_def keys_update by (auto simp: distinct_update)
qed

lemma edges_add:
  assumes "map_of g d = Some ms"
  shows "edges (AList.update d (ms @ [n]) g) = insert (d, n) (edges g)"
proof -
  have "neighbours g d = ms" using assms by (simp add: neighbours_def)
  then show ?thesis by (auto simp: edges_def neighbours_update split: if_splits)
qed

lemma add_edge_ok:
  assumes "graph_ok st" "n \<in> fst ` set (fst st)" "d \<in> fst ` set (fst st)"
  obtains st' where "add_edge n d st = Inr st'" "graph_ok st'" "edges (fst st') = insert (d, n) (edges (fst st))"
    "map fst (fst st') = map fst (fst st)"
proof -
  obtain g ind where st: "st = (g, ind)" by (cases st)
  note a = assms [unfolded st graph_ok_def fst_conv snd_conv]
  obtain ms where ms: "map_of g d = Some ms" using a(3) by (auto dest: weak_map_of_SomeI)
  have i: "map_of ind n = Some (int (in_count g {} n))" using a by blast
  let ?g = "AList.update d (ms @ [n]) g" and ?i = "AList.update n (int (in_count g {} n) + 1) ind"
  have k: "map fst ?g = map fst g" using a(3) by (simp add: update_same_keys)
  have "n \<in> fst ` set ind" using i by (metis domI dom_map_of_conv_image_fst)
  then have "map fst ?i = map fst ind" by (simp add: update_same_keys)
  moreover have "map_of ?i m = Some (int (in_count ?g {} m))" if "m \<in> fst ` set g" for m
    using a(1) that by (auto simp: in_count_add [OF ms])
  ultimately have "graph_ok (?g, ?i)"
    using a closed_graph_add [OF _ ms a(2)] k unfolding graph_ok_def fst_conv snd_conv keys_update by auto
  moreover have "add_edge n d st = Inr (?g, ?i)" by (simp add: st add_edge_def ms i)
  ultimately show thesis using that [of "(?g, ?i)"] edges_add [OF ms] k by (simp add: st)
qed

lemma add_edges_ok:
  assumes "graph_ok st" "n \<in> fst ` set (fst st)" "set ds \<subseteq> fst ` set (fst st)"
  shows "\<exists>st'. foldE (add_edge n) ds st = Inr st' \<and> graph_ok st' \<and>
    edges (fst st') = edges (fst st) \<union> {(d, n) | d. d \<in> set ds} \<and> map fst (fst st') = map fst (fst st)"
  using assms
proof (induction ds arbitrary: st)
  case (Cons d ds)
  obtain st1 where s: "add_edge n d st = Inr st1" "graph_ok st1" "edges (fst st1) = insert (d, n) (edges (fst st))"
    "map fst (fst st1) = map fst (fst st)"
    using add_edge_ok [of st n d] Cons.prems by auto
  have "fst ` set (fst st1) = fst ` set (fst st)" using s(4) by (metis set_map)
  with Cons.IH [of st1] Cons.prems s show ?case by auto
qed simp

definition registry_deps :: "pipeline_definition \<Rightarrow> (string \<times> string) set" where
  "registry_deps p = {(sd_name s, d) | s d. s \<in> set (pd_steps p) \<and> d \<in> set (sd_depends_on s)}"

lemma build_steps_ok:
  assumes "graph_ok st" "\<forall>s \<in> set steps. sd_name s \<in> fst ` set (fst st) \<and> set (sd_depends_on s) \<subseteq> fst ` set (fst st)"
  shows "\<exists>st'. foldE (\<lambda>s. foldE (add_edge (sd_name s)) (sd_depends_on s)) steps st = Inr st' \<and> graph_ok st' \<and>
    edges (fst st') = edges (fst st) \<union> {(d, sd_name s) | s d. s \<in> set steps \<and> d \<in> set (sd_depends_on s)}"
  using assms
proof (induction steps arbitrary: st)
  case (Cons s steps)
  obtain st1 where s: "foldE (add_edge (sd_name s)) (sd_depends_on s) st = Inr st1" "graph_ok st1"
    "edges (fst st1) = edges (fst st) \<union> {(d, sd_name s) | d. d \<in> set (sd_depends_on s)}"
    "map fst (fst st1) = map fst (fst st)"
    using add_edges_ok [of st "sd_name s" "sd_depends_on s"] Cons.prems by auto
  have "fst ` set (fst st1) = fst ` set (fst st)" using s(4) by (metis set_map)
  with Cons.IH [of st1] Cons.prems s obtain st' where
    "foldE (\<lambda>s. foldE (add_edge (sd_name s)) (sd_depends_on s)) steps st1 = Inr st'" "graph_ok st'"
    "edges (fst st') = edges (fst st1) \<union> {(d, sd_name s) | s d. s \<in> set steps \<and> d \<in> set (sd_depends_on s)}"
    by auto
  moreover have "{(d, sd_name s') | s' d. s' \<in> set (s # steps) \<and> d \<in> set (sd_depends_on s')}
      = {(d, sd_name s) | d. d \<in> set (sd_depends_on s)}
        \<union> {(d, sd_name s) | s d. s \<in> set steps \<and> d \<in> set (sd_depends_on s)}" by auto
  ultimately show ?case using s(1, 3) by (simp add: Un_assoc)
qed simp

definition fresh_graph :: "string graph \<times> (string \<times> int) list \<Rightarrow> bool" where
  "fresh_graph st \<longleftrightarrow> map fst (snd st) = map fst (fst st) \<and> distinct (map fst (fst st)) \<and>
     snd ` set (fst st) \<subseteq> {[]} \<and> snd ` set (snd st) \<subseteq> {0}"

lemma snd_set_update: "snd ` set (AList.update k v d) \<subseteq> insert v (snd ` set d)"
  by (induction d) auto

lemma start_node_fresh: "fresh_graph st \<Longrightarrow> fresh_graph (start_node s st)"
proof -
  assume f: "fresh_graph st"
  have "snd ` set (AList.update (sd_name s) [] (fst st)) \<subseteq> {[]}"
    by (rule subset_trans [OF snd_set_update]) (use f in \<open>simp add: fresh_graph_def\<close>)
  moreover have "snd ` set (AList.update (sd_name s) 0 (snd st)) \<subseteq> {0}"
    by (rule subset_trans [OF snd_set_update]) (use f in \<open>simp add: fresh_graph_def\<close>)
  ultimately show ?thesis
    using f unfolding fresh_graph_def start_node_def by (simp add: update_keys distinct_update)
qed

lemma start_nodes_fresh:
  "fresh_graph st \<Longrightarrow> fresh_graph (fold start_node steps st) \<and>
     fst ` set (fst (fold start_node steps st)) = fst ` set (fst st) \<union> sd_name ` set steps"
proof (induction steps arbitrary: st)
  case (Cons s steps)
  have "fst ` set (fst (start_node s st)) = insert (sd_name s) (fst ` set (fst st))"
    by (simp add: start_node_def keys_update)
  with Cons.IH [OF start_node_fresh [OF Cons.prems], of s] show ?case by simp
qed simp

lemma fresh_graph_ok:
  assumes "fresh_graph st"
  shows "graph_ok st \<and> edges (fst st) = {}"
proof -
  obtain g ind where st: "st = (g, ind)" by (cases st)
  have e: "ms = []" if "(n, ms) \<in> set g" for n ms using assms that by (force simp: fresh_graph_def st)
  have "closed_graph g" using assms e by (fastforce simp: fresh_graph_def closed_graph_def st)
  moreover have "in_count g {} n = 0" for n
  proof -
    have "in_count g {} n = sum_list (map (\<lambda>_. 0) g)"
      unfolding in_count_def by (intro arg_cong [where f = sum_list] map_cong refl) (auto dest: e)
    then show ?thesis by simp
  qed
  moreover have "map_of ind n = Some 0" if "n \<in> fst ` set g" for n
  proof -
    have "n \<in> fst ` set ind" using that assms by (metis fresh_graph_def st fst_conv snd_conv set_map)
    then obtain i where "map_of ind n = Some i" by (auto dest: weak_map_of_SomeI)
    moreover from this have "i \<in> snd ` set ind" by (force dest: map_of_SomeD)
    ultimately show ?thesis using assms by (auto simp: fresh_graph_def st)
  qed
  moreover have "edges g = {}" using e by (fastforce simp: edges_def dest: neighbours_pair)
  ultimately show ?thesis using assms by (simp add: graph_ok_def fresh_graph_def st)
qed

subsection \<open>\<open>PipelineValidator\<close> accepts exactly the valid pipelines\<close>

definition tally :: "(string \<times> nat) list \<Rightarrow> string \<Rightarrow> nat" where
  "tally seen n = (case map_of seen n of None \<Rightarrow> 0 | Some c \<Rightarrow> c)"

lemma count_name_tally: "tally (count_name s seen) n = tally seen n + (if n = sd_name s then 1 else 0)"
  by (simp add: tally_def count_name_def split: option.splits)

lemma count_names_tally:
  "distinct (map fst seen) \<Longrightarrow> distinct (map fst (fold count_name steps seen)) \<and>
     tally (fold count_name steps seen) n = tally seen n + count_list (map sd_name steps) n"
proof (induction steps arbitrary: seen)
  case (Cons s steps)
  have "distinct (map fst (count_name s seen))" using Cons.prems by (simp add: count_name_def distinct_update)
  from Cons.IH [OF this] show ?case by (simp add: count_name_tally)
qed simp

lemma distinct_count: "distinct xs \<longleftrightarrow> (\<forall>x. count_list xs x \<le> 1)"
proof (induction xs)
  case (Cons y xs)
  have "(\<forall>x. count_list (y # xs) x \<le> 1) \<longleftrightarrow> count_list xs y = 0 \<and> (\<forall>x. count_list xs x \<le> 1)"
  proof (intro iffI conjI allI)
    assume a: "\<forall>x. count_list (y # xs) x \<le> 1"
    show "count_list xs y = 0" using a [rule_format, of y] by simp
    show "count_list xs x \<le> 1" for x using a [rule_format, of x] by (simp split: if_splits)
  qed auto
  with Cons show ?case by (simp add: count_list_0_iff)
qed simp

lemma uniqueness_iff: "validate_step_uniqueness p = [] \<longleftrightarrow> distinct (map sd_name (pd_steps p))"
proof -
  let ?c = "count_names (pd_steps p)"
  have c: "distinct (map fst ?c)" "\<And>n. tally ?c n = count_list (map sd_name (pd_steps p)) n"
    using count_names_tally [of "[]" "pd_steps p"] by (simp_all add: count_names_def tally_def [of "[]"])
  have "validate_step_uniqueness p = [] \<longleftrightarrow> (\<forall>(n, k) \<in> set ?c. k \<le> 1)"
    by (auto simp: validate_step_uniqueness_def filter_empty_conv)
  also have "\<dots> \<longleftrightarrow> (\<forall>n. tally ?c n \<le> 1)"
  proof
    assume "\<forall>(n, k) \<in> set ?c. k \<le> 1"
    then show "\<forall>n. tally ?c n \<le> 1" by (auto simp: tally_def split: option.splits dest: map_of_SomeD)
  next
    assume a: "\<forall>n. tally ?c n \<le> 1"
    have "k \<le> 1" if "(n, k) \<in> set ?c" for n k
      using a [rule_format, of n] map_of_is_SomeI [OF c(1) that] by (simp add: tally_def)
    then show "\<forall>(n, k) \<in> set ?c. k \<le> 1" by auto
  qed
  finally show ?thesis by (simp add: c(2) distinct_count)
qed

lemma dag_iff:
  "validate_dag_structure p = [] \<longleftrightarrow>
     (\<forall>s \<in> set (pd_steps p). sd_name s \<notin> set (sd_depends_on s)) \<and> acyclic (validator_deps p)"
  using detect_cycles_correct [of "build_dependency_graph p"]
  by (auto simp: validate_dag_structure_def filter_empty_conv edges_build_dependency_graph)

text \<open>A placeholder the validator has nothing against.\<close>

definition placeholder_ok :: "pipeline_definition \<Rightarrow> string \<Rightarrow> string \<Rightarrow> bool" where
  "placeholder_ok p input_name ph \<longleftrightarrow> root_key ph = [] \<or>
     contract_clash input_name ph = None \<and>
     (root_key ph \<in> set external_inputs \<or> map_of (producer_by_key (pd_steps p)) (root_key ph) \<noteq> None)"

lemma check_placeholder_iff:
  "check_placeholder (producer_by_key (pd_steps p)) step input_name ph = [] \<longleftrightarrow> placeholder_ok p input_name ph"
  by (auto simp: check_placeholder_def placeholder_ok_def Let_def split: option.splits)

lemma contracts_iff:
  "validate_contract_compatibility p = [] \<longleftrightarrow>
     (\<forall>s \<in> set (pd_steps p). \<forall>(input_name, v) \<in> set (sd_input_mapping s).
        \<forall>ph \<in> set (extract_placeholders v). placeholder_ok p input_name ph)"
  by (simp add: validate_contract_compatibility_def Let_def check_placeholder_iff split_beta)


subsection \<open>\<open>load_and_validate_pipeline\<close> accepts exactly the valid pipelines\<close>

lemma index_steps_keys: "map_of (index_steps p) d = None \<longleftrightarrow> d \<notin> sd_name ` set (pd_steps p)"
proof -
  have "map_of (fold (\<lambda>s. AList.update (sd_name s) s) steps m) d = None \<longleftrightarrow>
      map_of m d = None \<and> d \<notin> sd_name ` set steps" for steps :: "step_definition list" and m
    by (induction steps arbitrary: m) auto
  then show ?thesis by (simp add: index_steps_def)
qed

lemma validate_dag_iff:
  assumes "set (concat (map sd_depends_on (pd_steps p))) \<subseteq> sd_name ` set (pd_steps p)"
  shows "\<exists>g ind. build_graph p = Inr (g, ind) \<and> (validate_dag g ind p = Inr () \<longleftrightarrow> acyclic (registry_deps p))"
proof -
  let ?st = "fold start_node (pd_steps p) ([], [])"
  have f: "fresh_graph ?st" "fst ` set (fst ?st) = sd_name ` set (pd_steps p)"
    using start_nodes_fresh [of "([], [])" "pd_steps p"] by (simp_all add: fresh_graph_def)
  have "\<forall>s \<in> set (pd_steps p). sd_name s \<in> fst ` set (fst ?st) \<and> set (sd_depends_on s) \<subseteq> fst ` set (fst ?st)"
    using assms f(2) by auto
  from build_steps_ok [OF conjunct1 [OF fresh_graph_ok [OF f(1)]] this] obtain st' where
    st': "build_graph p = Inr st'" "graph_ok st'"
    and e': "edges (fst st') = edges (fst ?st) \<union> {(d, sd_name s) | s d. s \<in> set (pd_steps p) \<and> d \<in> set (sd_depends_on s)}"
    unfolding build_graph_def by (elim exE conjE)
  have st'3: "edges (fst st') = {(d, sd_name s) | s d. s \<in> set (pd_steps p) \<and> d \<in> set (sd_depends_on s)}"
    unfolding e' conjunct2 [OF fresh_graph_ok [OF f(1)]] by (rule Un_empty_left)
  obtain g ind where g: "st' = (g, ind)" by (cases st')
  note b = st'(1) [unfolded g] and ok = st'(2) [unfolded g] and e = st'3 [unfolded g fst_conv]
  have "edges g = (registry_deps p)\<inverse>" by (auto simp: e registry_deps_def)
  then have acyc: "acyclic (edges g) \<longleftrightarrow> acyclic (registry_deps p)" by simp
  note ok = ok [unfolded graph_ok_def fst_conv snd_conv]
  have k: "map fst ind = map fst g" and d: "distinct (map fst ind)"
    using ok by (simp_all add: closed_graph_def)
  have len: "length ind = length g" using k by (metis length_map)
  have kk: "fst ` set ind = fst ` set g" using k by (metis set_map)
  let ?q = "map fst (filter (\<lambda>q. snd q = 0) ind)"
  have q: "distinct ?q" using d by (simp add: distinct_map_filter)
  have "set ?q = {n \<in> fst ` set g. map_of ind n = Some 0}"
    unfolding map_of_eq_Some_iff [OF d] kk [symmetric] by force
  from kahn_run_correct [OF conjunct1 [OF ok] k bspec [OF conjunct2 [OF conjunct2 [OF ok]]] q this] obtain v
    where "kahn_run g ind ?q 0 = Inr v" "v = length g \<longleftrightarrow> acyclic (edges g)" by blast
  then have "validate_dag g ind p = Inr () \<longleftrightarrow> acyclic (registry_deps p)"
    by (simp add: validate_dag_def len acyc)
  with b show ?thesis by blast
qed

text \<open>
  When the contracts of a step fit: the agent of a step it depends on returns the
  contract the step's own agent takes, if it takes one, and no input of a known contract
  reads a placeholder of another known contract.
\<close>

definition input_contract_of :: "agent_registry \<Rightarrow> step_definition \<Rightarrow> string option" where
  "input_contract_of ar s = (case agent_get (sd_agent s) ar of None \<Rightarrow> None | Some m \<Rightarrow> am_input_contract m)"

definition output_contract_of :: "agent_registry \<Rightarrow> step_definition \<Rightarrow> string option" where
  "output_contract_of ar s = (case agent_get (sd_agent s) ar of None \<Rightarrow> None | Some m \<Rightarrow> am_output_contract m)"

definition handover_fits :: "agent_registry \<Rightarrow> step_definition \<Rightarrow> step_definition \<Rightarrow> bool" where
  "handover_fits ar t s \<longleftrightarrow> (\<forall>c. input_contract_of ar s = Some c \<and> c \<noteq> [] \<longrightarrow> output_contract_of ar t = Some c)"

definition read_fits :: "string \<Rightarrow> string \<Rightarrow> bool" where
  "read_fits input_name ph \<longleftrightarrow>
     (\<forall>e a. resolve_contract_for_key (root_key input_name) = Some e \<and> e \<noteq> [] \<and>
        resolve_contract_for_placeholder ph = Some a \<and> a \<noteq> [] \<longrightarrow> e = a)"

definition contracts_fit :: "agent_registry \<Rightarrow> pipeline_definition \<Rightarrow> step_definition \<Rightarrow> bool" where
  "contracts_fit ar p s \<longleftrightarrow>
     (\<forall>t \<in> set (pd_steps p). sd_name t \<in> set (sd_depends_on s) \<longrightarrow> handover_fits ar t s) \<and>
     (\<forall>(input_name, v) \<in> set (sd_input_mapping s). \<forall>ph \<in> set (extract_placeholders v). read_fits input_name ph)"

lemma index_steps_Some:
  assumes "distinct (map sd_name (pd_steps p))"
  shows "map_of (index_steps p) d = Some t \<longleftrightarrow> t \<in> set (pd_steps p) \<and> sd_name t = d"
proof -
  have "map_of (fold (\<lambda>s. AList.update (sd_name s) s) steps m) d = Some t \<longleftrightarrow>
      t \<in> set steps \<and> sd_name t = d \<or> d \<notin> sd_name ` set steps \<and> map_of m d = Some t"
    if "distinct (map sd_name steps)" for steps :: "step_definition list" and m
    using that by (induction steps arbitrary: m) (auto simp: update_conv' image_iff)
  from this [OF assms, of "[]"] show ?thesis by (simp add: index_steps_def)
qed

lemma check_dep_contract_iff:
  "check_dep_contract ar by_name p s d = Inr () \<longleftrightarrow> (\<exists>t. map_of by_name d = Some t \<and> handover_fits ar t s)"
  by (auto simp: check_dep_contract_def handover_fits_def contract_differs_def input_contract_of_def [symmetric]
      output_contract_of_def [symmetric] Let_def split: option.splits)

lemma check_input_contract_iff: "check_input_contract p s i ph = Inr () \<longleftrightarrow> read_fits i ph"
  by (auto simp: check_input_contract_def contract_clash_def read_fits_def split: option.splits)

lemma validate_step_contracts_iff:
  assumes "distinct (map sd_name (pd_steps p))" "set (sd_depends_on s) \<subseteq> sd_name ` set (pd_steps p)"
  shows "validate_step_contracts ar (index_steps p) p s = Inr () \<longleftrightarrow> sd_depends_on_explicit s \<or> contracts_fit ar p s"
proof -
  have "(\<forall>d \<in> set (sd_depends_on s). check_dep_contract ar (index_steps p) p s d = Inr ()) \<longleftrightarrow>
      (\<forall>t \<in> set (pd_steps p). sd_name t \<in> set (sd_depends_on s) \<longrightarrow> handover_fits ar t s)" (is "?l \<longleftrightarrow> ?r")
  proof
    assume l: ?l
    show ?r
    proof (intro ballI impI)
      fix t assume t: "t \<in> set (pd_steps p)" "sd_name t \<in> set (sd_depends_on s)"
      with l obtain u where u: "map_of (index_steps p) (sd_name t) = Some u" "handover_fits ar u s"
        by (auto simp: check_dep_contract_iff)
      moreover have "map_of (index_steps p) (sd_name t) = Some t" using index_steps_Some [OF assms(1)] t(1) by simp
      ultimately show "handover_fits ar t s" by simp
    qed
  next
    assume r: ?r
    show ?l
    proof
      fix d assume d: "d \<in> set (sd_depends_on s)"
      with assms(2) obtain t where "t \<in> set (pd_steps p)" "sd_name t = d" by auto
      with r d show "check_dep_contract ar (index_steps p) p s d = Inr ()"
        using index_steps_Some [OF assms(1), of d t] by (auto simp: check_dep_contract_iff)
    qed
  qed
  then show ?thesis
    by (auto simp: validate_step_contracts_def contracts_fit_def bindE_Inr_iff eachE_iff check_input_contract_iff)
qed

text \<open>C13: The registry's checks accept a definition exactly when its step names are
  distinct, its agents are registered, its dependencies name its own steps and have no
  cycle (by Kahn's algorithm), and the contracts fit of every step that is not marked as
  listing its dependencies. For a marked step - every step the loader finds dependencies
  for - nothing is compared.\<close>

theorem check_definition_correct:
  "check_definition ar p = Inr () \<longleftrightarrow>
     distinct (map sd_name (pd_steps p)) \<and>
     (\<forall>s \<in> set (pd_steps p). agent_exists (sd_agent s) ar \<and> set (sd_depends_on s) \<subseteq> sd_name ` set (pd_steps p)) \<and>
     acyclic (registry_deps p) \<and>
     (\<forall>s \<in> set (pd_steps p). \<not> sd_depends_on_explicit s \<longrightarrow> contracts_fit ar p s)"
proof -
  let ?fit = "\<forall>s \<in> set (pd_steps p). validate_step_contracts ar (index_steps p) p s = Inr ()"
  have u: "validate_unique_steps p = Inr () \<longleftrightarrow> distinct (map sd_name (pd_steps p))"
    by (simp add: validate_unique_steps_def Let_def)
  have a: "validate_agents_exist ar p = Inr () \<longleftrightarrow> (\<forall>s \<in> set (pd_steps p). agent_exists (sd_agent s) ar)"
    by (auto simp: validate_agents_exist_def find_None_iff find_Some_iff split: option.splits)
  have d: "validate_dependencies_exist (index_steps p) p = Inr () \<longleftrightarrow>
      set (concat (map sd_depends_on (pd_steps p))) \<subseteq> sd_name ` set (pd_steps p)"
  proof -
    have "find (\<lambda>(s, d). map_of (index_steps p) d = None)
        (concat (map (\<lambda>s. map (\<lambda>d. (s, d)) (sd_depends_on s)) (pd_steps p))) = None \<longleftrightarrow>
      set (concat (map sd_depends_on (pd_steps p))) \<subseteq> sd_name ` set (pd_steps p)"
      unfolding find_None_iff index_steps_keys by (auto simp: index_steps_keys) blast
    then show ?thesis by (auto simp: validate_dependencies_exist_def split: option.splits)
  qed
  have c: "validate_contracts ar (index_steps p) p = Inr () \<longleftrightarrow> ?fit"
    by (simp add: validate_contracts_def eachE_iff)
  have "check_definition ar p = Inr () \<longleftrightarrow> distinct (map sd_name (pd_steps p)) \<and>
      (\<forall>s \<in> set (pd_steps p). agent_exists (sd_agent s) ar) \<and>
      set (concat (map sd_depends_on (pd_steps p))) \<subseteq> sd_name ` set (pd_steps p) \<and>
      (\<forall>g ind. build_graph p = Inr (g, ind) \<longrightarrow> validate_dag g ind p = Inr ()) \<and>
      (\<exists>st. build_graph p = Inr st) \<and> ?fit"
    unfolding check_definition_def Let_def u [symmetric] a [symmetric] d [symmetric] c [symmetric]
    by (cases "build_graph p") (auto simp: returns_iff)
  with validate_dag_iff [of p] have "check_definition ar p = Inr () \<longleftrightarrow> distinct (map sd_name (pd_steps p)) \<and>
      (\<forall>s \<in> set (pd_steps p). agent_exists (sd_agent s) ar \<and> set (sd_depends_on s) \<subseteq> sd_name ` set (pd_steps p)) \<and>
      acyclic (registry_deps p) \<and> ?fit" by (auto; fastforce)
  moreover have "?fit \<longleftrightarrow> (\<forall>s \<in> set (pd_steps p). \<not> sd_depends_on_explicit s \<longrightarrow> contracts_fit ar p s)"
    if "distinct (map sd_name (pd_steps p))" "\<forall>s \<in> set (pd_steps p). set (sd_depends_on s) \<subseteq> sd_name ` set (pd_steps p)"
    using validate_step_contracts_iff [OF that(1)] that(2) by blast
  ultimately show ?thesis by blast
qed

definition steps_pipeline :: "step_definition list \<Rightarrow> pipeline_definition" where
  "steps_pipeline steps = \<lparr>pd_pipeline_name = ''p'', pd_description = PStr [], pd_triggers = [],
     pd_logging = [], pd_steps = steps, pd_loops = []\<rparr>"

lemma steps_pipeline_sel [simp]: "pd_steps (steps_pipeline steps) = steps"
  by (simp add: steps_pipeline_def)

lemma simple_step_fields [simp]:
  "sd_name (simple_step n a) = n" "sd_agent (simple_step n a) = a" "sd_depends_on (simple_step n a) = []"
  "sd_input_mapping (simple_step n a) = []" "sd_output_mapping (simple_step n a) = PNone"
  by (simp_all add: simple_step_def)


theorem check_definition_correct_witness:
  "\<exists>ar. register_agents (\<lambda>_. True) \<lparr>ar_agents = [], ar_contracts = None\<rparr> = Inr ar \<and>
     check_definition ar (steps_pipeline [simple_step ''a'' ''fix_agent'']) = Inr () \<and>
     check_definition ar (steps_pipeline [simple_step ''a'' ''nobody'']) \<noteq> Inr ()"
proof -
  obtain ar where ar: "register_agents (\<lambda>_. True) \<lparr>ar_agents = [], ar_contracts = None\<rparr> = Inr ar"
    using agents_register_all_returns [of "\<lambda>_. True" "core_agents @ support_agents" "\<lparr>ar_agents = [], ar_contracts = None\<rparr>"]
    by (auto simp: register_agents_def agent_get_def check_contracts_def core_agents_def support_agents_def mk_agent_def)
  note ex = register_agents_exists [OF ar]
  have "agent_exists ''fix_agent'' ar" "\<not> agent_exists ''nobody'' ar"
    unfolding ex by (simp_all add: core_agents_def support_agents_def mk_agent_def)
  moreover have "registry_deps (steps_pipeline [simple_step ''a'' ''fix_agent'']) = {}"
    by (auto simp: registry_deps_def)
  ultimately have "check_definition ar (steps_pipeline [simple_step ''a'' ''fix_agent'']) = Inr ()"
    and "check_definition ar (steps_pipeline [simple_step ''a'' ''nobody'']) \<noteq> Inr ()"
    unfolding check_definition_correct by (simp_all add: acyclic_def contracts_fit_def)
  with ar show ?thesis by blast
qed

subsection \<open>What the validators miss\<close>

lemma add_producer_unaffected:
  "sd_name s = sd_name t \<Longrightarrow> sd_output_mapping s = sd_output_mapping t \<Longrightarrow> add_producer s = add_producer t"
  by (simp add: add_producer_def fun_eq_iff)

lemma fold_step_replaced:
  "f s = f t \<Longrightarrow> fold f (pre @ s # post) x = fold f (pre @ t # post) x"
  by simp

text \<open>A dependency on a step that does not exist changes no message of the pipeline
  validator: it is never reported.\<close>

theorem unknown_dependency_unreported:
  assumes "d \<notin> sd_name ` set (pre @ s # post)"
  shows "pipeline_validate has_agent (steps_pipeline (pre @ s\<lparr>sd_depends_on := sd_depends_on s @ [d]\<rparr> # post)) =
    pipeline_validate has_agent (steps_pipeline (pre @ s # post))"
proof -
  let ?t = "s\<lparr>sd_depends_on := sd_depends_on s @ [d]\<rparr>"
  let ?p = "steps_pipeline (pre @ s # post)" and ?q = "steps_pipeline (pre @ ?t # post)"
  have n: "pd_pipeline_name ?q = pd_pipeline_name ?p" by (simp add: steps_pipeline_def)
  have names: "map sd_name (pd_steps ?q) = map sd_name (pd_steps ?p)" by simp
  have prods: "producer_by_key (pd_steps ?q) = producer_by_key (pd_steps ?p)"
    unfolding producer_by_key_def steps_pipeline_sel
    by (rule fold_step_replaced) (rule add_producer_unaffected; simp)
  have "count_name ?t = count_name s" by (simp add: count_name_def fun_eq_iff)
  then have 1: "validate_step_uniqueness ?q = validate_step_uniqueness ?p"
    unfolding validate_step_uniqueness_def count_names_def n by simp
  have 2: "validate_agent_existence has_agent ?q = validate_agent_existence has_agent ?p"
    by (simp add: validate_agent_existence_def)
  have d: "d \<noteq> sd_name s" "d \<notin> set (map sd_name (pd_steps ?p))" using assms by auto
  have deps: "explicit_deps (map sd_name (pd_steps ?p)) ?t @ implicit_deps prods ?t =
      explicit_deps (map sd_name (pd_steps ?p)) s @ implicit_deps prods s" for prods
    using d by (simp add: explicit_deps_def implicit_deps_def)
  have "build_dependency_graph ?q = build_dependency_graph ?p"
    unfolding build_dependency_graph_def Let_def prods names
    using deps by simp
  then have 3: "validate_dag_structure ?q = validate_dag_structure ?p"
    using d by (simp add: validate_dag_structure_def)
  have 4: "validate_contract_compatibility ?q = validate_contract_compatibility ?p"
    unfolding validate_contract_compatibility_def Let_def prods by simp
  show ?thesis unfolding pipeline_validate_def validation_messages_def 1 2 3 4 ..
qed

theorem unknown_dependency_unreported_witness:
  "pipeline_validate (\<lambda>_. True) (steps_pipeline [(simple_step ''a'' ''ok'')\<lparr>sd_depends_on := [''ghost'']\<rparr>]) = Inr []"
proof -
  have "validation_messages (\<lambda>_. True) (steps_pipeline [simple_step ''a'' ''ok'']) = []" by code_simp
  then have "pipeline_validate (\<lambda>_. True) (steps_pipeline ([] @ [simple_step ''a'' ''ok''])) = Inr []"
    by (simp add: pipeline_validate_def)
  with unknown_dependency_unreported [of "''ghost''" "[]" "simple_step ''a'' ''ok''" "[]" "\<lambda>_. True"]
  show ?thesis by simp
qed

text \<open>The agents' contracts play no part in the checks of a loaded definition: the
  loader marks every step that has dependencies as explicit, and the check skips explicit
  steps, so contracts of dependent steps are never compared.\<close>

theorem dependency_contracts_unchecked:
  assumes "parse_pipeline payload path = Inr p"
  shows "validate_contracts ar by_name p = validate_contracts ar' by_name' p"
proof -
  have "step_wf s" if "s \<in> set (pd_steps p)" for s
    using parsed_pipeline_wf [OF assms] that by (simp add: pipeline_wf_def)
  then have "sd_depends_on s = []" if "s \<in> set (pd_steps p)" "\<not> sd_depends_on_explicit s" for s
    using that by (auto simp: step_wf_def)
  then have "validate_step_contracts ar by_name p s = validate_step_contracts ar' by_name' p s"
    if "s \<in> set (pd_steps p)" for s
    using that by (auto simp: validate_step_contracts_def eachE_def)
  then show ?thesis unfolding validate_contracts_def by (intro eachE_cong) auto
qed

theorem dependency_contracts_unchecked_witness:
  "validate_contracts \<lparr>ar_agents = [], ar_contracts = None\<rparr> [] example_pipeline =
   validate_contracts \<lparr>ar_agents = [(''x'', mk_agent ''x'' ''X'' ''x'' None (Some ''out'') None),
       (''y'', mk_agent ''y'' ''Y'' ''y'' (Some ''in'') None None)], ar_contracts = None\<rparr>
     (index_steps example_pipeline) example_pipeline"
  by (rule dependency_contracts_unchecked [OF parse_example])

subsection \<open>Start-up\<close>

text \<open>Every cached definition is what its file holds and has passed the checks.\<close>

definition cache_checked :: "file_system \<Rightarrow> agent_registry \<Rightarrow> pipeline_registry \<Rightarrow> bool" where
  "cache_checked fs ar r \<longleftrightarrow> (\<forall>n p. get_pipeline_definition n r = Some p \<longrightarrow>
     (\<exists>m. get_metadata n r = Some m \<and> read_file_pipeline default_loader fs (pm_path m) = Inr p) \<and>
     check_definition ar p = Inr ())"

lemma load_and_validate_checked:
  assumes "load_and_validate_pipeline fs n ar r = Inr (p, r')" "cache_checked fs ar r"
  shows "cache_checked fs ar r' \<and> get_pipeline_definition n r' = Some p \<and> pr_pipelines r' = pr_pipelines r \<and>
    (\<forall>k q. get_pipeline_definition k r = Some q \<longrightarrow> get_pipeline_definition k r' = Some q)"
proof (cases "get_pipeline_definition n r")
  case (Some q)
  then show ?thesis using assms by (simp add: load_and_validate_pipeline_def)
next
  case None
  then obtain m where m: "get_metadata n r = Some m" "read_file_pipeline default_loader fs (pm_path m) = Inr p"
    "check_definition ar p = Inr ()" "r' = register_pipeline_definition n p r"
    using assms(1) by (auto simp: load_and_validate_pipeline_def returns_iff split: option.splits)
  have "get_metadata k r' = get_metadata k r" for k
    by (simp add: m(4) get_metadata_def register_pipeline_definition_def)
  moreover have "get_pipeline_definition k r' = (if k = n then Some p else get_pipeline_definition k r)" for k
    by (simp add: m(4))
  moreover have "pr_pipelines r' = pr_pipelines r" by (simp add: m(4) register_pipeline_definition_def)
  ultimately show ?thesis using assms(2) m(1-3) None by (auto simp: cache_checked_def)
qed

lemma validate_all_checked:
  assumes "foldE (validate_registered fs ar) names r = Inr r'" "cache_checked fs ar r"
  shows "cache_checked fs ar r' \<and> pr_pipelines r' = pr_pipelines r \<and>
    (\<forall>k. (k \<in> set names \<or> get_pipeline_definition k r \<noteq> None) \<longrightarrow> get_pipeline_definition k r' \<noteq> None)"
  using assms
proof (induction names arbitrary: r)
  case (Cons n names)
  from Cons.prems(1) obtain r1 where r1: "validate_registered fs ar n r = Inr r1"
    and rest: "foldE (validate_registered fs ar) names r1 = Inr r'" by (auto simp: returns_iff)
  obtain p where p: "load_and_validate_pipeline fs n ar r = Inr (p, r1)"
    using r1 by (auto simp: validate_registered_def split: sum.splits prod.splits)
  note c = load_and_validate_checked [OF p Cons.prems(2)]
  from Cons.IH [OF rest conjunct1 [OF c]] c show ?case by auto
qed auto

lemma init_registries_from_scratch:
  assumes "init_registries is_agent_class schemas fs dir listing None None None = Inr (cr, ar, pr)"
  shows "pipeline_list pr = map (pipeline_file_metadata dir) (filter is_pipeline_file listing) \<and>
    cache_checked fs ar pr \<and>
    (\<forall>m \<in> set (pipeline_list pr). get_metadata (pm_name m) pr = Some m \<and> get_pipeline_definition (pm_name m) pr \<noteq> None)"
proof -
  obtain pr0 where a: "autoload_pipelines dir listing empty_pipeline_registry = Inr pr0"
    and v: "foldE (validate_registered fs ar) (map pm_name (pipeline_list pr0)) pr0 = Inr pr"
    using assms by (auto simp: init_registries_def returns_iff)
  note f = a [unfolded autoload_pipelines_register]
  have "pipelines.faithful empty_pipeline_registry"
    by (simp add: pipelines.faithful_def empty_pipeline_registry_def get_metadata_def pipeline_list_def)
  from pipelines.faithful_register_all [OF this f] have faith: "pipelines.faithful pr0" .
  have mem: "pipeline_list pr0 = map (pipeline_file_metadata dir) (filter is_pipeline_file listing)"
    using pipelines.register_all_members [OF f] by (simp add: pipeline_list_def empty_pipeline_registry_def)
  have unl: "pr_loaded r' = pr_loaded r" if "foldE pipeline_register ms r = Inr r'" for ms r r'
    using that by (induction ms arbitrary: r) (auto simp: pipeline_register_def returns_iff split: if_splits)
  have "cache_checked fs ar pr0"
    using unl [OF f] by (simp add: cache_checked_def get_pipeline_definition_def empty_pipeline_registry_def)
  note w = validate_all_checked [OF v this]
  then have "pipeline_list pr = pipeline_list pr0" "\<And>k. get_metadata k pr = get_metadata k pr0"
    by (simp_all add: pipeline_list_def get_metadata_def)
  with w faith mem show ?thesis by (auto simp: pipelines.faithful_def simp del: imp_disjL)
qed

text \<open>When the registries start up, every pipeline file of the directory is registered
  under its own name, its definition is cached, it is the definition its file holds, and
  it has passed all checks against the registered agents.\<close>

theorem init_registries_validated:
  assumes "init_registries is_agent_class schemas fs dir listing None None None = Inr (cr, ar, pr)"
    and "f \<in> set listing" "is_pipeline_file f"
  shows "\<exists>p. get_pipeline_definition (pm_name (pipeline_file_metadata dir f)) pr = Some p \<and>
    read_file_pipeline default_loader fs (path_join dir f) = Inr p \<and> check_definition ar p = Inr ()"
proof -
  let ?m = "pipeline_file_metadata dir f"
  note i = init_registries_from_scratch [OF assms(1)]
  have "?m \<in> set (pipeline_list pr)" using i assms(2, 3) by auto
  then have "get_metadata (pm_name ?m) pr = Some ?m" "get_pipeline_definition (pm_name ?m) pr \<noteq> None"
    using i by blast+
  then obtain p where p: "get_pipeline_definition (pm_name ?m) pr = Some p"
    and m: "get_metadata (pm_name ?m) pr = Some ?m" by blast
  have "(\<exists>m. get_metadata (pm_name ?m) pr = Some m \<and> read_file_pipeline default_loader fs (pm_path m) = Inr p) \<and>
      check_definition ar p = Inr ()"
    using i p unfolding cache_checked_def by blast
  with m p show ?thesis by (simp add: pipeline_file_metadata_def)
qed

text \<open>A pipeline file with the extension \<open>.yml\<close> is registered but can never be loaded
  by the start-up, which looks for its path with \<open>.yaml\<close> appended below \<open>pipelines\<close>: with
  such a file in the directory the start-up fails.\<close>

theorem yml_pipeline_breaks_startup:
  assumes "n @ ''.yml'' \<in> set listing" "CHR ''/'' \<notin> set n" "n \<noteq> []"
    and "\<not> fs_exists fs (path_str (path_join ''pipelines'' (path_join dir (n @ ''.yml'') @ ''.yaml'')))"
  shows "init_registries is_agent_class schemas fs dir listing None None None \<noteq> Inr result"
proof
  assume r: "init_registries is_agent_class schemas fs dir listing None None None = Inr result"
  obtain cr ar pr where res: "result = (cr, ar, pr)" by (cases result) auto
  have "is_pipeline_file (n @ ''.yml'')" by (simp add: is_pipeline_file_def ends_with_def)
  from init_registries_validated [OF r [unfolded res] assms(1) this] obtain p
    where p: "read_file_pipeline default_loader fs (path_join dir (n @ ''.yml'')) = Inr p" by blast
  obtain ps where "path_parts (path_join dir (n @ ''.yml'')) = ps @ [n @ ''.yml'']"
    using path_parts_join [of "n @ ''.yml''" dir] assms(2) by auto
  moreover have "name_split (n @ ''.yml'') = (n, ''.yml'')"
    using assms(3) by (simp add: name_split_def Let_def)
  ultimately have "path_suffix (path_join dir (n @ ''.yml'')) = ''.yml''"
    by (simp add: path_suffix_def path_name_def)
  then have "resolve_pipeline_path default_loader (path_join dir (n @ ''.yml''))
      = path_str (path_join ''pipelines'' (path_join dir (n @ ''.yml'') @ ''.yaml''))"
    by (simp add: resolve_pipeline_path_def default_loader_def)
  with p assms(4) show False
    by (auto simp: read_file_pipeline_def loader_load_def load_from_file_def Let_def returns_iff)
qed

definition contract_files :: "(string \<times> string \<times> (exn + pyval)) list" where
  "contract_files = map (\<lambda>c. (c, c @ ''.schema.json'', Inr (PDict [])))
     [''context.dod.v1'', ''context.spec.v1'', ''context.tests.v1'']"

lemma check_no_steps: "check_definition ar (plain_pipeline n) = Inr ()"
  by (simp add: check_definition_def plain_pipeline_def validate_unique_steps_def validate_agents_exist_def
      validate_dependencies_exist_def build_graph_def validate_dag_def kahn_run.simps validate_contracts_def
      eachE_def Let_def)

theorem init_registries_validated_witness:
  "\<exists>cr ar pr p. init_registries (\<lambda>_. True) contract_files labelled_fs ''pipelines'' [''notes.txt'', ''a.yaml''] None None None
       = Inr (cr, ar, pr) \<and>
     get_pipeline_definition ''a'' pr = Some p \<and> pd_pipeline_name p = ''pipelines/a.yaml''"
proof -
  let ?f = "''a.yaml''"
  have "case autoload_schemas contract_files [] of Inl _ \<Rightarrow> False | Inr cr \<Rightarrow>
      (\<forall>c \<in> {''context.dod.v1'', ''context.spec.v1'', ''context.tests.v1''}. contract_exists c cr)" by code_simp
  then obtain cr where cr: "autoload_schemas contract_files [] = Inr cr"
    and c: "\<forall>c \<in> {''context.dod.v1'', ''context.spec.v1'', ''context.tests.v1''}. contract_exists c cr" by (auto split: sum.splits)
  obtain ar where ar: "register_agents (\<lambda>_. True) \<lparr>ar_agents = [], ar_contracts = Some cr\<rparr> = Inr ar"
    using agents_register_all_returns [of "\<lambda>_. True" "core_agents @ support_agents" "\<lparr>ar_agents = [], ar_contracts = Some cr\<rparr>"] c
    by (auto simp: register_agents_def agent_get_def check_contracts_def unknown_contract_def
        core_agents_def support_agents_def mk_agent_def)
  let ?m = "pipeline_file_metadata ''pipelines'' ?f"
  let ?r = "\<lparr>pr_pipelines = [(''a'', ?m)], pr_loaded = [], pr_versions = []\<rparr>"
  have pr: "autoload_pipelines ''pipelines'' [''notes.txt'', ?f] empty_pipeline_registry = Inr ?r"
    and s: "py_strip (resolve_pipeline_path default_loader (pm_path ?m)) \<noteq> []"
    and q: "resolve_pipeline_path default_loader (pm_path ?m) = ''pipelines/a.yaml''"
    and n: "pm_name ?m = ''a''" by code_simp+
  have "read_file_pipeline default_loader labelled_fs (pm_path ?m) = Inr (plain_pipeline ''pipelines/a.yaml'')"
    using parse_plain_payload [OF s] q
    by (simp add: read_file_pipeline_def loader_load_def load_from_file_def read_pipeline_def labelled_fs_def
        Let_def plain_payload_def)
  then have "validate_registered labelled_fs ar ''a'' ?r =
      Inr (register_pipeline_definition ''a'' (plain_pipeline ''pipelines/a.yaml'') ?r)"
    by (simp add: validate_registered_def load_and_validate_pipeline_def get_pipeline_definition_def
        get_metadata_def check_no_steps)
  then have i: "init_registries (\<lambda>_. True) contract_files labelled_fs ''pipelines'' [''notes.txt'', ?f] None None None
      = Inr (cr, ar, register_pipeline_definition ''a'' (plain_pipeline ''pipelines/a.yaml'') ?r)"
    by (simp add: init_registries_def cr ar pr pipeline_list_def n)
  have "is_pipeline_file ?f" by code_simp
  from init_registries_validated [OF i _ this] i n show ?thesis by (auto simp: plain_pipeline_def)
qed

theorem yml_pipeline_breaks_startup_witness:
  "\<not> (\<exists>result. init_registries (\<lambda>_. True) contract_files (labelled_fs\<lparr>fs_exists := \<lambda>p. p = ''pipelines/a.yml''\<rparr>)
       ''pipelines'' [''a.yml''] None None None = Inr result)"
proof -
  let ?fs = "labelled_fs\<lparr>fs_exists := \<lambda>p. p = ''pipelines/a.yml''\<rparr>"
  have "path_str (path_join ''pipelines'' (path_join ''pipelines'' (''a'' @ ''.yml'') @ ''.yaml''))
      = ''pipelines/pipelines/a.yml.yaml''" by code_simp
  then have "\<not> fs_exists ?fs (path_str (path_join ''pipelines'' (path_join ''pipelines'' (''a'' @ ''.yml'') @ ''.yaml'')))"
    by simp
  from yml_pipeline_breaks_startup [of "''a''" "[''a.yml'']" ?fs "''pipelines''" "\<lambda>_. True" contract_files, OF _ _ _ this]
  show ?thesis by simp
qed

text \<open>A definition that a loader with the registry has loaded is returned by
  \<open>load_and_validate_pipeline\<close> without any check, valid or not.\<close>

theorem loader_bypasses_validation:
  assumes "loader_load l fs name (Some r) = Inr (p, Some r')"
    and "is_pipeline_name name" "CHR ''/'' \<notin> set name" "name \<noteq> []"
  shows "load_and_validate_pipeline fs' name ar r' = Inr (p, r')"
  using loaded_definition_known [OF assms] by (simp add: load_and_validate_pipeline_def)

theorem loader_bypasses_validation_witness:
  "\<exists>p r'. loader_load default_loader (labelled_fs\<lparr>fs_read_yaml := \<lambda>_. Inr example_payload\<rparr>) ''build''
       (Some empty_pipeline_registry) = Inr (p, Some r') \<and>
     load_and_validate_pipeline labelled_fs ''build'' \<lparr>ar_agents = [], ar_contracts = None\<rparr> r' = Inr (p, r') \<and>
     check_definition \<lparr>ar_agents = [], ar_contracts = None\<rparr> p \<noteq> Inr ()"
proof -
  let ?fs = "labelled_fs\<lparr>fs_read_yaml := \<lambda>_. Inr example_payload\<rparr>"
  have n: "is_pipeline_name ''build''" "CHR ''/'' \<notin> set ''build''" "''build'' \<noteq> []" by code_simp+
  have "parse_pipeline example_payload ''pipelines/build.yaml'' = Inr example_pipeline"
    and q: "resolve_pipeline_path default_loader ''build'' = ''pipelines/build.yaml''"
    and s: "path_str ''pipelines/build.yaml'' = ''pipelines/build.yaml''" by code_simp+
  then have l: "loader_load default_loader ?fs ''build'' (Some empty_pipeline_registry) = Inr (example_pipeline,
      Some (register_pipeline_definition (path_stem ''pipelines/build.yaml'') example_pipeline empty_pipeline_registry))"
    using n(1)
    by (simp add: loader_load_def load_from_file_def read_pipeline_def labelled_fs_def Let_def example_payload_def
        empty_pipeline_registry_def get_pipeline_definition_def get_metadata_def is_pipeline_name_def default_loader_def)
  have "validate_agents_exist \<lparr>ar_agents = [], ar_contracts = None\<rparr> example_pipeline \<noteq> Inr ()"
    by (simp add: validate_agents_exist_def example_pipeline_def agent_exists_def)
  then have "check_definition \<lparr>ar_agents = [], ar_contracts = None\<rparr> example_pipeline \<noteq> Inr ()"
    by (simp add: check_definition_def bindE_Inr_iff)
  with loader_bypasses_validation [OF l n] l show ?thesis by blast
qed

end
