(* ===== verification/Schema.thy ===== *)
theory Schema
  imports PyValue
begin

text \<open>
  \<open>orchestrator/validation.py\<close>: the structural validator for agent results and pipeline
  states. A schema is itself a JSON value. Where the code reads a schema entry of a
  shape JSON Schema does not have (a \<open>properties\<close> that is no object, a \<open>minimum\<close> that
  is no number), Python raises a \<open>TypeError\<close> or an \<open>AttributeError\<close>; both are
  \<open>malformed_schema\<close> here.
\<close>

subsection \<open>Type tests\<close>

fun is_number :: "pyval \<Rightarrow> bool" where
  "is_number (PInt _) = True" | "is_number (PFloat _) = True" | "is_number _ = False"

definition matches_type :: "pyval \<Rightarrow> string \<Rightarrow> bool" where
  "matches_type v t =
     (if t = ''object'' then is_dict v
      else if t = ''array'' then is_list v
      else if t = ''string'' then is_str v
      else if t = ''number'' then is_number v
      else if t = ''integer'' then (case v of PInt _ \<Rightarrow> True | _ \<Rightarrow> False)
      else if t = ''boolean'' then (case v of PBool _ \<Rightarrow> True | _ \<Rightarrow> False)
      else if t = ''null'' then v = PNone
      else True)"

definition malformed_schema :: exn where
  "malformed_schema = TypeError ''malformed schema''"

fun need_list :: "pyval \<Rightarrow> exn + pyval list" where
  "need_list (PList xs) = Inr xs" | "need_list _ = Inl malformed_schema"

fun need_dict :: "pyval \<Rightarrow> exn + dict" where
  "need_dict (PDict d) = Inr d" | "need_dict _ = Inl malformed_schema"

fun need_str :: "pyval \<Rightarrow> exn + string" where
  "need_str (PStr s) = Inr s" | "need_str _ = Inl malformed_schema"

fun need_num :: "pyval \<Rightarrow> exn + rat" where
  "need_num v = (case num_of v of Some r \<Rightarrow> Inr r | None \<Rightarrow> Inl malformed_schema)"

subsection \<open>The checks, in the order of the code\<close>

text \<open>\<open>type\<close>: one name or a list of names; an empty list allows everything.\<close>

definition expected_types :: "dict \<Rightarrow> exn + string list" where
  "expected_types sch = (case dget sch ''type'' of
     PNone \<Rightarrow> Inr []
   | PStr t \<Rightarrow> Inr [t]
   | t \<Rightarrow> bindE (need_list t) (mapE need_str))"

definition type_ok :: "pyval \<Rightarrow> string list \<Rightarrow> bool" where
  "type_ok v ts \<longleftrightarrow> ts = [] \<or> list_ex (matches_type v) ts"

definition in_list :: "pyval \<Rightarrow> pyval list \<Rightarrow> bool" where
  "in_list v xs = list_ex (py_eq v) xs"

text \<open>The three checks that end the validation of the value with one error.\<close>

definition type_error :: "(rat \<Rightarrow> string) \<Rightarrow> pyval \<Rightarrow> dict \<Rightarrow> string \<Rightarrow> exn + string option" where
  "type_error fstr v sch path =
     bindE (expected_types sch) (\<lambda>ts. Inr
       (if type_ok v ts then None
        else Some (path @ '': expected type '' @ py_repr fstr (dget sch ''type'') @ '', got ''
                   @ repr_string (type_name v))))"

definition enum_error :: "(rat \<Rightarrow> string) \<Rightarrow> pyval \<Rightarrow> dict \<Rightarrow> string \<Rightarrow> exn + string option" where
  "enum_error fstr v sch path =
     (case map_of sch ''enum'' of
        None \<Rightarrow> Inr None
      | Some e \<Rightarrow> bindE (need_list e) (\<lambda>xs. Inr
          (if in_list v xs then None
           else Some (path @ '': value '' @ py_repr fstr v @ '' is not in enum '' @ py_repr fstr e))))"

definition const_error :: "(rat \<Rightarrow> string) \<Rightarrow> pyval \<Rightarrow> dict \<Rightarrow> string \<Rightarrow> string option" where
  "const_error fstr v sch path =
     (case map_of sch ''const'' of
        None \<Rightarrow> None
      | Some c \<Rightarrow> if py_eq v c then None
                  else Some (path @ '': expected const '' @ py_repr fstr c @ '', got '' @ py_repr fstr v))"

definition shallow_error :: "(rat \<Rightarrow> string) \<Rightarrow> pyval \<Rightarrow> dict \<Rightarrow> string \<Rightarrow> exn + string option" where
  "shallow_error fstr v sch path =
     bindE (type_error fstr v sch path) (\<lambda>e1. case e1 of Some m \<Rightarrow> Inr (Some m) | None \<Rightarrow>
     bindE (enum_error fstr v sch path) (\<lambda>e2. case e2 of Some m \<Rightarrow> Inr (Some m) | None \<Rightarrow>
       Inr (const_error fstr v sch path)))"

text \<open>\<open>required\<close>, \<open>properties\<close> and \<open>additionalProperties\<close> of an object schema.\<close>

definition required_keys :: "dict \<Rightarrow> exn + string list" where
  "required_keys sch = bindE (need_list (dget_or sch ''required'' (PList []))) (mapE need_str)"

definition property_schemas :: "dict \<Rightarrow> exn + dict" where
  "property_schemas sch = need_dict (dget_or sch ''properties'' (PDict []))"

datatype key_rule = CheckWith pyval | Forbidden | Anything

definition key_rule_of :: "dict \<Rightarrow> dict \<Rightarrow> string \<Rightarrow> key_rule" where
  "key_rule_of sch props k =
     (case map_of props k of
        Some s \<Rightarrow> CheckWith s
      | None \<Rightarrow> (case dget_or sch ''additionalProperties'' (PBool True) of
          PBool False \<Rightarrow> Forbidden
        | PDict a \<Rightarrow> CheckWith (PDict a)
        | _ \<Rightarrow> Anything))"

definition missing_errors :: "string \<Rightarrow> dict \<Rightarrow> string list \<Rightarrow> string list" where
  "missing_errors path d ks =
     map (\<lambda>k. path @ ''.'' @ k @ '': required property is missing'') (filter (\<lambda>k. \<not> has_key d k) ks)"

text \<open>An optional lower bound: \<open>minItems\<close> and \<open>minLength\<close> go through \<open>int()\<close>.\<close>

definition min_count :: "dict \<Rightarrow> string \<Rightarrow> exn + int option" where
  "min_count sch k = (case dget sch k of
     PNone \<Rightarrow> Inr None | v \<Rightarrow> bindE (py_int v) (\<lambda>i. Inr (Some i)))"

definition below_count :: "int option \<Rightarrow> nat \<Rightarrow> bool" where
  "below_count b n = (case b of None \<Rightarrow> False | Some i \<Rightarrow> int n < i)"

definition num_bound :: "dict \<Rightarrow> string \<Rightarrow> exn + rat option" where
  "num_bound sch k = (case dget sch k of
     PNone \<Rightarrow> Inr None | v \<Rightarrow> bindE (need_num v) (\<lambda>r. Inr (Some r)))"

definition range_errors :: "(rat \<Rightarrow> string) \<Rightarrow> pyval \<Rightarrow> rat \<Rightarrow> dict \<Rightarrow> string \<Rightarrow> exn + string list" where
  "range_errors fstr v r sch path =
     bindE (num_bound sch ''minimum'') (\<lambda>lo.
     bindE (num_bound sch ''maximum'') (\<lambda>hi.
       Inr ((case lo of Some l \<Rightarrow> if r < l then [path @ '': expected value >= ''
                @ py_str fstr (dget sch ''minimum'') @ '', got '' @ py_str fstr v] else [] | None \<Rightarrow> [])
          @ (case hi of Some h \<Rightarrow> if r > h then [path @ '': expected value <= ''
                @ py_str fstr (dget sch ''maximum'') @ '', got '' @ py_str fstr v] else [] | None \<Rightarrow> []))))"

text \<open>The \<open>items\<close> schema counts only when it is an object.\<close>

definition item_schema :: "dict \<Rightarrow> pyval option" where
  "item_schema sch = (case dget sch ''items'' of PDict i \<Rightarrow> Some (PDict i) | _ \<Rightarrow> None)"

definition prop_path :: "string \<Rightarrow> string \<Rightarrow> string" where
  "prop_path path k = path @ ''.'' @ k"

definition item_path :: "string \<Rightarrow> nat \<Rightarrow> string" where
  "item_path path i = path @ ''['' @ nat_str i @ '']''"

lemma size_snd_less: "p \<in> set d \<Longrightarrow> size (snd p) < size (PDict d)"
  by (induction d) (auto simp: less_Suc_eq_le)

lemma size_item_less: "p \<in> set (enumerate n xs) \<Longrightarrow> size (snd p) < size (PList xs)"
proof (induction xs arbitrary: n)
  case (Cons x xs)
  then show ?case by (cases "p = (n, x)") (simp, fastforce)
qed simp

function (sequential) validate_against_schema ::
  "(rat \<Rightarrow> string) \<Rightarrow> pyval \<Rightarrow> pyval \<Rightarrow> string \<Rightarrow> exn + string list" where
  "validate_against_schema fstr v (PDict sch) path =
     bindE (shallow_error fstr v sch path) (\<lambda>err. case err of Some m \<Rightarrow> Inr [m] | None \<Rightarrow>
       (case v of
          PDict d \<Rightarrow>
            bindE (required_keys sch) (\<lambda>req.
            bindE (property_schemas sch) (\<lambda>props.
            bindE (mapE (\<lambda>p. case key_rule_of sch props (fst p) of
                      CheckWith s \<Rightarrow> validate_against_schema fstr (snd p) s (prop_path path (fst p))
                    | Forbidden \<Rightarrow> Inr [prop_path path (fst p) @ '': additional property is not allowed'']
                    | Anything \<Rightarrow> Inr []) d) (\<lambda>errs.
              Inr (missing_errors path d req @ concat errs))))
        | PList xs \<Rightarrow>
            bindE (min_count sch ''minItems'') (\<lambda>lo.
            bindE (case item_schema sch of
                     None \<Rightarrow> Inr []
                   | Some s \<Rightarrow> mapE (\<lambda>p. validate_against_schema fstr (snd p) s (item_path path (fst p)))
                                 (enumerate 0 xs)) (\<lambda>errs.
              Inr ((if below_count lo (length xs)
                    then [path @ '': expected at least '' @ py_str fstr (dget sch ''minItems'')
                          @ '' items, got '' @ nat_str (length xs)] else []) @ concat errs)))
        | PStr s \<Rightarrow>
            bindE (min_count sch ''minLength'') (\<lambda>lo.
              Inr (if below_count lo (length s)
                   then [path @ '': expected minimum length '' @ py_str fstr (dget sch ''minLength'')
                         @ '', got '' @ nat_str (length s)] else []))
        | PInt i \<Rightarrow> range_errors fstr v (of_int i) sch path
        | PFloat r \<Rightarrow> range_errors fstr v r sch path
        | _ \<Rightarrow> Inr []))"
| "validate_against_schema fstr v _ path = Inl malformed_schema"
  by pat_completeness auto

termination
  by (relation "measure (\<lambda>(f, v, s, p). size v)")
    (auto simp del: pyval.size dest: size_snd_less size_item_less)

subsection \<open>What conforming to a schema means\<close>

text \<open>
  The declarative reading: no error text, no order of the checks. The readers of the
  schema are those of the validator, so both agree on which schemas are malformed.
\<close>

definition shallow_ok :: "pyval \<Rightarrow> dict \<Rightarrow> bool" where
  "shallow_ok v sch \<longleftrightarrow>
     (\<exists>ts. expected_types sch = Inr ts \<and> type_ok v ts) \<and>
     (\<forall>e. map_of sch ''enum'' = Some e \<longrightarrow> (\<exists>xs. e = PList xs \<and> in_list v xs)) \<and>
     (\<forall>c. map_of sch ''const'' = Some c \<longrightarrow> py_eq v c)"

inductive conforms :: "pyval \<Rightarrow> pyval \<Rightarrow> bool" where
  conf_dict: "shallow_ok (PDict d) sch \<Longrightarrow> required_keys sch = Inr req \<Longrightarrow>
     property_schemas sch = Inr props \<Longrightarrow> (\<forall>k \<in> set req. has_key d k) \<Longrightarrow>
     (\<forall>p \<in> set d. key_rule_of sch props (fst p) \<noteq> Forbidden) \<Longrightarrow>
     (\<forall>p \<in> set d. \<forall>s. key_rule_of sch props (fst p) = CheckWith s \<longrightarrow> conforms (snd p) s) \<Longrightarrow>
     conforms (PDict d) (PDict sch)"
| conf_list: "shallow_ok (PList xs) sch \<Longrightarrow> min_count sch ''minItems'' = Inr lo \<Longrightarrow>
     \<not> below_count lo (length xs) \<Longrightarrow>
     (\<forall>s. item_schema sch = Some s \<longrightarrow> (\<forall>x \<in> set xs. conforms x s)) \<Longrightarrow>
     conforms (PList xs) (PDict sch)"
| conf_str: "shallow_ok (PStr s) sch \<Longrightarrow> min_count sch ''minLength'' = Inr lo \<Longrightarrow>
     \<not> below_count lo (length s) \<Longrightarrow> conforms (PStr s) (PDict sch)"
| conf_num: "shallow_ok v sch \<Longrightarrow> is_number v \<Longrightarrow> num_of v = Some r \<Longrightarrow>
     num_bound sch ''minimum'' = Inr lo \<Longrightarrow> num_bound sch ''maximum'' = Inr hi \<Longrightarrow>
     (\<forall>l. lo = Some l \<longrightarrow> l \<le> r) \<Longrightarrow> (\<forall>h. hi = Some h \<longrightarrow> r \<le> h) \<Longrightarrow> conforms v (PDict sch)"
| conf_other: "shallow_ok v sch \<Longrightarrow> v = PNone \<or> v = PBool b \<Longrightarrow> conforms v (PDict sch)"

inductive_cases conforms_dictE: "conforms (PDict d) s"
inductive_cases conforms_listE: "conforms (PList xs) s"
inductive_cases conforms_strE: "conforms (PStr t) s"
inductive_simps conforms_bad [simp]: "conforms v PNone" "conforms v (PBool b)" "conforms v (PInt i)"
  "conforms v (PFloat r)" "conforms v (PStr t)" "conforms v (PList xs)"
inductive_simps conforms_dict: "conforms (PDict d) (PDict sch)"
inductive_simps conforms_list: "conforms (PList xs) (PDict sch)"
inductive_simps conforms_str: "conforms (PStr s) (PDict sch)"
inductive_simps conforms_int: "conforms (PInt i) (PDict sch)"
inductive_simps conforms_float: "conforms (PFloat r) (PDict sch)"
inductive_simps conforms_none: "conforms PNone (PDict sch)"
inductive_simps conforms_bool: "conforms (PBool b) (PDict sch)"

lemma need_list_Inr [simp]: "need_list v = Inr xs \<longleftrightarrow> v = PList xs"
  by (cases v) auto

lemma shallow_error_iff:
  "shallow_error fstr v sch path = Inr None \<longleftrightarrow> shallow_ok v sch"
  by (auto simp: shallow_error_def shallow_ok_def type_error_def enum_error_def const_error_def
      returns_iff split: option.splits if_splits)

lemma range_errors_iff:
  "range_errors fstr v r sch path = Inr [] \<longleftrightarrow>
     (\<exists>lo hi. num_bound sch ''minimum'' = Inr lo \<and> num_bound sch ''maximum'' = Inr hi \<and>
        (\<forall>l. lo = Some l \<longrightarrow> l \<le> r) \<and> (\<forall>h. hi = Some h \<longrightarrow> r \<le> h))"
  by (cases "num_bound sch ''minimum''"; cases "num_bound sch ''maximum''")
    (auto simp: range_errors_def not_less split: option.splits)

lemma mapE_concat_Nil:
  "(\<exists>errs. mapE f xs = Inr errs \<and> concat errs = []) \<longleftrightarrow> (\<forall>x \<in> set xs. f x = Inr [])"
proof (induction xs)
  case (Cons x xs)
  show ?case
  proof
    assume "\<exists>errs. mapE f (x # xs) = Inr errs \<and> concat errs = []"
    then obtain e es where "f x = Inr e" "mapE f xs = Inr es" "e = []" "concat es = []"
      by (auto simp: returns_iff simp del: mapE_Inr_iff)
    with Cons.IH show "\<forall>y \<in> set (x # xs). f y = Inr []" by auto
  next
    assume all: "\<forall>y \<in> set (x # xs). f y = Inr []"
    with Cons.IH obtain es where "mapE f xs = Inr es" "concat es = []" by auto
    with all show "\<exists>errs. mapE f (x # xs) = Inr errs \<and> concat errs = []"
      by (intro exI [of _ "[] # es"]) (simp add: returns_iff del: mapE_Inr_iff)
  qed
qed simp

lemma stop_on_error_Nil:
  "bindE m (\<lambda>err. case err of None \<Rightarrow> k | Some msg \<Rightarrow> Inr [msg]) = Inr [] \<longleftrightarrow> m = Inr None \<and> k = Inr []"
  by (auto simp: returns_iff split: option.splits)

text \<open>The validator's answer on one value, given what it answers on the parts.\<close>

lemma validate_dict_Nil:
  "validate_against_schema fstr (PDict d) (PDict sch) path = Inr [] \<longleftrightarrow>
     shallow_ok (PDict d) sch \<and>
     (\<exists>req props. required_keys sch = Inr req \<and> property_schemas sch = Inr props \<and>
        (\<forall>k \<in> set req. has_key d k) \<and>
        (\<forall>p \<in> set d. key_rule_of sch props (fst p) \<noteq> Forbidden) \<and>
        (\<forall>p \<in> set d. \<forall>s. key_rule_of sch props (fst p) = CheckWith s \<longrightarrow>
           validate_against_schema fstr (snd p) s (prop_path path (fst p)) = Inr []))"
    (is "?lhs \<longleftrightarrow> ?rhs")
proof -
  let ?f = "\<lambda>props p. case key_rule_of sch props (fst p) of
      CheckWith s \<Rightarrow> validate_against_schema fstr (snd p) s (prop_path path (fst p))
    | Forbidden \<Rightarrow> Inr [prop_path path (fst p) @ '': additional property is not allowed'']
    | Anything \<Rightarrow> Inr []"
  have f: "?f props p = Inr [] \<longleftrightarrow> key_rule_of sch props (fst p) \<noteq> Forbidden \<and>
      (\<forall>s. key_rule_of sch props (fst p) = CheckWith s \<longrightarrow>
         validate_against_schema fstr (snd p) s (prop_path path (fst p)) = Inr [])" for props p
    by (cases "key_rule_of sch props (fst p)") auto
  have miss: "missing_errors path d req = [] \<longleftrightarrow> (\<forall>k \<in> set req. has_key d k)" for req
    by (auto simp: missing_errors_def filter_empty_conv)
  have "?lhs \<longleftrightarrow> shallow_ok (PDict d) sch \<and>
     (\<exists>req props. required_keys sch = Inr req \<and> property_schemas sch = Inr props \<and>
        missing_errors path d req = [] \<and>
        (\<exists>errs. mapE (?f props) d = Inr errs \<and> concat errs = []))"
    unfolding validate_against_schema.simps stop_on_error_Nil shallow_error_iff pyval.case
    by (auto simp: returns_iff simp del: mapE_Inr_iff)
  then show ?thesis unfolding mapE_concat_Nil miss f by blast
qed

lemma ball_enumerate: "(\<forall>p \<in> set (enumerate n xs). P (fst p) (snd p)) \<longleftrightarrow> (\<forall>i < length xs. P (n + i) (xs ! i))"
proof safe
  fix i assume all: "\<forall>p \<in> set (enumerate n xs). P (fst p) (snd p)" and "i < length xs"
  then have "(n + i, xs ! i) \<in> set (enumerate n xs)" by (simp add: in_set_enumerate_eq)
  with all show "P (n + i) (xs ! i)" by force
qed (auto simp: in_set_enumerate_eq le_iff_add)

lemma validate_list_Nil:
  "validate_against_schema fstr (PList xs) (PDict sch) path = Inr [] \<longleftrightarrow>
     shallow_ok (PList xs) sch \<and>
     (\<exists>lo. min_count sch ''minItems'' = Inr lo \<and> \<not> below_count lo (length xs)) \<and>
     (\<forall>s. item_schema sch = Some s \<longrightarrow> (\<forall>i < length xs.
        validate_against_schema fstr (xs ! i) s (item_path path i) = Inr []))"
    (is "?lhs \<longleftrightarrow> ?rhs")
proof -
  let ?items = "case item_schema sch of None \<Rightarrow> Inr []
    | Some s \<Rightarrow> mapE (\<lambda>p. validate_against_schema fstr (snd p) s (item_path path (fst p))) (enumerate 0 xs)"
  have items: "(\<exists>errs. ?items = Inr errs \<and> concat errs = []) \<longleftrightarrow>
      (\<forall>s. item_schema sch = Some s \<longrightarrow> (\<forall>i < length xs.
        validate_against_schema fstr (xs ! i) s (item_path path i) = Inr []))"
    by (cases "item_schema sch")
      (simp_all only: option.case option.simps mapE_concat_Nil ball_enumerate
        [where P = "\<lambda>i x. validate_against_schema fstr x s (item_path path i) = Inr []" for s],
       auto)
  have "?lhs \<longleftrightarrow> shallow_ok (PList xs) sch \<and>
     (\<exists>lo. min_count sch ''minItems'' = Inr lo \<and> \<not> below_count lo (length xs)) \<and>
     (\<exists>errs. ?items = Inr errs \<and> concat errs = [])"
    unfolding validate_against_schema.simps stop_on_error_Nil shallow_error_iff pyval.case
    by (auto simp: returns_iff simp del: mapE_Inr_iff split: if_splits)
  then show ?thesis unfolding items .
qed

lemma validate_conforms_aux:
  "validate_against_schema fstr v s path = Inr [] \<longleftrightarrow> conforms v s"
proof (induction v arbitrary: s path rule: measure_induct_rule [of size])
  case (less v)
  show ?case
  proof (cases s)
    case (PDict sch)
    show ?thesis
    proof (cases v)
      case (PDict d)
      have "validate_against_schema fstr (snd p) t q = Inr [] \<longleftrightarrow> conforms (snd p) t" if "p \<in> set d" for p t q
        using less.IH size_snd_less [OF that] PDict by blast
      then show ?thesis
        unfolding PDict \<open>s = pyval.PDict sch\<close> validate_dict_Nil conforms_dict by auto
    next
      case (PList xs)
      have "validate_against_schema fstr (xs ! i) t q = Inr [] \<longleftrightarrow> conforms (xs ! i) t"
        if "i < length xs" for i t q
        using less.IH [of "xs ! i"] size_item_less [of "(i, xs ! i)" 0 xs] that PList
        by (simp add: in_set_enumerate_eq)
      then show ?thesis
        unfolding PList \<open>s = pyval.PDict sch\<close> validate_list_Nil conforms_list
        by (auto simp: all_set_conv_all_nth)
    next
      case (PStr t)
      show ?thesis unfolding PStr \<open>s = pyval.PDict sch\<close> validate_against_schema.simps
          stop_on_error_Nil shallow_error_iff pyval.case conforms_str
        by (auto simp: returns_iff split: if_splits)
    qed (simp_all only: \<open>s = pyval.PDict sch\<close> validate_against_schema.simps
          stop_on_error_Nil shallow_error_iff pyval.case conforms_int conforms_float conforms_none
          conforms_bool range_errors_iff num_of.simps is_number.simps, auto)
  qed (simp_all)
qed

subsection \<open>Schemas the validator can read\<close>

definition reads_as :: "exn + 'a \<Rightarrow> bool" where
  "reads_as m \<longleftrightarrow> (case m of Inr _ \<Rightarrow> True | Inl _ \<Rightarrow> False)"

lemma reads_asE: "reads_as m \<Longrightarrow> (\<And>x. m = Inr x \<Longrightarrow> P) \<Longrightarrow> P"
  by (cases m) (auto simp: reads_as_def)

definition shallow_wf :: "dict \<Rightarrow> bool" where
  "shallow_wf sch \<longleftrightarrow> reads_as (expected_types sch) \<and>
     (case map_of sch ''enum'' of None \<Rightarrow> True | Some e \<Rightarrow> is_list e) \<and>
     reads_as (required_keys sch) \<and> reads_as (property_schemas sch) \<and>
     reads_as (min_count sch ''minItems'') \<and> reads_as (min_count sch ''minLength'') \<and>
     reads_as (num_bound sch ''minimum'') \<and> reads_as (num_bound sch ''maximum'')"

fun values_of :: "pyval \<Rightarrow> pyval list" where
  "values_of (PDict d) = map snd d" | "values_of _ = []"

fun only_dict :: "pyval \<Rightarrow> pyval list" where
  "only_dict (PDict d) = [PDict d]" | "only_dict _ = []"

definition sub_schemas :: "dict \<Rightarrow> pyval list" where
  "sub_schemas sch = values_of (dget sch ''properties'') @
     only_dict (dget sch ''additionalProperties'') @ only_dict (dget sch ''items'')"

lemma in_values_of: "s \<in> set (values_of v) \<longleftrightarrow> (\<exists>d. v = PDict d \<and> s \<in> snd ` set d)"
  by (cases v) auto

lemma in_only_dict: "s \<in> set (only_dict v) \<longleftrightarrow> v = s \<and> (\<exists>d. s = PDict d)"
  by (cases v) auto

lemma size_dget: "dget sch k = v \<Longrightarrow> v \<noteq> PNone \<Longrightarrow> size v < size (PDict sch)"
  by (auto simp: dget_def split: option.splits dest!: map_of_SomeD size_snd_less)

lemma sub_schemas_size: "s \<in> set (sub_schemas sch) \<Longrightarrow> size s < size (PDict sch)"
proof -
  assume "s \<in> set (sub_schemas sch)"
  then consider (p) props where "dget sch ''properties'' = PDict props" "s \<in> snd ` set props"
    | (q) k where "dget sch k = s" "s \<noteq> PNone"
    unfolding sub_schemas_def by (auto simp: in_values_of in_only_dict)
  then show ?thesis
  proof cases
    case p
    then have "size s < size (PDict props)" using size_snd_less by blast
    also have "\<dots> < size (PDict sch)" using size_dget [OF p(1)] by simp
    finally show ?thesis .
  qed (rule size_dget)
qed

function (sequential) schema_wf :: "pyval \<Rightarrow> bool" where
  "schema_wf (PDict sch) = (shallow_wf sch \<and> list_all schema_wf (sub_schemas sch))"
| "schema_wf _ = False"
  by pat_completeness auto

termination
  by (relation "measure size") (auto simp del: pyval.size dest: sub_schemas_size)

lemma schema_wf_parts:
  assumes "schema_wf (PDict sch)"
  shows "property_schemas sch = Inr props \<Longrightarrow> key_rule_of sch props k = CheckWith s \<Longrightarrow> schema_wf s"
    and "item_schema sch = Some s \<Longrightarrow> schema_wf s"
proof -
  have sub: "schema_wf t" if "t \<in> set (sub_schemas sch)" for t
    using assms that by (simp add: list_all_iff)
  {
  assume p: "property_schemas sch = Inr props" and k: "key_rule_of sch props k = CheckWith s"
  show "schema_wf s"
  proof (cases "map_of props k")
    case (Some t)
    then have "t = s" "(k, s) \<in> set props" using k by (auto simp: key_rule_of_def dest: map_of_SomeD)
    moreover have "dget sch ''properties'' = PDict props"
      using p calculation(2) by (auto simp: property_schemas_def dget_or_def dget_def
          split: option.splits elim: need_dict.elims)
    ultimately show ?thesis by (intro sub) (auto simp: sub_schemas_def intro: rev_image_eqI)
  next
    case None
    with k obtain a where "s = PDict a" "dget sch ''additionalProperties'' = PDict a"
      by (auto simp: key_rule_of_def dget_or_def dget_def split: option.splits pyval.splits bool.splits)
    then show ?thesis by (intro sub) (simp add: sub_schemas_def)
  qed
  }
  assume "item_schema sch = Some s"
  then show "schema_wf s"
    by (cases "dget sch ''items''") (auto simp: item_schema_def sub_schemas_def intro: sub)
qed

lemma bindE_reads: "reads_as m \<Longrightarrow> (\<And>x. m = Inr x \<Longrightarrow> reads_as (f x)) \<Longrightarrow> reads_as (bindE m f)"
  by (cases m) (auto simp: reads_as_def)

lemma reads_Inr [simp]: "reads_as (Inr x)"
  by (simp add: reads_as_def)

lemma mapE_reads: "(\<And>x. x \<in> set xs \<Longrightarrow> reads_as (f x)) \<Longrightarrow> reads_as (mapE f xs)"
  by (induction xs) (auto intro!: bindE_reads)

lemma shallow_error_reads: "shallow_wf sch \<Longrightarrow> reads_as (shallow_error fstr v sch path)"
  by (auto simp: shallow_wf_def shallow_error_def type_error_def enum_error_def
      intro!: bindE_reads split: option.splits elim!: is_list.elims)

lemma validate_reads_aux: "schema_wf s \<Longrightarrow> reads_as (validate_against_schema fstr v s path)"
proof (induction v arbitrary: s path rule: measure_induct_rule [of size])
  case (less v)
  then obtain sch where s: "s = PDict sch" by (cases s) auto
  have wf: "shallow_wf sch" using less.prems s by simp
  note parts = schema_wf_parts [OF less.prems [unfolded s]]
  show ?case unfolding s validate_against_schema.simps
  proof (rule bindE_reads [OF shallow_error_reads [OF wf]], goal_cases)
    case (1 err)
    show ?case
    proof (cases err)
      case None
      have "reads_as (validate_against_schema fstr (snd p) t q)"
        if "v = PDict d" "p \<in> set d" "schema_wf t" for d p t q
        using less.IH size_snd_less [OF that(2)] that by blast
      moreover have "reads_as (validate_against_schema fstr (snd p) t q)"
        if "v = PList xs" "p \<in> set (enumerate 0 xs)" "schema_wf t" for xs p t q
        using less.IH size_item_less [OF that(2)] that by blast
      ultimately show ?thesis
        using None wf parts unfolding shallow_wf_def
        by (auto intro!: bindE_reads mapE_reads simp: range_errors_def
            split: pyval.splits option.splits key_rule.splits)
    qed simp
  qed
qed

text \<open>Every error names the place: it starts with the path of the value.\<close>

lemma starts_with_append [simp]: "starts_with p (p @ q)"
  by (simp add: starts_with_iff)

lemma starts_with_path: "starts_with (prop_path path k) e \<Longrightarrow> starts_with path e"
  "starts_with (item_path path i) e \<Longrightarrow> starts_with path e"
  by (auto simp: starts_with_iff prop_path_def item_path_def)

lemma type_error_path: "type_error fstr v sch path = Inr (Some m) \<Longrightarrow> starts_with path m"
  by (auto simp: type_error_def returns_iff split: if_splits)

lemma enum_error_path: "enum_error fstr v sch path = Inr (Some m) \<Longrightarrow> starts_with path m"
  by (auto simp: enum_error_def returns_iff split: option.splits if_splits)

lemma const_error_path: "const_error fstr v sch path = Some m \<Longrightarrow> starts_with path m"
  by (auto simp: const_error_def split: option.splits if_splits)

lemma shallow_error_path:
  assumes "shallow_error fstr v sch path = Inr (Some m)"
  shows "starts_with path m"
proof -
  obtain e1 where e1: "type_error fstr v sch path = Inr e1" using assms
    by (auto simp only: shallow_error_def bindE_Inr_iff)
  show ?thesis
  proof (cases e1)
    case None
    then obtain e2 where e2: "enum_error fstr v sch path = Inr e2" using assms e1
      by (auto simp only: shallow_error_def bindE_Inr_iff bindE_simps option.case)
    show ?thesis using assms e1 e2 None enum_error_path [of fstr v sch path m] const_error_path [of fstr v sch path m]
      by (cases e2) (simp_all only: shallow_error_def bindE_simps option.case sum.inject)
  next
    case (Some a)
    then show ?thesis using assms e1 type_error_path [of fstr v sch path m]
      by (simp only: shallow_error_def bindE_simps option.case sum.inject)
  qed
qed

lemma range_errors_path:
  "range_errors fstr v r sch path = Inr es \<Longrightarrow> \<forall>e \<in> set es. starts_with path e"
  by (cases "num_bound sch ''minimum''"; cases "num_bound sch ''maximum''")
    (auto simp: range_errors_def split: option.splits if_splits)

lemma mapE_concat_all:
  assumes "mapE f xs = Inr errs" "e \<in> set (concat errs)"
  shows "\<exists>x \<in> set xs. \<exists>es. f x = Inr es \<and> e \<in> set es"
  using assms
proof (induction xs arbitrary: errs)
  case (Cons x xs)
  then obtain es rest where "f x = Inr es" "mapE f xs = Inr rest" "errs = es # rest"
    by (auto simp: bindE_Inr_iff)
  with Cons show ?case by (cases "e \<in> set es") auto
qed simp

lemma validate_path_aux:
  "validate_against_schema fstr v s path = Inr es \<Longrightarrow> e \<in> set es \<Longrightarrow> starts_with path e"
proof (induction v arbitrary: s path es rule: measure_induct_rule [of size])
  case (less v)
  then obtain sch where s: "s = PDict sch" by (cases s) auto
  obtain err where err: "shallow_error fstr v sch path = Inr err"
    using less.prems(1) by (auto simp only: s validate_against_schema.simps bindE_Inr_iff)
  note v0 = less.prems(1) [unfolded s validate_against_schema.simps err bindE_simps]
  show ?case
  proof (cases err)
    case (Some m)
    with v0 less.prems(2) shallow_error_path err show ?thesis by fastforce
  next
    case None
    note v1 = v0 [unfolded None option.case]
    show ?thesis
    proof (cases v)
      case (PDict d)
      obtain req props errs where es: "es = missing_errors path d req @ concat errs"
        and errs: "mapE (\<lambda>p. case key_rule_of sch props (fst p) of
            CheckWith s \<Rightarrow> validate_against_schema fstr (snd p) s (prop_path path (fst p))
          | Forbidden \<Rightarrow> Inr [prop_path path (fst p) @ '': additional property is not allowed'']
          | Anything \<Rightarrow> Inr []) d = Inr errs"
        using v1 unfolding PDict pyval.case by (auto simp only: bindE_Inr_iff sum.inject)
      from less.prems(2) es consider (a) "e \<in> set (missing_errors path d req)" | (b) "e \<in> set (concat errs)"
        by auto
      then show ?thesis
      proof cases
        case a
        then show ?thesis by (auto simp: missing_errors_def)
      next
        case b
        from mapE_concat_all [OF errs b] obtain p es' where p: "p \<in> set d" "e \<in> set es'"
          and "(case key_rule_of sch props (fst p) of
              CheckWith s \<Rightarrow> validate_against_schema fstr (snd p) s (prop_path path (fst p))
            | Forbidden \<Rightarrow> Inr [prop_path path (fst p) @ '': additional property is not allowed'']
            | Anything \<Rightarrow> Inr []) = Inr es'" by blast
        then have "starts_with (prop_path path (fst p)) e"
          using less.IH [of "snd p"] size_snd_less [OF p(1)] PDict by (auto split: key_rule.splits)
        then show ?thesis by (rule starts_with_path)
      qed
    next
      case (PList xs)
      obtain lo errs where es: "es = (if below_count lo (length xs)
          then [path @ '': expected at least '' @ py_str fstr (dget sch ''minItems'')
                @ '' items, got '' @ nat_str (length xs)] else []) @ concat errs"
        and errs: "(case item_schema sch of None \<Rightarrow> Inr []
          | Some s \<Rightarrow> mapE (\<lambda>p. validate_against_schema fstr (snd p) s (item_path path (fst p)))
              (enumerate 0 xs)) = Inr errs"
        using v1 unfolding PList pyval.case by (auto simp only: bindE_Inr_iff sum.inject)
      show ?thesis
      proof (cases "e \<in> set (concat errs)")
        case True
        then obtain t where "item_schema sch = Some t" using errs by (cases "item_schema sch") auto
        with mapE_concat_all [OF _ True] errs obtain p es' where p: "p \<in> set (enumerate 0 xs)" "e \<in> set es'"
          "validate_against_schema fstr (snd p) t (item_path path (fst p)) = Inr es'" by fastforce
        then have "starts_with (item_path path (fst p)) e"
          using less.IH [of "snd p"] size_item_less [OF p(1)] PList by blast
        then show ?thesis by (rule starts_with_path)
      next
        case False
        with less.prems(2) es show ?thesis by (auto split: if_splits)
      qed
    qed (use v1 less.prems(2) range_errors_path in \<open>auto simp: returns_iff split: if_splits\<close>)
  qed
qed

subsection \<open>The runtime validator\<close>

record schema_validator =
  sv_schemas :: "(string \<times> pyval) list"
  sv_strict :: bool

definition context_schema_by_artifact :: "(string \<times> string) list" where
  "context_schema_by_artifact =
     [(''dod'', ''context.dod.v1.schema.json''), (''spec'', ''context.spec.v1.schema.json''),
      (''tests'', ''context.tests.v1.schema.json''), (''code_patch'', ''context.code_patch.v1.schema.json'')]"

definition agent_result_schema_name :: string where
  "agent_result_schema_name = ''agent_result.v1.schema.json''"

definition pipeline_state_schema_name :: string where
  "pipeline_state_schema_name = ''pipeline_state.v1.schema.json''"

text \<open>
  \<open>_load_schemas\<close>: \<open>files\<close> are the parsed \<open>*.json\<close> files of the directory by name, or
  \<open>None\<close> when the directory is missing.
\<close>

definition load_schemas :: "string \<Rightarrow> (string \<times> pyval) list option \<Rightarrow> exn + (string \<times> pyval) list" where
  "load_schemas dir files =
     (case files of
        None \<Rightarrow> Inl (FileNotFoundError (''Schema directory not found: '' @ dir))
      | Some fs \<Rightarrow>
          (let schemas = dict_update fs [] in
           if map_of schemas agent_result_schema_name = None
           then Inl (FileNotFoundError (''Required schema not found: '' @ dir @ ''/'' @ agent_result_schema_name))
           else Inr schemas))"

definition validate_schema ::
  "(rat \<Rightarrow> string) \<Rightarrow> (string \<times> pyval) list \<Rightarrow> string \<Rightarrow> pyval \<Rightarrow> string \<Rightarrow> exn + string list" where
  "validate_schema fstr schemas name v path =
     (case dget schemas name of
        PNone \<Rightarrow> Inr [path @ '': schema is not configured ('' @ name @ '')'']
      | s \<Rightarrow> validate_against_schema fstr v s path)"

definition artifact_errors ::
  "(rat \<Rightarrow> string) \<Rightarrow> (string \<times> pyval) list \<Rightarrow> string \<Rightarrow> nat \<times> pyval \<Rightarrow> exn + string list" where
  "artifact_errors fstr schemas step_name = (\<lambda>(index, artifact).
     case artifact of
       PDict a \<Rightarrow>
         (case dget a ''type'' of
            PStr t \<Rightarrow>
              (case map_of context_schema_by_artifact t of
                 None \<Rightarrow> Inr []
               | Some name \<Rightarrow> validate_schema fstr schemas name (dget a ''content'')
                   (''step['' @ step_name @ ''].artifacts['' @ nat_str index @ ''].content''))
          | _ \<Rightarrow> Inr [])
     | _ \<Rightarrow> Inr [])"

definition raise_if_strict :: "bool \<Rightarrow> string list \<Rightarrow> exn + string list" where
  "raise_if_strict strict errors =
     (if errors \<noteq> [] \<and> strict
      then Inl (SchemaValidationError (''Schema validation failed: '' @ join ''; '' errors))
      else Inr errors)"

definition validate_step_output ::
  "(rat \<Rightarrow> string) \<Rightarrow> schema_validator \<Rightarrow> string \<Rightarrow> dict \<Rightarrow> exn + string list" where
  "validate_step_output fstr sv step_name output =
     bindE (validate_schema fstr (sv_schemas sv) agent_result_schema_name (PDict output)
              (''step['' @ step_name @ '']'')) (\<lambda>errs1.
     bindE (case dget_or output ''artifacts'' (PList []) of
              PList arts \<Rightarrow> bindE (mapE (artifact_errors fstr (sv_schemas sv) step_name) (enumerate 0 arts))
                               (\<lambda>ess. Inr (concat ess))
            | _ \<Rightarrow> Inr []) (\<lambda>errs2.
       raise_if_strict (sv_strict sv) (errs1 @ errs2)))"

definition validate_pipeline_state ::
  "(rat \<Rightarrow> string) \<Rightarrow> schema_validator \<Rightarrow> dict \<Rightarrow> exn + string list" where
  "validate_pipeline_state fstr sv payload =
     bindE (validate_schema fstr (sv_schemas sv) pipeline_state_schema_name (PDict payload) ''pipeline_state'')
       (raise_if_strict (sv_strict sv))"

text \<open>A strict validator reports no errors: it returns the empty list or raises.\<close>

lemma raise_if_strict_Inr:
  "raise_if_strict strict es = Inr es' \<longleftrightarrow> es' = es \<and> (strict \<longrightarrow> es = [])"
  by (auto simp: raise_if_strict_def)

lemma validate_schema_Nil:
  "validate_schema fstr schemas name v path = Inr [] \<longleftrightarrow> conforms v (dget schemas name)"
  by (cases "dget schemas name")
    (simp_all add: validate_schema_def validate_conforms_aux del: validate_against_schema.simps)

definition artifact_conforms :: "(string \<times> pyval) list \<Rightarrow> pyval \<Rightarrow> bool" where
  "artifact_conforms schemas artifact \<longleftrightarrow>
     (\<forall>a t name. artifact = PDict a \<longrightarrow> dget a ''type'' = PStr t \<longrightarrow>
        map_of context_schema_by_artifact t = Some name \<longrightarrow>
        conforms (dget a ''content'') (dget schemas name))"

lemma artifact_errors_Nil:
  "artifact_errors fstr schemas step_name (i, a) = Inr [] \<longleftrightarrow> artifact_conforms schemas a"
proof (cases a)
  case (PDict d)
  then show ?thesis
    by (cases "dget d ''type''")
      (auto simp: artifact_errors_def artifact_conforms_def validate_schema_Nil split: option.splits)
qed (simp_all add: artifact_errors_def artifact_conforms_def)

lemma validate_step_output_Nil:
  "validate_step_output fstr sv name output = Inr [] \<longleftrightarrow>
     conforms (PDict output) (dget (sv_schemas sv) agent_result_schema_name) \<and>
     (\<forall>arts. dget_or output ''artifacts'' (PList []) = PList arts \<longrightarrow>
        (\<forall>a \<in> set arts. artifact_conforms (sv_schemas sv) a))"
proof -
  let ?arts = "case dget_or output ''artifacts'' (PList []) of
      PList arts \<Rightarrow> bindE (mapE (artifact_errors fstr (sv_schemas sv) name) (enumerate 0 arts))
                       (\<lambda>ess. Inr (concat ess))
    | _ \<Rightarrow> Inr []"
  have a: "?arts = Inr [] \<longleftrightarrow> (\<forall>arts. dget_or output ''artifacts'' (PList []) = PList arts \<longrightarrow>
        (\<forall>a \<in> set arts. artifact_conforms (sv_schemas sv) a))"
  proof (cases "dget_or output ''artifacts'' (PList [])")
    case (PList arts)
    have "?arts = Inr [] \<longleftrightarrow> (\<forall>x \<in> set (enumerate 0 arts). artifact_errors fstr (sv_schemas sv) name x = Inr [])"
      unfolding PList pyval.case bindE_Inr_iff sum.inject by (rule mapE_concat_Nil)
    also have "\<dots> \<longleftrightarrow> (\<forall>x \<in> set (enumerate 0 arts). artifact_conforms (sv_schemas sv) (snd x))"
      using artifact_errors_Nil by (metis prod.collapse)
    also have "\<dots> \<longleftrightarrow> (\<forall>a \<in> set arts. artifact_conforms (sv_schemas sv) a)"
      using ball_enumerate [of 0 arts "\<lambda>_. artifact_conforms (sv_schemas sv)"]
      by (simp add: all_set_conv_all_nth)
    finally show ?thesis using PList by simp
  qed simp_all
  have "validate_step_output fstr sv name output = Inr [] \<longleftrightarrow>
      validate_schema fstr (sv_schemas sv) agent_result_schema_name (PDict output) (''step['' @ name @ '']'') = Inr [] \<and>
      ?arts = Inr []"
    unfolding validate_step_output_def bindE_Inr_iff raise_if_strict_Inr by auto
  then show ?thesis unfolding a validate_schema_Nil .
qed

subsection \<open>The shipped schemas (\<open>contracts/schemas\<close>)\<close>

definition agent_result_schema :: pyval where
  "agent_result_schema = PDict [(''$schema'', PStr ''https://json-schema.org/draft/2020-12/schema''),
     (''$id'', PStr ''https://hordeforge.local/schemas/agent_result.v1.schema.json''),
     (''title'', PStr ''AgentResult v1''), (''type'', PStr ''object''),
     (''additionalProperties'', PBool False),
     (''required'', PList [PStr ''status'', PStr ''artifacts'', PStr ''decisions'', PStr ''logs'', PStr ''next_actions'']),
     (''properties'', PDict [(''schema_version'', PDict [(''type'', PStr ''string''),
     (''const'', PStr ''1.0'')]), (''status'', PDict [(''type'', PStr ''string''),
     (''enum'', PList [PStr ''SUCCESS'', PStr ''PARTIAL_SUCCESS'', PStr ''FAILED'', PStr ''BLOCKED''])]),
     (''artifacts'', PDict [(''type'', PStr ''array''),
     (''items'', PDict [(''type'', PStr ''object''), (''additionalProperties'', PBool False),
     (''required'', PList [PStr ''type'', PStr ''content'']),
     (''properties'', PDict [(''type'', PDict [(''type'', PStr ''string''),
     (''minLength'', PInt 1)]), (''path'', PDict [(''type'', PStr ''string'')]),
     (''content'', PDict []), (''metadata'', PDict [(''type'', PStr ''object'')])])])]),
     (''decisions'', PDict [(''type'', PStr ''array''),
     (''items'', PDict [(''type'', PStr ''object''), (''additionalProperties'', PBool False),
     (''required'', PList [PStr ''reason'', PStr ''confidence'']),
     (''properties'', PDict [(''reason'', PDict [(''type'', PStr ''string''),
     (''minLength'', PInt 1)]), (''confidence'', PDict [(''type'', PStr ''number''),
     (''minimum'', PInt 0), (''maximum'', PInt 1)])])])]),
     (''logs'', PDict [(''type'', PStr ''array''),
     (''items'', PDict [(''type'', PStr ''string'')])]),
     (''next_actions'', PDict [(''type'', PStr ''array''),
     (''items'', PDict [(''type'', PStr ''string'')])]),
     (''validation_errors'', PDict [(''type'', PStr ''array''),
     (''items'', PDict [(''type'', PStr ''string'')])]),
     (''test_results'', PDict [(''type'', PStr ''object''), (''additionalProperties'', PBool False),
     (''required'', PList [PStr ''total'', PStr ''passed'', PStr ''failed'']),
     (''properties'', PDict [(''total'', PDict [(''type'', PStr ''integer''),
     (''minimum'', PInt 0)]), (''passed'', PDict [(''type'', PStr ''integer''),
     (''minimum'', PInt 0)]), (''failed'', PDict [(''type'', PStr ''integer''),
     (''minimum'', PInt 0)]), (''mode'', PDict [(''type'', PStr ''string'')])])])])]"

definition spec_schema :: pyval where
  "spec_schema = PDict [(''$schema'', PStr ''https://json-schema.org/draft/2020-12/schema''),
     (''$id'', PStr ''https://hordeforge.local/schemas/context.spec.v1.schema.json''),
     (''title'', PStr ''Specification Context v1''), (''type'', PStr ''object''),
     (''additionalProperties'', PBool False),
     (''required'', PList [PStr ''schema_version'', PStr ''summary'', PStr ''requirements'']),
     (''properties'', PDict [(''schema_version'', PDict [(''type'', PStr ''string''),
     (''const'', PStr ''1.0'')]), (''summary'', PDict [(''type'', PStr ''string''),
     (''minLength'', PInt 1)]), (''requirements'', PDict [(''type'', PStr ''array''),
     (''minItems'', PInt 1), (''items'', PDict [(''type'', PStr ''string''),
     (''minLength'', PInt 1)])]), (''notes'', PDict [(''type'', PStr ''array''),
     (''items'', PDict [(''type'', PStr ''string'')])])])]"

definition tests_schema :: pyval where
  "tests_schema = PDict [(''$schema'', PStr ''https://json-schema.org/draft/2020-12/schema''),
     (''$id'', PStr ''https://hordeforge.local/schemas/context.tests.v1.schema.json''),
     (''title'', PStr ''Tests Context v1''), (''type'', PStr ''object''),
     (''additionalProperties'', PBool False),
     (''required'', PList [PStr ''schema_version'', PStr ''test_cases'']),
     (''properties'', PDict [(''schema_version'', PDict [(''type'', PStr ''string''),
     (''enum'', PList [PStr ''1.0'', PStr ''2.0'']),
     (''description'', PStr ''Schema version for tests artifact'')]),
     (''test_cases'', PDict [(''type'', PStr ''array''), (''minItems'', PInt 1),
     (''items'', PDict [(''type'', PStr ''object''), (''additionalProperties'', PBool False),
     (''required'', PList [PStr ''name'', PStr ''type'', PStr ''expected_result'']),
     (''properties'', PDict [(''name'', PDict [(''type'', PStr ''string''),
     (''minLength'', PInt 1)]), (''type'', PDict [(''type'', PStr ''string''),
     (''minLength'', PInt 1)]), (''expected_result'', PDict [(''type'', PStr ''string''),
     (''minLength'', PInt 1)])])])]), (''language'', PDict [(''type'', PStr ''string''),
     (''description'', PStr ''Detected programming language (python, javascript, typescript, etc.)'')]),
     (''framework'', PDict [(''type'', PList [PStr ''string'', PStr ''null'']),
     (''description'', PStr ''Detected testing framework (pytest, jest, unittest, etc.)'')]),
     (''test_template'', PDict [(''type'', PList [PStr ''string'', PStr ''null'']),
     (''description'', PStr ''Generated test file template'')]),
     (''test_patterns'', PDict [(''type'', PStr ''object''),
     (''description'', PStr ''Extracted test patterns from existing tests''),
     (''properties'', PDict [(''uses_fixtures'', PDict [(''type'', PStr ''boolean'')]),
     (''uses_mocks'', PDict [(''type'', PStr ''boolean'')]),
     (''uses_parametrize'', PDict [(''type'', PStr ''boolean'')]),
     (''uses_setups'', PDict [(''type'', PStr ''boolean'')]),
     (''common_assertions'', PDict [(''type'', PStr ''array''),
     (''items'', PDict [(''type'', PStr ''string'')])]),
     (''naming_convention'', PDict [(''type'', PStr ''string'')])])])])]"

definition code_patch_schema :: pyval where
  "code_patch_schema = PDict [(''$schema'', PStr ''https://json-schema.org/draft/2020-12/schema''),
     (''$id'', PStr ''https://hordeforge.local/schemas/context.code_patch.v1.schema.json''),
     (''title'', PStr ''Code Patch Context v1''), (''type'', PStr ''object''),
     (''additionalProperties'', PBool False),
     (''required'', PList [PStr ''schema_version'', PStr ''files'']),
     (''properties'', PDict [(''schema_version'', PDict [(''type'', PStr ''string''),
     (''const'', PStr ''1.0'')]), (''files'', PDict [(''type'', PStr ''array''),
     (''minItems'', PInt 1), (''items'', PDict [(''type'', PStr ''object''),
     (''additionalProperties'', PBool False), (''required'', PList [PStr ''path'', PStr ''diff'']),
     (''properties'', PDict [(''path'', PDict [(''type'', PStr ''string''),
     (''minLength'', PInt 1)]), (''diff'', PDict [(''type'', PStr ''string''),
     (''minLength'', PInt 1)])])])]), (''decisions'', PDict [(''type'', PStr ''array''),
     (''items'', PDict [(''type'', PStr ''string'')])]),
     (''dry_run'', PDict [(''type'', PStr ''boolean'')]),
     (''expected_failures'', PDict [(''type'', PStr ''integer''), (''minimum'', PInt 0)]),
     (''fix_iteration'', PDict [(''type'', PStr ''integer''), (''minimum'', PInt 1)]),
     (''remaining_failures'', PDict [(''type'', PStr ''integer''), (''minimum'', PInt 0)]),
     (''pr_number'', PDict [(''type'', PStr ''integer''), (''minimum'', PInt 1)]),
     (''pr_url'', PDict [(''type'', PStr ''string''), (''minLength'', PInt 1)]),
     (''branch_name'', PDict [(''type'', PStr ''string''), (''minLength'', PInt 1)]),
     (''applied_to_github'', PDict [(''type'', PStr ''boolean'')]),
     (''apply_error'', PDict [(''type'', PStr ''string'')]),
     (''rollback_performed'', PDict [(''type'', PStr ''boolean'')]),
     (''llm_enhanced'', PDict [(''type'', PStr ''boolean'')]),
     (''notes'', PDict [(''type'', PStr ''array''),
     (''items'', PDict [(''type'', PStr ''string'')])])])]"

lemma shipped_schemas_wf:
  "schema_wf agent_result_schema" "schema_wf spec_schema" "schema_wf tests_schema"
  "schema_wf code_patch_schema"
  by code_simp+

text \<open>
  C4: whenever the validator answers, it reports no error exactly for the values that
  conform to the schema, and every error starts with the path it was called with; on a
  well-formed schema it always answers.
\<close>

theorem schema_validation_correct:
  assumes "schema_wf s"
  shows "\<exists>es. validate_against_schema fstr v s path = Inr es \<and>
    (es = [] \<longleftrightarrow> conforms v s) \<and> (\<forall>e \<in> set es. starts_with path e)"
proof -
  obtain es where es: "validate_against_schema fstr v s path = Inr es"
    using validate_reads_aux [OF assms] by (rule reads_asE)
  with validate_conforms_aux [of fstr v s path] validate_path_aux [OF es] show ?thesis by auto
qed

theorem schema_validation_correct_witness:
  "\<exists>es. validate_against_schema (\<lambda>_. []) (PDict [(''schema_version'', PStr ''1.0'')]) spec_schema ''p'' = Inr es \<and>
    es \<noteq> [] \<and> (\<forall>e \<in> set es. starts_with ''p'' e)"
proof -
  have "validate_against_schema (\<lambda>_. []) (PDict [(''schema_version'', PStr ''1.0'')]) spec_schema ''p'' =
      Inr [''p.summary: required property is missing'', ''p.requirements: required property is missing'']"
    by code_simp
  then show ?thesis
    using schema_validation_correct [OF shipped_schemas_wf(2), of "\<lambda>_. []"
        "PDict [(''schema_version'', PStr ''1.0'')]" "''p''"] by auto
qed

end
