(* ===== verification/Coerce.thy ===== *)
theory Coerce
  imports Schema Status
begin

text \<open>
  \<open>orchestrator/executor.py\<close>, the pure part on agent results: the coercions that run
  before validation, the normalisation after it, and the status an agent result stands
  for. Results are JSON values; \<open>fstr\<close> is the decimal text of a float.
\<close>

subsection \<open>Decisions\<close>

fun nonblank :: "pyval \<Rightarrow> bool" where
  "nonblank (PStr s) = (py_strip s \<noteq> [])"
| "nonblank _ = False"

definition clamp01 :: "rat \<Rightarrow> rat" where
  "clamp01 r = max 0 (min r 1)"

definition confidence_of :: "pyval \<Rightarrow> pyval" where
  "confidence_of c = PFloat (clamp01 (case num_of c of Some r \<Rightarrow> r | None \<Rightarrow> 1 / 2))"

definition decision_entry :: "string \<Rightarrow> pyval \<Rightarrow> pyval" where
  "decision_entry reason confidence = PDict [(''reason'', PStr reason), (''confidence'', confidence)]"

definition coerce_decision :: "(rat \<Rightarrow> string) \<Rightarrow> pyval \<Rightarrow> pyval" where
  "coerce_decision fstr item =
     (case item of
        PDict d \<Rightarrow>
          (let reason = dget d ''reason'';
               text = (if nonblank reason then py_str fstr reason
                       else if reason \<noteq> PNone then py_str fstr reason else py_str fstr item)
           in decision_entry text (confidence_of (dget d ''confidence'')))
      | PStr s \<Rightarrow> decision_entry s (PFloat (1 / 2))
      | _ \<Rightarrow> decision_entry (py_str fstr item) (PFloat (1 / 2)))"

definition coerce_decisions_for_validation :: "(rat \<Rightarrow> string) \<Rightarrow> pyval \<Rightarrow> pyval" where
  "coerce_decisions_for_validation fstr decisions =
     (case decisions of PList xs \<Rightarrow> PList (map (coerce_decision fstr) xs) | _ \<Rightarrow> decisions)"

subsection \<open>Code patches\<close>

definition as_content :: "pyval \<Rightarrow> dict" where
  "as_content v = (case v of PDict d \<Rightarrow> d | _ \<Rightarrow> [])"

definition file_entry :: "string \<Rightarrow> string \<Rightarrow> pyval" where
  "file_entry path diff = PDict [(''path'', PStr path), (''diff'', PStr diff)]"

text \<open>\<open>str(x or dflt).strip() or dflt\<close>.\<close>

definition text_or :: "(rat \<Rightarrow> string) \<Rightarrow> pyval \<Rightarrow> string \<Rightarrow> string" where
  "text_or fstr v dflt =
     (let t = py_strip (if truthy v then py_str fstr v else dflt)
      in if t \<noteq> [] then t else dflt)"

definition newline :: string where
  "newline = [CHR 0x0A]"

definition generated_diff :: "(rat \<Rightarrow> string) \<Rightarrow> dict \<Rightarrow> string" where
  "generated_diff fstr item =
     (let content = dget item ''content'';
          change = text_or fstr (dget item ''change_type'') ''modify''
      in if nonblank content then ''# '' @ change @ newline @ py_str fstr content
         else if content = PNone then ''# '' @ change
         else ''# '' @ change @ newline @ json_dumps fstr False '', '' '': '' content)"

definition coerce_patch_file :: "(rat \<Rightarrow> string) \<Rightarrow> pyval \<Rightarrow> pyval" where
  "coerce_patch_file fstr item =
     (case item of
        PDict d \<Rightarrow>
          (let path = (if truthy (dget d ''path'') then py_strip (py_str fstr (dget d ''path''))
                       else ''unknown_path'');
               diff = dget d ''diff''
           in if nonblank diff then file_entry path (py_str fstr diff)
              else file_entry path (generated_diff fstr d))
      | _ \<Rightarrow> file_entry ''unknown_path'' ''# modify'')"

definition put_if :: "bool \<Rightarrow> string \<Rightarrow> pyval \<Rightarrow> dict \<Rightarrow> dict" where
  "put_if b k v d = (if b then dset k v d else d)"

fun is_bool :: "pyval \<Rightarrow> bool" where
  "is_bool (PBool _) = True" | "is_bool _ = False"

text \<open>\<open>isinstance(v, int)\<close>: a \<open>bool\<close> is an \<open>int\<close>.\<close>

fun is_int :: "pyval \<Rightarrow> bool" where
  "is_int (PInt _) = True" | "is_int (PBool _) = True" | "is_int _ = False"

definition put_int :: "dict \<Rightarrow> string \<Rightarrow> dict \<Rightarrow> dict" where
  "put_int src k d =
     (let v = dget src k in
      if is_int v then dset k v d
      else if v \<noteq> PNone then (case py_int v of Inr i \<Rightarrow> dset k (PInt i) d | Inl _ \<Rightarrow> d)
      else d)"

definition str_list :: "(rat \<Rightarrow> string) \<Rightarrow> pyval \<Rightarrow> pyval" where
  "str_list fstr v = (case v of PList xs \<Rightarrow> PList (map (\<lambda>x. PStr (py_str fstr x)) xs) | _ \<Rightarrow> PNone)"

definition coerce_code_patch_content_for_validation :: "(rat \<Rightarrow> string) \<Rightarrow> pyval \<Rightarrow> dict" where
  "coerce_code_patch_content_for_validation fstr content =
     (let src = as_content content;
          files0 = (case dget src ''files'' of PList xs \<Rightarrow> map (coerce_patch_file fstr) xs | _ \<Rightarrow> []);
          files = (if files0 = [] then [file_entry ''unknown_path'' ''# modify''] else files0);
          d0 = [(''schema_version'', PStr ''1.0''), (''files'', PList files)];
          d1 = put_if (is_list (dget src ''decisions'')) ''decisions'' (str_list fstr (dget src ''decisions'')) d0;
          d2 = put_if (is_bool (dget src ''dry_run'')) ''dry_run'' (dget src ''dry_run'') d1;
          d3 = fold (put_int src) [''expected_failures'', ''fix_iteration'', ''remaining_failures''] d2;
          d4 = put_if (is_int (dget src ''pr_number'')) ''pr_number'' (dget src ''pr_number'') d3;
          d5 = fold (\<lambda>k. put_if (nonblank (dget src k)) k (dget src k))
                 [''pr_url'', ''branch_name'', ''apply_error''] d4;
          d6 = fold (\<lambda>k. put_if (is_bool (dget src k)) k (dget src k))
                 [''applied_to_github'', ''rollback_performed'', ''llm_enhanced''] d5
      in put_if (is_list (dget src ''notes'')) ''notes'' (str_list fstr (dget src ''notes'')) d6)"

subsection \<open>Specifications\<close>

fun nonblank_text :: "pyval \<Rightarrow> string option" where
  "nonblank_text (PStr s) = (if py_strip s \<noteq> [] then Some (py_strip s) else None)"
| "nonblank_text _ = None"

definition stripped_texts :: "pyval \<Rightarrow> string list" where
  "stripped_texts v = (case v of PList xs \<Rightarrow> List.map_filter nonblank_text xs | _ \<Rightarrow> [])"

definition requirement_text :: "pyval \<Rightarrow> string option" where
  "requirement_text item =
     (case item of
        PStr s \<Rightarrow> nonblank_text item
      | PDict d \<Rightarrow> (case List.map_filter (\<lambda>k. nonblank_text (dget d k)) [''description'', ''title'', ''name''] of
                     [] \<Rightarrow> None | t # _ \<Rightarrow> Some t)
      | _ \<Rightarrow> None)"

definition first_nonempty :: "'a list list \<Rightarrow> 'a list" where
  "first_nonempty xss = (case filter (\<lambda>xs. xs \<noteq> []) xss of [] \<Rightarrow> [] | xs # _ \<Rightarrow> xs)"

definition default_requirements :: "string list" where
  "default_requirements = [''Define implementation details'']"

definition spec_requirements :: "dict \<Rightarrow> string list" where
  "spec_requirements c =
     first_nonempty
       [case dget c ''requirements'' of PList xs \<Rightarrow> List.map_filter requirement_text xs | _ \<Rightarrow> [],
        stripped_texts (dget c ''acceptance_criteria''),
        case dget c ''technical_specification'' of
          PDict t \<Rightarrow> concat (map (\<lambda>k. stripped_texts (dget t k))
                       [''components'', ''implementation_notes'', ''dependencies''])
        | _ \<Rightarrow> [],
        default_requirements]"

definition spec_summary :: "dict \<Rightarrow> string" where
  "spec_summary c =
     (case List.map_filter (\<lambda>k. nonblank_text (dget c k))
             [''summary'', ''feature_description'', ''title'', ''user_story''] of
        [] \<Rightarrow> ''Generated specification'' | s # _ \<Rightarrow> s)"

definition coerce_spec_content_for_validation :: "(rat \<Rightarrow> string) \<Rightarrow> pyval \<Rightarrow> dict" where
  "coerce_spec_content_for_validation fstr content =
     (case content of
        PDict c \<Rightarrow>
          (let notes = stripped_texts (dget c ''notes'');
               d = [(''schema_version'', PStr ''1.0''), (''summary'', PStr (spec_summary c)),
                    (''requirements'', PList (map PStr (spec_requirements c)))]
           in put_if (notes \<noteq> []) ''notes'' (PList (map PStr notes)) d)
      | _ \<Rightarrow>
          (let summary = (if content \<noteq> PNone then py_strip (py_str fstr content) else [])
           in [(''schema_version'', PStr ''1.0''),
               (''summary'', PStr (if summary = [] then ''Generated specification'' else summary)),
               (''requirements'', PList (map PStr default_requirements))]))"

subsection \<open>Tests\<close>

definition test_case_entry :: "string \<Rightarrow> string \<Rightarrow> string \<Rightarrow> pyval" where
  "test_case_entry name typ expected =
     PDict [(''name'', PStr name), (''type'', PStr typ), (''expected_result'', PStr expected)]"

definition coerce_test_case :: "(rat \<Rightarrow> string) \<Rightarrow> nat \<times> pyval \<Rightarrow> pyval" where
  "coerce_test_case fstr = (\<lambda>(index, c).
     let fallback = ''test_case_'' @ nat_str index in
     case c of
       PDict d \<Rightarrow> test_case_entry (text_or fstr (dget d ''name'') fallback)
                    (text_or fstr (dget d ''type'') ''unit'') (text_or fstr (dget d ''expected_result'') ''pass'')
     | _ \<Rightarrow> test_case_entry fallback ''unit'' ''pass'')"

definition is_str_or_none :: "pyval \<Rightarrow> bool" where
  "is_str_or_none v \<longleftrightarrow> is_str v \<or> v = PNone"

definition coerce_tests_content_for_validation :: "(rat \<Rightarrow> string) \<Rightarrow> pyval \<Rightarrow> dict" where
  "coerce_tests_content_for_validation fstr content =
     (let src = as_content content;
          cases0 = (case dget src ''test_cases'' of
                      PList xs \<Rightarrow> map (coerce_test_case fstr) (enumerate 1 xs) | _ \<Rightarrow> []);
          tcs = (if cases0 = [] then [test_case_entry ''test_feature_baseline'' ''unit'' ''pass''] else cases0);
          version0 = py_strip (py_str fstr (dget_or src ''schema_version'' (PStr ''1.0'')));
          version = (if version0 \<in> {''1.0'', ''2.0''} then version0 else ''1.0'');
          d0 = [(''schema_version'', PStr version), (''test_cases'', PList tcs)];
          d1 = put_if (is_str (dget src ''language'')) ''language'' (dget src ''language'') d0;
          d2 = put_if (is_str_or_none (dget src ''framework'')) ''framework'' (dget src ''framework'') d1;
          d3 = put_if (is_str_or_none (dget src ''test_template'')) ''test_template'' (dget src ''test_template'') d2
      in put_if (is_dict (dget src ''test_patterns'')) ''test_patterns'' (dget src ''test_patterns'') d3)"

subsection \<open>Test results\<close>

definition int_or_zero :: "pyval \<Rightarrow> int" where
  "int_or_zero v = (if v = PNone then 0 else case py_int v of Inr i \<Rightarrow> i | Inl _ \<Rightarrow> 0)"

definition coerce_test_results_for_validation :: "pyval \<Rightarrow> pyval" where
  "coerce_test_results_for_validation v =
     (case v of
        PDict d \<Rightarrow>
          (let passed = int_or_zero (dget d ''passed'');
               failed = int_or_zero (dget d ''failed'');
               total = (case dget d ''total'' of
                          PNone \<Rightarrow> max 0 (passed + failed)
                        | t \<Rightarrow> (case py_int t of Inr i \<Rightarrow> i | Inl _ \<Rightarrow> max 0 (passed + failed)));
               n = [(''total'', PInt (max 0 total)), (''passed'', PInt (max 0 passed)),
                    (''failed'', PInt (max 0 failed))]
           in PDict (put_if (nonblank (dget d ''mode'')) ''mode'' (dget d ''mode'') n))
      | _ \<Rightarrow> v)"

subsection \<open>The whole agent result\<close>

definition result_keys :: "string list" where
  "result_keys = [''schema_version'', ''status'', ''artifacts'', ''decisions'', ''logs'', ''next_actions'',
     ''validation_errors'', ''test_results'']"

definition sanitize_status :: "pyval \<Rightarrow> dict \<Rightarrow> dict" where
  "sanitize_status raw d =
     (case raw of
        PStr s \<Rightarrow>
          (let up = py_upper (py_strip s);
               up' = (if up \<in> {''FAILURE'', ''ERROR'', ''FAIL''} then ''FAILED'' else up)
           in put_if (up' \<noteq> []) ''status'' (PStr up') d)
      | _ \<Rightarrow> d)"

definition default_decision :: "dict \<Rightarrow> dict \<Rightarrow> dict" where
  "default_decision output d =
     (if \<not> has_key d ''decisions'' then
        (case nonblank_text (dget output ''reason'') of
           Some r \<Rightarrow> dset ''decisions'' (PList [decision_entry r (confidence_of (dget output ''confidence''))]) d
         | None \<Rightarrow> d)
      else d)"

definition sanitize_artifact :: "(rat \<Rightarrow> string) \<Rightarrow> pyval \<Rightarrow> pyval" where
  "sanitize_artifact fstr artifact =
     (case artifact of
        PDict a \<Rightarrow>
          (let base = List.map_filter (\<lambda>k. map_option (Pair k) (map_of a k))
                        [''type'', ''path'', ''content'', ''metadata''];
               t = dget a ''type''; c = dget a ''content''
           in PDict (if t = PStr ''code_patch'' then
                       dset ''content'' (PDict (coerce_code_patch_content_for_validation fstr c)) base
                     else if t = PStr ''spec'' then
                       dset ''content'' (PDict (coerce_spec_content_for_validation fstr c)) base
                     else if t = PStr ''tests'' then
                       dset ''content'' (PDict (coerce_tests_content_for_validation fstr c)) base
                     else base))
      | _ \<Rightarrow> artifact)"

definition sanitize_output_for_validation :: "(rat \<Rightarrow> string) \<Rightarrow> dict \<Rightarrow> dict" where
  "sanitize_output_for_validation fstr output =
     (let d0 = filter (\<lambda>p. fst p \<in> set result_keys) output;
          d1 = sanitize_status (dget d0 ''status'') d0;
          d2 = default_decision output d1;
          d3 = put_if (has_key d2 ''decisions'') ''decisions''
                 (coerce_decisions_for_validation fstr (dget d2 ''decisions'')) d2;
          d4 = put_if (has_key d3 ''test_results'') ''test_results''
                 (coerce_test_results_for_validation (dget d3 ''test_results'')) d3
      in case dget d4 ''artifacts'' of
           PList arts \<Rightarrow> dset ''artifacts'' (PList (map (sanitize_artifact fstr) arts)) d4
         | _ \<Rightarrow> d4)"

text \<open>
  The code copies the allowed keys in the iteration order of a set; here they are copied
  in the order of \<open>result_keys\<close>, which changes the key order of the copy only.
\<close>

definition normalize_agent_output :: "dict \<Rightarrow> dict" where
  "normalize_agent_output output =
     (let n0 = List.map_filter (\<lambda>k. map_option (Pair k) (map_of output k)) result_keys
      in fold (\<lambda>(k, v). dsetdefault k (dget_or output k v))
           [(''status'', PStr ''FAILED''), (''artifacts'', PList []), (''decisions'', PList []),
            (''logs'', PList [PStr ''Normalized by StepExecutor'']), (''next_actions'', PList [])] n0)"

text \<open>Looking an unhashable status up in the set of status values raises.\<close>

definition normalize_step_status :: "pyval \<Rightarrow> exn + step_status" where
  "normalize_step_status raw =
     (if raw = PStr (status_value PARTIAL_SUCCESS) then Inr PARTIAL_SUCCESS
      else if raw = PStr (status_value SUCCESS) then Inr SUCCESS
      else case raw of
             PStr s \<Rightarrow> Inr (case status_of_value s of Inr st \<Rightarrow> st | Inl _ \<Rightarrow> FAILED)
           | PList _ \<Rightarrow> Inl (TypeError (''unhashable type: '' @ quoted ''list''))
           | PDict _ \<Rightarrow> Inl (TypeError (''unhashable type: '' @ quoted ''dict''))
           | _ \<Rightarrow> Inr FAILED)"

definition error_result :: "string \<Rightarrow> dict" where
  "error_result message =
     [(''status'', PStr ''FAILED''), (''artifacts'', PList []), (''decisions'', PList []),
      (''logs'', PList [PStr message]), (''next_actions'', PList [])]"

subsection \<open>Coerced artifacts conform to their schemas\<close>

lemmas schema_eval = shallow_ok_def expected_types_def type_ok_def matches_type_def required_keys_def
  property_schemas_def key_rule_of_def dget_def dget_or_def has_key_def min_count_def below_count_def
  num_bound_def item_schema_def in_list_def

text \<open>The schemas of the leaves, decided once.\<close>

lemma conforms_text [simp]:
  "conforms (PStr s) (PDict [(''type'', PStr ''string''), (''minLength'', PInt 1)]) \<longleftrightarrow> s \<noteq> []"
  "conforms (PStr s) (PDict [(''type'', PStr ''string'')])"
  "conforms (PStr s) (PDict [(''type'', PStr ''string''), (''const'', PStr c)]) \<longleftrightarrow> s = c"
  by (auto simp: conforms_str schema_eval Suc_le_eq)

lemma conforms_array [simp]:
  "conforms (PList xs) (PDict [(''type'', PStr ''array''), (''items'', PDict i)]) \<longleftrightarrow>
     (\<forall>x \<in> set xs. conforms x (PDict i))"
  "conforms (PList xs) (PDict [(''type'', PStr ''array''), (''minItems'', PInt 1), (''items'', PDict i)]) \<longleftrightarrow>
     xs \<noteq> [] \<and> (\<forall>x \<in> set xs. conforms x (PDict i))"
  by (simp_all add: conforms_list schema_eval Suc_le_eq)

lemma conforms_count [simp]:
  "conforms (PInt i) (PDict [(''type'', PStr ''integer''), (''minimum'', PInt m)]) \<longleftrightarrow> m \<le> i"
  by (simp add: conforms_int schema_eval)

lemma conforms_flag [simp]:
  "conforms (PBool b) (PDict [(''type'', PStr ''boolean'')])"
  by (simp add: conforms_bool schema_eval)

lemma nonblank_text_Some: "nonblank_text v = Some s \<Longrightarrow> s \<noteq> []"
  by (cases v) (auto split: if_splits)

lemma map_filter_all: "x \<in> set (List.map_filter f xs) \<Longrightarrow> \<exists>y \<in> set xs. f y = Some x"
  by (auto simp: List.map_filter_def)

lemma map_filter_Cons: "List.map_filter f xs = y # ys \<Longrightarrow> \<exists>x \<in> set xs. f x = Some y"
  using map_filter_all [of y f xs] by simp

lemma stripped_texts_nonempty: "s \<in> set (stripped_texts v) \<Longrightarrow> s \<noteq> []"
  by (cases v) (auto simp: stripped_texts_def dest!: map_filter_all nonblank_text_Some)

lemma requirement_text_nonempty: "requirement_text v = Some s \<Longrightarrow> s \<noteq> []"
proof (cases v)
  case (PDict d)
  moreover assume "requirement_text v = Some s"
  ultimately obtain ts where "List.map_filter (\<lambda>k. nonblank_text (dget d k))
      [''description'', ''title'', ''name''] = s # ts"
    by (auto simp only: requirement_text_def pyval.case option.inject option.distinct split: list.splits)
  from map_filter_Cons [OF this] show ?thesis using nonblank_text_Some by blast
qed (auto simp: requirement_text_def split: if_splits)

lemma first_nonempty_in:
  assumes "xs \<in> set xss" "xs \<noteq> []"
  shows "first_nonempty xss \<noteq> [] \<and> first_nonempty xss \<in> set xss"
proof (cases "filter (\<lambda>xs. xs \<noteq> []) xss")
  case Nil
  with assms show ?thesis by (auto simp: filter_empty_conv)
next
  case (Cons y ys)
  then have "y \<in> set (filter (\<lambda>xs. xs \<noteq> []) xss)" by simp
  then have "y \<in> set xss \<and> y \<noteq> []" by simp
  with Cons show ?thesis by (simp add: first_nonempty_def)
qed

lemma spec_requirements_ok: "spec_requirements c \<noteq> [] \<and> (\<forall>s \<in> set (spec_requirements c). s \<noteq> [])"
proof -
  let ?raw = "case dget c ''requirements'' of PList xs \<Rightarrow> List.map_filter requirement_text xs | _ \<Rightarrow> []"
  let ?tech = "case dget c ''technical_specification'' of
          PDict t \<Rightarrow> concat (map (\<lambda>k. stripped_texts (dget t k))
                       [''components'', ''implementation_notes'', ''dependencies''])
        | _ \<Rightarrow> []"
  let ?xss = "[?raw, stripped_texts (dget c ''acceptance_criteria''), ?tech, default_requirements]"
  have "s \<noteq> []" if "s \<in> set ?raw" for s
    using that by (cases "dget c ''requirements''") (auto dest!: map_filter_all requirement_text_nonempty)
  moreover have "s \<noteq> []" if "s \<in> set ?tech" for s
    using that by (cases "dget c ''technical_specification''") (auto dest: stripped_texts_nonempty)
  ultimately have "\<forall>xs \<in> set ?xss. \<forall>s \<in> set xs. s \<noteq> []"
    using stripped_texts_nonempty by (simp only: set_simps ball_simps) (simp add: default_requirements_def)
  moreover have "spec_requirements c \<noteq> [] \<and> spec_requirements c \<in> set ?xss"
    unfolding spec_requirements_def
    by (rule first_nonempty_in [of default_requirements]) (simp_all add: default_requirements_def)
  ultimately show ?thesis by blast
qed

lemma spec_summary_nonempty: "spec_summary c \<noteq> []"
proof (cases "List.map_filter (\<lambda>k. nonblank_text (dget c k))
             [''summary'', ''feature_description'', ''title'', ''user_story'']")
  case Nil
  then show ?thesis by (simp only: spec_summary_def list.case) simp
next
  case (Cons s ss)
  from map_filter_Cons [OF this] show ?thesis
    using nonblank_text_Some Cons by (auto simp only: spec_summary_def list.case)
qed

lemma spec_document_conforms:
  assumes "s \<noteq> []" "rs \<noteq> []" "\<forall>r \<in> set rs. r \<noteq> []"
  shows "conforms (PDict (put_if b ''notes'' (PList (map PStr notes))
    [(''schema_version'', PStr ''1.0''), (''summary'', PStr s), (''requirements'', PList (map PStr rs))])) spec_schema"
  using assms by (cases b) (simp_all add: put_if_def spec_schema_def conforms_dict schema_eval)

lemma coerce_spec_conforms_aux:
  "conforms (PDict (coerce_spec_content_for_validation fstr c)) spec_schema"
proof (cases "\<exists>d. c = PDict d")
  case True
  then obtain d where c: "c = PDict d" ..
  show ?thesis
    unfolding coerce_spec_content_for_validation_def c pyval.case Let_def
    by (rule spec_document_conforms) (simp_all add: spec_summary_nonempty spec_requirements_ok)
next
  case False
  define s where "s = (if c \<noteq> PNone then py_strip (py_str fstr c) else [])"
  have "coerce_spec_content_for_validation fstr c = put_if False ''notes'' (PList (map PStr []))
      [(''schema_version'', PStr ''1.0''),
       (''summary'', PStr (if s = [] then ''Generated specification'' else s)),
       (''requirements'', PList (map PStr default_requirements))]"
    using False by (cases c) (simp_all add: coerce_spec_content_for_validation_def Let_def s_def put_if_def)
  moreover have "conforms (PDict \<dots>) spec_schema"
    by (rule spec_document_conforms) (simp_all add: default_requirements_def)
  ultimately show ?thesis by simp
qed

lemma text_or_nonempty: "dflt \<noteq> [] \<Longrightarrow> text_or fstr v dflt \<noteq> []"
  by (simp add: text_or_def Let_def)

definition test_case_schema :: pyval where
  "test_case_schema = PDict [(''type'', PStr ''object''), (''additionalProperties'', PBool False),
     (''required'', PList [PStr ''name'', PStr ''type'', PStr ''expected_result'']),
     (''properties'', PDict [(''name'', PDict [(''type'', PStr ''string''), (''minLength'', PInt 1)]),
       (''type'', PDict [(''type'', PStr ''string''), (''minLength'', PInt 1)]),
       (''expected_result'', PDict [(''type'', PStr ''string''), (''minLength'', PInt 1)])])]"

lemma test_case_entry_conforms:
  "conforms (test_case_entry n t e) test_case_schema \<longleftrightarrow> n \<noteq> [] \<and> t \<noteq> [] \<and> e \<noteq> []"
  by (simp add: test_case_entry_def test_case_schema_def conforms_dict schema_eval)

lemma coerce_test_case_conforms: "conforms (coerce_test_case fstr p) test_case_schema"
  by (cases p; cases "snd p")
    (simp_all add: coerce_test_case_def Let_def test_case_entry_conforms text_or_nonempty)

lemma conforms_opt_text [simp]:
  "conforms v (PDict [(''type'', PList [PStr ''string'', PStr ''null'']), (''description'', x)]) \<longleftrightarrow> is_str_or_none v"
  by (cases v) (simp_all add: conforms_str conforms_none conforms_int conforms_float conforms_list conforms_dict
      conforms_bool schema_eval is_str_or_none_def)

lemma conforms_described_text [simp]:
  "conforms (PStr s) (PDict [(''type'', PStr ''string''), (''description'', x)])"
  by (simp add: conforms_str schema_eval)

lemma conforms_version [simp]:
  "conforms (PStr s) (PDict [(''type'', PStr ''string''), (''enum'', PList [PStr a, PStr b]), (''description'', x)])
    \<longleftrightarrow> s = a \<or> s = b"
  by (auto simp: conforms_str schema_eval)

text \<open>Adding a property with a schema of its own to a conforming object.\<close>

lemma dget_set [simp]: "dget (dset k v d) = (dget d)(k := v)"
  by (auto simp: fun_eq_iff)

lemma conforms_dset:
  assumes "conforms (PDict d) (PDict sch)" "property_schemas sch = Inr props"
    and "map_of props k = Some s" "conforms v s"
    and "map_of sch ''enum'' = None" "map_of sch ''const'' = None"
  shows "conforms (PDict (dset k v d)) (PDict sch)"
proof -
  from assms(1) obtain req where d: "shallow_ok (PDict d) sch" "required_keys sch = Inr req"
    "\<forall>k \<in> set req. has_key d k" "\<forall>p \<in> set d. key_rule_of sch props (fst p) \<noteq> Forbidden"
    "\<forall>p \<in> set d. \<forall>s. key_rule_of sch props (fst p) = CheckWith s \<longrightarrow> conforms (snd p) s"
    by (auto simp: conforms_dict assms(2))
  have k: "key_rule_of sch props k = CheckWith s" using assms(3) by (simp add: key_rule_of_def)
  have in_upd: "p \<in> set d \<or> p = (k, v)" if "p \<in> set (dset k v d)" for p
    using that by (induction d) (auto split: if_splits)
  have "shallow_ok (PDict (dset k v d)) sch"
  proof -
    have "matches_type (PDict (dset k v d)) t = matches_type (PDict d) t" for t
      by (simp add: matches_type_def)
    then have "matches_type (PDict (dset k v d)) = matches_type (PDict d)" by (rule ext)
    with d(1) assms(5,6) show ?thesis by (simp add: shallow_ok_def type_ok_def)
  qed
  moreover have "\<forall>p \<in> set (dset k v d). key_rule_of sch props (fst p) \<noteq> Forbidden"
    using d(4) k by (auto dest!: in_upd)
  moreover have "\<forall>p \<in> set (dset k v d). \<forall>s. key_rule_of sch props (fst p) = CheckWith s \<longrightarrow> conforms (snd p) s"
    using d(5) k assms(4) by (auto dest!: in_upd)
  ultimately show ?thesis using d(2,3) assms(2) by (auto simp: conforms_dict)
qed

lemma conforms_put_if:
  assumes "conforms (PDict d) (PDict sch)" "property_schemas sch = Inr props"
    and "map_of props k = Some s" "b \<Longrightarrow> conforms v s"
    and "map_of sch ''enum'' = None" "map_of sch ''const'' = None"
  shows "conforms (PDict (put_if b k v d)) (PDict sch)"
  using assms by (cases b) (simp_all add: put_if_def conforms_dset)

definition dict_of :: "pyval \<Rightarrow> dict" where
  "dict_of v = (case v of PDict d \<Rightarrow> d | _ \<Rightarrow> [])"

definition properties_of :: "pyval \<Rightarrow> dict" where
  "properties_of s = dict_of (dget (dict_of s) ''properties'')"

definition extendable :: "pyval \<Rightarrow> bool" where
  "extendable s \<longleftrightarrow> (\<exists>sch. s = PDict sch \<and> property_schemas sch = Inr (properties_of s) \<and>
     map_of sch ''enum'' = None \<and> map_of sch ''const'' = None)"

lemma conforms_add:
  assumes "extendable sc" "conforms (PDict d) sc"
    and "map_of (properties_of sc) k = Some s" "b \<Longrightarrow> conforms v s"
  shows "conforms (PDict (put_if b k v d)) sc"
  using assms by (auto simp: extendable_def intro: conforms_put_if)

lemma shipped_extendable: "extendable tests_schema" "extendable code_patch_schema"
  by (simp_all add: extendable_def properties_of_def dict_of_def property_schemas_def
      tests_schema_def code_patch_schema_def dget_def dget_or_def)

definition test_patterns_schema :: pyval where
  "test_patterns_schema = the (map_of (properties_of tests_schema) ''test_patterns'')"

lemma tests_props:
  "map_of (properties_of tests_schema) ''language'' =
     Some (PDict [(''type'', PStr ''string''), (''description'', PStr ''Detected programming language (python, javascript, typescript, etc.)'')])"
  "map_of (properties_of tests_schema) ''framework'' =
     Some (PDict [(''type'', PList [PStr ''string'', PStr ''null'']), (''description'', PStr ''Detected testing framework (pytest, jest, unittest, etc.)'')])"
  "map_of (properties_of tests_schema) ''test_template'' =
     Some (PDict [(''type'', PList [PStr ''string'', PStr ''null'']), (''description'', PStr ''Generated test file template'')])"
  "map_of (properties_of tests_schema) ''test_patterns'' = Some test_patterns_schema"
  by (simp_all add: properties_of_def dict_of_def tests_schema_def dget_def test_patterns_schema_def)

lemma tests_base_conforms:
  assumes "ver = ''1.0'' \<or> ver = ''2.0''" "tcs \<noteq> []" "\<forall>t \<in> set tcs. conforms t test_case_schema"
  shows "conforms (PDict [(''schema_version'', PStr ver), (''test_cases'', PList tcs)]) tests_schema"
  using assms by (auto simp: tests_schema_def conforms_dict schema_eval test_case_schema_def)

lemma coerce_tests_conforms_aux:
  assumes "is_dict (dget (as_content c) ''test_patterns'') \<Longrightarrow>
    conforms (dget (as_content c) ''test_patterns'') test_patterns_schema"
  shows "conforms (PDict (coerce_tests_content_for_validation fstr c)) tests_schema"
proof -
  let ?cases0 = "case dget (as_content c) ''test_cases'' of
      PList xs \<Rightarrow> map (coerce_test_case fstr) (enumerate 1 xs) | _ \<Rightarrow> []"
  let ?tcs = "if ?cases0 = [] then [test_case_entry ''test_feature_baseline'' ''unit'' ''pass''] else ?cases0"
  have "\<forall>t \<in> set ?cases0. conforms t test_case_schema"
    by (cases "dget (as_content c) ''test_cases''") (auto simp: coerce_test_case_conforms)
  then have tcs: "?tcs \<noteq> []" "\<forall>t \<in> set ?tcs. conforms t test_case_schema"
    by (simp_all add: test_case_entry_conforms)
  have str: "is_str v \<Longrightarrow> \<exists>s. v = PStr s" for v by (cases v) auto
  show ?thesis
    unfolding coerce_tests_content_for_validation_def Let_def
    by (intro tests_base_conforms tcs assms conforms_add [OF shipped_extendable(1) _ tests_props(1)]
        conforms_add [OF shipped_extendable(1) _ tests_props(2)]
        conforms_add [OF shipped_extendable(1) _ tests_props(3)]
        conforms_add [OF shipped_extendable(1) _ tests_props(4)])
      (auto dest!: str)
qed

definition test_results_schema :: pyval where
  "test_results_schema = the (map_of (properties_of agent_result_schema) ''test_results'')"

lemma coerce_test_results_conforms_aux:
  "conforms (coerce_test_results_for_validation (PDict d)) test_results_schema"
proof -
  have m: "\<exists>s. v = PStr s" if "nonblank v" for v using that by (cases v) auto
  have base: "conforms (PDict (put_if (nonblank (dget d ''mode'')) ''mode'' (dget d ''mode'')
     [(''total'', PInt (max 0 a)), (''passed'', PInt (max 0 b)), (''failed'', PInt (max 0 c))])) test_results_schema"
    for a b c
    using m [of "dget d ''mode''"]
    by (cases "nonblank (dget d ''mode'')")
      (auto simp: put_if_def test_results_schema_def properties_of_def dict_of_def agent_result_schema_def
        conforms_dict schema_eval)
  show ?thesis
    unfolding coerce_test_results_for_validation_def pyval.case Let_def by (rule base)
qed

text \<open>
  A patch conforms when its file paths are not blank and its counters are proper
  integers in range: the coercion does not enforce either.
\<close>

definition counter_ok :: "dict \<Rightarrow> string \<Rightarrow> int \<Rightarrow> bool" where
  "counter_ok src k low \<longleftrightarrow>
     (case dget src k of
        PBool _ \<Rightarrow> False
      | PNone \<Rightarrow> True
      | v \<Rightarrow> (case py_int v of Inr i \<Rightarrow> low \<le> i | Inl _ \<Rightarrow> True))"

definition patch_file_ok :: "(rat \<Rightarrow> string) \<Rightarrow> pyval \<Rightarrow> bool" where
  "patch_file_ok fstr item \<longleftrightarrow>
     (\<forall>d. item = PDict d \<longrightarrow> truthy (dget d ''path'') \<longrightarrow> py_strip (py_str fstr (dget d ''path'')) \<noteq> [])"

definition patch_ok :: "(rat \<Rightarrow> string) \<Rightarrow> dict \<Rightarrow> bool" where
  "patch_ok fstr src \<longleftrightarrow>
     (\<forall>xs. dget src ''files'' = PList xs \<longrightarrow> list_all (patch_file_ok fstr) xs) \<and>
     counter_ok src ''expected_failures'' 0 \<and> counter_ok src ''fix_iteration'' 1 \<and>
     counter_ok src ''remaining_failures'' 0 \<and>
     (is_int (dget src ''pr_number'') \<longrightarrow> counter_ok src ''pr_number'' 1)"

definition file_schema :: pyval where
  "file_schema = PDict [(''type'', PStr ''object''), (''additionalProperties'', PBool False),
     (''required'', PList [PStr ''path'', PStr ''diff'']),
     (''properties'', PDict [(''path'', PDict [(''type'', PStr ''string''), (''minLength'', PInt 1)]),
       (''diff'', PDict [(''type'', PStr ''string''), (''minLength'', PInt 1)])])]"

lemma file_entry_conforms: "conforms (file_entry p d) file_schema \<longleftrightarrow> p \<noteq> [] \<and> d \<noteq> []"
  by (simp add: file_entry_def file_schema_def conforms_dict schema_eval)

lemma generated_diff_nonempty: "generated_diff fstr d \<noteq> []"
  by (simp add: generated_diff_def Let_def)

lemma nonblank_py_str: "nonblank v \<Longrightarrow> py_str fstr v \<noteq> []"
  by (cases v) (auto simp: py_str_def)

lemma coerce_patch_file_conforms:
  "patch_file_ok fstr item \<Longrightarrow> conforms (coerce_patch_file fstr item) file_schema"
  by (cases item) (auto simp: coerce_patch_file_def Let_def file_entry_conforms patch_file_ok_def
      generated_diff_nonempty nonblank_py_str)

lemma patch_base_conforms:
  "files \<noteq> [] \<Longrightarrow> \<forall>f \<in> set files. conforms f file_schema \<Longrightarrow>
   conforms (PDict [(''schema_version'', PStr ''1.0''), (''files'', PList files)]) code_patch_schema"
  by (simp add: code_patch_schema_def conforms_dict schema_eval file_schema_def)

lemma patch_props:
  "map_of (properties_of code_patch_schema) ''decisions'' =
     Some (PDict [(''type'', PStr ''array''), (''items'', PDict [(''type'', PStr ''string'')])])"
  "map_of (properties_of code_patch_schema) ''notes'' =
     Some (PDict [(''type'', PStr ''array''), (''items'', PDict [(''type'', PStr ''string'')])])"
  "map_of (properties_of code_patch_schema) ''dry_run'' = Some (PDict [(''type'', PStr ''boolean'')])"
  "map_of (properties_of code_patch_schema) ''applied_to_github'' = Some (PDict [(''type'', PStr ''boolean'')])"
  "map_of (properties_of code_patch_schema) ''rollback_performed'' = Some (PDict [(''type'', PStr ''boolean'')])"
  "map_of (properties_of code_patch_schema) ''llm_enhanced'' = Some (PDict [(''type'', PStr ''boolean'')])"
  "map_of (properties_of code_patch_schema) ''pr_url'' = Some (PDict [(''type'', PStr ''string''), (''minLength'', PInt 1)])"
  "map_of (properties_of code_patch_schema) ''branch_name'' = Some (PDict [(''type'', PStr ''string''), (''minLength'', PInt 1)])"
  "map_of (properties_of code_patch_schema) ''apply_error'' = Some (PDict [(''type'', PStr ''string'')])"
  "map_of (properties_of code_patch_schema) ''expected_failures'' = Some (PDict [(''type'', PStr ''integer''), (''minimum'', PInt 0)])"
  "map_of (properties_of code_patch_schema) ''fix_iteration'' = Some (PDict [(''type'', PStr ''integer''), (''minimum'', PInt 1)])"
  "map_of (properties_of code_patch_schema) ''remaining_failures'' = Some (PDict [(''type'', PStr ''integer''), (''minimum'', PInt 0)])"
  "map_of (properties_of code_patch_schema) ''pr_number'' = Some (PDict [(''type'', PStr ''integer''), (''minimum'', PInt 1)])"
  by (simp_all add: properties_of_def dict_of_def code_patch_schema_def dget_def)

lemma put_int_as_put_if:
  assumes "counter_ok src k low"
  shows "\<exists>b v. put_int src k d = put_if b k v d \<and>
    (b \<longrightarrow> conforms v (PDict [(''type'', PStr ''integer''), (''minimum'', PInt low)]))"
proof (cases "dget src k")
  case PNone
  then show ?thesis by (intro exI [of _ False]) (simp add: put_int_def put_if_def)
next
  case (PBool b)
  with assms show ?thesis by (simp add: counter_ok_def)
next
  case (PInt i)
  with assms show ?thesis
    by (intro exI [of _ True] exI [of _ "PInt i"]) (simp add: counter_ok_def put_int_def put_if_def)
next
  case (PFloat r)
  with assms show ?thesis
    by (intro exI [of _ True] exI [of _ "PInt (if r < 0 then - \<lfloor>- r\<rfloor> else \<lfloor>r\<rfloor>)"])
      (simp add: counter_ok_def put_int_def put_if_def)
next
  case (PStr s)
  show ?thesis
  proof (cases "parse_int s")
    case None
    with PStr show ?thesis by (intro exI [of _ False]) (simp add: put_int_def put_if_def)
  next
    case (Some i)
    with PStr assms show ?thesis
      by (intro exI [of _ True] exI [of _ "PInt i"]) (simp add: counter_ok_def put_int_def put_if_def)
  qed
next
  case (PList xs)
  then show ?thesis by (intro exI [of _ False]) (simp add: put_int_def put_if_def)
next
  case (PDict e)
  then show ?thesis by (intro exI [of _ False]) (simp add: put_int_def put_if_def)
qed

lemma conforms_put_int:
  assumes "counter_ok src k low" "conforms (PDict d) code_patch_schema"
    and "map_of (properties_of code_patch_schema) k =
      Some (PDict [(''type'', PStr ''integer''), (''minimum'', PInt low)])"
  shows "conforms (PDict (put_int src k d)) code_patch_schema"
proof -
  obtain b v where "put_int src k d = put_if b k v d"
    "b \<longrightarrow> conforms v (PDict [(''type'', PStr ''integer''), (''minimum'', PInt low)])"
    using put_int_as_put_if [OF assms(1)] by blast
  then show ?thesis using conforms_add [OF shipped_extendable(2) assms(2,3)] by simp
qed

lemma str_list_conforms:
  "is_list v \<Longrightarrow> conforms (str_list fstr v)
     (PDict [(''type'', PStr ''array''), (''items'', PDict [(''type'', PStr ''string'')])])"
  by (cases v) (auto simp: str_list_def)

lemma is_bool_conforms: "is_bool v \<Longrightarrow> conforms v (PDict [(''type'', PStr ''boolean'')])"
  by (cases v) auto

lemma nonblank_conforms:
  "nonblank v \<Longrightarrow> conforms v (PDict [(''type'', PStr ''string''), (''minLength'', PInt 1)])"
  "nonblank v \<Longrightarrow> conforms v (PDict [(''type'', PStr ''string'')])"
  by (cases v; auto)+

lemma is_int_counter:
  "is_int (dget src k) \<Longrightarrow> counter_ok src k low \<Longrightarrow>
   conforms (dget src k) (PDict [(''type'', PStr ''integer''), (''minimum'', PInt low)])"
  by (cases "dget src k") (auto simp: counter_ok_def)

lemma patch_counter_ok: "patch_ok fstr src \<Longrightarrow> counter_ok src ''expected_failures'' 0"
  "patch_ok fstr src \<Longrightarrow> counter_ok src ''fix_iteration'' 1"
  "patch_ok fstr src \<Longrightarrow> counter_ok src ''remaining_failures'' 0"
  "patch_ok fstr src \<Longrightarrow> is_int (dget src ''pr_number'') \<Longrightarrow> counter_ok src ''pr_number'' 1"
  by (simp_all add: patch_ok_def)

lemma patch_fields_conform:
  assumes ok: "patch_ok fstr src" and base: "conforms (PDict d0) code_patch_schema"
  shows "conforms (PDict (put_if (is_list (dget src ''notes'')) ''notes'' (str_list fstr (dget src ''notes''))
     (fold (\<lambda>k. put_if (is_bool (dget src k)) k (dget src k))
        [''applied_to_github'', ''rollback_performed'', ''llm_enhanced'']
     (fold (\<lambda>k. put_if (nonblank (dget src k)) k (dget src k)) [''pr_url'', ''branch_name'', ''apply_error'']
     (put_if (is_int (dget src ''pr_number'')) ''pr_number'' (dget src ''pr_number'')
     (fold (put_int src) [''expected_failures'', ''fix_iteration'', ''remaining_failures''] d0)))))) code_patch_schema"
proof -
  note add = conforms_add [OF shipped_extendable(2)]
  have "conforms (PDict (fold (put_int src) [''expected_failures'', ''fix_iteration'', ''remaining_failures''] d0))
      code_patch_schema" (is "conforms (PDict ?d3) _")
    using base patch_props patch_counter_ok [OF ok] by (simp only: fold_simps) (intro conforms_put_int; assumption)
  then have "conforms (PDict (put_if (is_int (dget src ''pr_number'')) ''pr_number'' (dget src ''pr_number'') ?d3))
      code_patch_schema" (is "conforms (PDict ?d4) _")
    by (rule add [OF _ patch_props(13)]) (rule is_int_counter [OF _ patch_counter_ok(4) [OF ok]]; assumption)
  then have "conforms (PDict (fold (\<lambda>k. put_if (nonblank (dget src k)) k (dget src k))
      [''pr_url'', ''branch_name'', ''apply_error''] ?d4)) code_patch_schema" (is "conforms (PDict ?d5) _")
    unfolding fold_simps
    by (intro add [OF _ patch_props(9)] add [OF _ patch_props(8)] add [OF _ patch_props(7)] nonblank_conforms)
  then have "conforms (PDict (fold (\<lambda>k. put_if (is_bool (dget src k)) k (dget src k))
      [''applied_to_github'', ''rollback_performed'', ''llm_enhanced''] ?d5)) code_patch_schema"
    unfolding fold_simps
    by (intro add [OF _ patch_props(6)] add [OF _ patch_props(5)] add [OF _ patch_props(4)] is_bool_conforms)
  then show ?thesis by (intro add [OF _ patch_props(2)] str_list_conforms)
qed

lemma coerce_patch_conforms_aux:
  assumes "patch_ok fstr (as_content c)"
  shows "conforms (PDict (coerce_code_patch_content_for_validation fstr c)) code_patch_schema"
proof -
  let ?src = "as_content c"
  let ?files0 = "case dget ?src ''files'' of PList xs \<Rightarrow> map (coerce_patch_file fstr) xs | _ \<Rightarrow> []"
  let ?files = "if ?files0 = [] then [file_entry ''unknown_path'' ''# modify''] else ?files0"
  have "\<forall>f \<in> set ?files0. conforms f file_schema"
    using assms by (cases "dget ?src ''files''") (auto simp: patch_ok_def list_all_iff coerce_patch_file_conforms file_entry_conforms)
  then have files: "?files \<noteq> []" "\<forall>f \<in> set ?files. conforms f file_schema"
    by (simp_all add: file_entry_conforms)
  have d2: "conforms (PDict (put_if (is_bool (dget ?src ''dry_run'')) ''dry_run'' (dget ?src ''dry_run'')
      (put_if (is_list (dget ?src ''decisions'')) ''decisions'' (str_list fstr (dget ?src ''decisions''))
        [(''schema_version'', PStr ''1.0''), (''files'', PList ?files)]))) code_patch_schema"
    by (intro conforms_add [OF shipped_extendable(2) _ patch_props(3)] is_bool_conforms
        conforms_add [OF shipped_extendable(2) _ patch_props(1)] str_list_conforms patch_base_conforms [OF files])
  show ?thesis
    unfolding coerce_code_patch_content_for_validation_def Let_def
    by (rule patch_fields_conform [OF assms d2])
qed

text \<open>
  the coerced content of a specification conforms to the shipped specification
  schema, whatever the agent returned, and the coerced test counts conform to the
  schema of the agent result.
\<close>

theorem coerced_spec_and_results_conform:
  "conforms (PDict (coerce_spec_content_for_validation fstr content)) spec_schema \<and>
   conforms (coerce_test_results_for_validation (PDict results)) test_results_schema"
  by (intro conjI coerce_spec_conforms_aux coerce_test_results_conforms_aux)

text \<open>
  the coerced content of a code patch conforms to the shipped schema when no file
  has a blank path and no counter is a boolean or out of range; the coerced content of a
  test suite conforms when its free-form test patterns do.
\<close>

theorem coerced_patch_and_tests_conform:
  assumes "patch_ok fstr (as_content patch)"
    and "is_dict (dget (as_content tests) ''test_patterns'') \<Longrightarrow>
      conforms (dget (as_content tests) ''test_patterns'') test_patterns_schema"
  shows "conforms (PDict (coerce_code_patch_content_for_validation fstr patch)) code_patch_schema \<and>
    conforms (PDict (coerce_tests_content_for_validation fstr tests)) tests_schema"
  by (intro conjI coerce_patch_conforms_aux coerce_tests_conforms_aux assms)

definition sample_patch :: pyval where
  "sample_patch = PDict [(''files'', PList [PDict [(''path'', PStr ''a.py''), (''content'', PStr ''x = 1'')]]),
     (''fix_iteration'', PStr '' 2 '')]"

theorem coerced_patch_and_tests_conform_witness:
  "conforms (PDict (coerce_code_patch_content_for_validation (\<lambda>_. []) sample_patch)) code_patch_schema \<and>
   conforms (PDict (coerce_tests_content_for_validation (\<lambda>_. []) PNone)) tests_schema"
proof (rule coerced_patch_and_tests_conform)
  have s: "py_strip ''a.py'' = ''a.py''" "parse_int '' 2 '' = Some 2" by code_simp+
  show "patch_ok (\<lambda>_. []) (as_content sample_patch)"
    by (simp add: patch_ok_def sample_patch_def as_content_def dget_def patch_file_ok_def py_str_def s
        counter_ok_def)
qed (simp add: as_content_def dget_def)

text \<open>
  without those conditions the coercion lets values through that the schema then
  rejects: an iteration count of zero and a file path of white space only.
\<close>

theorem coerced_patch_may_not_conform:
  "\<not> conforms (PDict (coerce_code_patch_content_for_validation fstr (PDict [(''fix_iteration'', PInt 0)])))
      code_patch_schema \<and>
   \<not> conforms (PDict (coerce_code_patch_content_for_validation fstr
      (PDict [(''files'', PList [PDict [(''path'', PStr '' ''), (''diff'', PStr ''x'')]])]))) code_patch_schema"
proof -
  have "coerce_code_patch_content_for_validation fstr (PDict [(''fix_iteration'', PInt 0)]) =
      [(''schema_version'', PStr ''1.0''), (''files'', PList [file_entry ''unknown_path'' ''# modify'']),
       (''fix_iteration'', PInt 0)]"
    by code_simp
  moreover have "coerce_code_patch_content_for_validation fstr
      (PDict [(''files'', PList [PDict [(''path'', PStr '' ''), (''diff'', PStr ''x'')]])]) =
      [(''schema_version'', PStr ''1.0''), (''files'', PList [file_entry [] ''x''])]"
    by code_simp
  moreover have "\<not> conforms (PDict [(''schema_version'', PStr ''1.0''),
      (''files'', PList [file_entry ''unknown_path'' ''# modify'']), (''fix_iteration'', PInt 0)]) code_patch_schema"
    by (simp add: code_patch_schema_def conforms_dict schema_eval)
  moreover have "\<not> conforms (PDict [(''schema_version'', PStr ''1.0''), (''files'', PList [file_entry [] ''x''])])
      code_patch_schema"
    by (simp add: code_patch_schema_def file_entry_def conforms_dict schema_eval)
  ultimately show ?thesis by simp
qed

end
