(* ===== verification/RunState.thy ===== *)
theory RunState
  imports Status
begin

text \<open>
  \<open>orchestrator/state.py\<close>: the state of a pipeline run and of its steps, with every
  operation that changes it. The lock of the class makes each operation atomic, so an
  operation is a function on the state. An operation that raises leaves the state as
  it was, because \<open>get_step\<close> and \<open>ensure_valid_transition\<close> come before the
  first assignment.
\<close>

subsection \<open>State\<close>

record step_run_state =
  st_name :: string
  st_agent :: string
  st_status :: step_status
  st_attempts :: int
  st_correlation_id :: "string option"
  st_trace_id :: "string option"
  st_span_id :: "string option"
  st_parent_span_id :: "string option"
  st_started_at :: "string option"
  st_finished_at :: "string option"
  st_error :: "string option"
  st_output :: "dict option"
  st_input_hash :: "string option"

definition new_step_state :: "string \<Rightarrow> string \<Rightarrow> step_run_state" where
  "new_step_state name agent = \<lparr>st_name = name, st_agent = agent, st_status = PENDING,
     st_attempts = 0, st_correlation_id = None, st_trace_id = None, st_span_id = None,
     st_parent_span_id = None, st_started_at = None, st_finished_at = None,
     st_error = None, st_output = None, st_input_hash = None\<rparr>"

record run_state =
  rs_run_id :: string
  rs_pipeline_name :: string
  rs_correlation_id :: "string option"
  rs_trace_id :: "string option"
  rs_steps :: "step_run_state list"
  rs_current_step_index :: int
  rs_run_status :: string

definition run_state_from_steps ::
  "string \<Rightarrow> string \<Rightarrow> (string \<times> string) list \<Rightarrow> string option \<Rightarrow> string option \<Rightarrow> run_state" where
  "run_state_from_steps run_id pname steps corr trace =
     \<lparr>rs_run_id = run_id, rs_pipeline_name = pname, rs_correlation_id = corr,
      rs_trace_id = trace, rs_steps = map (\<lambda>(n, a). new_step_state n a) steps,
      rs_current_step_index = 0, rs_run_status = status_value PENDING\<rparr>"

subsection \<open>Operations\<close>

definition get_step :: "string \<Rightarrow> run_state \<Rightarrow> exn + step_run_state" where
  "get_step name rs = (case find (\<lambda>s. st_name s = name) (rs_steps rs) of
     Some s \<Rightarrow> Inr s
   | None \<Rightarrow> Inl (KeyError (''Step not found in run state: '' @ name)))"

text \<open>Assigning to the object \<open>get_step\<close> returns changes the first step of that name.\<close>

fun update_first :: "(step_run_state \<Rightarrow> bool) \<Rightarrow> (step_run_state \<Rightarrow> step_run_state)
    \<Rightarrow> step_run_state list \<Rightarrow> step_run_state list" where
  "update_first p f [] = []"
| "update_first p f (s # ss) = (if p s then f s # ss else s # update_first p f ss)"

record mark_args =
  ma_started_at :: "string option"
  ma_finished_at :: "string option"
  ma_error :: "string option"
  ma_output :: "dict option"
  ma_correlation_id :: "string option"
  ma_trace_id :: "string option"
  ma_span_id :: "string option"
  ma_parent_span_id :: "string option"
  ma_input_hash :: "string option"

definition no_mark :: mark_args where
  "no_mark = \<lparr>ma_started_at = None, ma_finished_at = None, ma_error = None, ma_output = None,
     ma_correlation_id = None, ma_trace_id = None, ma_span_id = None,
     ma_parent_span_id = None, ma_input_hash = None\<rparr>"

text \<open>\<open>if x is not None: field = x\<close>.\<close>

definition or_keep :: "'a option \<Rightarrow> 'a option \<Rightarrow> 'a option" where
  "or_keep new old = (case new of None \<Rightarrow> old | Some v \<Rightarrow> Some v)"

definition mark_step :: "step_status \<Rightarrow> mark_args \<Rightarrow> step_run_state \<Rightarrow> step_run_state" where
  "mark_step nxt a s0 =
     (let s1 = s0\<lparr>st_status := nxt\<rparr>;
          s2 = (if nxt = RUNNING
                then s1\<lparr>st_attempts := st_attempts s1 + 1, st_started_at := ma_started_at a\<rparr>
                else s1);
          s3 = (if nxt \<in> {SUCCESS, PARTIAL_SUCCESS, FAILED, BLOCKED, SKIPPED}
                then s2\<lparr>st_finished_at := ma_finished_at a\<rparr> else s2)
      in s3\<lparr>st_error := or_keep (ma_error a) (st_error s3),
            st_output := or_keep (ma_output a) (st_output s3),
            st_correlation_id := or_keep (ma_correlation_id a) (st_correlation_id s3),
            st_trace_id := or_keep (ma_trace_id a) (st_trace_id s3),
            st_span_id := or_keep (ma_span_id a) (st_span_id s3),
            st_parent_span_id := or_keep (ma_parent_span_id a) (st_parent_span_id s3),
            st_input_hash := or_keep (ma_input_hash a) (st_input_hash s3)\<rparr>)"

definition mark_step_status ::
  "string \<Rightarrow> step_status \<Rightarrow> mark_args \<Rightarrow> run_state \<Rightarrow> exn + run_state" where
  "mark_step_status name nxt a rs =
     bindE (get_step name rs) (\<lambda>s.
     bindE (ensure_valid_transition (st_status s) nxt) (\<lambda>_.
       Inr (rs\<lparr>rs_steps := update_first (\<lambda>s. st_name s = name) (mark_step nxt a) (rs_steps rs),
               rs_run_status :=
                 (if nxt \<in> {FAILED, BLOCKED} then status_value nxt
                  else if nxt = RUNNING then status_value RUNNING
                  else rs_run_status rs)\<rparr>)))"

definition set_run_status :: "step_status \<Rightarrow> run_state \<Rightarrow> run_state" where
  "set_run_status nxt rs = rs\<lparr>rs_run_status := status_value nxt\<rparr>"

definition advance_index :: "run_state \<Rightarrow> run_state" where
  "advance_index rs =
     (if rs_current_step_index rs < int (length (rs_steps rs))
      then rs\<lparr>rs_current_step_index := rs_current_step_index rs + 1\<rparr> else rs)"

subsection \<open>Serialisation\<close>

fun opt_str :: "string option \<Rightarrow> pyval" where
  "opt_str None = PNone" | "opt_str (Some s) = PStr s"

fun opt_dict :: "dict option \<Rightarrow> pyval" where
  "opt_dict None = PNone" | "opt_dict (Some d) = PDict d"

definition step_to_dict :: "step_run_state \<Rightarrow> dict" where
  "step_to_dict s =
     [(''name'', PStr (st_name s)), (''agent'', PStr (st_agent s)),
      (''status'', PStr (status_value (st_status s))), (''attempts'', PInt (st_attempts s)),
      (''correlation_id'', opt_str (st_correlation_id s)), (''trace_id'', opt_str (st_trace_id s)),
      (''span_id'', opt_str (st_span_id s)), (''parent_span_id'', opt_str (st_parent_span_id s)),
      (''started_at'', opt_str (st_started_at s)), (''finished_at'', opt_str (st_finished_at s)),
      (''error'', opt_str (st_error s)), (''output'', opt_dict (st_output s)),
      (''input_hash'', opt_str (st_input_hash s))]"

definition run_state_to_dict :: "run_state \<Rightarrow> dict" where
  "run_state_to_dict rs =
     [(''run_id'', PStr (rs_run_id rs)), (''pipeline_name'', PStr (rs_pipeline_name rs)),
      (''correlation_id'', opt_str (rs_correlation_id rs)), (''trace_id'', opt_str (rs_trace_id rs)),
      (''steps'', PList (map (\<lambda>s. PDict (step_to_dict s)) (rs_steps rs))),
      (''current_step_index'', PInt (rs_current_step_index rs)),
      (''run_status'', PStr (rs_run_status rs))]"

text \<open>
  The record types fix the declared field types. A payload whose field has another
  type, which the dataclass would store unchecked, is the error \<open>ill_typed\<close>.
\<close>

definition ill_typed :: "string \<Rightarrow> exn" where
  "ill_typed k = TypeError (''ill-typed field '' @ k)"

definition need :: "dict \<Rightarrow> string \<Rightarrow> exn + pyval" where
  "need d k = (case map_of d k of None \<Rightarrow> Inl (KeyError k) | Some v \<Rightarrow> Inr v)"

fun as_str :: "string \<Rightarrow> pyval \<Rightarrow> exn + string" where
  "as_str k (PStr s) = Inr s" | "as_str k _ = Inl (ill_typed k)"

fun as_int :: "string \<Rightarrow> pyval \<Rightarrow> exn + int" where
  "as_int k (PInt i) = Inr i" | "as_int k _ = Inl (ill_typed k)"

fun as_opt_str :: "string \<Rightarrow> pyval \<Rightarrow> exn + string option" where
  "as_opt_str k PNone = Inr None" | "as_opt_str k (PStr s) = Inr (Some s)"
| "as_opt_str k _ = Inl (ill_typed k)"

fun as_opt_dict :: "string \<Rightarrow> pyval \<Rightarrow> exn + dict option" where
  "as_opt_dict k PNone = Inr None" | "as_opt_dict k (PDict d) = Inr (Some d)"
| "as_opt_dict k _ = Inl (ill_typed k)"

fun as_list :: "string \<Rightarrow> pyval \<Rightarrow> exn + pyval list" where
  "as_list k (PList xs) = Inr xs" | "as_list k _ = Inl (ill_typed k)"

fun as_dict :: "string \<Rightarrow> pyval \<Rightarrow> exn + dict" where
  "as_dict k (PDict d) = Inr d" | "as_dict k _ = Inl (ill_typed k)"

definition step_from_dict :: "dict \<Rightarrow> exn + step_run_state" where
  "step_from_dict p =
     bindE (bindE (need p ''name'') (as_str ''name'')) (\<lambda>name.
     bindE (bindE (need p ''agent'') (as_str ''agent'')) (\<lambda>agent.
     bindE (bindE (bindE (need p ''status'') (as_str ''status'')) status_of_value) (\<lambda>status.
     bindE (as_int ''attempts'' (dget_or p ''attempts'' (PInt 0))) (\<lambda>attempts.
     bindE (as_opt_str ''correlation_id'' (dget p ''correlation_id'')) (\<lambda>corr.
     bindE (as_opt_str ''trace_id'' (dget p ''trace_id'')) (\<lambda>trace.
     bindE (as_opt_str ''span_id'' (dget p ''span_id'')) (\<lambda>span.
     bindE (as_opt_str ''parent_span_id'' (dget p ''parent_span_id'')) (\<lambda>pspan.
     bindE (as_opt_str ''started_at'' (dget p ''started_at'')) (\<lambda>started.
     bindE (as_opt_str ''finished_at'' (dget p ''finished_at'')) (\<lambda>finished.
     bindE (as_opt_str ''error'' (dget p ''error'')) (\<lambda>err.
     bindE (as_opt_dict ''output'' (dget p ''output'')) (\<lambda>outp.
     bindE (as_opt_str ''input_hash'' (dget p ''input_hash'')) (\<lambda>ihash.
       Inr \<lparr>st_name = name, st_agent = agent, st_status = status, st_attempts = attempts,
            st_correlation_id = corr, st_trace_id = trace, st_span_id = span,
            st_parent_span_id = pspan, st_started_at = started, st_finished_at = finished,
            st_error = err, st_output = outp, st_input_hash = ihash\<rparr>)))))))))))))"

definition run_state_from_dict :: "dict \<Rightarrow> exn + run_state" where
  "run_state_from_dict p =
     bindE (bindE (need p ''run_id'') (as_str ''run_id'')) (\<lambda>run_id.
     bindE (bindE (need p ''pipeline_name'') (as_str ''pipeline_name'')) (\<lambda>pname.
     bindE (as_opt_str ''correlation_id'' (dget p ''correlation_id'')) (\<lambda>corr.
     bindE (as_opt_str ''trace_id'' (dget p ''trace_id'')) (\<lambda>trace.
     bindE (bindE (as_list ''steps'' (dget_or p ''steps'' (PList [])))
        (mapE (\<lambda>item. bindE (as_dict ''steps'' item) step_from_dict))) (\<lambda>steps.
     bindE (as_int ''current_step_index'' (dget_or p ''current_step_index'' (PInt 0))) (\<lambda>idx.
     bindE (as_str ''run_status'' (dget_or p ''run_status'' (PStr (status_value PENDING)))) (\<lambda>rstat.
       Inr \<lparr>rs_run_id = run_id, rs_pipeline_name = pname, rs_correlation_id = corr,
            rs_trace_id = trace, rs_steps = steps, rs_current_step_index = idx,
            rs_run_status = rstat\<rparr>)))))))"

lemma as_opt_str_opt_str [simp]: "as_opt_str k (opt_str s) = Inr s"
  by (cases s) simp_all

lemma as_opt_dict_opt_dict [simp]: "as_opt_dict k (opt_dict d) = Inr d"
  by (cases d) simp_all

lemma step_dict_roundtrip [simp]: "step_from_dict (step_to_dict s) = Inr s"
  by (simp add: step_from_dict_def step_to_dict_def need_def dget_def dget_or_def)

lemma mapE_steps: "mapE (\<lambda>item. bindE (as_dict k item) step_from_dict)
    (map (\<lambda>s. PDict (step_to_dict s)) ss) = Inr ss"
  by (induction ss) simp_all

lemma run_state_dict_roundtrip: "run_state_from_dict (run_state_to_dict rs) = Inr rs"
  by (simp add: run_state_from_dict_def run_state_to_dict_def need_def dget_def dget_or_def mapE_steps)

subsection \<open>Frame and effect of the operations\<close>

lemma mark_step_simps [simp]:
  "st_name (mark_step nxt a s) = st_name s"
  "st_agent (mark_step nxt a s) = st_agent s"
  "st_status (mark_step nxt a s) = nxt"
  "st_attempts (mark_step nxt a s) = (if nxt = RUNNING then st_attempts s + 1 else st_attempts s)"
  "st_error (mark_step nxt a s) = or_keep (ma_error a) (st_error s)"
  "st_output (mark_step nxt a s) = or_keep (ma_output a) (st_output s)"
  "st_input_hash (mark_step nxt a s) = or_keep (ma_input_hash a) (st_input_hash s)"
  "st_started_at (mark_step nxt a s) =
     (if nxt = RUNNING then ma_started_at a else st_started_at s)"
  "st_finished_at (mark_step nxt a s) =
     (if nxt = PENDING \<or> nxt = RUNNING then st_finished_at s else ma_finished_at a)"
  by (cases nxt; simp add: mark_step_def Let_def)+

lemma update_first_keeps:
  assumes "\<And>s. g (f s) = g s"
  shows "map g (update_first p f ss) = map g ss"
  by (induction ss) (simp_all add: assms)

lemma find_update_first:
  assumes "\<And>s. st_name (f s) = st_name s"
  shows "find (\<lambda>s. st_name s = n) (update_first (\<lambda>s. st_name s = m) f ss) =
    (if n = m then map_option f (find (\<lambda>s. st_name s = n) ss) else find (\<lambda>s. st_name s = n) ss)"
  by (induction ss) (auto simp: assms)

lemma mark_step_status_Inr [returns_iff]:
  "mark_step_status name nxt a rs = Inr rs' \<longleftrightarrow>
     (\<exists>s. get_step name rs = Inr s \<and> can_transition (st_status s) nxt \<and>
          rs' = rs\<lparr>rs_steps := update_first (\<lambda>s. st_name s = name) (mark_step nxt a) (rs_steps rs),
               rs_run_status :=
                 (if nxt \<in> {FAILED, BLOCKED} then status_value nxt
                  else if nxt = RUNNING then status_value RUNNING
                  else rs_run_status rs)\<rparr>)"
  by (auto simp: mark_step_status_def returns_iff)

lemma get_step_Inr: "get_step n rs = Inr s \<longleftrightarrow> find (\<lambda>s. st_name s = n) (rs_steps rs) = Some s"
  by (auto simp: get_step_def split: option.splits)

lemma get_step_total: "n \<in> st_name ` set (rs_steps rs) \<Longrightarrow> \<exists>s. get_step n rs = Inr s"
  by (auto simp: get_step_def find_None_iff split: option.splits)

lemma get_step_mark:
  assumes "mark_step_status name nxt a rs = Inr rs'"
  shows "get_step n rs' = (if n = name then map_sum id (mark_step nxt a) (get_step n rs) else get_step n rs)"
  using assms by (auto simp: returns_iff get_step_def find_update_first split: option.splits)

lemma mark_step_status_frame:
  assumes "mark_step_status name nxt a rs = Inr rs'"
  shows "map st_name (rs_steps rs') = map st_name (rs_steps rs)"
    and "length (rs_steps rs') = length (rs_steps rs)"
    and "rs_current_step_index rs' = rs_current_step_index rs"
    and "rs_run_id rs' = rs_run_id rs" and "rs_pipeline_name rs' = rs_pipeline_name rs"
proof -
  show names: "map st_name (rs_steps rs') = map st_name (rs_steps rs)"
    using assms by (auto simp: returns_iff update_first_keeps [where g = st_name])
  then show "length (rs_steps rs') = length (rs_steps rs)" by (metis length_map)
qed (use assms in \<open>auto simp: returns_iff\<close>)

lemma set_run_status_simps [simp]:
  "rs_steps (set_run_status s rs) = rs_steps rs"
  "rs_current_step_index (set_run_status s rs) = rs_current_step_index rs"
  "rs_run_status (set_run_status s rs) = status_value s"
  "get_step n (set_run_status s rs) = get_step n rs"
  by (simp_all add: set_run_status_def get_step_def)

lemma advance_index_simps [simp]:
  "rs_steps (advance_index rs) = rs_steps rs"
  "rs_run_status (advance_index rs) = rs_run_status rs"
  "get_step n (advance_index rs) = get_step n rs"
  by (simp_all add: advance_index_def get_step_def)

subsection \<open>Reachable run states\<close>

text \<open>
  The states of a run of a pipeline with the given steps: the fresh state, and whatever
  the three mutating operations make of a reachable state.
\<close>

inductive rs_step :: "run_state \<Rightarrow> run_state \<Rightarrow> bool" where
  rs_mark: "mark_step_status name nxt a rs = Inr rs' \<Longrightarrow> rs_step rs rs'"
| rs_set: "rs_step rs (set_run_status nxt rs)"
| rs_advance: "rs_step rs (advance_index rs)"

inductive_cases rs_stepE: "rs_step rs rs'"

inductive rs_reachable :: "(string \<times> string) list \<Rightarrow> run_state \<Rightarrow> bool" for steps where
  rs_init: "rs_reachable steps (run_state_from_steps run_id pname steps corr trace)"
| rs_next: "rs_reachable steps rs \<Longrightarrow> rs_step rs rs' \<Longrightarrow> rs_reachable steps rs'"

definition step_ok :: "step_run_state \<Rightarrow> bool" where
  "step_ok s \<longleftrightarrow> 0 \<le> st_attempts s \<and>
     (st_status s = PENDING \<longrightarrow> st_attempts s = 0 \<and> st_started_at s = None \<and> st_finished_at s = None) \<and>
     (st_status s \<in> {RUNNING, SUCCESS, PARTIAL_SUCCESS, FAILED} \<longrightarrow> 1 \<le> st_attempts s)"

definition run_state_ok :: "(string \<times> string) list \<Rightarrow> run_state \<Rightarrow> bool" where
  "run_state_ok steps rs \<longleftrightarrow>
     map (\<lambda>s. (st_name s, st_agent s)) (rs_steps rs) = steps \<and>
     (\<forall>s \<in> set (rs_steps rs). step_ok s) \<and>
     0 \<le> rs_current_step_index rs \<and> rs_current_step_index rs \<le> int (length steps) \<and>
     rs_run_status rs \<in> status_value ` set all_statuses"

lemma status_value_in [simp]: "status_value s \<in> status_value ` set all_statuses"
  by (intro imageI all_statuses_complete)

lemma step_ok_mark:
  "step_ok s \<Longrightarrow> can_transition (st_status s) nxt \<Longrightarrow> nxt \<noteq> PENDING \<Longrightarrow> step_ok (mark_step nxt a s)"
  by (cases "st_status s"; cases nxt) (auto simp: step_ok_def can_transition_def)

lemma step_ok_mark_PENDING:
  "step_ok s \<Longrightarrow> can_transition (st_status s) PENDING \<Longrightarrow> step_ok (mark_step PENDING a s)"
  by (auto simp: step_ok_def can_transition_PENDING)

lemma in_update_first:
  assumes "s \<in> set (update_first p f ss)"
  shows "s \<in> set ss \<or> (\<exists>t. find p ss = Some t \<and> s = f t)"
  using assms by (induction ss) (auto split: if_splits)

lemma find_in_set: "find p xs = Some x \<Longrightarrow> x \<in> set xs"
  by (auto simp: find_Some_iff)

lemma run_state_ok_mark:
  assumes ok: "run_state_ok steps rs" and m: "mark_step_status name nxt a rs = Inr rs'"
  shows "run_state_ok steps rs'"
proof -
  have frame: "rs_current_step_index rs' = rs_current_step_index rs"
    using m by (rule mark_step_status_frame)
  have names: "map (\<lambda>s. (st_name s, st_agent s)) (rs_steps rs') =
      map (\<lambda>s. (st_name s, st_agent s)) (rs_steps rs)"
    using m by (auto simp: returns_iff update_first_keeps [where g = "\<lambda>s. (st_name s, st_agent s)"])
  obtain t where t: "get_step name rs = Inr t" "can_transition (st_status t) nxt"
    using m by (auto simp: returns_iff)
  have t_ok: "step_ok t"
    using t(1) ok by (auto simp: get_step_Inr run_state_ok_def dest: find_in_set)
  have new_ok: "step_ok (mark_step nxt a t)"
    using t_ok t(2) step_ok_mark step_ok_mark_PENDING by (cases "nxt = PENDING") auto
  have "step_ok s" if "s \<in> set (rs_steps rs')" for s
    using that m ok t(1) new_ok
    by (auto simp: returns_iff run_state_ok_def get_step_Inr dest!: in_update_first)
  moreover have "rs_run_status rs' \<in> status_value ` set all_statuses"
    using m ok by (cases nxt) (auto simp: returns_iff run_state_ok_def all_statuses_def)
  ultimately show ?thesis using ok frame names by (simp add: run_state_ok_def)
qed

lemma run_state_ok_step:
  assumes "run_state_ok steps rs" "rs_step rs rs'"
  shows "run_state_ok steps rs'"
  using assms(2)
proof (cases rule: rs_step.cases)
  case rs_mark
  with assms(1) show ?thesis by (blast intro: run_state_ok_mark)
next
  case rs_set
  with assms(1) show ?thesis by (auto simp: run_state_ok_def)
next
  case rs_advance
  with assms(1) show ?thesis by (auto simp: run_state_ok_def advance_index_def dest: map_eq_imp_length_eq)
qed

lemma rs_reachable_ok: "rs_reachable steps rs \<Longrightarrow> run_state_ok steps rs"
proof (induction rule: rs_reachable.induct)
  case rs_init
  show ?case
    by (auto simp: run_state_ok_def run_state_from_steps_def new_step_state_def step_ok_def
        comp_def split_beta all_statuses_def)
next
  case (rs_next rs rs')
  then show ?case by (blast intro: run_state_ok_step)
qed

end
