(* ===== verification/Context.thy ===== *)
theory Context
  imports RunState
begin

text \<open>
  \<open>orchestrator/pipeline_state.py\<close> and \<open>orchestrator/context.py\<close>: the execution
  context of a run and the typed pipeline state derived from it. The metadata key
  \<open>__checkpoint_callback\<close> holds a callable, which is not a JSON value: the field
  \<open>ec_has_callback\<close> says whether it is there.
\<close>

subsection \<open>Pipeline state\<close>

record pipeline_state =
  ps_run_id :: string
  ps_pipeline_name :: string
  ps_current_step :: "string option"
  ps_artifacts :: dict
  ps_pending_steps :: "string list"
  ps_failed_steps :: "string list"
  ps_locks :: "string list"
  ps_retry_state :: "(string \<times> int) list"

text \<open>The constructor rejects an empty \<open>run_id\<close> or \<open>pipeline_name\<close> (\<open>min_length=1\<close>).\<close>

definition pipeline_state_from_legacy :: "string \<Rightarrow> string \<Rightarrow> dict \<Rightarrow> exn + pipeline_state" where
  "pipeline_state_from_legacy run_id pname legacy =
     (if run_id = [] then Inl (ValueError ''run_id: string_too_short'')
      else if pname = [] then Inl (ValueError ''pipeline_name: string_too_short'')
      else Inr \<lparr>ps_run_id = run_id, ps_pipeline_name = pname, ps_current_step = None,
                ps_artifacts = legacy, ps_pending_steps = [], ps_failed_steps = [],
                ps_locks = [], ps_retry_state = []\<rparr>)"

text \<open>\<open>model_dump(mode="json")\<close>: the fields in declaration order.\<close>

definition pipeline_state_dump :: "pipeline_state \<Rightarrow> dict" where
  "pipeline_state_dump ps =
     [(''run_id'', PStr (ps_run_id ps)), (''pipeline_name'', PStr (ps_pipeline_name ps)),
      (''current_step'', opt_str (ps_current_step ps)), (''artifacts'', PDict (ps_artifacts ps)),
      (''pending_steps'', PList (map PStr (ps_pending_steps ps))),
      (''failed_steps'', PList (map PStr (ps_failed_steps ps))),
      (''locks'', PList (map PStr (ps_locks ps))),
      (''retry_state'', PDict (map (\<lambda>(k, n). (k, PInt n)) (ps_retry_state ps)))]"

subsection \<open>Execution context\<close>

record exec_context =
  ec_run_id :: string
  ec_pipeline_name :: string
  ec_inputs :: dict
  ec_trigger_type :: "string option"
  ec_state :: dict
  ec_metadata :: dict
  ec_has_callback :: bool
  ec_step_results :: "(string \<times> dict) list"
  ec_pipeline_state :: pipeline_state

definition mk_context ::
  "string \<Rightarrow> string \<Rightarrow> dict \<Rightarrow> string option \<Rightarrow> dict \<Rightarrow> dict \<Rightarrow> bool \<Rightarrow> pipeline_state option
   \<Rightarrow> exn + exec_context" where
  "mk_context run_id pname inputs trigger st metadata cb ps =
     (let st' = (if st = [] then inputs else st) in
      bindE (case ps of Some p \<Rightarrow> Inr p | None \<Rightarrow> pipeline_state_from_legacy run_id pname st') (\<lambda>p.
        Inr \<lparr>ec_run_id = run_id, ec_pipeline_name = pname, ec_inputs = inputs,
             ec_trigger_type = trigger, ec_state = st', ec_metadata = metadata,
             ec_has_callback = cb, ec_step_results = [], ec_pipeline_state = p\<rparr>))"

definition update_state :: "dict \<Rightarrow> exec_context \<Rightarrow> exec_context" where
  "update_state updates c =
     c\<lparr>ec_state := dict_update updates (ec_state c),
       ec_pipeline_state := (ec_pipeline_state c)
         \<lparr>ps_artifacts := dict_update updates (ps_artifacts (ec_pipeline_state c))\<rparr>\<rparr>"

definition set_state_value :: "string \<Rightarrow> pyval \<Rightarrow> exec_context \<Rightarrow> exec_context" where
  "set_state_value k v c =
     c\<lparr>ec_state := dset k v (ec_state c),
       ec_pipeline_state := (ec_pipeline_state c)
         \<lparr>ps_artifacts := dset k v (ps_artifacts (ec_pipeline_state c))\<rparr>\<rparr>"

definition record_step_result :: "string \<Rightarrow> dict \<Rightarrow> exec_context \<Rightarrow> exec_context" where
  "record_step_result name result c =
     c\<lparr>ec_step_results := AList.update name result (ec_step_results c),
       ec_state := dset name (PDict result) (ec_state c),
       ec_pipeline_state := (ec_pipeline_state c)
         \<lparr>ps_artifacts := dset name (PDict result) (ps_artifacts (ec_pipeline_state c)),
          ps_current_step := Some name\<rparr>\<rparr>"

subsection \<open>Deriving the pipeline state from the run state\<close>

record sync_acc =
  sa_completed :: "string list"
  sa_failed :: "string list"
  sa_retry :: "(string \<times> int) list"
  sa_current :: "string option"

definition sync_step :: "step_run_state \<Rightarrow> sync_acc \<Rightarrow> sync_acc" where
  "sync_step s acc =
     (let name = py_strip (st_name s) in
      if name = [] then acc
      else let acc1 = acc\<lparr>sa_retry := AList.update name (max 0 (st_attempts s - 1)) (sa_retry acc)\<rparr> in
        if st_status s \<in> {SUCCESS, PARTIAL_SUCCESS, SKIPPED}
        then acc1\<lparr>sa_completed := List.insert name (sa_completed acc1)\<rparr>
        else if st_status s \<in> {FAILED, BLOCKED}
        then acc1\<lparr>sa_failed := sa_failed acc1 @ [name], sa_current := Some name\<rparr>
        else if st_status s = RUNNING then acc1\<lparr>sa_current := Some name\<rparr>
        else acc1)"

definition sync_pending :: "string list \<Rightarrow> sync_acc \<Rightarrow> string list" where
  "sync_pending all_steps acc =
     (let pending = filter (\<lambda>n. n \<noteq> [] \<and> n \<notin> set (sa_completed acc) \<and> n \<notin> set (sa_failed acc)
                               \<and> Some n \<noteq> sa_current acc) all_steps
      in case sa_current acc of
           None \<Rightarrow> pending
         | Some cur \<Rightarrow> if cur \<noteq> [] \<and> cur \<notin> set pending \<and> cur \<in> set all_steps
                       then cur # pending else pending)"

definition normalized_locks :: "(rat \<Rightarrow> string) \<Rightarrow> dict \<Rightarrow> string list" where
  "normalized_locks fstr st =
     (case dget st ''__locks'' of
        PList items \<Rightarrow> filter (\<lambda>s. py_strip s \<noteq> []) (map (py_str fstr) items)
      | _ \<Rightarrow> [])"

definition sync_pipeline_state :: "(rat \<Rightarrow> string) \<Rightarrow> run_state \<Rightarrow> exec_context \<Rightarrow> exec_context" where
  "sync_pipeline_state fstr rs c =
     (let acc = fold sync_step (rs_steps rs)
            \<lparr>sa_completed = [], sa_failed = [], sa_retry = [], sa_current = None\<rparr>;
          all_steps = map (\<lambda>s. py_strip (st_name s)) (rs_steps rs)
      in c\<lparr>ec_pipeline_state := (ec_pipeline_state c)
            \<lparr>ps_current_step := sa_current acc,
             ps_pending_steps := sync_pending all_steps acc,
             ps_failed_steps := sa_failed acc,
             ps_retry_state := sa_retry acc,
             ps_locks := normalized_locks fstr (ec_state c)\<rparr>\<rparr>)"

definition context_to_dict :: "exec_context \<Rightarrow> dict" where
  "context_to_dict c =
     [(''run_id'', PStr (ec_run_id c)), (''pipeline_name'', PStr (ec_pipeline_name c)),
      (''trigger_type'', opt_str (ec_trigger_type c)), (''inputs'', PDict (ec_inputs c)),
      (''state'', PDict (ec_state c)), (''metadata'', PDict (ec_metadata c)),
      (''step_results'', PDict (map (\<lambda>(k, d). (k, PDict d)) (ec_step_results c))),
      (''pipeline_state'', PDict (pipeline_state_dump (ec_pipeline_state c)))]"

subsection \<open>What the operations keep\<close>

text \<open>
  The artifacts of the pipeline state mirror the state dictionary: they start as a copy
  and every operation writes both.
\<close>

definition mirrored :: "exec_context \<Rightarrow> bool" where
  "mirrored c \<longleftrightarrow> ps_artifacts (ec_pipeline_state c) = ec_state c"

lemma mirrored_mk_context:
  "mk_context r p i t st m cb None = Inr c \<Longrightarrow> mirrored c"
  by (auto simp: mk_context_def pipeline_state_from_legacy_def mirrored_def returns_iff Let_def
      split: if_splits)

lemma mirrored_ops:
  assumes "mirrored c"
  shows "mirrored (update_state u c)" "mirrored (set_state_value k v c)"
    "mirrored (record_step_result n r c)" "mirrored (sync_pipeline_state fstr rs c)"
  using assms
  by (simp_all add: mirrored_def update_state_def set_state_value_def record_step_result_def
      sync_pipeline_state_def Let_def)

lemma record_step_result_simps [simp]:
  "ec_step_results (record_step_result n r c) = AList.update n r (ec_step_results c)"
  "ec_state (record_step_result n r c) = dset n (PDict r) (ec_state c)"
  "ec_metadata (record_step_result n r c) = ec_metadata c"
  "ec_has_callback (record_step_result n r c) = ec_has_callback c"
  "ec_run_id (record_step_result n r c) = ec_run_id c"
  "ec_pipeline_name (record_step_result n r c) = ec_pipeline_name c"
  by (simp_all add: record_step_result_def)

lemma set_state_value_simps [simp]:
  "ec_step_results (set_state_value k v c) = ec_step_results c"
  "ec_state (set_state_value k v c) = dset k v (ec_state c)"
  "ec_metadata (set_state_value k v c) = ec_metadata c"
  "ec_has_callback (set_state_value k v c) = ec_has_callback c"
  "ec_run_id (set_state_value k v c) = ec_run_id c"
  "ec_pipeline_name (set_state_value k v c) = ec_pipeline_name c"
  by (simp_all add: set_state_value_def)

lemma sync_pipeline_state_simps [simp]:
  "ec_step_results (sync_pipeline_state fstr rs c) = ec_step_results c"
  "ec_state (sync_pipeline_state fstr rs c) = ec_state c"
  "ec_metadata (sync_pipeline_state fstr rs c) = ec_metadata c"
  "ec_has_callback (sync_pipeline_state fstr rs c) = ec_has_callback c"
  "ec_run_id (sync_pipeline_state fstr rs c) = ec_run_id c"
  "ec_pipeline_name (sync_pipeline_state fstr rs c) = ec_pipeline_name c"
  by (simp_all add: sync_pipeline_state_def Let_def)

subsection \<open>The classes of steps after synchronisation\<close>

text \<open>
  What the loop over the steps leaves in its accumulator. A step is known by its name
  without outer blanks; a step without one is passed over.
\<close>

definition named_steps :: "step_run_state list \<Rightarrow> step_run_state list" where
  "named_steps ss = filter (\<lambda>s. py_strip (st_name s) \<noteq> []) ss"

definition names_with :: "step_status set \<Rightarrow> step_run_state list \<Rightarrow> string list" where
  "names_with S ss = map (\<lambda>s. py_strip (st_name s)) (filter (\<lambda>s. st_status s \<in> S) (named_steps ss))"

definition last_of :: "'a list \<Rightarrow> 'a option" where
  "last_of xs = (if xs = [] then None else Some (last xs))"

lemma last_of_snoc [simp]: "last_of [] = None" "last_of (xs @ [x]) = Some x"
  by (simp_all add: last_of_def)

lemma names_with_snoc [simp]:
  "names_with S [] = []"
  "names_with S (ss @ [s]) = names_with S ss @
     (if py_strip (st_name s) \<noteq> [] \<and> st_status s \<in> S then [py_strip (st_name s)] else [])"
  by (simp_all add: names_with_def named_steps_def)

definition acc_inv :: "step_run_state list \<Rightarrow> sync_acc \<Rightarrow> bool" where
  "acc_inv ss acc \<longleftrightarrow>
     set (sa_completed acc) = set (names_with {SUCCESS, PARTIAL_SUCCESS, SKIPPED} ss) \<and>
     sa_failed acc = names_with {FAILED, BLOCKED} ss \<and>
     sa_current acc = last_of (names_with {FAILED, BLOCKED, RUNNING} ss) \<and>
     (\<forall>n. map_of (sa_retry acc) n =
        map_option (\<lambda>s. max 0 (st_attempts s - 1)) (last_of (filter (\<lambda>s. py_strip (st_name s) = n) (named_steps ss))))"

lemma acc_inv_step:
  assumes "acc_inv ss acc"
  shows "acc_inv (ss @ [s]) (sync_step s acc)"
  using assms unfolding acc_inv_def sync_step_def Let_def
  by (cases "st_status s") (auto simp: named_steps_def)

lemma acc_inv_fold: "acc_inv ss0 acc \<Longrightarrow> acc_inv (ss0 @ ss) (fold sync_step ss acc)"
proof (induction ss arbitrary: ss0 acc)
  case Nil
  then show ?case by simp
next
  case (Cons s ss)
  from Cons.IH [OF acc_inv_step [OF Cons.prems]] show ?case by simp
qed

lemma acc_inv_all:
  "acc_inv ss (fold sync_step ss \<lparr>sa_completed = [], sa_failed = [], sa_retry = [], sa_current = None\<rparr>)"
proof -
  have "acc_inv [] \<lparr>sa_completed = [], sa_failed = [], sa_retry = [], sa_current = None\<rparr>"
    by (simp add: acc_inv_def named_steps_def)
  from acc_inv_fold [OF this, of ss] show ?thesis by simp
qed

lemma sync_pending_iff:
  "n \<in> set (sync_pending names acc) \<longleftrightarrow> n \<in> set names \<and> n \<noteq> [] \<and>
     (n \<notin> set (sa_completed acc) \<and> n \<notin> set (sa_failed acc) \<or> Some n = sa_current acc)"
  by (auto simp: sync_pending_def Let_def split: option.splits)

lemma mem_names_with:
  "n \<in> set (names_with S ss) \<longleftrightarrow> (\<exists>s \<in> set (named_steps ss). py_strip (st_name s) = n \<and> st_status s \<in> S)"
  by (auto simp: names_with_def)

lemma last_of_mem: "last_of xs = Some x \<Longrightarrow> x \<in> set xs"
  by (auto simp: last_of_def split: if_splits)

lemma mem_step_names:
  "n \<in> set (map (\<lambda>s. py_strip (st_name s)) ss) \<and> n \<noteq> [] \<longleftrightarrow>
   (\<exists>s \<in> set (named_steps ss). py_strip (st_name s) = n)"
  by (auto simp: named_steps_def)

lemma status_cases:
  "st_status s \<in> {SUCCESS, PARTIAL_SUCCESS, SKIPPED} \<or> st_status s \<in> {FAILED, BLOCKED} \<longleftrightarrow>
   st_status s \<notin> {PENDING, RUNNING}"
  by (cases "st_status s") simp_all

lemma not_through:
  "n \<notin> set (names_with {SUCCESS, PARTIAL_SUCCESS, SKIPPED} ss) \<and> n \<notin> set (names_with {FAILED, BLOCKED} ss) \<longleftrightarrow>
   list_all (\<lambda>s. st_status s \<in> {PENDING, RUNNING}) (filter (\<lambda>s. py_strip (st_name s) = n) (named_steps ss))"
proof -
  have "st_status s \<in> {PENDING, RUNNING} \<longleftrightarrow>
      \<not> (st_status s \<in> {SUCCESS, PARTIAL_SUCCESS, SKIPPED} \<or> st_status s \<in> {FAILED, BLOCKED})" for s :: step_run_state
    by (simp only: status_cases not_not)
  then show ?thesis
    unfolding mem_names_with list_all_iff set_filter by (simp only: mem_Collect_eq Ball_def Bex_def) metis
qed

lemma pending_iff:
  assumes "acc_inv ss acc"
  shows "n \<in> set (sync_pending (map (\<lambda>s. py_strip (st_name s)) ss) acc) \<longleftrightarrow>
      filter (\<lambda>s. py_strip (st_name s) = n) (named_steps ss) \<noteq> [] \<and>
      (sa_current acc = Some n \<or> list_all (\<lambda>s. st_status s \<in> {PENDING, RUNNING})
         (filter (\<lambda>s. py_strip (st_name s) = n) (named_steps ss)))"
proof -
  have a: "n \<notin> set (sa_completed acc) \<and> n \<notin> set (sa_failed acc) \<longleftrightarrow>
      list_all (\<lambda>s. st_status s \<in> {PENDING, RUNNING})
        (filter (\<lambda>s. py_strip (st_name s) = n) (named_steps ss))"
    using assms unfolding acc_inv_def not_through [symmetric] by simp
  have b: "n \<in> set (map (\<lambda>s. py_strip (st_name s)) ss) \<and> n \<noteq> [] \<longleftrightarrow>
      filter (\<lambda>s. py_strip (st_name s) = n) (named_steps ss) \<noteq> []"
    unfolding mem_step_names by (auto simp: filter_empty_conv)
  show ?thesis unfolding sync_pending_iff a [symmetric] b [symmetric] by auto
qed

text \<open>
  C8: what synchronisation makes of a run state, for every list of steps. The failed
  steps are the ones that failed or are blocked, in order. The current step is the last
  one that is running, failed or blocked. A name is pending exactly when it is the name
  of a step and either it is the current one or every step of that name is pending or
  running: a step that shares its name, up to outer blanks, with one that is through is
  not pending any more. The retries of a name are the attempts of its last step less one.
\<close>

theorem sync_classes:
  "let ps = ec_pipeline_state (sync_pipeline_state fstr rs c);
       of_name = (\<lambda>n. filter (\<lambda>s. py_strip (st_name s) = n) (named_steps (rs_steps rs))) in
    ps_failed_steps ps = names_with {FAILED, BLOCKED} (rs_steps rs) \<and>
    ps_current_step ps = last_of (names_with {FAILED, BLOCKED, RUNNING} (rs_steps rs)) \<and>
    (\<forall>n. n \<in> set (ps_pending_steps ps) \<longleftrightarrow> of_name n \<noteq> [] \<and>
       (ps_current_step ps = Some n \<or> list_all (\<lambda>s. st_status s \<in> {PENDING, RUNNING}) (of_name n))) \<and>
    (\<forall>n. map_of (ps_retry_state ps) n = map_option (\<lambda>s. max 0 (st_attempts s - 1)) (last_of (of_name n)))"
proof -
  define acc where "acc = fold sync_step (rs_steps rs)
    \<lparr>sa_completed = [], sa_failed = [], sa_retry = [], sa_current = None\<rparr>"
  have inv: "acc_inv (rs_steps rs) acc" unfolding acc_def by (rule acc_inv_all)
  show ?thesis
    unfolding sync_pipeline_state_def Let_def acc_def [symmetric]
    using inv pending_iff [OF inv] unfolding acc_inv_def by simp
qed

end
