(* ===== verification/Executor.thy ===== *)
theory Executor
  imports Coerce Context Placeholders Loader StateExn
begin

text \<open>
  \<open>orchestrator/executor.py\<close>: the execution of one step. What is outside the sources
  is a field of \<open>exec_env\<close>: the template engine, the agents with their registry, the
  JSON reader, the digest, the clock and the random identifiers. An agent sees the
  shared state and the mapped inputs, writes keys of the shared state, and ends with a
  value or an exception after some time.
\<close>

subsection \<open>Environment and state\<close>

record agent_outcome =
  ao_updates :: dict
  ao_result :: "exn + pyval"
  ao_duration :: rat

record exec_env =
  ee_fstr :: "rat \<Rightarrow> string"
  ee_sha256 :: "string \<Rightarrow> string"
  ee_now :: "nat \<Rightarrow> string"
  ee_uuid :: "nat \<Rightarrow> string"
  ee_render :: "(string \<Rightarrow> dict \<Rightarrow> exn + string) option"
  ee_json_loads :: "string \<Rightarrow> exn + pyval"
  ee_has_agent :: "string \<Rightarrow> bool"
  ee_agent :: "string \<Rightarrow> dict \<Rightarrow> dict \<Rightarrow> nat \<Rightarrow> agent_outcome"
  ee_validator :: schema_validator
  ee_strict :: bool

text \<open>
  \<open>os_tick\<close> counts the reads of the clock, the identifiers drawn and the agent calls,
  so that each of them may give another value.
\<close>

record orch_state =
  os_ctx :: exec_context
  os_rs :: run_state
  os_tick :: nat
  os_slept :: "rat list"
  os_checkpoints :: "dict list"

definition tickS :: "(nat \<Rightarrow> 'a) \<Rightarrow> ('b orch_state_scheme, 'a) st" where
  "tickS f s = (Inr (f (os_tick s)), s\<lparr>os_tick := os_tick s + 1\<rparr>)"

definition ctxS :: "(exec_context \<Rightarrow> exec_context) \<Rightarrow> ('b orch_state_scheme, unit) st" where
  "ctxS f = modifyS (\<lambda>s. s\<lparr>os_ctx := f (os_ctx s)\<rparr>)"

definition rsS :: "(run_state \<Rightarrow> run_state) \<Rightarrow> ('b orch_state_scheme, unit) st" where
  "rsS f = modifyS (\<lambda>s. s\<lparr>os_rs := f (os_rs s)\<rparr>)"

definition markS :: "string \<Rightarrow> step_status \<Rightarrow> mark_args \<Rightarrow> ('b orch_state_scheme, unit) st" where
  "markS name st a = updateE (\<lambda>s. bindE (mark_step_status name st a (os_rs s)) (\<lambda>rs. Inr (s\<lparr>os_rs := rs\<rparr>)))"

subsection \<open>Input mapping\<close>

definition is_bracket_path_char :: "char \<Rightarrow> bool" where
  "is_bracket_path_char c \<longleftrightarrow> is_path_char c \<or> c = CHR ''['' \<or> c = CHR '']''"

text \<open>A placeholder at the start of the text: its path and the text after it.\<close>

definition match_template :: "string \<Rightarrow> (string \<times> string) option" where
  "match_template s =
     (if starts_with ''{{'' s then
        let r1 = py_lstrip (drop 2 s); w = takeWhile is_bracket_path_char r1;
            r2 = py_lstrip (dropWhile is_bracket_path_char r1)
        in if w \<noteq> [] \<and> starts_with ''}}'' r2 then Some (w, drop 2 r2) else None
      else None)"

definition scalar_template :: "string \<Rightarrow> string option" where
  "scalar_template s = (case match_template (py_strip s) of
     Some (w, []) \<Rightarrow> Some w | _ \<Rightarrow> None)"

definition rstrip_char :: "char \<Rightarrow> string \<Rightarrow> string" where
  "rstrip_char c s = rev (dropWhile (\<lambda>x. x = c) (rev s))"

definition bracket_index :: "string \<Rightarrow> exn + string \<times> int" where
  "bracket_index part =
     (case split_on CHR ''['' part of
        [key, idx] \<Rightarrow>
          (case parse_int (rstrip_char CHR '']'' idx) of
             Some i \<Rightarrow> Inr (key, i)
           | None \<Rightarrow> Inl (ValueError (''invalid literal for int() with base 10: ''
                       @ repr_string (rstrip_char CHR '']'' idx))))
      | _ \<Rightarrow> Inl (ValueError ''too many values to unpack (expected 2)''))"

fun resolve_parts :: "pyval \<Rightarrow> string list \<Rightarrow> exn + pyval" where
  "resolve_parts current [] = Inr current"
| "resolve_parts current (part # parts) =
     (case (case current of PDict d \<Rightarrow> map_of d part | _ \<Rightarrow> None) of
        Some v \<Rightarrow> resolve_parts v parts
      | None \<Rightarrow>
          if CHR ''['' \<in> set part \<and> CHR '']'' \<in> set part then
            bindE (bracket_index part) (\<lambda>(key, i).
              case (case current of PDict d \<Rightarrow> map_of d key | _ \<Rightarrow> None) of
                Some (PList arr) \<Rightarrow>
                  if 0 \<le> i \<and> i < int (length arr) then resolve_parts (arr ! nat i) parts else Inr PNone
              | _ \<Rightarrow> Inr PNone)
          else Inr PNone)"

definition resolve_path :: "dict \<Rightarrow> string \<Rightarrow> exn + pyval" where
  "resolve_path src dotted = resolve_parts (PDict src) (split_on CHR ''.'' dotted)"

definition try_parse_json :: "exec_env \<Rightarrow> string \<Rightarrow> pyval" where
  "try_parse_json env value =
     (let v = py_strip value in
      if starts_with ''{'' v \<and> ends_with ''}'' v \<or> starts_with ''['' v \<and> ends_with '']'' v
      then (case ee_json_loads env v of Inr x \<Rightarrow> x | Inl _ \<Rightarrow> PStr v) else PStr v)"

definition render_value :: "exec_env \<Rightarrow> (string \<Rightarrow> dict \<Rightarrow> exn + string) \<Rightarrow> dict \<Rightarrow> string \<Rightarrow> pyval" where
  "render_value env render st raw =
     (case render raw st of Inr rendered \<Rightarrow> try_parse_json env rendered | Inl _ \<Rightarrow> PStr raw)"

definition resolve_value ::
  "exec_env \<Rightarrow> (string \<Rightarrow> dict \<Rightarrow> exn + string) \<Rightarrow> dict \<Rightarrow> pyval \<Rightarrow> exn + pyval" where
  "resolve_value env render st v =
     (case v of
        PStr raw \<Rightarrow>
          (case scalar_template raw of
             Some path \<Rightarrow> bindE (resolve_path st path) (\<lambda>r.
               if r \<noteq> PNone then Inr r else Inr (render_value env render st raw))
           | None \<Rightarrow> Inr (render_value env render st raw))
      | _ \<Rightarrow> Inr v)"

text \<open>A mapping entry: a text, an object or a list is resolved, one level deep.\<close>

definition resolve_entry :: "(pyval \<Rightarrow> exn + pyval) \<Rightarrow> pyval \<Rightarrow> exn + pyval" where
  "resolve_entry resolve v =
     (case v of
        PDict d \<Rightarrow> bindE (mapE (\<lambda>p. bindE (resolve (snd p)) (\<lambda>x. Inr (fst p, x))) d) (\<lambda>d'. Inr (PDict d'))
      | PList xs \<Rightarrow> bindE (mapE resolve xs) (\<lambda>ys. Inr (PList ys))
      | _ \<Rightarrow> resolve v)"

definition apply_mapping :: "(pyval \<Rightarrow> exn + pyval) \<Rightarrow> dict \<Rightarrow> dict \<Rightarrow> exn + dict" where
  "apply_mapping resolve mapping st =
     foldE (\<lambda>p payload. bindE (resolve_entry resolve (snd p)) (\<lambda>x. Inr (dset (fst p) x payload))) mapping st"

text \<open>The fallback without the template engine replaces the placeholders itself.\<close>

function find_templates :: "string \<Rightarrow> string list" where
  "find_templates [] = []"
| "find_templates (c # s) =
     (case match_template (c # s) of
        Some (w, r) \<Rightarrow> (if length r < length (c # s) then w # find_templates r else [w])
      | None \<Rightarrow> find_templates s)"
  by pat_completeness auto
termination by (relation "measure length") auto

definition braced :: "string \<Rightarrow> string" where
  "braced m = ''{{'' @ m @ ''}}''"

definition resolve_template :: "exec_env \<Rightarrow> dict \<Rightarrow> pyval \<Rightarrow> exn + pyval" where
  "resolve_template env st v =
     (case v of
        PStr t \<Rightarrow>
          (let ms = find_templates t in
           if ms = [] then Inr (PStr t)
           else if length ms = 1 \<and> py_strip t = braced (hd ms) then resolve_path st (hd ms)
           else bindE (foldE (\<lambda>m result. bindE (resolve_path st m) (\<lambda>x.
                     Inr (if x \<noteq> PNone then replace_all (braced m) (py_str (ee_fstr env) x) result else result)))
                   ms t) (\<lambda>result. Inr (PStr result)))
      | _ \<Rightarrow> Inr v)"

definition apply_input_mapping_simple :: "exec_env \<Rightarrow> step_definition \<Rightarrow> dict \<Rightarrow> exn + dict" where
  "apply_input_mapping_simple env step st = apply_mapping (resolve_template env st) (sd_input_mapping step) st"

definition apply_input_mapping :: "exec_env \<Rightarrow> step_definition \<Rightarrow> dict \<Rightarrow> exn + dict" where
  "apply_input_mapping env step st =
     (case ee_render env of
        None \<Rightarrow> apply_input_mapping_simple env step st
      | Some render \<Rightarrow> apply_mapping (resolve_value env render st) (sd_input_mapping step) st)"

definition stable_hash :: "exec_env \<Rightarrow> dict \<Rightarrow> string" where
  "stable_hash env payload = ee_sha256 env (json_dumps (ee_fstr env) True '','' '':'' (PDict payload))"

definition calculate_step_input_hash :: "exec_env \<Rightarrow> step_definition \<Rightarrow> dict \<Rightarrow> exn + string" where
  "calculate_step_input_hash env step st =
     bindE (apply_input_mapping env step st) (\<lambda>payload. Inr (stable_hash env payload))"

subsection \<open>Output mapping\<close>

fun output_alias_list :: "pyval \<Rightarrow> string list" where
  "output_alias_list (PStr s) =
     (let t = py_strip s in
      (if t \<noteq> [] \<and> \<not> contains ''{{'' t \<and> \<not> contains ''}}'' t then [t] else []) @ find_placeholders s)"
| "output_alias_list (PDict d) = concat (map (\<lambda>p. output_alias_list (snd p)) d)"
| "output_alias_list (PList xs) = concat (map output_alias_list xs)"
| "output_alias_list _ = []"

text \<open>The aliases are a set; the order only matters when one alias is a prefix of another.\<close>

definition output_aliases :: "pyval \<Rightarrow> string list" where
  "output_aliases m = remdups (output_alias_list m)"

definition first_content :: "pyval list \<Rightarrow> pyval option" where
  "first_content arts =
     (case List.map_filter (\<lambda>a. case a of PDict d \<Rightarrow> map_of d ''content'' | _ \<Rightarrow> None) arts of
        [] \<Rightarrow> None | c # _ \<Rightarrow> Some c)"

definition extract_output_payload :: "dict \<Rightarrow> pyval" where
  "extract_output_payload output =
     (case (case dget output ''artifacts'' of PList arts \<Rightarrow> first_content arts | _ \<Rightarrow> None) of
        Some c \<Rightarrow> c
      | None \<Rightarrow> if has_key output ''test_results'' then dget output ''test_results'' else PDict output)"

fun put_path :: "string list \<Rightarrow> pyval \<Rightarrow> dict \<Rightarrow> dict" where
  "put_path [] v d = d"
| "put_path [k] v d = dset k v d"
| "put_path (k # ks) v d = dset k (PDict (put_path ks v (as_content (dget d k)))) d"

definition apply_alias :: "pyval \<Rightarrow> string \<Rightarrow> exec_context \<Rightarrow> exec_context" where
  "apply_alias v alias c =
     (if alias = [] then c
      else case split_on CHR ''.'' alias of
             rt # p # ps \<Rightarrow>
               set_state_value rt (PDict (put_path (p # ps) v (as_content (dget (ec_state c) rt)))) c
           | _ \<Rightarrow> set_state_value alias v c)"

definition apply_output_mapping :: "step_definition \<Rightarrow> dict \<Rightarrow> exec_context \<Rightarrow> exec_context" where
  "apply_output_mapping step output c =
     fold (apply_alias (extract_output_payload output)) (output_aliases (sd_output_mapping step)) c"

subsection \<open>Artifact identifiers\<close>

definition artifact_id :: "exec_env \<Rightarrow> string \<Rightarrow> string \<Rightarrow> string \<Rightarrow> nat \<Rightarrow> string" where
  "artifact_id env step_name input_hash art_type index =
     take 20 (ee_sha256 env (step_name @ '':'' @ input_hash @ '':'' @ art_type @ '':'' @ nat_str index))"

definition attach_artifact_id :: "exec_env \<Rightarrow> string \<Rightarrow> string \<Rightarrow> nat \<times> pyval \<Rightarrow> pyval" where
  "attach_artifact_id env step_name input_hash = (\<lambda>(index, artifact).
     case artifact of
       PDict a \<Rightarrow>
         (let t = text_or (ee_fstr env) (dget a ''type'') ''unknown'';
              metadata = as_content (dget a ''metadata'');
              m1 = dsetdefault ''artifact_id'' (PStr (artifact_id env step_name input_hash t index)) metadata;
              m2 = dsetdefault ''step_input_hash'' (PStr input_hash) m1
          in PDict (dset ''metadata'' (PDict m2) a))
     | _ \<Rightarrow> artifact)"

definition attach_artifact_ids :: "exec_env \<Rightarrow> string \<Rightarrow> string \<Rightarrow> dict \<Rightarrow> dict" where
  "attach_artifact_ids env step_name input_hash output =
     (case dget output ''artifacts'' of
        PList arts \<Rightarrow> dset ''artifacts'' (PList (map (attach_artifact_id env step_name input_hash) (enumerate 0 arts))) output
      | _ \<Rightarrow> output)"

subsection \<open>Executing a step\<close>

text \<open>\<open>str(metadata.get(k, "")).strip() or None\<close>.\<close>

definition meta_text :: "exec_env \<Rightarrow> dict \<Rightarrow> string \<Rightarrow> string option" where
  "meta_text env md k =
     (let t = py_strip (py_str (ee_fstr env) (dget_or md k (PStr []))) in if t \<noteq> [] then Some t else None)"

definition mapped_overrides :: "step_definition \<Rightarrow> dict \<Rightarrow> dict" where
  "mapped_overrides step payload =
     List.map_filter (\<lambda>p. map_option (Pair (fst p)) (map_of payload (fst p))) (sd_input_mapping step)"

text \<open>
  With a time limit the agent runs on a thread of its own, which is always awaited: its
  effects happen in any case. A time-out raised by the agent itself is caught too.
\<close>

fun is_timeout :: "exn + 'a \<Rightarrow> bool" where
  "is_timeout (Inl (TimeoutError m)) = True" | "is_timeout _ = False"

definition run_agent_result :: "exec_env \<Rightarrow> rat option \<Rightarrow> agent_outcome \<Rightarrow> exn + pyval" where
  "run_agent_result env timeout oc =
     (case timeout of
        None \<Rightarrow> ao_result oc
      | Some t \<Rightarrow>
          if ao_duration oc > t \<or> is_timeout (ao_result oc)
          then Inl (TimeoutError (''Step timed out after '' @ ee_fstr env t @ '' seconds''))
          else ao_result oc)"

definition run_agent :: "exec_env \<Rightarrow> step_definition \<Rightarrow> dict \<Rightarrow> ('b orch_state_scheme, dict) st" where
  "run_agent env step payload =
     (if \<not> ee_has_agent env (sd_agent step) then
        raiseS (LookupError (''Agent '' @ quoted (sd_agent step) @ '' is not registered in AgentRegistry''))
      else
        bindS (getS (\<lambda>s. ec_state (os_ctx s))) (\<lambda>shared.
        bindS (tickS (ee_agent env (sd_agent step) shared (mapped_overrides step payload))) (\<lambda>oc.
        seqS (ctxS (\<lambda>c. c\<lparr>ec_state := dict_update (ao_updates oc) (ec_state c)\<rparr>))
        (bindS (liftE (run_agent_result env (sd_timeout_seconds step) oc)) (\<lambda>r.
           case r of
             PDict output \<Rightarrow> returnS output
           | _ \<Rightarrow> raiseS (TypeError ''Agent output must be a dict''))))))"

record step_outcome =
  so_output :: dict
  so_status :: step_status
  so_error :: "string option"

text \<open>What the executor makes of an agent's dictionary: validation, normalisation, status.\<close>

definition with_validation_errors :: "string list \<Rightarrow> dict \<Rightarrow> dict" where
  "with_validation_errors errors n =
     dset ''validation_errors''
       (PList ((case dget_or n ''validation_errors'' (PList []) of PList xs \<Rightarrow> xs | _ \<Rightarrow> []) @ map PStr errors)) n"

definition process_output :: "exec_env \<Rightarrow> string \<Rightarrow> dict \<Rightarrow> exn + step_outcome" where
  "process_output env step_name output =
     (let payload = sanitize_output_for_validation (ee_fstr env) output in
      bindE (validate_step_output (ee_fstr env) (ee_validator env) step_name payload) (\<lambda>errors.
        let normalized = normalize_agent_output payload;
            result = (if errors = [] then normalized
                      else if ee_strict env then error_result (''Schema validation failed: '' @ join ''; '' errors)
                      else with_validation_errors errors normalized);
            error = (if errors = [] then None else Some (join ''; '' errors))
        in bindE (normalize_step_status (dget result ''status'')) (\<lambda>status.
             Inr \<lparr>so_output = result, so_status = status, so_error = error\<rparr>)))"

definition failed_outcome :: "string \<Rightarrow> exn \<Rightarrow> step_outcome" where
  "failed_outcome agent e =
     \<lparr>so_output = error_result (''Agent '' @ quoted agent @ '' failed: '' @ exn_str e),
      so_status = FAILED, so_error = Some (exn_str e)\<rparr>"

definition attempt_step :: "exec_env \<Rightarrow> step_definition \<Rightarrow> dict \<Rightarrow> ('b orch_state_scheme, step_outcome) st" where
  "attempt_step env step payload =
     catchS (bindS (run_agent env step payload) (\<lambda>output. liftE (process_output env (sd_name step) output)))
       (\<lambda>e. returnS (failed_outcome (sd_agent step) e))"

text \<open>
  The output that is recorded is the one with the artifact identifiers attached. The
  code attaches them to the same objects after it has stored the mapped value, so what
  is stored is part of the output with identifiers in both orders.
\<close>

definition finish_step ::
  "exec_env \<Rightarrow> step_definition \<Rightarrow> string \<Rightarrow> mark_args \<Rightarrow> step_outcome \<Rightarrow> ('b orch_state_scheme, dict) st" where
  "finish_step env step input_hash a oc =
     (let output = attach_artifact_ids env (sd_name step) input_hash (so_output oc) in
      seqS (if so_status oc \<in> {SUCCESS, PARTIAL_SUCCESS} then ctxS (apply_output_mapping step output) else returnS ())
      (seqS (ctxS (record_step_result (sd_name step) output))
      (bindS (tickS (ee_now env)) (\<lambda>finished_at.
       seqS (markS (sd_name step) (so_status oc)
               (a\<lparr>ma_started_at := None, ma_finished_at := Some finished_at,
                  ma_error := so_error oc, ma_output := Some output\<rparr>))
       (returnS output)))))"

definition execute_step :: "exec_env \<Rightarrow> step_definition \<Rightarrow> ('b orch_state_scheme, dict) st" where
  "execute_step env step =
     bindS (getS (\<lambda>s. ec_metadata (os_ctx s))) (\<lambda>md.
     bindS (tickS (ee_uuid env)) (\<lambda>uuid.
     bindS (tickS (ee_now env)) (\<lambda>started_at.
     bindS (getS (\<lambda>s. ec_state (os_ctx s))) (\<lambda>st.
     bindS (liftE (apply_input_mapping env step st)) (\<lambda>payload.
       let input_hash = stable_hash env payload;
           a = no_mark\<lparr>ma_started_at := Some started_at,
                 ma_correlation_id := meta_text env md ''correlation_id'',
                 ma_trace_id := meta_text env md ''trace_id'',
                 ma_span_id := Some (take 16 uuid),
                 ma_parent_span_id := meta_text env md ''root_span_id'',
                 ma_input_hash := Some input_hash\<rparr>
       in seqS (markS (sd_name step) RUNNING a)
          (bindS (attempt_step env step payload) (finish_step env step input_hash a)))))))"

subsection \<open>What executing a step does to the run\<close>

text \<open>Only the step's own record and the run status may change.\<close>

definition run_frame :: "string \<Rightarrow> run_state \<Rightarrow> run_state \<Rightarrow> bool" where
  "run_frame name rs rs' \<longleftrightarrow>
     map st_name (rs_steps rs') = map st_name (rs_steps rs) \<and>
     (\<forall>n. n \<noteq> name \<longrightarrow> get_step n rs' = get_step n rs) \<and>
     rs_current_step_index rs' = rs_current_step_index rs \<and>
     rs_run_id rs' = rs_run_id rs \<and> rs_pipeline_name rs' = rs_pipeline_name rs"

lemma run_frame_refl [simp]: "run_frame name rs rs"
  by (simp add: run_frame_def)

lemma run_frame_trans: "run_frame name rs rs' \<Longrightarrow> run_frame name rs' rs'' \<Longrightarrow> run_frame name rs rs''"
  by (simp add: run_frame_def)

lemma run_frame_mark:
  assumes "mark_step_status name st a rs = Inr rs'"
  shows "run_frame name rs rs'"
  using mark_step_status_frame [OF assms] get_step_mark [OF assms] by (simp add: run_frame_def)

text \<open>
  The frame of a computation on one step: the other steps, the log of waits and the
  checkpoints stay. \<open>steps\<close> is the list of steps of the pipeline, for reachability.
\<close>

definition step_frame :: "string \<Rightarrow> 'b orch_state_scheme \<Rightarrow> 'b orch_state_scheme \<Rightarrow> bool" where
  "step_frame name s t \<longleftrightarrow> run_frame name (os_rs s) (os_rs t) \<and> os_slept t = os_slept s \<and>
     os_checkpoints t = os_checkpoints s \<and> orch_state.more t = orch_state.more s"

lemma keeps_tickS [keeps_rules]: "(\<And>t. I t \<Longrightarrow> I (t\<lparr>os_tick := os_tick t + 1\<rparr>)) \<Longrightarrow> keeps I (tickS f)"
  by (auto simp: triple_def tickS_def)

lemma keeps_ctxS [keeps_rules]: "(\<And>t. I t \<Longrightarrow> I (t\<lparr>os_ctx := f (os_ctx t)\<rparr>)) \<Longrightarrow> keeps I (ctxS f)"
  by (simp add: ctxS_def keeps_modifyS)

lemma keeps_rsS [keeps_rules]: "(\<And>t. I t \<Longrightarrow> I (t\<lparr>os_rs := f (os_rs t)\<rparr>)) \<Longrightarrow> keeps I (rsS f)"
  by (simp add: rsS_def keeps_modifyS)

lemma keeps_markS [keeps_rules]:
  "(\<And>t rs. I t \<Longrightarrow> mark_step_status n st a (os_rs t) = Inr rs \<Longrightarrow> I (t\<lparr>os_rs := rs\<rparr>)) \<Longrightarrow> keeps I (markS n st a)"
  unfolding markS_def by (rule keeps_updateE) (auto simp: bindE_Inr_iff)

lemma step_frame_simps [simp]:
  "step_frame n s s"
  "step_frame n s (t\<lparr>os_tick := k\<rparr>) = step_frame n s t"
  "step_frame n s (t\<lparr>os_ctx := c\<rparr>) = step_frame n s t"
  by (simp_all add: step_frame_def)

lemma step_frame_mark:
  "step_frame n s t \<Longrightarrow> mark_step_status n st a (os_rs t) = Inr rs \<Longrightarrow> step_frame n s (t\<lparr>os_rs := rs\<rparr>)"
  unfolding step_frame_def using run_frame_trans run_frame_mark by fastforce

lemma run_agent_rest:
  assumes "\<And>t k. I t \<Longrightarrow> I (t\<lparr>os_tick := k\<rparr>)" "\<And>t c. I t \<Longrightarrow> I (t\<lparr>os_ctx := c\<rparr>)"
  shows "keeps I (run_agent env step payload)"
  unfolding run_agent_def
  by (intro keeps_rules) (auto intro: keeps_rules assms split: pyval.split)

lemma attempt_step_rest:
  assumes "\<And>t k. I t \<Longrightarrow> I (t\<lparr>os_tick := k\<rparr>)" "\<And>t c. I t \<Longrightarrow> I (t\<lparr>os_ctx := c\<rparr>)"
  shows "keeps I (attempt_step env step payload)"
proof -
  note ra = run_agent_rest [of I, OF assms]
  show ?thesis unfolding attempt_step_def
    by (intro keeps_rules ra)
qed

text \<open>An invariant of the run state that marking keeps is kept by the whole step.\<close>

lemma execute_step_keeps:
  assumes tick: "\<And>t k. I t \<Longrightarrow> I (t\<lparr>os_tick := k\<rparr>)" and ctx: "\<And>t c. I t \<Longrightarrow> I (t\<lparr>os_ctx := c\<rparr>)"
    and mark: "\<And>t st a rs. I t \<Longrightarrow> mark_step_status (sd_name step) st a (os_rs t) = Inr rs \<Longrightarrow> I (t\<lparr>os_rs := rs\<rparr>)"
  shows "keeps I (execute_step env step)"
proof -
  have fin: "keeps I (finish_step env step h a oc)" for h a oc
    unfolding finish_step_def Let_def
    by (intro keeps_rules) (auto intro: tick ctx mark)
  note att = attempt_step_rest [of I, OF tick ctx]
  show ?thesis
    unfolding execute_step_def Let_def
    by (intro keeps_rules fin att) (auto intro: tick ctx mark)
qed

lemma markS_Inr: "markS n st a s = (Inr u, s') \<longleftrightarrow>
    (\<exists>rs. mark_step_status n st a (os_rs s) = Inr rs \<and> s' = s\<lparr>os_rs := rs\<rparr>)"
  by (auto simp: markS_def updateE_def bindE_Inr_iff split: sum.splits)

lemma liftE_Inr: "liftE m s = (Inr x, s') \<longleftrightarrow> m = Inr x \<and> s' = s"
  by (auto simp: liftE_def)

lemma getS_Inr: "getS f s = (Inr x, s') \<longleftrightarrow> x = f s \<and> s' = s"
  by (auto simp: getS_def)

lemma tickS_Inr: "tickS f s = (Inr x, s') \<longleftrightarrow> x = f (os_tick s) \<and> s' = s\<lparr>os_tick := os_tick s + 1\<rparr>"
  by (auto simp: tickS_def)

lemma seqS_Inr: "seqS m k s = (Inr y, t) \<longleftrightarrow> (\<exists>x s'. m s = (Inr x, s') \<and> k s' = (Inr y, t))"
  by (simp add: seqS_def bindS_Inr)

lemma modifyS_Inr: "modifyS f s = (Inr u, s') \<longleftrightarrow> s' = f s"
  by (auto simp: modifyS_def)

lemma returnS_Inr: "returnS x s = (Inr y, s') \<longleftrightarrow> y = x \<and> s' = s"
  by (auto simp: returnS_def)

lemmas runs_simps = markS_Inr liftE_Inr getS_Inr tickS_Inr seqS_Inr modifyS_Inr returnS_Inr bindS_Inr

lemma execute_step_frame: "keeps (step_frame (sd_name step) s) (execute_step env step)"
  by (rule execute_step_keeps) (auto intro: step_frame_mark)

lemma attempt_step_rs:
  "attempt_step env step payload s = (r, s') \<Longrightarrow> os_rs s' = os_rs s"
proof -
  assume r: "attempt_step env step payload s = (r, s')"
  have "keeps (\<lambda>t. os_rs t = os_rs s) (attempt_step env step payload)"
    by (rule attempt_step_rest) auto
  then show ?thesis using r by (cases r) (auto dest: tripleD_Inr tripleD_Inl)
qed

text \<open>The status of an outcome is the one its output states.\<close>

lemma error_result_status [simp]: "dget (error_result m) ''status'' = PStr ''FAILED''"
  by (simp add: error_result_def dget_def)

lemma normalize_FAILED [simp]: "normalize_step_status (PStr ''FAILED'') = Inr FAILED"
  using status_value_roundtrip [of FAILED] by (simp add: normalize_step_status_def)

lemma process_output_status:
  "process_output env n output = Inr oc \<Longrightarrow> normalize_step_status (dget (so_output oc) ''status'') = Inr (so_status oc)"
  by (auto simp: process_output_def Let_def bindE_Inr_iff)

lemma attempt_step_status:
  assumes "attempt_step env step payload s = (Inr oc, s')"
  shows "normalize_step_status (dget (so_output oc) ''status'') = Inr (so_status oc)"
proof -
  have "triple (\<lambda>_. True) (attempt_step env step payload)
      (\<lambda>oc _. normalize_step_status (dget (so_output oc) ''status'') = Inr (so_status oc)) (\<lambda>_ _. True)"
    unfolding attempt_step_def
  proof (rule triple_catchS)
    show "triple (\<lambda>_. True) (bindS (run_agent env step payload)
            (\<lambda>output. liftE (process_output env (sd_name step) output)))
       (\<lambda>oc _. normalize_step_status (dget (so_output oc) ''status'') = Inr (so_status oc)) (\<lambda>_ _. True)"
      by (rule triple_bindS [OF triple_True]) (auto intro: triple_liftE process_output_status)
    show "triple (\<lambda>_. True) (returnS (failed_outcome (sd_agent step) e))
       (\<lambda>oc _. normalize_step_status (dget (so_output oc) ''status'') = Inr (so_status oc)) (\<lambda>_ _. True)" for e
      by (rule triple_returnS) (simp add: failed_outcome_def)
  qed
  from tripleD_Inr [OF this _ assms] show ?thesis by simp
qed

lemma attach_artifact_ids_status [simp]: "dget (attach_artifact_ids env n h d) ''status'' = dget d ''status''"
  by (simp add: attach_artifact_ids_def split: pyval.split)

lemma map_of_record_step_result [simp]:
  "map_of (ec_step_results (record_step_result n out c)) m =
     (if m = n then Some out else map_of (ec_step_results c) m)"
  by (simp add: record_step_result_def)

lemma finish_step_Inr:
  assumes "finish_step env step h a oc s = (Inr out, s')"
  shows "out = attach_artifact_ids env (sd_name step) h (so_output oc)"
    "map_of (ec_step_results (os_ctx s')) (sd_name step) = Some out"
    "\<exists>a'. mark_step_status (sd_name step) (so_status oc) a' (os_rs s) = Inr (os_rs s') \<and>
       ma_output a' = Some out \<and> ma_error a' = so_error oc \<and> ma_input_hash a' = ma_input_hash a"
  using assms
  by (auto simp: finish_step_def Let_def ctxS_def runs_simps split: if_splits)

text \<open>
  The promise of the step executor to the engine. A lenient schema lets an agent report
  the status \<open>RUNNING\<close>, and marking a step as running counts an attempt.
\<close>

definition ran_step :: "step_definition \<Rightarrow> dict \<Rightarrow> 'b orch_state_scheme \<Rightarrow> 'b orch_state_scheme \<Rightarrow> bool" where
  "ran_step step out s s' \<longleftrightarrow>
     (\<exists>st st'. get_step (sd_name step) (os_rs s) = Inr st \<and> get_step (sd_name step) (os_rs s') = Inr st' \<and>
        st_attempts st' = st_attempts st + (if st_status st' = RUNNING then 2 else 1) \<and> st_output st' = Some out \<and>
        normalize_step_status (dget out ''status'') = Inr (st_status st') \<and>
        rs_run_status (os_rs s') = (if st_status st' \<in> {FAILED, BLOCKED} then status_value (st_status st')
                                    else status_value RUNNING)) \<and>
     map_of (ec_step_results (os_ctx s')) (sd_name step) = Some out"

lemma execute_step_ran:
  assumes "execute_step env step s = (Inr out, s')"
  shows "ran_step step out s s'"
proof -
  obtain a s1 oc s2 h payload where
    m1': "markS (sd_name step) RUNNING a (s\<lparr>os_tick := Suc (Suc (os_tick s))\<rparr>) = (Inr (), s1)"
    and att: "attempt_step env step payload s1 = (Inr oc, s2)"
    and fin: "finish_step env step h a oc s2 = (Inr out, s')"
    using assms unfolding execute_step_def Let_def bindS_Inr seqS_Inr getS_Inr tickS_Inr liftE_Inr
    by (elim exE conjE) (rule that, simp_all)
  obtain rs1 where m1: "mark_step_status (sd_name step) RUNNING a (os_rs s) = Inr rs1" "os_rs s1 = rs1"
    using m1' by (auto simp: markS_Inr)
  note f = finish_step_Inr [OF fin]
  obtain a' where m2: "mark_step_status (sd_name step) (so_status oc) a' (os_rs s1) = Inr (os_rs s')"
    "ma_output a' = Some out"
    using f(3) attempt_step_rs [OF att] by auto
  obtain st where st: "get_step (sd_name step) (os_rs s) = Inr st"
    using m1(1) by (auto simp: mark_step_status_Inr)
  have st1: "get_step (sd_name step) rs1 = Inr (mark_step RUNNING a st)"
    using get_step_mark [OF m1(1), of "sd_name step"] st by simp
  then have st2: "get_step (sd_name step) (os_rs s') = Inr (mark_step (so_status oc) a' (mark_step RUNNING a st))"
    using get_step_mark [OF m2(1), of "sd_name step"] m1(2) by simp
  have not_running_pending: "so_status oc \<noteq> PENDING"
    using m2(1) st1 m1(2) by (auto simp: mark_step_status_Inr can_transition_def)
  have status: "normalize_step_status (dget out ''status'') = Inr (so_status oc)"
    using attempt_step_status [OF att] f(1) by simp
  have run1: "rs_run_status rs1 = status_value RUNNING" using m1(1) by (auto simp: mark_step_status_Inr)
  have "rs_run_status (os_rs s') = (if so_status oc \<in> {FAILED, BLOCKED} then status_value (so_status oc)
      else status_value RUNNING)"
    using m2(1) run1 m1(2) by (auto simp: mark_step_status_Inr)
  then show ?thesis
    unfolding ran_step_def using st st2 status f(2) m2(2) not_running_pending
    by (intro conjI exI [of _ st] exI [of _ "mark_step (so_status oc) a' (mark_step RUNNING a st)"])
      (auto simp: or_keep_def)
qed

subsection \<open>A strict executor contains every failure of an agent\<close>

lemma map_of_copy_keys:
  "map_of (List.map_filter (\<lambda>k. map_option (Pair k) (map_of d k)) ks) k = (if k \<in> set ks then map_of d k else None)"
  by (induction ks) (auto simp: List.map_filter_def split: option.splits)

lemma dget_dsetdefault:
  "dget (dsetdefault k v d) k' = (if k' = k \<and> \<not> has_key d k then v else dget d k')"
  by (auto simp: dsetdefault_def)

lemma dget_normalize_status:
  assumes "has_key p ''status''"
  shows "dget (normalize_agent_output p) ''status'' = dget p ''status''"
proof -
  define n0 where "n0 = List.map_filter (\<lambda>k. map_option (Pair k) (map_of p k)) result_keys"
  have m: "map_of n0 ''status'' = map_of p ''status''"
    unfolding n0_def map_of_copy_keys by (simp add: result_keys_def)
  then have "has_key n0 ''status''" "dget n0 ''status'' = dget p ''status''"
    using assms by (simp_all add: has_key_def dget_def)
  then show ?thesis
    unfolding normalize_agent_output_def Let_def n0_def [symmetric] by (simp add: dget_dsetdefault)
qed

lemma agent_result_status:
  assumes "conforms (PDict p) agent_result_schema"
  shows "\<exists>s. map_of p ''status'' = Some (PStr s) \<and> s \<in> {''SUCCESS'', ''PARTIAL_SUCCESS'', ''FAILED'', ''BLOCKED''}"
proof -
  obtain sch where sch: "agent_result_schema = PDict sch" by (simp add: agent_result_schema_def)
  have req: "required_keys sch = Inr [''status'', ''artifacts'', ''decisions'', ''logs'', ''next_actions'']"
    using sch by (auto simp: agent_result_schema_def required_keys_def dget_or_def)
  obtain props where props: "property_schemas sch = Inr props" "map_of props ''status'' =
      Some (PDict [(''type'', PStr ''string''),
        (''enum'', PList [PStr ''SUCCESS'', PStr ''PARTIAL_SUCCESS'', PStr ''FAILED'', PStr ''BLOCKED''])])"
    using sch by (auto simp: agent_result_schema_def property_schemas_def dget_or_def)
  have c: "\<forall>k \<in> set [''status'', ''artifacts'', ''decisions'', ''logs'', ''next_actions'']. has_key p k"
    "\<forall>q \<in> set p. \<forall>s. key_rule_of sch props (fst q) = CheckWith s \<longrightarrow> conforms (snd q) s"
    using assms by (auto simp: sch conforms_dict req props(1))
  then obtain v where v: "map_of p ''status'' = Some v" by (auto simp: has_key_def)
  then have "conforms v (PDict [(''type'', PStr ''string''),
        (''enum'', PList [PStr ''SUCCESS'', PStr ''PARTIAL_SUCCESS'', PStr ''FAILED'', PStr ''BLOCKED''])])"
    using bspec [OF c(2) map_of_SomeD [OF v]] props(2) by (simp add: key_rule_of_def)
  with v show ?thesis
    by (cases v) (auto simp: schema_eval conforms_str conforms_none conforms_bool conforms_int conforms_float
        conforms_list conforms_dict)
qed

definition strict_env :: "exec_env \<Rightarrow> bool" where
  "strict_env env \<longleftrightarrow> sv_strict (ee_validator env) \<and>
     dget (sv_schemas (ee_validator env)) agent_result_schema_name = agent_result_schema"

lemma strict_process_output:
  assumes "strict_env env" "process_output env n output = Inr oc"
  shows "conforms (PDict (sanitize_output_for_validation (ee_fstr env) output)) agent_result_schema"
    and "so_output oc = normalize_agent_output (sanitize_output_for_validation (ee_fstr env) output)"
    and "so_error oc = None" and "so_status oc \<in> {SUCCESS, PARTIAL_SUCCESS, FAILED, BLOCKED}"
proof -
  let ?p = "sanitize_output_for_validation (ee_fstr env) output"
  obtain errors where v: "validate_step_output (ee_fstr env) (ee_validator env) n ?p = Inr errors"
    using assms(2) by (auto simp: process_output_def Let_def bindE_Inr_iff)
  then have "errors = []"
    using assms(1) by (auto simp: validate_step_output_def bindE_Inr_iff raise_if_strict_Inr strict_env_def)
  note v = v [unfolded this]
  show c: "conforms (PDict ?p) agent_result_schema"
    using v assms(1) unfolding validate_step_output_Nil strict_env_def by simp
  show out: "so_output oc = normalize_agent_output ?p" and "so_error oc = None"
    using assms(2) v by (auto simp: process_output_def Let_def bindE_Inr_iff)
  from agent_result_status [OF c] obtain s where s: "map_of ?p ''status'' = Some (PStr s)"
    "s \<in> {''SUCCESS'', ''PARTIAL_SUCCESS'', ''FAILED'', ''BLOCKED''}" by blast
  then have "dget (so_output oc) ''status'' = PStr s"
    by (simp add: out dget_normalize_status has_key_def) (simp add: dget_def)
  with process_output_status [OF assms(2)] s(2)
  show "so_status oc \<in> {SUCCESS, PARTIAL_SUCCESS, FAILED, BLOCKED}"
    by (auto simp: normalize_step_status_def status_of_value_def all_statuses_def)
qed

lemma catchS_returnS: "catchS m (\<lambda>e. returnS (h e)) s =
    (case m s of (Inl e, s') \<Rightarrow> (Inr (h e), s') | (Inr x, s') \<Rightarrow> (Inr x, s'))"
  by (auto simp: catchS_def returnS_def split: prod.splits sum.splits)

lemma attempt_step_total:
  assumes "strict_env env"
  shows "\<exists>oc s'. attempt_step env step payload s = (Inr oc, s') \<and>
    so_status oc \<in> {SUCCESS, PARTIAL_SUCCESS, FAILED, BLOCKED}"
proof -
  let ?m = "bindS (run_agent env step payload) (\<lambda>output. liftE (process_output env (sd_name step) output))"
  show ?thesis
  proof (cases "?m s")
    case (Pair r s')
    show ?thesis
    proof (cases r)
      case (Inl e)
      with Pair show ?thesis by (simp add: attempt_step_def catchS_returnS failed_outcome_def)
    next
      case (Inr oc)
      with Pair obtain outp where "process_output env (sd_name step) outp = Inr oc"
        by (auto simp: bindS_Inr liftE_Inr)
      from strict_process_output(4) [OF assms this] Pair Inr show ?thesis
        by (simp add: attempt_step_def catchS_returnS)
    qed
  qed
qed

lemma finish_step_total:
  assumes "get_step (sd_name step) (os_rs s) = Inr st" "can_transition (st_status st) (so_status oc)"
  shows "\<exists>out s'. finish_step env step h a oc s = (Inr out, s')"
proof -
  have m: "\<exists>rs. mark_step_status (sd_name step) (so_status oc) a' (os_rs s) = Inr rs" for a'
    using assms by (simp add: mark_step_status_Inr)
  show ?thesis
    unfolding finish_step_def Let_def seqS_def bindS_Inr ctxS_def modifyS_Inr tickS_Inr markS_Inr returnS_Inr
    using m by (cases "so_status oc \<in> {SUCCESS, PARTIAL_SUCCESS}")
      (simp_all add: modifyS_Inr returnS_Inr)
qed

lemma execute_step_total:
  assumes env: "strict_env env" and st: "get_step (sd_name step) (os_rs s) = Inr st"
    and map: "apply_input_mapping env step (ec_state (os_ctx s)) = Inr payload"
  shows "\<exists>out s'. execute_step env step s = (Inr out, s') \<and>
    (\<exists>x \<in> {SUCCESS, PARTIAL_SUCCESS, FAILED, BLOCKED}. normalize_step_status (dget out ''status'') = Inr x)"
proof -
  define a where "a = no_mark\<lparr>ma_started_at := Some (ee_now env (Suc (os_tick s))),
      ma_correlation_id := meta_text env (ec_metadata (os_ctx s)) ''correlation_id'',
      ma_trace_id := meta_text env (ec_metadata (os_ctx s)) ''trace_id'',
      ma_span_id := Some (take 16 (ee_uuid env (os_tick s))),
      ma_parent_span_id := meta_text env (ec_metadata (os_ctx s)) ''root_span_id'',
      ma_input_hash := Some (stable_hash env payload)\<rparr>"
  obtain rs1 where rs1: "mark_step_status (sd_name step) RUNNING a (os_rs s) = Inr rs1"
    using st by (cases "st_status st") (auto simp: mark_step_status_Inr can_transition_def)
  define s1 where "s1 = s\<lparr>os_tick := Suc (Suc (os_tick s)), os_rs := rs1\<rparr>"
  obtain oc s2 where att: "attempt_step env step payload s1 = (Inr oc, s2)"
    and oc: "so_status oc \<in> {SUCCESS, PARTIAL_SUCCESS, FAILED, BLOCKED}"
    using attempt_step_total [OF env] by blast
  have "get_step (sd_name step) (os_rs s2) = Inr (mark_step RUNNING a st)"
    using attempt_step_rs [OF att] get_step_mark [OF rs1, of "sd_name step"] st by (simp add: s1_def)
  moreover have "can_transition (st_status (mark_step RUNNING a st)) (so_status oc)"
    using oc by (auto simp: can_transition_def)
  ultimately obtain out s' where fin: "finish_step env step (stable_hash env payload) a oc s2 = (Inr out, s')"
    using finish_step_total by blast
  have "execute_step env step s = (Inr out, s')"
    using map rs1 att fin
    by (simp add: execute_step_def Let_def bindS_def getS_def tickS_def liftE_def seqS_def markS_def updateE_def
        a_def [symmetric] s1_def)
  moreover have "normalize_step_status (dget out ''status'') = Inr (so_status oc)"
    using attempt_step_status [OF att] finish_step_Inr(1) [OF fin] by simp
  ultimately show ?thesis using oc by blast
qed

text \<open>
  The mapping is resolved before the agent is called and outside the handler: when it
  raises, the time and the span identifier have been read and nothing else has happened.
\<close>

lemma execute_step_unresolved:
  assumes "apply_input_mapping env step (ec_state (os_ctx s)) = Inl e"
  shows "execute_step env step s = (Inl e, s\<lparr>os_tick := os_tick s + 2\<rparr>)"
  using assms by (simp add: execute_step_def bindS_def getS_def tickS_def liftE_def)

lemma execute_step_finished:
  assumes "strict_env env" "get_step (sd_name step) (os_rs s) = Inr st"
    and "apply_input_mapping env step (ec_state (os_ctx s)) = Inr payload"
  shows "\<exists>out s' st'. execute_step env step s = (Inr out, s') \<and> get_step (sd_name step) (os_rs s') = Inr st' \<and>
    st_status st' \<in> {SUCCESS, PARTIAL_SUCCESS, FAILED, BLOCKED} \<and>
    normalize_step_status (dget out ''status'') = Inr (st_status st') \<and>
    st_attempts st' = st_attempts st + 1 \<and> st_output st' = Some out \<and>
    map_of (ec_step_results (os_ctx s')) (sd_name step) = Some out \<and> step_frame (sd_name step) s s'"
proof -
  obtain out s' x where r: "execute_step env step s = (Inr out, s')"
    and x: "x \<in> {SUCCESS, PARTIAL_SUCCESS, FAILED, BLOCKED}" "normalize_step_status (dget out ''status'') = Inr x"
    using execute_step_total [OF assms] by blast
  have "ran_step step out s s'" by (rule execute_step_ran [OF r])
  then obtain st' where "get_step (sd_name step) (os_rs s') = Inr st'"
    "st_attempts st' = st_attempts st + (if st_status st' = RUNNING then 2 else 1)" "st_output st' = Some out"
    "st_status st' = x" "map_of (ec_step_results (os_ctx s')) (sd_name step) = Some out"
    unfolding ran_step_def using assms(2) x(2) by auto
  moreover have "step_frame (sd_name step) s s'"
    using tripleD_Inr [OF execute_step_frame _ r] by simp
  ultimately show ?thesis using r x by auto
qed

subsection \<open>Properties of the executor\<close>

lemma resolve_put_path: "ks \<noteq> [] \<Longrightarrow> resolve_parts (PDict (put_path ks v d)) ks = Inr v"
  by (induction ks v d rule: put_path.induct) simp_all

lemma split_on_single: "split_on c s = [w] \<Longrightarrow> w = s"
proof (induction s arbitrary: w)
  case (Cons x s)
  then show ?case by (cases "split_on c s") (auto split: if_splits)
qed simp

text \<open>
  C9: a value stored under an output alias is found again under the same dotted path,
  whatever the state held there before.
\<close>

theorem output_alias_roundtrip:
  assumes "alias \<noteq> []"
  shows "resolve_path (ec_state (apply_alias v alias c)) alias = Inr v"
proof (cases "split_on CHR ''.'' alias")
  case (Cons w ws)
  show ?thesis
  proof (cases ws)
    case Nil
    with Cons have "w = alias" by (simp add: split_on_single)
    with Cons Nil assms show ?thesis
      by (simp add: apply_alias_def resolve_path_def set_state_value_def)
  next
    case (Cons p ps)
    with \<open>split_on CHR ''.'' alias = w # ws\<close> assms
    have "ec_state (apply_alias v alias c) = put_path (w # p # ps) v (ec_state c)"
      by (simp add: apply_alias_def set_state_value_def)
    then show ?thesis
      unfolding resolve_path_def \<open>split_on CHR ''.'' alias = w # ws\<close> Cons
      using resolve_put_path [of "w # p # ps"] by (simp only: list.distinct not_False_eq_True)
  qed
qed simp

definition sample_state :: pipeline_state where
  "sample_state = \<lparr>ps_run_id = ''r'', ps_pipeline_name = ''p'', ps_current_step = None, ps_artifacts = [],
     ps_pending_steps = [], ps_failed_steps = [], ps_locks = [], ps_retry_state = []\<rparr>"

definition sample_ctx :: exec_context where
  "sample_ctx = \<lparr>ec_run_id = ''r'', ec_pipeline_name = ''p'', ec_inputs = [], ec_trigger_type = None,
     ec_state = [(''plan'', PStr ''old'')], ec_metadata = [], ec_has_callback = False,
     ec_step_results = [], ec_pipeline_state = sample_state\<rparr>"

theorem output_alias_roundtrip_witness:
  "resolve_path (ec_state (apply_alias (PInt 3) ''plan.items.count'' sample_ctx)) ''plan.items.count'' = Inr (PInt 3)"
  by (rule output_alias_roundtrip) simp

text \<open>
  the input hash of a step, which decides whether a resumed run replays it, depends
  on the content of the payload only and not on the order its keys were inserted in.
\<close>

theorem stable_hash_order_insensitive:
  assumes "same_content (PDict p) (PDict q)"
  shows "stable_hash env p = stable_hash env q"
  by (simp only: stable_hash_def json_dumps_same_content [OF assms])

text \<open>
  C1: under strict validation, executing a step that is part of the run has one of two
  outcomes. When an input of the step does not resolve, the error is raised before
  anything happened to the run. Otherwise the step returns, whatever the agent does -
  not registered, raising, running over its time, returning a malformed result: it ends
  as success, partial success, failed or blocked, which is the status its output states,
  with one more attempt and its output recorded, and no other step's record changes.
\<close>

theorem execute_step_contained:
  assumes "strict_env env" "get_step (sd_name step) (os_rs s) = Inr st"
  shows "case apply_input_mapping env step (ec_state (os_ctx s)) of
      Inl e \<Rightarrow> execute_step env step s = (Inl e, s\<lparr>os_tick := os_tick s + 2\<rparr>)
    | Inr payload \<Rightarrow> \<exists>out s' st'. execute_step env step s = (Inr out, s') \<and>
        get_step (sd_name step) (os_rs s') = Inr st' \<and>
        st_status st' \<in> {SUCCESS, PARTIAL_SUCCESS, FAILED, BLOCKED} \<and>
        normalize_step_status (dget out ''status'') = Inr (st_status st') \<and>
        st_attempts st' = st_attempts st + 1 \<and> st_output st' = Some out \<and>
        map_of (ec_step_results (os_ctx s')) (sd_name step) = Some out \<and> step_frame (sd_name step) s s'"
proof (cases "apply_input_mapping env step (ec_state (os_ctx s))")
  case (Inl e)
  then show ?thesis by (simp add: execute_step_unresolved)
next
  case (Inr payload)
  with execute_step_finished [OF assms Inr] show ?thesis by simp
qed

definition silent_env :: exec_env where
  "silent_env = \<lparr>ee_fstr = (\<lambda>_. ''0.5''), ee_sha256 = (\<lambda>s. s), ee_now = (\<lambda>_. ''now''), ee_uuid = (\<lambda>_. ''id''),
     ee_render = None, ee_json_loads = (\<lambda>s. Inl (ValueError s)), ee_has_agent = (\<lambda>a. a = ''x''),
     ee_agent = (\<lambda>_ _ _ _. \<lparr>ao_updates = [], ao_result = Inl (RuntimeError ''boom''), ao_duration = 0\<rparr>),
     ee_validator = \<lparr>sv_schemas = [(agent_result_schema_name, agent_result_schema)], sv_strict = True\<rparr>,
     ee_strict = True\<rparr>"

definition sample_orch :: orch_state where
  "sample_orch = \<lparr>os_ctx = sample_ctx,
     os_rs = run_state_from_steps ''r'' ''p'' [(''a'', ''x''), (''b'', ''x'')] None None,
     os_tick = 0, os_slept = [], os_checkpoints = []\<rparr>"

lemma sample_orch_steps:
  "get_step ''a'' (os_rs sample_orch) = Inr (new_step_state ''a'' ''x'')"
  "get_step ''b'' (os_rs sample_orch) = Inr (new_step_state ''b'' ''x'')"
  by (simp_all add: sample_orch_def run_state_from_steps_def get_step_def new_step_state_def)

lemma strict_silent_env: "strict_env silent_env"
  by (simp add: strict_env_def silent_env_def dget_def)

theorem stable_hash_order_insensitive_witness:
  "stable_hash silent_env [(''a'', PInt 1), (''b'', PNone)] = stable_hash silent_env [(''b'', PNone), (''a'', PInt 1)]"
proof (rule stable_hash_order_insensitive)
  show "same_content (PDict [(''a'', PInt 1), (''b'', PNone)]) (PDict [(''b'', PNone), (''a'', PInt 1)])"
    by (rule same_dict [of _ "[(''b'', PNone), (''a'', PInt 1)]"])
      (auto intro: same_refl simp: add_mset_commute)
qed

theorem execute_step_contained_witness:
  "\<exists>out s' st'. execute_step silent_env (simple_step ''a'' ''x'') sample_orch = (Inr out, s') \<and>
     get_step ''a'' (os_rs s') = Inr st' \<and> st_attempts st' = 1 \<and> st_output st' = Some out"
proof -
  have "apply_input_mapping silent_env (simple_step ''a'' ''x'') (ec_state (os_ctx sample_orch)) =
      Inr (ec_state (os_ctx sample_orch))"
    by (simp add: apply_input_mapping_def silent_env_def apply_input_mapping_simple_def apply_mapping_def
        simple_step_def)
  with execute_step_contained [OF strict_silent_env, of "simple_step ''a'' ''x''" sample_orch]
    sample_orch_steps(1)
  show ?thesis by (simp add: simple_step_def new_step_state_def) blast
qed

end
