(* ===== verification/Parallel.thy ===== *)
theory Parallel
  imports Loader
begin

text \<open>
  \<open>orchestrator/parallel.py\<close>: the dependency graph of the steps of a pipeline and the
  choice of a batch of ready steps whose resource locks do not clash. A Python set is a
  list without duplicates; its iteration order only decides which of several ambiguous
  aliases an error names.
\<close>

subsection \<open>Placeholders in mappings\<close>

text \<open>The file has its own copy of the placeholder scanner of the registry.\<close>

fun par_extract_placeholders :: "pyval \<Rightarrow> string list" where
  "par_extract_placeholders (PStr s) = find_placeholders s"
| "par_extract_placeholders (PDict d) = concat (map (\<lambda>p. par_extract_placeholders (snd p)) d)"
| "par_extract_placeholders (PList xs) = concat (map par_extract_placeholders xs)"
| "par_extract_placeholders _ = []"

definition par_root_key :: "string \<Rightarrow> string" where
  "par_root_key path = fst (split_once CHR ''.'' (py_strip path))"

lemma par_extract_placeholders_eq: "par_extract_placeholders v = extract_placeholders v"
  by (induction v rule: par_extract_placeholders.induct)
    (auto intro!: arg_cong [where f = concat] map_cong)

lemma par_root_key_eq: "par_root_key = root_key"
  by (simp add: par_root_key_def root_key_def fun_eq_iff)

definition extract_output_aliases :: "pyval \<Rightarrow> string list" where
  "extract_output_aliases output_mapping =
     remdups (filter (\<lambda>k. k \<noteq> []) (map par_root_key (par_extract_placeholders output_mapping)))"

subsection \<open>Dependency graph\<close>

type_synonym dep_graph = "(string \<times> string list) list"

definition deps_of :: "dep_graph \<Rightarrow> string \<Rightarrow> string list" where
  "deps_of g n = (case map_of g n of Some ds \<Rightarrow> ds | None \<Rightarrow> [])"

definition empty_graph :: "step_definition list \<Rightarrow> dep_graph" where
  "empty_graph steps = fold (\<lambda>s g. AList.update (sd_name s) [] g) steps []"

definition add_dep :: "string \<Rightarrow> string \<Rightarrow> dep_graph \<Rightarrow> dep_graph" where
  "add_dep n d g = AList.update n (List.insert d (deps_of g n)) g"

type_synonym producers = "(string \<times> string) list"

definition claim_alias :: "string \<Rightarrow> string \<Rightarrow> producers \<Rightarrow> exn + producers" where
  "claim_alias name alias prods =
     (case map_of prods alias of
        Some ex \<Rightarrow>
          (if ex \<noteq> name then Inl (ValueError (''Ambiguous output alias '' @ quoted alias
              @ '' produced by both '' @ quoted ex @ '' and '' @ quoted name))
           else Inr (AList.update alias name prods))
      | None \<Rightarrow> Inr (AList.update alias name prods))"

definition claim_aliases :: "step_definition \<Rightarrow> producers \<Rightarrow> exn + producers" where
  "claim_aliases step prods =
     foldE (claim_alias (sd_name step)) (extract_output_aliases (sd_output_mapping step))
       (if map_of prods (sd_name step) = None then AList.update (sd_name step) (sd_name step) prods else prods)"

definition add_explicit :: "string list \<Rightarrow> string list \<Rightarrow> string \<Rightarrow> string \<Rightarrow> dep_graph \<Rightarrow> exn + dep_graph" where
  "add_explicit names ext name dep g =
     (if dep \<notin> set names \<and> dep \<notin> set ext
      then Inl (ValueError (''Step '' @ quoted name @ '' depends on unknown step '' @ quoted dep))
      else Inr (if dep \<noteq> name \<and> dep \<in> set names then add_dep name dep g else g))"

definition add_implicit :: "producers \<Rightarrow> string \<Rightarrow> string \<Rightarrow> dep_graph \<Rightarrow> dep_graph" where
  "add_implicit prods name placeholder g =
     (let key = par_root_key placeholder in
      if key = [] then g
      else case map_of prods key of
             None \<Rightarrow> g
           | Some p \<Rightarrow> if p = name then g else add_dep name p g)"

definition add_step_deps ::
  "string list \<Rightarrow> string list \<Rightarrow> producers \<Rightarrow> step_definition
   \<Rightarrow> dep_graph \<times> string option \<Rightarrow> exn + dep_graph \<times> string option" where
  "add_step_deps names ext prods step st =
     (let (g, prev) = st; name = sd_name step;
          g1 = (case prev of Some p \<Rightarrow> if \<not> sd_depends_on_explicit step then add_dep name p g else g
                | None \<Rightarrow> g)
      in bindE (foldE (add_explicit names ext name) (sd_depends_on step) g1) (\<lambda>g2.
           Inr (fold (add_implicit prods name)
                  (par_extract_placeholders (PDict (sd_input_mapping step))) g2, Some name)))"

definition build_step_dependency_graph ::
  "step_definition list \<Rightarrow> string list \<Rightarrow> exn + dep_graph" where
  "build_step_dependency_graph steps ext =
     bindE (foldE claim_aliases steps []) (\<lambda>prods.
     bindE (foldE (add_step_deps (map sd_name steps) ext prods) steps (empty_graph steps, None)) (\<lambda>st.
       Inr (fst st)))"

subsection \<open>Lock-aware batches\<close>

definition step_locks :: "step_definition \<Rightarrow> string list" where
  "step_locks s = filter (\<lambda>l. l \<noteq> []) (sd_resource_locks s)"

fun select_loop :: "step_definition list \<Rightarrow> string list \<Rightarrow> step_definition list \<Rightarrow> step_definition list" where
  "select_loop selected held [] = selected"
| "select_loop selected held (s # ss) =
     (if set (step_locks s) \<inter> set held \<noteq> {} then select_loop selected held ss
      else select_loop (selected @ [s]) (held @ step_locks s) ss)"

definition select_lock_aware_batch :: "step_definition list \<Rightarrow> step_definition list" where
  "select_lock_aware_batch ready =
     (let selected = select_loop [] [] ready in
      if selected \<noteq> [] then selected
      else case ready of [] \<Rightarrow> [] | s # _ \<Rightarrow> [s])"

subsection \<open>Facts on batches\<close>

definition lock_disjoint :: "step_definition list \<Rightarrow> bool" where
  "lock_disjoint ss \<longleftrightarrow> sorted_wrt (\<lambda>s t. set (step_locks s) \<inter> set (step_locks t) = {}) ss"

definition locks_of :: "step_definition list \<Rightarrow> string set" where
  "locks_of ss = (\<Union>s \<in> set ss. set (step_locks s))"

lemma lock_disjoint_snoc:
  assumes "lock_disjoint ss" "set (step_locks s) \<inter> locks_of ss = {}"
  shows "lock_disjoint (ss @ [s])"
  using assms by (fastforce simp: lock_disjoint_def locks_of_def sorted_wrt_append)

lemma select_loop_prefix: "\<exists>r. select_loop selected held ss = selected @ r \<and> set r \<subseteq> set ss"
proof (induction ss arbitrary: selected held)
  case Nil
  then show ?case by simp
next
  case (Cons s ss)
  show ?case
  proof (cases "set (step_locks s) \<inter> set held = {}")
    case True
    obtain r where "select_loop (selected @ [s]) (held @ step_locks s) ss = (selected @ [s]) @ r"
      "set r \<subseteq> set ss" using Cons.IH by blast
    with True show ?thesis by (intro exI [of _ "s # r"]) auto
  next
    case False
    obtain r where "select_loop selected held ss = selected @ r" "set r \<subseteq> set ss"
      using Cons.IH by blast
    with False show ?thesis by (intro exI [of _ r]) auto
  qed
qed

lemma select_loop_disjoint:
  "lock_disjoint selected \<Longrightarrow> set held = locks_of selected \<Longrightarrow>
   lock_disjoint (select_loop selected held ss)"
proof (induction ss arbitrary: selected held)
  case Nil
  then show ?case by simp
next
  case (Cons s ss)
  have "lock_disjoint (selected @ [s]) \<and> set (held @ step_locks s) = locks_of (selected @ [s])"
    if "set (step_locks s) \<inter> set held = {}"
    using Cons.prems that by (simp add: lock_disjoint_snoc) (auto simp: locks_of_def)
  with Cons show ?case by simp
qed

lemma select_loop_maximal:
  "s \<in> set ss \<Longrightarrow> set held = locks_of selected \<Longrightarrow>
   s \<in> set (select_loop selected held ss) \<or>
   set (step_locks s) \<inter> locks_of (select_loop selected held ss) \<noteq> {}"
proof (induction ss arbitrary: selected held)
  case Nil
  then show ?case by simp
next
  case (Cons t ss)
  show ?case
  proof (cases "set (step_locks t) \<inter> set held = {}")
    case True
    obtain r where r: "select_loop (selected @ [t]) (held @ step_locks t) ss = (selected @ [t]) @ r"
      using select_loop_prefix by blast
    have "set (held @ step_locks t) = locks_of (selected @ [t])"
      using Cons.prems(2) by (auto simp: locks_of_def)
    with Cons.IH [of "held @ step_locks t" "selected @ [t]"] Cons.prems(1) True r
    show ?thesis by auto
  next
    case False
    obtain r where r: "select_loop selected held ss = selected @ r"
      using select_loop_prefix by blast
    from False Cons.prems(2) obtain l where "l \<in> set (step_locks t)" "l \<in> locks_of selected" by auto
    moreover have "select_loop selected held (t # ss) = select_loop selected held ss"
      using False by simp
    moreover have "locks_of selected \<subseteq> locks_of (select_loop selected held ss)"
      using r by (auto simp: locks_of_def)
    ultimately show ?thesis using Cons.IH [of held selected] Cons.prems by (cases "s = t") auto
  qed
qed

lemma select_batch_nonempty: "ready \<noteq> [] \<Longrightarrow> select_lock_aware_batch ready \<noteq> []"
  by (cases ready) (auto simp: select_lock_aware_batch_def Let_def)

lemma select_loop_first:
  "\<exists>r. select_loop [] [] (s # ss) = s # r"
  using select_loop_prefix [of "[s]" "step_locks s" ss] by auto

lemma select_batch_eq: "select_lock_aware_batch ready = select_loop [] [] ready"
proof (cases ready)
  case (Cons s ss)
  obtain r where "select_loop [] [] (s # ss) = s # r" using select_loop_first by blast
  with Cons show ?thesis by (simp only: select_lock_aware_batch_def Let_def) simp
qed (simp add: select_lock_aware_batch_def)

lemma select_batch_subset: "set (select_lock_aware_batch ready) \<subseteq> set ready"
  using select_loop_prefix [of "[]" "[]" ready] by (auto simp: select_batch_eq)

lemma select_batch_disjoint: "lock_disjoint (select_lock_aware_batch ready)"
  unfolding select_batch_eq by (rule select_loop_disjoint) (simp_all add: lock_disjoint_def locks_of_def)

lemma select_loop_distinct:
  "distinct (map sd_name ss) \<Longrightarrow> distinct (map sd_name selected) \<Longrightarrow>
   sd_name ` set selected \<inter> sd_name ` set ss = {} \<Longrightarrow>
   distinct (map sd_name (select_loop selected held ss))"
  by (induction ss arbitrary: selected held) auto

lemma select_batch_distinct:
  "distinct (map sd_name ready) \<Longrightarrow> distinct (map sd_name (select_lock_aware_batch ready))"
  by (simp add: select_batch_eq select_loop_distinct)

text \<open>
  C5: the batch taken from a non-empty ready queue starts with its first step, holds
  only ready steps, no two of them share a resource lock, and a ready step is left out
  only because a chosen one holds one of its locks.
\<close>

theorem lock_aware_batch_correct:
  assumes "ready \<noteq> []"
  shows "hd (select_lock_aware_batch ready) = hd ready \<and>
    set (select_lock_aware_batch ready) \<subseteq> set ready \<and>
    lock_disjoint (select_lock_aware_batch ready) \<and>
    (\<forall>s \<in> set ready. s \<in> set (select_lock_aware_batch ready) \<or>
       set (step_locks s) \<inter> locks_of (select_lock_aware_batch ready) \<noteq> {})"
proof -
  obtain s ss where ready: "ready = s # ss" using assms by (cases ready) auto
  have "hd (select_lock_aware_batch ready) = hd ready"
    using select_loop_first [of s ss] by (auto simp: ready select_batch_eq)
  moreover have "lock_disjoint (select_lock_aware_batch ready)"
    using select_loop_disjoint [of "[]" "[]" ready]
    by (simp add: select_batch_eq lock_disjoint_def locks_of_def)
  ultimately show ?thesis
    using select_batch_subset select_loop_maximal [of _ ready "[]" "[]"]
    by (auto simp: select_batch_eq locks_of_def)
qed

definition locked_step :: "string \<Rightarrow> string list \<Rightarrow> step_definition" where
  "locked_step n ls = (simple_step n ''agent'')\<lparr>sd_resource_locks := ls\<rparr>"

theorem lock_aware_batch_correct_witness:
  "select_lock_aware_batch [locked_step ''a'' [''db''], locked_step ''b'' [''db''], locked_step ''c'' []]
     = [locked_step ''a'' [''db''], locked_step ''c'' []] \<and>
   lock_disjoint (select_lock_aware_batch
     [locked_step ''a'' [''db''], locked_step ''b'' [''db''], locked_step ''c'' []])"
  using lock_aware_batch_correct [of "[locked_step ''a'' [''db''], locked_step ''b'' [''db''], locked_step ''c'' []]"]
  by (simp add: select_lock_aware_batch_def step_locks_def locked_step_def simple_step_def Let_def)

subsection \<open>Facts on the dependency graph\<close>

lemma deps_of_add_dep [simp]:
  "set (deps_of (add_dep n d g) m) = (if m = n then insert d (set (deps_of g n)) else set (deps_of g m))"
  by (auto simp: add_dep_def deps_of_def)

lemma keys_add_dep [simp]: "fst ` set (add_dep n d g) = insert n (fst ` set g)"
  by (simp add: add_dep_def keys_update)

text \<open>The edges a step adds, declaratively.\<close>

definition step_edges ::
  "string list \<Rightarrow> producers \<Rightarrow> string option \<Rightarrow> step_definition \<Rightarrow> string set" where
  "step_edges names prods prev step =
     {p. prev = Some p \<and> \<not> sd_depends_on_explicit step} \<union>
     {d \<in> set (sd_depends_on step). d \<noteq> sd_name step \<and> d \<in> set names} \<union>
     {q. q \<noteq> sd_name step \<and> (\<exists>ph \<in> set (par_extract_placeholders (PDict (sd_input_mapping step))).
        par_root_key ph \<noteq> [] \<and> map_of prods (par_root_key ph) = Some q)}"

fun edges_from ::
  "string list \<Rightarrow> producers \<Rightarrow> string option \<Rightarrow> step_definition list \<Rightarrow> string \<Rightarrow> string set" where
  "edges_from names prods prev [] n = {}"
| "edges_from names prods prev (s # ss) n =
     (if sd_name s = n then step_edges names prods prev s else {}) \<union>
     edges_from names prods (Some (sd_name s)) ss n"

lemma fold_add_explicit:
  assumes "foldE (add_explicit names ext name) deps g = Inr g'"
  shows "(\<forall>n. set (deps_of g' n) = set (deps_of g n) \<union>
      (if n = name then {d \<in> set deps. d \<noteq> name \<and> d \<in> set names} else {})) \<and>
    fst ` set g' \<subseteq> insert name (fst ` set g) \<and>
    (\<forall>d \<in> set deps. d \<in> set names \<or> d \<in> set ext)"
  using assms
proof (induction deps arbitrary: g)
  case Nil
  then show ?case by auto
next
  case (Cons d deps)
  let ?g1 = "if d \<noteq> name \<and> d \<in> set names then add_dep name d g else g"
  obtain g1 where g1: "add_explicit names ext name d g = Inr g1"
    "foldE (add_explicit names ext name) deps g1 = Inr g'"
    using Cons.prems by (auto simp: returns_iff)
  have ok: "d \<in> set names \<or> d \<in> set ext" using g1(1) by (auto simp: add_explicit_def split: if_splits)
  have "g1 = ?g1" using g1(1) ok by (auto simp: add_explicit_def)
  note ih = Cons.IH [OF g1(2) [unfolded this]]
  have "set (deps_of g' n) = set (deps_of g n) \<union>
      (if n = name then {x \<in> set (d # deps). x \<noteq> name \<and> x \<in> set names} else {})" for n
    using ih by (cases "d \<noteq> name \<and> d \<in> set names"; cases "n = name") auto
  moreover have "fst ` set g' \<subseteq> insert name (fst ` set g)"
    using ih by (cases "d \<noteq> name \<and> d \<in> set names") simp_all
  ultimately show ?case using ih ok by simp
qed

lemma add_implicit_step:
  "set (deps_of (add_implicit prods name ph g) n) = set (deps_of g n) \<union>
     (if n = name \<and> par_root_key ph \<noteq> [] then
        {q. q \<noteq> name \<and> map_of prods (par_root_key ph) = Some q} else {})"
  "fst ` set (add_implicit prods name ph g) \<subseteq> insert name (fst ` set g)"
  by (auto simp: add_implicit_def Let_def split: option.splits)

lemma fold_add_implicit:
  "set (deps_of (fold (add_implicit prods name) phs g) n) = set (deps_of g n) \<union>
      (if n = name then {q. q \<noteq> name \<and> (\<exists>ph \<in> set phs. par_root_key ph \<noteq> [] \<and>
         map_of prods (par_root_key ph) = Some q)} else {})"
proof (induction phs arbitrary: g)
  case (Cons ph phs)
  then show ?case by (auto simp: add_implicit_step)
qed auto

lemma fold_add_implicit_keys:
  "fst ` set (fold (add_implicit prods name) phs g) \<subseteq> insert name (fst ` set g)"
proof (induction phs arbitrary: g)
  case (Cons ph phs)
  from Cons [of "add_implicit prods name ph g"] add_implicit_step(2) [of prods name ph g]
  show ?case by (simp only: fold_simps) blast
qed auto

lemma add_step_deps_Inr:
  assumes "add_step_deps names ext prods step (g, prev) = Inr (g', prev')"
  shows "prev' = Some (sd_name step)"
    "set (deps_of g' n) = set (deps_of g n) \<union>
       (if n = sd_name step then step_edges names prods prev step else {})"
    "fst ` set g' \<subseteq> insert (sd_name step) (fst ` set g)"
    "\<forall>d \<in> set (sd_depends_on step). d \<in> set names \<or> d \<in> set ext"
proof -
  define g1 where "g1 = (case prev of
      Some p \<Rightarrow> if \<not> sd_depends_on_explicit step then add_dep (sd_name step) p g else g
    | None \<Rightarrow> g)"
  let ?phs = "par_extract_placeholders (PDict (sd_input_mapping step))"
  obtain g2 where g2: "foldE (add_explicit names ext (sd_name step)) (sd_depends_on step) g1 = Inr g2"
    and g': "g' = fold (add_implicit prods (sd_name step)) ?phs g2"
    and prev': "prev' = Some (sd_name step)"
    using assms by (auto simp: add_step_deps_def Let_def returns_iff g1_def)
  have e1: "set (deps_of g1 n) = set (deps_of g n) \<union> (if n = sd_name step
      then {p. prev = Some p \<and> \<not> sd_depends_on_explicit step} else {})" for n
    by (auto simp: g1_def split: option.splits)
  have k1: "fst ` set g1 \<subseteq> insert (sd_name step) (fst ` set g)"
    by (auto simp: g1_def split: option.splits)
  note e2 = fold_add_explicit [OF g2]
  have d2: "set (deps_of g2 n) = set (deps_of g1 n) \<union>
      (if n = sd_name step then {d \<in> set (sd_depends_on step). d \<noteq> sd_name step \<and> d \<in> set names} else {})"
    using e2 by blast
  show "prev' = Some (sd_name step)" by (fact prev')
  show "set (deps_of g' n) = set (deps_of g n) \<union>
       (if n = sd_name step then step_edges names prods prev step else {})"
    unfolding g' fold_add_implicit d2 e1 step_edges_def by (simp add: Un_assoc)
  show "\<forall>d \<in> set (sd_depends_on step). d \<in> set names \<or> d \<in> set ext" using e2 by blast
  have "fst ` set g' \<subseteq> insert (sd_name step) (fst ` set g2)"
    unfolding g' by (rule fold_add_implicit_keys)
  moreover have "fst ` set g2 \<subseteq> insert (sd_name step) (fst ` set g1)" using e2 by blast
  ultimately show "fst ` set g' \<subseteq> insert (sd_name step) (fst ` set g)" using k1 by blast
qed

lemma fold_add_step_deps:
  assumes "foldE (add_step_deps names ext prods) steps (g, prev) = Inr (g', prev')"
  shows "(\<forall>n. set (deps_of g' n) = set (deps_of g n) \<union> edges_from names prods prev steps n) \<and>
    fst ` set g' \<subseteq> sd_name ` set steps \<union> fst ` set g \<and>
    (\<forall>s \<in> set steps. \<forall>d \<in> set (sd_depends_on s). d \<in> set names \<or> d \<in> set ext)"
  using assms
proof (induction steps arbitrary: g prev)
  case Nil
  then show ?case by simp
next
  case (Cons s ss)
  obtain g1 p1 where 1: "add_step_deps names ext prods s (g, prev) = Inr (g1, p1)"
    and rest: "foldE (add_step_deps names ext prods) ss (g1, p1) = Inr (g', prev')"
    using Cons.prems by (auto simp: returns_iff)
  note h = add_step_deps_Inr [OF 1]
  note ih = Cons.IH [OF rest [unfolded h(1)]]
  have "set (deps_of g' n) = set (deps_of g n) \<union> edges_from names prods prev (s # ss) n" for n
    using ih h(2) [of n] by (cases "n = sd_name s") (simp_all add: Un_assoc)
  moreover have "fst ` set g' \<subseteq> sd_name ` set (s # ss) \<union> fst ` set g"
  proof -
    have "fst ` set g' \<subseteq> sd_name ` set ss \<union> fst ` set g1" using ih by blast
    with h(3) have "fst ` set g' \<subseteq> sd_name ` set ss \<union> insert (sd_name s) (fst ` set g)" by blast
    then show ?thesis by simp
  qed
  moreover have "\<forall>t \<in> set (s # ss). \<forall>d \<in> set (sd_depends_on t). d \<in> set names \<or> d \<in> set ext"
    using ih h(4) by (simp only: set_simps ball_simps) blast
  ultimately show ?case by blast
qed

lemma deps_of_update: "deps_of (AList.update k v g) n = (if n = k then v else deps_of g n)"
  by (simp add: deps_of_def)

lemma empty_graph_deps [simp]: "deps_of (empty_graph steps) n = []"
proof -
  have "deps_of g n = [] \<Longrightarrow> deps_of (fold (\<lambda>s g. AList.update (sd_name s) [] g) ss g) n = []" for ss g
    by (induction ss arbitrary: g) (simp_all add: deps_of_update)
  from this [of "[]" steps] show ?thesis by (simp add: empty_graph_def deps_of_def)
qed

lemma empty_graph_keys [simp]: "fst ` set (empty_graph steps) = sd_name ` set steps"
proof -
  have "fst ` set (fold (\<lambda>s g. AList.update (sd_name s) ([]::string list) g) ss g)
      = sd_name ` set ss \<union> fst ` set g" for ss g
    by (induction ss arbitrary: g) (simp_all add: keys_update)
  from this [of steps "[]"] show ?thesis by (simp add: empty_graph_def)
qed

lemma snd_update: "snd ` set (AList.update k v d) \<subseteq> insert v (snd ` set d)"
  by (induction d) auto

lemma claim_alias_Inr: "claim_alias n a d = Inr d' \<Longrightarrow> d' = AList.update a n d"
  by (auto simp: claim_alias_def split: option.splits if_splits)

lemma fold_claim_alias_values:
  assumes "foldE (claim_alias n) as d = Inr d'" "snd ` set d \<subseteq> A" "n \<in> A"
  shows "snd ` set d' \<subseteq> A"
proof -
  have *: "snd ` set y \<subseteq> A" if "claim_alias n a x = Inr y" "snd ` set x \<subseteq> A" for a x y
    using claim_alias_Inr [OF that(1)] snd_update [of a n x] that(2) assms(3) by blast
  show ?thesis
  proof (rule foldE_inv [OF assms(1), where P = "\<lambda>d. snd ` set d \<subseteq> A"])
    show "snd ` set d \<subseteq> A" by (fact assms(2))
    show "snd ` set y \<subseteq> A" if "snd ` set x \<subseteq> A" "claim_alias n a x = Inr y" for a x y
      by (rule * [OF that(2,1)])
  qed
qed

lemma claim_aliases_values:
  assumes "claim_aliases s d = Inr d'" "snd ` set d \<subseteq> A" "sd_name s \<in> A"
  shows "snd ` set d' \<subseteq> A"
proof (rule fold_claim_alias_values [OF assms(1) [unfolded claim_aliases_def] _ assms(3)])
  show "snd ` set (if map_of d (sd_name s) = None then AList.update (sd_name s) (sd_name s) d else d) \<subseteq> A"
    using subset_trans [OF snd_update [of "sd_name s" "sd_name s" d]] assms(2,3) by simp
qed

lemma producers_are_steps:
  assumes "foldE claim_aliases steps [] = Inr prods"
  shows "snd ` set prods \<subseteq> sd_name ` set steps"
proof -
  have *: "snd ` set y \<subseteq> sd_name ` set steps"
    if "s \<in> set steps" "snd ` set x \<subseteq> sd_name ` set steps" "claim_aliases s x = Inr y" for s x y
    using claim_aliases_values [OF that(3,2)] that(1) by blast
  show ?thesis
    by (rule foldE_inv [OF assms, where P = "\<lambda>d. snd ` set d \<subseteq> sd_name ` set steps"]) (use * in auto)
qed

text \<open>The facts on a graph that was built, which the properties share.\<close>

lemma build_graph_Inr:
  assumes "build_step_dependency_graph steps ext = Inr g"
  obtains prods where "foldE claim_aliases steps [] = Inr prods"
    "\<And>n. set (deps_of g n) = edges_from (map sd_name steps) prods None steps n"
    "fst ` set g \<subseteq> sd_name ` set steps"
    "\<forall>s \<in> set steps. \<forall>d \<in> set (sd_depends_on s). d \<in> sd_name ` set steps \<or> d \<in> set ext"
proof -
  obtain prods last where p: "foldE claim_aliases steps [] = Inr prods"
    and f: "foldE (add_step_deps (map sd_name steps) ext prods) steps (empty_graph steps, None) = Inr (g, last)"
    using assms by (auto simp: build_step_dependency_graph_def returns_iff)
  from fold_add_step_deps [OF f] that [OF p] show thesis by simp
qed

lemma edges_from_subset:
  assumes "snd ` set prods \<subseteq> set names" "\<forall>p. prev = Some p \<longrightarrow> p \<in> set names"
    and "sd_name ` set steps \<subseteq> set names"
  shows "edges_from names prods prev steps n \<subseteq> set names"
  using assms(2,3)
proof (induction steps arbitrary: prev)
  case (Cons s ss)
  have "edges_from names prods (Some (sd_name s)) ss n \<subseteq> set names"
    using Cons.prems by (intro Cons.IH) auto
  moreover have "step_edges names prods prev s \<subseteq> set names"
  proof
    fix d assume "d \<in> step_edges names prods prev s"
    then consider "prev = Some d" | "d \<in> set names" | ph where "map_of prods ph = Some d"
      unfolding step_edges_def by blast
    then show "d \<in> set names"
    proof cases
      case 3
      then have "d \<in> snd ` set prods" by (force dest: map_of_SomeD)
      with assms(1) show ?thesis by blast
    qed (use Cons.prems(1) in blast)+
  qed
  ultimately show ?case by simp
qed simp

text \<open>
  The one rule that can make a step depend on itself is the implicit one: the step
  before has the same name and this one does not list its dependencies.
\<close>

fun self_follow :: "string \<Rightarrow> step_definition list \<Rightarrow> bool" where
  "self_follow n (s # t # ss) \<longleftrightarrow>
     sd_name s = n \<and> sd_name t = n \<and> \<not> sd_depends_on_explicit t \<or> self_follow n (t # ss)"
| "self_follow n _ \<longleftrightarrow> False"

lemma self_edge_step:
  "sd_name s = n \<Longrightarrow> n \<in> step_edges names prods prev s \<longleftrightarrow> prev = Some n \<and> \<not> sd_depends_on_explicit s"
  by (auto simp: step_edges_def)

lemma edges_from_self:
  "n \<in> edges_from names prods prev steps n \<longleftrightarrow>
   (\<exists>s ss. steps = s # ss \<and> sd_name s = n \<and> prev = Some n \<and> \<not> sd_depends_on_explicit s) \<or> self_follow n steps"
proof (induction steps arbitrary: prev)
  case (Cons s ss)
  then show ?case by (cases ss) (auto simp: self_edge_step)
qed simp

lemma self_follow_distinct: "distinct (map sd_name steps) \<Longrightarrow> \<not> self_follow n steps"
  by (induction n steps rule: self_follow.induct) auto

text \<open>
  C6: the dependency graph the builder returns has an edge exactly where the rules of the
  pipeline put one: an implicit edge to the previous step when the step does not list its
  dependencies, an edge per listed dependency inside the pipeline, an edge to the producer
  of every placeholder read. Every edge leads to a step of the pipeline and every listed
  dependency is known. The loader accepts steps of the same name; a step depends on
  itself exactly when it follows a step of its own name and does not list its
  dependencies, so never when the names are distinct.
\<close>

theorem dependency_graph_correct:
  assumes "build_step_dependency_graph steps ext = Inr g"
  shows "\<exists>prods. foldE claim_aliases steps [] = Inr prods \<and>
    (\<forall>n. set (deps_of g n) = edges_from (map sd_name steps) prods None steps n \<and>
       set (deps_of g n) \<subseteq> sd_name ` set steps \<and> (n \<in> set (deps_of g n) \<longleftrightarrow> self_follow n steps)) \<and>
    (\<forall>s \<in> set steps. set (sd_depends_on s) \<subseteq> sd_name ` set steps \<union> set ext)"
proof -
  obtain prods where p: "foldE claim_aliases steps [] = Inr prods"
    and e: "\<And>n. set (deps_of g n) = edges_from (map sd_name steps) prods None steps n"
    and d: "\<forall>s \<in> set steps. \<forall>d \<in> set (sd_depends_on s). d \<in> sd_name ` set steps \<or> d \<in> set ext"
    using build_graph_Inr [OF assms] by metis
  have "edges_from (map sd_name steps) prods None steps n \<subseteq> sd_name ` set steps" for n
    using edges_from_subset [of prods "map sd_name steps" None steps n] producers_are_steps [OF p] by simp
  moreover have "n \<in> edges_from (map sd_name steps) prods None steps n \<longleftrightarrow> self_follow n steps" for n
    by (simp add: edges_from_self)
  ultimately show ?thesis using p e d by (intro exI [of _ prods]) auto
qed

definition reads_step :: "string \<Rightarrow> string \<Rightarrow> string \<Rightarrow> step_definition" where
  "reads_step n out inp = (simple_step n ''agent'')\<lparr>sd_depends_on_explicit := True,
     sd_output_mapping := PDict [(''o'', PStr (''{{'' @ out @ ''}}''))],
     sd_input_mapping := [(''i'', PStr (''{{'' @ inp @ ''}}''))]\<rparr>"

theorem dependency_graph_correct_witness:
  "\<exists>g. build_step_dependency_graph [reads_step ''a'' ''spec'' ''x'', reads_step ''b'' ''code'' ''spec.text''] [] = Inr g \<and>
    ''b'' \<notin> set (deps_of g ''b'') \<and> deps_of g ''b'' = [''a'']"
proof -
  let ?ss = "[reads_step ''a'' ''spec'' ''x'', reads_step ''b'' ''code'' ''spec.text'']"
  have b: "build_step_dependency_graph ?ss [] = Inr [(''a'', []), (''b'', [''a''])]"
    by code_simp
  have "\<not> self_follow ''b'' ?ss" by (rule self_follow_distinct) (simp add: reads_step_def simple_step_def)
  with dependency_graph_correct [OF b] b show ?thesis
    by (auto simp: deps_of_def)
qed

end
