(* ===== verification/Summary.thy ===== *)
theory Summary
  imports RunState
begin

text \<open>
  \<open>orchestrator/summary.py\<close>: the summary of a finished run. Reading an ISO time stamp
  is a parameter \<open>fromiso\<close>: whether it has a time zone and its seconds, or \<open>None\<close> when
  the text is no time stamp. The difference of a zoned and an unzoned time raises.
\<close>

type_synonym iso_reader = "string \<Rightarrow> (bool \<times> rat) option"

definition iso_text :: "string \<Rightarrow> string" where
  "iso_text s = replace_all ''Z'' ''+00:00'' s"

definition duration_seconds :: "iso_reader \<Rightarrow> string option \<Rightarrow> string option \<Rightarrow> exn + rat" where
  "duration_seconds fromiso started finished =
     (case (started, finished) of
        (Some a, Some b) \<Rightarrow>
          (if a = [] \<or> b = [] then Inr 0
           else (case (fromiso (iso_text a), fromiso (iso_text b)) of
                   (Some (za, sa), Some (zb, sb)) \<Rightarrow>
                     if za \<noteq> zb then Inl (TypeError ''can't subtract offset-naive and offset-aware datetimes'')
                     else Inr (max 0 (sb - sa))
                 | _ \<Rightarrow> Inr 0))
      | _ \<Rightarrow> Inr 0)"

record summary_acc =
  su_counts :: "(string \<times> int) list"
  su_errors :: "(string \<times> string) list"
  su_retries :: int
  su_step_retries :: "(string \<times> int) list"
  su_durations :: "(string \<times> rat) list"

definition count_of :: "(string \<times> int) list \<Rightarrow> string \<Rightarrow> int" where
  "count_of d k = (case map_of d k of Some n \<Rightarrow> n | None \<Rightarrow> 0)"

definition summarize_step :: "iso_reader \<Rightarrow> step_run_state \<Rightarrow> summary_acc \<Rightarrow> exn + summary_acc" where
  "summarize_step fromiso st acc =
     bindE (duration_seconds fromiso (st_started_at st) (st_finished_at st)) (\<lambda>dur.
       let k = status_value (st_status st) in
       Inr (acc\<lparr>su_counts := AList.update k (count_of (su_counts acc) k + 1) (su_counts acc),
            su_errors := su_errors acc @ (case st_error st of
              Some e \<Rightarrow> if e \<noteq> [] then [(st_name st, e)] else [] | None \<Rightarrow> []),
            su_retries := su_retries acc + (if st_attempts st > 1 then st_attempts st - 1 else 0),
            su_step_retries := AList.update (st_name st) (max 0 (st_attempts st - 1)) (su_step_retries acc),
            su_durations := AList.update (st_name st) dur (su_durations acc)\<rparr>))"

definition empty_summary :: summary_acc where
  "empty_summary = \<lparr>su_counts = [], su_errors = [], su_retries = 0, su_step_retries = [], su_durations = []\<rparr>"

definition build_summary :: "iso_reader \<Rightarrow> run_state \<Rightarrow> (string \<times> dict) list \<Rightarrow> exn + dict" where
  "build_summary fromiso rs results =
     bindE (foldE (summarize_step fromiso) (rs_steps rs) empty_summary) (\<lambda>acc. Inr
       [(''run_id'', PStr (rs_run_id rs)), (''pipeline_name'', PStr (rs_pipeline_name rs)),
        (''correlation_id'', opt_str (rs_correlation_id rs)), (''trace_id'', opt_str (rs_trace_id rs)),
        (''run_status'', PStr (rs_run_status rs)), (''step_count'', PInt (int (length (rs_steps rs)))),
        (''status_counts'', PDict (map (\<lambda>(k, n). (k, PInt n)) (su_counts acc))),
        (''total_retries'', PInt (su_retries acc)),
        (''errors'', PList (map (\<lambda>(s, e). PDict [(''step'', PStr s), (''error'', PStr e)]) (su_errors acc))),
        (''step_results_count'', PInt (int (length results))),
        (''step_retries'', PDict (map (\<lambda>(k, n). (k, PInt n)) (su_step_retries acc))),
        (''step_durations_seconds'', PDict (map (\<lambda>(k, r). (k, PFloat r)) (su_durations acc)))])"

subsection \<open>The counts are those of the steps\<close>

lemma count_of_update [simp]: "count_of (AList.update k n d) k' = (if k' = k then n else count_of d k')"
  by (simp add: count_of_def)

definition summary_of :: "step_run_state list \<Rightarrow> summary_acc \<Rightarrow> bool" where
  "summary_of ss acc \<longleftrightarrow>
     (\<forall>st. count_of (su_counts acc) (status_value st) = int (length (filter (\<lambda>s. st_status s = st) ss))) \<and>
     su_errors acc = concat (map (\<lambda>s. case st_error s of Some e \<Rightarrow> if e \<noteq> [] then [(st_name s, e)] else [] | None \<Rightarrow> []) ss) \<and>
     su_retries acc = (\<Sum>s\<leftarrow>ss. max 0 (st_attempts s - 1)) \<and>
     (\<forall>(k, r) \<in> set (su_durations acc). 0 \<le> r)"

lemma status_value_inj: "status_value a = status_value b \<longleftrightarrow> a = b"
  by (metis status_value_roundtrip sum.inject(2))

lemma duration_nonneg: "duration_seconds fromiso a b = Inr r \<Longrightarrow> 0 \<le> r"
  by (auto simp: duration_seconds_def split: option.splits prod.splits if_splits)

lemma in_update: "(k', v') \<in> set (AList.update k v d) \<Longrightarrow> (k', v') = (k, v) \<or> (k', v') \<in> set d"
  by (induction d) (auto split: if_splits)

lemma summarize_step_inv:
  assumes "summary_of ss acc" "summarize_step fromiso st acc = Inr acc'"
  shows "summary_of (ss @ [st]) acc'"
  using assms
  by (auto simp: summary_of_def summarize_step_def bindE_Inr_iff Let_def status_value_inj
      dest!: in_update dest: duration_nonneg)

lemma fold_summarize:
  "foldE (summarize_step fromiso) ts acc = Inr acc' \<Longrightarrow> summary_of ss acc \<Longrightarrow> summary_of (ss @ ts) acc'"
proof (induction ts arbitrary: ss acc)
  case (Cons t ts)
  then obtain a1 where "summarize_step fromiso t acc = Inr a1" "foldE (summarize_step fromiso) ts a1 = Inr acc'"
    by (auto simp: bindE_Inr_iff)
  with Cons.IH [of a1 "ss @ [t]"] summarize_step_inv Cons.prems(2) show ?case by fastforce
qed simp

text \<open>
  the summary of a run counts every step under its status, lists exactly the
  non-empty errors of its steps in order, and its retries are the attempts beyond the
  first, added up.
\<close>

theorem summary_counts:
  assumes "build_summary fromiso rs results = Inr d"
  shows "\<exists>acc. summary_of (rs_steps rs) acc \<and>
    dget d ''status_counts'' = PDict (map (\<lambda>(k, n). (k, PInt n)) (su_counts acc)) \<and>
    dget d ''errors'' = PList (map (\<lambda>(s, e). PDict [(''step'', PStr s), (''error'', PStr e)]) (su_errors acc)) \<and>
    dget d ''total_retries'' = PInt (\<Sum>s\<leftarrow>rs_steps rs. max 0 (st_attempts s - 1))"
proof -
  obtain acc where acc: "foldE (summarize_step fromiso) (rs_steps rs) empty_summary = Inr acc"
    using assms by (auto simp: build_summary_def bindE_Inr_iff)
  have "summary_of [] empty_summary" by (simp add: summary_of_def empty_summary_def count_of_def)
  from fold_summarize [OF acc this] have s: "summary_of (rs_steps rs) acc" by simp
  show ?thesis
    using assms acc s by (intro exI [of _ acc]) (auto simp: build_summary_def dget_def summary_of_def)
qed

theorem summary_counts_witness:
  "\<exists>d (acc :: summary_acc). build_summary (\<lambda>_. None) (run_state_from_steps ''r'' ''p'' [(''a'', ''x'')] None None) [] = Inr d \<and>
     count_of (su_counts acc) ''PENDING'' = 1 \<and>
     dget d ''status_counts'' = PDict (map (\<lambda>(k, n). (k, PInt n)) (su_counts acc))"
proof -
  let ?rs = "run_state_from_steps ''r'' ''p'' [(''a'', ''x'')] None None"
  obtain d where d: "build_summary (\<lambda>_. None) ?rs [] = Inr d"
    by (simp add: build_summary_def run_state_from_steps_def new_step_state_def summarize_step_def
        duration_seconds_def Let_def)
  from summary_counts [OF d] obtain acc where acc: "summary_of (rs_steps ?rs) acc"
    "dget d ''status_counts'' = PDict (map (\<lambda>(k, n). (k, PInt n)) (su_counts acc))" by blast
  have "count_of (su_counts acc) (status_value PENDING) = 1"
    using conjunct1 [OF acc(1) [unfolded summary_of_def], rule_format, of PENDING]
    by (simp add: run_state_from_steps_def new_step_state_def)
  then have "count_of (su_counts acc) ''PENDING'' = 1" by simp
  with d acc(2) show ?thesis by blast
qed

end
