(* ===== verification/Engine.thy ===== *)
theory Engine
  imports Executor Parallel Summary
begin

text \<open>
  \<open>orchestrator/engine.py\<close>: running a pipeline. The engine's parameters are the fields
  of \<open>engine\<close>: the executor's environment, the policies, the operator overrides as seen
  at each moment, the order in which the workers of a parallel batch get through, the
  memory hook and the rule pack. The local variable \<open>step_results\<close> is the field
  \<open>es_results\<close> of the state. The parameter \<open>has_next_step\<close> of the code is never read
  and left out. Waits are recorded, not waited.
\<close>

subsection \<open>Parameters and state\<close>

record memory_hook =
  mh_after_step :: "string \<Rightarrow> dict \<Rightarrow> dict \<Rightarrow> exn + dict"
  mh_promote :: "dict \<Rightarrow> string \<Rightarrow> dict"

record engine =
  en_exec :: exec_env
  en_retry :: retry_policy
  en_max_loop :: int
  en_workers :: int
  en_state_validator :: schema_validator
  en_override :: "nat \<Rightarrow> string \<Rightarrow> override_request option"
  en_schedule :: "nat \<Rightarrow> nat \<Rightarrow> nat list"
  en_hook :: "memory_hook option"
  en_rules :: "exn + pyval"
  en_fromiso :: iso_reader

record engine_state = orch_state +
  es_results :: "(string \<times> dict) list"

subsection \<open>Failure policies\<close>

datatype policy_action = ActStop | ActContinue | ActRetry | ActBlock

definition policy_actions :: "(string \<times> policy_action) list" where
  "policy_actions =
     [(''stop_pipeline'', ActStop), (''log_warning'', ActContinue), (''continue'', ActContinue),
      (''retry_step'', ActRetry), (''create_issue_for_human'', ActBlock), (''escalate_to_human'', ActBlock),
      (''skip_step'', ActContinue), (''trigger_fix_loop'', ActContinue)]"

text \<open>\<open>on_failure\<close> comes unchecked from the file; looking up an unhashable value raises.\<close>

definition resolve_policy_action :: "pyval \<Rightarrow> exn + policy_action" where
  "resolve_policy_action on_failure =
     (case on_failure of
        PStr s \<Rightarrow> Inr (case map_of policy_actions s of Some a \<Rightarrow> a | None \<Rightarrow> ActStop)
      | PList _ \<Rightarrow> Inl (TypeError (''unhashable type: '' @ quoted ''list''))
      | PDict _ \<Rightarrow> Inl (TypeError (''unhashable type: '' @ quoted ''dict''))
      | _ \<Rightarrow> Inr ActStop)"

definition is_step_success :: "dict \<Rightarrow> bool" where
  "is_step_success output \<longleftrightarrow> dget output ''status'' \<in> {PStr ''SUCCESS'', PStr ''PARTIAL_SUCCESS''}"

subsection \<open>Loop conditions\<close>

datatype cmp_op = OpEq | OpNe | OpGe | OpLe | OpGt | OpLt

text \<open>The operators in the order of the pattern's alternation.\<close>

definition cmp_ops :: "(string \<times> cmp_op) list" where
  "cmp_ops = [(''=='', OpEq), (''!='', OpNe), (''>='', OpGe), (''<='', OpLe), (''>'', OpGt), (''<'', OpLt)]"

fun engine_resolve_parts :: "pyval \<Rightarrow> string list \<Rightarrow> pyval" where
  "engine_resolve_parts current [] = current"
| "engine_resolve_parts (PDict d) (part # parts) =
     (case map_of d part of Some v \<Rightarrow> engine_resolve_parts v parts | None \<Rightarrow> PNone)"
| "engine_resolve_parts _ (part # parts) = PNone"

definition engine_resolve_path :: "dict \<Rightarrow> string \<Rightarrow> pyval" where
  "engine_resolve_path src dotted = engine_resolve_parts (PDict src) (split_on CHR ''.'' dotted)"

text \<open>The operator at the start of the text, such that a right side follows on its line.\<close>

fun first_operator :: "(string \<times> cmp_op) list \<Rightarrow> string \<Rightarrow> (cmp_op \<times> string) option" where
  "first_operator [] s = None"
| "first_operator ((w, cmp) # ops) s =
     (let r = py_lstrip (drop (length w) s) in
      if starts_with w s \<and> r \<noteq> [] \<and> CHR 0x0A \<notin> set r then Some (cmp, r) else first_operator ops s)"

text \<open>The shortest left side of at least one character that an operator follows.\<close>

fun split_comparison :: "string \<Rightarrow> string \<Rightarrow> (string \<times> cmp_op \<times> string) option" where
  "split_comparison left [] = None"
| "split_comparison left (c # s) =
     (if c = CHR 0x0A then None
      else case first_operator cmp_ops (py_lstrip s) of
             Some (cmp, r) \<Rightarrow> Some (left @ [c], cmp, r)
           | None \<Rightarrow> split_comparison (left @ [c]) s)"

definition compare_rat :: "cmp_op \<Rightarrow> rat \<Rightarrow> rat \<Rightarrow> bool" where
  "compare_rat cmp a b =
     (case cmp of OpEq \<Rightarrow> a = b | OpNe \<Rightarrow> a \<noteq> b | OpGe \<Rightarrow> a \<ge> b | OpLe \<Rightarrow> a \<le> b | OpGt \<Rightarrow> a > b | OpLt \<Rightarrow> a < b)"

definition compare_values :: "cmp_op \<Rightarrow> pyval \<Rightarrow> pyval \<Rightarrow> bool" where
  "compare_values cmp a b =
     (case cmp of
        OpEq \<Rightarrow> py_eq a b
      | OpNe \<Rightarrow> \<not> py_eq a b
      | _ \<Rightarrow> (case (py_float a, py_float b) of (Inr x, Inr y) \<Rightarrow> compare_rat cmp x y | _ \<Rightarrow> False))"

definition left_operand :: "dict \<Rightarrow> string \<Rightarrow> pyval" where
  "left_operand st left =
     (case engine_resolve_path st (py_strip left) of
        PNone \<Rightarrow> (case parse_float (py_strip left) of
                    Some r \<Rightarrow> PFloat r | None \<Rightarrow> PBool (py_strip left \<noteq> []))
      | v \<Rightarrow> v)"

definition right_operand :: "string \<Rightarrow> pyval" where
  "right_operand right =
     (let t = py_strip right in
      case parse_float t of
        Some r \<Rightarrow> PFloat r
      | None \<Rightarrow> if py_lower t = ''true'' then PBool True
                else if py_lower t = ''false'' then PBool False else PStr t)"

definition evaluate_rendered :: "dict \<Rightarrow> string \<Rightarrow> bool" where
  "evaluate_rendered st rendered =
     (if py_lower rendered \<in> {''true'', ''false''} then py_lower rendered = ''true''
      else case split_comparison [] rendered of
             Some (left, cmp, right) \<Rightarrow> compare_values cmp (left_operand st left) (right_operand right)
           | None \<Rightarrow> rendered \<noteq> [])"

definition signed_digits :: "string \<Rightarrow> rat option" where
  "signed_digits s =
     (let (neg, ds) = (case s of c # cs \<Rightarrow> if c = CHR ''-'' then (True, cs) else (False, s) | [] \<Rightarrow> (False, [])) in
      if ds \<noteq> [] \<and> list_all is_digit ds
      then Some (if neg then - of_nat (digits_value ds) else of_nat (digits_value ds)) else None)"

definition evaluate_loop_condition_simple :: "string \<Rightarrow> dict \<Rightarrow> bool" where
  "evaluate_loop_condition_simple condition st =
     (case match_placeholder (py_strip condition) of
        None \<Rightarrow> False
      | Some (path, rest) \<Rightarrow>
          (case first_operator cmp_ops (py_lstrip rest) of
             None \<Rightarrow> False
           | Some (cmp, right) \<Rightarrow>
               (case signed_digits right of
                  None \<Rightarrow> False
                | Some b \<Rightarrow>
                    (case engine_resolve_path st path of
                       PNone \<Rightarrow> False
                     | v \<Rightarrow> (case py_float v of Inr a \<Rightarrow> compare_rat cmp a b | Inl _ \<Rightarrow> False)))))"

definition evaluate_loop_condition :: "exec_env \<Rightarrow> string \<Rightarrow> dict \<Rightarrow> bool" where
  "evaluate_loop_condition env condition st =
     (case ee_render env of
        None \<Rightarrow> evaluate_loop_condition_simple condition st
      | Some render \<Rightarrow>
          (case render (py_strip condition) st of
             Inl _ \<Rightarrow> evaluate_loop_condition_simple (py_strip condition) st
           | Inr rendered \<Rightarrow> evaluate_rendered st (py_strip rendered)))"

subsection \<open>Checkpoints\<close>

definition check_pipeline_state :: "(rat \<Rightarrow> string) \<Rightarrow> schema_validator \<Rightarrow> string \<Rightarrow> dict \<Rightarrow> exn + unit" where
  "check_pipeline_state fstr sv prefix payload =
     (case validate_pipeline_state fstr sv payload of
        Inl (SchemaValidationError m) \<Rightarrow> Inl (ValueError (prefix @ m))
      | Inl e \<Rightarrow> Inl e
      | Inr errors \<Rightarrow> if errors \<noteq> [] then Inl (ValueError (prefix @ join ''; '' errors)) else Inr ())"

definition sync_and_validate :: "engine \<Rightarrow> (engine_state, unit) st" where
  "sync_and_validate en =
     seqS (modifyS (\<lambda>s. s\<lparr>os_ctx := sync_pipeline_state (ee_fstr (en_exec en)) (os_rs s) (os_ctx s)\<rparr>))
     (bindS (getS (\<lambda>s. pipeline_state_dump (ec_pipeline_state (os_ctx s)))) (\<lambda>payload.
        liftE (check_pipeline_state (ee_fstr (en_exec en)) (en_state_validator en)
                 ''Invalid pipeline_state payload: '' payload)))"

definition results_dict :: "(string \<times> dict) list \<Rightarrow> pyval" where
  "results_dict rs = PDict (map (\<lambda>(k, d). (k, PDict d)) rs)"

definition retry_metadata :: "run_state \<Rightarrow> dict" where
  "retry_metadata rs =
     fold (\<lambda>st. dset (st_name st) (PDict
       [(''attempts'', PInt (st_attempts st)), (''status'', PStr (status_value (st_status st))),
        (''input_hash'', opt_str (st_input_hash st)), (''error'', opt_str (st_error st))])) (rs_steps rs) []"

definition build_checkpoint_payload :: "exec_context \<Rightarrow> run_state \<Rightarrow> string \<Rightarrow> dict" where
  "build_checkpoint_payload c rs status =
     [(''run_id'', PStr (ec_run_id c)), (''pipeline_name'', PStr (ec_pipeline_name c)),
      (''status'', PStr status), (''steps'', results_dict (ec_step_results c)),
      (''run_state'', PDict (run_state_to_dict rs)),
      (''checkpoint'', PDict
        [(''step_cursor'', PInt (rs_current_step_index rs)), (''run_status'', PStr (rs_run_status rs)),
         (''context_snapshot'', PDict (ec_state c)),
         (''step_results_snapshot'', results_dict (ec_step_results c)),
         (''run_state_snapshot'', PDict (run_state_to_dict rs)),
         (''retry_metadata'', PDict (retry_metadata rs))])]"

text \<open>The checkpoint callback is the caller's; the payloads it gets are recorded.\<close>

definition emit_checkpoint :: "engine \<Rightarrow> string option \<Rightarrow> (engine_state, unit) st" where
  "emit_checkpoint en status =
     seqS (sync_and_validate en) (modifyS (\<lambda>s.
       if \<not> ec_has_callback (os_ctx s) then s
       else let st = (case status of Some t \<Rightarrow> t | None \<Rightarrow>
                        if rs_run_status (os_rs s) \<noteq> [] then rs_run_status (os_rs s) else status_value RUNNING)
            in s\<lparr>os_checkpoints := os_checkpoints s @ [build_checkpoint_payload (os_ctx s) (os_rs s) st]\<rparr>))"

subsection \<open>One step under its failure policy\<close>

definition plain_result :: "string \<Rightarrow> pyval list \<Rightarrow> string \<Rightarrow> dict" where
  "plain_result status decisions msg =
     [(''status'', PStr status), (''artifacts'', PList []), (''decisions'', PList decisions),
      (''logs'', PList [PStr msg]), (''next_actions'', PList [])]"

definition skipped_output :: "string \<Rightarrow> dict" where
  "skipped_output c = plain_result ''SKIPPED''
     [PDict [(''reason'', PStr (''Condition not met: '' @ c)), (''confidence'', PFloat 1)]]
     (''Step skipped: condition not met ('' @ c @ '').'')"

definition blocked_output :: dict where
  "blocked_output = plain_result ''BLOCKED'' [] ''Run stopped by operator override.''"

definition skip_step :: "engine \<Rightarrow> step_definition \<Rightarrow> string \<Rightarrow> (engine_state, dict \<times> bool) st" where
  "skip_step en step c =
     bindS (tickS (ee_now (en_exec en))) (\<lambda>now.
     seqS (markS (sd_name step) SKIPPED (no_mark\<lparr>ma_finished_at := Some now,
             ma_error := Some (''Step condition not met: '' @ c), ma_output := Some (skipped_output c)\<rparr>))
     (seqS (ctxS (record_step_result (sd_name step) (skipped_output c)))
     (seqS (rsS advance_index)
     (seqS (emit_checkpoint en None)
     (returnS (skipped_output c, False))))))"

definition stop_step :: "engine \<Rightarrow> step_definition \<Rightarrow> override_request \<Rightarrow> (engine_state, dict \<times> bool) st" where
  "stop_step en step req =
     seqS (rsS (set_run_status BLOCKED))
     (bindS (tickS (ee_now (en_exec en))) (\<lambda>now.
     seqS (markS (sd_name step) SKIPPED (no_mark\<lparr>ma_finished_at := Some now,
             ma_error := Some (''Run stopped by override: ''
               @ (if ov_reason req \<noteq> [] then ov_reason req else ''no reason provided'')),
             ma_output := Some blocked_output\<rparr>))
     (seqS (ctxS (record_step_result (sd_name step) blocked_output))
     (seqS (emit_checkpoint en None)
     (returnS (blocked_output, True))))))"

definition retry_limit_of :: "step_definition \<Rightarrow> exn + rat option" where
  "retry_limit_of step =
     (case sd_retry_limit step of
        PNone \<Rightarrow> Inr None
      | v \<Rightarrow> (case num_of v of Some r \<Rightarrow> Inr (Some r)
              | None \<Rightarrow> Inl (TypeError ''retry_limit is not a number'')))"

definition sleepS :: "rat \<Rightarrow> ('b orch_state_scheme, unit) st" where
  "sleepS r = modifyS (\<lambda>s. if r > 0 then s\<lparr>os_slept := os_slept s @ [r]\<rparr> else s)"

definition continue_step :: "engine \<Rightarrow> step_definition \<Rightarrow> dict \<Rightarrow> (engine_state, dict \<times> bool) st" where
  "continue_step en step out =
     seqS (rsS (\<lambda>rs. if rs_run_status rs \<in> {status_value FAILED, status_value BLOCKED}
                     then set_run_status RUNNING rs else rs))
     (bindS (tickS (ee_now (en_exec en))) (\<lambda>now.
     seqS (markS (sd_name step) SKIPPED (no_mark\<lparr>ma_finished_at := Some now,
             ma_error := Some (''Step failed but continued by policy: ''
               @ py_str (ee_fstr (en_exec en)) (sd_on_failure step))\<rparr>))
     (seqS (rsS advance_index)
     (seqS (emit_checkpoint en None)
     (returnS (out, False))))))"

definition halt_step :: "engine \<Rightarrow> step_status \<Rightarrow> dict \<Rightarrow> (engine_state, dict \<times> bool) st" where
  "halt_step en st out =
     seqS (rsS (set_run_status st)) (seqS (emit_checkpoint en None) (returnS (out, True)))"

text \<open>
  The \<open>while True\<close> loop around the executor. It is parametrised by the executor so that
  what is proved about it rests on the executor's promise only.
\<close>

type_synonym executor = "step_definition \<Rightarrow> (engine_state, dict) st"

definition may_retry :: "engine \<Rightarrow> step_definition \<Rightarrow> int \<Rightarrow> bool" where
  "may_retry en step attempt =
     (case retry_limit_of step of Inr rl \<Rightarrow> should_retry (en_retry en) attempt rl | Inl _ \<Rightarrow> False)"

definition max_retries :: "engine \<Rightarrow> step_definition \<Rightarrow> int" where
  "max_retries en step =
     (case retry_limit_of step of
        Inr None \<Rightarrow> rp_retry_limit (en_retry en) | Inr (Some l) \<Rightarrow> \<lfloor>max 0 l\<rfloor> | Inl _ \<Rightarrow> 0)"

lemma may_retry_bound: "may_retry en step n \<Longrightarrow> n \<le> max_retries en step"
  by (auto simp: may_retry_def max_retries_def should_retry_def le_floor_iff split: sum.splits option.splits)

function retry_loop :: "engine \<Rightarrow> executor \<Rightarrow> step_definition \<Rightarrow> int \<Rightarrow> (engine_state, dict \<times> bool) st" where
  "retry_loop en exec step attempt =
     bindS (exec step) (\<lambda>out.
     seqS (ctxS (record_step_result (sd_name step) out))
     (if is_step_success out then
        seqS (rsS advance_index) (seqS (emit_checkpoint en None) (returnS (out, False)))
      else bindS (liftE (resolve_policy_action (sd_on_failure step))) (\<lambda>action.
        if action = ActRetry then
          seqS (liftE (bindE (retry_limit_of step) (\<lambda>_. Inr ())))
          (if may_retry en step (attempt + 1) then
             seqS (sleepS (backoff_duration (en_retry en) (attempt + 1)))
               (retry_loop en exec step (attempt + 1))
           else halt_step en BLOCKED out)
        else if action = ActContinue then continue_step en step out
        else if action = ActBlock then halt_step en BLOCKED out
        else halt_step en FAILED out)))"
  by pat_completeness auto
termination
  by (relation "measure (\<lambda>(en, exec, step, attempt). nat (max_retries en step - attempt))")
    (auto dest: may_retry_bound)

declare retry_loop.simps [simp del]

text \<open>The attempts a step has behind it, in this run, count against its retries.\<close>

definition initial_attempt :: "step_definition \<Rightarrow> run_state \<Rightarrow> int" where
  "initial_attempt step rs =
     (case get_step (sd_name step) rs of Inr st \<Rightarrow> max 0 (st_attempts st - 1) | Inl _ \<Rightarrow> 0)"

definition step_condition :: "step_definition \<Rightarrow> string option" where
  "step_condition step = (case sd_condition step of
     Some c \<Rightarrow> if py_strip c \<noteq> [] then Some c else None | None \<Rightarrow> None)"

definition stop_requested :: "engine \<Rightarrow> (engine_state, override_request option) st" where
  "stop_requested en =
     bindS (getS (\<lambda>s. ec_run_id (os_ctx s))) (\<lambda>run_id.
     bindS (tickS (\<lambda>t. en_override en t run_id)) (\<lambda>req.
       returnS (case req of Some r \<Rightarrow> if ov_action r = OvStop then Some r else None | None \<Rightarrow> None)))"

definition execute_step_with_policy ::
  "engine \<Rightarrow> executor \<Rightarrow> step_definition \<Rightarrow> (engine_state, dict \<times> bool) st" where
  "execute_step_with_policy en exec step =
     bindS (getS (\<lambda>s. case step_condition step of
              Some c \<Rightarrow> if evaluate_loop_condition (en_exec en) c (ec_state (os_ctx s)) then None else Some c
            | None \<Rightarrow> None)) (\<lambda>unmet.
       case unmet of
         Some c \<Rightarrow> skip_step en step c
       | None \<Rightarrow>
           bindS (stop_requested en) (\<lambda>stop.
             case stop of
               Some req \<Rightarrow> stop_step en step req
             | None \<Rightarrow> bindS (getS (\<lambda>s. initial_attempt step (os_rs s))) (retry_loop en exec step)))"

subsection \<open>Loops\<close>

definition store_result :: "string \<Rightarrow> dict \<Rightarrow> (engine_state, unit) st" where
  "store_result name out = modifyS (\<lambda>s. s\<lparr>es_results := AList.update name out (es_results s)\<rparr>)"

definition steps_by_name :: "step_definition list \<Rightarrow> string \<Rightarrow> step_definition option" where
  "steps_by_name steps = map_of (rev (map (\<lambda>s. (sd_name s, s)) steps))"

text \<open>The outcome of one pass through the steps of a loop.\<close>

datatype loop_pass = PassDone | PassRetry | PassStop

fun loop_pass_run ::
  "engine \<Rightarrow> executor \<Rightarrow> loop_definition \<Rightarrow> (string \<Rightarrow> step_definition option) \<Rightarrow> string list
   \<Rightarrow> (engine_state, loop_pass) st" where
  "loop_pass_run en exec lp by_name [] = returnS PassDone"
| "loop_pass_run en exec lp by_name (n # ns) =
     (case by_name n of
        None \<Rightarrow> raiseS (ValueError (''Loop references unknown step: '' @ n))
      | Some step \<Rightarrow>
          bindS (execute_step_with_policy en exec step) (\<lambda>(out, stop).
          seqS (store_result n out)
          (if stop then
             bindS (liftE (resolve_policy_action (sd_on_failure step))) (\<lambda>action.
             bindS (getS (\<lambda>s. evaluate_loop_condition (en_exec en) (ld_condition lp) (ec_state (os_ctx s)))) (\<lambda>again.
               returnS (if action = ActStop \<and> length (ld_steps lp) > 1 \<and> ns = [] \<and> again
                        then PassRetry else PassStop)))
           else loop_pass_run en exec lp by_name ns)))"

definition graceful_break :: "loop_definition \<Rightarrow> (string \<Rightarrow> step_definition option) \<Rightarrow> exn + bool" where
  "graceful_break lp by_name =
     (let actions = map sd_on_failure (List.map_filter by_name (ld_steps lp)) in
      if list_ex (\<lambda>a. is_list a \<or> is_dict a) actions then Inl (TypeError ''unhashable type'')
      else Inr (list_ex (\<lambda>a. a \<noteq> PStr ''stop_pipeline'') actions))"

definition loop_exceeded :: "engine \<Rightarrow> loop_definition \<Rightarrow> exn" where
  "loop_exceeded en lp = RuntimeError (''Loop exceeded max iterations ('' @ int_str (en_max_loop en) @ ''): ''
     @ ld_condition lp)"

function execute_loop ::
  "engine \<Rightarrow> executor \<Rightarrow> loop_definition \<Rightarrow> (string \<Rightarrow> step_definition option) \<Rightarrow> nat \<Rightarrow> (engine_state, bool) st" where
  "execute_loop en exec lp by_name iterations =
     bindS (getS (\<lambda>s. evaluate_loop_condition (en_exec en) (ld_condition lp) (ec_state (os_ctx s)))) (\<lambda>again.
       if \<not> again then returnS False
       else if int (iterations + 1) > en_max_loop en then
         bindS (liftE (graceful_break lp by_name)) (\<lambda>graceful.
           if graceful then returnS False else raiseS (loop_exceeded en lp))
       else bindS (loop_pass_run en exec lp by_name (ld_steps lp)) (\<lambda>r.
         if r = PassStop then returnS True else execute_loop en exec lp by_name (iterations + 1)))"
  by pat_completeness auto
termination
  by (relation "measure (\<lambda>(en, exec, lp, by_name, iterations). nat (en_max_loop en - int iterations))") auto

declare execute_loop.simps [simp del]

subsection \<open>Batches\<close>

text \<open>
  The workers of a pool get through in the order \<open>en_schedule\<close> says, a permutation of the
  submitted positions; one worker's step is one block. The pool waits for all of them,
  then the results are read in the order of submission and the first exception raised.
\<close>

definition tryS :: "('s, 'a) st \<Rightarrow> ('s, exn + 'a) st" where
  "tryS m s = (case m s of (r, s') \<Rightarrow> (Inr r, s'))"

fun run_workers ::
  "engine \<Rightarrow> executor \<Rightarrow> step_definition list \<Rightarrow> nat list
   \<Rightarrow> (engine_state, (nat \<times> (exn + dict \<times> bool)) list) st" where
  "run_workers en exec steps [] = returnS []"
| "run_workers en exec steps (i # is) =
     bindS (tryS (execute_step_with_policy en exec (steps ! i))) (\<lambda>r.
     bindS (run_workers en exec steps is) (\<lambda>rs. returnS ((i, r) # rs)))"

definition collect_results ::
  "(nat \<times> (exn + dict \<times> bool)) list \<Rightarrow> step_definition list \<Rightarrow> exn + (string \<times> dict) list \<times> bool" where
  "collect_results results steps =
     foldE (\<lambda>(i, step) (outs, stop).
       case map_of results i of
         None \<Rightarrow> Inl (OtherError ''future not done'')
       | Some r \<Rightarrow> bindE r (\<lambda>(out, st). Inr (AList.update (sd_name step) out outs, stop \<or> st)))
       (enumerate 0 steps) ([], False)"

definition execute_step_batch ::
  "engine \<Rightarrow> executor \<Rightarrow> step_definition list \<Rightarrow> (engine_state, (string \<times> dict) list \<times> bool) st" where
  "execute_step_batch en exec steps =
     (case steps of
        [] \<Rightarrow> returnS ([], False)
      | step # rest \<Rightarrow>
          if rest = [] \<or> en_workers en \<le> 1 then
            bindS (execute_step_with_policy en exec step) (\<lambda>(out, stop).
              returnS ([(sd_name step, out)], stop))
          else
            bindS (tickS (\<lambda>t. en_schedule en t (length steps))) (\<lambda>order.
            bindS (run_workers en exec steps order) (\<lambda>results.
              liftE (collect_results results steps))))"

definition store_outputs :: "(string \<times> dict) list \<Rightarrow> step_definition list \<Rightarrow> (engine_state, unit) st" where
  "store_outputs outs steps = updateE (\<lambda>s.
     foldE (\<lambda>step t. case map_of outs (sd_name step) of
              None \<Rightarrow> Inl (KeyError (sd_name step))
            | Some out \<Rightarrow> Inr (t\<lparr>es_results := AList.update (sd_name step) out (es_results t)\<rparr>)) steps s)"

lemma batch_shorter:
  "queue \<noteq> [] \<Longrightarrow> length (filter (\<lambda>s. sd_name s \<notin> sd_name ` set (select_lock_aware_batch queue)) queue) < length queue"
proof (rule length_filter_less)
  assume "queue \<noteq> []"
  then show "hd (select_lock_aware_batch queue) \<in> set queue"
    using select_batch_nonempty [of queue] select_batch_subset [of queue] by (meson hd_in_set subsetD)
  show "\<not> sd_name (hd (select_lock_aware_batch queue)) \<notin> sd_name ` set (select_lock_aware_batch queue)"
    using select_batch_nonempty [of queue] \<open>queue \<noteq> []\<close> by simp
qed

text \<open>
  The inner loop over the ready queue. Its results hold every step of the batch, or
  storing them raises, so the next queue is the queue without the batch.
\<close>

function run_queue :: "engine \<Rightarrow> executor \<Rightarrow> step_definition list \<Rightarrow> (engine_state, bool) st" where
  "run_queue en exec queue =
     (if queue = [] then returnS False
      else let batch = select_lock_aware_batch queue in
        bindS (execute_step_batch en exec batch) (\<lambda>(outs, stop).
        seqS (store_outputs outs batch)
        (if stop then returnS True
         else run_queue en exec (filter (\<lambda>s. sd_name s \<notin> sd_name ` set batch) queue))))"
  by pat_completeness auto
termination
  by (relation "measure (\<lambda>(en, exec, queue). length queue)") (auto simp: batch_shorter)

declare run_queue.simps [simp del]

definition ready_steps ::
  "step_definition list \<Rightarrow> dep_graph \<Rightarrow> string list \<Rightarrow> step_definition list" where
  "ready_steps steps deps executed =
     List.map_filter (\<lambda>n. if n \<notin> set executed \<and> set (deps_of deps n) \<subseteq> set executed
                          then steps_by_name steps n else None) (map sd_name steps)"

definition unresolved_error :: "step_definition list \<Rightarrow> string list \<Rightarrow> exn" where
  "unresolved_error steps executed =
     ValueError (''Pipeline contains cyclic or unresolved dependencies: '' @
       join '', '' (sort (filter (\<lambda>n. n \<notin> set executed) (map sd_name steps))))"

lemma steps_by_name_Some: "steps_by_name steps n = Some s \<Longrightarrow> sd_name s = n \<and> s \<in> set steps"
  unfolding steps_by_name_def by (auto dest!: map_of_SomeD)

lemma steps_by_name_total: "n \<in> sd_name ` set steps \<Longrightarrow> \<exists>s. steps_by_name steps n = Some s"
proof -
  assume "n \<in> sd_name ` set steps"
  then have "n \<in> fst ` set (rev (map (\<lambda>s. (sd_name s, s)) steps))" by force
  then show ?thesis unfolding steps_by_name_def by (cases "map_of (rev (map (\<lambda>s. (sd_name s, s)) steps)) n")
    (auto simp only: map_of_eq_None_iff)
qed

lemma in_ready_steps:
  "s \<in> set (ready_steps steps deps executed) \<Longrightarrow>
   s \<in> set steps \<and> sd_name s \<notin> set executed \<and> set (deps_of deps (sd_name s)) \<subseteq> set executed"
  unfolding ready_steps_def
  by (drule map_filter_all) (auto split: if_splits dest!: steps_by_name_Some)

text \<open>The outer loop: \<open>executed\<close> are the names that have run.\<close>

function run_ready ::
  "engine \<Rightarrow> executor \<Rightarrow> step_definition list \<Rightarrow> dep_graph \<Rightarrow> string list \<Rightarrow> (engine_state, bool) st" where
  "run_ready en exec steps deps executed =
     (if length (remdups executed) \<ge> length steps then returnS False
      else let ready = ready_steps steps deps executed in
        if ready = [] then raiseS (unresolved_error steps executed)
        else bindS (run_queue en exec ready) (\<lambda>stop.
          if stop then returnS True
          else run_ready en exec steps deps (executed @ map sd_name ready)))"
  by pat_completeness auto
termination
proof (relation "measure (\<lambda>(en, exec, steps, deps, executed). length (filter (\<lambda>s. sd_name s \<notin> set executed) steps))",
    goal_cases)
  case (2 en exec steps deps executed ready stop)
  then obtain r rs where r: "ready_steps steps deps executed = r # rs" by (cases "ready_steps steps deps executed") auto
  then have "r \<in> set (ready_steps steps deps executed)" by simp
  note in_ready_steps [OF this]
  then have "length (filter (\<lambda>s. sd_name s \<notin> sd_name ` set ready) (filter (\<lambda>s. sd_name s \<notin> set executed) steps))
      < length (filter (\<lambda>s. sd_name s \<notin> set executed) steps)"
    by (intro length_filter_less [of r]) (use 2 r in auto)
  then show ?case by (simp add: conj_commute filter_filter)
qed simp

declare run_ready.simps [simp del]

definition execute_with_parallelism ::
  "engine \<Rightarrow> executor \<Rightarrow> step_definition list \<Rightarrow> string list \<Rightarrow> (engine_state, bool) st" where
  "execute_with_parallelism en exec steps ext =
     bindS (liftE (build_step_dependency_graph steps ext)) (\<lambda>deps. run_ready en exec steps deps [])"

definition derive_final_status :: "run_state \<Rightarrow> (string \<times> dict) list \<Rightarrow> string" where
  "derive_final_status rs results =
     (if rs_run_status rs \<in> {status_value FAILED, status_value BLOCKED} then rs_run_status rs
      else if list_ex (\<lambda>p. dget (snd p) ''status'' = PStr ''PARTIAL_SUCCESS'') results then ''PARTIAL_SUCCESS''
      else status_value SUCCESS)"

subsection \<open>Preparing a run\<close>

definition md_text :: "engine \<Rightarrow> dict \<Rightarrow> string \<Rightarrow> string" where
  "md_text en d k = py_strip (py_str (ee_fstr (en_exec en)) (dget_or d k (PStr [])))"

definition first_text :: "string list \<Rightarrow> string" where
  "first_text ts = (case filter (\<lambda>t. t \<noteq> []) ts of [] \<Rightarrow> [] | t # _ \<Rightarrow> t)"

definition derive_trace_id :: "engine \<Rightarrow> string \<Rightarrow> string \<Rightarrow> string" where
  "derive_trace_id en corr run_id = take 32 (ee_sha256 (en_exec en) (corr @ '':'' @ run_id))"

text \<open>
  \<open>PipelineState.model_validate\<close> on a payload the schema has accepted: the declared
  fields with their types and no others. Numbers are not converted between types.
\<close>

definition as_str_list :: "string \<Rightarrow> pyval \<Rightarrow> exn + string list" where
  "as_str_list k v = bindE (as_list k v) (mapE (as_str k))"

definition pipeline_state_from_dict :: "dict \<Rightarrow> exn + pipeline_state" where
  "pipeline_state_from_dict d =
     (if \<not> list_all (\<lambda>p. fst p \<in> {''run_id'', ''pipeline_name'', ''current_step'', ''artifacts'',
             ''pending_steps'', ''failed_steps'', ''locks'', ''retry_state''}) d
      then Inl (ValueError ''extra_forbidden'')
      else
        bindE (bindE (need d ''run_id'') (as_str ''run_id'')) (\<lambda>run_id.
        bindE (bindE (need d ''pipeline_name'') (as_str ''pipeline_name'')) (\<lambda>pname.
        if run_id = [] \<or> pname = [] then Inl (ValueError ''string_too_short'') else
        bindE (bindE (need d ''current_step'') (as_opt_str ''current_step'')) (\<lambda>cur.
        bindE (as_dict ''artifacts'' (dget_or d ''artifacts'' (PDict []))) (\<lambda>arts.
        bindE (as_str_list ''pending_steps'' (dget_or d ''pending_steps'' (PList []))) (\<lambda>pending.
        bindE (as_str_list ''failed_steps'' (dget_or d ''failed_steps'' (PList []))) (\<lambda>failed.
        bindE (as_str_list ''locks'' (dget_or d ''locks'' (PList []))) (\<lambda>locks.
        bindE (bindE (as_dict ''retry_state'' (dget_or d ''retry_state'' (PDict [])))
            (mapE (\<lambda>(k, v). bindE (as_int k v) (\<lambda>n. Inr (k, n))))) (\<lambda>retry.
          Inr \<lparr>ps_run_id = run_id, ps_pipeline_name = pname, ps_current_step = cur, ps_artifacts = arts,
               ps_pending_steps = pending, ps_failed_steps = failed, ps_locks = locks,
               ps_retry_state = retry\<rparr>)))))))))"

definition resume_context :: "engine \<Rightarrow> dict option \<Rightarrow> exec_context \<Rightarrow> exn + exec_context" where
  "resume_context en resume c =
     (case resume of
        None \<Rightarrow> Inr c
      | Some payload \<Rightarrow>
          (case dget payload ''pipeline_state'' of
             PNone \<Rightarrow> Inr c
           | PDict ps \<Rightarrow>
               bindE (check_pipeline_state (ee_fstr (en_exec en)) (en_state_validator en)
                        ''Invalid resume pipeline_state payload: '' ps) (\<lambda>_.
               bindE (pipeline_state_from_dict ps) (\<lambda>p. Inr (c\<lparr>ec_pipeline_state := p\<rparr>)))
           | _ \<Rightarrow> Inl (ValueError ''Resume pipeline_state payload must be an object'')))"

definition dict_results :: "dict \<Rightarrow> (string \<times> dict) list" where
  "dict_results d = List.map_filter (\<lambda>(k, v). case v of PDict r \<Rightarrow> Some (k, r) | _ \<Rightarrow> None) d"

record run_request =
  rr_pipeline :: pipeline_definition
  rr_run_id :: string
  rr_inputs :: dict
  rr_metadata :: dict
  rr_has_callback :: bool
  rr_resume :: "dict option"
  rr_resume_results :: dict

record run_start =
  rn_state :: engine_state
  rn_index :: nat
  rn_correlation :: string
  rn_trace :: string
  rn_root_span :: string

text \<open>The run state of a fresh run, or the one the resume payload describes.\<close>

definition start_run_state :: "run_request \<Rightarrow> string \<Rightarrow> string \<Rightarrow> exn + run_state" where
  "start_run_state rq corr trace =
     (let p = rr_pipeline rq in
      case rr_resume rq of
        None \<Rightarrow> Inr (run_state_from_steps (rr_run_id rq) (pd_pipeline_name p)
                  (map (\<lambda>s. (sd_name s, sd_agent s)) (pd_steps p)) (Some corr) (Some trace))
      | Some payload \<Rightarrow>
          bindE (run_state_from_dict payload) (\<lambda>rs.
            if rs_run_id rs \<noteq> rr_run_id rq then
              Inl (ValueError (''Resume state run_id mismatch: expected '' @ quoted (rr_run_id rq)
                @ '', got '' @ quoted (rs_run_id rs)))
            else if rs_pipeline_name rs \<noteq> pd_pipeline_name p then
              Inl (ValueError (''Resume state pipeline mismatch: expected '' @ quoted (pd_pipeline_name p)
                @ '', got '' @ quoted (rs_pipeline_name rs)))
            else Inr (rs\<lparr>rs_correlation_id := Some corr, rs_trace_id := Some trace,
                   rs_current_step_index :=
                     max 0 (min (int (length (pd_steps p))) (rs_current_step_index rs))\<rparr>)))"

definition prepare_run :: "engine \<Rightarrow> run_request \<Rightarrow> exn + run_start" where
  "prepare_run en rq =
     (let env = en_exec en; md = rr_metadata rq;
          resumed = (\<lambda>k. case rr_resume rq of Some d \<Rightarrow> md_text en d k | None \<Rightarrow> []);
          corr = first_text [md_text en md ''correlation_id'', resumed ''correlation_id'', ''run:'' @ rr_run_id rq];
          trace = first_text [md_text en md ''trace_id'', resumed ''trace_id'',
                    derive_trace_id en corr (rr_run_id rq)];
          root = first_text [md_text en md ''root_span_id'', take 16 (ee_uuid env 0)];
          md' = dset ''root_span_id'' (PStr root) (dset ''trace_id'' (PStr trace)
                  (dset ''correlation_id'' (PStr corr) md))
      in bindE (en_rules en) (\<lambda>rules.
         bindE (mk_context (rr_run_id rq) (pd_pipeline_name (rr_pipeline rq))
                  (dset ''rules'' rules (rr_inputs rq)) None [] md' (rr_has_callback rq) None) (\<lambda>c0.
         bindE (resume_context en (rr_resume rq)
                  (set_state_value ''__memory_promotion_mode'' (PStr ''deferred'') c0)) (\<lambda>c1.
         bindE (start_run_state rq corr trace) (\<lambda>rs.
           let results = (if rr_resume rq = None then [] else dict_results (rr_resume_results rq));
               c2 = fold (\<lambda>(n, out). record_step_result n out) results c1
           in Inr \<lparr>rn_state = \<lparr>os_ctx = c2, os_rs = rs, os_tick = 1, os_slept = [], os_checkpoints = [],
                               es_results = results\<rparr>,
                   rn_index = (if rr_resume rq = None then 0 else nat (rs_current_step_index rs)),
                   rn_correlation = corr, rn_trace = trace, rn_root_span = root\<rparr>)))))"

subsection \<open>Hooks\<close>

definition trigger_memory_hook :: "engine \<Rightarrow> string \<Rightarrow> dict \<Rightarrow> (engine_state, unit) st" where
  "trigger_memory_hook en name out =
     (case en_hook en of
        None \<Rightarrow> returnS ()
      | Some h \<Rightarrow> updateE (\<lambda>s. bindE (mh_after_step h name out (ec_state (os_ctx s))) (\<lambda>st.
          Inr (s\<lparr>os_ctx := (os_ctx s)\<lparr>ec_state := st\<rparr>\<rparr>))))"

definition trigger_memory_promotion :: "engine \<Rightarrow> string \<Rightarrow> (engine_state, unit) st" where
  "trigger_memory_promotion en status =
     (case en_hook en of
        None \<Rightarrow> returnS ()
      | Some h \<Rightarrow> ctxS (\<lambda>c. c\<lparr>ec_state := mh_promote h (ec_state c) status\<rparr>))"

text \<open>\<open>_trigger_hooks_for_new_steps\<close>: \<open>hooked\<close> are the names that have had their hook.\<close>

fun trigger_hooks :: "engine \<Rightarrow> step_definition list \<Rightarrow> string list \<Rightarrow> (engine_state, string list) st" where
  "trigger_hooks en [] hooked = returnS hooked"
| "trigger_hooks en (s # ss) hooked =
     bindS (getS (\<lambda>t. map_of (es_results t) (sd_name s))) (\<lambda>r.
       case r of
         None \<Rightarrow> trigger_hooks en ss hooked
       | Some out \<Rightarrow>
           if sd_name s \<in> set hooked then trigger_hooks en ss hooked
           else seqS (trigger_memory_hook en (sd_name s) out) (trigger_hooks en ss (sd_name s # hooked)))"

subsection \<open>The body of a run\<close>

text \<open>A step of a resumed run whose result can be kept: done before, with the same inputs.\<close>

definition replayable :: "string \<Rightarrow> step_definition \<Rightarrow> engine_state \<Rightarrow> bool" where
  "replayable input_hash step s \<longleftrightarrow>
     (case get_step (sd_name step) (os_rs s) of
        Inl _ \<Rightarrow> False
      | Inr st \<Rightarrow> st_status st \<in> {SUCCESS, PARTIAL_SUCCESS, SKIPPED} \<and> st_input_hash st = Some input_hash \<and>
          map_of (ec_step_results (os_ctx s)) (sd_name step) \<noteq> None)"

definition replay_state :: "step_definition list \<Rightarrow> dict \<Rightarrow> dict" where
  "replay_state future st = fold (\<lambda>s. dict_pop (sd_name s)) future st"

text \<open>\<open>future\<close> are the steps from the current one on; \<open>idx\<close> is its position in the pipeline.\<close>

fun resume_steps ::
  "engine \<Rightarrow> executor \<Rightarrow> nat \<Rightarrow> step_definition list \<Rightarrow> (engine_state, bool) st" where
  "resume_steps en exec idx [] = returnS False"
| "resume_steps en exec idx (step # future) =
     bindS (getS (\<lambda>s. replay_state (step # future) (ec_state (os_ctx s)))) (\<lambda>rst.
     bindS (liftE (calculate_step_input_hash (en_exec en) step rst)) (\<lambda>h.
     bindS (getS (replayable h step)) (\<lambda>keep.
       if keep then
         seqS (rsS (\<lambda>rs. rs\<lparr>rs_current_step_index := max (rs_current_step_index rs) (int idx + 1)\<rparr>))
         (seqS (emit_checkpoint en None) (resume_steps en exec (idx + 1) future))
       else
         bindS (execute_step_with_policy en exec step) (\<lambda>(out, stop).
         seqS (store_result (sd_name step) out)
         (if stop then returnS True
          else seqS (trigger_memory_hook en (sd_name step) out) (resume_steps en exec (idx + 1) future))))))"

definition run_loops ::
  "engine \<Rightarrow> executor \<Rightarrow> pipeline_definition \<Rightarrow> (engine_state, bool) st" where
  "run_loops en exec p =
     anyS (\<lambda>lp. execute_loop en exec lp (steps_by_name (pd_steps p)) 0) (pd_loops p)"

definition loop_anchor_index :: "pipeline_definition \<Rightarrow> step_definition list \<Rightarrow> nat option" where
  "loop_anchor_index p steps =
     find_index (\<lambda>s. sd_name s \<in> set (List.map_filter (\<lambda>l. case ld_steps l of [] \<Rightarrow> None | n # _ \<Rightarrow> Some n) (pd_loops p))) steps"

definition pre_loop_steps :: "pipeline_definition \<Rightarrow> step_definition list \<Rightarrow> step_definition list" where
  "pre_loop_steps p steps = (case loop_anchor_index p steps of None \<Rightarrow> steps | Some i \<Rightarrow> take i steps)"

definition post_loop_steps :: "pipeline_definition \<Rightarrow> step_definition list \<Rightarrow> step_definition list" where
  "post_loop_steps p steps =
     (case loop_anchor_index p steps of
        None \<Rightarrow> []
      | Some i \<Rightarrow> filter (\<lambda>s. sd_name s \<notin> set (concat (map ld_steps (pd_loops p)))) (drop i steps))"

definition fresh_steps ::
  "engine \<Rightarrow> executor \<Rightarrow> pipeline_definition \<Rightarrow> step_definition list \<Rightarrow> (engine_state, bool) st" where
  "fresh_steps en exec p steps =
     (if pd_loops p = [] then
        bindS (execute_with_parallelism en exec steps []) (\<lambda>stop.
        bindS (trigger_hooks en steps []) (\<lambda>_. returnS stop))
      else
        bindS (execute_with_parallelism en exec (pre_loop_steps p steps) []) (\<lambda>stop1.
        bindS (trigger_hooks en (pre_loop_steps p steps) []) (\<lambda>hooked.
        bindS (if stop1 then returnS True else run_loops en exec p) (\<lambda>stop2.
          if \<not> stop2 \<and> post_loop_steps p steps \<noteq> [] then
            bindS (getS (\<lambda>s. map fst (es_results s))) (\<lambda>ext.
            bindS (execute_with_parallelism en exec (post_loop_steps p steps) ext) (\<lambda>stop3.
            bindS (trigger_hooks en (post_loop_steps p steps) hooked) (\<lambda>_. returnS stop3)))
          else returnS stop2))))"

definition trace_step :: "step_run_state \<Rightarrow> pyval" where
  "trace_step st = PDict
     [(''step'', PStr (st_name st)), (''trace_id'', opt_str (st_trace_id st)),
      (''span_id'', opt_str (st_span_id st)), (''parent_span_id'', opt_str (st_parent_span_id st)),
      (''started_at'', opt_str (st_started_at st)), (''finished_at'', opt_str (st_finished_at st))]"

definition finish_run :: "engine \<Rightarrow> run_request \<Rightarrow> run_start \<Rightarrow> (engine_state, dict) st" where
  "finish_run en rq start =
     bindS (getS (\<lambda>s. derive_final_status (os_rs s) (es_results s))) (\<lambda>final_status.
     seqS (rsS (\<lambda>rs. rs\<lparr>rs_run_status := final_status\<rparr>))
     (seqS (trigger_memory_promotion en final_status)
     (seqS (emit_checkpoint en (Some final_status))
     (bindS (getS (\<lambda>s. s)) (\<lambda>s.
     bindS (liftE (build_summary (en_fromiso en) (os_rs s) (es_results s))) (\<lambda>summary.
       returnS [(''run_id'', PStr (rr_run_id rq)),
                (''pipeline_name'', PStr (pd_pipeline_name (rr_pipeline rq))),
                (''status'', PStr final_status), (''steps'', results_dict (es_results s)),
                (''summary'', PDict summary), (''run_state'', PDict (run_state_to_dict (os_rs s))),
                (''trace'', PDict
                   [(''correlation_id'', PStr (rn_correlation start)), (''trace_id'', PStr (rn_trace start)),
                    (''root_span_id'', PStr (rn_root_span start)),
                    (''steps'', PList (map trace_step (rs_steps (os_rs s))))])]))))))"

definition run_body :: "engine \<Rightarrow> executor \<Rightarrow> run_request \<Rightarrow> run_start \<Rightarrow> (engine_state, dict) st" where
  "run_body en exec rq start =
     (let p = rr_pipeline rq; todo = drop (rn_index start) (pd_steps p) in
      seqS (sync_and_validate en)
      (bindS (if rr_resume rq \<noteq> None then
                bindS (resume_steps en exec (rn_index start) todo) (\<lambda>stop.
                  if \<not> stop \<and> pd_loops p \<noteq> [] then run_loops en exec p else returnS stop)
              else fresh_steps en exec p todo) (\<lambda>_.
         finish_run en rq start)))"

text \<open>\<open>run\<close>, after the pipeline has been loaded and validated: the result and the last state.\<close>

definition run_pipeline :: "engine \<Rightarrow> run_request \<Rightarrow> (exn + dict) \<times> engine_state option" where
  "run_pipeline en rq =
     (case prepare_run en rq of
        Inl e \<Rightarrow> (Inl e, None)
      | Inr start \<Rightarrow>
          (let (r, s) = run_body en (execute_step (en_exec en)) rq start (rn_state start) in (r, Some s)))"

end
