(* ===== verification/EngineProps.thy ===== *)
theory EngineProps
  imports Engine
begin

text \<open>
  What the engine guarantees, from the promise of the step executor alone. The promise
  is the locale \<open>step_runner\<close>, and \<open>Executor.execute_step\<close> interprets it. An invariant
  of the engine is shown once for all operations: a predicate that survives the
  elementary updates survives every engine operation.
\<close>

subsection \<open>Invariants of the engine\<close>

text \<open>The updates the engine and the executor make to the state.\<close>

definition engine_closed :: "(engine_state \<Rightarrow> bool) \<Rightarrow> bool" where
  "engine_closed I \<longleftrightarrow>
     (\<forall>s k. I s \<longrightarrow> I (s\<lparr>os_tick := k\<rparr>)) \<and>
     (\<forall>s c. I s \<longrightarrow> I (s\<lparr>os_ctx := c\<rparr>)) \<and>
     (\<forall>s n st a rs. I s \<longrightarrow> mark_step_status n st a (os_rs s) = Inr rs \<longrightarrow> I (s\<lparr>os_rs := rs\<rparr>)) \<and>
     (\<forall>s st. I s \<longrightarrow> I (s\<lparr>os_rs := set_run_status st (os_rs s)\<rparr>)) \<and>
     (\<forall>s. I s \<longrightarrow> I (s\<lparr>os_rs := advance_index (os_rs s)\<rparr>)) \<and>
     (\<forall>s l. I s \<longrightarrow> I (s\<lparr>os_slept := l\<rparr>)) \<and>
     (\<forall>s l. I s \<longrightarrow> I (s\<lparr>os_checkpoints := l\<rparr>)) \<and>
     (\<forall>s r. I s \<longrightarrow> I (s\<lparr>es_results := r\<rparr>))"

locale step_runner =
  fixes exec :: executor
  assumes exec_keeps:
    "\<And>I step. (\<And>t k. I t \<Longrightarrow> I (t\<lparr>os_tick := k\<rparr>)) \<Longrightarrow> (\<And>t c. I t \<Longrightarrow> I (t\<lparr>os_ctx := c\<rparr>)) \<Longrightarrow>
       (\<And>t st a rs. I t \<Longrightarrow> mark_step_status (sd_name step) st a (os_rs t) = Inr rs \<Longrightarrow> I (t\<lparr>os_rs := rs\<rparr>)) \<Longrightarrow>
       keeps I (exec step)"
  and exec_ran: "\<And>step s out s'. exec step s = (Inr out, s') \<Longrightarrow> ran_step step out s s'"

lemma keeps_emit:
  assumes "\<And>t c. I t \<Longrightarrow> I (t\<lparr>os_ctx := c\<rparr>)" "\<And>t l. I t \<Longrightarrow> I (t\<lparr>os_checkpoints := l\<rparr>)"
  shows "keeps I (emit_checkpoint en status)" "keeps I (sync_and_validate en)"
proof -
  show s: "keeps I (sync_and_validate en)"
    unfolding sync_and_validate_def by (intro keeps_rules) (auto intro: assms)
  show "keeps I (emit_checkpoint en status)"
    unfolding emit_checkpoint_def by (intro keeps_rules s) (auto simp: Let_def intro: assms)
qed

text \<open>An invariant for one step: the other steps' records need not be touched.\<close>

definition step_closed :: "string \<Rightarrow> (engine_state \<Rightarrow> bool) \<Rightarrow> bool" where
  "step_closed n I \<longleftrightarrow>
     (\<forall>s k. I s \<longrightarrow> I (s\<lparr>os_tick := k\<rparr>)) \<and>
     (\<forall>s c. I s \<longrightarrow> I (s\<lparr>os_ctx := c\<rparr>)) \<and>
     (\<forall>s st a rs. I s \<longrightarrow> mark_step_status n st a (os_rs s) = Inr rs \<longrightarrow> I (s\<lparr>os_rs := rs\<rparr>)) \<and>
     (\<forall>s st. I s \<longrightarrow> I (s\<lparr>os_rs := set_run_status st (os_rs s)\<rparr>)) \<and>
     (\<forall>s. I s \<longrightarrow> I (s\<lparr>os_rs := advance_index (os_rs s)\<rparr>)) \<and>
     (\<forall>s l. I s \<longrightarrow> I (s\<lparr>os_slept := l\<rparr>)) \<and>
     (\<forall>s l. I s \<longrightarrow> I (s\<lparr>os_checkpoints := l\<rparr>))"

lemma step_closedD:
  assumes "step_closed n I" "I s"
  shows "I (s\<lparr>os_tick := k\<rparr>)" "I (s\<lparr>os_ctx := c\<rparr>)"
    "mark_step_status n st a (os_rs s) = Inr rs \<Longrightarrow> I (s\<lparr>os_rs := rs\<rparr>)"
    "I (s\<lparr>os_rs := set_run_status st (os_rs s)\<rparr>)" "I (s\<lparr>os_rs := advance_index (os_rs s)\<rparr>)"
    "I (s\<lparr>os_slept := l\<rparr>)" "I (s\<lparr>os_checkpoints := ds\<rparr>)"
  using assms by (simp_all add: step_closed_def)

lemma step_closed_rules:
  assumes "step_closed n I"
  shows "keeps I (tickS f)" "keeps I (ctxS g)" "keeps I (markS n st a)" "keeps I (rsS (set_run_status st))"
    "keeps I (rsS advance_index)" "keeps I (sleepS r)" "keeps I (emit_checkpoint en status)"
    "keeps I (rsS (\<lambda>rs. if b rs then set_run_status st rs else rs))"
proof -
  note d = step_closedD [OF assms]
  show "keeps I (tickS f)" "keeps I (ctxS g)" "keeps I (markS n st a)" "keeps I (rsS (set_run_status st))"
    "keeps I (rsS advance_index)"
    by (rule keeps_tickS keeps_ctxS keeps_markS keeps_rsS; simp add: d)+
  show "keeps I (emit_checkpoint en status)" by (rule keeps_emit) (simp_all add: d)
  show "keeps I (sleepS r)" unfolding sleepS_def by (rule keeps_modifyS) (simp add: d)
  show "keeps I (rsS (\<lambda>rs. if b rs then set_run_status st rs else rs))"
    by (rule keeps_rsS) (simp add: d)
qed

lemma engine_closed_step: "engine_closed I \<Longrightarrow> step_closed n I"
  by (simp add: engine_closed_def step_closed_def)

lemma may_retry_decreases:
  "may_retry en step (attempt + 1) \<Longrightarrow> nat (max_retries en step - (attempt + 1)) < nat (max_retries en step - attempt)"
  by (auto dest: may_retry_bound)

context step_runner
begin

lemma keeps_exec: "step_closed (sd_name step) I \<Longrightarrow> keeps I (exec step)"
  by (rule exec_keeps) (simp_all add: step_closedD)

lemma keeps_retry_loop:
  assumes I: "step_closed (sd_name step) I"
  shows "keeps I (retry_loop en exec step attempt)"
proof (induction "nat (max_retries en step - attempt)" arbitrary: attempt rule: less_induct)
  case less
  note r = step_closed_rules [OF I]
  have rec: "keeps I (retry_loop en exec step (attempt + 1))" if "may_retry en step (attempt + 1)"
    using less may_retry_decreases [OF that] by blast
  show ?case
    unfolding retry_loop.simps [of en exec step attempt] continue_step_def halt_step_def
    by (intro keeps_rules keeps_exec [OF I] r rec)
qed

lemma keeps_execute_step_with_policy:
  assumes I: "step_closed (sd_name step) I"
  shows "keeps I (execute_step_with_policy en exec step)"
proof -
  note r = step_closed_rules [OF I]
  show ?thesis
    unfolding execute_step_with_policy_def stop_requested_def skip_step_def stop_step_def
    by (intro keeps_rules r keeps_retry_loop [OF I])
qed

end

lemma engine_closedD:
  assumes "engine_closed I" "I s"
  shows "I (s\<lparr>os_tick := k\<rparr>)" "I (s\<lparr>os_ctx := c\<rparr>)" "I (s\<lparr>os_rs := set_run_status st (os_rs s)\<rparr>)"
    "I (s\<lparr>os_checkpoints := ds\<rparr>)" "I (s\<lparr>es_results := r\<rparr>)"
  using assms by (simp_all add: engine_closed_def)

lemma fold_store_keeps:
  assumes "engine_closed I" "foldE (\<lambda>step t. case map_of outs (sd_name step) of
              None \<Rightarrow> Inl (KeyError (sd_name step))
            | Some out \<Rightarrow> Inr (t\<lparr>es_results := AList.update (sd_name step) out (es_results t)\<rparr>)) steps s = Inr s'"
    "I s"
  shows "I s'"
  by (rule foldE_inv [OF assms(2), where P = I])
    (use assms(3) in \<open>auto split: option.splits intro: engine_closedD [OF assms(1)]\<close>)

lemma engine_closed_rules:
  assumes "engine_closed I"
  shows "keeps I (tickS f)" "keeps I (store_result n out)" "keeps I (store_outputs outs steps)"
    "keeps I (trigger_memory_hook en n out)" "keeps I (trigger_memory_promotion en status)"
    "keeps I (emit_checkpoint en st)" "keeps I (sync_and_validate en)"
proof -
  note d = engine_closedD [OF assms]
  show "keeps I (tickS f)" by (rule keeps_tickS) (simp add: d)
  show "keeps I (store_result n out)" unfolding store_result_def by (rule keeps_modifyS) (simp add: d)
  show "keeps I (store_outputs outs steps)"
    unfolding store_outputs_def by (rule keeps_updateE) (rule fold_store_keeps [OF assms])
  show "keeps I (trigger_memory_hook en n out)"
    unfolding trigger_memory_hook_def by (intro keeps_rules) (auto simp: bindE_Inr_iff intro: d)
  show "keeps I (trigger_memory_promotion en status)"
    unfolding trigger_memory_promotion_def by (intro keeps_rules) (auto intro: d)
  show "keeps I (emit_checkpoint en st)" "keeps I (sync_and_validate en)"
    by (rule keeps_emit; simp add: d)+
qed

lemma keeps_trigger_hooks: "engine_closed I \<Longrightarrow> keeps I (trigger_hooks en steps hooked)"
proof (induction steps arbitrary: hooked)
  case Nil
  show ?case unfolding trigger_hooks.simps by (rule keeps_rules)
next
  case (Cons s ss)
  show ?case unfolding trigger_hooks.simps
    by (intro keeps_rules engine_closed_rules [OF Cons.prems] Cons.IH Cons.prems)
qed

lemma keeps_tryS: "keeps I m \<Longrightarrow> keeps I (tryS m)"
  by (auto simp: triple_def tryS_def split: prod.splits sum.splits)

lemma derive_final_status_value: "\<exists>st. derive_final_status rs results = status_value st"
proof -
  have "''PARTIAL_SUCCESS'' = status_value PARTIAL_SUCCESS" by simp
  then show ?thesis unfolding derive_final_status_def by (smt (verit) insert_iff singletonD)
qed

lemma keeps_finish_run:
  assumes "engine_closed I"
  shows "keeps I (finish_run en rq start)"
proof -
  note r = engine_closed_rules [OF assms]
  have set_status: "keeps I (rsS (\<lambda>rs. rs\<lparr>rs_run_status := final\<rparr>))" if "\<exists>st. final = status_value st" for final
  proof (rule keeps_rsS)
    fix t assume "I t"
    from that obtain st where "final = status_value st" by blast
    with engine_closedD(3) [OF assms \<open>I t\<close>, of st]
    show "I (t\<lparr>os_rs := (os_rs t)\<lparr>rs_run_status := final\<rparr>\<rparr>)" by (simp add: set_run_status_def)
  qed
  show ?thesis
    unfolding finish_run_def
  proof (rule triple_bindS [where S = "\<lambda>final s. I s \<and> (\<exists>st. final = status_value st)"])
    show "triple I (getS (\<lambda>s. derive_final_status (os_rs s) (es_results s)))
      (\<lambda>final s. I s \<and> (\<exists>st. final = status_value st)) (\<lambda>_. I)"
      by (rule triple_getS) (simp add: derive_final_status_value)
  next
    fix final
    let ?rest = "seqS (rsS (\<lambda>rs. rs\<lparr>rs_run_status := final\<rparr>)) (seqS (trigger_memory_promotion en final)
      (seqS (emit_checkpoint en (Some final)) (bindS (getS (\<lambda>s. s)) (\<lambda>s.
        bindS (liftE (build_summary (en_fromiso en) (os_rs s) (es_results s))) (\<lambda>summary.
       returnS [(''run_id'', PStr (rr_run_id rq)),
                (''pipeline_name'', PStr (pd_pipeline_name (rr_pipeline rq))),
                (''status'', PStr final), (''steps'', results_dict (es_results s)),
                (''summary'', PDict summary), (''run_state'', PDict (run_state_to_dict (os_rs s))),
                (''trace'', PDict
                   [(''correlation_id'', PStr (rn_correlation start)), (''trace_id'', PStr (rn_trace start)),
                    (''root_span_id'', PStr (rn_root_span start)),
                    (''steps'', PList (map trace_step (rs_steps (os_rs s))))])])))))"
    have "keeps I ?rest" if "\<exists>st. final = status_value st"
      by (intro keeps_rules r set_status that)
    then show "triple (\<lambda>s. I s \<and> (\<exists>st. final = status_value st)) ?rest (\<lambda>_. I) (\<lambda>_. I)"
      by (cases "\<exists>st. final = status_value st") (auto simp: triple_def)
  qed
qed

context step_runner
begin

lemma keeps_policy: "engine_closed I \<Longrightarrow> keeps I (execute_step_with_policy en exec step)"
  by (rule keeps_execute_step_with_policy [OF engine_closed_step])

lemma keeps_loop_pass:
  assumes "engine_closed I"
  shows "keeps I (loop_pass_run en exec lp by_name ns)"
proof (induction ns)
  case Nil
  show ?case unfolding loop_pass_run.simps by (rule keeps_rules)
next
  case (Cons n ns)
  show ?case unfolding loop_pass_run.simps split_beta
    by (intro keeps_rules engine_closed_rules [OF assms] keeps_policy [OF assms] Cons.IH)
qed

lemma keeps_execute_loop:
  assumes "engine_closed I"
  shows "keeps I (execute_loop en exec lp by_name n)"
proof (induction "nat (en_max_loop en - int n)" arbitrary: n rule: less_induct)
  case less
  have rec: "keeps I (execute_loop en exec lp by_name (n + 1))" if "\<not> int (n + 1) > en_max_loop en"
    using less that by auto
  show ?case unfolding execute_loop.simps [of en exec lp by_name n]
    by (intro keeps_rules engine_closed_rules [OF assms] keeps_loop_pass [OF assms] rec)
qed

lemma keeps_run_workers:
  assumes "engine_closed I"
  shows "keeps I (run_workers en exec steps is)"
proof (induction "is")
  case Nil
  show ?case unfolding run_workers.simps by (rule keeps_rules)
next
  case (Cons i "is")
  show ?case unfolding run_workers.simps
    by (intro keeps_rules keeps_tryS keeps_policy [OF assms] Cons.IH)
qed

lemma keeps_batch:
  assumes "engine_closed I"
  shows "keeps I (execute_step_batch en exec steps)"
proof (cases steps)
  case Nil
  show ?thesis unfolding execute_step_batch_def Nil list.case by (rule keeps_rules)
next
  case (Cons s ss)
  show ?thesis unfolding execute_step_batch_def Cons list.case split_beta
    by (intro keeps_rules engine_closed_rules [OF assms] keeps_policy [OF assms] keeps_run_workers [OF assms])
qed

lemma keeps_run_queue:
  assumes "engine_closed I"
  shows "keeps I (run_queue en exec queue)"
proof (induction "length queue" arbitrary: queue rule: less_induct)
  case less
  have rec: "keeps I (run_queue en exec (filter (\<lambda>s. sd_name s \<notin> sd_name ` set (select_lock_aware_batch queue)) queue))"
    if "queue \<noteq> []"
    using less batch_shorter [OF that] by blast
  show ?case unfolding run_queue.simps [of en exec queue] Let_def split_beta
    by (intro keeps_rules engine_closed_rules [OF assms] keeps_batch [OF assms] rec)
qed

lemma keeps_run_ready:
  assumes "engine_closed I"
  shows "keeps I (run_ready en exec steps deps executed)"
proof (induction "length (filter (\<lambda>s. sd_name s \<notin> set executed) steps)" arbitrary: executed rule: less_induct)
  case less
  let ?ready = "ready_steps steps deps executed"
  have rec: "keeps I (run_ready en exec steps deps (executed @ map sd_name ?ready))" if "?ready \<noteq> []"
  proof (rule less)
    from that obtain r where r: "r \<in> set ?ready" by (cases ?ready) auto
    note in_ready_steps [OF r]
    then have "length (filter (\<lambda>s. sd_name s \<notin> sd_name ` set ?ready) (filter (\<lambda>s. sd_name s \<notin> set executed) steps))
        < length (filter (\<lambda>s. sd_name s \<notin> set executed) steps)"
      by (intro length_filter_less [of r]) (use r in auto)
    then show "length (filter (\<lambda>s. sd_name s \<notin> set (executed @ map sd_name ?ready)) steps)
        < length (filter (\<lambda>s. sd_name s \<notin> set executed) steps)"
      by (simp add: conj_commute)
  qed
  show ?case unfolding run_ready.simps [of en exec steps deps executed] Let_def
    by (intro keeps_rules keeps_run_queue [OF assms] rec)
qed

lemma keeps_parallelism:
  "engine_closed I \<Longrightarrow> keeps I (execute_with_parallelism en exec steps ext)"
  unfolding execute_with_parallelism_def by (intro keeps_rules keeps_run_ready)

lemma keeps_fresh_steps:
  assumes "engine_closed I"
  shows "keeps I (fresh_steps en exec p steps)"
  unfolding fresh_steps_def run_loops_def
  by (intro keeps_rules keeps_parallelism [OF assms] keeps_trigger_hooks [OF assms] keeps_execute_loop [OF assms])

lemma keeps_resume_steps:
  assumes "engine_closed I"
    and idx: "\<And>s k. I s \<Longrightarrow> 0 \<le> k \<Longrightarrow> k \<le> int N \<Longrightarrow>
      I (s\<lparr>os_rs := (os_rs s)\<lparr>rs_current_step_index := max (rs_current_step_index (os_rs s)) k\<rparr>\<rparr>)"
  shows "i + length future \<le> N \<Longrightarrow> keeps I (resume_steps en exec i future)"
proof (induction future arbitrary: i)
  case Nil
  show ?case unfolding resume_steps.simps by (rule keeps_rules)
next
  case (Cons step future)
  have upd: "keeps I (rsS (\<lambda>rs. rs\<lparr>rs_current_step_index := max (rs_current_step_index rs) (int i + 1)\<rparr>))"
    by (rule keeps_rsS) (use Cons.prems in \<open>simp add: idx\<close>)
  have rec: "keeps I (resume_steps en exec (i + 1) future)" using Cons by simp
  show ?case unfolding resume_steps.simps split_beta
    by (intro keeps_rules engine_closed_rules [OF assms(1)] keeps_policy [OF assms(1)] upd rec)
qed

lemma keeps_run_body:
  assumes "engine_closed I" "rn_index start \<le> length (pd_steps (rr_pipeline rq))"
    and idx: "\<And>s k. I s \<Longrightarrow> 0 \<le> k \<Longrightarrow> k \<le> int (length (pd_steps (rr_pipeline rq))) \<Longrightarrow>
      I (s\<lparr>os_rs := (os_rs s)\<lparr>rs_current_step_index := max (rs_current_step_index (os_rs s)) k\<rparr>\<rparr>)"
  shows "keeps I (run_body en exec rq start)"
proof -
  have "rn_index start + length (drop (rn_index start) (pd_steps (rr_pipeline rq))) \<le> length (pd_steps (rr_pipeline rq))"
    using assms(2) by simp
  note res = keeps_resume_steps [OF assms(1) idx this]
  show ?thesis
    unfolding run_body_def Let_def run_loops_def
    by (intro keeps_rules engine_closed_rules [OF assms(1)] keeps_fresh_steps [OF assms(1)]
        keeps_execute_loop [OF assms(1)] keeps_finish_run [OF assms(1)] res)
qed

end

interpretation step_exec: step_runner "execute_step env" for env
proof unfold_locales
  fix I :: "engine_state \<Rightarrow> bool" and step :: step_definition
  assume "\<And>t k. I t \<Longrightarrow> I (t\<lparr>os_tick := k\<rparr>)" "\<And>t c. I t \<Longrightarrow> I (t\<lparr>os_ctx := c\<rparr>)"
    "\<And>t st a rs. I t \<Longrightarrow> mark_step_status (sd_name step) st a (os_rs t) = Inr rs \<Longrightarrow> I (t\<lparr>os_rs := rs\<rparr>)"
  then show "keeps I (execute_step env step)" by (rule execute_step_keeps)
next
  fix step :: step_definition and s :: engine_state and out s'
  assume "execute_step env step s = (Inr out, s')"
  then show "ran_step step out s s'" by (rule execute_step_ran)
qed

subsection \<open>The run state of a run stays consistent\<close>

lemma run_state_ok_closed: "engine_closed (\<lambda>s. run_state_ok steps (os_rs s))"
  unfolding engine_closed_def
  by (auto intro: run_state_ok_mark run_state_ok_step rs_set rs_advance)

lemma run_state_ok_index:
  "run_state_ok steps rs \<Longrightarrow> 0 \<le> k \<Longrightarrow> k \<le> int (length steps) \<Longrightarrow>
   run_state_ok steps (rs\<lparr>rs_current_step_index := max (rs_current_step_index rs) k\<rparr>)"
  by (auto simp: run_state_ok_def)

definition step_ids :: "pipeline_definition \<Rightarrow> (string \<times> string) list" where
  "step_ids p = map (\<lambda>s. (sd_name s, sd_agent s)) (pd_steps p)"

lemma run_body_run_state:
  assumes "run_body en (execute_step env) rq start s = (r, s')"
    and "run_state_ok (step_ids (rr_pipeline rq)) (os_rs s)"
    and "rn_index start \<le> length (pd_steps (rr_pipeline rq))"
  shows "run_state_ok (step_ids (rr_pipeline rq)) (os_rs s')"
proof -
  have "keeps (\<lambda>s. run_state_ok (step_ids (rr_pipeline rq)) (os_rs s)) (run_body en (execute_step env) rq start)"
    by (rule step_exec.keeps_run_body [OF run_state_ok_closed assms(3)])
      (simp add: run_state_ok_index step_ids_def)
  with assms(1,2) show ?thesis by (cases r) (auto dest: tripleD_Inr tripleD_Inl)
qed

lemma prepare_run_fresh:
  assumes "prepare_run en rq = Inr start" "rr_resume rq = None"
  shows "rn_index start = 0 \<and> run_state_ok (step_ids (rr_pipeline rq)) (os_rs (rn_state start)) \<and>
    es_results (rn_state start) = [] \<and>
    os_rs (rn_state start) = run_state_from_steps (rr_run_id rq) (pd_pipeline_name (rr_pipeline rq))
      (step_ids (rr_pipeline rq)) (Some (rn_correlation start)) (Some (rn_trace start))"
proof -
  have "os_rs (rn_state start) = run_state_from_steps (rr_run_id rq) (pd_pipeline_name (rr_pipeline rq))
      (step_ids (rr_pipeline rq)) (Some (rn_correlation start)) (Some (rn_trace start)) \<and> rn_index start = 0 \<and>
      es_results (rn_state start) = []"
    using assms by (auto simp: prepare_run_def Let_def bindE_Inr_iff start_run_state_def step_ids_def)
  moreover have "run_state_ok (step_ids (rr_pipeline rq)) (run_state_from_steps a b
      (step_ids (rr_pipeline rq)) c d)" for a b c d
    by (rule rs_reachable_ok) (rule rs_init)
  ultimately show ?thesis by simp
qed

text \<open>
  C3: a fresh run of any pipeline leaves its run state consistent, whether the run
  returns or raises: the steps are those of the pipeline in order, no attempt count is
  negative, a pending step has never started, a finished one has been attempted, and the
  step index stays within the pipeline.
\<close>

theorem fresh_run_state_consistent:
  assumes "run_pipeline en rq = (r, Some s)" "rr_resume rq = None"
  shows "run_state_ok (step_ids (rr_pipeline rq)) (os_rs s)"
proof -
  obtain start where start: "prepare_run en rq = Inr start"
    "run_body en (execute_step (en_exec en)) rq start (rn_state start) = (r, s)"
    using assms(1) by (auto simp: run_pipeline_def split: sum.splits prod.splits)
  note f = prepare_run_fresh [OF start(1) assms(2)]
  from f have "run_state_ok (step_ids (rr_pipeline rq)) (os_rs (rn_state start))" by blast
  moreover from f have "rn_index start \<le> length (pd_steps (rr_pipeline rq))" by simp
  ultimately show ?thesis by (rule run_body_run_state [OF start(2)])
qed

definition sample_engine :: engine where
  "sample_engine = \<lparr>en_exec = silent_env, en_retry = mk_retry_policy 1 2, en_max_loop = 5, en_workers = 4,
     en_state_validator = \<lparr>sv_schemas = [(pipeline_state_schema_name, PDict [])], sv_strict = True\<rparr>,
     en_override = (\<lambda>_ _. None), en_schedule = (\<lambda>_ n. [0..<n]), en_hook = None,
     en_rules = Inr (PDict []), en_fromiso = (\<lambda>_. None)\<rparr>"

definition sample_request :: run_request where
  "sample_request = \<lparr>rr_pipeline = example_pipeline\<lparr>pd_loops := []\<rparr>, rr_run_id = ''r'', rr_inputs = [],
     rr_metadata = [], rr_has_callback = False, rr_resume = None, rr_resume_results = []\<rparr>"

lemma sample_prepared: "\<exists>start. prepare_run sample_engine sample_request = Inr start"
  by (simp add: prepare_run_def sample_engine_def sample_request_def Let_def mk_context_def
      pipeline_state_from_legacy_def example_pipeline_def resume_context_def start_run_state_def)

theorem fresh_run_state_consistent_witness:
  "\<exists>r s. run_pipeline sample_engine sample_request = (r, Some s) \<and>
     run_state_ok [(''a'', ''x''), (''b'', ''y'')] (os_rs s)"
proof -
  obtain start where "prepare_run sample_engine sample_request = Inr start" using sample_prepared by blast
  moreover obtain r s where "run_body sample_engine (execute_step (en_exec sample_engine)) sample_request start
      (rn_state start) = (r, s)" by fastforce
  ultimately have r: "run_pipeline sample_engine sample_request = (r, Some s)"
    by (simp add: run_pipeline_def)
  from fresh_run_state_consistent [OF r] show ?thesis
    using r by (auto simp: sample_request_def step_ids_def example_pipeline_def simple_step_def)
qed

subsection \<open>What one step under its policy leaves behind\<close>

definition halted :: "run_state \<Rightarrow> bool" where
  "halted rs \<longleftrightarrow> rs_run_status rs \<in> {status_value FAILED, status_value BLOCKED}"

definition step_status_in :: "string \<Rightarrow> step_status set \<Rightarrow> run_state \<Rightarrow> bool" where
  "step_status_in n A rs \<longleftrightarrow> (\<exists>st. get_step n rs = Inr st \<and> st_status st \<in> A)"

text \<open>The statuses of a step that the run may go past.\<close>

definition passed :: "string \<Rightarrow> run_state \<Rightarrow> bool" where
  "passed n rs \<longleftrightarrow> step_status_in n {SUCCESS, PARTIAL_SUCCESS, SKIPPED} rs"

lemma rs_only:
  "keeps (\<lambda>s. A (os_rs s)) (ctxS f)" "keeps (\<lambda>s. A (os_rs s)) (tickS g)" "keeps (\<lambda>s. A (os_rs s)) (sleepS r)"
  "keeps (\<lambda>s. A (os_rs s)) (emit_checkpoint en status)"
  by (simp_all add: keeps_ctxS keeps_tickS keeps_emit sleepS_def keeps_modifyS)

lemma triple_rsS: "(\<And>s. P s \<Longrightarrow> Q () (s\<lparr>os_rs := f (os_rs s)\<rparr>)) \<Longrightarrow> triple P (rsS f) Q R"
  unfolding rsS_def by (rule triple_modifyS)

lemma triple_markS:
  "(\<And>s rs. P s \<Longrightarrow> mark_step_status n st a (os_rs s) = Inr rs \<Longrightarrow> Q () (s\<lparr>os_rs := rs\<rparr>)) \<Longrightarrow>
   triple P (markS n st a) Q (\<lambda>_ _. True)"
  unfolding markS_def by (rule triple_updateE) (auto simp: bindE_Inr_iff)

lemma triple_no_raise: "keeps I m \<Longrightarrow> triple I m (\<lambda>_. I) (\<lambda>_ _. True)"
  by (rule triple_conseq [of I m "\<lambda>_. I" "\<lambda>_. I"]) auto

text \<open>How the branches of the policy end: the answer to stop is whether the run is halted.\<close>

definition policy_end :: "string \<Rightarrow> dict \<times> bool \<Rightarrow> run_state \<Rightarrow> bool" where
  "policy_end n r rs \<longleftrightarrow> (snd r \<longleftrightarrow> halted rs) \<and> (\<not> snd r \<longrightarrow> passed n rs)"

lemma mark_run_status:
  "mark_step_status n SKIPPED a rs = Inr rs' \<Longrightarrow> halted rs' \<longleftrightarrow> halted rs"
  "mark_step_status n SKIPPED a rs = Inr rs' \<Longrightarrow> passed n rs'"
proof -
  assume m: "mark_step_status n SKIPPED a rs = Inr rs'"
  then show "halted rs' \<longleftrightarrow> halted rs" by (auto simp: mark_step_status_Inr halted_def)
  from m obtain st where "get_step n rs = Inr st" by (auto simp: mark_step_status_Inr)
  with get_step_mark [OF m, of n] show "passed n rs'" by (simp add: passed_def step_status_in_def)
qed

lemma advance_status [simp]: "halted (advance_index rs) = halted rs" "passed n (advance_index rs) = passed n rs"
  by (simp_all add: halted_def passed_def step_status_in_def)

lemma finish_triple:
  "triple (\<lambda>s. policy_end n r (os_rs s)) (seqS (emit_checkpoint en None) (returnS r))
     (\<lambda>r s. policy_end n r (os_rs s)) (\<lambda>_ _. True)"
  by (rule triple_seqS [OF triple_no_raise [OF rs_only(4)]]) (auto intro: triple_returnS)

lemma advance_finish_triple:
  "triple (\<lambda>s. policy_end n r (os_rs s)) (seqS (rsS advance_index) (seqS (emit_checkpoint en None) (returnS r)))
     (\<lambda>r s. policy_end n r (os_rs s)) (\<lambda>_ _. True)"
  by (rule triple_seqS [OF triple_rsS finish_triple]) (simp add: policy_end_def)

lemma continue_triple:
  "triple (\<lambda>s. True) (continue_step en step out) (\<lambda>r s. policy_end (sd_name step) r (os_rs s)) (\<lambda>_ _. True)"
  unfolding continue_step_def
proof (rule triple_seqS [where S = "\<lambda>s. \<not> halted (os_rs s)"])
  show "triple (\<lambda>s. True) (rsS (\<lambda>rs. if rs_run_status rs \<in> {status_value FAILED, status_value BLOCKED}
      then set_run_status RUNNING rs else rs)) (\<lambda>_ s. \<not> halted (os_rs s)) (\<lambda>_ _. True)"
    by (rule triple_rsS) (auto simp: halted_def)
  show "triple (\<lambda>s. \<not> halted (os_rs s)) (bindS (tickS (ee_now (en_exec en))) (\<lambda>now.
      seqS (markS (sd_name step) SKIPPED (no_mark\<lparr>ma_finished_at := Some now,
             ma_error := Some (''Step failed but continued by policy: ''
               @ py_str (ee_fstr (en_exec en)) (sd_on_failure step))\<rparr>))
     (seqS (rsS advance_index) (seqS (emit_checkpoint en None) (returnS (out, False))))))
     (\<lambda>r s. policy_end (sd_name step) r (os_rs s)) (\<lambda>_ _. True)"
    by (rule triple_bindS [OF triple_no_raise [OF rs_only(2)]],
        rule triple_seqS [OF triple_markS advance_finish_triple])
      (auto simp: policy_end_def mark_run_status)
qed

lemma halt_triple:
  assumes "st \<in> {FAILED, BLOCKED}"
  shows "triple (\<lambda>s. True) (halt_step en st out) (\<lambda>r s. policy_end n r (os_rs s)) (\<lambda>_ _. True)"
  unfolding halt_step_def
  by (rule triple_seqS [OF triple_rsS finish_triple])
    (use assms in \<open>auto simp: policy_end_def halted_def\<close>)

lemma skip_triple:
  "triple (\<lambda>s. \<not> halted (os_rs s)) (skip_step en step c) (\<lambda>r s. policy_end (sd_name step) r (os_rs s)) (\<lambda>_ _. True)"
  unfolding skip_step_def
  by (rule triple_bindS [OF triple_no_raise [OF rs_only(2)]],
      rule triple_seqS [OF triple_markS [where Q = "\<lambda>_ s. policy_end (sd_name step) (skipped_output c, False) (os_rs s)"]],
      simp add: policy_end_def mark_run_status,
      rule triple_seqS [OF triple_no_raise [OF rs_only(1)] advance_finish_triple])

lemma stop_triple:
  "triple (\<lambda>s. True) (stop_step en step req) (\<lambda>r s. policy_end (sd_name step) r (os_rs s)) (\<lambda>_ _. True)"
  unfolding stop_step_def
  by (rule triple_seqS [OF triple_rsS [where Q = "\<lambda>_ s. halted (os_rs s)"]], simp add: halted_def,
      rule triple_bindS [OF triple_no_raise [OF rs_only(2)]],
      rule triple_seqS [OF triple_markS [where Q = "\<lambda>_ s. policy_end (sd_name step) (blocked_output, True) (os_rs s)"]],
      simp add: policy_end_def mark_run_status,
      rule triple_seqS [OF triple_no_raise [OF rs_only(1)] finish_triple])

lemma is_step_success_status:
  assumes "normalize_step_status (dget out ''status'') = Inr st"
  shows "is_step_success out \<longleftrightarrow> st \<in> {SUCCESS, PARTIAL_SUCCESS}"
proof (cases "dget out ''status''")
  case (PStr s)
  show ?thesis
  proof (cases "s \<in> {''SUCCESS'', ''PARTIAL_SUCCESS''}")
    case True
    with PStr assms show ?thesis by (auto simp: normalize_step_status_def is_step_success_def)
  next
    case False
    then have st: "(case status_of_value s of Inr t \<Rightarrow> t | Inl _ \<Rightarrow> FAILED) = st"
      using PStr assms by (auto simp: normalize_step_status_def)
    have "st \<notin> {SUCCESS, PARTIAL_SUCCESS}"
    proof (cases "status_of_value s")
      case (Inr t)
      then have "status_value t = s" by (simp add: status_of_value_Inr)
      with Inr st False show ?thesis by auto
    qed (use st in auto)
    with False PStr show ?thesis by (auto simp: is_step_success_def)
  qed
qed (use assms in \<open>auto simp: normalize_step_status_def is_step_success_def\<close>)

context step_runner
begin

lemma exec_triple:
  "triple (\<lambda>s. True) (exec step)
     (\<lambda>out s. is_step_success out \<longrightarrow> policy_end (sd_name step) (out, False) (os_rs s)) (\<lambda>_ _. True)"
  unfolding triple_def
proof (intro allI impI)
  fix s
  show "case exec step s of (Inl e, s') \<Rightarrow> True
    | (Inr out, s') \<Rightarrow> is_step_success out \<longrightarrow> policy_end (sd_name step) (out, False) (os_rs s')"
  proof (cases "exec step s")
    case (Pair r s')
    show ?thesis
    proof (cases r)
      case (Inr out)
      with Pair exec_ran have "ran_step step out s s'" by blast
      then obtain st' where "get_step (sd_name step) (os_rs s') = Inr st'"
        "normalize_step_status (dget out ''status'') = Inr (st_status st')"
        "rs_run_status (os_rs s') = (if st_status st' \<in> {FAILED, BLOCKED} then status_value (st_status st')
            else status_value RUNNING)"
        by (auto simp: ran_step_def)
      with Pair Inr show ?thesis
        by (auto simp: is_step_success_status policy_end_def halted_def passed_def step_status_in_def)
    qed (use Pair in simp)
  qed
qed

lemma retry_loop_triple:
  "triple (\<lambda>s. True) (retry_loop en exec step attempt) (\<lambda>r s. policy_end (sd_name step) r (os_rs s)) (\<lambda>_ _. True)"
proof (induction "nat (max_retries en step - attempt)" arbitrary: attempt rule: less_induct)
  case less
  let ?Q = "\<lambda>r s. policy_end (sd_name step) r (os_rs s)"
  have rec: "triple (\<lambda>s. True) (retry_loop en exec step (attempt + 1)) ?Q (\<lambda>_ _. True)"
    if "may_retry en step (attempt + 1)"
    using less may_retry_decreases [OF that] by blast
  have T: "triple (\<lambda>s. True) m (\<lambda>_ s. True) (\<lambda>_ _. True)" for m :: "(engine_state, 'z) st"
    by (rule triple_True)
  show ?case
    unfolding retry_loop.simps [of en exec step attempt]
  proof (rule triple_bindS [OF exec_triple], rule triple_seqS)
    fix out
    show "triple (\<lambda>s. is_step_success out \<longrightarrow> policy_end (sd_name step) (out, False) (os_rs s))
        (ctxS (record_step_result (sd_name step) out))
        (\<lambda>_ s. is_step_success out \<longrightarrow> policy_end (sd_name step) (out, False) (os_rs s)) (\<lambda>_ _. True)"
      by (rule triple_no_raise [OF rs_only(1)])
  next
    fix out
    have fail: "triple (\<lambda>s. True) (bindS (liftE (resolve_policy_action (sd_on_failure step))) (\<lambda>action.
        if action = ActRetry then
          seqS (liftE (bindE (retry_limit_of step) (\<lambda>_. Inr ())))
          (if may_retry en step (attempt + 1) then
             seqS (sleepS (backoff_duration (en_retry en) (attempt + 1))) (retry_loop en exec step (attempt + 1))
           else halt_step en BLOCKED out)
        else if action = ActContinue then continue_step en step out
        else if action = ActBlock then halt_step en BLOCKED out
        else halt_step en FAILED out)) ?Q (\<lambda>_ _. True)"
      by (rule triple_bindS [OF triple_True]) (auto intro!: triple_If triple_seqS [OF triple_True] rec
          halt_triple continue_triple)
    show "triple (\<lambda>s. is_step_success out \<longrightarrow> policy_end (sd_name step) (out, False) (os_rs s))
      (if is_step_success out then
         seqS (rsS advance_index) (seqS (emit_checkpoint en None) (returnS (out, False)))
       else bindS (liftE (resolve_policy_action (sd_on_failure step))) (\<lambda>action.
        if action = ActRetry then
          seqS (liftE (bindE (retry_limit_of step) (\<lambda>_. Inr ())))
          (if may_retry en step (attempt + 1) then
             seqS (sleepS (backoff_duration (en_retry en) (attempt + 1))) (retry_loop en exec step (attempt + 1))
           else halt_step en BLOCKED out)
        else if action = ActContinue then continue_step en step out
        else if action = ActBlock then halt_step en BLOCKED out
        else halt_step en FAILED out)) ?Q (\<lambda>_ _. True)"
      using advance_finish_triple [of "sd_name step" "(out, False)" en] fail by simp
  qed
qed

lemma policy_triple:
  "triple (\<lambda>s. \<not> halted (os_rs s)) (execute_step_with_policy en exec step)
     (\<lambda>r s. policy_end (sd_name step) r (os_rs s)) (\<lambda>_ _. True)"
  unfolding execute_step_with_policy_def
proof (rule triple_bindS [where S = "\<lambda>_ s. \<not> halted (os_rs s)"])
  show "triple (\<lambda>s. \<not> halted (os_rs s)) (getS (\<lambda>s. case step_condition step of
      Some c \<Rightarrow> if evaluate_loop_condition (en_exec en) c (ec_state (os_ctx s)) then None else Some c
    | None \<Rightarrow> None)) (\<lambda>_ s. \<not> halted (os_rs s)) (\<lambda>_ _. True)"
    by (rule triple_getS)
  fix unmet
  have run: "triple (\<lambda>s. \<not> halted (os_rs s)) (bindS (stop_requested en) (\<lambda>stop.
      case stop of Some req \<Rightarrow> stop_step en step req
    | None \<Rightarrow> bindS (getS (\<lambda>s. initial_attempt step (os_rs s))) (retry_loop en exec step)))
     (\<lambda>r s. policy_end (sd_name step) r (os_rs s)) (\<lambda>_ _. True)"
    by (rule triple_bindS [OF triple_True], rule triple_case_option, rule triple_bindS [OF triple_True],
        rule retry_loop_triple, rule stop_triple)
  show "triple (\<lambda>s. \<not> halted (os_rs s)) (case unmet of Some c \<Rightarrow> skip_step en step c
    | None \<Rightarrow> bindS (stop_requested en) (\<lambda>stop. case stop of Some req \<Rightarrow> stop_step en step req
    | None \<Rightarrow> bindS (getS (\<lambda>s. initial_attempt step (os_rs s))) (retry_loop en exec step)))
     (\<lambda>r s. policy_end (sd_name step) r (os_rs s)) (\<lambda>_ _. True)"
    by (rule triple_case_option) (auto intro: run skip_triple)
qed

end

text \<open>
  C2: a step run under its failure policy, in a run neither failed nor blocked, asks the run to
  stop exactly when it leaves the run failed or blocked; when it does not, the step
  itself ended as a success, a partial success or skipped.
\<close>

theorem step_policy_outcome:
  assumes "execute_step_with_policy en (execute_step env) step s = (Inr (out, stop), s')"
    and "\<not> halted (os_rs s)"
  shows "(stop \<longleftrightarrow> halted (os_rs s')) \<and> (\<not> stop \<longrightarrow> passed (sd_name step) (os_rs s'))"
  using tripleD_Inr [OF step_exec.policy_triple _ assms(1)] assms(2) by (simp add: policy_end_def)

definition sample_es :: engine_state where
  "sample_es = \<lparr>os_ctx = sample_ctx,
     os_rs = run_state_from_steps ''r'' ''p'' [(''a'', ''x''), (''b'', ''x'')] None None,
     os_tick = 0, os_slept = [], os_checkpoints = [], es_results = []\<rparr>"

definition stop_engine :: engine where
  "stop_engine = sample_engine\<lparr>en_override := (\<lambda>_ r. Some \<lparr>ov_run_id = r, ov_action = OvStop, ov_reason = [],
     ov_requested_at = []\<rparr>)\<rparr>"

theorem step_policy_outcome_witness:
  "\<exists>out s'. execute_step_with_policy stop_engine (execute_step silent_env) (simple_step ''a'' ''x'') sample_es
      = (Inr (out, True), s') \<and> halted (os_rs s')"
proof -
  have n: "\<not> halted (os_rs sample_es)"
    by (simp add: halted_def sample_es_def run_state_from_steps_def)
  have "fst (execute_step_with_policy stop_engine (execute_step silent_env) (simple_step ''a'' ''x'') sample_es)
      = Inr (blocked_output, True)" by code_simp
  then obtain s' where r: "execute_step_with_policy stop_engine (execute_step silent_env) (simple_step ''a'' ''x'') sample_es
      = (Inr (blocked_output, True), s')"
    by (cases "execute_step_with_policy stop_engine (execute_step silent_env) (simple_step ''a'' ''x'') sample_es") auto
  with step_policy_outcome [OF r n] show ?thesis by blast
qed

end
