(* ===== verification/EngineOrder.thy ===== *)
theory EngineOrder
  imports EngineProps
begin

text \<open>
  What the engine guarantees about a whole run: when the batches are singletons, the
  final status of the run tells the truth about its steps. When they are not, it need
  not, and a pool of one worker cannot run a batch of two steps at all.
\<close>

subsection \<open>Steps that have passed stay passed\<close>

definition all_passed :: "string set \<Rightarrow> run_state \<Rightarrow> bool" where
  "all_passed N rs \<longleftrightarrow> (\<forall>n \<in> N. passed n rs)"

lemma all_passed_simps [simp]:
  "all_passed {} rs" "all_passed (M \<union> N) rs \<longleftrightarrow> all_passed M rs \<and> all_passed N rs"
  "all_passed (insert n N) rs \<longleftrightarrow> passed n rs \<and> all_passed N rs"
  by (auto simp: all_passed_def)

lemma passed_simps [simp]:
  "passed n (set_run_status st rs) \<longleftrightarrow> passed n rs" "all_passed N (set_run_status st rs) \<longleftrightarrow> all_passed N rs"
  "all_passed N (advance_index rs) \<longleftrightarrow> all_passed N rs"
  by (simp_all add: passed_def step_status_in_def all_passed_def)

lemma passed_mark_other:
  "mark_step_status m st a rs = Inr rs' \<Longrightarrow> n \<noteq> m \<Longrightarrow> passed n rs' \<longleftrightarrow> passed n rs"
  by (simp add: passed_def step_status_in_def get_step_mark)

lemma all_passed_closed: "step_closed n (\<lambda>s. all_passed (N - {n}) (os_rs s))"
  unfolding step_closed_def all_passed_def
  by (auto simp: passed_mark_other)

text \<open>What holds when the engine goes on after the steps \<open>N\<close>, and what it answers.\<close>

definition going :: "string set \<Rightarrow> run_state \<Rightarrow> bool" where
  "going N rs \<longleftrightarrow> \<not> halted rs \<and> all_passed N rs"

definition answers :: "string set \<Rightarrow> bool \<Rightarrow> run_state \<Rightarrow> bool" where
  "answers N stop rs \<longleftrightarrow> (if stop then halted rs else going N rs)"

lemma answers_simps [simp]: "answers N True rs = halted rs" "answers N False rs = going N rs"
  by (simp_all add: answers_def)

lemma triple_case_prod: "(\<And>x y. r = (x, y) \<Longrightarrow> triple P (f x y) Q R) \<Longrightarrow> triple P (case r of (x, y) \<Rightarrow> f x y) Q R"
  by (cases r) simp

context step_runner
begin

lemma going_policy:
  "triple (\<lambda>s. going N (os_rs s)) (execute_step_with_policy en exec step)
     (\<lambda>r s. answers (insert (sd_name step) N) (snd r) (os_rs s)) (\<lambda>_ _. True)"
proof -
  have "triple (\<lambda>s. going N (os_rs s)) (execute_step_with_policy en exec step)
     (\<lambda>r s. policy_end (sd_name step) r (os_rs s)) (\<lambda>_ _. True)"
    by (rule triple_conseq [OF policy_triple]) (auto simp: going_def)
  moreover have "triple (\<lambda>s. going N (os_rs s)) (execute_step_with_policy en exec step)
     (\<lambda>r s. all_passed (N - {sd_name step}) (os_rs s)) (\<lambda>_ _. True)"
    by (rule triple_conseq [OF keeps_execute_step_with_policy [OF all_passed_closed]])
      (auto simp: going_def all_passed_def)
  ultimately have "triple (\<lambda>s. going N (os_rs s)) (execute_step_with_policy en exec step)
     (\<lambda>r s. policy_end (sd_name step) r (os_rs s) \<and> all_passed (N - {sd_name step}) (os_rs s)) (\<lambda>_ _. True)"
    using triple_conj by fastforce
  then show ?thesis
    by (rule triple_conseq) (auto simp: policy_end_def going_def answers_def all_passed_def)
qed

end

lemma going_store:
  "triple (\<lambda>s. answers N stop (os_rs s)) (store_outputs [(n, out)] batch)
     (\<lambda>_ s. answers N stop (os_rs s) \<and> sd_name ` set batch \<subseteq> {n}) (\<lambda>_ _. True)"
proof -
  have "foldE (\<lambda>step t. case map_of [(n, out)] (sd_name step) of None \<Rightarrow> Inl (KeyError (sd_name step))
      | Some out \<Rightarrow> Inr (t\<lparr>es_results := AList.update (sd_name step) out (es_results t)\<rparr>)) batch s = Inr s' \<Longrightarrow>
      os_rs s' = os_rs s \<and> sd_name ` set batch \<subseteq> {n}" for s s' :: engine_state
    by (induction batch arbitrary: s) (auto split: if_splits simp: bindE_Inr_iff)
  then show ?thesis unfolding store_outputs_def
    by (intro triple_updateE) (auto simp del: map_of.simps)
qed

text \<open>The pipelines whose batches can hold one step only, or whose pool has one worker.\<close>

definition serial :: "engine \<Rightarrow> step_definition list \<Rightarrow> bool" where
  "serial en steps \<longleftrightarrow> en_workers en \<le> 1 \<or> (\<exists>l. \<forall>s \<in> set steps. l \<in> set (step_locks s))"

lemma serial_subset: "serial en steps \<Longrightarrow> set ss \<subseteq> set steps \<Longrightarrow> serial en ss"
  by (auto simp: serial_def)

lemma lock_disjoint_single:
  "lock_disjoint ss \<Longrightarrow> \<forall>s \<in> set ss. l \<in> set (step_locks s) \<Longrightarrow> length ss \<le> 1"
proof (cases ss)
  case (Cons s ts)
  moreover assume "lock_disjoint ss" "\<forall>s \<in> set ss. l \<in> set (step_locks s)"
  ultimately show ?thesis by (cases ts) (auto simp: lock_disjoint_def)
qed simp

lemma serial_batch:
  assumes "serial en queue" "queue \<noteq> []"
  obtains step rest where "select_lock_aware_batch queue = step # rest" "rest = [] \<or> en_workers en \<le> 1"
proof -
  obtain step rest where b: "select_lock_aware_batch queue = step # rest"
    using select_batch_nonempty [OF assms(2)] by (cases "select_lock_aware_batch queue") auto
  have d: "lock_disjoint (step # rest)"
    using select_batch_disjoint [of queue] b by simp
  have "rest = []" if "\<forall>s \<in> set queue. l \<in> set (step_locks s)" for l
    using lock_disjoint_single [OF d, of l] that select_batch_subset [of queue] b by auto
  with assms(1) have "rest = [] \<or> en_workers en \<le> 1" by (auto simp: serial_def)
  with b that show thesis by blast
qed

lemma batch_rest_keys: "set (filter (\<lambda>s. sd_name s \<notin> sd_name ` set b) q) \<subseteq> set q"
  by auto

context step_runner
begin

lemma going_batch:
  assumes "rest = [] \<or> en_workers en \<le> 1"
  shows "triple (\<lambda>s. going N (os_rs s)) (execute_step_batch en exec (step # rest))
     (\<lambda>r s. (\<exists>out. fst r = [(sd_name step, out)]) \<and> answers (insert (sd_name step) N) (snd r) (os_rs s))
     (\<lambda>_ _. True)"
  unfolding execute_step_batch_def list.case using assms
  by (simp only: if_True) (rule triple_bindS [OF going_policy], auto intro: triple_returnS)

lemma going_batch_store:
  assumes "rest = [] \<or> en_workers en \<le> 1" and batch: "batch = step # rest"
    and k: "sd_name ` set batch \<subseteq> {sd_name step} \<Longrightarrow>
      triple (\<lambda>s. going (insert (sd_name step) N) (os_rs s)) k Q (\<lambda>_ _. True)"
    and Q: "\<And>s. halted (os_rs s) \<Longrightarrow> Q True s"
  shows "triple (\<lambda>s. going N (os_rs s)) (bindS (execute_step_batch en exec batch) (\<lambda>(outs, stop).
      seqS (store_outputs outs batch) (if stop then returnS True else k))) Q (\<lambda>_ _. True)"
proof (rule triple_bindS, unfold batch, rule going_batch [OF assms(1)], rule triple_case_prod)
  fix r :: "(string \<times> dict) list \<times> bool" and outs stop
  assume r: "r = (outs, stop)"
  have k': "triple (\<lambda>s. answers (insert (sd_name step) N) stop (os_rs s) \<and> sd_name ` set batch \<subseteq> {sd_name step})
      (if stop then returnS True else k) Q (\<lambda>_ _. True)"
  proof (cases stop)
    case True
    then show ?thesis by (simp only: if_True answers_simps) (rule triple_returnS, simp add: Q)
  next
    case False
    show ?thesis
    proof (cases "sd_name ` set batch \<subseteq> {sd_name step}")
      case True
      with k False show ?thesis by simp
    qed (simp add: triple_def)
  qed
  show "triple (\<lambda>s. (\<exists>out. fst r = [(sd_name step, out)]) \<and>
        answers (insert (sd_name step) N) (snd r) (os_rs s))
      (seqS (store_outputs outs (step # rest)) (if stop then returnS True else k)) Q (\<lambda>_ _. True)"
  proof (cases "\<exists>out. outs = [(sd_name step, out)]")
    case True
    then obtain out where outs: "outs = [(sd_name step, out)]" by blast
    have "triple (\<lambda>s. answers (insert (sd_name step) N) stop (os_rs s))
        (seqS (store_outputs outs batch) (if stop then returnS True else k)) Q (\<lambda>_ _. True)"
      unfolding outs by (rule triple_seqS [OF going_store k'])
    then show ?thesis unfolding batch by (rule triple_conseq) (simp_all add: r)
  qed (simp add: triple_def r)
qed

lemma going_queue:
  "serial en queue \<Longrightarrow> triple (\<lambda>s. going N (os_rs s)) (run_queue en exec queue)
     (\<lambda>stop s. answers (N \<union> sd_name ` set queue) stop (os_rs s)) (\<lambda>_ _. True)"
proof (induction "length queue" arbitrary: queue N rule: less_induct)
  case less
  show ?case
  proof (cases "queue = []")
    case True
    then show ?thesis unfolding run_queue.simps [of en exec queue] by (simp add: triple_returnS)
  next
    case False
    obtain step rest where b: "select_lock_aware_batch queue = step # rest" "rest = [] \<or> en_workers en \<le> 1"
      using serial_batch [OF less.prems False] by blast
    let ?queue = "filter (\<lambda>s. sd_name s \<notin> sd_name ` set (select_lock_aware_batch queue)) queue"
    have rec: "triple (\<lambda>s. going (insert (sd_name step) N) (os_rs s)) (run_queue en exec ?queue)
        (\<lambda>stop s. answers (insert (sd_name step) N \<union> sd_name ` set ?queue) stop (os_rs s)) (\<lambda>_ _. True)"
      using less.hyps [OF batch_shorter [OF False]] serial_subset [OF less.prems batch_rest_keys] by blast
    have names: "insert (sd_name step) N \<union> sd_name ` set ?queue = N \<union> sd_name ` set queue"
      if "sd_name ` set (select_lock_aware_batch queue) \<subseteq> {sd_name step}"
    proof -
      have "sd_name s = sd_name step" if "sd_name s \<in> sd_name ` set (select_lock_aware_batch queue)" for s
        using that \<open>sd_name ` set (select_lock_aware_batch queue) \<subseteq> {sd_name step}\<close> by blast
      moreover have "step \<in> set queue" using b(1) select_batch_subset [of queue] by auto
      ultimately show ?thesis by (auto intro: rev_image_eqI)
    qed
    show ?thesis
      unfolding run_queue.simps [of en exec queue] Let_def using False
      by (simp only: if_False) (rule going_batch_store [OF b(2) b(1)], use rec names in auto)
  qed
qed

end

lemma ready_names_subset: "sd_name ` set (ready_steps steps deps executed) \<subseteq> sd_name ` set steps"
  by (auto dest: in_ready_steps)

lemma all_executed:
  assumes "length (remdups executed) \<ge> length steps" "set executed \<subseteq> sd_name ` set steps"
  shows "set executed = sd_name ` set steps"
proof (rule card_subset_eq)
  have "card (sd_name ` set steps) \<le> length steps"
    by (metis card_length length_map list.set_map)
  moreover have "card (set executed) = length (remdups executed)" by (simp add: length_remdups_card_conv)
  moreover have "card (set executed) \<le> card (sd_name ` set steps)" by (rule card_mono) (simp_all add: assms(2))
  ultimately show "card (set executed) = card (sd_name ` set steps)" using assms(1) by simp
qed (use assms in simp_all)

context step_runner
begin

lemma going_ready:
  "serial en steps \<Longrightarrow> set executed \<subseteq> sd_name ` set steps \<Longrightarrow>
   triple (\<lambda>s. going (N \<union> set executed) (os_rs s)) (run_ready en exec steps deps executed)
     (\<lambda>stop s. answers (N \<union> sd_name ` set steps) stop (os_rs s)) (\<lambda>_ _. True)"
proof (induction "length (filter (\<lambda>s. sd_name s \<notin> set executed) steps)" arbitrary: executed rule: less_induct)
  case less
  let ?ready = "ready_steps steps deps executed"
  show ?case
  proof (cases "length (remdups executed) \<ge> length steps")
    case True
    with all_executed [OF True less.prems(2)] show ?thesis
      unfolding run_ready.simps [of en exec steps deps executed]
      by (simp only: if_True) (rule triple_returnS, simp)
  next
    case go: False
    show ?thesis
    proof (cases "?ready = []")
      case True
      with go show ?thesis
        unfolding run_ready.simps [of en exec steps deps executed] Let_def
        by (simp only: simp_thms if_True if_False) (rule triple_raiseS, simp)
    next
      case False
      obtain r where r: "r \<in> set ?ready" using False by (cases ?ready) auto
      have "length (filter (\<lambda>s. sd_name s \<notin> sd_name ` set ?ready) (filter (\<lambda>s. sd_name s \<notin> set executed) steps))
          < length (filter (\<lambda>s. sd_name s \<notin> set executed) steps)"
        using in_ready_steps [OF r] by (intro length_filter_less [of r]) (use r in auto)
      then have shorter: "length (filter (\<lambda>s. sd_name s \<notin> set (executed @ map sd_name ?ready)) steps)
          < length (filter (\<lambda>s. sd_name s \<notin> set executed) steps)"
        by (simp add: conj_commute)
      have "serial en ?ready" by (rule serial_subset [OF less.prems(1)]) (auto dest: in_ready_steps)
      note q = going_queue [OF this, of "N \<union> set executed"]
      have eq: "N \<union> set executed \<union> sd_name ` set ?ready = N \<union> set (executed @ map sd_name ?ready)" by auto
      have rec: "triple (\<lambda>s. going (N \<union> set executed \<union> sd_name ` set ?ready) (os_rs s))
          (run_ready en exec steps deps (executed @ map sd_name ?ready))
          (\<lambda>stop s. answers (N \<union> sd_name ` set steps) stop (os_rs s)) (\<lambda>_ _. True)"
        unfolding eq using less.prems(2) ready_names_subset [of steps deps executed]
        by (intro less.hyps [OF shorter less.prems(1)]) simp
      have "triple (\<lambda>s. answers (N \<union> set executed \<union> sd_name ` set ?ready) stop (os_rs s))
          (if stop then returnS True else run_ready en exec steps deps (executed @ map sd_name ?ready))
          (\<lambda>stop s. answers (N \<union> sd_name ` set steps) stop (os_rs s)) (\<lambda>_ _. True)" for stop
      proof (cases stop)
        case True
        then show ?thesis by (simp only: if_True answers_simps) (rule triple_returnS, simp)
      qed (use rec in simp)
      with go False show ?thesis
        unfolding run_ready.simps [of en exec steps deps executed] Let_def
        by (simp only: if_False) (rule triple_bindS [OF q])
    qed
  qed
qed

lemma going_parallelism:
  "serial en steps \<Longrightarrow> triple (\<lambda>s. going {} (os_rs s)) (execute_with_parallelism en exec steps ext)
     (\<lambda>stop s. answers (sd_name ` set steps) stop (os_rs s)) (\<lambda>_ _. True)"
  unfolding execute_with_parallelism_def
  by (rule triple_bindS [OF triple_no_raise [OF keeps_basic(4)]])
    (use going_ready [of en steps "[]" "{}"] in simp)

lemma going_fresh:
  assumes "serial en steps" "pd_loops p = []"
  shows "triple (\<lambda>s. going {} (os_rs s)) (fresh_steps en exec p steps)
     (\<lambda>stop s. answers (sd_name ` set steps) stop (os_rs s)) (\<lambda>_ _. True)"
proof -
  have keep: "keeps (\<lambda>s. A (os_rs s)) (trigger_hooks en steps hooked)" for A hooked
  proof (induction steps arbitrary: hooked)
    case Nil
    show ?case unfolding trigger_hooks.simps by (rule keeps_rules)
  next
    case (Cons s ss)
    have "keeps (\<lambda>s. A (os_rs s)) (trigger_memory_hook en n out)" for n out
      unfolding trigger_memory_hook_def by (intro keeps_rules) (auto simp: bindE_Inr_iff)
    then show ?case unfolding trigger_hooks.simps by (intro keeps_rules Cons.IH)
  qed
  show ?thesis
    unfolding fresh_steps_def
    by (simp only: assms(2) simp_thms if_True) (rule triple_bindS [OF going_parallelism [OF assms(1)]],
        rule triple_bindS [OF triple_no_raise [OF keep]], rule triple_returnS)
qed

end

subsection \<open>The final status of a serial run\<close>

definition honest :: "string set \<Rightarrow> string \<Rightarrow> run_state \<Rightarrow> bool" where
  "honest N final rs \<longleftrightarrow> final \<in> {''FAILED'', ''BLOCKED''} \<or>
     final \<in> {''SUCCESS'', ''PARTIAL_SUCCESS''} \<and> all_passed N rs"

lemma honest_status [simp]: "honest N final (rs\<lparr>rs_run_status := x\<rparr>) \<longleftrightarrow> honest N final rs"
  by (simp add: honest_def all_passed_def passed_def step_status_in_def get_step_def)

lemma derive_honest: "answers N stop rs \<Longrightarrow> honest N (derive_final_status rs results) rs"
  by (auto simp: derive_final_status_def honest_def answers_def going_def halted_def split: if_splits)

lemma finish_run_honest:
  "triple (\<lambda>s. answers N stop (os_rs s)) (finish_run en rq start)
     (\<lambda>d s. \<exists>final. dget d ''status'' = PStr final \<and> honest N final (os_rs s)) (\<lambda>_ _. True)"
  unfolding finish_run_def
proof (rule triple_bindS [where S = "\<lambda>final s. honest N final (os_rs s)"])
  show "triple (\<lambda>s. answers N stop (os_rs s)) (getS (\<lambda>s. derive_final_status (os_rs s) (es_results s)))
     (\<lambda>final s. honest N final (os_rs s)) (\<lambda>_ _. True)"
    by (rule triple_getS) (rule derive_honest)
  fix final
  let ?I = "\<lambda>s :: engine_state. honest N final (os_rs s)"
  have set_status: "keeps ?I (rsS (\<lambda>rs. rs\<lparr>rs_run_status := final\<rparr>))"
    by (rule keeps_rsS) simp
  have promote: "keeps ?I (trigger_memory_promotion en final)"
    unfolding trigger_memory_promotion_def by (intro keeps_rules rs_only(1))
  show "triple ?I (seqS (rsS (\<lambda>rs. rs\<lparr>rs_run_status := final\<rparr>)) (seqS (trigger_memory_promotion en final)
      (seqS (emit_checkpoint en (Some final)) (bindS (getS (\<lambda>s. s)) (\<lambda>s.
        bindS (liftE (build_summary (en_fromiso en) (os_rs s) (es_results s))) (\<lambda>summary.
       returnS [(''run_id'', PStr (rr_run_id rq)),
                (''pipeline_name'', PStr (pd_pipeline_name (rr_pipeline rq))),
                (''status'', PStr final), (''steps'', results_dict (es_results s)),
                (''summary'', PDict summary), (''run_state'', PDict (run_state_to_dict (os_rs s))),
                (''trace'', PDict
                   [(''correlation_id'', PStr (rn_correlation start)), (''trace_id'', PStr (rn_trace start)),
                    (''root_span_id'', PStr (rn_root_span start)),
                    (''steps'', PList (map trace_step (rs_steps (os_rs s))))])]))))))
     (\<lambda>d s. \<exists>final. dget d ''status'' = PStr final \<and> honest N final (os_rs s)) (\<lambda>_ _. True)"
    by (rule triple_seqS [OF triple_no_raise [OF set_status]],
        rule triple_seqS [OF triple_no_raise [OF promote]],
        rule triple_seqS [OF triple_no_raise [OF rs_only(4)]],
        rule triple_bindS [OF triple_no_raise [OF keeps_basic(3)]],
        rule triple_bindS [OF triple_no_raise [OF keeps_basic(4)]],
        rule triple_returnS) (simp add: dget_def)
qed

context step_runner
begin

lemma run_body_honest:
  assumes "serial en (pd_steps (rr_pipeline rq))" "pd_loops (rr_pipeline rq) = []" "rr_resume rq = None"
    and "rn_index start = 0"
  shows "triple (\<lambda>s. going {} (os_rs s)) (run_body en exec rq start)
     (\<lambda>d s. \<exists>final. dget d ''status'' = PStr final \<and> honest (sd_name ` set (pd_steps (rr_pipeline rq))) final (os_rs s))
     (\<lambda>_ _. True)"
proof -
  have sync: "keeps (\<lambda>s. going {} (os_rs s)) (sync_and_validate en)"
    by (rule keeps_emit(2)) simp_all
  show ?thesis
    unfolding run_body_def Let_def assms(3,4) drop_0
    by (simp only: simp_thms if_False) (rule triple_seqS [OF triple_no_raise [OF sync]],
        rule triple_bindS [OF going_fresh [OF assms(1,2)]], rule finish_run_honest)
qed

end

text \<open>
  C10: a fresh run of a pipeline without loops, all of whose steps share a resource lock
  or that runs on one worker, reports its status truthfully: when it returns, the status
  is a failed or blocked one, or it is a success or partial success and every step of
  the pipeline has ended as a success, a partial success or skipped.
\<close>

theorem serial_run_status_honest:
  assumes "run_pipeline en rq = (Inr d, Some s)" "rr_resume rq = None"
    and "pd_loops (rr_pipeline rq) = []" "serial en (pd_steps (rr_pipeline rq))"
  shows "\<exists>final. dget d ''status'' = PStr final \<and>
    (final \<in> {''FAILED'', ''BLOCKED''} \<or>
     final \<in> {''SUCCESS'', ''PARTIAL_SUCCESS''} \<and> (\<forall>step \<in> set (pd_steps (rr_pipeline rq)). passed (sd_name step) (os_rs s)))"
proof -
  obtain start where start: "prepare_run en rq = Inr start"
    "run_body en (execute_step (en_exec en)) rq start (rn_state start) = (Inr d, s)"
    using assms(1) by (auto simp: run_pipeline_def split: sum.splits prod.splits)
  note f = prepare_run_fresh [OF start(1) assms(2)]
  then have "going {} (os_rs (rn_state start))"
    by (simp add: going_def halted_def run_state_from_steps_def)
  with tripleD_Inr [OF step_exec.run_body_honest [OF assms(4,3,2)] _ start(2)] f
  show ?thesis by (auto simp: honest_def all_passed_def)
qed

subsection \<open>A pool of one worker\<close>

lemma store_outputs_missing:
  assumes "s \<in> set batch" "sd_name s \<noteq> n"
  shows "triple P (store_outputs [(n, out)] batch) (\<lambda>_ _. False) (\<lambda>_ _. True)"
proof -
  have "foldE (\<lambda>step t. case map_of [(n, out)] (sd_name step) of None \<Rightarrow> Inl (KeyError (sd_name step))
      | Some out \<Rightarrow> Inr (t\<lparr>es_results := AList.update (sd_name step) out (es_results t)\<rparr>)) batch t \<noteq> Inr t'"
    for t t' :: engine_state
    using assms by (induction batch arbitrary: t) (auto split: if_splits simp: bindE_Inr_iff)
  then show ?thesis unfolding store_outputs_def by (intro triple_updateE) auto
qed

lemma single_worker_triple:
  assumes "en_workers en \<le> 1" "s \<in> set (select_lock_aware_batch queue)" "sd_name s \<noteq> sd_name (hd queue)"
  shows "triple P (run_queue en exec queue) (\<lambda>_ _. False) (\<lambda>_ _. True)"
proof -
  have q: "queue \<noteq> []" using assms(2) select_batch_subset [of queue] by auto
  obtain rest where b: "select_lock_aware_batch queue = hd queue # rest"
    using select_loop_first [of "hd queue" "tl queue"] q by (auto simp: select_batch_eq)
  let ?queue = "filter (\<lambda>s. sd_name s \<notin> sd_name ` set (select_lock_aware_batch queue)) queue"
  have batch: "triple P (execute_step_batch en exec (select_lock_aware_batch queue))
      (\<lambda>r _. \<exists>out. fst r = [(sd_name (hd queue), out)]) (\<lambda>_ _. True)"
    unfolding execute_step_batch_def b using assms(1)
    by (simp only: list.case simp_thms if_True) (rule triple_bindS [OF triple_True], auto intro: triple_returnS)
  have store: "triple (\<lambda>_. \<exists>out. fst r = [(sd_name (hd queue), out)]) (case r of (outs, stop) \<Rightarrow>
      seqS (store_outputs outs (select_lock_aware_batch queue)) (if stop then returnS True else run_queue en exec ?queue))
      (\<lambda>_ _. False) (\<lambda>_ _. True)" for r
  proof (cases "\<exists>out. fst r = [(sd_name (hd queue), out)]")
    case True
    then obtain out stop where r: "r = ([(sd_name (hd queue), out)], stop)" by (cases r) auto
    show ?thesis
      unfolding r prod.case
      by (rule triple_seqS [OF store_outputs_missing [OF assms(2,3)]]) (simp add: triple_def)
  qed (simp add: triple_def)
  show ?thesis
    unfolding run_queue.simps [of en exec queue] Let_def using q
    by (simp only: if_False) (rule triple_bindS [OF batch store])
qed

text \<open>
  a pool of at most one worker cannot run a batch of two steps: whatever the steps
  do, the run of such a queue raises, because the results of the batch hold its first
  step only.
\<close>

theorem single_worker_batch_raises:
  assumes "en_workers en \<le> 1" "step \<in> set (select_lock_aware_batch queue)" "sd_name step \<noteq> sd_name (hd queue)"
  shows "\<exists>e s'. run_queue en exec queue s = (Inl e, s')"
proof (cases "run_queue en exec queue s")
  case (Pair r s')
  with tripleD_Inr [OF single_worker_triple [OF assms, of "\<lambda>_. True" exec] TrueI, of s]
  show ?thesis by (cases r) auto
qed

theorem single_worker_batch_raises_witness:
  "\<exists>e s'. run_queue (sample_engine\<lparr>en_workers := 1\<rparr>) (execute_step silent_env)
     [simple_step ''a'' ''x'', simple_step ''b'' ''x''] sample_es = (Inl e, s')"
  by (rule single_worker_batch_raises [where step = "simple_step ''b'' ''x''"])
    (simp_all add: select_lock_aware_batch_def step_locks_def simple_step_def Let_def)

subsection \<open>Retries and waits\<close>

definition waits :: "engine \<Rightarrow> int \<Rightarrow> int \<Rightarrow> rat list" where
  "waits en n k = filter (\<lambda>r. r > 0) (map (backoff_duration (en_retry en)) [n + 1..k])"

lemma waits_simps [simp]: "waits en n n = []"
  by (simp add: waits_def)

lemma waits_step: "n + 1 \<le> k \<Longrightarrow> waits en n k = waits en n (n + 1) @ waits en (n + 1) k"
  by (simp add: waits_def upto_rec1)

text \<open>The waits between the retry numbers \<open>n\<close> and some \<open>k\<close> have been added to the log.\<close>

definition waited :: "engine \<Rightarrow> step_definition \<Rightarrow> rat list \<Rightarrow> int \<Rightarrow> engine_state \<Rightarrow> bool" where
  "waited en step L n s \<longleftrightarrow>
     (\<exists>k. n \<le> k \<and> k \<le> max n (max_retries en step) \<and> os_slept s = L @ waits en n k)"

lemma waited_none: "os_slept s = L \<Longrightarrow> waited en step L n s"
  unfolding waited_def by (rule exI [of _ n]) simp

lemma waited_more:
  "may_retry en step (n + 1) \<Longrightarrow> waited en step (L @ waits en n (n + 1)) (n + 1) s \<Longrightarrow> waited en step L n s"
  unfolding waited_def
proof (elim exE conjE)
  fix k
  assume "may_retry en step (n + 1)" "n + 1 \<le> k" "k \<le> max (n + 1) (max_retries en step)"
    "os_slept s = (L @ waits en n (n + 1)) @ waits en (n + 1) k"
  with may_retry_bound [of en step "n + 1"] waits_step [of n k en]
  show "\<exists>k\<ge>n. k \<le> max n (max_retries en step) \<and> os_slept s = L @ waits en n k"
    by (intro exI [of _ k]) auto
qed

lemma slept_only:
  "keeps (\<lambda>s. os_slept s = L) (ctxS f)" "keeps (\<lambda>s. os_slept s = L) (tickS g)" "keeps (\<lambda>s. os_slept s = L) (rsS h)"
  "keeps (\<lambda>s. os_slept s = L) (markS n st a)" "keeps (\<lambda>s. os_slept s = L) (emit_checkpoint en status)"
  by (simp_all add: keeps_ctxS keeps_tickS keeps_rsS keeps_markS keeps_emit)

lemma keeps_waited: "keeps (\<lambda>s. os_slept s = L) m \<Longrightarrow>
  triple (\<lambda>s. os_slept s = L) m (\<lambda>_. waited en step L n) (\<lambda>_. waited en step L n)"
  by (erule triple_conseq) (auto intro: waited_none)

lemma halt_continue_slept:
  "keeps (\<lambda>s. os_slept s = L) (halt_step en st out)" "keeps (\<lambda>s. os_slept s = L) (continue_step en step out)"
  "keeps (\<lambda>s. os_slept s = L) (skip_step en step c)" "keeps (\<lambda>s. os_slept s = L) (stop_step en step req)"
  unfolding halt_step_def continue_step_def skip_step_def stop_step_def
  by (intro keeps_rules slept_only)+

context step_runner
begin

lemma exec_slept: "keeps (\<lambda>s. os_slept s = L) (exec step)"
  by (rule exec_keeps) simp_all

lemma retry_loop_waited:
  "triple (\<lambda>s. os_slept s = L) (retry_loop en exec step n) (\<lambda>_. waited en step L n) (\<lambda>_. waited en step L n)"
proof (induction "nat (max_retries en step - n)" arbitrary: n L rule: less_induct)
  case less
  let ?W = "\<lambda>_. waited en step L n"
  have rec: "triple (\<lambda>s. os_slept s = L) (seqS (sleepS (backoff_duration (en_retry en) (n + 1)))
      (retry_loop en exec step (n + 1))) ?W ?W" if m: "may_retry en step (n + 1)"
  proof (rule triple_seqS)
    show "triple (\<lambda>s. os_slept s = L) (sleepS (backoff_duration (en_retry en) (n + 1)))
        (\<lambda>_ s. os_slept s = L @ waits en n (n + 1)) ?W"
      unfolding sleepS_def by (rule triple_modifyS) (simp add: waits_def)
    show "triple (\<lambda>s. os_slept s = L @ waits en n (n + 1)) (retry_loop en exec step (n + 1)) ?W ?W"
      by (rule triple_conseq [OF less(1) [OF may_retry_decreases [OF m]]]) (auto intro: waited_more [OF m])
  qed
  have lift: "triple (\<lambda>s. os_slept s = L) (liftE m) (\<lambda>_ s. os_slept s = L) ?W" for m :: "exn + 'z"
    by (rule triple_liftE) (auto intro: waited_none)
  have fail: "triple (\<lambda>s. os_slept s = L) (bindS (liftE (resolve_policy_action (sd_on_failure step))) (\<lambda>action.
        if action = ActRetry then
          seqS (liftE (bindE (retry_limit_of step) (\<lambda>_. Inr ())))
          (if may_retry en step (n + 1) then
             seqS (sleepS (backoff_duration (en_retry en) (n + 1))) (retry_loop en exec step (n + 1))
           else halt_step en BLOCKED out)
        else if action = ActContinue then continue_step en step out
        else if action = ActBlock then halt_step en BLOCKED out
        else halt_step en FAILED out)) ?W ?W" for out
    by (rule triple_bindS [OF lift]) (intro triple_If triple_seqS [OF lift] rec keeps_waited halt_continue_slept)
  have pre: "triple (\<lambda>s. os_slept s = L) m (\<lambda>_ s. os_slept s = L) ?W" if "keeps (\<lambda>s. os_slept s = L) m"
    for m :: "(engine_state, 'z) st"
    using that by (rule triple_conseq) (auto intro: waited_none)
  have ok: "keeps (\<lambda>s. os_slept s = L) (seqS (rsS advance_index) (seqS (emit_checkpoint en None) (returnS (out, False))))"
    for out :: dict by (intro keeps_rules slept_only)
  show ?case
    unfolding retry_loop.simps [of en exec step n]
    by (rule triple_bindS [OF pre [OF exec_slept]], rule triple_seqS [OF pre [OF slept_only(1)]],
        rule triple_If [OF keeps_waited [OF ok] fail])
qed

lemma policy_waited:
  "triple (\<lambda>s. os_slept s = L \<and> initial_attempt step (os_rs s) = n) (execute_step_with_policy en exec step)
     (\<lambda>_. waited en step L n) (\<lambda>_. waited en step L n)"
  unfolding execute_step_with_policy_def
proof (rule triple_bindS)
  let ?P = "\<lambda>s. os_slept s = L \<and> initial_attempt step (os_rs s) = n"
  let ?W = "\<lambda>_. waited en step L n"
  show "triple ?P (getS (\<lambda>s. case step_condition step of
      Some c \<Rightarrow> if evaluate_loop_condition (en_exec en) c (ec_state (os_ctx s)) then None else Some c
    | None \<Rightarrow> None)) (\<lambda>_. ?P) ?W"
    by (rule triple_getS)
  have weaken: "triple ?P m ?W ?W" if "keeps (\<lambda>s. os_slept s = L) m" for m :: "(engine_state, dict \<times> bool) st"
    by (rule triple_conseq [OF keeps_waited [OF that]]) auto
  have stop: "keeps ?P (stop_requested en)"
    unfolding stop_requested_def by (intro keeps_rules keeps_tickS) simp
  have loop: "triple ?P (bindS (getS (\<lambda>s. initial_attempt step (os_rs s))) (retry_loop en exec step)) ?W ?W"
  proof (rule triple_bindS [where S = "\<lambda>k s. os_slept s = L \<and> k = n"])
    show "triple (\<lambda>s. os_slept s = L \<and> k = n) (retry_loop en exec step k) ?W ?W" for k
      by (cases "k = n") (simp_all add: retry_loop_waited, simp add: triple_def)
  qed (rule triple_getS, simp)
  have stop': "triple ?P (stop_requested en) (\<lambda>_. ?P) ?W"
    by (rule triple_conseq [OF stop]) (auto intro: waited_none)
  show "triple ?P (case unmet of Some c \<Rightarrow> skip_step en step c
    | None \<Rightarrow> bindS (stop_requested en) (\<lambda>stop. case stop of Some req \<Rightarrow> stop_step en step req
    | None \<Rightarrow> bindS (getS (\<lambda>s. initial_attempt step (os_rs s))) (retry_loop en exec step))) ?W ?W" for unmet
    by (rule triple_case_option, rule triple_bindS [OF stop'], rule triple_case_option [OF loop])
      (rule weaken, rule halt_continue_slept)+
qed

end

text \<open>
  however a step under its policy ends, by returning or by raising, the engine has
  waited exactly the back-off times of consecutive retries, from the attempts already
  spent on, and never beyond the retry limit of the step or of the policy.
\<close>

theorem retry_waits_bounded:
  assumes "execute_step_with_policy en (execute_step env) step s = (r, s')"
  shows "\<exists>k \<ge> initial_attempt step (os_rs s).
    k \<le> max (initial_attempt step (os_rs s)) (max_retries en step) \<and>
    os_slept s' = os_slept s @ filter (\<lambda>w. w > 0) (map (backoff_duration (en_retry en)) [initial_attempt step (os_rs s) + 1..k])"
proof -
  note t = step_exec.policy_waited [of "os_slept s" step "initial_attempt step (os_rs s)" en env]
  have "waited en step (os_slept s) (initial_attempt step (os_rs s)) s'"
    using tripleD_Inr [OF t] tripleD_Inl [OF t] assms by (cases r) auto
  then show ?thesis by (auto simp: waited_def waits_def)
qed

theorem retry_waits_bounded_witness:
  "\<exists>k \<ge> 0. k \<le> 2 \<and>
     os_slept (snd (execute_step_with_policy sample_engine (execute_step silent_env)
       ((simple_step ''a'' ''x'')\<lparr>sd_on_failure := PStr ''retry_step'', sd_retry_limit := PInt 2\<rparr>) sample_es))
     = filter (\<lambda>w. w > 0) (map (backoff_duration (mk_retry_policy 1 2)) [1..k])"
proof -
  let ?step = "(simple_step ''a'' ''x'')\<lparr>sd_on_failure := PStr ''retry_step'', sd_retry_limit := PInt 2\<rparr>"
  obtain r s' where r: "execute_step_with_policy sample_engine (execute_step silent_env) ?step sample_es = (r, s')"
    by fastforce
  have "initial_attempt ?step (os_rs sample_es) = 0" "max_retries sample_engine ?step = 2"
    "os_slept sample_es = []" "en_retry sample_engine = mk_retry_policy 1 2"
    by (simp_all add: initial_attempt_def simple_step_def sample_es_def get_step_def run_state_from_steps_def
        new_step_state_def max_retries_def retry_limit_of_def sample_engine_def)
  with retry_waits_bounded [OF r] r show ?thesis by simp
qed

end
