(* ===== verification/EngineEval.thy ===== *)
theory EngineEval
  imports EngineOrder
begin

text \<open>
  Evaluating the engine on concrete runs. The rules run a computation from its state
  step by step, without looking into what comes after; \<open>scripted_env\<close> has one agent that
  succeeds and one that reports a failure. The witnesses of the engine's properties and
  the runs that show its limits are here.
\<close>

subsection \<open>Evaluation\<close>

lemma mapE_Nil: "mapE (\<lambda>p. Inr []) d = Inr (map (\<lambda>_. []) d)"
  by (induction d) simp_all

lemma validate_anything: "validate_against_schema fstr (PDict d) (PDict []) path = Inr []"
  by (simp add: shallow_error_def type_error_def expected_types_def enum_error_def const_error_def type_ok_def dget_def
      required_keys_def dget_or_def property_schemas_def key_rule_of_def mapE_Nil missing_errors_def)

lemma dget_single: "dget [(k, v)] k = v"
  by (simp add: dget_def)


lemma check_lenient:
  "sv_schemas sv = [(pipeline_state_schema_name, PDict [])] \<Longrightarrow> check_pipeline_state fstr sv prefix payload = Inr ()"
  by (simp add: check_pipeline_state_def validate_pipeline_state_def validate_schema_def dget_single
      validate_anything raise_if_strict_def del: validate_against_schema.simps)

lemma sync_eval:
  "sv_schemas (en_state_validator en) = [(pipeline_state_schema_name, PDict [])] \<Longrightarrow>
   sync_and_validate en s =
    (Inr (), s\<lparr>os_ctx := sync_pipeline_state (ee_fstr (en_exec en)) (os_rs s) (os_ctx s)\<rparr>)"
  by (simp add: sync_and_validate_def bindS_def seqS_def modifyS_def getS_def liftE_def check_lenient)

lemma emit_eval:
  "sv_schemas (en_state_validator en) = [(pipeline_state_schema_name, PDict [])] \<Longrightarrow>
   \<not> ec_has_callback (os_ctx s) \<Longrightarrow> emit_checkpoint en st s =
    (Inr (), s\<lparr>os_ctx := sync_pipeline_state (ee_fstr (en_exec en)) (os_rs s) (os_ctx s)\<rparr>)"
  by (simp add: emit_checkpoint_def sync_eval bindS_def seqS_def modifyS_def)

definition agent_report :: "string \<Rightarrow> dict" where
  "agent_report status = [(''status'', PStr status), (''artifacts'', PList []), (''decisions'', PList []),
     (''logs'', PList []), (''next_actions'', PList [])]"

definition scripted_env :: exec_env where
  "scripted_env = silent_env\<lparr>ee_has_agent := (\<lambda>a. a \<in> {''ok'', ''bad''}),
     ee_agent := (\<lambda>a _ _ _. \<lparr>ao_updates = [],
       ao_result = Inr (PDict (agent_report (if a = ''ok'' then ''SUCCESS'' else ''FAILED''))), ao_duration = 0\<rparr>)\<rparr>"

definition scripted_engine :: "int \<Rightarrow> engine" where
  "scripted_engine workers = sample_engine\<lparr>en_exec := scripted_env, en_workers := workers\<rparr>"

lemma process_report:
  "process_output scripted_env n (agent_report ''SUCCESS'') =
     Inr \<lparr>so_output = agent_report ''SUCCESS'', so_status = SUCCESS, so_error = None\<rparr>"
  "process_output scripted_env n (agent_report ''FAILED'') =
     Inr \<lparr>so_output = agent_report ''FAILED'', so_status = FAILED, so_error = None\<rparr>"
  by code_simp+

lemma report_status [simp]: "is_step_success (agent_report st) \<longleftrightarrow> st \<in> {''SUCCESS'', ''PARTIAL_SUCCESS''}"
  by (simp add: is_step_success_def agent_report_def dget_def)

lemma dget_report [simp]: "dget (agent_report st) ''status'' = PStr st"
  by (simp add: agent_report_def dget_def)

lemma scripted_sel [simp]:
  "ee_strict scripted_env" "ee_has_agent scripted_env ''ok''" "ee_has_agent scripted_env ''bad''"
  "ee_agent scripted_env ''ok'' st ov t = \<lparr>ao_updates = [], ao_result = Inr (PDict (agent_report ''SUCCESS'')), ao_duration = 0\<rparr>"
  "ee_agent scripted_env ''bad'' st ov t = \<lparr>ao_updates = [], ao_result = Inr (PDict (agent_report ''FAILED'')), ao_duration = 0\<rparr>"
  "ee_render scripted_env = None"
  "en_exec (scripted_engine w) = scripted_env" "en_workers (scripted_engine w) = w"
  "en_override (scripted_engine w) t r = None" "en_schedule (scripted_engine w) t n = [0..<n]"
  "en_rules (scripted_engine w) = Inr (PDict [])" "en_hook (scripted_engine w) = None" "en_fromiso (scripted_engine w) = (\<lambda>_. None)"
  "sv_schemas (en_state_validator (scripted_engine w)) = [(pipeline_state_schema_name, PDict [])]"
  by (simp_all add: scripted_env_def silent_env_def scripted_engine_def sample_engine_def)

lemma simple_sel [simp]:
  "sd_name (simple_step n a) = n" "sd_agent (simple_step n a) = a" "sd_condition (simple_step n a) = None"
  "sd_on_failure (simple_step n a) = PStr ''stop_pipeline''" "sd_timeout_seconds (simple_step n a) = None"
  "sd_input_mapping (simple_step n a) = []" "sd_output_mapping (simple_step n a) = PNone"
  by (simp_all add: simple_step_def)

lemma attach_report [simp]: "attach_artifact_ids env n h (agent_report st) = agent_report st"
  by (simp add: attach_artifact_ids_def agent_report_def dget_def)

lemma bindS_eval:
  "m s = (Inr x, s') \<Longrightarrow> bindS m f s = f x s'" "m s = (Inl e, s') \<Longrightarrow> bindS m f s = (Inl e, s')"
  "m s = (Inr x, s') \<Longrightarrow> seqS m k s = k s'" "m s = (Inl e, s') \<Longrightarrow> seqS m k s = (Inl e, s')"
  "m s = (Inr x, s') \<Longrightarrow> catchS m h s = (Inr x, s')" "m s = (Inl e, s') \<Longrightarrow> catchS m h s = h e s'"
  by (simp_all add: bindS_simps seqS_def catchS_def)

text \<open>The simplifier turns \<open>False = x\<close> into \<open>\<not> x\<close>, so a truth value is read by rules of its own.\<close>

lemma bindS_eval_bool:
  "m s = (Inr True, s') \<Longrightarrow> bindS m f s = f True s'" "m s = (Inr False, s') \<Longrightarrow> bindS m f s = f False s'"
  by (simp_all add: bindS_simps)

lemma bindS_frozen: "bindS m f s = bindS m f s" "seqS m k s = seqS m k s" "catchS m h s = catchS m h s"
  by (rule refl)+

lemma st_eval:
  "getS f s = (Inr (f s), s)" "tickS g s = (Inr (g (os_tick s)), s\<lparr>os_tick := os_tick s + 1\<rparr>)"
  "modifyS h s = (Inr (), h s)" "liftE m s = (m, s)" "returnS x s = (Inr x, s)" "raiseS e s = (Inl e, s)"
  "ctxS c s = (Inr (), s\<lparr>os_ctx := c (os_ctx s)\<rparr>)" "rsS r s = (Inr (), s\<lparr>os_rs := r (os_rs s)\<rparr>)"
  "tryS mm s = (Inr (fst (mm s)), snd (mm s))"
  by (simp_all add: getS_def tickS_def modifyS_def liftE_def returnS_def raiseS_def ctxS_def rsS_def tryS_def split: prod.splits)

lemma mark_eval: "mark_step_status n st a (os_rs s) = Inr rs \<Longrightarrow> markS n st a s = (Inr (), s\<lparr>os_rs := rs\<rparr>)"
  by (simp add: markS_def updateE_def)

lemmas run_eval = bindS_eval bindS_eval_bool st_eval mark_eval sync_eval emit_eval process_report execute_step_def attempt_step_def run_agent_def
  run_agent_result_def apply_input_mapping_def apply_input_mapping_simple_def apply_mapping_def finish_step_def Let_def
  mark_step_status_def get_step_def ensure_valid_transition_def can_transition_def
  apply_output_mapping_def output_aliases_def mark_step_def execute_step_with_policy_def stop_requested_def
  step_condition_def initial_attempt_def retry_loop.simps resolve_policy_action_def policy_actions_def halt_step_def
  execute_step_batch_def collect_results_def

lemma sample_es_eval [simp]:
  "os_rs sample_es = run_state_from_steps ''r'' ''p'' [(''a'', ''x''), (''b'', ''x'')] None None"
  "os_ctx sample_es = sample_ctx"
  by (simp_all add: sample_es_def)

lemma ctx_sel [simp]: "\<not> ec_has_callback sample_ctx" by (simp add: sample_ctx_def)



definition batch_view :: "(exn + (string \<times> dict) list \<times> bool) \<times> engine_state \<Rightarrow> bool \<times> string \<times> step_status list" where
  "batch_view r = (case r of
     (Inr (outs, stop), s) \<Rightarrow> (stop, derive_final_status (os_rs s) outs, map st_status (rs_steps (os_rs s)))
   | _ \<Rightarrow> (False, [], []))"

lemma masked_view: "batch_view (execute_step_batch (scripted_engine 4) (execute_step scripted_env)
      [simple_step ''a'' ''bad'', simple_step ''b'' ''ok''] sample_es) = (True, ''SUCCESS'', [FAILED, SUCCESS])"
  by (simp add: batch_view_def run_eval run_state_from_steps_def new_step_state_def derive_final_status_def cong: bindS_frozen)

text \<open>The workers of a batch, in the order they are run: each one starts in the state the one
  before has left, and an error of one is kept as its result.\<close>

lemma run_workers_snoc:
  "\<exists>rs t. map fst rs = is \<and> run_workers en exec steps (is @ [i]) s =
     (case execute_step_with_policy en exec (steps ! i) t of (r, t') \<Rightarrow> (Inr (rs @ [(i, r)]), t'))"
proof (induction "is" arbitrary: s)
  case Nil
  show ?case
    by (rule exI [of _ "[]"], rule exI [of _ s])
      (simp add: bindS_def tryS_def returnS_def split: prod.split)
next
  case (Cons j js)
  obtain r1 s1 where 1: "execute_step_with_policy en exec (steps ! j) s = (r1, s1)" by fastforce
  from Cons.IH [of s1] obtain rs t where rs: "map fst rs = js"
    "run_workers en exec steps (js @ [i]) s1 =
       (case execute_step_with_policy en exec (steps ! i) t of (r, t') \<Rightarrow> (Inr (rs @ [(i, r)]), t'))" by blast
  then show ?case
    by (intro exI [of _ "(j, r1) # rs"] exI [of _ t])
      (simp add: 1 bindS_def tryS_def returnS_def split: prod.split)
qed

lemma collect_results_Inr:
  assumes "collect_results results steps = Inr (outs, stop)"
  shows "(\<forall>j < length steps. \<exists>out st. map_of results j = Some (Inr (out, st))) \<and>
    (stop \<longleftrightarrow> (\<exists>j < length steps. \<exists>out. map_of results j = Some (Inr (out, True))))"
proof -
  have "foldE (\<lambda>(i, step) (outs, stop). case map_of results i of
         None \<Rightarrow> Inl (OtherError ''future not done'')
       | Some r \<Rightarrow> bindE r (\<lambda>(out, st). Inr (AList.update (sd_name step) out outs, stop \<or> st)))
       (enumerate k ss) (outs0, stop0) = Inr (outs, stop) \<Longrightarrow>
    (\<forall>j < length ss. \<exists>out st. map_of results (k + j) = Some (Inr (out, st))) \<and>
    (stop \<longleftrightarrow> stop0 \<or> (\<exists>j < length ss. \<exists>out. map_of results (k + j) = Some (Inr (out, True))))"
    for k ss outs0 stop0
  proof (induction ss arbitrary: k outs0 stop0)
    case (Cons s ss)
    from Cons.prems obtain out st where r: "map_of results k = Some (Inr (out, st))"
      and rest: "foldE (\<lambda>(i, step) (outs, stop). case map_of results i of
         None \<Rightarrow> Inl (OtherError ''future not done'')
       | Some r \<Rightarrow> bindE r (\<lambda>(out, st). Inr (AList.update (sd_name step) out outs, stop \<or> st)))
       (enumerate (Suc k) ss) (AList.update (sd_name s) out outs0, stop0 \<or> st) = Inr (outs, stop)"
      by (auto simp: bindE_Inr_iff split: option.splits)
    from Cons.IH [OF rest] r show ?case by (auto simp: less_Suc_eq_0_disj)
  qed simp
  from this [of 0 steps "[]" False] assms show ?thesis by (simp add: collect_results_def)
qed

text \<open>Unlike \<open>policy_triple\<close> this does not need a run that has not failed: only a step its
  condition skips leaves the run status as it was.\<close>

lemma unconditional_policy_end:
  assumes "execute_step_with_policy en (execute_step env) step s = (Inr r, s')" "step_condition step = None"
  shows "policy_end (sd_name step) r (os_rs s')"
proof -
  have run: "triple (\<lambda>s. True) (bindS (stop_requested en) (\<lambda>stop.
      case stop of Some req \<Rightarrow> stop_step en step req
    | None \<Rightarrow> bindS (getS (\<lambda>s. initial_attempt step (os_rs s))) (retry_loop en (execute_step env) step)))
     (\<lambda>r s. policy_end (sd_name step) r (os_rs s)) (\<lambda>_ _. True)"
    by (rule triple_bindS [OF triple_True], rule triple_case_option, rule triple_bindS [OF triple_True],
        rule step_exec.retry_loop_triple, rule stop_triple)
  have "execute_step_with_policy en (execute_step env) step s = (bindS (stop_requested en) (\<lambda>stop.
      case stop of Some req \<Rightarrow> stop_step en step req
    | None \<Rightarrow> bindS (getS (\<lambda>s. initial_attempt step (os_rs s))) (retry_loop en (execute_step env) step))) s"
    by (simp add: execute_step_with_policy_def bindS_def getS_def assms(2))
  with assms(1) tripleD_Inr [OF run TrueI] show ?thesis by metis
qed



text \<open>A run of one step.\<close>

definition one_request :: run_request where
  "one_request = \<lparr>rr_pipeline = example_pipeline\<lparr>pd_loops := [], pd_steps := [simple_step ''a'' ''ok'']\<rparr>,
     rr_run_id = ''r'', rr_inputs = [], rr_metadata = [(''correlation_id'', PStr ''c''), (''trace_id'', PStr ''t''),
     (''root_span_id'', PStr ''s'')], rr_has_callback = False, rr_resume = None, rr_resume_results = []\<rparr>"

lemma simple_sel2 [simp]:
  "sd_resource_locks (simple_step n a) = []" "sd_depends_on (simple_step n a) = []"
  "sd_depends_on_explicit (simple_step n a) = False"
  by (simp_all add: simple_step_def)

lemma one_sel [simp]:
  "pd_steps (rr_pipeline one_request) = [simple_step ''a'' ''ok'']"
  "pd_loops (rr_pipeline one_request) = []" "rr_resume one_request = None"
  "rr_inputs one_request = []" "rr_has_callback one_request = False"
  "pd_pipeline_name (rr_pipeline one_request) = ''p''" "rr_run_id one_request = ''r''"
  by (simp_all add: one_request_def example_pipeline_def)

lemma graph_a: "build_step_dependency_graph [simple_step ''a'' ''ok''] [] = Inr [(''a'', [])]"
  by code_simp

lemma ready_a: "ready_steps [simple_step ''a'' ''ok''] [(''a'', [])] [] = [simple_step ''a'' ''ok'']"
  by (simp add: ready_steps_def deps_of_def steps_by_name_def List.map_filter_simps)

lemma batch_one: "select_lock_aware_batch [s] = [s]"
  by (simp add: select_lock_aware_batch_def)

lemma dget_Cons: "dget ((k, v) # d) k' = (if k = k' then v else dget d k')"
  by (simp add: dget_def)

definition untimed_summary :: "run_state \<Rightarrow> (string \<times> dict) list \<Rightarrow> dict" where
  "untimed_summary rs res = projr (build_summary (\<lambda>_. None) rs res)"

lemma build_summary_eval: "build_summary (\<lambda>_. None) rs res = Inr (untimed_summary rs res)"
proof -
  have "duration_seconds (\<lambda>_. None) a b = Inr 0" for a b
    by (simp add: duration_seconds_def split: option.splits)
  then have "\<exists>acc. foldE (summarize_step (\<lambda>_. None)) steps acc0 = Inr acc" for steps acc0
    by (induction steps arbitrary: acc0) (simp_all add: summarize_step_def Let_def)
  then show ?thesis unfolding untimed_summary_def build_summary_def by (metis bindE_simps(2) sum.sel(2))
qed

definition one_ctx :: exec_context where
  "one_ctx = \<lparr>ec_run_id = ''r'', ec_pipeline_name = ''p'', ec_inputs = [(''rules'', PDict [])], ec_trigger_type = None,
     ec_state = [(''rules'', PDict []), (''__memory_promotion_mode'', PStr ''deferred'')],
     ec_metadata = rr_metadata one_request, ec_has_callback = False, ec_step_results = [],
     ec_pipeline_state = sample_state\<lparr>ps_artifacts :=
       [(''rules'', PDict []), (''__memory_promotion_mode'', PStr ''deferred'')]\<rparr>\<rparr>"

definition one_start :: run_start where
  "one_start = \<lparr>rn_state = \<lparr>os_ctx = one_ctx,
       os_rs = run_state_from_steps ''r'' ''p'' [(''a'', ''ok'')] (Some ''c'') (Some ''t''),
       os_tick = 1, os_slept = [], os_checkpoints = [], es_results = []\<rparr>, rn_index = 0, rn_correlation = ''c'',
     rn_trace = ''t'', rn_root_span = ''s''\<rparr>"

lemma prepare_one: "prepare_run (scripted_engine 1) one_request = Inr one_start"
  by code_simp

lemma one_ctx_sel [simp]:
  "\<not> ec_has_callback one_ctx" 
  by (simp_all add: one_ctx_def)

definition run_view :: "(exn + dict) \<times> engine_state \<Rightarrow> pyval" where
  "run_view r = (case r of (Inr d, s) \<Rightarrow> dget d ''status'' | _ \<Rightarrow> PNone)"


definition one_es :: engine_state where
  "one_es = \<lparr>os_ctx = sync_pipeline_state (ee_fstr scripted_env)
         (run_state_from_steps ''r'' ''p'' [(''a'', ''ok'')] (Some ''c'') (Some ''t'')) one_ctx,
       os_rs = run_state_from_steps ''r'' ''p'' [(''a'', ''ok'')] (Some ''c'') (Some ''t''),
       os_tick = 1, os_slept = [], os_checkpoints = [], es_results = []\<rparr>"
lemmas one_eval = finish_run_def fresh_steps_def graph_a ready_a batch_one build_summary_eval
     run_eval run_state_from_steps_def new_step_state_def execute_with_parallelism_def run_ready.simps run_queue.simps
     store_outputs_def updateE_def trigger_memory_hook_def trigger_memory_promotion_def one_es_def

definition queue_view :: "(exn + bool) \<times> engine_state \<Rightarrow> (bool \<times> (string \<times> dict) list \<times> string \<times> bool) option" where
  "queue_view r = (case r of
     (Inr b, s) \<Rightarrow> Some (b, es_results s, rs_run_status (os_rs s), ec_has_callback (os_ctx s)) | _ \<Rightarrow> None)"

lemma one_queue_view: "queue_view (run_queue (scripted_engine 1) (execute_step scripted_env) [simple_step ''a'' ''ok''] one_es)
    = Some (False, [(''a'', agent_report ''SUCCESS'')], ''RUNNING'', False)"
  by (simp add: one_eval queue_view_def cong: bindS_frozen)

lemma one_fresh: "\<exists>s'. fresh_steps (scripted_engine 1) (execute_step scripted_env) (rr_pipeline one_request)
     [simple_step ''a'' ''ok''] one_es = (Inr False, s') \<and>
   es_results s' = [(''a'', agent_report ''SUCCESS'')] \<and> rs_run_status (os_rs s') = ''RUNNING'' \<and> \<not> ec_has_callback (os_ctx s')"
proof -
  obtain s where s: "run_queue (scripted_engine 1) (execute_step scripted_env) [simple_step ''a'' ''ok''] one_es = (Inr False, s)"
    "es_results s = [(''a'', agent_report ''SUCCESS'')]" "rs_run_status (os_rs s) = ''RUNNING''" "\<not> ec_has_callback (os_ctx s)"
    using one_queue_view by (auto simp: queue_view_def split: prod.splits sum.splits)
  show ?thesis
    by (simp add: fresh_steps_def execute_with_parallelism_def bindS_eval bindS_eval_bool st_eval graph_a ready_a run_ready.simps s Let_def
        trigger_memory_hook_def cong: bindS_frozen)
qed

theorem serial_run_status_honest_witness:
  "\<exists>d s. run_pipeline (scripted_engine 1) one_request = (Inr d, Some s) \<and> dget d ''status'' = PStr ''SUCCESS'' \<and>
     passed ''a'' (os_rs s)"
proof -
  obtain s where s: "fresh_steps (scripted_engine 1) (execute_step scripted_env) (rr_pipeline one_request)
     [simple_step ''a'' ''ok''] one_es = (Inr False, s)" "es_results s = [(''a'', agent_report ''SUCCESS'')]"
     "rs_run_status (os_rs s) = ''RUNNING''" "\<not> ec_has_callback (os_ctx s)"
    using one_fresh by blast
  have "sync_and_validate (scripted_engine 1) (rn_state one_start) = (Inr (), one_es)" "rn_index one_start = 0"
    by (simp_all add: sync_eval one_start_def one_es_def)
  then have "\<exists>d s. run_pipeline (scripted_engine 1) one_request = (Inr d, Some s) \<and> dget d ''status'' = PStr ''SUCCESS''"
    by (simp add: run_pipeline_def prepare_one run_body_def finish_run_def bindS_eval bindS_eval_bool st_eval s emit_eval Let_def
        derive_final_status_def trigger_memory_promotion_def build_summary_eval dget_Cons cong: bindS_frozen)
  then obtain d s where r: "run_pipeline (scripted_engine 1) one_request = (Inr d, Some s)" "dget d ''status'' = PStr ''SUCCESS''"
    by blast
  moreover have "serial (scripted_engine 1) (pd_steps (rr_pipeline one_request))" by (simp add: serial_def)
  ultimately show ?thesis using serial_run_status_honest [OF r(1)] by auto
qed

end
