(* ===== verification/Progress.thy ===== *)
theory Progress
  imports PipelineCheck EngineEval
begin

text \<open>
  The validators of \<open>PipelineCheck\<close> and the engine's own resolution of dependencies. The
  engine never gets stuck on an acyclic graph and only finishes on one, but its graph has
  more edges than the ones the validators check: a step without explicit dependencies
  waits for the step before it.
\<close>

lemma deps_of_neighbours: "deps_of = neighbours"
  by (simp add: fun_eq_iff deps_of_def neighbours_def)

lemma engine_edges_in_steps:
  assumes "build_step_dependency_graph steps ext = Inr g" "(n, d) \<in> edges g"
  shows "n \<in> sd_name ` set steps \<and> d \<in> sd_name ` set steps"
proof -
  obtain prods where p: "foldE claim_aliases steps [] = Inr prods"
    and e: "\<And>n. set (deps_of g n) = edges_from (map sd_name steps) prods None steps n"
    and k: "fst ` set g \<subseteq> sd_name ` set steps"
    using build_graph_Inr [OF assms(1)] by metis
  have "edges_from (map sd_name steps) prods None steps n \<subseteq> sd_name ` set steps"
    using edges_from_subset [of prods "map sd_name steps" None steps n] producers_are_steps [OF p] by simp
  moreover have "n \<in> fst ` set g" "d \<in> set (deps_of g n)"
    using assms(2) by (auto simp: edges_def deps_of_neighbours dest: neighbours_source)
  ultimately show ?thesis using e [of n] k by blast
qed

lemma ready_steps_set:
  "set (map sd_name (ready_steps steps g executed)) =
     {n \<in> sd_name ` set steps. n \<notin> set executed \<and> set (deps_of g n) \<subseteq> set executed}"
proof -
  have "n \<in> set (map sd_name (ready_steps steps g executed))"
    if n: "n \<in> sd_name ` set steps" "n \<notin> set executed" "set (deps_of g n) \<subseteq> set executed" for n
  proof -
    obtain s where s: "steps_by_name steps n = Some s" "sd_name s = n"
      using steps_by_name_total [OF n(1)] steps_by_name_Some by blast
    have "s \<in> set (ready_steps steps g executed)"
      unfolding ready_steps_def set_map_filter_option using n s by auto
    then show ?thesis using s(2) by auto
  qed
  moreover have "n \<in> sd_name ` set steps \<and> n \<notin> set executed \<and> set (deps_of g n) \<subseteq> set executed"
    if "n \<in> set (map sd_name (ready_steps steps g executed))" for n
    using that by (auto dest!: in_ready_steps)
  ultimately show ?thesis by blast
qed

text \<open>With an acyclic dependency graph the engine is never stuck: as long as a step has
  not run, some step is ready.\<close>

theorem graph_progress:
  assumes "build_step_dependency_graph steps ext = Inr g" "acyclic (edges g)"
    and "n \<in> sd_name ` set steps" "n \<notin> set executed"
  shows "ready_steps steps g executed \<noteq> []"
proof -
  have "wf ((edges g)\<inverse>)" using assms(2) by (simp add: finite_acyclic_wf_converse)
  then obtain m where m: "m \<in> sd_name ` set steps - set executed"
    and min: "\<And>d. (m, d) \<in> edges g \<Longrightarrow> d \<notin> sd_name ` set steps - set executed"
    using wfE_min [of "(edges g)\<inverse>" n "sd_name ` set steps - set executed"] assms(3, 4) by auto
  have "set (deps_of g m) \<subseteq> set executed"
  proof
    fix d assume "d \<in> set (deps_of g m)"
    then have e: "(m, d) \<in> edges g" by (simp add: edges_def deps_of_neighbours)
    show "d \<in> set executed" using engine_edges_in_steps [OF assms(1) e] min [OF e] by blast
  qed
  with m have "m \<in> set (map sd_name (ready_steps steps g executed))" unfolding ready_steps_set by blast
  then show ?thesis by auto
qed

definition reading_pair :: "step_definition list" where
  "reading_pair = [reads_step ''a'' ''spec'' ''x'', reads_step ''b'' ''code'' ''spec.text'']"

lemma reading_pair_graph: "build_step_dependency_graph reading_pair [] = Inr [(''a'', []), (''b'', [''a''])]"
  unfolding reading_pair_def by code_simp

theorem graph_progress_witness:
  "ready_steps reading_pair [(''a'', []), (''b'', [''a''])] [''a''] \<noteq> []"
proof (rule graph_progress [OF reading_pair_graph, of "''b''"])
  have "edges [(''a'', []), (''b'', [''a''])] = {(''b'', ''a'')}"
    by (auto simp: edges_def neighbours_def split: if_splits)
  then show "acyclic (edges [(''a'', []), (''b'', [''a''])])" by (auto simp: acyclic_def trancl_insert)
qed (simp_all add: reading_pair_def reads_step_def)

text \<open>A run that comes to its end has put the steps in an order that its graph allows.\<close>

lemma ready_steps_distinct:
  assumes "distinct (map sd_name steps)"
  shows "distinct (map sd_name (ready_steps steps g executed))"
proof -
  have "map sd_name (List.map_filter (\<lambda>n. if P n then steps_by_name steps n else None) ns)
      = filter P ns" if "set ns \<subseteq> sd_name ` set steps" for P ns
    using that
  proof (induction ns)
    case (Cons n ns)
    then obtain s where "steps_by_name steps n = Some s" "sd_name s = n"
      using steps_by_name_total [of n steps] steps_by_name_Some by auto
    with Cons show ?case by (auto simp: List.map_filter_simps)
  qed (simp add: List.map_filter_simps)
  from this [of "map sd_name steps"] assms show ?thesis unfolding ready_steps_def by simp
qed

lemma ranked_layer:
  assumes "ranked r done" "distinct new" "set new \<inter> set done = {}"
    and "\<And>n m. n \<in> set new \<Longrightarrow> (n, m) \<in> r \<Longrightarrow> m \<in> set done"
  shows "ranked r (new @ done)"
  using assms(2-4) by (induction new) (auto simp: assms(1))

lemma run_ready_ranked:
  assumes "run_ready en exec steps g executed s = (Inr False, s')"
    and "distinct (map sd_name steps)" "set executed \<subseteq> sd_name ` set steps" "ranked (edges g) (rev executed)"
  shows "\<exists>order. set order = sd_name ` set steps \<and> ranked (edges g) order"
  using assms
proof (induction en exec steps g executed arbitrary: s rule: run_ready.induct)
  case (1 en exec steps g executed)
  show ?case
  proof (cases "length (remdups executed) \<ge> length steps")
    case True
    have "card (sd_name ` set steps) \<le> card (set executed)"
      using True "1.prems"(2) by (metis card_image_le distinct_card length_map length_remdups_card_conv list.set_map)
    then have "set executed = sd_name ` set steps"
      using "1.prems"(3) by (intro card_seteq) auto
    with "1.prems"(4) show ?thesis by (intro exI [of _ "rev executed"]) simp
  next
    case False
    let ?ready = "ready_steps steps g executed"
    have r: "?ready \<noteq> []" using "1.prems"(1) False by (auto simp: run_ready.simps [of en exec] raiseS_def)
    obtain s1 where q: "run_queue en exec ?ready s = (Inr False, s1)"
      and rest: "run_ready en exec steps g (executed @ map sd_name ?ready) s1 = (Inr False, s')"
      using "1.prems"(1) False r
      by (auto simp: run_ready.simps [of en exec] Let_def bindS_def returnS_def split: prod.splits sum.splits if_splits)
    have "ranked (edges g) (rev (executed @ map sd_name ?ready))"
      unfolding rev_append
    proof (rule ranked_layer [OF "1.prems"(4)])
      show "distinct (rev (map sd_name ?ready))" using ready_steps_distinct [OF "1.prems"(2)] by simp
      show "set (rev (map sd_name ?ready)) \<inter> set (rev executed) = {}"
        using ready_steps_set [of steps g executed] by auto
      show "m \<in> set (rev executed)" if "n \<in> set (rev (map sd_name ?ready))" "(n, m) \<in> edges g" for n m
        using that ready_steps_set [of steps g executed] by (auto simp: edges_def deps_of_neighbours)
    qed
    moreover have "set (executed @ map sd_name ?ready) \<subseteq> sd_name ` set steps"
      using "1.prems"(3) ready_steps_set [of steps g executed] by auto
    ultimately show ?thesis
      using "1.IH" [OF False refl r, of False, OF _ rest "1.prems"(2)] by simp
  qed
qed

text \<open>The engine only runs all steps of a pipeline to the end when its dependency graph
  has no cycle.\<close>

theorem completed_run_acyclic:
  assumes "build_step_dependency_graph steps ext = Inr g" "distinct (map sd_name steps)"
    and "execute_with_parallelism en exec steps ext s = (Inr False, s')"
  shows "acyclic (edges g)"
proof -
  have "run_ready en exec steps g [] s = (Inr False, s')"
    using assms(1, 3) by (simp add: execute_with_parallelism_def bindS_def liftE_def)
  from run_ready_ranked [OF this assms(2)] obtain order
    where o: "set order = sd_name ` set steps" "ranked (edges g) order" by auto
  moreover have "Domain (edges g) \<subseteq> sd_name ` set steps"
    using engine_edges_in_steps [OF assms(1)] by blast
  ultimately show ?thesis by (intro ranked_acyclic [of "edges g" order]) simp_all
qed

theorem completed_run_acyclic_witness: "acyclic (edges [(''a'', [])])"
proof -
  obtain s where s: "run_queue (scripted_engine 1) (execute_step scripted_env) [simple_step ''a'' ''ok''] one_es = (Inr False, s)"
    using one_queue_view by (auto simp: queue_view_def split: prod.splits sum.splits)
  then have "execute_with_parallelism (scripted_engine 1) (execute_step scripted_env) [simple_step ''a'' ''ok''] [] one_es
      = (Inr False, s)"
    by (simp add: execute_with_parallelism_def bindS_eval bindS_eval_bool st_eval graph_a ready_a run_ready.simps Let_def
        cong: bindS_frozen)
  from completed_run_acyclic [OF graph_a _ this] show ?thesis by simp
qed

text \<open>
  The edges that close a cycle when a step reads what a later step makes: one to the
  maker of the alias, whom no other step may be, and from there back along the steps that
  do not list their dependencies.
\<close>

lemma claim_alias_keeps:
  "claim_alias n a d = Inr d' \<Longrightarrow> map_of d k = Some m \<Longrightarrow> map_of d' k = Some m"
  by (auto simp: claim_alias_def update_conv' split: option.splits if_splits)

lemma claim_all_keeps:
  assumes "foldE (claim_alias n) as d = Inr d'" "map_of d k = Some m"
  shows "map_of d' k = Some m"
  by (rule foldE_inv [OF assms(1), where P = "\<lambda>d. map_of d k = Some m"]) (use assms(2) claim_alias_keeps in auto)

lemma claim_aliases_keeps:
  assumes "claim_aliases s d = Inr d'" "map_of d k = Some m"
  shows "map_of d' k = Some m"
  by (rule claim_all_keeps [OF assms(1) [unfolded claim_aliases_def]]) (use assms(2) in \<open>auto simp: update_conv'\<close>)

lemma claim_all_claims:
  "foldE (claim_alias n) as d = Inr d' \<Longrightarrow> a \<in> set as \<Longrightarrow> map_of d' a = Some n"
proof (induction as arbitrary: d)
  case (Cons b as)
  then obtain d1 where d1: "claim_alias n b d = Inr d1" "foldE (claim_alias n) as d1 = Inr d'"
    by (auto simp: returns_iff)
  show ?case
  proof (cases "a = b")
    case True
    with d1(1) have "map_of d1 a = Some n" by (auto dest: claim_alias_Inr)
    with claim_all_keeps [OF d1(2)] show ?thesis by blast
  qed (use Cons d1 in auto)
qed simp

lemma alias_maker:
  assumes "foldE claim_aliases (pre @ t # post) d = Inr prods" "a \<in> set (extract_output_aliases (sd_output_mapping t))"
  shows "map_of prods a = Some (sd_name t)"
proof -
  obtain d1 d2 where "claim_aliases t d1 = Inr d2" and post: "foldE claim_aliases post d2 = Inr prods"
    using assms(1) by (auto simp: foldE_append returns_iff)
  then have "map_of d2 a = Some (sd_name t)"
    using assms(2) unfolding claim_aliases_def by (blast intro: claim_all_claims)
  then show ?thesis
    by (intro foldE_inv [OF post, where P = "\<lambda>d. map_of d a = Some (sd_name t)"]) (use claim_aliases_keeps in auto)
qed

lemma implicit_edge:
  "\<not> sd_depends_on_explicit b \<Longrightarrow>
   sd_name a \<in> edges_from names prods prev (pre @ a # b # post) (sd_name b)"
  by (induction pre arbitrary: prev) (auto simp: step_edges_def)

lemma placeholder_edge:
  assumes "ph \<in> set (par_extract_placeholders (PDict (sd_input_mapping s)))" "par_root_key ph \<noteq> []"
    and "map_of prods (par_root_key ph) = Some q" "q \<noteq> sd_name s"
  shows "q \<in> edges_from names prods prev (pre @ s # post) (sd_name s)"
proof (induction pre arbitrary: prev)
  case Nil
  from assms have "q \<in> step_edges names prods prev s" unfolding step_edges_def by blast
  then show ?case by simp
qed simp

lemma implicit_chain:
  assumes "\<And>a b us vs. steps = us @ a # b # vs \<Longrightarrow> \<not> sd_depends_on_explicit b \<Longrightarrow> (sd_name b, sd_name a) \<in> r"
    and "steps = pre @ s # us @ [t] @ post" "\<forall>u \<in> set (us @ [t]). \<not> sd_depends_on_explicit u"
  shows "(sd_name t, sd_name s) \<in> r\<^sup>+"
  using assms(2,3)
proof (induction us arbitrary: pre s)
  case Nil
  then show ?case using assms(1) [of pre s t post] by auto
next
  case (Cons u us)
  have "(sd_name t, sd_name u) \<in> r\<^sup>+" using Cons.IH [of "pre @ [s]" u] Cons.prems by simp
  moreover have "(sd_name u, sd_name s) \<in> r" using assms(1) [of pre s u "us @ [t] @ post"] Cons.prems by simp
  ultimately show ?case by (rule trancl_into_trancl)
qed

lemma reading_ahead_cyclic:
  assumes g: "build_step_dependency_graph steps ext = Inr g"
    and steps: "steps = pre @ s # mid @ t # post" and dist: "sd_name s \<noteq> sd_name t"
    and ph: "ph \<in> set (par_extract_placeholders (PDict (sd_input_mapping s)))"
    and made: "par_root_key ph \<in> set (extract_output_aliases (sd_output_mapping t))"
    and implicit: "\<forall>u \<in> set (mid @ [t]). \<not> sd_depends_on_explicit u"
  shows "(sd_name s, sd_name s) \<in> (edges g)\<^sup>+"
proof -
  obtain prods where p: "foldE claim_aliases steps [] = Inr prods"
    and e: "\<And>n. set (deps_of g n) = edges_from (map sd_name steps) prods None steps n"
    using build_graph_Inr [OF g] by metis
  have edge: "(n, d) \<in> edges g \<longleftrightarrow> d \<in> edges_from (map sd_name steps) prods None steps n" for n d
    using e [of n] by (simp add: edges_def deps_of_neighbours)
  have "map_of prods (par_root_key ph) = Some (sd_name t)"
    using alias_maker [of "pre @ s # mid" t post "[]" prods] p made by (simp add: steps)
  moreover have "par_root_key ph \<noteq> []" using made by (auto simp: extract_output_aliases_def)
  ultimately have "(sd_name s, sd_name t) \<in> edges g"
    unfolding edge using placeholder_edge [OF ph] dist steps by simp
  moreover have "(sd_name t, sd_name s) \<in> (edges g)\<^sup>+"
  proof (rule implicit_chain [of steps])
    show "(sd_name b, sd_name a) \<in> edges g" if "steps = us @ a # b # vs" "\<not> sd_depends_on_explicit b" for a b us vs
      unfolding edge unfolding that(1) using implicit_edge [OF that(2)] by simp
    show "steps = pre @ s # mid @ [t] @ post" using steps by simp
    show "\<forall>u \<in> set (mid @ [t]). \<not> sd_depends_on_explicit u" by (fact implicit)
  qed
  ultimately show ?thesis by (rule trancl_into_trancl2)
qed

text \<open>
  Two steps that both validators accept: the first reads what the second produces. The
  engine adds the edge from the second to the first, so neither can ever start.
\<close>

definition reads_later :: "string \<Rightarrow> step_definition list" where
  "reads_later agent =
     [(simple_step ''a'' agent)\<lparr>sd_input_mapping := [(''i'', PStr ''{{made.text}}'')]\<rparr>,
      (simple_step ''b'' agent)\<lparr>sd_output_mapping := PDict [(''o'', PStr ''{{made}}'')]\<rparr>]"

lemma reads_later_messages:
  "validation_messages has_agent (steps_pipeline (reads_later agent)) = [] \<longleftrightarrow> has_agent agent"
proof -
  let ?p = "steps_pipeline (reads_later agent)"
  have g: "build_dependency_graph ?p = [(''a'', [''b'']), (''b'', [])]"
    and u: "validate_step_uniqueness ?p = []" and c: "validate_contract_compatibility ?p = []"
    unfolding reads_later_def by code_simp+
  have "detect_cycles [(''a'', [''b'']), (''b'', [])] = []" by code_simp
  then have "validate_dag_structure ?p = []"
    by (simp add: validate_dag_structure_def g) (simp add: reads_later_def)
  with u c show ?thesis
    by (simp add: validation_messages_def validate_agent_existence_def) (simp add: reads_later_def)
qed

lemma reads_later_check:
  "check_definition ar (steps_pipeline (reads_later agent)) = Inr () \<longleftrightarrow> agent_exists agent ar"
proof -
  let ?p = "steps_pipeline (reads_later agent)"
  have u: "validate_unique_steps ?p = Inr ()" and d: "validate_dependencies_exist (index_steps ?p) ?p = Inr ()"
    and g: "build_graph ?p = Inr ([(''a'', []), (''b'', [])], [(''a'', 0), (''b'', 0)])"
    unfolding reads_later_def by code_simp+
  have k: "kahn_run [(''a'', []), (''b'', [])] [(''a'', 0), (''b'', 0)] [''a'', ''b''] 0 = Inr 2"
    by (simp add: kahn_run.simps)
  have "extract_placeholders (PStr ''{{made.text}}'') = [''made.text'']"
    and "contract_clash ''i'' ''made.text'' = None" by code_simp+
  then have "validate_contracts ar by_name ?p = Inr ()" for by_name
    by (simp add: validate_contracts_def reads_later_def validate_step_contracts_def eachE_def check_input_contract_def)
  moreover have "validate_agents_exist ar ?p = Inr () \<longleftrightarrow> agent_exists agent ar"
    by (simp add: validate_agents_exist_def reads_later_def split: option.split)
  ultimately show ?thesis
    by (simp add: check_definition_def u d g k validate_dag_def returns_iff)
qed

text \<open>C14: When a step reads an output alias that a later step makes, and neither that step
  nor the ones between list their dependencies, the engine's dependency graph has a cycle
  through the reading step, and running the steps of a fresh run never comes to its end,
  whatever the engine's settings, the agents and the state: it raises, or a step that
  failed stops it before. Both validators accept such a pipeline, as the witness shows:
  neither looks at the order of the steps.\<close>

theorem reading_ahead_never_completes:
  assumes "steps = pre @ s # mid @ t # post" "distinct (map sd_name steps)"
    and "ph \<in> set (par_extract_placeholders (PDict (sd_input_mapping s)))"
    and "par_root_key ph \<in> set (extract_output_aliases (sd_output_mapping t))"
    and "\<forall>u \<in> set (mid @ [t]). \<not> sd_depends_on_explicit u"
  shows "fst (execute_with_parallelism en exec steps ext st) \<noteq> Inr False \<and>
    (case build_step_dependency_graph steps ext of
       Inl e \<Rightarrow> execute_with_parallelism en exec steps ext st = (Inl e, st)
     | Inr g \<Rightarrow> (sd_name s, sd_name s) \<in> (edges g)\<^sup>+)"
proof (cases "build_step_dependency_graph steps ext")
  case (Inl e)
  then show ?thesis by (simp add: execute_with_parallelism_def bindS_def liftE_def)
next
  case (Inr g)
  have "sd_name s \<noteq> sd_name t" using assms(1,2) by auto
  from reading_ahead_cyclic [OF Inr assms(1) this assms(3-5)]
  have "(sd_name s, sd_name s) \<in> (edges g)\<^sup>+" .
  moreover from this have "\<not> acyclic (edges g)" by (auto simp: acyclic_def)
  then have "fst (execute_with_parallelism en exec steps ext st) \<noteq> Inr False"
    using completed_run_acyclic [OF Inr assms(2)] by (metis prod.collapse)
  ultimately show ?thesis using Inr by simp
qed

theorem reading_ahead_never_completes_witness:
  "\<forall>has_agent ar agent en exec st.
     (pipeline_validate has_agent (steps_pipeline (reads_later agent)) = Inr [] \<longleftrightarrow> has_agent agent) \<and>
     (check_definition ar (steps_pipeline (reads_later agent)) = Inr () \<longleftrightarrow> agent_exists agent ar) \<and>
     fst (execute_with_parallelism en exec (reads_later agent) [] st) \<noteq> Inr False"
proof (intro allI conjI)
  fix has_agent ar agent en exec st
  show "pipeline_validate has_agent (steps_pipeline (reads_later agent)) = Inr [] \<longleftrightarrow> has_agent agent"
    by (simp add: pipeline_validate_def Let_def reads_later_messages)
  show "check_definition ar (steps_pipeline (reads_later agent)) = Inr () \<longleftrightarrow> agent_exists agent ar"
    by (rule reads_later_check)
  have "par_extract_placeholders (PDict [(''i'', PStr ''{{made.text}}'')]) = [''made.text'']"
    "par_root_key ''made.text'' = ''made''" "extract_output_aliases (PDict [(''o'', PStr ''{{made}}'')]) = [''made'']"
    by code_simp+
  then show "fst (execute_with_parallelism en exec (reads_later agent) [] st) \<noteq> Inr False"
    using reading_ahead_never_completes [of "reads_later agent" "[]" "reads_later agent ! 0" "[]" "reads_later agent ! 1" "[]" "''made.text''"]
    by (simp add: reads_later_def simple_step_def)
qed

end
