(* ===== verification/CircuitBreaker.thy ===== *)
theory CircuitBreaker
  imports Prelude
begin

text \<open>
  \<open>observability/circuit_breaker.py\<close>. A call is admitted under the lock and its outcome
  is recorded when the function returns, so calls of several threads interleave: the step
  relation \<open>breaker_step\<close> has admissions and recordings as its steps and counts the calls
  in flight. The recordings run without the lock and are taken as single steps. Times are
  arguments; logging is left out.
\<close>

subsection \<open>State\<close>

datatype circuit_state = CLOSED | OPEN | HALF_OPEN

record breaker_config =
  bc_failure_threshold :: int
  bc_success_threshold :: int
  bc_timeout_seconds :: rat
  bc_half_open_max_calls :: int

definition default_breaker_config :: breaker_config where
  "default_breaker_config = \<lparr>bc_failure_threshold = 5, bc_success_threshold = 2,
     bc_timeout_seconds = 60, bc_half_open_max_calls = 3\<rparr>"

record breaker_stats =
  bs_total_calls :: int
  bs_successful_calls :: int
  bs_failed_calls :: int
  bs_rejected_calls :: int
  bs_state :: circuit_state
  bs_last_failure_time :: "rat option"
  bs_last_success_time :: "rat option"

definition fresh_stats :: breaker_stats where
  "fresh_stats = \<lparr>bs_total_calls = 0, bs_successful_calls = 0, bs_failed_calls = 0,
     bs_rejected_calls = 0, bs_state = CLOSED, bs_last_failure_time = None, bs_last_success_time = None\<rparr>"

record breaker =
  cb_name :: string
  cb_config :: breaker_config
  cb_stats :: breaker_stats
  cb_failure_count :: int
  cb_success_count :: int
  cb_last_change :: rat

definition new_breaker :: "rat \<Rightarrow> string \<Rightarrow> breaker_config option \<Rightarrow> breaker" where
  "new_breaker now name cfg =
     \<lparr>cb_name = name, cb_config = (case cfg of None \<Rightarrow> default_breaker_config | Some c \<Rightarrow> c),
      cb_stats = fresh_stats, cb_failure_count = 0, cb_success_count = 0, cb_last_change = now\<rparr>"

abbreviation cb_state :: "breaker \<Rightarrow> circuit_state" where
  "cb_state b \<equiv> bs_state (cb_stats b)"

abbreviation set_state :: "circuit_state \<Rightarrow> breaker \<Rightarrow> breaker" where
  "set_state s b \<equiv> b\<lparr>cb_stats := cb_stats b\<lparr>bs_state := s\<rparr>\<rparr>"

subsection \<open>Operations\<close>

definition check_state_transition :: "rat \<Rightarrow> breaker \<Rightarrow> breaker" where
  "check_state_transition now b =
     (if cb_state b = OPEN \<and> now - cb_last_change b \<ge> bc_timeout_seconds (cb_config b)
      then (set_state HALF_OPEN b)\<lparr>cb_last_change := now, cb_failure_count := 0\<rparr>
      else b)"

definition read_state :: "rat \<Rightarrow> breaker \<Rightarrow> circuit_state \<times> breaker" where
  "read_state now b = (let b' = check_state_transition now b in (cb_state b', b'))"

definition record_success :: "rat \<Rightarrow> breaker \<Rightarrow> breaker" where
  "record_success now b =
     (let st = cb_stats b;
          b1 = b\<lparr>cb_stats := st\<lparr>bs_successful_calls := bs_successful_calls st + 1, bs_last_success_time := Some now\<rparr>,
                 cb_failure_count := 0\<rparr>
      in if cb_state b1 = HALF_OPEN then
           (let b2 = b1\<lparr>cb_success_count := cb_success_count b1 + 1\<rparr> in
            if cb_success_count b2 \<ge> bc_success_threshold (cb_config b2)
            then (set_state CLOSED b2)\<lparr>cb_last_change := now, cb_success_count := 0\<rparr> else b2)
         else b1)"

definition record_failure :: "rat \<Rightarrow> breaker \<Rightarrow> breaker" where
  "record_failure now b =
     (let st = cb_stats b;
          b1 = b\<lparr>cb_stats := st\<lparr>bs_failed_calls := bs_failed_calls st + 1, bs_last_failure_time := Some now\<rparr>,
                 cb_failure_count := cb_failure_count b + 1\<rparr>
      in if cb_state b1 = HALF_OPEN then (set_state OPEN b1)\<lparr>cb_last_change := now, cb_success_count := 0\<rparr>
         else if cb_state b1 = CLOSED \<and> cb_failure_count b1 \<ge> bc_failure_threshold (cb_config b1)
         then (set_state OPEN b1)\<lparr>cb_last_change := now\<rparr>
         else b1)"

abbreviation reject :: "breaker \<Rightarrow> breaker" where
  "reject b \<equiv> b\<lparr>cb_stats := cb_stats b\<lparr>bs_rejected_calls := bs_rejected_calls (cb_stats b) + 1\<rparr>\<rparr>"

abbreviation count_call :: "breaker \<Rightarrow> breaker" where
  "count_call b \<equiv> b\<lparr>cb_stats := cb_stats b\<lparr>bs_total_calls := bs_total_calls (cb_stats b) + 1\<rparr>\<rparr>"

text \<open>The part of \<open>call\<close> under the lock: admission, or an exception.\<close>

definition admit :: "rat \<Rightarrow> breaker \<Rightarrow> (exn + unit) \<times> breaker" where
  "admit now b =
     (let b2 = count_call (check_state_transition now b)
      in if cb_state b2 = OPEN
         then (Inl (CircuitBreakerOpenError (''Circuit '' @ cb_name b2 @ '' is OPEN, call rejected'')), reject b2)
         else if cb_state b2 = HALF_OPEN \<and> cb_success_count b2 \<ge> bc_half_open_max_calls (cb_config b2)
         then (Inl (CircuitBreakerOpenError (''Circuit '' @ cb_name b2 @ '' is HALF_OPEN, max calls reached'')), reject b2)
         else (Inr (), b2))"

text \<open>A call on its own: admitted at \<open>now\<close>, the function returns or raises at \<open>later\<close>.\<close>

definition breaker_call :: "rat \<Rightarrow> rat \<Rightarrow> exn + 'a \<Rightarrow> breaker \<Rightarrow> (exn + 'a) \<times> breaker" where
  "breaker_call now later outcome b =
     (case admit now b of
        (Inl e, b1) \<Rightarrow> (Inl e, b1)
      | (Inr _, b1) \<Rightarrow>
          (case outcome of Inr r \<Rightarrow> (Inr r, record_success later b1) | Inl e \<Rightarrow> (Inl e, record_failure later b1)))"

definition reset_breaker :: "rat \<Rightarrow> breaker \<Rightarrow> breaker" where
  "reset_breaker now b =
     b\<lparr>cb_stats := fresh_stats, cb_failure_count := 0, cb_success_count := 0, cb_last_change := now\<rparr>"

subsection \<open>The registry of breakers\<close>

type_synonym breaker_registry = "(string \<times> breaker) list"

definition get_or_create ::
  "rat \<Rightarrow> string \<Rightarrow> breaker_config option \<Rightarrow> breaker_registry \<Rightarrow> breaker \<times> breaker_registry" where
  "get_or_create now name cfg r =
     (case map_of r name of
        Some b \<Rightarrow> (b, r)
      | None \<Rightarrow> (new_breaker now name cfg, AList.update name (new_breaker now name cfg) r))"

definition get_breaker :: "string \<Rightarrow> breaker_registry \<Rightarrow> breaker option" where
  "get_breaker name r = map_of r name"

definition list_names :: "breaker_registry \<Rightarrow> string list" where
  "list_names r = map fst r"

definition reset_all :: "rat \<Rightarrow> breaker_registry \<Rightarrow> breaker_registry" where
  "reset_all now r = map (\<lambda>(n, b). (n, reset_breaker now b)) r"

subsection \<open>Interleaved calls\<close>

text \<open>
  A breaker and the number of admitted calls whose outcome is not recorded yet; a step is
  labelled with its time, and a trace is a sequence of steps with their times.
\<close>

inductive breaker_step :: "rat \<Rightarrow> breaker \<times> nat \<Rightarrow> breaker \<times> nat \<Rightarrow> bool" where
  Admitted: "admit now b = (Inr u, b') \<Longrightarrow> breaker_step now (b, n) (b', Suc n)"
| Rejected: "admit now b = (Inl e, b') \<Longrightarrow> breaker_step now (b, n) (b', n)"
| Succeeded: "breaker_step now (b, Suc n) (record_success now b, n)"
| Failed: "breaker_step now (b, Suc n) (record_failure now b, n)"
| Observed: "breaker_step now (b, n) (snd (read_state now b), n)"

inductive breaker_trace :: "rat list \<Rightarrow> breaker \<times> nat \<Rightarrow> breaker \<times> nat \<Rightarrow> bool" where
  NoStep: "breaker_trace [] s s"
| OneStep: "breaker_step t s s1 \<Longrightarrow> breaker_trace ts s1 s2 \<Longrightarrow> breaker_trace (t # ts) s s2"

inductive_simps breaker_trace_simps: "breaker_trace [] s s'" "breaker_trace (t # ts) s s'"
inductive_cases breaker_stepE: "breaker_step now (b, n) s"

lemma trace_invariant:
  "breaker_trace ts s s' \<Longrightarrow> I s \<Longrightarrow> (\<And>t s s'. t \<in> set ts \<Longrightarrow> breaker_step t s s' \<Longrightarrow> I s \<Longrightarrow> I s') \<Longrightarrow> I s'"
proof (induction rule: breaker_trace.induct)
  case (OneStep t s s1 ts s2)
  have "I s1" by (rule OneStep.prems(2) [OF _ OneStep.hyps(1) OneStep.prems(1)]) simp
  then show ?case by (rule OneStep.IH) (rule OneStep.prems(2), auto)
qed

text \<open>What holds at every moment: every call is accounted for, and the counters stay below
  the thresholds that would have changed the state.\<close>

definition breaker_inv :: "breaker \<times> nat \<Rightarrow> bool" where
  "breaker_inv s \<longleftrightarrow> (let (b, n) = s; st = cb_stats b; cfg = cb_config b in
     bs_total_calls st = bs_successful_calls st + bs_failed_calls st + bs_rejected_calls st + int n \<and>
     0 \<le> bs_successful_calls st \<and> 0 \<le> bs_failed_calls st \<and> 0 \<le> bs_rejected_calls st \<and>
     0 \<le> cb_failure_count b \<and> 0 \<le> cb_success_count b \<and>
     (cb_state b = CLOSED \<longrightarrow> cb_failure_count b < max 1 (bc_failure_threshold cfg)) \<and>
     (cb_state b = HALF_OPEN \<longrightarrow> cb_success_count b < max 1 (bc_success_threshold cfg)) \<and>
     (cb_state b \<noteq> HALF_OPEN \<longrightarrow> cb_success_count b = 0) \<and>
     (bs_last_success_time st = None \<longleftrightarrow> bs_successful_calls st = 0) \<and>
     (bs_last_failure_time st = None \<longleftrightarrow> bs_failed_calls st = 0))"

lemmas breaker_defs = check_state_transition_def record_success_def record_failure_def admit_def
  read_state_def Let_def

lemma admit_config: "cb_config (snd (admit now b)) = cb_config b" "cb_name (snd (admit now b)) = cb_name b"
  by (simp_all add: breaker_defs)

lemma max_one_pos [simp]: "0 < max 1 (x::int)"
  by (simp add: less_max_iff_disj)

lemma breaker_inv_new: "breaker_inv (new_breaker now name cfg, 0)"
  by (simp add: breaker_inv_def new_breaker_def fresh_stats_def)

lemma breaker_inv_check:
  "breaker_inv (b, n) \<Longrightarrow> breaker_inv (check_state_transition now b, n)"
  by (cases "cb_state b") (simp_all add: breaker_inv_def check_state_transition_def Let_def)

lemma breaker_inv_count:
  "breaker_inv (b, n) \<Longrightarrow> breaker_inv (count_call b, Suc n)"
  "breaker_inv (b, n) \<Longrightarrow> breaker_inv (reject (count_call b), n)"
  by (simp_all add: breaker_inv_def Let_def)

lemma admit_result:
  "admit now b = (Inr u, b') \<Longrightarrow> b' = count_call (check_state_transition now b)"
  "admit now b = (Inl e, b') \<Longrightarrow> b' = reject (count_call (check_state_transition now b))"
  by (auto simp: admit_def Let_def split: if_splits)

lemma breaker_inv_step: "breaker_step t s s' \<Longrightarrow> breaker_inv s \<Longrightarrow> breaker_inv s'"
proof (induction rule: breaker_step.induct)
  case (Admitted now b u b' n)
  show ?case unfolding admit_result(1) [OF Admitted(1)]
    by (rule breaker_inv_count(1) [OF breaker_inv_check [OF Admitted(2)]])
next
  case (Rejected now b e b' n)
  show ?case unfolding admit_result(2) [OF Rejected(1)]
    by (rule breaker_inv_count(2) [OF breaker_inv_check [OF Rejected(2)]])
next
  case (Succeeded now b n)
  then show ?case by (cases "cb_state b") (simp_all add: breaker_inv_def record_success_def Let_def)
next
  case (Failed now b n)
  then show ?case by (cases "cb_state b") (simp_all add: breaker_inv_def record_failure_def Let_def)
next
  case (Observed now b n)
  then show ?case using breaker_inv_check by (simp add: read_state_def Let_def)
qed

text \<open>However the calls of several threads interleave, every call a breaker has counted is a
  success, a failure, a rejection or in flight; a closed circuit has fewer failures in a
  row than the threshold, a half-open one fewer successes, and outside the half-open state
  the count of successes is zero.\<close>

theorem breaker_invariant:
  assumes "breaker_trace ts (new_breaker now name cfg, 0) (b, n)"
  shows "bs_total_calls (cb_stats b) = bs_successful_calls (cb_stats b) + bs_failed_calls (cb_stats b)
      + bs_rejected_calls (cb_stats b) + int n \<and>
    (cb_state b = CLOSED \<longrightarrow> cb_failure_count b < max 1 (bc_failure_threshold (cb_config b))) \<and>
    (cb_state b = HALF_OPEN \<longrightarrow> cb_success_count b < max 1 (bc_success_threshold (cb_config b))) \<and>
    (cb_state b \<noteq> HALF_OPEN \<longrightarrow> cb_success_count b = 0)"
proof -
  have "breaker_inv (b, n)"
    using trace_invariant [OF assms, of breaker_inv] breaker_inv_new breaker_inv_step by blast
  then show ?thesis by (simp add: breaker_inv_def Let_def)
qed

theorem breaker_invariant_witness:
  "cb_failure_count (record_failure 1 (count_call (new_breaker 0 ''b'' None))) < 5"
proof -
  let ?b = "new_breaker 0 ''b'' None"
  have "admit 1 ?b = (Inr (), count_call ?b)"
    by (simp add: admit_def Let_def check_state_transition_def new_breaker_def fresh_stats_def)
  then have "breaker_trace [1, 1] (?b, 0) (record_failure 1 (count_call ?b), 0)"
    using Admitted [of 1 ?b] Failed [of 1 "count_call ?b" 0] by (auto simp: breaker_trace_simps)
  from breaker_invariant [OF this]
  have "cb_state (record_failure 1 (count_call ?b)) = CLOSED \<longrightarrow>
      cb_failure_count (record_failure 1 (count_call ?b)) < max 1 (bc_failure_threshold (cb_config (record_failure 1 (count_call ?b))))"
    by blast
  then show ?thesis
    by (simp add: record_failure_def Let_def new_breaker_def fresh_stats_def default_breaker_config_def)
qed

subsection \<open>An open circuit rejects\<close>

lemma open_step:
  "breaker_step now s s' \<Longrightarrow> cb_state (fst s) = OPEN \<Longrightarrow>
     now < cb_last_change (fst s) + bc_timeout_seconds (cb_config (fst s)) \<Longrightarrow>
     cb_state (fst s') = OPEN \<and> cb_last_change (fst s') = cb_last_change (fst s) \<and>
     cb_config (fst s') = cb_config (fst s) \<and> snd s' \<le> snd s"
  by (induction rule: breaker_step.induct)
    (auto simp: check_state_transition_def record_success_def record_failure_def read_state_def admit_def Let_def)

lemma open_trace:
  assumes "breaker_trace ts (b, n) s'" "cb_state b = OPEN"
    and "\<forall>t \<in> set ts. t < cb_last_change b + bc_timeout_seconds (cb_config b)"
  shows "cb_state (fst s') = OPEN \<and> cb_last_change (fst s') = cb_last_change b \<and>
    cb_config (fst s') = cb_config b \<and> snd s' \<le> n"
  using assms(1)
proof (rule trace_invariant)
  fix t s s'' assume t: "t \<in> set ts" "breaker_step t s s''"
    and "cb_state (fst s) = OPEN \<and> cb_last_change (fst s) = cb_last_change b \<and> cb_config (fst s) = cb_config b \<and> snd s \<le> n"
  with open_step [OF t(2)] assms(3)
  show "cb_state (fst s'') = OPEN \<and> cb_last_change (fst s'') = cb_last_change b \<and> cb_config (fst s'') = cb_config b \<and> snd s'' \<le> n"
    by auto
qed (simp add: assms(2))

text \<open>Until its time-out has passed, a circuit that has opened stays open and rejects every
  call without running it, whatever late successes and failures of calls in flight are
  recorded in between.\<close>

theorem open_circuit_rejects:
  assumes "breaker_trace ts (b, n) (b', n')" "cb_state b = OPEN"
    and "\<forall>t \<in> set (ts @ [now]). t < cb_last_change b + bc_timeout_seconds (cb_config b)"
  shows "\<exists>m b''. breaker_call now later outcome b' = (Inl (CircuitBreakerOpenError m), b'') \<and>
    cb_state b'' = OPEN \<and> bs_rejected_calls (cb_stats b'') = bs_rejected_calls (cb_stats b') + 1 \<and> n' \<le> n"
proof -
  have "cb_state b' = OPEN" "cb_last_change b' = cb_last_change b" "cb_config b' = cb_config b" "n' \<le> n"
    using open_trace [OF assms(1, 2)] assms(3) by auto
  with assms(3) show ?thesis
    by (simp add: breaker_call_def admit_def check_state_transition_def Let_def)
qed

text \<open>A breaker that has just opened at time 10 with a time-out of 60.\<close>

definition opened_breaker :: breaker where
  "opened_breaker = (set_state OPEN (new_breaker 10 ''b'' None))"

theorem open_circuit_rejects_witness:
  "\<exists>m b''. breaker_call 69 70 (Inr True) (record_success 40 opened_breaker) = (Inl (CircuitBreakerOpenError m), b'')"
proof -
  have "breaker_trace [40] (opened_breaker, Suc 0) (record_success 40 opened_breaker, 0)"
    using Succeeded by (auto simp: breaker_trace_simps)
  from open_circuit_rejects [OF this, of 69 70 "Inr True"] show ?thesis
    by (auto simp: opened_breaker_def new_breaker_def default_breaker_config_def)
qed

subsection \<open>Recovery\<close>

text \<open>Calls one after the other, all of which succeed if they are admitted.\<close>

fun successful_calls :: "rat list \<Rightarrow> breaker \<Rightarrow> breaker" where
  "successful_calls [] b = b"
| "successful_calls (t # ts) b = successful_calls ts (snd (breaker_call t t (Inr ()) b))"

lemma closed_call:
  "cb_state b = CLOSED \<Longrightarrow> cb_state (snd (breaker_call t t (Inr ()) b)) = CLOSED"
  by (simp add: breaker_call_def admit_def check_state_transition_def record_success_def Let_def)

lemma closed_calls: "cb_state b = CLOSED \<Longrightarrow> cb_state (successful_calls ts b) = CLOSED"
  by (induction ts arbitrary: b) (simp_all add: closed_call)

lemma half_open_call:
  assumes "cb_state b = HALF_OPEN" "cb_success_count b < bc_success_threshold (cb_config b)"
  shows "let b' = snd (breaker_call t t (Inr ()) b) in cb_config b' = cb_config b \<and>
    (if bc_half_open_max_calls (cb_config b) \<le> cb_success_count b
     then cb_state b' = HALF_OPEN \<and> cb_success_count b' = cb_success_count b
     else if bc_success_threshold (cb_config b) \<le> cb_success_count b + 1 then cb_state b' = CLOSED
     else cb_state b' = HALF_OPEN \<and> cb_success_count b' = cb_success_count b + 1)"
  using assms by (simp add: breaker_call_def admit_def check_state_transition_def record_success_def Let_def)

lemma half_open_calls:
  "cb_state b = HALF_OPEN \<Longrightarrow> cb_success_count b < bc_success_threshold (cb_config b) \<Longrightarrow>
     cb_state (successful_calls ts b) = CLOSED \<longleftrightarrow>
       bc_success_threshold (cb_config b) \<le> cb_success_count b + int (length ts) \<and>
       bc_success_threshold (cb_config b) \<le> max (bc_half_open_max_calls (cb_config b)) (cb_success_count b)"
proof (induction ts arbitrary: b)
  case (Cons t ts)
  let ?b = "snd (breaker_call t t (Inr ()) b)"
  note c = half_open_call [OF Cons.prems, of t, unfolded Let_def]
  consider "bc_half_open_max_calls (cb_config b) \<le> cb_success_count b"
    | "cb_success_count b < bc_half_open_max_calls (cb_config b)" "bc_success_threshold (cb_config b) \<le> cb_success_count b + 1"
    | "cb_success_count b < bc_half_open_max_calls (cb_config b)" "cb_success_count b + 1 < bc_success_threshold (cb_config b)"
    by linarith
  then show ?case
  proof cases
    case 1
    then show ?thesis using c Cons.prems Cons.IH [of ?b] by (simp add: max_def split: if_splits)
  next
    case 2
    then have "cb_state ?b = CLOSED" using c by simp
    then have "cb_state (successful_calls (t # ts) b) = CLOSED" by (simp add: closed_calls)
    with 2 show ?thesis by simp
  next
    case 3
    then have "cb_state (successful_calls (t # ts) b) = CLOSED \<longleftrightarrow>
        bc_success_threshold (cb_config b) \<le> cb_success_count b + 1 + int (length ts) \<and>
        bc_success_threshold (cb_config b) \<le> max (bc_half_open_max_calls (cb_config b)) (cb_success_count b + 1)"
      using c Cons.prems Cons.IH [of ?b] by (simp add: max_def)
    with 3 show ?thesis by (auto simp: max_def)
  qed
qed simp

text \<open>C17: Once the time-out of an open circuit has passed, successful calls close it, as many as
  the success threshold says, exactly when the threshold is not above the limit of
  half-open calls; otherwise no number of successful calls ever closes it.\<close>

theorem breaker_recovery:
  assumes "cb_state b = OPEN" "cb_success_count b = 0" "1 \<le> bc_success_threshold (cb_config b)"
    and "cb_last_change b + bc_timeout_seconds (cb_config b) \<le> t" "bc_success_threshold (cb_config b) \<le> int (length (t # ts))"
  shows "cb_state (successful_calls (t # ts) b) = CLOSED \<longleftrightarrow>
    bc_success_threshold (cb_config b) \<le> bc_half_open_max_calls (cb_config b)"
proof -
  let ?b = "check_state_transition t b"
  have h: "cb_state ?b = HALF_OPEN" "cb_success_count ?b = 0" "cb_config ?b = cb_config b"
    using assms by (simp_all add: check_state_transition_def)
  have "check_state_transition t ?b = ?b" using h(1) by (simp add: check_state_transition_def [of t ?b])
  then have "successful_calls (t # ts) b = successful_calls (t # ts) ?b"
    by (simp add: breaker_call_def admit_def)
  with half_open_calls [of ?b "t # ts"] h assms(3, 5) show ?thesis by (auto simp: max_def)
qed

theorem breaker_recovery_witness:
  "cb_state (successful_calls [70, 71] opened_breaker) = CLOSED"
  using breaker_recovery [of opened_breaker 70 "[71]"]
  by (simp add: opened_breaker_def new_breaker_def default_breaker_config_def fresh_stats_def)

end
