(* ===== verification/StateView.thy ===== *)
theory StateView
  imports PyValue
begin

text \<open>
  The window through which a running agent sees the pipeline state
  (\<open>orchestrator/executor.py\<close>, the classes \<open>_StepStateView\<close> and \<open>AgentContext\<close>): the step's
  mapped inputs overlay the state that all steps share. Writes go to both. The methods of
  \<open>AgentContext\<close> only pass on to the view. The executor's model takes the writes of an
  agent as one update of the shared state (\<open>ao_updates\<close>); here it is shown that any
  sequence of the view's operations amounts to one.
\<close>

record state_view =
  sv_shared :: dict
  sv_overrides :: dict

subsection \<open>Operations\<close>

definition view_get :: "state_view \<Rightarrow> string \<Rightarrow> pyval \<Rightarrow> pyval" where
  "view_get v key dflt =
     (case map_of (sv_overrides v) key of
        Some x \<Rightarrow> x
      | None \<Rightarrow> (case map_of (sv_shared v) key of Some x \<Rightarrow> x | None \<Rightarrow> dflt))"

definition view_getitem :: "state_view \<Rightarrow> string \<Rightarrow> exn + pyval" where
  "view_getitem v key =
     (case map_of (sv_overrides v) key of
        Some x \<Rightarrow> Inr x
      | None \<Rightarrow> (case map_of (sv_shared v) key of Some x \<Rightarrow> Inr x | None \<Rightarrow> Inl (KeyError key)))"

definition view_setitem :: "string \<Rightarrow> pyval \<Rightarrow> state_view \<Rightarrow> state_view" where
  "view_setitem key x v =
     v\<lparr>sv_shared := AList.update key x (sv_shared v), sv_overrides := AList.update key x (sv_overrides v)\<rparr>"

definition view_contains :: "state_view \<Rightarrow> string \<Rightarrow> bool" where
  "view_contains v key \<longleftrightarrow> map_of (sv_overrides v) key \<noteq> None \<or> map_of (sv_shared v) key \<noteq> None"

definition view_update :: "dict \<Rightarrow> state_view \<Rightarrow> state_view" where
  "view_update updates v =
     v\<lparr>sv_shared := dict_update updates (sv_shared v), sv_overrides := dict_update updates (sv_overrides v)\<rparr>"

definition view_copy :: "state_view \<Rightarrow> dict" where
  "view_copy v = dict_update (sv_overrides v) (sv_shared v)"

definition view_keys :: "state_view \<Rightarrow> string list" where
  "view_keys v = map fst (view_copy v)"

definition view_len :: "state_view \<Rightarrow> nat" where
  "view_len v = length (view_copy v)"

definition view_setdefault :: "string \<Rightarrow> pyval \<Rightarrow> state_view \<Rightarrow> pyval \<times> state_view" where
  "view_setdefault key dflt v =
     (if view_contains v key then (view_get v key dflt, v) else (dflt, view_setitem key dflt v))"

subsection \<open>The view is a dictionary\<close>

text \<open>What a plain dictionary does, on maps.\<close>

datatype view_op =
    GetItem string
  | GetOr string pyval
  | SetItem string pyval
  | Update dict
  | SetDefault string pyval
  | Contains string

fun view_step :: "view_op \<Rightarrow> state_view \<Rightarrow> (exn + pyval) \<times> state_view" where
  "view_step (GetItem k) v = (view_getitem v k, v)"
| "view_step (GetOr k d) v = (Inr (view_get v k d), v)"
| "view_step (SetItem k x) v = (Inr PNone, view_setitem k x v)"
| "view_step (Update u) v = (Inr PNone, view_update u v)"
| "view_step (SetDefault k d) v = (let (x, v') = view_setdefault k d v in (Inr x, v'))"
| "view_step (Contains k) v = (Inr (PBool (view_contains v k)), v)"

fun map_step :: "view_op \<Rightarrow> (string \<rightharpoonup> pyval) \<Rightarrow> (exn + pyval) \<times> (string \<rightharpoonup> pyval)" where
  "map_step (GetItem k) m = (case m k of Some x \<Rightarrow> Inr x | None \<Rightarrow> Inl (KeyError k), m)"
| "map_step (GetOr k d) m = (Inr (case m k of Some x \<Rightarrow> x | None \<Rightarrow> d), m)"
| "map_step (SetItem k x) m = (Inr PNone, m(k \<mapsto> x))"
| "map_step (Update u) m = (Inr PNone, m ++ map_of (rev u))"
| "map_step (SetDefault k d) m = (case m k of Some x \<Rightarrow> (Inr x, m) | None \<Rightarrow> (Inr d, m(k \<mapsto> d)))"
| "map_step (Contains k) m = (Inr (PBool (m k \<noteq> None)), m)"

fun run_ops :: "(view_op \<Rightarrow> 's \<Rightarrow> (exn + pyval) \<times> 's) \<Rightarrow> view_op list \<Rightarrow> 's \<Rightarrow> (exn + pyval) list \<times> 's" where
  "run_ops step [] s = ([], s)"
| "run_ops step (c # cs) s = (let (r, s1) = step c s; (rs, s2) = run_ops step cs s1 in (r # rs, s2))"

text \<open>The entries an operation writes.\<close>

fun op_writes :: "view_op \<Rightarrow> state_view \<Rightarrow> dict" where
  "op_writes (SetItem k x) v = [(k, x)]"
| "op_writes (Update u) v = u"
| "op_writes (SetDefault k d) v = (if view_contains v k then [] else [(k, d)])"
| "op_writes _ v = []"

fun run_writes :: "view_op list \<Rightarrow> state_view \<Rightarrow> dict" where
  "run_writes [] v = []"
| "run_writes (c # cs) v = op_writes c v @ run_writes cs (snd (view_step c v))"

definition view_map :: "state_view \<Rightarrow> string \<rightharpoonup> pyval" where
  "view_map v = map_of (sv_shared v) ++ map_of (sv_overrides v)"

lemma view_map_apply:
  "view_map v k = (case map_of (sv_overrides v) k of Some x \<Rightarrow> Some x | None \<Rightarrow> map_of (sv_shared v) k)"
  by (simp add: view_map_def map_add_def)

lemma map_of_dict_update_rev: "map_of (dict_update u d) = map_of d ++ map_of (rev u)"
proof (induction u arbitrary: d)
  case (Cons p u)
  obtain k x where p: "p = (k, x)" by (cases p)
  show ?case by (auto simp: p Cons fun_eq_iff map_add_def split: option.splits)
qed simp

lemma dict_update_append: "dict_update (u @ w) d = dict_update w (dict_update u d)"
  by (simp add: dict_update_def)

lemma map_add_over_both: "(m ++ w) ++ (n ++ w) = (m ++ n) ++ w"
  by (rule ext) (simp add: map_add_def split: option.splits)

lemma view_writes:
  "view_step c v = (r, v') \<Longrightarrow>
     v' = v\<lparr>sv_shared := dict_update (op_writes c v) (sv_shared v),
            sv_overrides := dict_update (op_writes c v) (sv_overrides v)\<rparr>"
  by (cases c) (auto simp: view_setitem_def view_update_def view_setdefault_def Let_def split: if_splits)

text \<open>One operation on the view does on its map what the dictionary's operation does.\<close>

lemma view_step_refines:
  "view_step c v = (r, v') \<Longrightarrow> map_step c (view_map v) = (r, view_map v')"
proof (cases c)
  case (SetDefault k d)
  moreover assume "view_step c v = (r, v')"
  ultimately show ?thesis
    by (cases "view_map v k")
      (auto simp: view_setdefault_def view_contains_def view_get_def view_setitem_def view_map_def map_add_def
        fun_eq_iff split: option.splits if_splits)
qed (auto simp: view_map_apply view_getitem_def view_get_def view_contains_def view_setitem_def view_update_def
      map_of_dict_update_rev map_add_over_both fun_eq_iff split: option.splits simp: map_add_def)

lemma run_ops_refines:
  "run_ops view_step cs v = (rs, v') \<Longrightarrow> run_ops map_step cs (view_map v) = (rs, view_map v')"
  by (induction cs arbitrary: v rs) (auto dest!: view_step_refines split: prod.splits)

lemma run_ops_writes:
  "run_ops view_step cs v = (rs, v') \<Longrightarrow> sv_shared v' = dict_update (run_writes cs v) (sv_shared v)"
proof (induction cs arbitrary: v rs)
  case (Cons c cs)
  obtain r v1 where s: "view_step c v = (r, v1)" by fastforce
  with Cons.prems obtain rs' where "run_ops view_step cs v1 = (rs', v')" by (auto split: prod.splits)
  from Cons.IH [OF this] show ?case using view_writes [OF s] s by (simp add: dict_update_append)
qed simp

lemma view_copy_map: "distinct (map fst (sv_overrides v)) \<Longrightarrow> map_of (view_copy v) = view_map v"
  by (rule ext) (simp add: view_copy_def map_of_dict_update view_map_apply split: option.splits)

lemma distinct_overrides_step:
  "view_step c v = (r, v') \<Longrightarrow> distinct (map fst (sv_overrides v)) \<Longrightarrow> distinct (map fst (sv_overrides v'))"
  by (frule view_writes) (simp add: distinct_dict_update)

lemma distinct_overrides_run:
  "run_ops view_step cs v = (rs, v') \<Longrightarrow> distinct (map fst (sv_overrides v)) \<Longrightarrow> distinct (map fst (sv_overrides v'))"
proof (induction cs arbitrary: v rs)
  case (Cons c cs)
  then show ?case
    using distinct_overrides_step [of c v "fst (view_step c v)" "snd (view_step c v)"]
    by (auto split: prod.splits)
qed simp

text \<open>C18: To an agent the view is an ordinary dictionary that starts as the shared state overlaid
  by the step's mapped inputs: every sequence of operations returns what it returns there
  and leaves \<open>copy()\<close> with its contents. The shared state only gains the written entries,
  so the mapped inputs never leak into it.\<close>

theorem state_view_is_dictionary:
  assumes "distinct (map fst overrides)"
    and "run_ops view_step ops \<lparr>sv_shared = shared, sv_overrides = overrides\<rparr> = (results, v)"
  shows "run_ops map_step ops (map_of shared ++ map_of overrides) = (results, map_of (view_copy v)) \<and>
    sv_shared v = dict_update (run_writes ops \<lparr>sv_shared = shared, sv_overrides = overrides\<rparr>) shared"
proof -
  have "distinct (map fst (sv_overrides v))"
    using distinct_overrides_run [OF assms(2)] assms(1) by simp
  with run_ops_refines [OF assms(2)] run_ops_writes [OF assms(2)] show ?thesis
    by (simp add: view_map_def view_copy_map)
qed

theorem state_view_is_dictionary_witness:
  "\<exists>v. run_ops map_step [GetItem ''x'', SetDefault ''y'' (PInt 3)] (map_of [(''x'', PInt 1)] ++ map_of [(''x'', PInt 2)])
     = ([Inr (PInt 2), Inr (PInt 3)], map_of (view_copy v)) \<and> sv_shared v = [(''x'', PInt 1), (''y'', PInt 3)]"
proof -
  let ?v = "\<lparr>sv_shared = [(''x'', PInt 1)], sv_overrides = [(''x'', PInt 2)]\<rparr>"
  let ?ops = "[GetItem ''x'', SetDefault ''y'' (PInt 3)]"
  let ?v' = "\<lparr>sv_shared = [(''x'', PInt 1), (''y'', PInt 3)], sv_overrides = [(''x'', PInt 2), (''y'', PInt 3)]\<rparr>"
  have "run_ops view_step ?ops ?v = ([Inr (PInt 2), Inr (PInt 3)], ?v')"
    by (simp add: view_getitem_def view_setdefault_def view_contains_def view_setitem_def)
  from state_view_is_dictionary [OF _ this]
  have "run_ops map_step ?ops (map_of [(''x'', PInt 1)] ++ map_of [(''x'', PInt 2)])
      = ([Inr (PInt 2), Inr (PInt 3)], map_of (view_copy ?v'))" by simp
  then show ?thesis by (intro exI [of _ ?v'] conjI) simp_all
qed

end
