(* ===== verification/TokenBudget.thy ===== *)
theory TokenBudget
  imports Prelude
begin

text \<open>
  \<open>agents/token_budget_system.py\<close>: what a model call costs, how usage is added up per
  day, month and session, the budget limits, and the file that keeps the totals. Prices and
  costs are exact rationals; \<open>fmt4\<close> is the text of an amount with four decimals. The dates
  and months of the clock readings are arguments.
\<close>

subsection \<open>Usage and cost\<close>

record token_usage =
  tu_input :: int
  tu_output :: int
  tu_cache_write :: int
  tu_cache_read :: int
  tu_thoughts :: int
  tu_reasoning :: int
  tu_reasoning_ms :: int
  tu_cache_creation_input :: int
  tu_cache_read_input :: int

definition zero_usage :: token_usage where
  "zero_usage = \<lparr>tu_input = 0, tu_output = 0, tu_cache_write = 0, tu_cache_read = 0, tu_thoughts = 0,
     tu_reasoning = 0, tu_reasoning_ms = 0, tu_cache_creation_input = 0, tu_cache_read_input = 0\<rparr>"

definition total_tokens :: "token_usage \<Rightarrow> int" where
  "total_tokens u = tu_input u + tu_output u + tu_cache_write u + tu_cache_read u + tu_thoughts u + tu_reasoning u"

definition add_usage :: "token_usage \<Rightarrow> token_usage \<Rightarrow> token_usage" where
  "add_usage u v =
     \<lparr>tu_input = tu_input u + tu_input v, tu_output = tu_output u + tu_output v,
      tu_cache_write = tu_cache_write u + tu_cache_write v, tu_cache_read = tu_cache_read u + tu_cache_read v,
      tu_thoughts = tu_thoughts u + tu_thoughts v, tu_reasoning = tu_reasoning u + tu_reasoning v,
      tu_reasoning_ms = tu_reasoning_ms u + tu_reasoning_ms v,
      tu_cache_creation_input = tu_cache_creation_input u + tu_cache_creation_input v,
      tu_cache_read_input = tu_cache_read_input u + tu_cache_read_input v\<rparr>"

text \<open>A tier: its context window, if it has one, and its prices, which may be \<open>None\<close>.\<close>

record price_tier =
  pt_window :: "rat option"
  pt_prices :: "(string \<times> rat option) list"

record model_info =
  mi_input_price :: "rat option"
  mi_output_price :: "rat option"
  mi_cache_writes_price :: "rat option"
  mi_cache_reads_price :: "rat option"
  mi_tiers :: "price_tier list"
  mi_thinking :: "(string \<times> rat) list"

text \<open>\<open>ModelInfo()\<close>; an absent and an empty list of tiers, or thinking configuration, are both
  false.\<close>

definition default_model :: model_info where
  "default_model = \<lparr>mi_input_price = None, mi_output_price = None, mi_cache_writes_price = None,
     mi_cache_reads_price = None, mi_tiers = [], mi_thinking = []\<rparr>"

record cost_breakdown =
  cb_input_cost :: rat
  cb_output_cost :: rat
  cb_cache_write_cost :: rat
  cb_cache_read_cost :: rat
  cb_thoughts_cost :: rat
  cb_reasoning_cost :: rat
  cb_total_cost :: rat
  cb_total_tokens :: int
  cb_total_input :: int
  cb_total_output :: int

definition find_tier :: "price_tier list \<Rightarrow> int \<Rightarrow> price_tier option" where
  "find_tier tiers input_tokens =
     find (\<lambda>t. case pt_window t of None \<Rightarrow> True | Some w \<Rightarrow> of_int input_tokens \<le> w)
       (sort_key (\<lambda>t. case pt_window t of None \<Rightarrow> 0 | Some w \<Rightarrow> w) tiers)"

definition tier_price :: "price_tier \<Rightarrow> string \<Rightarrow> rat option \<Rightarrow> rat option" where
  "tier_price t key dflt = (case map_of (pt_prices t) key of Some p \<Rightarrow> p | None \<Rightarrow> dflt)"

text \<open>\<open>(tokens / unit) * price\<close>, when there is a price.\<close>

definition charge :: "int \<Rightarrow> rat \<Rightarrow> rat option \<Rightarrow> rat" where
  "charge tokens unit price = (case price of None \<Rightarrow> 0 | Some p \<Rightarrow> of_int tokens / unit * p)"

definition base_costs :: "model_info \<Rightarrow> token_usage \<Rightarrow> rat \<times> rat \<times> rat \<times> rat" where
  "base_costs m u =
     (if mi_tiers m \<noteq> [] then
        (case find_tier (mi_tiers m) (tu_input u) of
           None \<Rightarrow> (0, 0, 0, 0)
         | Some t \<Rightarrow>
             (charge (tu_input u) 1000 (tier_price t ''inputPrice'' (mi_input_price m)),
              charge (tu_output u) 1000000 (tier_price t ''outputPrice'' (mi_output_price m)),
              charge (tu_cache_write u) 1000000 (tier_price t ''cacheWritesPrice'' (mi_cache_writes_price m)),
              charge (tu_cache_read u) 1000000 (tier_price t ''cacheReadsPrice'' (mi_cache_reads_price m))))
      else
        (charge (tu_input u) 1000000 (mi_input_price m),
         charge (tu_output u) 1000 (mi_output_price m),
         charge (tu_cache_write u) 1000000 (mi_cache_writes_price m),
         charge (tu_cache_read u) 1000000 (mi_cache_reads_price m)))"

definition thinking_costs :: "model_info \<Rightarrow> token_usage \<Rightarrow> rat \<times> rat" where
  "thinking_costs m u =
     (if mi_thinking m = [] then (0, 0)
      else (let price = (case map_of (mi_thinking m) ''outputPrice'' of
                Some p \<Rightarrow> p | None \<Rightarrow> (case mi_output_price m of Some p \<Rightarrow> p | None \<Rightarrow> 0))
            in (charge (tu_thoughts u) 1000 (Some price),
                if tu_reasoning u > 0 then charge (tu_reasoning u) 1000000 (Some price) else 0)))"

definition calculate_cost :: "model_info \<Rightarrow> token_usage \<Rightarrow> cost_breakdown" where
  "calculate_cost m u =
     (let (i, out, cw, cr) = base_costs m u; (th, re) = thinking_costs m u in
      \<lparr>cb_input_cost = i, cb_output_cost = out, cb_cache_write_cost = cw, cb_cache_read_cost = cr,
       cb_thoughts_cost = th, cb_reasoning_cost = re, cb_total_cost = i + out + cw + cr + th + re,
       cb_total_tokens = total_tokens u, cb_total_input = tu_input u, cb_total_output = tu_output u\<rparr>)"

subsection \<open>The budget system\<close>

record budget_limits =
  bl_daily :: "rat option"
  bl_monthly :: "rat option"
  bl_session :: "rat option"

text \<open>\<open>BudgetLimits\<close> prefers the snake-case argument.\<close>

definition prefer_snake :: "'a option \<Rightarrow> 'a option \<Rightarrow> 'a option" where
  "prefer_snake snake camel = (case snake of Some x \<Rightarrow> Some x | None \<Rightarrow> camel)"

definition make_limits ::
  "rat option \<Rightarrow> rat option \<Rightarrow> rat option \<Rightarrow> rat option \<Rightarrow> rat option \<Rightarrow> rat option \<Rightarrow> budget_limits" where
  "make_limits dailyLimit monthlyLimit sessionLimit daily_limit monthly_limit session_limit =
     \<lparr>bl_daily = prefer_snake daily_limit dailyLimit, bl_monthly = prefer_snake monthly_limit monthlyLimit,
      bl_session = prefer_snake session_limit sessionLimit\<rparr>"

type_synonym provider_usage = "(string \<times> token_usage) list"
type_synonym dated_usage = "(string \<times> provider_usage) list"

text \<open>The usage file: counters under their old names, per date and provider, and the cost.\<close>

type_synonym saved_usage = "(string \<times> (string \<times> (string \<times> int) list) list) list"

record usage_file =
  uf_daily :: saved_usage
  uf_monthly :: saved_usage
  uf_total_cost :: rat

record budget_system =
  bs_limits :: budget_limits
  bs_daily :: dated_usage
  bs_monthly :: dated_usage
  bs_session :: provider_usage
  bs_total_cost :: rat
  bs_file :: "usage_file option"

definition add_to_provider :: "string \<Rightarrow> token_usage \<Rightarrow> provider_usage \<Rightarrow> provider_usage" where
  "add_to_provider p u d =
     AList.update p (add_usage (case map_of d p of Some v \<Rightarrow> v | None \<Rightarrow> zero_usage) u) d"

definition add_to_date :: "string \<Rightarrow> string \<Rightarrow> token_usage \<Rightarrow> dated_usage \<Rightarrow> dated_usage" where
  "add_to_date date p u d =
     AList.update date (add_to_provider p u (case map_of d date of Some v \<Rightarrow> v | None \<Rightarrow> [])) d"

definition saved_counters :: "token_usage \<Rightarrow> (string \<times> int) list" where
  "saved_counters u =
     [(''input_tokens'', tu_input u), (''output_tokens'', tu_output u), (''cache_write_tokens'', tu_cache_write u),
      (''cache_read_tokens'', tu_cache_read u), (''thoughts_token_count'', tu_thoughts u)]"

definition saved :: "dated_usage \<Rightarrow> saved_usage" where
  "saved = map (\<lambda>(date, d). (date, map (\<lambda>(p, u). (p, saved_counters u)) d))"

definition usage_data :: "budget_system \<Rightarrow> usage_file" where
  "usage_data s = \<lparr>uf_daily = saved (bs_daily s), uf_monthly = saved (bs_monthly s), uf_total_cost = bs_total_cost s\<rparr>"

definition save_usage_data :: "budget_system \<Rightarrow> budget_system" where
  "save_usage_data s = s\<lparr>bs_file := Some (usage_data s)\<rparr>"

text \<open>The cost of a day is computed with a \<open>ModelInfo()\<close> of its own.\<close>

definition daily_cost :: "string \<Rightarrow> dated_usage \<Rightarrow> rat" where
  "daily_cost today d =
     (case map_of d today of
        None \<Rightarrow> 0
      | Some day \<Rightarrow> sum_list (map (\<lambda>(p, u). cb_total_cost (calculate_cost default_model u)) day))"

definition exceeded :: "rat option \<Rightarrow> rat \<Rightarrow> bool" where
  "exceeded limit cost = (case limit of None \<Rightarrow> False | Some l \<Rightarrow> l \<noteq> 0 \<and> l \<le> cost)"

definition check_budget_limits :: "(rat \<Rightarrow> string) \<Rightarrow> string \<Rightarrow> budget_system \<Rightarrow> exn + unit" where
  "check_budget_limits fmt4 today s =
     (if exceeded (bl_session (bs_limits s)) (bs_total_cost s)
      then Inl (RuntimeError (''Session budget limit exceeded: $'' @ fmt4 (bs_total_cost s)))
      else if exceeded (bl_daily (bs_limits s)) (daily_cost today (bs_daily s))
      then Inl (RuntimeError (''Daily budget limit exceeded: $'' @ fmt4 (daily_cost today (bs_daily s))))
      else Inr ())"

definition record_usage_in :: "string \<Rightarrow> string \<Rightarrow> string \<Rightarrow> model_info \<Rightarrow> token_usage \<Rightarrow> budget_system \<Rightarrow> budget_system" where
  "record_usage_in today month provider m u s =
     s\<lparr>bs_daily := add_to_date today provider u (bs_daily s),
       bs_monthly := add_to_date month provider u (bs_monthly s),
       bs_session := add_to_provider provider u (bs_session s),
       bs_total_cost := bs_total_cost s + cb_total_cost (calculate_cost m u)\<rparr>"

text \<open>\<open>(today, month, today')\<close>: the dates read for the usage and, later, for the limits.\<close>

type_synonym dates = "string \<times> string \<times> string"

definition track_usage ::
  "(rat \<Rightarrow> string) \<Rightarrow> dates \<Rightarrow> string \<Rightarrow> model_info \<Rightarrow> token_usage \<Rightarrow> budget_system
     \<Rightarrow> (exn + cost_breakdown) \<times> budget_system" where
  "track_usage fmt4 = (\<lambda>(today, month, today') provider m u s.
     (let s1 = record_usage_in today month provider m u s in
      case check_budget_limits fmt4 today' s1 of
        Inl e \<Rightarrow> (Inl e, s1)
      | Inr _ \<Rightarrow> (Inr (calculate_cost m u), save_usage_data s1)))"

definition reset_session :: "budget_system \<Rightarrow> budget_system" where
  "reset_session s = s\<lparr>bs_session := [], bs_total_cost := 0\<rparr>"

definition get_daily_usage :: "string \<Rightarrow> budget_system \<Rightarrow> provider_usage" where
  "get_daily_usage date s = (case map_of (bs_daily s) date of Some d \<Rightarrow> d | None \<Rightarrow> [])"

definition get_monthly_usage :: "string \<Rightarrow> budget_system \<Rightarrow> provider_usage" where
  "get_monthly_usage month s = (case map_of (bs_monthly s) month of Some d \<Rightarrow> d | None \<Rightarrow> [])"

subsection \<open>The usage file\<close>

definition new_field :: "string \<Rightarrow> string" where
  "new_field key =
     (if key = ''input_tokens'' then ''inputTokens''
      else if key = ''output_tokens'' then ''outputTokens''
      else if key = ''cache_write_tokens'' then ''cacheWriteTokens''
      else if key = ''cache_read_tokens'' then ''cacheReadTokens''
      else if key = ''thoughts_token_count'' then ''thoughtsTokenCount''
      else key)"

definition usage_fields :: "string list" where
  "usage_fields = [''inputTokens'', ''outputTokens'', ''cacheWriteTokens'', ''cacheReadTokens'', ''thoughtsTokenCount'',
     ''reasoningTokens'', ''reasoningTimeMs'', ''cacheCreationInputTokens'', ''cacheReadInputTokens'']"

text \<open>\<open>TokenUsage(**data)\<close>: an unknown field is a \<open>TypeError\<close>.\<close>

definition make_usage :: "(string \<times> int) list \<Rightarrow> exn + token_usage" where
  "make_usage d =
     (let v = (\<lambda>k. case map_of d k of Some i \<Rightarrow> i | None \<Rightarrow> 0) in
      case find (\<lambda>k. k \<notin> set usage_fields) (map fst d) of
        Some k \<Rightarrow> Inl (TypeError (''TokenUsage.__init__() got an unexpected keyword argument '' @ quoted k))
      | None \<Rightarrow>
          Inr \<lparr>tu_input = v ''inputTokens'', tu_output = v ''outputTokens'', tu_cache_write = v ''cacheWriteTokens'',
               tu_cache_read = v ''cacheReadTokens'', tu_thoughts = v ''thoughtsTokenCount'',
               tu_reasoning = v ''reasoningTokens'', tu_reasoning_ms = v ''reasoningTimeMs'',
               tu_cache_creation_input = v ''cacheCreationInputTokens'', tu_cache_read_input = v ''cacheReadInputTokens''\<rparr>)"

definition converted :: "(string \<times> int) list \<Rightarrow> (string \<times> int) list" where
  "converted d = dict_update (map (\<lambda>(k, v). (new_field k, v)) d) []"

text \<open>The loops that restore the usage; an exception leaves what has been restored so far.\<close>

fun load_providers :: "(string \<times> (string \<times> int) list) list \<Rightarrow> provider_usage \<Rightarrow> exn option \<times> provider_usage" where
  "load_providers [] d = (None, d)"
| "load_providers ((p, c) # ps) d =
     (case make_usage (converted c) of
        Inl e \<Rightarrow> (Some e, d)
      | Inr u \<Rightarrow> load_providers ps (AList.update p u d))"

fun load_dates :: "saved_usage \<Rightarrow> dated_usage \<Rightarrow> exn option \<times> dated_usage" where
  "load_dates [] d = (None, d)"
| "load_dates ((date, ps) # rest) d =
     (case load_providers ps [] of
        (Some e, day) \<Rightarrow> (Some e, AList.update date day d)
      | (None, day) \<Rightarrow> load_dates rest (AList.update date day d))"

text \<open>The exception is logged. The file read is one this program has written or edited: JSON
  objects with whole numbers.\<close>

definition load_usage_data :: "budget_system \<Rightarrow> budget_system" where
  "load_usage_data s =
     (case bs_file s of
        None \<Rightarrow> s
      | Some f \<Rightarrow>
          (case load_dates (uf_daily f) (bs_daily s) of
             (Some e, daily) \<Rightarrow> s\<lparr>bs_daily := daily\<rparr>
           | (None, daily) \<Rightarrow>
               (case load_dates (uf_monthly f) (bs_monthly s) of
                  (Some e, monthly) \<Rightarrow> s\<lparr>bs_daily := daily, bs_monthly := monthly\<rparr>
                | (None, monthly) \<Rightarrow>
                    s\<lparr>bs_daily := daily, bs_monthly := monthly, bs_total_cost := uf_total_cost f\<rparr>)))"

definition new_budget_system :: "budget_limits \<Rightarrow> usage_file option \<Rightarrow> budget_system" where
  "new_budget_system limits f = load_usage_data
     \<lparr>bs_limits = limits, bs_daily = [], bs_monthly = [], bs_session = [], bs_total_cost = 0, bs_file = f\<rparr>"

subsection \<open>The tracker of pending usage\<close>

type_synonym pending = "(string \<times> model_info \<times> token_usage) list"

text \<open>\<open>dates\<close> gives the clock readings of each call. An exception leaves the loop before
  \<open>pending_usage.clear()\<close>.\<close>

fun process_loop ::
  "(rat \<Rightarrow> string) \<Rightarrow> dates \<Rightarrow> pending \<Rightarrow> budget_system \<Rightarrow> (exn + cost_breakdown list) \<times> budget_system" where
  "process_loop fmt4 dt [] s = (Inr [], s)"
| "process_loop fmt4 dt ((provider, m, u) # rest) s =
     (case track_usage fmt4 dt provider m u s of
        (Inl e, s1) \<Rightarrow> (Inl e, s1)
      | (Inr c, s1) \<Rightarrow>
          (case process_loop fmt4 dt rest s1 of
             (Inl e, s2) \<Rightarrow> (Inl e, s2)
           | (Inr cs, s2) \<Rightarrow> (Inr (c # cs), s2)))"

definition process_pending_usage ::
  "(rat \<Rightarrow> string) \<Rightarrow> dates \<Rightarrow> pending \<times> budget_system \<Rightarrow> (exn + cost_breakdown list) \<times> pending \<times> budget_system" where
  "process_pending_usage fmt4 dt = (\<lambda>(pending, s).
     (case process_loop fmt4 dt pending s of
        (Inl e, s') \<Rightarrow> (Inl e, (pending, s'))
      | (Inr cs, s') \<Rightarrow> (Inr cs, ([], s'))))"


subsection \<open>The file brings the totals back\<close>

text \<open>What the file keeps of a usage.\<close>

definition kept :: "token_usage \<Rightarrow> token_usage" where
  "kept u = u\<lparr>tu_reasoning := 0, tu_reasoning_ms := 0, tu_cache_creation_input := 0, tu_cache_read_input := 0\<rparr>"

definition kept_usage :: "dated_usage \<Rightarrow> dated_usage" where
  "kept_usage = map (\<lambda>(date, d). (date, map (\<lambda>(p, u). (p, kept u)) d))"

definition dated_wf :: "dated_usage \<Rightarrow> bool" where
  "dated_wf d \<longleftrightarrow> distinct (map fst d) \<and> (\<forall>ps \<in> snd ` set d. distinct (map fst ps))"

lemma make_usage_saved: "make_usage (converted (saved_counters u)) = Inr (kept u)"
  by (simp add: make_usage_def converted_def saved_counters_def new_field_def usage_fields_def kept_def Let_def)

lemma update_fresh: "map_of d k = None \<Longrightarrow> AList.update k v d = d @ [(k, v)]"
  by (induction d) (auto split: if_splits)

lemma load_providers_saved:
  "distinct (map fst (d @ ps)) \<Longrightarrow>
     load_providers (map (\<lambda>(p, u). (p, saved_counters u)) ps) d = (None, d @ map (\<lambda>(p, u). (p, kept u)) ps)"
proof (induction ps arbitrary: d)
  case (Cons q ps)
  obtain p u where q: "q = (p, u)" by (cases q)
  have "map_of d p = None" using Cons.prems by (auto simp: q map_of_eq_None_iff)
  then have "AList.update p (kept u) d = d @ [(p, kept u)]" by (rule update_fresh)
  moreover have "load_providers (map (\<lambda>(p, u). (p, saved_counters u)) ps) (d @ [(p, kept u)]) =
      (None, (d @ [(p, kept u)]) @ map (\<lambda>(p, u). (p, kept u)) ps)"
    by (rule Cons.IH) (use Cons.prems in \<open>auto simp: q\<close>)
  ultimately show ?case by (simp add: q make_usage_saved)
qed simp

lemma load_dates_saved:
  "distinct (map fst (d @ e)) \<Longrightarrow> \<forall>ps \<in> snd ` set e. distinct (map fst ps) \<Longrightarrow>
     load_dates (saved e) d = (None, d @ kept_usage e)"
proof (induction e arbitrary: d)
  case (Cons q e)
  obtain date ps where q: "q = (date, ps)" by (cases q)
  have l: "load_providers (map (\<lambda>(p, u). (p, saved_counters u)) ps) [] = (None, map (\<lambda>(p, u). (p, kept u)) ps)"
    using load_providers_saved [of "[]" ps] Cons.prems(2) by (simp add: q)
  have "map_of d date = None" using Cons.prems(1) by (auto simp: q map_of_eq_None_iff)
  then have "AList.update date v d = d @ [(date, v)]" for v by (rule update_fresh)
  moreover have "load_dates (saved e) (d @ [(date, map (\<lambda>(p, u). (p, kept u)) ps)]) =
      (None, (d @ [(date, map (\<lambda>(p, u). (p, kept u)) ps)]) @ kept_usage e)"
    by (rule Cons.IH) (use Cons.prems in \<open>auto simp: q\<close>)
  ultimately show ?case using l by (simp add: q saved_def kept_usage_def)
qed (simp add: saved_def kept_usage_def)

lemma load_saved:
  assumes "dated_wf (bs_daily s)" "dated_wf (bs_monthly s)"
  shows "new_budget_system limits (Some (usage_data s)) =
    \<lparr>bs_limits = limits, bs_daily = kept_usage (bs_daily s), bs_monthly = kept_usage (bs_monthly s), bs_session = [],
     bs_total_cost = bs_total_cost s, bs_file = Some (usage_data s)\<rparr>"
  using assms load_dates_saved [of "[]" "bs_daily s"] load_dates_saved [of "[]" "bs_monthly s"]
  by (simp add: new_budget_system_def load_usage_data_def usage_data_def dated_wf_def)

lemma set_update_subset: "set (AList.update k v d) \<subseteq> insert (k, v) (set d)"
  by (induction d) auto

lemma dated_wf_add:
  assumes "dated_wf d"
  shows "dated_wf (add_to_date date p u d)"
proof -
  let ?day = "case map_of d date of Some v \<Rightarrow> v | None \<Rightarrow> []"
  have "distinct (map fst ?day)"
    using assms by (auto simp: dated_wf_def dest!: map_of_SomeD split: option.splits)
  then have "distinct (map fst (add_to_provider p u ?day))"
    by (simp add: add_to_provider_def distinct_update)
  moreover have "\<forall>ps \<in> snd ` set d. distinct (map fst ps)" using assms by (simp add: dated_wf_def)
  ultimately have "\<forall>ps \<in> snd ` set (add_to_date date p u d). distinct (map fst ps)"
    using set_update_subset [of date "add_to_provider p u ?day" d] unfolding add_to_date_def by fastforce
  with assms show ?thesis by (simp add: dated_wf_def add_to_date_def distinct_update)
qed

subsection \<open>The ledger\<close>

text \<open>Calls one after the other, with their dates.\<close>

type_synonym tracked = "dates \<times> string \<times> model_info \<times> token_usage"

fun track_all :: "(rat \<Rightarrow> string) \<Rightarrow> tracked list \<Rightarrow> budget_system \<Rightarrow> budget_system" where
  "track_all fmt4 [] s = s"
| "track_all fmt4 ((dt, p, m, u) # cs) s = track_all fmt4 cs (snd (track_usage fmt4 dt p m u s))"

definition provider_tokens :: "provider_usage \<Rightarrow> int" where
  "provider_tokens d = sum_list (map (\<lambda>(p, u). total_tokens u) d)"

definition dated_tokens :: "dated_usage \<Rightarrow> int" where
  "dated_tokens d = sum_list (map (\<lambda>(date, ps). provider_tokens ps) d)"

lemma sum_list_update:
  fixes f :: "'k \<times> 'v \<Rightarrow> int"
  assumes "distinct (map fst d)"
  shows "sum_list (map f (AList.update k v d)) =
    sum_list (map f d) - (case map_of d k of Some w \<Rightarrow> f (k, w) | None \<Rightarrow> 0) + f (k, v)"
  using assms
proof (induction d)
  case (Cons q d)
  then show ?case by (cases q) (auto split: option.splits dest: map_of_SomeD)
qed simp

lemma total_tokens_add [simp]: "total_tokens (add_usage u v) = total_tokens u + total_tokens v"
  by (simp add: total_tokens_def add_usage_def)

lemma total_tokens_zero [simp]: "total_tokens zero_usage = 0"
  by (simp add: total_tokens_def zero_usage_def)

lemma provider_tokens_add:
  "distinct (map fst d) \<Longrightarrow> provider_tokens (add_to_provider p u d) = provider_tokens d + total_tokens u"
  by (simp add: provider_tokens_def add_to_provider_def sum_list_update split: option.splits)

lemma dated_tokens_add:
  assumes "dated_wf d"
  shows "dated_tokens (add_to_date date p u d) = dated_tokens d + total_tokens u"
proof -
  have "distinct (map fst ps)" if "map_of d date = Some ps" for ps
    using assms map_of_SomeD [OF that] by (force simp: dated_wf_def)
  then show ?thesis
    using assms by (auto simp: dated_tokens_def add_to_date_def dated_wf_def sum_list_update provider_tokens_add
        provider_tokens_def [of "[]"] split: option.splits)
qed

definition ledger_inv :: "tracked list \<Rightarrow> budget_system \<Rightarrow> bool" where
  "ledger_inv cs s \<longleftrightarrow> dated_wf (bs_daily s) \<and> dated_wf (bs_monthly s) \<and> distinct (map fst (bs_session s)) \<and>
     dated_tokens (bs_daily s) = sum_list (map (\<lambda>(dt, p, m, u). total_tokens u) cs) \<and>
     dated_tokens (bs_monthly s) = sum_list (map (\<lambda>(dt, p, m, u). total_tokens u) cs) \<and>
     provider_tokens (bs_session s) = sum_list (map (\<lambda>(dt, p, m, u). total_tokens u) cs) \<and>
     bs_total_cost s = sum_list (map (\<lambda>(dt, p, m, u). cb_total_cost (calculate_cost m u)) cs)"

lemma track_usage_state:
  "\<exists>f. snd (track_usage fmt4 (today, month, today') p m u s) = record_usage_in today month p m u s\<lparr>bs_file := f\<rparr>"
  by (cases "check_budget_limits fmt4 today' (record_usage_in today month p m u s)")
    (auto simp: track_usage_def Let_def save_usage_data_def intro: exI [of _ "bs_file s"] simp: record_usage_in_def)

lemma ledger_step: "ledger_inv cs s \<Longrightarrow> ledger_inv (cs @ [(dt, p, m, u)]) (snd (track_usage fmt4 dt p m u s))"
proof -
  assume inv: "ledger_inv cs s"
  obtain today month today' where dt: "dt = (today, month, today')" by (cases dt)
  obtain f where "snd (track_usage fmt4 dt p m u s) = record_usage_in today month p m u s\<lparr>bs_file := f\<rparr>"
    using track_usage_state unfolding dt by blast
  with inv show ?thesis
    by (simp add: ledger_inv_def record_usage_in_def dated_wf_add dated_tokens_add provider_tokens_add)
      (simp add: add_to_provider_def distinct_update)
qed

lemma ledger_all: "ledger_inv done s \<Longrightarrow> ledger_inv (done @ cs) (track_all fmt4 cs s)"
proof (induction cs arbitrary: "done" s)
  case (Cons c cs)
  obtain dt p m u where c: "c = (dt, p, m, u)" by (cases c) auto
  from Cons.IH [OF ledger_step [OF Cons.prems, of dt p m u fmt4]] show ?case by (simp add: c)
qed simp

text \<open>Whatever calls are tracked, on whatever days and over whatever budget, the usage per day,
  per month and per session adds up to the same tokens, those of all calls, and the total
  cost is the sum of their costs; calls that exceed a limit are counted too.\<close>

theorem usage_ledger:
  "let s = track_all fmt4 calls (new_budget_system limits None);
       tokens = sum_list (map (\<lambda>(dt, p, m, u). total_tokens u) calls)
   in dated_tokens (bs_daily s) = tokens \<and> dated_tokens (bs_monthly s) = tokens \<and>
      provider_tokens (bs_session s) = tokens \<and>
      bs_total_cost s = sum_list (map (\<lambda>(dt, p, m, u). cb_total_cost (calculate_cost m u)) calls)"
proof -
  have "ledger_inv [] (new_budget_system limits None)"
    by (simp add: ledger_inv_def new_budget_system_def load_usage_data_def dated_wf_def dated_tokens_def provider_tokens_def)
  from ledger_all [OF this, of calls fmt4] show ?thesis by (simp add: ledger_inv_def Let_def)
qed

lemma track_all_wf:
  "dated_wf (bs_daily s) \<Longrightarrow> dated_wf (bs_monthly s) \<Longrightarrow>
     dated_wf (bs_daily (track_all fmt4 cs s)) \<and> dated_wf (bs_monthly (track_all fmt4 cs s))"
proof (induction cs arbitrary: s)
  case (Cons c cs)
  obtain today month today' p m u where c: "c = ((today, month, today'), p, m, u)" by (cases c) auto
  obtain f where "snd (track_usage fmt4 (today, month, today') p m u s) = record_usage_in today month p m u s\<lparr>bs_file := f\<rparr>"
    using track_usage_state by blast
  with Cons show ?case by (simp add: c record_usage_in_def dated_wf_add)
qed simp

text \<open>A system started from the file that another one has saved has its usage per day and month
  and its total cost back, but of every usage only the five counters the file has: the
  tokens of reasoning are lost with a restart.\<close>

theorem usage_file_roundtrip:
  "let s = track_all fmt4 calls (new_budget_system limits None) in
   new_budget_system limits' (Some (usage_data s)) =
     \<lparr>bs_limits = limits', bs_daily = kept_usage (bs_daily s), bs_monthly = kept_usage (bs_monthly s),
      bs_session = [], bs_total_cost = bs_total_cost s, bs_file = Some (usage_data s)\<rparr>"
proof -
  have "dated_wf (bs_daily (new_budget_system limits None))" "dated_wf (bs_monthly (new_budget_system limits None))"
    by (simp_all add: new_budget_system_def load_usage_data_def dated_wf_def)
  with track_all_wf show ?thesis by (simp add: Let_def load_saved)
qed

subsection \<open>The limits\<close>

lemma daily_cost_zero: "daily_cost today d = 0"
proof -
  have "cb_total_cost (calculate_cost default_model u) = 0" for u
    by (simp add: calculate_cost_def base_costs_def thinking_costs_def default_model_def charge_def)
  then show ?thesis by (simp add: daily_cost_def case_prod_unfold split: option.splits)
qed

lemma track_usage_result:
  assumes "\<forall>l \<in> set_option (bl_daily (bs_limits s)). 0 \<le> l"
  shows "track_usage fmt4 (today, month, today') p m u s =
    (let s1 = record_usage_in today month p m u s in
     if exceeded (bl_session (bs_limits s)) (bs_total_cost s1)
     then (Inl (RuntimeError (''Session budget limit exceeded: $'' @ fmt4 (bs_total_cost s1))), s1)
     else (Inr (calculate_cost m u), save_usage_data s1))"
proof -
  have "\<not> exceeded (bl_daily (bs_limits s)) 0" using assms by (auto simp: exceeded_def split: option.splits)
  then show ?thesis
    by (simp add: track_usage_def check_budget_limits_def Let_def daily_cost_zero record_usage_in_def)
qed

text \<open>Only the session limit ever stops a call: a daily limit compares a cost of nothing,
  because it is computed without the prices of the models, and the monthly limit is not
  looked at. A call stopped by the session limit has been counted, but not saved.\<close>

theorem only_session_limit_enforced:
  assumes "\<forall>l \<in> set_option (bl_daily (bs_limits s)). 0 \<le> l"
    and "track_usage fmt4 dates provider m u s = (r, s')"
  shows "((\<exists>e. r = Inl e) \<longleftrightarrow>
      exceeded (bl_session (bs_limits s)) (bs_total_cost s + cb_total_cost (calculate_cost m u))) \<and>
    bs_total_cost s' = bs_total_cost s + cb_total_cost (calculate_cost m u) \<and>
    bs_file s' = (case r of Inl e \<Rightarrow> bs_file s | Inr c \<Rightarrow> Some (usage_data s'))"
proof -
  obtain today month today' where d: "dates = (today, month, today')" by (cases dates)
  show ?thesis
    using assms(2) unfolding d track_usage_result [OF assms(1)]
    by (auto simp: Let_def record_usage_in_def save_usage_data_def usage_data_def split: if_splits)
qed

definition gpt :: model_info where
  "gpt = default_model\<lparr>mi_input_price := Some 3, mi_output_price := Some 6\<rparr>"

definition two_thousand :: token_usage where
  "two_thousand = zero_usage\<lparr>tu_output := 2000\<rparr>"

theorem only_session_limit_enforced_witness:
  "case track_usage (\<lambda>_. []) (''d'', ''m'', ''d'') ''openai'' gpt two_thousand
      (new_budget_system (make_limits (Some 1) (Some 1) (Some 10) None None None) None) of
     (r, s') \<Rightarrow> (\<exists>e. r = Inl e) \<and> bs_total_cost s' = 12 \<and> bs_file s' = None"
proof -
  let ?s = "new_budget_system (make_limits (Some 1) (Some 1) (Some 10) None None None) None"
  obtain r s' where t: "track_usage (\<lambda>_. []) (''d'', ''m'', ''d'') ''openai'' gpt two_thousand ?s = (r, s')"
    using prod.exhaust by blast
  have "bs_limits ?s = \<lparr>bl_daily = Some 1, bl_monthly = Some 1, bl_session = Some 10\<rparr>" "bs_total_cost ?s = 0" "bs_file ?s = None"
    by (simp_all add: new_budget_system_def load_usage_data_def make_limits_def prefer_snake_def)
  moreover have "cb_total_cost (calculate_cost gpt two_thousand) = 12"
    by (simp add: calculate_cost_def base_costs_def thinking_costs_def gpt_def default_model_def two_thousand_def
        zero_usage_def charge_def)
  ultimately have "(\<exists>e. r = Inl e) \<and> bs_total_cost s' = 12 \<and> bs_file s' = None"
    using only_session_limit_enforced [OF _ t] by (auto simp: exceeded_def)
  with t show ?thesis by simp
qed

text \<open>Prices are per million tokens, but the output of a model with flat prices is charged per
  thousand: a thousand times the documented cost.\<close>

lemma flat_output_overcharged:
  "mi_tiers m = [] \<Longrightarrow> mi_output_price m = Some p \<Longrightarrow>
     cb_output_cost (calculate_cost m u) = 1000 * (of_int (tu_output u) / 1000000 * p)"
  by (simp add: calculate_cost_def base_costs_def charge_def case_prod_unfold Let_def)

lemma tier_input_overcharged:
  "mi_tiers m \<noteq> [] \<Longrightarrow> find_tier (mi_tiers m) (tu_input u) = Some t \<Longrightarrow>
     tier_price t ''inputPrice'' (mi_input_price m) = Some p \<Longrightarrow>
     cb_input_cost (calculate_cost m u) = 1000 * (of_int (tu_input u) / 1000000 * p)"
  by (simp add: calculate_cost_def base_costs_def charge_def case_prod_unfold Let_def)

subsection \<open>Pending usage\<close>

text \<open>The tier of a call is the smallest window that holds its input.\<close>

lemma find_tier_smallest:
  assumes "find_tier tiers n = Some t" "\<forall>t \<in> set tiers. pt_window t \<noteq> None"
  shows "t \<in> set tiers \<and> of_int n \<le> the (pt_window t) \<and>
    (\<forall>t' \<in> set tiers. of_int n \<le> the (pt_window t') \<longrightarrow> the (pt_window t) \<le> the (pt_window t'))"
proof -
  let ?k = "\<lambda>t. case pt_window t of None \<Rightarrow> 0 | Some w \<Rightarrow> w"
  let ?ok = "\<lambda>t. case pt_window t of None \<Rightarrow> True | Some w \<Rightarrow> of_int n \<le> w"
  obtain i where i: "i < length tiers" "t = sort_key ?k tiers ! i" "?ok t" "\<forall>j < i. \<not> ?ok (sort_key ?k tiers ! j)"
    using assms(1) by (auto simp: find_tier_def find_Some_iff)
  have s: "sorted (map ?k (sort_key ?k tiers))" by simp
  have t: "t \<in> set tiers" using i(1, 2) nth_mem [of i "sort_key ?k tiers"] by simp
  have "the (pt_window t) \<le> the (pt_window t')" if t': "t' \<in> set tiers" "of_int n \<le> the (pt_window t')" for t'
  proof -
    have "t' \<in> set (sort_key ?k tiers)" using t' by simp
    then obtain j where j: "j < length tiers" "t' = sort_key ?k tiers ! j" unfolding in_set_conv_nth by auto
    have "?ok t'" using assms(2) t' by (auto split: option.splits)
    with i(4) j have "i \<le> j" by (meson not_le)
    with s j have "?k t \<le> ?k t'" by (auto simp: i(2) sorted_iff_nth_mono)
    with assms(2) t t' show ?thesis by (auto split: option.splits)
  qed
  with t i(3) assms(2) show ?thesis by (auto split: option.splits)
qed

lemma track_usage_total:
  assumes "\<forall>l \<in> set_option (bl_daily (bs_limits s)). 0 \<le> l" "track_usage fmt4 dates provider m u s = (r, s')"
  shows "((\<exists>e. r = Inl e) \<longleftrightarrow>
      exceeded (bl_session (bs_limits s)) (bs_total_cost s + cb_total_cost (calculate_cost m u))) \<and>
    bs_total_cost s' = bs_total_cost s + cb_total_cost (calculate_cost m u) \<and> bs_limits s' = bs_limits s"
proof -
  obtain today month today' where d: "dates = (today, month, today')" by (cases dates)
  show ?thesis
    using assms(2) unfolding d track_usage_result [OF assms(1)]
    by (auto simp: Let_def record_usage_in_def save_usage_data_def split: if_splits)
qed

lemma loop_exceeded:
  assumes "process_loop fmt4 dates ps s = (Inl e, s')" "\<forall>l \<in> set_option (bl_daily (bs_limits s)). 0 \<le> l"
  shows "bs_limits s' = bs_limits s \<and> exceeded (bl_session (bs_limits s)) (bs_total_cost s')"
  using assms
proof (induction ps arbitrary: s)
  case (Cons q ps)
  obtain p m u where q: "q = (p, m, u)" by (cases q)
  obtain r s1 where t: "track_usage fmt4 dates p m u s = (r, s1)" by fastforce
  note tt = track_usage_total [OF Cons.prems(2) t]
  show ?case
  proof (cases r)
    case (Inl x)
    with Cons.prems(1) t tt show ?thesis by (auto simp: q)
  next
    case (Inr c)
    then have "process_loop fmt4 dates ps s1 = (Inl e, s')"
      using Cons.prems(1) t by (auto simp: q split: prod.splits sum.splits)
    from Cons.IH [OF this] tt Cons.prems(2) show ?thesis by simp
  qed
qed simp

text \<open>When a pending call exceeds the session limit, processing stops there, but every pending
  call stays pending: the next round counts the first of them again, although it may have
  been counted before, and stops at once.\<close>

theorem pending_counted_again:
  assumes "process_pending_usage fmt4 dates ((provider, m, u) # rest, s) = (Inl e, (pending', s'))"
    and "\<forall>l \<in> set_option (bl_daily (bs_limits s)). 0 \<le> l" "0 \<le> cb_total_cost (calculate_cost m u)"
  shows "pending' = (provider, m, u) # rest \<and>
    (case process_pending_usage fmt4 dates (pending', s') of
       (r, (pending'', s'')) \<Rightarrow>
         (\<exists>e'. r = Inl e') \<and> pending'' = pending' \<and>
         bs_total_cost s'' = bs_total_cost s' + cb_total_cost (calculate_cost m u))"
proof -
  have p: "pending' = (provider, m, u) # rest" and l: "process_loop fmt4 dates ((provider, m, u) # rest) s = (Inl e, s')"
    using assms(1) by (auto simp: process_pending_usage_def split: prod.splits sum.splits)
  note ex = loop_exceeded [OF l assms(2)]
  obtain r1 s1 where t: "track_usage fmt4 dates provider m u s' = (r1, s1)" by fastforce
  have d: "\<forall>l \<in> set_option (bl_daily (bs_limits s')). 0 \<le> l" using ex assms(2) by simp
  have "exceeded (bl_session (bs_limits s')) (bs_total_cost s' + cb_total_cost (calculate_cost m u))"
    using ex assms(3) by (auto simp: exceeded_def split: option.splits)
  with track_usage_total [OF d t] obtain e' where "r1 = Inl e'" "bs_total_cost s1 = bs_total_cost s' + cb_total_cost (calculate_cost m u)"
    by blast
  with t show ?thesis by (simp add: process_pending_usage_def p)
qed

theorem pending_counted_again_witness:
  "case process_pending_usage (\<lambda>_. []) (''d'', ''m'', ''d'')
      ([(''openai'', gpt, two_thousand)], new_budget_system (make_limits None None (Some 10) None None None) None) of
     (r, (pending', s')) \<Rightarrow>
       pending' = [(''openai'', gpt, two_thousand)] \<and>
       bs_total_cost (snd (snd (process_pending_usage (\<lambda>_. []) (''d'', ''m'', ''d'') (pending', s')))) = bs_total_cost s' + 12"
proof -
  let ?s = "new_budget_system (make_limits None None (Some 10) None None None) None"
  have l: "bs_limits ?s = \<lparr>bl_daily = None, bl_monthly = None, bl_session = Some 10\<rparr>" "bs_total_cost ?s = 0"
    by (simp_all add: new_budget_system_def load_usage_data_def make_limits_def prefer_snake_def)
  have c: "cb_total_cost (calculate_cost gpt two_thousand) = 12"
    by (simp add: calculate_cost_def base_costs_def thinking_costs_def gpt_def default_model_def two_thousand_def
        zero_usage_def charge_def)
  obtain r1 s1 where t: "track_usage (\<lambda>_. []) (''d'', ''m'', ''d'') ''openai'' gpt two_thousand ?s = (r1, s1)" by fastforce
  then obtain e where "r1 = Inl e"
    using track_usage_total [OF _ t] l c by (auto simp: exceeded_def)
  then have p: "process_pending_usage (\<lambda>_. []) (''d'', ''m'', ''d'') ([(''openai'', gpt, two_thousand)], ?s)
      = (Inl e, ([(''openai'', gpt, two_thousand)], s1))"
    by (simp add: process_pending_usage_def t)
  from pending_counted_again [OF p] l c show ?thesis by (auto simp: p split: prod.splits)
qed

end
