(* ===== verification/Spec2Isabelle.thy ===== *)
theory Spec2Isabelle
  imports ModelCalls Decompose KeywordSearch MemoryPolicy Webhook CostTracker FixLoop Progress Coerce Schema Summary Parallel Context TaskQueue CircuitBreaker
    StateView RateLimiter Sessions CommandProps ScanJobs TokenBudget Redaction RunStore
begin

text \<open>
  HordeForge, an orchestrator of pipelines of agents, and what makes its core correct.

  The program and the theories.
  A pipeline is a definition in YAML: steps with an agent, inputs, failure policies,
  dependencies and loops. \<open>orchestrator/loader.py\<close> parses it (Loader), the registries of
  \<open>registry/\<close> hold agents, contracts and pipelines (Registry), and two validators look at
  it before it runs: \<open>orchestrator/pipeline_validator.py\<close> and
  \<open>registry/pipelines.py\<close> (Cycles, Placeholders, PipelineCheck).
  \<open>orchestrator/engine.py\<close> runs it: it builds the dependency graph and picks
  batches of steps without common locks (\<open>orchestrator/parallel.py\<close>, Parallel), executes the
  steps of a batch (\<open>orchestrator/executor.py\<close>, StateView, Coerce, Executor), checks what an
  agent returns against a schema (\<open>orchestrator/validation.py\<close>, Schema), keeps the state of
  the run (\<open>orchestrator/state.py\<close>, \<open>status.py\<close>, \<open>context.py\<close>, \<open>pipeline_state.py\<close>; Status, RunState,
  Context) and sums it up (\<open>summary.py\<close>, Summary). The engine is in Engine, its guarantees in
  EngineProps and EngineOrder, runs on concrete inputs in EngineEval, and what it shares
  with the validators in Progress.
  \<open>scheduler/gateway.py\<close> takes requests in front of the engine (Gateway, GatewayCommands;
  guarantees in GatewayProps, CommandProps): it checks tenants (\<open>tenant_registry.py\<close>, Tenants),
  finds repeated requests (\<open>idempotency.py\<close>, Idempotency), enqueues (\<open>task_queue.py\<close>, TaskQueue),
  stores runs, logs and artifacts (\<open>storage/\<close>, RunStore) without secrets (\<open>logging_utils.py\<close>,
  Redaction), counts and alerts (\<open>observability/\<close>, Observability) and authorises operators
  (\<open>scheduler/auth/\<close>, Access, Sessions). Requests also come from the GitHub webhook
  (\<open>api/\<close>, Webhook) and from the jobs of the schedule (\<open>cron_dispatcher.py\<close>,
  \<open>scheduler/jobs/\<close>; Schedule, ScanJobs). Beside these are the rate limiter (RateLimiter),
  the circuit breaker (CircuitBreaker), the accounts of model calls (TokenBudget, CostTracker)
  and the parts of agents that compute. \<open>agents/llm_wrapper.py\<close> calls models: ModelOutput reads
  their answers, ModelCalls chooses profiles and models and counts the attempts.
  \<open>agents/task_decomposer.py\<close> plans subtasks (Decompose) and orders them by their dependencies
  (TaskGraph), \<open>agents/fix_loop.py\<close> repeats fixes until the tests pass (FixLoop), both on a
  matcher of Python's regular expressions (Regex). KeywordSearch is the inverted index of
  \<open>rag/keyword_index.py\<close> with the duplicates, the size of contexts and the merging of results
  (\<open>rag/deduplicator.py\<close>, \<open>context_compressor.py\<close>, \<open>hybrid_retriever.py\<close>); MemoryPolicy decides
  which entries of a run become long-term memory (\<open>orchestrator/memory_policy.py\<close>, \<open>hooks.py\<close>).

  How the code is modelled.
  A class is a record, an enumeration a datatype, an untyped value a \<open>pyval\<close> (PyValue: none,
  bool, int, float as an exact fraction, text, list, dictionary). A dictionary is an association list in the order of
  insertion. What may raise returns \<open>exn + 'a\<close> (Prelude), what also changes state is a
  function from the state to a result and a state, so that a raise keeps the changes made
  before it (StateExn, with a Hoare triple for both ways out). Integers are unbounded as in
  Python; texts are lists of characters, and case, blanks and words are those of ASCII.
  A parameter stands for what is not in the sources: agents, clocks, identifiers, hashes, the texts of floats (\<open>fstr\<close>), the parsers of JSON,
  YAML and time stamps, the HMAC, Redis, the models of language, the order in which Python
  iterates over a set. Where a property needs
  something of a parameter (a clock that does not run backwards, identifiers that are new,
  a strict schema validator) it is a named hypothesis, and its witness instantiates it.

  Interfaces.
  The locales state what one part relies on in another, each interpreted on the model of the
  part that provides it: \<open>step_runner\<close> (EngineProps; the step executor), \<open>named_registry\<close>
  (Registry; contracts, agents, pipelines, and the schedules), \<open>fifo_queue\<close> (TaskQueue; the
  in-memory queue), \<open>rate_backend\<close> (RateLimiter; both back ends), \<open>storage\<close>, \<open>codec\<close> and
  \<open>repository\<close> (RunStore; the JSON file and the three kinds of records), \<open>once_job\<close> (ScanJobs; the
  issue scanner and the monitor).

  What is shown.
  Engine: a step whose inputs resolve never raises and ends in one of four statuses
  (Executor); the policies decide when a run stops; a fresh run ends in a well-formed state;
  with batches of one step the final status is honest, in a parallel batch the worker that
  comes last decides it, so that a failure can be masked. Definitions: what the parser
  accepts is well formed; both validators accept exactly what their specification says; the
  dependency graph and the batches are as specified, an acyclic graph always has a ready
  step, and a pipeline with a step that reads ahead passes the validators but never comes to
  its end. Schemas: validation is equivalent to an inductive conformance relation.
  Gateway: every accepted run is stored, finished and counted; rejected requests and commands
  change nothing; repeated requests and deliveries run nothing while their key is remembered,
  whatever comes in between (the invariant \<open>holds_key\<close>); drained tasks are settled. These
  properties are about tenants without a colon in their names, since the repository of runs
  reads the tenant off the identifier up to the first colon. Queue, idempotency store, state
  view: refinements of an abstract queue, a history and a dictionary. Limiter, schedule,
  sessions, breaker: bounds over all sequences of operations. Storage and tokens: round trips.
  Task groups and the fix loop: termination. Models: what is read from an answer is the JSON
  it holds, the attempts are bounded with one wait between two, and a provider that refuses
  the credentials is not asked by \<open>complete\<close> for a time. Search: exactly the documents with a
  word of the query, ranked, as long as no identifier is used twice.

  Termination and fuel.
  No definition runs out of fuel. Recursion is structural or has a measure: Kahn's algorithm
  the incoming edges and the queue left, the depth-first search the nodes not visited and the
  frames left, the loops of the engine the attempts, iterations or steps left.
  \<open>while_option\<close> models the loop of TaskGraph, which is shown to end for every input. The
  fallback of a task to another in the router of ModelCalls may never return and is a
  \<open>partial_function\<close>: not returning is the value \<open>None\<close>, and the routes with that value are
  characterised. The
  matcher of Regex bounds the iterations of a star by the length of the text left, of which
  each iteration consumes a character, and the number of matches by that of the text.

  Not modelled.
  Threads: a lock makes an operation atomic, workers are interleaved at the points where the
  engine stores, and two processes on one file are not considered. Logging, audit entries,
  health and metrics endpoints, and the dictionaries that only present a record. Agents
  beyond those named: they wrap calls of models, of GitHub and of processes. The retrieval
  over vector stores, the command line, exporters, Postgres, Kubernetes, the scripts and the
  migrations: input and output of third parties. Floating point: prices and times are exact
  fractions, so rounding errors of sums are not seen.
\<close>

end
